(* ===== verification/Kprelude.thy ===== *)
theory Kprelude
  imports Main "HOL-Library.Word" "HOL-Library.Monad_Syntax"
begin

unbundle bit_operations_syntax

text \<open>
  Shared vocabulary of the development: the machine types of the i386 build, the outcome type of
  kernel code, assertions, spin locks taken by the \<^verbatim>\<open>__lock\<close> macro, checked array accesses, and
  the generic lemmas on options, lists and words that the component theories use.

  Kernel code is modelled as a function into an \<open>option\<close>. \<open>None\<close> means that control does not come
  back: a failed \<^verbatim>\<open>DEBUG_ASSERT\<close> prints and spins (the default CMake build type is Debug),
  \<^verbatim>\<open>kpanic\<close> stops the machine, a spin lock that is already held is waited for forever in a
  sequential run, and an access outside the object it is meant for has no defined result.
  Ordinary errors (\<^verbatim>\<open>errno\<close>, a returned \<open>-1\<close> or \<open>NULL\<close>) are values inside \<open>Some\<close>.
\<close>

section \<open>Machine types\<close>

type_synonym byte = "8 word"
type_synonym u16 = "16 word"
type_synonym u32 = "32 word"
type_synonym u64 = "64 word"

text \<open>The access modes of \<^verbatim>\<open>ptr_check\<close> and \<^verbatim>\<open>access\<close>.\<close>

definition R_OK :: u32 where "R_OK = 4"
definition W_OK :: u32 where "W_OK = 2"
definition X_OK :: u32 where "X_OK = 1"

text \<open>Where the memory of the machine is mapped for the kernel.\<close>

definition CONFIG_KERNEL_BASE :: u32 where
  "CONFIG_KERNEL_BASE = 0xC0000000"

text \<open>Function definitions and record equations that the component proofs unfold together.\<close>

named_theorems kdefs

text \<open>Facts about a lock being free, used to run a critical section symbolically.\<close>

named_theorems lock_simps

section \<open>Outcomes\<close>

definition kassert :: "bool \<Rightarrow> unit option" where
  "kassert b = (if b then Some () else None)"

lemma kassert_simps [simp]:
  "kassert True = Some ()" "kassert False = None"
  by (simp_all add: kassert_def)

lemma kassert_eq_Some [simp]: "kassert b = Some u \<longleftrightarrow> b"
  by (simp add: kassert_def)

lemma bind_kassert_eq_Some [simp]:
  "Option.bind (kassert b) f = Some r \<longleftrightarrow> b \<and> f () = Some r"
  by (cases b) simp_all

lemma bind_kassert_True: "b \<Longrightarrow> Option.bind (kassert b) f = f ()"
  by simp

text \<open>A critical section: \<^verbatim>\<open>spinlock_lock\<close>, the body, \<^verbatim>\<open>spinlock_unlock\<close>.\<close>

definition with_lock ::
  "('s \<Rightarrow> bool) \<Rightarrow> (bool \<Rightarrow> 's \<Rightarrow> 's) \<Rightarrow> ('s \<Rightarrow> ('a \<times> 's) option) \<Rightarrow> 's \<Rightarrow> ('a \<times> 's) option" where
  "with_lock held set_held body s =
     (if held s then None
      else case body (set_held True s) of
             None \<Rightarrow> None
           | Some (r, s') \<Rightarrow> Some (r, set_held False s'))"

lemma with_lock_held [lock_simps]: "held s \<Longrightarrow> with_lock held set_held body s = None"
  by (simp add: with_lock_def)

lemma with_lock_free [lock_simps]:
  "\<not> held s \<Longrightarrow> with_lock held set_held body s =
     map_option (\<lambda>(r, s'). (r, set_held False s')) (body (set_held True s))"
  by (simp add: with_lock_def split: option.splits)

lemma with_lock_SomeE:
  assumes "with_lock held set_held body s = Some (r, t)"
  obtains t' where "\<not> held s" "body (set_held True s) = Some (r, t')" "t = set_held False t'"
  using assms by (auto simp: with_lock_def split: if_splits option.splits)

section \<open>Arrays with their bounds\<close>

text \<open>
  A C array is a list; reading or writing outside it is undefined behaviour and so \<open>None\<close>.
\<close>

definition array_get :: "'a list \<Rightarrow> nat \<Rightarrow> 'a option" where
  "array_get xs i = (if i < length xs then Some (xs ! i) else None)"

definition array_set :: "'a list \<Rightarrow> nat \<Rightarrow> 'a \<Rightarrow> 'a list option" where
  "array_set xs i x = (if i < length xs then Some (xs[i := x]) else None)"

lemma array_get_in [simp]: "i < length xs \<Longrightarrow> array_get xs i = Some (xs ! i)"
  by (simp add: array_get_def)

lemma array_get_out [simp]: "\<not> i < length xs \<Longrightarrow> array_get xs i = None"
  by (simp add: array_get_def)

lemma array_get_eq_Some: "array_get xs i = Some x \<longleftrightarrow> i < length xs \<and> x = xs ! i"
  by (auto simp: array_get_def)

lemma array_set_in [simp]: "i < length xs \<Longrightarrow> array_set xs i x = Some (xs[i := x])"
  by (simp add: array_set_def)

lemma array_set_out [simp]: "\<not> i < length xs \<Longrightarrow> array_set xs i x = None"
  by (simp add: array_set_def)

lemma array_set_eq_Some: "array_set xs i x = Some ys \<longleftrightarrow> i < length xs \<and> ys = xs[i := x]"
  by (auto simp: array_set_def)

text \<open>\<^verbatim>\<open>memcpy\<close> from and into the middle of a buffer, again with the bounds made explicit.\<close>

definition mem_slice :: "'a list \<Rightarrow> nat \<Rightarrow> nat \<Rightarrow> 'a list option" where
  "mem_slice xs off n = (if off + n \<le> length xs then Some (take n (drop off xs)) else None)"

definition mem_store :: "'a list \<Rightarrow> nat \<Rightarrow> 'a list \<Rightarrow> 'a list option" where
  "mem_store xs off ys =
     (if off + length ys \<le> length xs
      then Some (take off xs @ ys @ drop (off + length ys) xs) else None)"

lemma length_mem_slice: "mem_slice xs off n = Some ys \<Longrightarrow> length ys = n"
  by (auto simp: mem_slice_def split: if_splits)

lemma length_mem_store: "mem_store xs off ys = Some zs \<Longrightarrow> length zs = length xs"
  by (auto simp: mem_store_def split: if_splits)

lemma mem_slice_store: "mem_store xs off ys = Some zs \<Longrightarrow> mem_slice zs off (length ys) = Some ys"
  by (auto simp: mem_store_def mem_slice_def split: if_splits)

lemma nth_mem_store:
  assumes "mem_store xs off ys = Some zs" and "i < length xs"
  shows "zs ! i = (if off \<le> i \<and> i < off + length ys then ys ! (i - off) else xs ! i)"
  using assms by (auto simp: mem_store_def nth_append min_def split: if_splits)

section \<open>Numbers and words\<close>

lemma less_of_mult: "(a :: nat) * k < b \<Longrightarrow> k \<noteq> 0 \<Longrightarrow> a < b"
  by (cases k) auto

lemma unat_Suc_word:
  "unat (w :: 'a::len word) < 2 ^ LENGTH('a) - 1 \<Longrightarrow> unat (w + 1) = unat w + 1"
  by (simp add: unat_word_ariths)

lemma unat_u32_less: "unat (w :: u32) < 2 ^ 32"
  using unsigned_less [of w, where ?'a = nat] by simp

lemma unat_mod_word: "unat ((a :: 'a::len word) mod b) = unat a mod unat b"
  by (simp add: unat_mod_distrib)

lemma unat_add_small: "unat (x :: u32) + unat y < 2 ^ 32 \<Longrightarrow> unat (x + y) = unat x + unat y"
  by (simp add: unat_word_ariths)

lemma sint_small:
  assumes "unat (x :: u32) < 2 ^ 31"
  shows "sint x = int (unat x)"
proof -
  have "int (unat x) < int (2 ^ 31)" using assms by (simp only: of_nat_less_iff)
  then have "uint x < 2 ^ 31" by simp
  then have "sint x = uint x"
    unfolding sint_uint
    by (intro signed_take_bit_int_eq_self) (simp_all add: order_trans [OF _ uint_ge_0])
  then show ?thesis by simp
qed

lemma sint_of_nat_small: "k < 2 ^ 31 \<Longrightarrow> sint (of_nat k :: u32) = int k"
  using sint_small [of "of_nat k"] by (simp add: unat_of_nat)

section \<open>Words in memory\<close>

text \<open>
  The fields of a structure in a buffer: words are stored with their lowest byte first. Reading
  outside the buffer, or a byte that was never written (\<open>None\<close>), has no result.
\<close>

definition mem8 :: "byte option list \<Rightarrow> nat \<Rightarrow> byte option" where
  "mem8 xs i = Option.bind (array_get xs i) (\<lambda>b. b)"

definition mem16 :: "byte option list \<Rightarrow> nat \<Rightarrow> u16 option" where
  "mem16 xs i = do { a \<leftarrow> mem8 xs i; b \<leftarrow> mem8 xs (i + 1); Some (ucast a OR push_bit 8 (ucast b)) }"

definition mem32 :: "byte option list \<Rightarrow> nat \<Rightarrow> u32 option" where
  "mem32 xs i = do { a \<leftarrow> mem16 xs i; b \<leftarrow> mem16 xs (i + 2); Some (ucast a OR push_bit 16 (ucast b)) }"

definition bytes16 :: "u16 \<Rightarrow> byte list" where
  "bytes16 x = [ucast x, ucast (drop_bit 8 x)]"

definition bytes32 :: "u32 \<Rightarrow> byte list" where
  "bytes32 x = [ucast x, ucast (drop_bit 8 x), ucast (drop_bit 16 x), ucast (drop_bit 24 x)]"

lemma length_bytes [simp]: "length (bytes16 x) = 2" "length (bytes32 y) = 4"
  by (simp_all add: bytes16_def bytes32_def)

lemma mem8_nth: "i < length xs \<Longrightarrow> mem8 xs i = xs ! i"
  by (simp add: mem8_def)

lemma mem8_map [simp]: "i < length xs \<Longrightarrow> mem8 (map Some xs) i = Some (xs ! i)"
  by (simp add: mem8_nth)

lemma mem8_append: "mem8 (xs @ ys) i = (if i < length xs then mem8 xs i else mem8 ys (i - length xs))"
  by (auto simp: mem8_def array_get_def nth_append)

lemma mem8_drop: "mem8 (drop n xs) i = mem8 xs (n + i)"
  by (auto simp: mem8_def array_get_def)

lemma mem16_drop: "mem16 (drop n xs) i = mem16 xs (n + i)"
  by (simp add: mem16_def mem8_drop)

lemma mem32_drop: "mem32 (drop n xs) i = mem32 xs (n + i)"
  by (simp add: mem32_def mem16_drop ac_simps)

lemma word_join16: "ucast (ucast x :: byte) OR push_bit 8 (ucast (ucast (drop_bit 8 x) :: byte)) = (x :: u16)"
  by (rule bit_word_eqI) (auto simp: bit_simps)

lemma mem16_bytes [simp]: "mem16 (map Some (bytes16 x) @ ys) 0 = Some x"
  by (simp add: mem16_def mem8_def bytes16_def word_join16)

lemma mem32_bytes [simp]: "mem32 (map Some (bytes32 x) @ ys) 0 = Some x"
proof -
  have "ucast (ucast (ucast x :: byte) OR push_bit 8 (ucast (ucast (drop_bit 8 x) :: byte)) :: u16)
      OR push_bit 16 (ucast (ucast (ucast (drop_bit 16 x) :: byte)
           OR push_bit 8 (ucast (ucast (drop_bit 24 x) :: byte)) :: u16)) = x" (is "?y = x")
  proof (rule bit_word_eqI)
    fix n assume "n < LENGTH(32)"
    then show "bit ?y n = bit x n" by (cases "16 \<le> n") (auto simp: bit_simps)
  qed
  then show ?thesis by (simp add: mem32_def mem16_def mem8_def bytes32_def)
qed

section \<open>Buffers and files\<close>

text \<open>The specification of a write at an offset inside a sequence, which it overwrites or extends, and of a read.\<close>

definition pwrite :: "'a list \<Rightarrow> nat \<Rightarrow> 'a list \<Rightarrow> 'a list" where
  "pwrite xs off ys = take off xs @ ys @ drop (off + length ys) xs"

definition pread :: "'a list \<Rightarrow> nat \<Rightarrow> nat \<Rightarrow> 'a list" where
  "pread xs off n = take n (drop off xs)"

lemma length_pwrite: "off \<le> length xs \<Longrightarrow> length (pwrite xs off ys) = max (length xs) (off + length ys)"
  by (auto simp: pwrite_def)

lemma pread_pwrite_same: "off \<le> length xs \<Longrightarrow> pread (pwrite xs off ys) off (length ys) = ys"
  by (simp add: pread_def pwrite_def)

lemma pread_pwrite_before:
  "off \<le> length xs \<Longrightarrow> o' + n \<le> off \<Longrightarrow> pread (pwrite xs off ys) o' n = pread xs o' n"
  by (simp add: pread_def pwrite_def drop_take min_absorb1)

lemma length_pwrite_in: "x + length ys \<le> length C \<Longrightarrow> length (pwrite C x ys) = length C"
  by (simp add: pwrite_def)

lemma nth_pwrite:
  assumes "x + length ys \<le> length C" "j < length C"
  shows "pwrite C x ys ! j = (if x \<le> j \<and> j < x + length ys then ys ! (j - x) else C ! j)"
  using assms by (auto simp: pwrite_def nth_append min_def)

text \<open>The disk holds the bytes \<open>bs\<close> from \<open>o\<close> on at the positions in \<open>S\<close>, and what it had elsewhere.\<close>

definition wagree :: "'a list \<Rightarrow> nat \<Rightarrow> 'a list \<Rightarrow> nat set \<Rightarrow> 'a list \<Rightarrow> bool" where
  "wagree C0 o0 bs S C \<longleftrightarrow> length C = length C0 \<and> (\<forall>j < length C0. C ! j = (if j \<in> S then bs ! (j - o0) else C0 ! j))"

lemma wagree_refl: "wagree C o0 bs {} C"
  by (simp add: wagree_def)

lemma wagree_upd:
  assumes "wagree C0 o0 bs S C" "i + n \<le> length bs" "o0 + i + n \<le> length C0"
  shows "wagree C0 o0 bs (S \<union> {o0 + i..<o0 + i + n}) (pwrite C (o0 + i) (take n (drop i bs)))"
proof -
  have l: "length (take n (drop i bs)) = n" "length C = length C0" using assms by (simp_all add: wagree_def)
  show ?thesis
    unfolding wagree_def
  proof (intro conjI allI impI)
    show "length (pwrite C (o0 + i) (take n (drop i bs))) = length C0" using l assms(3) by (simp add: length_pwrite_in)
    fix j assume j: "j < length C0"
    have "pwrite C (o0 + i) (take n (drop i bs)) ! j =
        (if o0 + i \<le> j \<and> j < o0 + i + n then take n (drop i bs) ! (j - (o0 + i)) else C ! j)"
      using nth_pwrite [of "o0 + i" "take n (drop i bs)" C j] l assms(3) j by simp
    then show "pwrite C (o0 + i) (take n (drop i bs)) ! j = (if j \<in> S \<union> {o0 + i..<o0 + i + n} then bs ! (j - o0) else C0 ! j)"
      using assms j by (auto simp: wagree_def)
  qed
qed

lemma wagree_full:
  assumes "wagree C0 o0 bs {o0..<o0 + length bs} C" "o0 + length bs \<le> length C0"
  shows "C = pwrite C0 o0 bs"
  using assms by (intro nth_equalityI) (auto simp: wagree_def nth_pwrite length_pwrite_in)

text \<open>The buffer holds the bytes of \<open>C\<close> from \<open>o\<close> on at the positions in \<open>S\<close>, and what it had elsewhere.\<close>

definition agree :: "'a list \<Rightarrow> nat \<Rightarrow> 'a option list \<Rightarrow> nat set \<Rightarrow> 'a option list \<Rightarrow> bool" where
  "agree C o0 b0 S b \<longleftrightarrow> length b = length b0
     \<and> (\<forall>j < length b0. b ! j = (if j \<in> S then Some (C ! (o0 + j)) else b0 ! j))"

lemma agree_refl: "agree C o0 b {} b"
  by (simp add: agree_def)

lemma agree_store:
  assumes "agree C o0 b0 S b" "x + n \<le> length b0" "o0 + x + n \<le> length C"
  obtains b' where "mem_store b x (map Some (take n (drop (o0 + x) C))) = Some b'"
    "agree C o0 b0 (S \<union> {x..<x + n}) b'"
proof -
  let ?xs = "map Some (take n (drop (o0 + x) C))"
  have l: "length ?xs = n" using assms(3) by simp
  then obtain b' where b': "mem_store b x ?xs = Some b'"
    using assms(1,2) by (simp add: mem_store_def agree_def)
  have "agree C o0 b0 (S \<union> {x..<x + n}) b'"
    unfolding agree_def
  proof (intro conjI allI impI)
    show "length b' = length b0" using length_mem_store [OF b'] assms(1) by (simp add: agree_def)
    fix j assume j: "j < length b0"
    then have "b' ! j = (if x \<le> j \<and> j < x + n then ?xs ! (j - x) else b ! j)"
      using nth_mem_store [OF b', of j] assms(1) l by (simp add: agree_def)
    then show "b' ! j = (if j \<in> S \<union> {x..<x + n} then Some (C ! (o0 + j)) else b0 ! j)"
      using assms j by (auto simp: agree_def)
  qed
  with that b' show ?thesis by blast
qed

lemma agree_full:
  assumes "agree C o0 b0 {0..<n} b" "n \<le> length b0" "o0 + n \<le> length C"
  shows "b = map Some (take n (drop o0 C)) @ drop n b0"
  using assms by (intro nth_equalityI) (auto simp: agree_def nth_append)

end
