(* ===== verification/Ringbuffer.thy ===== *)
theory Ringbuffer
  imports Kprelude
begin

text \<open>
  The byte ring buffer of \<^verbatim>\<open>os/kernel/utils/ringbuffer.c\<close>: its record, every operation of the file
  (creation, destruction, reset, the two tests, the fill count, write and read with their loops
  under the lock), the representation invariant, and the refinement to a bounded first-in
  first-out queue of bytes that forgets its oldest bytes when it overflows.
\<close>

section \<open>Model\<close>

record ringbuffer =
  rb_buffer :: "byte list option"
  rb_head :: u32
  rb_tail :: u32
  rb_size :: u32
  rb_full :: bool
  rb_lock :: bool

abbreviation rb_locked :: "(ringbuffer \<Rightarrow> ('a \<times> ringbuffer) option) \<Rightarrow> ringbuffer \<Rightarrow> ('a \<times> ringbuffer) option" where
  "rb_locked \<equiv> with_lock rb_lock (\<lambda>b. rb_lock_update (\<lambda>_. b))"

text \<open>\<open>mem\<close> is what \<^verbatim>\<open>kmalloc(size)\<close> returns: \<open>None\<close>, or a block with its unspecified contents.\<close>

definition ringbuffer_create :: "byte list option \<Rightarrow> u32 \<Rightarrow> ringbuffer option" where
  "ringbuffer_create mem sz =
     do {
       kassert (sz \<noteq> 0);
       Some \<lparr>rb_buffer = mem, rb_head = 0, rb_tail = 0, rb_size = sz, rb_full = False,
             rb_lock = False\<rparr>
     }"

definition ringbuffer_destroy :: "ringbuffer \<Rightarrow> (unit \<times> ringbuffer) option" where
  "ringbuffer_destroy rb =
     do {
       kassert (rb_buffer rb \<noteq> None);
       rb_locked (\<lambda>rb. Some ((), rb\<lparr>rb_size := 0, rb_head := 0, rb_tail := 0, rb_buffer := None\<rparr>)) rb
     }"

definition ringbuffer_reset :: "ringbuffer \<Rightarrow> (unit \<times> ringbuffer) option" where
  "ringbuffer_reset rb =
     do {
       kassert (rb_buffer rb \<noteq> None);
       rb_locked (\<lambda>rb. Some ((), rb\<lparr>rb_head := 0, rb_tail := 0, rb_full := False\<rparr>)) rb
     }"

definition ringbuffer_is_full :: "ringbuffer \<Rightarrow> bool option" where
  "ringbuffer_is_full rb = do { kassert (rb_buffer rb \<noteq> None); Some (rb_full rb) }"

definition ringbuffer_is_empty :: "ringbuffer \<Rightarrow> bool option" where
  "ringbuffer_is_empty rb =
     do { kassert (rb_buffer rb \<noteq> None); Some (\<not> rb_full rb \<and> rb_head rb = rb_tail rb) }"

definition ringbuffer_available :: "ringbuffer \<Rightarrow> u32 option" where
  "ringbuffer_available rb =
     do {
       kassert (rb_buffer rb \<noteq> None);
       Some (if rb_full rb then rb_size rb
             else if rb_tail rb \<le> rb_head rb then rb_head rb - rb_tail rb
             else rb_head rb - rb_tail rb + rb_size rb)
     }"

text \<open>One turn of the loop of \<^verbatim>\<open>ringbuffer_write\<close>.\<close>

definition rb_put :: "byte \<Rightarrow> ringbuffer \<Rightarrow> ringbuffer option" where
  "rb_put b rb =
     do {
       buf \<leftarrow> rb_buffer rb;
       buf' \<leftarrow> array_set buf (unat (rb_head rb)) b;
       let tail' = (if rb_full rb then (rb_tail rb + 1) mod rb_size rb else rb_tail rb);
       let head' = (rb_head rb + 1) mod rb_size rb;
       Some (rb\<lparr>rb_buffer := Some buf', rb_tail := tail', rb_head := head',
                rb_full := (head' = tail')\<rparr>)
     }"

fun rb_write_loop :: "byte list \<Rightarrow> ringbuffer \<Rightarrow> ringbuffer option" where
  "rb_write_loop [] rb = Some rb"
| "rb_write_loop (b # bs) rb = do { rb' \<leftarrow> rb_put b rb; rb_write_loop bs rb' }"

text \<open>\<open>bs\<close> holds the \<open>size\<close> bytes at \<^verbatim>\<open>buf\<close>; the result is the byte count.\<close>

definition ringbuffer_write :: "byte list \<Rightarrow> ringbuffer \<Rightarrow> (nat \<times> ringbuffer) option" where
  "ringbuffer_write bs rb =
     do {
       kassert (rb_buffer rb \<noteq> None);
       rb_locked (\<lambda>rb. do { rb' \<leftarrow> rb_write_loop bs rb; Some (length bs, rb') }) rb
     }"

text \<open>One turn of the loop of \<^verbatim>\<open>ringbuffer_read\<close>: \<open>Some (None, _)\<close> is the \<^verbatim>\<open>break\<close>.\<close>

definition rb_get :: "ringbuffer \<Rightarrow> (byte option \<times> ringbuffer) option" where
  "rb_get rb =
     do {
       empty \<leftarrow> ringbuffer_is_empty rb;
       if empty then Some (None, rb)
       else do {
         buf \<leftarrow> rb_buffer rb;
         b \<leftarrow> array_get buf (unat (rb_tail rb));
         Some (Some b, rb\<lparr>rb_full := False, rb_tail := (rb_tail rb + 1) mod rb_size rb\<rparr>)
       }
     }"

fun rb_read_loop :: "nat \<Rightarrow> ringbuffer \<Rightarrow> (byte list \<times> ringbuffer) option" where
  "rb_read_loop 0 rb = Some ([], rb)"
| "rb_read_loop (Suc n) rb =
     do {
       (r, rb') \<leftarrow> rb_get rb;
       case r of
         None \<Rightarrow> Some ([], rb')
       | Some b \<Rightarrow> do { (bs, rb'') \<leftarrow> rb_read_loop n rb'; Some (b # bs, rb'') }
     }"

text \<open>The result is the list of bytes stored to \<^verbatim>\<open>buf\<close>; the C function returns its length.\<close>

definition ringbuffer_read :: "nat \<Rightarrow> ringbuffer \<Rightarrow> (byte list \<times> ringbuffer) option" where
  "ringbuffer_read sz rb =
     do { kassert (rb_buffer rb \<noteq> None); rb_locked (rb_read_loop sz) rb }"

section \<open>Invariant and abstraction\<close>

definition rb_wf :: "ringbuffer \<Rightarrow> bool" where
  "rb_wf rb \<longleftrightarrow>
     (case rb_buffer rb of
        None \<Rightarrow> False
      | Some buf \<Rightarrow> length buf = unat (rb_size rb))
     \<and> rb_head rb < rb_size rb \<and> rb_tail rb < rb_size rb
     \<and> (rb_full rb \<longrightarrow> rb_head rb = rb_tail rb)"

text \<open>How many bytes are queued, and which: \<open>rb_len\<close> bytes starting at the tail, wrapping.\<close>

definition rb_len :: "ringbuffer \<Rightarrow> nat" where
  "rb_len rb =
     (if rb_full rb then unat (rb_size rb)
      else (unat (rb_head rb) + unat (rb_size rb) - unat (rb_tail rb)) mod unat (rb_size rb))"

definition rb_queue :: "ringbuffer \<Rightarrow> byte list" where
  "rb_queue rb =
     (case rb_buffer rb of
        None \<Rightarrow> []
      | Some buf \<Rightarrow>
          map (\<lambda>i. buf ! ((unat (rb_tail rb) + i) mod unat (rb_size rb))) [0..<rb_len rb])"

text \<open>The specification: a queue of at most \<open>n\<close> bytes whose oldest bytes give way.\<close>

definition fifo_put :: "nat \<Rightarrow> byte list \<Rightarrow> byte \<Rightarrow> byte list" where
  "fifo_put n q b = (if length q < n then q @ [b] else tl q @ [b])"

definition fifo_write :: "nat \<Rightarrow> byte list \<Rightarrow> byte list \<Rightarrow> byte list" where
  "fifo_write n q bs = drop (length q + length bs - n) (q @ bs)"

text \<open>A client's run: a sequence of writes and reads, and the bytes that its reads return.\<close>

datatype fifo_op = Put "byte list" | Get nat

fun fifo_run :: "nat \<Rightarrow> fifo_op list \<Rightarrow> byte list \<Rightarrow> byte list list \<times> byte list" where
  "fifo_run n [] q = ([], q)"
| "fifo_run n (Put bs # ops) q = fifo_run n ops (fifo_write n q bs)"
| "fifo_run n (Get k # ops) q =
     (let (out, q') = fifo_run n ops (drop k q) in (take k q # out, q'))"

fun queue_run ::
  "(byte list \<Rightarrow> 's \<Rightarrow> (nat \<times> 's) option) \<Rightarrow> (nat \<Rightarrow> 's \<Rightarrow> (byte list \<times> 's) option) \<Rightarrow>
   fifo_op list \<Rightarrow> 's \<Rightarrow> (byte list list \<times> 's) option" where
  "queue_run wr rd [] s = Some ([], s)"
| "queue_run wr rd (Put bs # ops) s = do { (n, s') \<leftarrow> wr bs s; queue_run wr rd ops s' }"
| "queue_run wr rd (Get k # ops) s =
     do { (bs, s') \<leftarrow> rd k s; (out, s'') \<leftarrow> queue_run wr rd ops s'; Some (bs # out, s'') }"

abbreviation rb_run :: "fifo_op list \<Rightarrow> ringbuffer \<Rightarrow> (byte list list \<times> ringbuffer) option" where
  "rb_run \<equiv> queue_run ringbuffer_write ringbuffer_read"

section \<open>The contract of a bounded byte queue\<close>

locale bounded_fifo =
  fixes inv :: "'s \<Rightarrow> bool"
    and cap :: "'s \<Rightarrow> nat"
    and queue :: "'s \<Rightarrow> byte list"
    and wr :: "byte list \<Rightarrow> 's \<Rightarrow> (nat \<times> 's) option"
    and rd :: "nat \<Rightarrow> 's \<Rightarrow> (byte list \<times> 's) option"
  assumes queue_bound: "inv s \<Longrightarrow> length (queue s) \<le> cap s"
    and wr_law: "inv s \<Longrightarrow> \<exists>s'. wr bs s = Some (length bs, s') \<and> inv s' \<and> cap s' = cap s
                   \<and> queue s' = fifo_write (cap s) (queue s) bs"
    and rd_law: "inv s \<Longrightarrow> \<exists>s'. rd k s = Some (take k (queue s), s') \<and> inv s' \<and> cap s' = cap s
                   \<and> queue s' = drop k (queue s)"
begin

text \<open>Every run of the provider is the run of the specification.\<close>

lemma run_refines:
  "inv s \<Longrightarrow> \<exists>s'. queue_run wr rd ops s = Some (fst (fifo_run (cap s) ops (queue s)), s') \<and> inv s'
     \<and> queue s' = snd (fifo_run (cap s) ops (queue s))"
proof (induction ops arbitrary: s)
  case Nil
  then show ?case by simp
next
  case (Cons x ops)
  show ?case
  proof (cases x)
    case (Put bs)
    from wr_law [OF Cons.prems, of bs] obtain s' where "wr bs s = Some (length bs, s')"
      "inv s'" "cap s' = cap s" "queue s' = fifo_write (cap s) (queue s) bs" by blast
    with Cons.IH [of s'] Put show ?thesis by auto
  next
    case (Get k)
    from rd_law [OF Cons.prems, of k] obtain s' where "rd k s = Some (take k (queue s), s')"
      "inv s'" "cap s' = cap s" "queue s' = drop k (queue s)" by blast
    with Cons.IH [of s'] Get show ?thesis by (auto simp: case_prod_beta)
  qed
qed

text \<open>What fits in the free space comes back unchanged and in order, behind what was queued.\<close>

lemma put_get:
  assumes "inv s" "length (queue s) + length bs \<le> cap s"
  shows "\<exists>s'. queue_run wr rd [Put bs, Get (length (queue s)), Get (length bs)] s
           = Some ([queue s, bs], s') \<and> inv s' \<and> queue s' = []"
  using run_refines [OF assms(1), of "[Put bs, Get (length (queue s)), Get (length bs)]"] assms(2)
  by (simp add: fifo_write_def)

end

section \<open>Positions in a ring\<close>

lemma ring_pos_inj:
  assumes "i < n" "j < n"
  shows "((t :: nat) + i) mod n = (t + j) mod n \<longleftrightarrow> i = j"
proof
  assume eq: "(t + i) mod n = (t + j) mod n"
  show "i = j"
  proof (cases "i \<le> j")
    case True
    with eq have "n dvd (t + j) - (t + i)" by (metis mod_eq_dvd_iff_nat add_le_cancel_left)
    with True assms show ?thesis by (auto dest: dvd_imp_le)
  next
    case False
    with eq have "n dvd (t + i) - (t + j)" by (metis mod_eq_dvd_iff_nat add_le_cancel_left nat_le_linear)
    with False assms show ?thesis by (auto dest: dvd_imp_le)
  qed
qed simp

lemma ring_dist_pos:
  assumes "(h :: nat) < n" "t < n"
  shows "(t + (h + n - t) mod n) mod n = h"
proof -
  have "(t + (h + n - t) mod n) mod n = (t + (h + n - t)) mod n" by (rule mod_add_right_eq)
  also have "\<dots> = h" using assms by simp
  finally show ?thesis .
qed

lemma ring_dist_unique:
  assumes "(d :: nat) < n" "s < n" "(s + d) mod n = h"
  shows "(h + n - s) mod n = d"
proof -
  have "h < n" using assms by auto
  then have "(s + (h + n - s) mod n) mod n = (s + d) mod n"
    using assms ring_dist_pos [of h n s] by simp
  then show ?thesis using assms by (subst (asm) ring_pos_inj) auto
qed

lemma ring_dist_Suc:
  assumes "(h :: nat) < n" "t < n" "Suc h mod n \<noteq> t"
  shows "(Suc h mod n + n - t) mod n = Suc ((h + n - t) mod n)"
proof (cases "t \<le> h")
  case True
  have d: "(h + n - t) mod n = h - t"
    using True assms by (metis Nat.add_diff_assoc2 less_imp_diff_less mod_add_self2 mod_less)
  show ?thesis
  proof (cases "Suc h < n")
    case True
    with \<open>t \<le> h\<close> have "Suc h mod n + n - t = (Suc h - t) + n" by simp
    then have "(Suc h mod n + n - t) mod n = (Suc h - t) mod n" by (simp only: mod_add_self2)
    also have "\<dots> = Suc (h - t)" using True \<open>t \<le> h\<close> by (simp add: Suc_diff_le)
    finally show ?thesis using d by simp
  next
    case False
    with assms have "Suc h = n" by simp
    with assms d \<open>t \<le> h\<close> have "t \<noteq> 0" "Suc h mod n = 0" by auto
    with \<open>Suc h = n\<close> d assms show ?thesis by simp
  qed
next
  case False
  then have lt: "h + n - t < n" "Suc h \<le> t" using assms by auto
  then have "Suc h < n" using assms by simp
  with assms lt have "Suc h < t" by (simp add: mod_less le_neq_trans)
  with \<open>Suc h < n\<close> lt assms show ?thesis by simp
qed

lemma ring_dist_wrap:
  assumes "(h :: nat) < n" "t < n" "Suc h mod n = t"
  shows "Suc ((h + n - t) mod n) = n"
proof (cases "Suc h < n")
  case True
  with assms have "h + n - t = n - 1" by simp
  with assms show ?thesis by simp
next
  case False
  with assms have "Suc h = n" by simp
  with assms have "t = 0" by auto
  with assms \<open>Suc h = n\<close> show ?thesis by simp
qed

section \<open>Refinement to the bounded queue\<close>

lemma rb_wf_unat:
  assumes "rb_wf rb"
  obtains buf where "rb_buffer rb = Some buf" "length buf = unat (rb_size rb)"
    "unat (rb_head rb) < unat (rb_size rb)" "unat (rb_tail rb) < unat (rb_size rb)"
    "rb_full rb \<longrightarrow> rb_head rb = rb_tail rb"
  using assms by (auto simp: rb_wf_def word_less_nat_alt split: option.splits)

lemma unat_ring_succ:
  assumes "w < (n :: u32)"
  shows "unat ((w + 1) mod n) = Suc (unat w) mod unat n"
proof -
  have "unat w < unat n" using assms by (simp add: word_less_nat_alt)
  moreover have "unat n \<le> 2 ^ 32 - 1" using unat_u32_less [of n] by simp
  ultimately have "unat (w + 1) = unat w + 1" by (intro unat_Suc_word) simp
  then show ?thesis by (simp add: unat_mod_word)
qed

lemma rb_queue_length [simp]: "rb_buffer rb \<noteq> None \<Longrightarrow> length (rb_queue rb) = rb_len rb"
  by (auto simp: rb_queue_def)

lemma rb_len_le: "rb_wf rb \<Longrightarrow> rb_len rb \<le> unat (rb_size rb)"
  by (elim rb_wf_unat) (auto simp: rb_len_def less_imp_le)

lemma rb_len_less: "rb_wf rb \<Longrightarrow> \<not> rb_full rb \<Longrightarrow> rb_len rb < unat (rb_size rb)"
  by (elim rb_wf_unat) (auto simp: rb_len_def)

lemma rb_put_wf:
  assumes wf: "rb_wf rb"
  shows "\<exists>rb'. rb_put b rb = Some rb' \<and> rb_wf rb' \<and> rb_size rb' = rb_size rb \<and> rb_lock rb' = rb_lock rb"
proof -
  from wf obtain buf where "rb_buffer rb = Some buf" "length buf = unat (rb_size rb)"
    "unat (rb_head rb) < unat (rb_size rb)"
    by (rule rb_wf_unat)
  moreover have "(w :: u32) mod rb_size rb < rb_size rb" for w
    using calculation by (intro word_mod_less_divisor) (simp add: word_less_nat_alt)
  ultimately show ?thesis
    using wf by (auto simp: rb_put_def rb_wf_def Let_def)
qed

lemma rb_put_len:
  assumes wf: "rb_wf rb" and put: "rb_put b rb = Some rb'"
  shows "rb_len rb' = (if rb_full rb then unat (rb_size rb) else Suc (rb_len rb))"
proof -
  from wf have lt: "rb_head rb < rb_size rb" "rb_tail rb < rb_size rb" by (auto simp: rb_wf_def)
  from wf obtain buf where buf: "rb_buffer rb = Some buf" "length buf = unat (rb_size rb)"
    "unat (rb_head rb) < unat (rb_size rb)" "unat (rb_tail rb) < unat (rb_size rb)"
    "rb_full rb \<longrightarrow> rb_head rb = rb_tail rb"
    by (rule rb_wf_unat)
  show ?thesis
  proof (cases "rb_full rb")
    case True
    with buf put show ?thesis by (auto simp: rb_put_def rb_len_def Let_def)
  next
    case False
    have eq: "(rb_head rb + 1) mod rb_size rb = rb_tail rb \<longleftrightarrow>
              Suc (unat (rb_head rb)) mod unat (rb_size rb) = unat (rb_tail rb)"
      using lt by (metis unat_ring_succ unsigned_word_eqI)
    from False buf put lt show ?thesis
      by (auto simp: rb_put_def rb_len_def Let_def unat_ring_succ eq ring_dist_Suc ring_dist_wrap)
  qed
qed

lemma rb_put_queue:
  assumes wf: "rb_wf rb" and put: "rb_put b rb = Some rb'"
  shows "rb_queue rb' = fifo_put (unat (rb_size rb)) (rb_queue rb) b"
proof -
  from wf have lt: "rb_head rb < rb_size rb" "rb_tail rb < rb_size rb" by (auto simp: rb_wf_def)
  from wf obtain buf where buf: "rb_buffer rb = Some buf" "length buf = unat (rb_size rb)"
    "unat (rb_head rb) < unat (rb_size rb)" "unat (rb_tail rb) < unat (rb_size rb)"
    "rb_full rb \<longrightarrow> rb_head rb = rb_tail rb"
    by (rule rb_wf_unat)
  let ?n = "unat (rb_size rb)" and ?h = "unat (rb_head rb)" and ?t = "unat (rb_tail rb)"
  from put buf have rb': "rb_buffer rb' = Some (buf[?h := b])" "rb_size rb' = rb_size rb"
    "rb_tail rb' = (if rb_full rb then (rb_tail rb + 1) mod rb_size rb else rb_tail rb)"
    by (auto simp: rb_put_def Let_def)
  have len': "rb_len rb' = (if rb_full rb then ?n else Suc (rb_len rb))"
    using wf put by (rule rb_put_len)
  show ?thesis
  proof (cases "rb_full rb")
    case True
    then have ht: "?h = ?t" and L: "rb_len rb = ?n" using buf(5) by (simp_all add: rb_len_def)
    show ?thesis
    proof (rule nth_equalityI)
      show "length (rb_queue rb') = length (fifo_put ?n (rb_queue rb) b)"
        using True rb' buf len' by (simp add: fifo_put_def L)
    next
      fix i assume "i < length (rb_queue rb')"
      then have i: "i < ?n" using True rb' len' by simp
      have pos: "(Suc ?t mod ?n + i) mod ?n = (?t + Suc i) mod ?n" by (simp add: mod_add_left_eq)
      show "rb_queue rb' ! i = fifo_put ?n (rb_queue rb) b ! i"
      proof (cases "Suc i = ?n")
        case True
        then have "\<not> i < ?n - Suc 0" by simp
        with True pos ht buf i \<open>rb_full rb\<close> rb' len' lt show ?thesis
          by (simp add: rb_queue_def fifo_put_def L nth_append unat_ring_succ)
      next
        case False
        with i have "Suc i < ?n" by simp
        then have "(?t + Suc i) mod ?n \<noteq> ?t" "i < ?n - Suc 0"
          using ring_pos_inj [of "Suc i" ?n 0 ?t] buf by auto
        with pos ht buf i \<open>rb_full rb\<close> rb' len' lt \<open>Suc i < ?n\<close> show ?thesis
          by (simp add: rb_queue_def fifo_put_def L nth_append unat_ring_succ nth_tl)
      qed
    qed
  next
    case False
    let ?L = "rb_len rb"
    from wf False have L: "?L < ?n" by (rule rb_len_less)
    have hL: "(?t + ?L) mod ?n = ?h"
      using False buf ring_dist_pos [of ?h ?n ?t] by (simp add: rb_len_def)
    have "?h \<noteq> (?t + i) mod ?n" if "i < ?L" for i
      using ring_pos_inj [of i ?n ?L ?t] that L hL by auto
    with False buf rb' len' L hL show ?thesis
      by (simp add: rb_queue_def fifo_put_def)
  qed
qed

lemma fifo_put_write:
  assumes "length q \<le> n" "0 < n"
  shows "fifo_write n (fifo_put n q b) bs = fifo_write n q (b # bs)"
proof (cases "length q < n")
  case True
  then show ?thesis by (simp add: fifo_put_def fifo_write_def)
next
  case False
  with assms have q: "length q = n" "q \<noteq> []" by auto
  then show ?thesis
    by (cases q) (simp_all add: fifo_put_def fifo_write_def)
qed

lemma fifo_put_length: "length q \<le> n \<Longrightarrow> 0 < n \<Longrightarrow> length (fifo_put n q b) \<le> n"
  by (auto simp: fifo_put_def)

lemma fifo_write_Nil: "length q \<le> n \<Longrightarrow> fifo_write n q [] = q"
  by (simp add: fifo_write_def)

lemma rb_write_loop_spec:
  "rb_wf rb \<Longrightarrow> \<exists>rb'. rb_write_loop bs rb = Some rb' \<and> rb_wf rb'
      \<and> rb_size rb' = rb_size rb \<and> rb_lock rb' = rb_lock rb
      \<and> rb_queue rb' = fifo_write (unat (rb_size rb)) (rb_queue rb) bs"
proof (induction bs arbitrary: rb)
  case Nil
  then obtain buf where "rb_buffer rb = Some buf" by (auto elim: rb_wf_unat)
  with Nil show ?case by (simp add: fifo_write_Nil rb_len_le)
next
  case (Cons b bs)
  then obtain buf where buf: "rb_buffer rb = Some buf" "unat (rb_head rb) < unat (rb_size rb)"
    by (auto elim: rb_wf_unat)
  from Cons.prems obtain rb1 where rb1: "rb_put b rb = Some rb1" "rb_wf rb1"
    "rb_size rb1 = rb_size rb" "rb_lock rb1 = rb_lock rb"
    using rb_put_wf by blast
  from Cons.prems rb1(1) have "rb_queue rb1 = fifo_put (unat (rb_size rb)) (rb_queue rb) b"
    by (rule rb_put_queue)
  moreover have "length (rb_queue rb) \<le> unat (rb_size rb)"
    using Cons.prems buf by (simp add: rb_len_le)
  ultimately have "fifo_write (unat (rb_size rb)) (rb_queue rb1) bs
      = fifo_write (unat (rb_size rb)) (rb_queue rb) (b # bs)"
    using buf by (simp add: fifo_put_write)
  with Cons.IH [OF rb1(2)] rb1 show ?case by auto
qed

lemma rb_get_empty: "rb_wf rb \<Longrightarrow> rb_queue rb = [] \<Longrightarrow> rb_get rb = Some (None, rb)"
proof -
  assume wf: "rb_wf rb" and "rb_queue rb = []"
  then obtain buf where buf: "rb_buffer rb = Some buf" "unat (rb_head rb) < unat (rb_size rb)"
    "unat (rb_tail rb) < unat (rb_size rb)"
    by (auto elim: rb_wf_unat)
  with \<open>rb_queue rb = []\<close> have "rb_len rb = 0" by (simp add: rb_queue_def)
  with buf have nf: "\<not> rb_full rb" by (auto simp: rb_len_def split: if_splits)
  with \<open>rb_len rb = 0\<close> ring_dist_pos [OF buf(2,3)] have "unat (rb_head rb) = unat (rb_tail rb)"
    using buf by (simp add: rb_len_def)
  then have "rb_head rb = rb_tail rb" by (rule unsigned_word_eqI)
  with nf buf show ?thesis by (simp add: rb_get_def ringbuffer_is_empty_def)
qed

lemma rb_get_Cons:
  assumes wf: "rb_wf rb" and q: "rb_queue rb = b # bs"
  shows "\<exists>rb'. rb_get rb = Some (Some b, rb') \<and> rb_wf rb' \<and> rb_queue rb' = bs
           \<and> rb_size rb' = rb_size rb \<and> rb_lock rb' = rb_lock rb"
proof -
  from wf have lt: "rb_head rb < rb_size rb" "rb_tail rb < rb_size rb" by (auto simp: rb_wf_def)
  from wf obtain buf where buf: "rb_buffer rb = Some buf" "length buf = unat (rb_size rb)"
    "unat (rb_head rb) < unat (rb_size rb)" "unat (rb_tail rb) < unat (rb_size rb)"
    "rb_full rb \<longrightarrow> rb_head rb = rb_tail rb"
    by (rule rb_wf_unat)
  let ?n = "unat (rb_size rb)" and ?h = "unat (rb_head rb)" and ?t = "unat (rb_tail rb)"
  let ?rb = "rb\<lparr>rb_full := False, rb_tail := (rb_tail rb + 1) mod rb_size rb\<rparr>"
  have len: "rb_len rb = Suc (length bs)"
    using q buf rb_queue_length [of rb] by simp
  have ne: "\<not> (\<not> rb_full rb \<and> rb_head rb = rb_tail rb)"
    using len buf by (auto simp: rb_len_def)
  have b: "b = buf ! ?t"
    using q buf len by (simp add: rb_queue_def upt_conv_Cons del: upt_Suc)
  have get: "rb_get rb = Some (Some b, ?rb)"
    using ne buf b by (auto simp: rb_get_def ringbuffer_is_empty_def)
  have pos: "(?t + Suc (length bs)) mod ?n = ?h"
  proof (cases "rb_full rb")
    case True
    then have "Suc (length bs) = ?n" "?h = ?t" using len buf by (simp_all add: rb_len_def)
    then show ?thesis using buf by (metis mod_add_self2 mod_less)
  next
    case False
    then show ?thesis using len buf ring_dist_pos [of ?h ?n ?t] by (simp add: rb_len_def)
  qed
  have lt': "length bs < ?n" using len rb_len_le [OF wf] by simp
  have step: "(Suc ?t mod ?n + i) mod ?n = (?t + Suc i) mod ?n" for i
    by (simp add: mod_add_left_eq)
  have "rb_len ?rb = length bs"
    using lt' lt buf pos step ring_dist_unique [of "length bs" ?n "Suc ?t mod ?n" ?h]
    by (simp add: rb_len_def unat_ring_succ)
  moreover have "bs = map (\<lambda>i. buf ! ((?t + Suc i) mod ?n)) [0..<length bs]"
    using q buf len by (simp add: rb_queue_def map_upt_Suc del: upt_Suc)
  ultimately have "rb_queue ?rb = bs"
    using buf lt step by (simp add: rb_queue_def unat_ring_succ)
  moreover have "rb_wf ?rb"
    using wf buf by (auto simp: rb_wf_def word_mod_less_divisor word_less_nat_alt unat_mod_word)
  ultimately show ?thesis using get by simp
qed

lemma rb_read_loop_spec:
  "rb_wf rb \<Longrightarrow> \<exists>rb'. rb_read_loop n rb = Some (take n (rb_queue rb), rb') \<and> rb_wf rb'
      \<and> rb_queue rb' = drop n (rb_queue rb)
      \<and> rb_size rb' = rb_size rb \<and> rb_lock rb' = rb_lock rb"
proof (induction n arbitrary: rb)
  case 0
  then show ?case by simp
next
  case (Suc n)
  show ?case
  proof (cases "rb_queue rb")
    case Nil
    with Suc.prems show ?thesis by (simp add: rb_get_empty)
  next
    case (Cons b bs)
    from rb_get_Cons [OF Suc.prems Cons] obtain rb1 where rb1: "rb_get rb = Some (Some b, rb1)"
      "rb_wf rb1" "rb_queue rb1 = bs" "rb_size rb1 = rb_size rb" "rb_lock rb1 = rb_lock rb"
      by blast
    from Suc.IH [OF rb1(2)] rb1 Cons show ?thesis by auto
  qed
qed

lemma rb_wf_lock [simp]: "rb_wf (rb\<lparr>rb_lock := l\<rparr>) = rb_wf rb"
  by (simp add: rb_wf_def cong: option.case_cong)

lemma rb_queue_lock [simp]: "rb_queue (rb\<lparr>rb_lock := l\<rparr>) = rb_queue rb"
  by (simp add: rb_queue_def rb_len_def cong: option.case_cong)

lemma rb_wf_buffer: "rb_wf rb \<Longrightarrow> rb_buffer rb \<noteq> None"
  by (auto simp: rb_wf_def split: option.splits)

lemma ringbuffer_write_spec:
  assumes "rb_wf rb" "\<not> rb_lock rb"
  shows "\<exists>rb'. ringbuffer_write bs rb = Some (length bs, rb') \<and> rb_wf rb' \<and> \<not> rb_lock rb'
      \<and> rb_size rb' = rb_size rb
      \<and> rb_queue rb' = fifo_write (unat (rb_size rb)) (rb_queue rb) bs"
  using rb_write_loop_spec [of "rb\<lparr>rb_lock := True\<rparr>" bs] assms rb_wf_buffer [of rb]
  by (auto simp: ringbuffer_write_def lock_simps)

lemma ringbuffer_read_spec:
  assumes "rb_wf rb" "\<not> rb_lock rb"
  shows "\<exists>rb'. ringbuffer_read n rb = Some (take n (rb_queue rb), rb') \<and> rb_wf rb' \<and> \<not> rb_lock rb'
      \<and> rb_size rb' = rb_size rb \<and> rb_queue rb' = drop n (rb_queue rb)"
  using rb_read_loop_spec [of "rb\<lparr>rb_lock := True\<rparr>" n] assms rb_wf_buffer [of rb]
  by (auto simp: ringbuffer_read_def lock_simps)

lemma ringbuffer_create_spec:
  assumes "length mem = unat sz" "sz \<noteq> 0"
  shows "\<exists>rb. ringbuffer_create (Some mem) sz = Some rb \<and> rb_wf rb \<and> \<not> rb_lock rb \<and> rb_queue rb = []
      \<and> rb_size rb = sz"
  using assms by (simp add: ringbuffer_create_def rb_wf_def rb_queue_def rb_len_def word_gt_0)

lemma ringbuffer_reset_spec:
  assumes "rb_wf rb" "\<not> rb_lock rb"
  shows "\<exists>rb'. ringbuffer_reset rb = Some ((), rb') \<and> rb_wf rb' \<and> \<not> rb_lock rb'
      \<and> rb_size rb' = rb_size rb \<and> rb_queue rb' = []"
proof -
  from assms have "0 < rb_size rb" by (auto simp: rb_wf_def word_gt_0)
  with assms rb_wf_buffer [OF assms(1)] show ?thesis
    by (auto simp: ringbuffer_reset_def lock_simps rb_wf_def rb_queue_def rb_len_def split: option.splits)
qed

lemma ringbuffer_is_empty_spec:
  assumes "rb_wf rb" shows "ringbuffer_is_empty rb = Some (rb_queue rb = [])"
proof (cases "rb_queue rb")
  case Nil
  with rb_get_empty [OF assms Nil] rb_wf_buffer [OF assms] show ?thesis
    by (auto simp: rb_get_def ringbuffer_is_empty_def split: option.splits if_splits bind_splits)
next
  case (Cons b bs)
  with rb_get_Cons [OF assms Cons] rb_wf_buffer [OF assms] show ?thesis
    by (auto simp: rb_get_def ringbuffer_is_empty_def split: option.splits if_splits)
qed

lemma ringbuffer_available_spec:
  assumes wf: "rb_wf rb"
  shows "ringbuffer_available rb = Some (of_nat (length (rb_queue rb)))"
proof -
  from wf obtain buf where buf: "rb_buffer rb = Some buf" "length buf = unat (rb_size rb)"
    "unat (rb_head rb) < unat (rb_size rb)" "unat (rb_tail rb) < unat (rb_size rb)"
    "rb_full rb \<longrightarrow> rb_head rb = rb_tail rb"
    by (rule rb_wf_unat)
  let ?n = "unat (rb_size rb)" and ?h = "unat (rb_head rb)" and ?t = "unat (rb_tail rb)"
  show ?thesis
  proof (cases "rb_full rb \<or> rb_tail rb \<le> rb_head rb")
    case True
    have "(?h + ?n - ?t) mod ?n = ?h - ?t" if "?t \<le> ?h"
      using that buf by (metis Nat.add_diff_assoc2 less_imp_diff_less mod_add_self2 mod_less)
    with True buf show ?thesis
      by (auto simp: ringbuffer_available_def rb_len_def word_le_nat_alt of_nat_diff)
  next
    case False
    then have "?h < ?t" by (simp add: word_le_nat_alt)
    with buf have "(?h + ?n - ?t) mod ?n = ?h + ?n - ?t" "?t \<le> ?h + ?n" by simp_all
    with False buf show ?thesis
      by (simp add: ringbuffer_available_def rb_len_def of_nat_diff)
  qed
qed

interpretation rbq: bounded_fifo
  "\<lambda>rb. rb_wf rb \<and> \<not> rb_lock rb" "\<lambda>rb. unat (rb_size rb)" rb_queue ringbuffer_write ringbuffer_read
proof
  fix rb :: ringbuffer and bs k
  assume inv: "rb_wf rb \<and> \<not> rb_lock rb"
  then show "length (rb_queue rb) \<le> unat (rb_size rb)"
    using rb_queue_length [of rb] rb_len_le [of rb] rb_wf_buffer [of rb] by simp
  show "\<exists>rb'. ringbuffer_write bs rb = Some (length bs, rb') \<and> (rb_wf rb' \<and> \<not> rb_lock rb')
     \<and> unat (rb_size rb') = unat (rb_size rb)
     \<and> rb_queue rb' = fifo_write (unat (rb_size rb)) (rb_queue rb) bs"
    using inv ringbuffer_write_spec [of rb bs] by auto
  show "\<exists>rb'. ringbuffer_read k rb = Some (take k (rb_queue rb), rb') \<and> (rb_wf rb' \<and> \<not> rb_lock rb')
     \<and> unat (rb_size rb') = unat (rb_size rb) \<and> rb_queue rb' = drop k (rb_queue rb)"
    using inv ringbuffer_read_spec [of rb k] by auto
qed

section \<open>Properties\<close>

text \<open>C1. A ring buffer created over a block of \<open>sz\<close> bytes behaves, over every sequence of writes and
  reads, as a first-in first-out queue of at most \<open>sz\<close> bytes in which new bytes push out the oldest
  ones: no call gets stuck, every read returns exactly the bytes the queue returns, and the
  buffer ends well formed, unlocked and holding the bytes the queue holds.\<close>

theorem ringbuffer_refines_fifo:
  assumes "length mem = unat sz" "sz \<noteq> 0"
  shows "\<exists>rb rb'. ringbuffer_create (Some mem) sz = Some rb
      \<and> rb_run ops rb = Some (fst (fifo_run (unat sz) ops []), rb')
      \<and> rb_wf rb' \<and> \<not> rb_lock rb' \<and> rb_queue rb' = snd (fifo_run (unat sz) ops [])"
proof -
  from ringbuffer_create_spec [OF assms] obtain rb where rb: "ringbuffer_create (Some mem) sz = Some rb"
    "rb_wf rb" "\<not> rb_lock rb" "rb_queue rb = []" "rb_size rb = sz" by blast
  with rbq.run_refines [of rb ops] show ?thesis by auto
qed

theorem ringbuffer_refines_fifo_witness:
  "\<exists>rb rb'. ringbuffer_create (Some [0, 0, 0]) 3 = Some rb
      \<and> rb_run [Put [1, 2], Get 1, Put [3, 4, 5], Get 2] rb = Some ([[1], [3, 4]], rb')
      \<and> rb_wf rb' \<and> \<not> rb_lock rb' \<and> rb_queue rb' = [5]"
  using ringbuffer_refines_fifo [of "[0, 0, 0]" 3 "[Put [1, 2], Get 1, Put [3, 4, 5], Get 2]"]
  by (simp add: fifo_write_def)

text \<open>Bytes that fit in the free space are read back unchanged and in order, after the bytes
  that were queued before them.\<close>

lemma ringbuffer_write_read_roundtrip:
  assumes "rb_wf rb" "\<not> rb_lock rb" "length (rb_queue rb) + length bs \<le> unat (rb_size rb)"
  shows "\<exists>rb'. rb_run [Put bs, Get (length (rb_queue rb)), Get (length bs)] rb
            = Some ([rb_queue rb, bs], rb') \<and> ringbuffer_is_empty rb' = Some True"
proof -
  from rbq.put_get [of rb bs] assms obtain rb' where
    "rb_run [Put bs, Get (length (rb_queue rb)), Get (length bs)] rb = Some ([rb_queue rb, bs], rb')"
    "rb_wf rb'" "rb_queue rb' = []" by blast
  then show ?thesis using ringbuffer_is_empty_spec [of rb'] by auto
qed

lemma ringbuffer_write_read_roundtrip_demo:
  "\<exists>rb'. rb_run [Put [8, 9], Get 1, Get (length [8, 9 :: byte])]
       \<lparr>rb_buffer = Some [0, 0, 7], rb_head = 0, rb_tail = 2, rb_size = 3, rb_full = False,
        rb_lock = False\<rparr> = Some ([[7], [8, 9]], rb') \<and> ringbuffer_is_empty rb' = Some True"
  using ringbuffer_write_read_roundtrip [of "\<lparr>rb_buffer = Some [0, 0, 7], rb_head = 0,
      rb_tail = 2, rb_size = 3, rb_full = False, rb_lock = False\<rparr>" "[8, 9]"]
  by (simp add: rb_wf_def rb_queue_def rb_len_def)

text \<open>The fill count that \<^verbatim>\<open>ringbuffer_available\<close> computes with wrapping 32-bit arithmetic is the
  exact number of queued bytes, and the two tests agree with it.\<close>

lemma ringbuffer_available_exact:
  assumes "rb_wf rb"
  shows "\<exists>n. ringbuffer_available rb = Some n \<and> unat n = length (rb_queue rb) \<and> n \<le> rb_size rb
      \<and> ringbuffer_is_empty rb = Some (n = 0) \<and> ringbuffer_is_full rb = Some (n = rb_size rb)"
proof -
  let ?k = "rb_len rb"
  have buf: "rb_buffer rb \<noteq> None" by (rule rb_wf_buffer [OF assms])
  have len: "length (rb_queue rb) = ?k" by (rule rb_queue_length [OF buf])
  have le: "?k \<le> unat (rb_size rb)" by (rule rb_len_le [OF assms])
  then have un: "unat (of_nat ?k :: u32) = ?k"
    using unat_u32_less [of "rb_size rb"] by (simp add: unat_of_nat)
  have full: "rb_full rb \<longleftrightarrow> ?k = unat (rb_size rb)"
    using rb_len_less [OF assms] by (cases "rb_full rb") (simp_all add: rb_len_def)
  have nil: "rb_queue rb = [] \<longleftrightarrow> of_nat ?k = (0 :: u32)"
    using un len by (auto simp: word_unat_eq_iff)
  have "of_nat ?k = rb_size rb \<longleftrightarrow> ?k = unat (rb_size rb)"
    using un by (simp add: word_unat_eq_iff)
  then show ?thesis
    using buf len le un full nil
    by (simp add: ringbuffer_available_spec [OF assms] ringbuffer_is_empty_spec [OF assms]
        ringbuffer_is_full_def word_le_nat_alt)
qed

lemma ringbuffer_available_exact_demo:
  "ringbuffer_available \<lparr>rb_buffer = Some [1, 2, 3], rb_head = 0, rb_tail = 1, rb_size = 3,
     rb_full = False, rb_lock = False\<rparr> = Some 2"
  using ringbuffer_available_exact [of "\<lparr>rb_buffer = Some [1, 2, 3], rb_head = 0, rb_tail = 1,
      rb_size = 3, rb_full = False, rb_lock = False\<rparr>"]
  by (simp add: rb_wf_def rb_queue_def rb_len_def ringbuffer_available_def)

end
