(* ===== verification/Pmm.thy ===== *)
theory Pmm
  imports Kprelude
begin

text \<open>
  The physical memory manager of \<^verbatim>\<open>os/kernel/mm/pmm.c\<close>: a bitmap with one bit per physical page,
  searched from either end under a lock. The state holds the bitmap words, the lock and the fields
  of \<^verbatim>\<open>mbd->memory\<close> that the code reads and updates. The theory proves what each operation does to
  the set of taken blocks, and the contract of a frame allocator that the page tables rely on.
\<close>

section \<open>Model\<close>

record pmm =
  bitmap :: "u32 list"
  bitmap_size :: u32
  bitmap_lock :: bool
  memory_size :: u64
  memory_used :: u64
  memory_pagesize :: u32
  memory_start :: u32

abbreviation pmm_locked :: "(pmm \<Rightarrow> ('a \<times> pmm) option) \<Rightarrow> pmm \<Rightarrow> ('a \<times> pmm) option" where
  "pmm_locked \<equiv> with_lock bitmap_lock (\<lambda>b. bitmap_lock_update (\<lambda>_. b))"

definition pmm_init_bitmap :: "pmm \<Rightarrow> pmm option" where
  "pmm_init_bitmap s =
     do {
       kassert (memory_pagesize s \<noteq> 0);
       let sz = (ucast ((memory_size s div ucast (memory_pagesize s)) div 8) :: u32);
       let sz = push_bit 2 (drop_bit 2 sz);
       Some (s\<lparr>bitmap_size := sz, bitmap := replicate (unat sz div 4) 0\<rparr>)
     }"

text \<open>The two loops over a range of blocks; the index is a 32-bit word and the bound is inclusive.\<close>

definition bm_set :: "u32 list \<Rightarrow> u32 \<Rightarrow> u32 list option" where
  "bm_set bm b =
     do {
       w \<leftarrow> array_get bm (unat (b div 32));
       array_set bm (unat (b div 32)) (w OR push_bit (unat (b mod 32)) 1)
     }"

definition bm_clear :: "u32 list \<Rightarrow> u32 \<Rightarrow> u32 list option" where
  "bm_clear bm b =
     do {
       w \<leftarrow> array_get bm (unat (b div 32));
       array_set bm (unat (b div 32)) (w AND NOT (push_bit (unat (b mod 32)) 1))
     }"

partial_function (option) pmm_claim_loop :: "u32 \<Rightarrow> u32 \<Rightarrow> u32 list \<Rightarrow> u32 list option" where
  "pmm_claim_loop start stop bm =
     (if start \<le> stop then do { bm' \<leftarrow> bm_set bm start; pmm_claim_loop (start + 1) stop bm' }
      else Some bm)"

partial_function (option) pmm_unclaim_loop :: "u32 \<Rightarrow> u32 \<Rightarrow> u32 list \<Rightarrow> u32 list option" where
  "pmm_unclaim_loop start stop bm =
     (if start \<le> stop then do { bm' \<leftarrow> bm_clear bm start; pmm_unclaim_loop (start + 1) stop bm' }
      else Some bm)"

definition pmm_claim :: "u32 \<Rightarrow> u32 \<Rightarrow> pmm \<Rightarrow> (unit \<times> pmm) option" where
  "pmm_claim start stop s =
     (if ucast stop > memory_size s then Some ((), s)
      else do {
        kassert (memory_pagesize s \<noteq> 0);
        let start = start div memory_pagesize s;
        let stop = stop div memory_pagesize s;
        pmm_locked (\<lambda>s. do {
          bm \<leftarrow> pmm_claim_loop start stop (bitmap s);
          Some ((), s\<lparr>memory_used := memory_used s + ucast ((stop - start) * memory_pagesize s),
                     bitmap := bm\<rparr>)
        }) s
      })"

definition pmm_unclaim :: "u32 \<Rightarrow> u32 \<Rightarrow> pmm \<Rightarrow> (unit \<times> pmm) option" where
  "pmm_unclaim start stop s =
     (if ucast stop > memory_size s then Some ((), s)
      else do {
        kassert (memory_pagesize s \<noteq> 0);
        let start = start div memory_pagesize s;
        let stop = stop div memory_pagesize s;
        pmm_locked (\<lambda>s. do {
          bm \<leftarrow> pmm_unclaim_loop start stop (bitmap s);
          Some ((), s\<lparr>memory_used := memory_used s + ucast ((stop - start) * memory_pagesize s),
                     bitmap := bm\<rparr>)
        }) s
      })"

text \<open>The search of one bitmap word: the first clear bit from \<open>j\<close> on.\<close>

function pmm_scan_bits :: "u32 \<Rightarrow> nat \<Rightarrow> nat option" where
  "pmm_scan_bits m j =
     (if j < 32 then if bit m j then pmm_scan_bits m (Suc j) else Some j else None)"
  by pat_completeness auto
termination by (relation "measure (\<lambda>(m, j). 32 - j)") auto

declare pmm_scan_bits.simps [simp del]

text \<open>
  One turn of the outer loops: the word \<open>i\<close> is skipped or gives the block \<open>32 * i + j\<close>. A block is a
  32-bit \<^verbatim>\<open>long\<close> and \<open>-1\<close> stands for none.
\<close>

definition pmm_scan_word :: "nat \<Rightarrow> u32 list \<Rightarrow> u32 \<Rightarrow> (u32 \<times> u32 list) option" where
  "pmm_scan_word i bm block =
     do {
       w \<leftarrow> array_get bm i;
       if w = 0xFFFFFFFF then Some (block, bm)
       else case pmm_scan_bits w 0 of
              None \<Rightarrow> Some (block, bm)
            | Some j \<Rightarrow>
                do { bm' \<leftarrow> array_set bm i (w OR push_bit j 1); Some (of_nat (i * 32 + j), bm') }
     }"

function pmm_scan_up :: "nat \<Rightarrow> nat \<Rightarrow> u32 list \<Rightarrow> u32 \<Rightarrow> (u32 \<times> u32 list) option" where
  "pmm_scan_up i n bm block =
     (if i < n \<and> block = - 1
      then do { (block', bm') \<leftarrow> pmm_scan_word i bm block; pmm_scan_up (Suc i) n bm' block' }
      else Some (block, bm))"
  by pat_completeness auto
termination by (relation "measure (\<lambda>(i, n, bm, block). n - i)") auto

declare pmm_scan_up.simps [simp del]

fun pmm_scan_down :: "nat \<Rightarrow> u32 list \<Rightarrow> u32 \<Rightarrow> (u32 \<times> u32 list) option" where
  "pmm_scan_down 0 bm block = Some (block, bm)"
| "pmm_scan_down (Suc i) bm block =
     (if block = - 1
      then do { (block', bm') \<leftarrow> pmm_scan_word i bm block; pmm_scan_down i bm' block' }
      else Some (block, bm))"

definition pmm_alloc_block :: "pmm \<Rightarrow> (u32 \<times> pmm) option" where
  "pmm_alloc_block s =
     do {
       (block, s) \<leftarrow> pmm_locked (\<lambda>s. do {
         (block, bm) \<leftarrow> pmm_scan_up 0 (unat (bitmap_size s div 4)) (bitmap s) (- 1);
         Some (block, s\<lparr>bitmap := bm\<rparr>)
       }) s;
       kassert (block \<noteq> - 1);
       Some (block, s\<lparr>memory_used := memory_used s + ucast (memory_pagesize s)\<rparr>)
     }"

definition pmm_alloc_block_from_end :: "pmm \<Rightarrow> (u32 \<times> pmm) option" where
  "pmm_alloc_block_from_end s =
     do {
       (block, s) \<leftarrow> pmm_locked (\<lambda>s. do {
         (block, bm) \<leftarrow> pmm_scan_down (unat (bitmap_size s div 4)) (bitmap s) (- 1);
         Some (block, s\<lparr>bitmap := bm\<rparr>)
       }) s;
       kassert (block \<noteq> - 1);
       Some (block, s\<lparr>memory_used := memory_used s + ucast (memory_pagesize s)\<rparr>)
     }"

definition pmm_free_block :: "u32 \<Rightarrow> pmm \<Rightarrow> (unit \<times> pmm) option" where
  "pmm_free_block p s =
     do {
       kassert (p \<noteq> - 1);
       kassert (memory_pagesize s \<noteq> 0);
       kassert (scast p < memory_size s div ucast (memory_pagesize s));
       (_, s) \<leftarrow> pmm_locked (\<lambda>s. do {
         bm \<leftarrow> bm_clear (bitmap s) p;
         Some ((), s\<lparr>bitmap := bm\<rparr>)
       }) s;
       Some ((), s\<lparr>memory_used := memory_used s - ucast (memory_pagesize s)\<rparr>)
     }"

text \<open>The memory map of the boot loader.\<close>

record mmap_entry =
  mmap_address :: u64
  mmap_length :: u64
  mmap_type :: u32

definition MBD_MMAP_AVAILABLE :: u32 where
  "MBD_MMAP_AVAILABLE = 1"

fun pmm_init_mmap :: "mmap_entry list \<Rightarrow> pmm \<Rightarrow> (unit \<times> pmm) option" where
  "pmm_init_mmap [] s = Some ((), s)"
| "pmm_init_mmap (m # ms) s =
     (if mmap_type m = MBD_MMAP_AVAILABLE then pmm_init_mmap ms s
      else if mmap_address m > memory_size s then pmm_init_mmap ms s
      else if mmap_address m + mmap_length m > memory_size s then pmm_init_mmap ms s
      else do {
        (_, s) \<leftarrow> pmm_claim (ucast (mmap_address m))
                 (ucast (ucast (ucast (mmap_address m) :: u32) + mmap_length m)) s;
        pmm_init_mmap ms s
      })"

definition pmm_init :: "mmap_entry list \<Rightarrow> pmm \<Rightarrow> (unit \<times> pmm) option" where
  "pmm_init ms s =
     do {
       s \<leftarrow> pmm_init_bitmap (s\<lparr>bitmap_lock := False\<rparr>);
       (_, s) \<leftarrow> pmm_init_mmap ms s;
       pmm_claim 0 (memory_start s - CONFIG_KERNEL_BASE + bitmap_size s) s
     }"

section \<open>Invariant and abstraction\<close>

definition bm_taken :: "u32 list \<Rightarrow> nat set" where
  "bm_taken bm = {b. b div 32 < length bm \<and> bit (bm ! (b div 32)) (b mod 32)}"

abbreviation pmm_taken :: "pmm \<Rightarrow> nat set" where
  "pmm_taken s \<equiv> bm_taken (bitmap s)"

abbreviation pmm_blocks :: "pmm \<Rightarrow> nat" where
  "pmm_blocks s \<equiv> 32 * length (bitmap s)"

definition pmm_wf :: "pmm \<Rightarrow> bool" where
  "pmm_wf s \<longleftrightarrow> length (bitmap s) = unat (bitmap_size s) div 4 \<and> memory_pagesize s \<noteq> 0
     \<and> pmm_blocks s < 2 ^ 31
     \<and> pmm_blocks s \<le> unat (memory_size s div ucast (memory_pagesize s)) \<and> \<not> bitmap_lock s"

section \<open>The contract of a frame allocator\<close>

text \<open>A client that takes several frames one after the other.\<close>

fun alloc_many :: "('s \<Rightarrow> (u32 \<times> 's) option) \<Rightarrow> nat \<Rightarrow> 's \<Rightarrow> (u32 list \<times> 's) option" where
  "alloc_many alloc 0 s = Some ([], s)"
| "alloc_many alloc (Suc n) s =
     do { (b, s) \<leftarrow> alloc s; (bs, s) \<leftarrow> alloc_many alloc n s; Some (b # bs, s) }"

locale frame_allocator =
  fixes inv :: "'s \<Rightarrow> bool"
    and taken :: "'s \<Rightarrow> nat set"
    and limit :: "'s \<Rightarrow> nat"
    and alloc :: "'s \<Rightarrow> (u32 \<times> 's) option"
    and free :: "u32 \<Rightarrow> 's \<Rightarrow> (unit \<times> 's) option"
  assumes taken_bound: "inv s \<Longrightarrow> taken s \<subseteq> {..<limit s}"
    and limit_bound: "inv s \<Longrightarrow> limit s < 2 ^ 31"
    and alloc_law: "inv s \<Longrightarrow> taken s \<noteq> {..<limit s} \<Longrightarrow>
      \<exists>b s'. alloc s = Some (of_nat b, s') \<and> b < limit s \<and> b \<notin> taken s \<and> inv s'
           \<and> taken s' = insert b (taken s) \<and> limit s' = limit s"
    and alloc_full: "inv s \<Longrightarrow> taken s = {..<limit s} \<Longrightarrow> alloc s = None"
    and free_law: "inv s \<Longrightarrow> b < limit s \<Longrightarrow>
      \<exists>s'. free (of_nat b) s = Some ((), s') \<and> inv s' \<and> taken s' = taken s - {b}
         \<and> limit s' = limit s"
begin

text \<open>As long as enough frames are free every request is served, with new frames each time.\<close>

lemma alloc_many_law:
  "inv s \<Longrightarrow> n + card (taken s) \<le> limit s \<Longrightarrow>
   \<exists>bs s'. alloc_many alloc n s = Some (map of_nat bs, s') \<and> length bs = n \<and> distinct bs
     \<and> set bs \<inter> taken s = {} \<and> set bs \<subseteq> {..<limit s} \<and> inv s' \<and> taken s' = taken s \<union> set bs
     \<and> limit s' = limit s"
proof (induction n arbitrary: s)
  case 0
  then show ?case by simp
next
  case (Suc n)
  have fin: "finite (taken s)" using taken_bound [OF Suc.prems(1)] finite_subset by blast
  have "card {..<limit s} = limit s" by simp
  then have "taken s \<noteq> {..<limit s}" using Suc.prems(2) by (metis add_leE not_less_eq_eq order_refl add_Suc le_add2)
  from alloc_law [OF Suc.prems(1) this] obtain b s1 where b: "alloc s = Some (of_nat b, s1)"
    "b < limit s" "b \<notin> taken s" "inv s1" "taken s1 = insert b (taken s)" "limit s1 = limit s"
    by blast
  have "n + card (taken s1) \<le> limit s1" using Suc.prems(2) b fin by simp
  from Suc.IH [OF b(4) this] obtain bs s2 where bs: "alloc_many alloc n s1 = Some (map of_nat bs, s2)"
    "length bs = n" "distinct bs" "set bs \<inter> taken s1 = {}" "set bs \<subseteq> {..<limit s1}" "inv s2"
    "taken s2 = taken s1 \<union> set bs" "limit s2 = limit s1" by blast
  then show ?case using b by (intro exI [of _ "b # bs"] exI [of _ s2]) auto
qed

lemma alloc_free_law:
  assumes "inv s" "alloc s = Some (b, s1)"
  shows "\<exists>s2. free b s1 = Some ((), s2) \<and> inv s2 \<and> taken s2 = taken s"
proof -
  have "taken s \<noteq> {..<limit s}" using alloc_full assms by force
  from alloc_law [OF assms(1) this] assms(2) obtain c where c: "b = of_nat c" "c < limit s"
    "c \<notin> taken s" "inv s1" "taken s1 = insert c (taken s)" "limit s1 = limit s" by auto
  with free_law [of s1 c] show ?thesis by auto
qed

end

section \<open>Bits of the bitmap\<close>

lemma bit_push_one: "bit (push_bit j 1 :: u32) n \<longleftrightarrow> n = j \<and> j < 32"
  by (auto simp: push_bit_of_1 bit_exp_iff)

lemma block_index: "j < 32 \<Longrightarrow> b = 32 * i + j \<longleftrightarrow> b div 32 = i \<and> b mod 32 = (j :: nat)"
  by auto

lemma block_of: "32 * i \<le> b \<Longrightarrow> b < 32 * i + 32 \<Longrightarrow> b div 32 = (i :: nat)"
  by simp

lemma bm_taken_set:
  assumes "i < length bm" "j < 32"
  shows "bm_taken (bm[i := bm ! i OR push_bit j 1]) = insert (32 * i + j) (bm_taken bm)"
proof (rule set_eqI)
  fix b
  show "b \<in> bm_taken (bm[i := bm ! i OR push_bit j 1]) \<longleftrightarrow> b \<in> insert (32 * i + j) (bm_taken bm)"
    unfolding insert_iff block_index [OF assms(2)]
    using assms
    by (cases "b div 32 = i")
       (simp_all add: bm_taken_def bit_or_iff bit_push_one del: push_bit_of_1, blast)
qed

lemma bm_taken_clear:
  assumes "i < length bm" "j < 32"
  shows "bm_taken (bm[i := bm ! i AND NOT (push_bit j 1)]) = bm_taken bm - {32 * i + j}"
proof (rule set_eqI)
  fix b
  show "b \<in> bm_taken (bm[i := bm ! i AND NOT (push_bit j 1)]) \<longleftrightarrow> b \<in> bm_taken bm - {32 * i + j}"
    unfolding Diff_iff singleton_iff block_index [OF assms(2)]
    using assms
    by (cases "b div 32 = i")
       (simp_all add: bm_taken_def bit_and_iff bit_not_iff bit_push_one possible_bit_def
         del: push_bit_of_1)
qed

lemma unat_div_32: "unat (b div 32 :: u32) = unat b div 32" "unat (b mod 32 :: u32) = unat b mod 32"
  by (simp_all add: unat_div_distrib unat_mod_distrib)

lemma bm_set_spec:
  assumes "unat b < 32 * length bm"
  shows "\<exists>bm'. bm_set bm b = Some bm' \<and> length bm' = length bm
      \<and> bm_taken bm' = insert (unat b) (bm_taken bm)"
  using assms bm_taken_set [of "unat b div 32" bm "unat b mod 32"]
  by (simp add: bm_set_def unat_div_32 less_mult_imp_div_less mult.commute)

lemma bm_clear_spec:
  assumes "unat b < 32 * length bm"
  shows "\<exists>bm'. bm_clear bm b = Some bm' \<and> length bm' = length bm
      \<and> bm_taken bm' = bm_taken bm - {unat b}"
  using assms bm_taken_clear [of "unat b div 32" bm "unat b mod 32"]
  by (simp add: bm_clear_def unat_div_32 less_mult_imp_div_less mult.commute)

lemma bm_set_out: "32 * length bm \<le> unat b \<Longrightarrow> bm_set bm b = None"
  by (simp add: bm_set_def unat_div_32 div_le_mono [of "32 * length bm" "unat b" 32, simplified] linorder_not_less)

section \<open>The operations on the set of taken blocks\<close>

lemma pmm_claim_loop_spec:
  assumes "unat stop < 32 * length bm" "unat stop < 2 ^ 32 - 1"
  shows "\<exists>bm'. pmm_claim_loop start stop bm = Some bm' \<and> length bm' = length bm
      \<and> bm_taken bm' = bm_taken bm \<union> {unat start..unat stop}"
  using assms
proof (induction "Suc (unat stop) - unat start" arbitrary: start bm)
  case 0
  then show ?case by (subst pmm_claim_loop.simps) (simp add: word_le_nat_alt)
next
  case (Suc d)
  then have le: "unat start \<le> unat stop" by simp
  then have suc: "unat (start + 1) = Suc (unat start)"
    using Suc.prems(2) unat_Suc_word [of start] by simp
  from le Suc.prems obtain bm1 where bm1: "bm_set bm start = Some bm1" "length bm1 = length bm"
    "bm_taken bm1 = insert (unat start) (bm_taken bm)"
    using bm_set_spec [of start bm] by auto
  have "d = Suc (unat stop) - unat (start + 1)" using Suc.hyps(2) suc by simp
  from Suc.hyps(1) [OF this, of bm1] Suc.prems bm1(2) suc
  obtain bm2 where "pmm_claim_loop (start + 1) stop bm1 = Some bm2" "length bm2 = length bm1"
    "bm_taken bm2 = bm_taken bm1 \<union> {Suc (unat start)..unat stop}"
    by auto
  moreover have "{unat start..unat stop} = insert (unat start) {Suc (unat start)..unat stop}"
    using le by (rule atLeastAtMost_insertL [symmetric])
  ultimately show ?case
    using bm1 le by (subst pmm_claim_loop.simps) (simp add: word_le_nat_alt)
qed

lemma pmm_unclaim_loop_spec:
  assumes "unat stop < 32 * length bm" "unat stop < 2 ^ 32 - 1"
  shows "\<exists>bm'. pmm_unclaim_loop start stop bm = Some bm' \<and> length bm' = length bm
      \<and> bm_taken bm' = bm_taken bm - {unat start..unat stop}"
  using assms
proof (induction "Suc (unat stop) - unat start" arbitrary: start bm)
  case 0
  then show ?case by (subst pmm_unclaim_loop.simps) (simp add: word_le_nat_alt)
next
  case (Suc d)
  then have le: "unat start \<le> unat stop" by simp
  then have suc: "unat (start + 1) = Suc (unat start)"
    using Suc.prems(2) unat_Suc_word [of start] by simp
  from le Suc.prems obtain bm1 where bm1: "bm_clear bm start = Some bm1" "length bm1 = length bm"
    "bm_taken bm1 = bm_taken bm - {unat start}"
    using bm_clear_spec [of start bm] by auto
  have "d = Suc (unat stop) - unat (start + 1)" using Suc.hyps(2) suc by simp
  from Suc.hyps(1) [OF this, of bm1] Suc.prems bm1(2) suc
  obtain bm2 where bm2: "pmm_unclaim_loop (start + 1) stop bm1 = Some bm2" "length bm2 = length bm1"
    "bm_taken bm2 = bm_taken bm1 - {Suc (unat start)..unat stop}"
    by auto
  have "{unat start..unat stop} = insert (unat start) {Suc (unat start)..unat stop}"
    using le by (rule atLeastAtMost_insertL [symmetric])
  then have "bm_taken bm2 = bm_taken bm - {unat start..unat stop}"
    unfolding bm1(3) bm2(3) by (simp only: Diff_insert2 [symmetric])
  with bm1(1,2) bm2(1,2) le show ?case
    by (subst pmm_unclaim_loop.simps) (simp add: word_le_nat_alt)
qed

lemma pmm_scan_bits_spec:
  "(case pmm_scan_bits m j of
      None \<Rightarrow> \<forall>k. j \<le> k \<and> k < 32 \<longrightarrow> bit m k
    | Some r \<Rightarrow> j \<le> r \<and> r < 32 \<and> \<not> bit m r \<and> (\<forall>k. j \<le> k \<and> k < r \<longrightarrow> bit m k))"
proof (induction m j rule: pmm_scan_bits.induct)
  case (1 m j)
  show ?case
  proof (cases "j < 32 \<and> bit m j")
    case True
    then have "pmm_scan_bits m j = pmm_scan_bits m (Suc j)" by (simp add: pmm_scan_bits.simps)
    with 1 True show ?thesis
      by (auto split: option.splits simp: Suc_le_eq) (metis le_neq_implies_less)+
  next
    case False
    then show ?thesis by (auto simp: pmm_scan_bits.simps [of m j])
  qed
qed

lemma bit_all_ones: "w = (0xFFFFFFFF :: u32) \<longleftrightarrow> (\<forall>k < 32. bit w k)"
proof -
  have "(0xFFFFFFFF :: u32) = - 1" by simp
  then show ?thesis by (auto simp: bit_eq_iff possible_bit_def)
qed

text \<open>A word of the bitmap gives its first free block, or is full and changes nothing.\<close>

lemma pmm_scan_word_spec:
  assumes "i < length bm"
  shows "(pmm_scan_word i bm block = Some (block, bm) \<and> {32 * i..<32 * i + 32} \<subseteq> bm_taken bm) \<or>
    (\<exists>j bm'. j < 32 \<and> pmm_scan_word i bm block = Some (of_nat (32 * i + j), bm')
       \<and> 32 * i + j \<notin> bm_taken bm \<and> {32 * i..<32 * i + j} \<subseteq> bm_taken bm
       \<and> length bm' = length bm \<and> bm_taken bm' = insert (32 * i + j) (bm_taken bm))"
proof (cases "pmm_scan_bits (bm ! i) 0")
  case None
  with pmm_scan_bits_spec [where m = "bm ! i" and j = 0] have "\<forall>k < 32. bit (bm ! i) k" by simp
  then have "{32 * i..<32 * i + 32} \<subseteq> bm_taken bm"
    using assms by (auto simp: bm_taken_def block_of)
  moreover have "pmm_scan_word i bm block = Some (block, bm)"
    using None assms by (simp add: pmm_scan_word_def)
  ultimately show ?thesis by blast
next
  case (Some j)
  with pmm_scan_bits_spec [where m = "bm ! i" and j = 0]
  have j: "j < 32" "\<not> bit (bm ! i) j" "\<forall>k < j. bit (bm ! i) k" by auto
  then have "bm ! i \<noteq> 0xFFFFFFFF" using bit_all_ones by blast
  with Some assms have
    "pmm_scan_word i bm block = Some (of_nat (32 * i + j), bm[i := bm ! i OR push_bit j 1])"
    by (simp add: pmm_scan_word_def mult.commute)
  moreover have "32 * i + j \<notin> bm_taken bm" using j by (simp add: bm_taken_def)
  moreover have "{32 * i..<32 * i + j} \<subseteq> bm_taken bm"
  proof
    fix b assume "b \<in> {32 * i..<32 * i + j}"
    then have "b div 32 = i" "b mod 32 < j"
      using j(1) block_of [of i b] minus_mult_div_eq_mod [of b 32] by auto
    with j(3) assms show "b \<in> bm_taken bm" by (simp add: bm_taken_def)
  qed
  ultimately show ?thesis using j(1) bm_taken_set [OF assms j(1)]
    by (intro disjI2 exI [of _ j] exI [of _ "bm[i := bm ! i OR push_bit j 1]"]) simp
qed

lemma block_not_none: "b < 2 ^ 31 \<Longrightarrow> (of_nat b :: u32) \<noteq> - 1"
proof
  assume b: "b < 2 ^ 31" "(of_nat b :: u32) = - 1"
  then have "unat (of_nat b :: u32) = unat (- 1 :: u32)" by simp
  with b(1) show False by (simp add: unat_of_nat unsigned_minus_1_eq_mask mask_eq_exp_minus_1)
qed

lemma pmm_scan_up_spec:
  assumes "32 * length bm < 2 ^ 31" "{..<32 * i} \<subseteq> bm_taken bm"
  shows "(pmm_scan_up i (length bm) bm (- 1) = Some (- 1, bm) \<and> {..<32 * length bm} \<subseteq> bm_taken bm) \<or>
    (\<exists>b bm'. pmm_scan_up i (length bm) bm (- 1) = Some (of_nat b, bm') \<and> b < 32 * length bm
       \<and> b \<notin> bm_taken bm \<and> {..<b} \<subseteq> bm_taken bm
       \<and> length bm' = length bm \<and> bm_taken bm' = insert b (bm_taken bm))"
  using assms(2)
proof (induction "length bm - i" arbitrary: i)
  case 0
  then have "{..<32 * length bm} \<subseteq> {..<32 * i}" by simp
  then have "{..<32 * length bm} \<subseteq> bm_taken bm" using 0(2) by (rule order_trans)
  with 0(1) show ?case by (simp add: pmm_scan_up.simps [of i])
next
  case (Suc d)
  then have i: "i < length bm" by simp
  from pmm_scan_word_spec [OF i, of "- 1"] show ?case
  proof (elim disjE exE conjE)
    assume sw: "pmm_scan_word i bm (- 1) = Some (- 1, bm)" "{32 * i..<32 * i + 32} \<subseteq> bm_taken bm"
    have "{..<32 * Suc i} = {..<32 * i} \<union> {32 * i..<32 * i + 32}" by auto
    then have "{..<32 * Suc i} \<subseteq> bm_taken bm" using sw(2) Suc.prems by simp
    moreover have "d = length bm - Suc i" using Suc.hyps(2) by simp
    ultimately have IH: "?thesis" if "pmm_scan_up i (length bm) bm (- 1) = pmm_scan_up (Suc i) (length bm) bm (- 1)"
      using Suc.hyps(1) [of "Suc i"] that by (simp only:)
    show ?thesis using sw(1) i by (intro IH) (simp add: pmm_scan_up.simps [of i])
  next
    fix j bm'
    assume j: "j < 32" "pmm_scan_word i bm (- 1) = Some (of_nat (32 * i + j), bm')"
      "32 * i + j \<notin> bm_taken bm" "{32 * i..<32 * i + j} \<subseteq> bm_taken bm"
      "length bm' = length bm" "bm_taken bm' = insert (32 * i + j) (bm_taken bm)"
    have "{..<32 * i + j} = {..<32 * i} \<union> {32 * i..<32 * i + j}" by auto
    then have low: "{..<32 * i + j} \<subseteq> bm_taken bm" using j(4) Suc.prems by simp
    have b: "32 * i + j < 32 * length bm" using i j(1) by simp
    with assms(1) have "(of_nat (32 * i + j) :: u32) \<noteq> - 1" by (intro block_not_none) simp
    then have "pmm_scan_up i (length bm) bm (- 1) = Some (of_nat (32 * i + j), bm')"
      using i j(2) by (simp add: pmm_scan_up.simps [of i] pmm_scan_up.simps [of "Suc i"] del: of_nat_add)
    with b low j show ?thesis by blast
  qed
qed

lemma pmm_scan_down_spec:
  assumes "32 * length bm < 2 ^ 31"
  shows "n \<le> length bm \<Longrightarrow>
    (pmm_scan_down n bm (- 1) = Some (- 1, bm) \<and> {..<32 * n} \<subseteq> bm_taken bm) \<or>
    (\<exists>b bm'. pmm_scan_down n bm (- 1) = Some (of_nat b, bm') \<and> b < 32 * n
       \<and> b \<notin> bm_taken bm \<and> {32 * (b div 32)..<b} \<subseteq> bm_taken bm
       \<and> {32 * (b div 32) + 32..<32 * n} \<subseteq> bm_taken bm
       \<and> length bm' = length bm \<and> bm_taken bm' = insert b (bm_taken bm))"
proof (induction n)
  case 0
  then show ?case by simp
next
  case (Suc i)
  then have i: "i < length bm" by simp
  from pmm_scan_word_spec [OF i, of "- 1"] show ?case
  proof (elim disjE exE conjE)
    assume sw: "pmm_scan_word i bm (- 1) = Some (- 1, bm)" "{32 * i..<32 * i + 32} \<subseteq> bm_taken bm"
    have "{..<32 * Suc i} = {..<32 * i} \<union> {32 * i..<32 * i + 32}" by auto
    then have all: "{..<32 * i} \<subseteq> bm_taken bm \<Longrightarrow> {..<32 * Suc i} \<subseteq> bm_taken bm"
      using sw(2) by simp
    have "{l..<32 * Suc i} \<subseteq> {l..<32 * i} \<union> {32 * i..<32 * i + 32}" for l by auto
    then have rest: "{l..<32 * i} \<subseteq> bm_taken bm \<Longrightarrow> {l..<32 * Suc i} \<subseteq> bm_taken bm" for l
      using sw(2) by blast
    have eq: "pmm_scan_down (Suc i) bm (- 1) = pmm_scan_down i bm (- 1)" using sw(1) by simp
    from i have "i \<le> length bm" by simp
    from Suc.IH [OF this] show ?thesis
    proof (elim disjE exE conjE)
      fix b bm'
      assume "pmm_scan_down i bm (- 1) = Some (of_nat b, bm')" "b < 32 * i" "b \<notin> bm_taken bm"
        "{32 * (b div 32)..<b} \<subseteq> bm_taken bm" "{32 * (b div 32) + 32..<32 * i} \<subseteq> bm_taken bm"
        "length bm' = length bm" "bm_taken bm' = insert b (bm_taken bm)"
      then show ?thesis using rest unfolding eq
        by (intro disjI2 exI [of _ b] exI [of _ bm']) (simp add: less_SucI)
    qed (use eq all in simp)
  next
    fix j bm'
    assume j: "j < 32" "pmm_scan_word i bm (- 1) = Some (of_nat (32 * i + j), bm')"
      "32 * i + j \<notin> bm_taken bm" "{32 * i..<32 * i + j} \<subseteq> bm_taken bm"
      "length bm' = length bm" "bm_taken bm' = insert (32 * i + j) (bm_taken bm)"
    have b: "32 * i + j < 32 * length bm" using i j(1) by simp
    with assms(1) have nn: "(of_nat (32 * i + j) :: u32) \<noteq> - 1" by (intro block_not_none) simp
    have "pmm_scan_down i bm' (of_nat (32 * i + j)) = Some (of_nat (32 * i + j), bm')"
      using nn by (cases i) simp_all
    then have "pmm_scan_down (Suc i) bm (- 1) = Some (of_nat (32 * i + j), bm')"
      using i j(2) by (simp del: of_nat_add)
    moreover have "(32 * i + j) div 32 = i" using j(1) by simp
    ultimately show ?thesis using j by (intro disjI2 exI [of _ "32 * i + j"] exI [of _ bm']) simp
  qed
qed

lemma bm_taken_bound: "bm_taken bm \<subseteq> {..<32 * length bm}"
  by (auto simp: bm_taken_def div_less_iff_less_mult mult.commute)

lemma pmm_words: "pmm_wf s \<Longrightarrow> unat (bitmap_size s div 4) = length (bitmap s)"
  by (simp add: pmm_wf_def unat_div_distrib)

text \<open>What both searches do after the scan, for a scan that finds a block and for one that does not.\<close>

lemma pmm_alloc_found:
  assumes wf: "pmm_wf s" and b: "b < pmm_blocks s" "length bm = length (bitmap s)"
  shows "(of_nat b :: u32) \<noteq> - 1"
    and "pmm_wf (s\<lparr>bitmap := bm, memory_used := u\<rparr>)"
  using assms block_not_none [of b] by (simp_all add: pmm_wf_def)

lemma pmm_alloc_block_spec:
  assumes wf: "pmm_wf s"
  shows "if pmm_taken s = {..<pmm_blocks s} then pmm_alloc_block s = None
    else \<exists>b s'. pmm_alloc_block s = Some (of_nat b, s') \<and> b < pmm_blocks s \<and> b \<notin> pmm_taken s
       \<and> {..<b} \<subseteq> pmm_taken s \<and> pmm_wf s' \<and> pmm_taken s' = insert b (pmm_taken s)
       \<and> pmm_blocks s' = pmm_blocks s
       \<and> memory_used s' = memory_used s + ucast (memory_pagesize s)"
proof -
  from wf have u: "\<not> bitmap_lock s" and b31: "pmm_blocks s < 2 ^ 31" by (simp_all add: pmm_wf_def)
  have "{..<32 * 0} \<subseteq> pmm_taken s" by simp
  from pmm_scan_up_spec [OF b31 this] show ?thesis
  proof (elim disjE exE conjE)
    assume none: "pmm_scan_up 0 (length (bitmap s)) (bitmap s) (- 1) = Some (- 1, bitmap s)"
      "{..<pmm_blocks s} \<subseteq> pmm_taken s"
    then have "pmm_alloc_block s = None"
      using u pmm_words [OF wf] by (simp add: pmm_alloc_block_def lock_simps)
    moreover have "pmm_taken s = {..<pmm_blocks s}"
      using bm_taken_bound none(2) by (rule equalityI)
    ultimately show ?thesis by (simp only: refl if_True)
  next
    fix b bm'
    assume b: "pmm_scan_up 0 (length (bitmap s)) (bitmap s) (- 1) = Some (of_nat b, bm')"
      "b < pmm_blocks s" "b \<notin> pmm_taken s" "{..<b} \<subseteq> pmm_taken s"
      "length bm' = length (bitmap s)" "bm_taken bm' = insert b (pmm_taken s)"
    let ?s = "s\<lparr>bitmap := bm', memory_used := memory_used s + ucast (memory_pagesize s)\<rparr>"
    have "pmm_alloc_block s = Some (of_nat b, ?s)"
      using u b(1) pmm_words [OF wf] pmm_alloc_found(1) [OF wf b(2,5)]
      by (simp add: pmm_alloc_block_def lock_simps)
    moreover have "pmm_wf ?s" by (rule pmm_alloc_found(2) [OF wf b(2,5)])
    moreover have ne: "pmm_taken s \<noteq> {..<pmm_blocks s}" using b(2,3) by auto
    ultimately show ?thesis unfolding if_not_P [OF ne] using b
      by (intro exI [of _ b] exI [of _ ?s]) simp
  qed
qed

lemma pmm_alloc_block_from_end_spec:
  assumes wf: "pmm_wf s"
  shows "if pmm_taken s = {..<pmm_blocks s} then pmm_alloc_block_from_end s = None
    else \<exists>b s'. pmm_alloc_block_from_end s = Some (of_nat b, s') \<and> b < pmm_blocks s
       \<and> b \<notin> pmm_taken s \<and> {32 * (b div 32)..<b} \<subseteq> pmm_taken s
       \<and> {32 * (b div 32) + 32..<pmm_blocks s} \<subseteq> pmm_taken s
       \<and> pmm_wf s' \<and> pmm_taken s' = insert b (pmm_taken s) \<and> pmm_blocks s' = pmm_blocks s
       \<and> memory_used s' = memory_used s + ucast (memory_pagesize s)"
proof -
  from wf have u: "\<not> bitmap_lock s" and b31: "pmm_blocks s < 2 ^ 31" by (simp_all add: pmm_wf_def)
  from pmm_scan_down_spec [OF b31 order_refl] show ?thesis
  proof (elim disjE exE conjE)
    assume none: "pmm_scan_down (length (bitmap s)) (bitmap s) (- 1) = Some (- 1, bitmap s)"
      "{..<pmm_blocks s} \<subseteq> pmm_taken s"
    then have "pmm_alloc_block_from_end s = None"
      using u pmm_words [OF wf] by (simp add: pmm_alloc_block_from_end_def lock_simps)
    moreover have "pmm_taken s = {..<pmm_blocks s}"
      using bm_taken_bound none(2) by (rule equalityI)
    ultimately show ?thesis by (simp only: refl if_True)
  next
    fix b bm'
    assume b: "pmm_scan_down (length (bitmap s)) (bitmap s) (- 1) = Some (of_nat b, bm')"
      "b < pmm_blocks s" "b \<notin> pmm_taken s" "{32 * (b div 32)..<b} \<subseteq> pmm_taken s"
      "{32 * (b div 32) + 32..<pmm_blocks s} \<subseteq> pmm_taken s"
      "length bm' = length (bitmap s)" "bm_taken bm' = insert b (pmm_taken s)"
    let ?s = "s\<lparr>bitmap := bm', memory_used := memory_used s + ucast (memory_pagesize s)\<rparr>"
    have "pmm_alloc_block_from_end s = Some (of_nat b, ?s)"
      using u b(1) pmm_words [OF wf] pmm_alloc_found(1) [OF wf b(2,6)]
      by (simp add: pmm_alloc_block_from_end_def lock_simps)
    moreover have "pmm_wf ?s" by (rule pmm_alloc_found(2) [OF wf b(2,6)])
    moreover have ne: "pmm_taken s \<noteq> {..<pmm_blocks s}" using b(2,3) by auto
    ultimately show ?thesis unfolding if_not_P [OF ne] using b
      by (intro exI [of _ b] exI [of _ ?s]) simp
  qed
qed

lemma unat_block: "b < 2 ^ 31 \<Longrightarrow> unat (of_nat b :: u32) = b"
  by (simp add: unat_of_nat)

lemma unat_scast_block: "b < 2 ^ 31 \<Longrightarrow> unat (scast (of_nat b :: u32) :: u64) = b"
proof -
  assume b: "b < 2 ^ 31"
  then have "sint (of_nat b :: u32) = int b"
    by (simp add: signed_of_nat signed_take_bit_int_eq_self)
  then have "(scast (of_nat b :: u32) :: u64) = of_nat b" by (simp add: scast_eq)
  with b show ?thesis by (simp add: unat_of_nat)
qed

lemma pmm_free_block_spec:
  assumes wf: "pmm_wf s" and b: "b < pmm_blocks s"
  shows "\<exists>s'. pmm_free_block (of_nat b) s = Some ((), s') \<and> pmm_wf s'
     \<and> pmm_taken s' = pmm_taken s - {b} \<and> pmm_blocks s' = pmm_blocks s
     \<and> memory_used s' = memory_used s - ucast (memory_pagesize s)"
proof -
  from wf b have b31: "b < 2 ^ 31" and lt: "b < unat (memory_size s div ucast (memory_pagesize s))"
    by (simp_all add: pmm_wf_def)
  from b31 b obtain bm where bm: "bm_clear (bitmap s) (of_nat b) = Some bm"
    "length bm = length (bitmap s)" "bm_taken bm = pmm_taken s - {b}"
    using bm_clear_spec [of "of_nat b" "bitmap s"] unat_block by auto
  have "scast (of_nat b :: u32) < memory_size s div ucast (memory_pagesize s)"
    using lt unat_scast_block [OF b31] by (simp add: word_less_nat_alt)
  then show ?thesis
    using bm wf block_not_none [OF b31] by (simp add: pmm_free_block_def lock_simps pmm_wf_def)
qed

interpretation pmm_low: frame_allocator pmm_wf "\<lambda>s. pmm_taken s" "\<lambda>s. pmm_blocks s"
  pmm_alloc_block pmm_free_block
proof
  fix s assume wf: "pmm_wf s"
  show "pmm_taken s \<subseteq> {..<pmm_blocks s}" by (rule bm_taken_bound)
  show "pmm_blocks s < 2 ^ 31" using wf by (simp add: pmm_wf_def)
  show "pmm_alloc_block s = None" if "pmm_taken s = {..<pmm_blocks s}"
    using pmm_alloc_block_spec [OF wf] that by simp
  show "\<exists>b s'. pmm_alloc_block s = Some (of_nat b, s') \<and> b < pmm_blocks s \<and> b \<notin> pmm_taken s \<and> pmm_wf s'
      \<and> pmm_taken s' = insert b (pmm_taken s) \<and> pmm_blocks s' = pmm_blocks s"
    if "pmm_taken s \<noteq> {..<pmm_blocks s}"
    using pmm_alloc_block_spec [OF wf] unfolding if_not_P [OF that] by blast
  show "\<exists>s'. pmm_free_block (of_nat b) s = Some ((), s') \<and> pmm_wf s' \<and> pmm_taken s' = pmm_taken s - {b}
      \<and> pmm_blocks s' = pmm_blocks s" if "b < pmm_blocks s" for b
    using pmm_free_block_spec [OF wf that] by blast
qed

interpretation pmm_high: frame_allocator pmm_wf "\<lambda>s. pmm_taken s" "\<lambda>s. pmm_blocks s"
  pmm_alloc_block_from_end pmm_free_block
proof
  fix s assume wf: "pmm_wf s"
  show "pmm_taken s \<subseteq> {..<pmm_blocks s}" by (rule bm_taken_bound)
  show "pmm_blocks s < 2 ^ 31" using wf by (simp add: pmm_wf_def)
  show "pmm_alloc_block_from_end s = None" if "pmm_taken s = {..<pmm_blocks s}"
    using pmm_alloc_block_from_end_spec [OF wf] that by simp
  show "\<exists>b s'. pmm_alloc_block_from_end s = Some (of_nat b, s') \<and> b < pmm_blocks s \<and> b \<notin> pmm_taken s \<and> pmm_wf s'
      \<and> pmm_taken s' = insert b (pmm_taken s) \<and> pmm_blocks s' = pmm_blocks s"
    if "pmm_taken s \<noteq> {..<pmm_blocks s}"
    using pmm_alloc_block_from_end_spec [OF wf] unfolding if_not_P [OF that] by blast
  show "\<exists>s'. pmm_free_block (of_nat b) s = Some ((), s') \<and> pmm_wf s' \<and> pmm_taken s' = pmm_taken s - {b}
      \<and> pmm_blocks s' = pmm_blocks s" if "b < pmm_blocks s" for b
    using pmm_free_block_spec [OF wf that] by blast
qed

section \<open>Ranges and initialisation\<close>

lemma pmm_claim_spec:
  assumes wf: "pmm_wf s" and mem: "ucast stop \<le> memory_size s"
    and fits: "unat stop div unat (memory_pagesize s) < pmm_blocks s"
  shows "\<exists>s'. pmm_claim start stop s = Some ((), s') \<and> pmm_wf s'
    \<and> pmm_taken s' = pmm_taken s \<union>
        {unat start div unat (memory_pagesize s)..unat stop div unat (memory_pagesize s)}
    \<and> memory_used s' = memory_used s + ucast ((stop div memory_pagesize s - start div memory_pagesize s)
        * memory_pagesize s)
    \<and> bitmap_size s' = bitmap_size s \<and> memory_start s' = memory_start s
    \<and> memory_size s' = memory_size s \<and> memory_pagesize s' = memory_pagesize s"
proof -
  let ?ps = "memory_pagesize s"
  from wf have u: "\<not> bitmap_lock s" "?ps \<noteq> 0" and b31: "pmm_blocks s < 2 ^ 31"
    by (simp_all add: pmm_wf_def)
  have d: "unat (x div ?ps) = unat x div unat ?ps" for x by (rule unat_div_distrib)
  obtain bm where bm: "pmm_claim_loop (start div ?ps) (stop div ?ps) (bitmap s) = Some bm"
    "length bm = length (bitmap s)"
    "bm_taken bm = pmm_taken s \<union> {unat start div unat ?ps..unat stop div unat ?ps}"
    using pmm_claim_loop_spec [of "stop div ?ps" "bitmap s" "start div ?ps"] fits b31 d by auto
  have "\<not> memory_size s < ucast stop" using mem by simp
  then show ?thesis using bm u wf by (simp add: pmm_claim_def lock_simps pmm_wf_def)
qed

lemma pmm_unclaim_spec:
  assumes wf: "pmm_wf s" and mem: "ucast stop \<le> memory_size s"
    and fits: "unat stop div unat (memory_pagesize s) < pmm_blocks s"
  shows "\<exists>s'. pmm_unclaim start stop s = Some ((), s') \<and> pmm_wf s'
    \<and> pmm_taken s' = pmm_taken s -
        {unat start div unat (memory_pagesize s)..unat stop div unat (memory_pagesize s)}
    \<and> memory_used s' = memory_used s + ucast ((stop div memory_pagesize s - start div memory_pagesize s)
        * memory_pagesize s)"
proof -
  let ?ps = "memory_pagesize s"
  from wf have u: "\<not> bitmap_lock s" "?ps \<noteq> 0" and b31: "pmm_blocks s < 2 ^ 31"
    by (simp_all add: pmm_wf_def)
  have d: "unat (x div ?ps) = unat x div unat ?ps" for x by (rule unat_div_distrib)
  obtain bm where bm: "pmm_unclaim_loop (start div ?ps) (stop div ?ps) (bitmap s) = Some bm"
    "length bm = length (bitmap s)"
    "bm_taken bm = pmm_taken s - {unat start div unat ?ps..unat stop div unat ?ps}"
    using pmm_unclaim_loop_spec [of "stop div ?ps" "bitmap s" "start div ?ps"] fits b31 d by auto
  have "\<not> memory_size s < ucast stop" using mem by simp
  then show ?thesis using bm u wf by (simp add: pmm_unclaim_def lock_simps pmm_wf_def)
qed

text \<open>The region of the boot loader's map that \<^verbatim>\<open>pmm_init\<close> claims, and the blocks it covers.\<close>

definition mmap_claimed :: "u64 \<Rightarrow> mmap_entry \<Rightarrow> bool" where
  "mmap_claimed sz m \<longleftrightarrow> mmap_type m \<noteq> MBD_MMAP_AVAILABLE \<and> mmap_address m \<le> sz
     \<and> mmap_address m + mmap_length m \<le> sz"

definition mmap_stop :: "mmap_entry \<Rightarrow> u32" where
  "mmap_stop m = ucast (mmap_address m + mmap_length m)"

definition mmap_blocks :: "u32 \<Rightarrow> mmap_entry \<Rightarrow> nat set" where
  "mmap_blocks ps m =
     {unat (ucast (mmap_address m) :: u32) div unat ps..unat (mmap_stop m) div unat ps}"

lemma mmap_stop_eq: "(ucast (ucast (ucast a :: u32) + l :: u64) :: u32) = ucast (a + l)"
  apply transfer
  apply (simp add: take_bit_take_bit)
  apply (subst take_bit_add [symmetric])
  apply (subst take_bit_add [symmetric])
  apply (simp add: take_bit_take_bit)
  apply (rule take_bit_add)
  done

lemma ucast_down_le: "ucast (ucast (w :: u64) :: u32) \<le> w"
proof -
  have "unat (ucast w :: u32) \<le> unat w" by (simp add: unsigned_ucast_eq)
  moreover have "unat (ucast v :: u64) = unat v" for v :: u32
    using unat_u32_less [of v] by (simp add: unsigned_ucast_eq take_bit_nat_eq_self)
  ultimately show ?thesis by (simp only: word_le_nat_alt)
qed

lemma pmm_init_mmap_spec:
  assumes "pmm_wf s"
    and "\<forall>m \<in> set ms. mmap_claimed (memory_size s) m \<longrightarrow>
           unat (mmap_stop m) div unat (memory_pagesize s) < pmm_blocks s"
  shows "\<exists>s'. pmm_init_mmap ms s = Some ((), s') \<and> pmm_wf s'
    \<and> pmm_taken s' = pmm_taken s \<union>
        (\<Union>m \<in> {m \<in> set ms. mmap_claimed (memory_size s) m}. mmap_blocks (memory_pagesize s) m)
    \<and> bitmap_size s' = bitmap_size s \<and> memory_start s' = memory_start s
    \<and> memory_size s' = memory_size s \<and> memory_pagesize s' = memory_pagesize s"
  using assms
proof (induction ms arbitrary: s)
  case Nil
  then show ?case by simp
next
  case (Cons m ms)
  show ?case
  proof (cases "mmap_claimed (memory_size s) m")
    case False
    then have "pmm_init_mmap (m # ms) s = pmm_init_mmap ms s"
      by (auto simp: mmap_claimed_def not_le)
    moreover have "{x \<in> set (m # ms). mmap_claimed (memory_size s) x} = {x \<in> set ms. mmap_claimed (memory_size s) x}"
      using False by auto
    ultimately show ?thesis using Cons.IH [OF Cons.prems(1)] Cons.prems(2) by simp
  next
    case True
    have "ucast (mmap_stop m) \<le> memory_size s"
      using True ucast_down_le [of "mmap_address m + mmap_length m"] order_trans
      unfolding mmap_claimed_def mmap_stop_def by blast
    from pmm_claim_spec [OF Cons.prems(1) this, of "ucast (mmap_address m)"] True Cons.prems(2)
    obtain s1 where s1: "pmm_claim (ucast (mmap_address m)) (mmap_stop m) s = Some ((), s1)" "pmm_wf s1"
      "pmm_taken s1 = pmm_taken s \<union> mmap_blocks (memory_pagesize s) m"
      "bitmap_size s1 = bitmap_size s" "memory_start s1 = memory_start s"
      "memory_size s1 = memory_size s" "memory_pagesize s1 = memory_pagesize s"
      by (auto simp: mmap_blocks_def)
    then have "pmm_blocks s1 = pmm_blocks s" using Cons.prems(1) by (simp add: pmm_wf_def)
    then obtain s2 where s2: "pmm_init_mmap ms s1 = Some ((), s2)" "pmm_wf s2"
      "pmm_taken s2 = pmm_taken s1 \<union>
        (\<Union>m \<in> {m \<in> set ms. mmap_claimed (memory_size s) m}. mmap_blocks (memory_pagesize s) m)"
      "bitmap_size s2 = bitmap_size s1" "memory_start s2 = memory_start s1"
      "memory_size s2 = memory_size s1" "memory_pagesize s2 = memory_pagesize s1"
      using Cons.IH [OF s1(2)] s1 Cons.prems(2) by auto
    have "{x \<in> set (m # ms). mmap_claimed (memory_size s) x}
        = insert m {x \<in> set ms. mmap_claimed (memory_size s) x}" using True by auto
    moreover have "pmm_init_mmap (m # ms) s = pmm_init_mmap ms s1"
      using True s1(1) by (auto simp: mmap_claimed_def mmap_stop_def mmap_stop_eq)
    ultimately show ?thesis using s1 s2 by (simp add: Un_assoc)
  qed
qed

text \<open>How many blocks the bitmap covers: the pages of the memory, rounded down to whole words.\<close>

definition pmm_managed :: "pmm \<Rightarrow> nat" where
  "pmm_managed s = 32 * (unat (memory_size s div ucast (memory_pagesize s)) div 32)"

lemma unat_round_4: "unat (push_bit 2 (drop_bit 2 (w :: u32))) = 4 * (unat w div 4)"
proof -
  have "unat w div 4 * 4 < 2 ^ 32" using unat_u32_less [of w] by linarith
  then show ?thesis
    using unat_u32_less [of w]
    by (simp only: unsigned_push_bit_eq unsigned_drop_bit_eq)
       (simp add: drop_bit_eq_div push_bit_eq_mult take_bit_nat_eq_self)
qed

lemma pmm_init_bitmap_spec:
  assumes "memory_pagesize s \<noteq> 0" "unat (memory_size s div ucast (memory_pagesize s)) < 2 ^ 31"
    "\<not> bitmap_lock s"
  shows "\<exists>s'. pmm_init_bitmap s = Some s' \<and> pmm_wf s' \<and> pmm_taken s' = {}
    \<and> pmm_blocks s' = pmm_managed s \<and> unat (bitmap_size s') = pmm_managed s div 8
    \<and> memory_start s' = memory_start s \<and> memory_size s' = memory_size s
    \<and> memory_pagesize s' = memory_pagesize s \<and> memory_used s' = memory_used s"
proof -
  let ?nb = "memory_size s div ucast (memory_pagesize s)"
  let ?sz = "push_bit 2 (drop_bit 2 (ucast (?nb div 8) :: u32))"
  have "unat (?nb div 8) = unat ?nb div 8" by (simp add: unat_div_distrib)
  then have "unat (ucast (?nb div 8) :: u32) = unat ?nb div 8"
    using assms(2) by (simp add: unsigned_ucast_eq take_bit_nat_eq_self)
  then have sz: "unat ?sz = 4 * (unat ?nb div 32)"
    by (simp only: unat_round_4 div_mult2_eq [symmetric]) simp
  then have "unat ?sz div 4 = unat ?nb div 32" "unat ?sz = pmm_managed s div 8"
    by (simp_all add: pmm_managed_def)
  moreover have "bm_taken (replicate n 0) = {}" for n
    by (auto simp: bm_taken_def)
  ultimately show ?thesis
    using assms by (simp add: pmm_init_bitmap_def pmm_wf_def pmm_managed_def Let_def)
qed

lemma pmm_claim_loop_out:
  assumes "32 * length bm \<le> unat stop" "unat stop < 2 ^ 32 - 1" "unat start \<le> unat stop"
  shows "pmm_claim_loop start stop bm = None"
  using assms
proof (induction "unat stop - unat start" arbitrary: start bm)
  case 0
  then have "start \<le> stop" "32 * length bm \<le> unat start" by (simp_all add: word_le_nat_alt)
  then show ?case by (subst pmm_claim_loop.simps) (simp add: bm_set_out)
next
  case (Suc d)
  then have suc: "unat (start + 1) = Suc (unat start)"
    using unat_Suc_word [of start] by simp
  show ?case
  proof (cases "unat start < 32 * length bm")
    case True
    from bm_set_spec [OF this] obtain bm' where bm': "bm_set bm start = Some bm'"
      "length bm' = length bm" by blast
    have "pmm_claim_loop (start + 1) stop bm' = None"
      using Suc.hyps Suc.prems suc bm'(2) by simp
    with bm' Suc.prems show ?thesis by (subst pmm_claim_loop.simps) (simp add: word_le_nat_alt)
  next
    case False
    with Suc.prems show ?thesis
      by (subst pmm_claim_loop.simps) (simp add: bm_set_out word_le_nat_alt)
  qed
qed

section \<open>Properties\<close>

text \<open>A small machine: 64 pages of 4096 bytes, with block 0 and blocks 2 to 31 taken.\<close>

definition pmm_demo :: pmm where
  "pmm_demo = \<lparr>bitmap = [0xFFFFFFFD, 0], bitmap_size = 8, bitmap_lock = False,
     memory_size = 262144, memory_used = 0, memory_pagesize = 4096, memory_start = 0xC0001000\<rparr>"

lemma pmm_demo_wf: "pmm_wf pmm_demo"
  by (simp add: pmm_wf_def pmm_demo_def)

lemma pmm_demo_free: "1 \<notin> pmm_taken pmm_demo" "pmm_taken pmm_demo \<noteq> {..<pmm_blocks pmm_demo}"
proof -
  show one: "1 \<notin> pmm_taken pmm_demo" by (simp add: bm_taken_def pmm_demo_def bit_numeral_rec)
  have "1 \<in> {..<pmm_blocks pmm_demo}" by (simp add: pmm_demo_def)
  with one show "pmm_taken pmm_demo \<noteq> {..<pmm_blocks pmm_demo}" by blast
qed

lemma pmm_demo_taken: "pmm_taken pmm_demo \<subseteq> {..<32}"
proof
  fix b assume b: "b \<in> pmm_taken pmm_demo"
  then have "b div 32 < 2" by (simp add: bm_taken_def pmm_demo_def)
  moreover have "b div 32 \<noteq> 1" using b by (auto simp: bm_taken_def pmm_demo_def)
  ultimately show "b \<in> {..<32}" by auto
qed

text \<open>C2. The page allocator hands out the lowest free block: the result was free, every block below it
  is taken, exactly that block becomes taken, and the use count grows by one page. Only when no
  block is free does the call not return (the assertion fails).\<close>

theorem pmm_alloc_block_lowest:
  assumes "pmm_wf s"
  shows "if pmm_taken s = {..<pmm_blocks s} then pmm_alloc_block s = None
    else \<exists>b s'. pmm_alloc_block s = Some (of_nat b, s') \<and> b < pmm_blocks s \<and> b \<notin> pmm_taken s
       \<and> {..<b} \<subseteq> pmm_taken s \<and> pmm_wf s' \<and> pmm_taken s' = insert b (pmm_taken s)
       \<and> memory_used s' = memory_used s + ucast (memory_pagesize s)"
proof (cases "pmm_taken s = {..<pmm_blocks s}")
  case True
  with pmm_alloc_block_spec [OF assms] show ?thesis by simp
next
  case False
  with pmm_alloc_block_spec [OF assms] show ?thesis unfolding if_not_P [OF False] by blast
qed

theorem pmm_alloc_block_lowest_witness:
  "\<exists>b s'. pmm_alloc_block pmm_demo = Some (of_nat b, s') \<and> b = 1 \<and> pmm_wf s'
     \<and> pmm_taken s' = insert 1 (pmm_taken pmm_demo)"
proof -
  from pmm_alloc_block_lowest [OF pmm_demo_wf] obtain b s' where
    b: "pmm_alloc_block pmm_demo = Some (of_nat b, s')" "b \<notin> pmm_taken pmm_demo"
      "{..<b} \<subseteq> pmm_taken pmm_demo" "pmm_wf s'" "pmm_taken s' = insert b (pmm_taken pmm_demo)"
    unfolding if_not_P [OF pmm_demo_free(2)] by blast
  have "0 \<in> pmm_taken pmm_demo" by (simp add: bm_taken_def pmm_demo_def)
  with b(2,3) pmm_demo_free(1) have "b = 1"
    by (metis One_nat_def less_Suc0 lessThan_iff linorder_neqE_nat subsetD)
  with b show ?thesis by blast
qed

text \<open>C3. As long as enough blocks are free, a client that takes several blocks gets them all; they are
  pairwise different, none of them was taken before, and exactly they become taken. The same
  holds for the search from the end of the memory.\<close>

theorem pmm_alloc_many_fresh:
  assumes "pmm_wf s" "n + card (pmm_taken s) \<le> pmm_blocks s"
    "alloc = pmm_alloc_block \<or> alloc = pmm_alloc_block_from_end"
  shows "\<exists>bs s'. alloc_many alloc n s = Some (map of_nat bs, s') \<and> length bs = n \<and> distinct bs
     \<and> set bs \<inter> pmm_taken s = {} \<and> pmm_taken s' = pmm_taken s \<union> set bs \<and> pmm_wf s'"
  using assms(3) pmm_low.alloc_many_law [OF assms(1,2)] pmm_high.alloc_many_law [OF assms(1,2)]
  by (elim disjE) blast+

theorem pmm_alloc_many_fresh_witness:
  "\<exists>bs s'. alloc_many pmm_alloc_block_from_end 3 pmm_demo = Some (map of_nat bs, s') \<and> length bs = 3
     \<and> distinct bs \<and> set bs \<inter> pmm_taken pmm_demo = {}"
proof -
  have "card (pmm_taken pmm_demo) \<le> card {..<32 :: nat}"
    by (rule card_mono [OF finite_lessThan pmm_demo_taken])
  then have "3 + card (pmm_taken pmm_demo) \<le> pmm_blocks pmm_demo" by (simp add: pmm_demo_def)
  from pmm_alloc_many_fresh [OF pmm_demo_wf this] show ?thesis by blast
qed

text \<open>Freeing a block that was just allocated gives back the set of taken blocks and the use count.\<close>

lemma pmm_alloc_free_roundtrip:
  assumes "pmm_wf s" "pmm_alloc_block s = Some (b, s1)"
  shows "\<exists>s2. pmm_free_block b s1 = Some ((), s2) \<and> pmm_taken s2 = pmm_taken s
     \<and> memory_used s2 = memory_used s \<and> pmm_wf s2"
proof -
  have ne: "pmm_taken s \<noteq> {..<pmm_blocks s}" using pmm_low.alloc_full assms by force
  from pmm_alloc_block_spec [OF assms(1)] assms(2) obtain c where c: "b = of_nat c"
    "c < pmm_blocks s" "c \<notin> pmm_taken s" "pmm_wf s1" "pmm_taken s1 = insert c (pmm_taken s)"
    "pmm_blocks s1 = pmm_blocks s" "memory_used s1 = memory_used s + ucast (memory_pagesize s)"
    unfolding if_not_P [OF ne] by auto
  have "memory_pagesize s1 = memory_pagesize s"
    using assms(2) by (auto simp: pmm_alloc_block_def bind_eq_Some_conv elim!: with_lock_SomeE)
  with pmm_free_block_spec [of s1 c] c show ?thesis by auto
qed

lemma pmm_alloc_free_roundtrip_demo:
  "\<exists>b s1 s2. pmm_alloc_block pmm_demo = Some (b, s1) \<and> pmm_free_block b s1 = Some ((), s2)
     \<and> pmm_taken s2 = pmm_taken pmm_demo"
proof -
  from pmm_low.alloc_law [OF pmm_demo_wf pmm_demo_free(2)] obtain b s1 where
    "pmm_alloc_block pmm_demo = Some (b, s1)" by blast
  with pmm_alloc_free_roundtrip [OF pmm_demo_wf this] show ?thesis by blast
qed



text \<open>A claim whose end is the end of the memory, which the guard of \<^verbatim>\<open>pmm_claim\<close> lets through,
  touches a bit past the end of the bitmap when the bitmap covers the memory exactly: the loop
  runs up to and including the block of the end address.\<close>

lemma pmm_claim_memory_end_overrun:
  assumes "pmm_wf s" "ucast stop = memory_size s" "start \<le> stop"
    "unat stop = pmm_blocks s * unat (memory_pagesize s)"
  shows "pmm_claim start stop s = None"
proof -
  let ?ps = "memory_pagesize s"
  from assms(1) have wf: "\<not> bitmap_lock s" "?ps \<noteq> 0" "pmm_blocks s < 2 ^ 31"
    by (simp_all add: pmm_wf_def)
  have d: "unat (x div ?ps) = unat x div unat ?ps" for x by (rule unat_div_distrib)
  have "0 < unat ?ps" using wf(2) by (simp add: unat_gt_0)
  then have "unat (stop div ?ps) = pmm_blocks s" using assms(4) d by simp
  moreover have "unat (start div ?ps) \<le> unat (stop div ?ps)"
    using assms(3) d by (simp add: word_le_nat_alt div_le_mono)
  ultimately have "pmm_claim_loop (start div ?ps) (stop div ?ps) (bitmap s) = None"
    using wf(3) by (intro pmm_claim_loop_out) simp_all
  then show ?thesis using assms(2) wf by (simp add: pmm_claim_def lock_simps)
qed

lemma pmm_claim_memory_end_overrun_demo: "pmm_claim 0x3F000 0x40000 pmm_demo = None"
  by (rule pmm_claim_memory_end_overrun [OF pmm_demo_wf]) (simp_all add: pmm_demo_def)

end
