(* ===== verification/Ipc.thy ===== *)
theory Ipc
  imports Kprelude
begin

text \<open>
  The spin locks of \<^verbatim>\<open>os/kernel/ipc/spinlock.c\<close> and the counting semaphores of
  \<^verbatim>\<open>os/kernel/ipc/semaphore.c\<close>. The first part is the sequential reading of every function: the
  value of the lock or semaphore before and after. The second part is the concurrent reading: any
  number of CPUs, each between two atomic instructions of these functions, interleaved freely by
  an inductive step relation.
\<close>

section \<open>Sequential model\<close>

text \<open>A lock is the byte that \<^verbatim>\<open>__atomic_test_and_set\<close> works on: set or clear.\<close>

type_synonym spinlock_t = bool

definition atomic_test_and_set :: "spinlock_t \<Rightarrow> bool \<times> spinlock_t" where
  "atomic_test_and_set l = (l, True)"

definition atomic_clear :: "spinlock_t \<Rightarrow> spinlock_t" where
  "atomic_clear l = False"

definition spinlock_init :: "spinlock_t \<Rightarrow> spinlock_t" where
  "spinlock_init l = atomic_clear l"

partial_function (option) spinlock_lock :: "spinlock_t \<Rightarrow> spinlock_t option" where
  "spinlock_lock l =
     (let (old, l') = atomic_test_and_set l in if old then spinlock_lock l' else Some l')"

definition spinlock_trylock :: "spinlock_t \<Rightarrow> bool \<times> spinlock_t" where
  "spinlock_trylock l = (let (old, l') = atomic_test_and_set l in (\<not> old, l'))"

definition spinlock_unlock :: "spinlock_t \<Rightarrow> spinlock_t" where
  "spinlock_unlock l = atomic_clear l"

text \<open>A semaphore is a 32-bit \<^verbatim>\<open>int\<close>, here the word with the same bits.\<close>

type_synonym semaphore_t = u32

definition sem_init :: "semaphore_t \<Rightarrow> semaphore_t option" where
  "sem_init v = do { kassert (0 \<le> sint v); Some v }"

partial_function (option) sem_wait :: "semaphore_t \<Rightarrow> semaphore_t option" where
  "sem_wait s = (if s = 0 then sem_wait s else Some (s - 1))"

definition sem_trywait :: "semaphore_t \<Rightarrow> bool \<times> semaphore_t" where
  "sem_trywait s = (if s = 0 then (False, s) else (True, s - 1))"

definition sem_post :: "semaphore_t \<Rightarrow> semaphore_t" where
  "sem_post s = s + 1"

section \<open>Concurrent model of the spin lock\<close>

text \<open>
  Where a CPU is: outside, about to execute the \<^verbatim>\<open>test_and_set\<close> of \<^verbatim>\<open>spinlock_lock\<close> or of
  \<^verbatim>\<open>spinlock_trylock\<close>, or past it with the lock, before the \<^verbatim>\<open>clear\<close> of \<^verbatim>\<open>spinlock_unlock\<close>.
\<close>

datatype lock_pc = Outside | Spinning | Trying | Holding

record lock_sys =
  lk :: spinlock_t
  lpc :: "nat \<Rightarrow> lock_pc"

inductive lock_step :: "lock_sys \<Rightarrow> lock_sys \<Rightarrow> bool" where
  call_lock: "lpc s c = Outside \<Longrightarrow> lock_step s (s\<lparr>lpc := (lpc s)(c := Spinning)\<rparr>)"
| call_trylock: "lpc s c = Outside \<Longrightarrow> lock_step s (s\<lparr>lpc := (lpc s)(c := Trying)\<rparr>)"
| spin: "lpc s c = Spinning \<Longrightarrow> atomic_test_and_set (lk s) = (old, l') \<Longrightarrow>
    lock_step s (s\<lparr>lk := l', lpc := (lpc s)(c := if old then Spinning else Holding)\<rparr>)"
| trial: "lpc s c = Trying \<Longrightarrow> spinlock_trylock (lk s) = (ok, l') \<Longrightarrow>
    lock_step s (s\<lparr>lk := l', lpc := (lpc s)(c := if ok then Holding else Outside)\<rparr>)"
| unlock: "lpc s c = Holding \<Longrightarrow>
    lock_step s (s\<lparr>lk := spinlock_unlock (lk s), lpc := (lpc s)(c := Outside)\<rparr>)"

definition lock_start :: "spinlock_t \<Rightarrow> lock_sys" where
  "lock_start l = \<lparr>lk = spinlock_init l, lpc = (\<lambda>_. Outside)\<rparr>"

section \<open>Concurrent model of the semaphore\<close>

text \<open>
  \<^verbatim>\<open>sem_wait\<close> loads the value (\<open>Loading\<close>) until it is not zero, then subtracts one (\<open>Decrementing\<close>);
  \<^verbatim>\<open>sem_trywait\<close> does the same with a single load (\<open>Testing\<close>). \<open>Inside\<close> is past the subtraction.
\<close>

datatype sem_pc = Away | Loading | Testing | Decrementing | Inside

record sem_sys =
  sv :: semaphore_t
  spc :: "nat \<Rightarrow> sem_pc"

inductive sem_step :: "sem_sys \<Rightarrow> sem_sys \<Rightarrow> bool" where
  call_wait: "spc s c = Away \<Longrightarrow> sem_step s (s\<lparr>spc := (spc s)(c := Loading)\<rparr>)"
| call_trywait: "spc s c = Away \<Longrightarrow> sem_step s (s\<lparr>spc := (spc s)(c := Testing)\<rparr>)"
| load: "spc s c = Loading \<Longrightarrow>
    sem_step s (s\<lparr>spc := (spc s)(c := if sv s = 0 then Loading else Decrementing)\<rparr>)"
| test: "spc s c = Testing \<Longrightarrow>
    sem_step s (s\<lparr>spc := (spc s)(c := if sv s = 0 then Away else Decrementing)\<rparr>)"
| sub: "spc s c = Decrementing \<Longrightarrow>
    sem_step s (s\<lparr>sv := sv s - 1, spc := (spc s)(c := Inside)\<rparr>)"
| post: "spc s c = Inside \<Longrightarrow>
    sem_step s (s\<lparr>sv := sem_post (sv s), spc := (spc s)(c := Away)\<rparr>)"

definition sem_start :: "semaphore_t \<Rightarrow> sem_sys" where
  "sem_start v = \<lparr>sv = v, spc = (\<lambda>_. Away)\<rparr>"

inductive_cases lock_stepE: "lock_step s t"
inductive_cases sem_stepE: "sem_step s t"

section \<open>Mutual exclusion\<close>

definition lock_holders :: "lock_sys \<Rightarrow> nat set" where
  "lock_holders s = {c. lpc s c = Holding}"

definition lock_inv :: "lock_sys \<Rightarrow> bool" where
  "lock_inv s \<longleftrightarrow> (if lk s then \<exists>c. lock_holders s = {c} else lock_holders s = {})"

lemmas lock_ops = atomic_test_and_set_def atomic_clear_def spinlock_trylock_def spinlock_unlock_def
  spinlock_init_def

lemma lock_holders_update:
  "lock_holders (s\<lparr>lpc := (lpc s)(c := p)\<rparr>)
     = (if p = Holding then insert c (lock_holders s) else lock_holders s - {c})"
  "lock_holders (s\<lparr>lk := l, lpc := (lpc s)(c := p)\<rparr>)
     = (if p = Holding then insert c (lock_holders s) else lock_holders s - {c})"
  by (auto simp: lock_holders_def)

lemma lock_not_holding: "lpc s c \<noteq> Holding \<Longrightarrow> lock_holders s - {c} = lock_holders s"
  by (auto simp: lock_holders_def)

lemma lock_inv_start: "lock_inv (lock_start l)"
  by (simp add: lock_inv_def lock_holders_def lock_start_def lock_ops)

lemma lock_inv_step: "lock_step s t \<Longrightarrow> lock_inv s \<Longrightarrow> lock_inv t"
proof (induction rule: lock_step.induct)
  case (unlock s c)
  then have "c \<in> lock_holders s" by (simp add: lock_holders_def)
  with unlock show ?case by (auto simp: lock_inv_def lock_ops lock_holders_update split: if_splits)
qed (simp_all add: lock_inv_def lock_ops lock_holders_update lock_not_holding split: if_splits)

lemma lock_inv_reachable: "lock_step\<^sup>*\<^sup>* (lock_start l) s \<Longrightarrow> lock_inv s"
  by (induction rule: rtranclp_induct) (auto intro: lock_inv_start lock_inv_step)

lemma lock_can_enter:
  assumes "lock_inv s" "lpc s c = Spinning"
  shows "\<exists>t. lock_step\<^sup>*\<^sup>* s t \<and> lpc t c = Holding"
proof -
  have enter: "\<exists>t. lock_step u t \<and> lpc t c = Holding" if "\<not> lk u" "lpc u c = Spinning" for u
    using lock_step.spin [of u c False True] that by (auto simp: lock_ops)
  show ?thesis
  proof (cases "lk s")
    case False
    with enter [of s] assms(2) show ?thesis by blast
  next
    case True
    with assms(1) obtain d where d: "lpc s d = Holding" by (auto simp: lock_inv_def lock_holders_def)
    let ?u = "s\<lparr>lk := spinlock_unlock (lk s), lpc := (lpc s)(d := Outside)\<rparr>"
    have "lock_step s ?u" using d by (rule lock_step.unlock)
    moreover have "\<exists>t. lock_step ?u t \<and> lpc t c = Holding"
      using d assms(2) by (intro enter) (auto simp: lock_ops)
    ultimately show ?thesis by (meson converse_rtranclp_into_rtranclp r_into_rtranclp)
  qed
qed

section \<open>Conservation of semaphore tokens\<close>

definition sem_inside :: "sem_sys \<Rightarrow> nat set" where
  "sem_inside s = {c. spc s c = Inside}"

lemma sem_inside_update:
  "sem_inside (s\<lparr>spc := (spc s)(c := p)\<rparr>)
     = (if p = Inside then insert c (sem_inside s) else sem_inside s - {c})"
  "sem_inside (s\<lparr>sv := v, spc := (spc s)(c := p)\<rparr>)
     = (if p = Inside then insert c (sem_inside s) else sem_inside s - {c})"
  by (auto simp: sem_inside_def)

lemma sem_not_inside: "spc s c \<noteq> Inside \<Longrightarrow> sem_inside s - {c} = sem_inside s"
  by (auto simp: sem_inside_def)

definition sem_inv :: "semaphore_t \<Rightarrow> sem_sys \<Rightarrow> bool" where
  "sem_inv v s \<longleftrightarrow> finite (sem_inside s) \<and> sv s + of_nat (card (sem_inside s)) = v"

lemma sem_inv_step: "sem_step s t \<Longrightarrow> sem_inv v s \<Longrightarrow> sem_inv v t"
proof (induction rule: sem_step.induct)
  case (sub s c)
  then have "c \<notin> sem_inside s" by (simp add: sem_inside_def)
  with sub show ?case by (simp add: sem_inv_def sem_inside_update)
next
  case (post s c)
  then have c: "c \<in> sem_inside s" "finite (sem_inside s)" by (simp_all add: sem_inside_def sem_inv_def)
  then obtain n where n: "card (sem_inside s) = Suc n" "card (sem_inside s - {c}) = n"
    by (metis card_Suc_Diff1)
  have "sv s + of_nat (Suc n) = v" using post(2) n(1) by (simp only: sem_inv_def)
  then show ?case using c(2) n(2) by (simp add: sem_inv_def sem_inside_update sem_post_def add.assoc)
qed (simp_all add: sem_inv_def sem_inside_update sem_not_inside)

lemma sem_inv_reachable: "sem_step\<^sup>*\<^sup>* (sem_start v) s \<Longrightarrow> sem_inv v s"
proof (induction rule: rtranclp_induct)
  case base
  show ?case by (simp add: sem_inv_def sem_inside_def sem_start_def)
qed (rule sem_inv_step)

section \<open>Properties\<close>

text \<open>C5. Mutual exclusion of spin locks: however the CPUs interleave their calls of \<^verbatim>\<open>spinlock_lock\<close>,
  \<^verbatim>\<open>spinlock_trylock\<close> and \<^verbatim>\<open>spinlock_unlock\<close>, no two of them hold the lock together, and the lock byte
  is set exactly while some CPU holds it.\<close>

theorem spinlock_mutual_exclusion:
  assumes "lock_step\<^sup>*\<^sup>* (lock_start l) s"
  shows "(\<forall>c d. lpc s c = Holding \<longrightarrow> lpc s d = Holding \<longrightarrow> c = d)
     \<and> (lk s \<longleftrightarrow> (\<exists>c. lpc s c = Holding))"
proof -
  from lock_inv_reachable [OF assms] have "lk s \<longleftrightarrow> lock_holders s \<noteq> {}"
    and one: "\<exists>c. lock_holders s \<subseteq> {c}"
    by (auto simp: lock_inv_def split: if_splits)
  then show ?thesis by (auto simp: lock_holders_def)
qed

text \<open>Two CPUs contend: the second one fails its \<^verbatim>\<open>test_and_set\<close> while the first is inside.\<close>

definition lock_contended :: lock_sys where
  "lock_contended = \<lparr>lk = True, lpc = (\<lambda>_. Outside)(0 := Holding, 1 := Spinning)\<rparr>"

lemma lock_contended_reachable: "lock_step\<^sup>*\<^sup>* (lock_start True) lock_contended"
proof -
  let ?s1 = "\<lparr>lk = False, lpc = (\<lambda>_. Outside)(0 := Spinning)\<rparr>"
  let ?s2 = "\<lparr>lk = True, lpc = (\<lambda>_. Outside)(0 := Holding)\<rparr>"
  have "lock_step\<^sup>*\<^sup>* (lock_start True) ?s1"
    using lock_step.call_lock [of "lock_start True" 0]
    by (intro r_into_rtranclp) (simp add: lock_start_def lock_ops)
  also have "lock_step ?s1 ?s2"
    using lock_step.spin [of ?s1 0 False True] by (simp add: lock_ops)
  also have "lock_step ?s2 lock_contended"
    using lock_step.call_lock [of ?s2 1] by (simp add: lock_contended_def)
  finally show ?thesis .
qed

theorem spinlock_mutual_exclusion_witness:
  "lpc lock_contended 0 = Holding \<and> lk lock_contended \<and> lpc lock_contended 1 \<noteq> Holding"
proof -
  have "lpc lock_contended 0 = Holding" by (simp add: lock_contended_def)
  with spinlock_mutual_exclusion [OF lock_contended_reachable] show ?thesis by (metis zero_neq_one)
qed

text \<open>C6. A spin lock never blocks for good: from every reachable state, a CPU that spins on the lock
  can still come to hold it.\<close>

theorem spinlock_no_deadlock:
  assumes "lock_step\<^sup>*\<^sup>* (lock_start l) s" "lpc s c = Spinning"
  shows "\<exists>t. lock_step\<^sup>*\<^sup>* s t \<and> lpc t c = Holding"
  using lock_can_enter [OF lock_inv_reachable [OF assms(1)] assms(2)] .

theorem spinlock_no_deadlock_witness:
  "\<exists>t. lock_step\<^sup>*\<^sup>* lock_contended t \<and> lpc t 1 = Holding"
  by (rule spinlock_no_deadlock [OF lock_contended_reachable]) (simp add: lock_contended_def)


text \<open>The interleaving of two waiters that both load the value 1 before either subtracts.\<close>

definition sem_raced :: sem_sys where
  "sem_raced = \<lparr>sv = - 1, spc = (\<lambda>_. Away)(0 := Inside, 1 := Inside)\<rparr>"

lemma sem_raced_reachable: "sem_step\<^sup>*\<^sup>* (sem_start 1) sem_raced"
proof -
  let ?s1 = "\<lparr>sv = 1, spc = (\<lambda>_. Away)(0 := Loading)\<rparr>"
  let ?s2 = "\<lparr>sv = 1, spc = (\<lambda>_. Away)(0 := Loading, 1 := Loading)\<rparr>"
  let ?s3 = "\<lparr>sv = 1, spc = (\<lambda>_. Away)(0 := Decrementing, 1 := Loading)\<rparr>"
  let ?s4 = "\<lparr>sv = 1, spc = (\<lambda>_. Away)(0 := Decrementing, 1 := Decrementing)\<rparr>"
  let ?s5 = "\<lparr>sv = 0, spc = (\<lambda>_. Away)(0 := Inside, 1 := Decrementing)\<rparr>"
  have "sem_step\<^sup>*\<^sup>* (sem_start 1) ?s1"
    using sem_step.call_wait [of "sem_start 1" 0]
    by (intro r_into_rtranclp) (simp add: sem_start_def)
  also have "sem_step ?s1 ?s2" using sem_step.call_wait [of ?s1 1] by simp
  also have "sem_step ?s2 ?s3" using sem_step.load [of ?s2 0] by (simp add: fun_upd_twist)
  also have "sem_step ?s3 ?s4" using sem_step.load [of ?s3 1] by simp
  also have "sem_step ?s4 ?s5" using sem_step.sub [of ?s4 0] by (simp add: fun_upd_twist)
  also have "sem_step ?s5 sem_raced" using sem_step.sub [of ?s5 1] by (simp add: sem_raced_def)
  finally show ?thesis .
qed


text \<open>The load and the subtraction of \<^verbatim>\<open>sem_wait\<close> are separate: a semaphore initialised to one,
  the binary semaphore, can be entered by two CPUs at once, and its value then is \<open>-1\<close>.\<close>

lemma semaphore_wait_race:
  "\<exists>s. sem_init 1 = Some 1 \<and> sem_step\<^sup>*\<^sup>* (sem_start 1) s \<and> spc s 0 = Inside \<and> spc s 1 = Inside
     \<and> sint (sv s) = - 1"
  using sem_raced_reachable by (intro exI [of _ sem_raced]) (simp add: sem_init_def sem_raced_def)

end
