(* ===== verification/Klist.thy ===== *)
theory Klist
  imports Kprelude
begin

text \<open>
  The doubly linked list of \<^verbatim>\<open>sdk/libs/aplus/utils/list.c\<close>, which the kernel uses for its task, device,
  child and cache lists. The heap holds list heads and list elements at addresses; \<open>None\<close> is the
  null pointer, and an access through a pointer to no object has no result. Each function of the
  file is translated with its pointer updates; the theory proves that a well-linked list refines a
  sequence of values, so that the other theories may use HOL lists.
\<close>

section \<open>Model\<close>

type_synonym addr = nat

record list_head =
  lh_first :: "addr option"
  lh_last :: "addr option"
  lh_length :: u32

record 'v list_element =
  le_list :: addr
  le_prev :: "addr option"
  le_next :: "addr option"
  le_value :: 'v

record 'v lheap =
  heads :: "addr \<rightharpoonup> list_head"
  elems :: "addr \<rightharpoonup> 'v list_element"

text \<open>
  A pointer to an element and a pointer to its value differ by the size of the element header
  (\<^verbatim>\<open>get_element\<close> and \<^verbatim>\<open>get_value_ptr\<close>), so one address stands for both. The addresses that
  \<^verbatim>\<open>calloc\<close> and \<^verbatim>\<open>malloc\<close> return are arguments.
\<close>

definition list_length :: "addr option \<Rightarrow> 'v lheap \<Rightarrow> u32 option" where
  "list_length p h =
     (case p of None \<Rightarrow> Some 0 | Some l \<Rightarrow> do { hd \<leftarrow> heads h l; Some (lh_length hd) })"

definition list_get_head :: "addr \<Rightarrow> addr option \<Rightarrow> 'v lheap \<Rightarrow> addr \<times> 'v lheap" where
  "list_get_head new p h =
     (case p of
        None \<Rightarrow> (new, h\<lparr>heads := (heads h)(new \<mapsto> \<lparr>lh_first = None, lh_last = None, lh_length = 0\<rparr>)\<rparr>)
      | Some l \<Rightarrow> (l, h))"

definition list_push :: "addr \<Rightarrow> addr \<Rightarrow> 'v \<Rightarrow> addr option \<Rightarrow> 'v lheap \<Rightarrow> (addr option \<times> 'v lheap) option" where
  "list_push newh a v p h =
     do {
       let (l, h) = list_get_head newh p h;
       hd \<leftarrow> heads h l;
       let hd = hd\<lparr>lh_length := lh_length hd + 1\<rparr>;
       let elem = \<lparr>le_list = l, le_prev = lh_last hd, le_next = None, le_value = v\<rparr>;
       let es = (elems h)(a \<mapsto> elem);
       (es, hd) \<leftarrow> (case lh_last hd of
           Some z \<Rightarrow> do { ez \<leftarrow> es z; Some (es(z \<mapsto> ez\<lparr>le_next := Some a\<rparr>), hd\<lparr>lh_last := Some a\<rparr>) }
         | None \<Rightarrow> Some (es, hd\<lparr>lh_first := Some a, lh_last := Some a\<rparr>));
       Some (Some l, h\<lparr>heads := (heads h)(l \<mapsto> hd), elems := es\<rparr>)
     }"

definition list_push_front :: "addr \<Rightarrow> addr \<Rightarrow> 'v \<Rightarrow> addr option \<Rightarrow> 'v lheap \<Rightarrow> (addr option \<times> 'v lheap) option" where
  "list_push_front newh a v p h =
     do {
       let (l, h) = list_get_head newh p h;
       hd \<leftarrow> heads h l;
       let hd = hd\<lparr>lh_length := lh_length hd + 1\<rparr>;
       let elem = \<lparr>le_list = l, le_prev = None, le_next = lh_first hd, le_value = v\<rparr>;
       let es = (elems h)(a \<mapsto> elem);
       (es, hd) \<leftarrow> (case lh_first hd of
           Some z \<Rightarrow> do { ez \<leftarrow> es z; Some (es(z \<mapsto> ez\<lparr>le_prev := Some a\<rparr>), hd\<lparr>lh_first := Some a\<rparr>) }
         | None \<Rightarrow> Some (es, hd\<lparr>lh_first := Some a, lh_last := Some a\<rparr>));
       Some (Some l, h\<lparr>heads := (heads h)(l \<mapsto> hd), elems := es\<rparr>)
     }"

definition list_front :: "addr option \<Rightarrow> 'v lheap \<Rightarrow> addr option option" where
  "list_front p h =
     (case p of None \<Rightarrow> Some None | Some l \<Rightarrow> do { hd \<leftarrow> heads h l; Some (lh_first hd) })"

definition list_back :: "addr option \<Rightarrow> 'v lheap \<Rightarrow> addr option option" where
  "list_back p h =
     (case p of None \<Rightarrow> Some None | Some l \<Rightarrow> do { hd \<leftarrow> heads h l; Some (lh_last hd) })"

definition list_next :: "addr option \<Rightarrow> 'v lheap \<Rightarrow> addr option option" where
  "list_next x h =
     (case x of None \<Rightarrow> Some None | Some a \<Rightarrow> do { e \<leftarrow> elems h a; Some (le_next e) })"

definition list_prev :: "addr option \<Rightarrow> 'v lheap \<Rightarrow> addr option option" where
  "list_prev x h =
     (case x of None \<Rightarrow> Some None | Some a \<Rightarrow> do { e \<leftarrow> elems h a; Some (le_prev e) })"

definition list_remove :: "addr option \<Rightarrow> 'v lheap \<Rightarrow> (unit \<times> 'v lheap) option" where
  "list_remove x h =
     (case x of
        None \<Rightarrow> Some ((), h)
      | Some a \<Rightarrow>
          do {
            e \<leftarrow> elems h a;
            let l = le_list e;
            hd \<leftarrow> heads h l;
            let hd = hd\<lparr>lh_length := lh_length hd - 1\<rparr>;
            es \<leftarrow> (case le_next e of
                None \<Rightarrow> Some (elems h)
              | Some n \<Rightarrow> do { en \<leftarrow> elems h n; Some ((elems h)(n \<mapsto> en\<lparr>le_prev := le_prev e\<rparr>)) });
            es \<leftarrow> (case le_prev e of
                None \<Rightarrow> Some es
              | Some p \<Rightarrow> do { ep \<leftarrow> es p; Some (es(p \<mapsto> ep\<lparr>le_next := le_next e\<rparr>)) });
            let hd = (if lh_first hd = Some a then hd\<lparr>lh_first := le_next e\<rparr> else hd);
            let hd = (if lh_last hd = Some a then hd\<lparr>lh_last := le_prev e\<rparr> else hd);
            Some ((), h\<lparr>heads := (heads h)(l \<mapsto> hd), elems := es(a := None)\<rparr>)
          })"

partial_function (option) list_clear_loop :: "addr option \<Rightarrow> 'v lheap \<Rightarrow> 'v lheap option" where
  "list_clear_loop x h =
     (case x of
        None \<Rightarrow> Some h
      | Some a \<Rightarrow>
          do { e \<leftarrow> elems h a; list_clear_loop (le_next e) (h\<lparr>elems := (elems h)(a := None)\<rparr>) })"

definition list_clear :: "addr option \<Rightarrow> 'v lheap \<Rightarrow> (addr option \<times> 'v lheap) option" where
  "list_clear p h =
     (case p of
        None \<Rightarrow> Some (None, h)
      | Some l \<Rightarrow>
          do {
            hd \<leftarrow> heads h l;
            h \<leftarrow> list_clear_loop (lh_first hd) h;
            Some (None, h\<lparr>heads := (heads h)(l := None)\<rparr>)
          })"

text \<open>A client's loop over a list: the values from an element on, following a link.\<close>

partial_function (option) list_walk ::
  "(addr option \<Rightarrow> 'v lheap \<Rightarrow> addr option option) \<Rightarrow> addr option \<Rightarrow> 'v lheap \<Rightarrow> 'v list option" where
  "list_walk step x h =
     (case x of
        None \<Rightarrow> Some []
      | Some a \<Rightarrow>
          do { e \<leftarrow> elems h a; x' \<leftarrow> step x h; vs \<leftarrow> list_walk step x' h; Some (le_value e # vs) })"

definition list_values :: "addr option \<Rightarrow> 'v lheap \<Rightarrow> 'v list option" where
  "list_values p h = do { x \<leftarrow> list_front p h; list_walk list_next x h }"

definition list_values_back :: "addr option \<Rightarrow> 'v lheap \<Rightarrow> 'v list option" where
  "list_values_back p h = do { x \<leftarrow> list_back p h; list_walk list_prev x h }"

section \<open>Well-linked lists\<close>

text \<open>\<open>first_or xs n\<close> is the address of the first element of \<open>xs\<close>, or what follows.\<close>

definition first_or :: "addr list \<Rightarrow> addr option \<Rightarrow> addr option" where
  "first_or xs n = (case xs of [] \<Rightarrow> n | x # _ \<Rightarrow> Some x)"

definition last_or :: "addr list \<Rightarrow> addr option \<Rightarrow> addr option" where
  "last_or xs p = (if xs = [] then p else Some (last xs))"

fun lseg :: "(addr \<rightharpoonup> 'v list_element) \<Rightarrow> addr \<Rightarrow> addr option \<Rightarrow> (addr \<times> 'v) list \<Rightarrow> addr option \<Rightarrow> bool" where
  "lseg es l p [] n = True"
| "lseg es l p ((a, v) # xs) n =
     (es a = Some \<lparr>le_list = l, le_prev = p, le_next = first_or (map fst xs) n, le_value = v\<rparr>
      \<and> lseg es l (Some a) xs n)"

text \<open>\<open>list_at h l xs\<close>: at \<open>l\<close> there is a head whose elements are, in order, \<open>xs\<close>.\<close>

definition list_at :: "'v lheap \<Rightarrow> addr \<Rightarrow> (addr \<times> 'v) list \<Rightarrow> bool" where
  "list_at h l xs \<longleftrightarrow>
     heads h l = Some \<lparr>lh_first = first_or (map fst xs) None, lh_last = last_or (map fst xs) None,
                       lh_length = of_nat (length xs)\<rparr>
     \<and> distinct (map fst xs) \<and> lseg (elems h) l None xs None"

definition list_is :: "'v lheap \<Rightarrow> addr option \<Rightarrow> (addr \<times> 'v) list \<Rightarrow> bool" where
  "list_is h p xs \<longleftrightarrow> (case p of None \<Rightarrow> xs = [] | Some l \<Rightarrow> list_at h l xs)"

section \<open>The contract of a list of values\<close>

text \<open>A client that appends several values, each in an element at an address of its own.\<close>

fun push_all ::
  "('a \<Rightarrow> 'v \<Rightarrow> 'p \<Rightarrow> 'h \<Rightarrow> ('p \<times> 'h) option) \<Rightarrow> ('a \<times> 'v) list \<Rightarrow> 'p \<Rightarrow> 'h \<Rightarrow> ('p \<times> 'h) option" where
  "push_all push [] p h = Some (p, h)"
| "push_all push ((a, v) # xs) p h = do { (p, h) \<leftarrow> push a v p h; push_all push xs p h }"

locale value_list =
  fixes rep :: "'h \<Rightarrow> 'p \<Rightarrow> ('a \<times> 'v) list \<Rightarrow> bool"
    and push :: "'a \<Rightarrow> 'v \<Rightarrow> 'p \<Rightarrow> 'h \<Rightarrow> ('p \<times> 'h) option"
    and remove :: "'a \<Rightarrow> 'h \<Rightarrow> (unit \<times> 'h) option"
    and vals :: "'p \<Rightarrow> 'h \<Rightarrow> 'v list option"
  assumes push_law: "rep h p xs \<Longrightarrow> a \<notin> fst ` set xs \<Longrightarrow>
      \<exists>p' h'. push a v p h = Some (p', h') \<and> rep h' p' (xs @ [(a, v)])"
    and remove_law: "rep h p (xs @ (a, v) # ys) \<Longrightarrow>
      \<exists>h'. remove a h = Some ((), h') \<and> rep h' p (xs @ ys)"
    and vals_law: "rep h p xs \<Longrightarrow> vals p h = Some (map snd xs)"
begin

lemma push_all_law:
  "rep h p xs \<Longrightarrow> distinct (map fst (xs @ ys)) \<Longrightarrow>
   \<exists>p' h'. push_all push ys p h = Some (p', h') \<and> rep h' p' (xs @ ys)"
proof (induction ys arbitrary: h p xs)
  case Nil
  then show ?case by simp
next
  case (Cons y ys)
  obtain a v where y: "y = (a, v)" by (cases y)
  have "a \<notin> fst ` set xs" using Cons.prems(2) y by simp
  from push_law [OF Cons.prems(1) this, of v] obtain p' h' where
    "push a v p h = Some (p', h')" "rep h' p' (xs @ [(a, v)])" by blast
  with Cons.IH [of h' p' "xs @ [(a, v)]"] Cons.prems(2) y show ?case by simp
qed

text \<open>Appending values and removing one of them again leaves the others in their order.\<close>

lemma push_all_remove:
  assumes "rep h p []" "distinct (map fst (xs @ (a, v) # ys))"
  shows "\<exists>p1 h1 h2. push_all push (xs @ (a, v) # ys) p h = Some (p1, h1)
    \<and> vals p1 h1 = Some (map snd (xs @ (a, v) # ys))
    \<and> remove a h1 = Some ((), h2) \<and> vals p1 h2 = Some (map snd (xs @ ys))"
proof -
  from push_all_law [OF assms(1), of "xs @ (a, v) # ys"] assms(2) obtain p1 h1 where
    1: "push_all push (xs @ (a, v) # ys) p h = Some (p1, h1)" "rep h1 p1 (xs @ (a, v) # ys)" by auto
  from remove_law [OF 1(2)] obtain h2 where "remove a h1 = Some ((), h2)" "rep h2 p1 (xs @ ys)"
    by blast
  with 1 show ?thesis using vals_law by blast
qed

end

section \<open>Segments\<close>

lemma first_or_simps [simp]:
  "first_or [] n = n" "first_or (x # xs) n = Some x"
  "first_or (xs @ ys) n = first_or xs (first_or ys n)"
  by (simp_all add: first_or_def split: list.splits)

lemma last_or_simps [simp]:
  "last_or [] p = p" "last_or (xs @ [x]) p = Some x" "last_or (x # xs) p = last_or xs (Some x)"
  "last_or (xs @ ys) p = last_or ys (last_or xs p)"
  by (simp_all add: last_or_def last_append)

lemma first_or_neq: "a \<notin> set xs \<Longrightarrow> n \<noteq> Some a \<Longrightarrow> first_or xs n \<noteq> Some a"
  by (cases xs) auto

lemma last_or_neq: "a \<notin> set xs \<Longrightarrow> p \<noteq> Some a \<Longrightarrow> last_or xs p \<noteq> Some a"
  by (auto simp: last_or_def)

lemma lseg_append:
  "lseg es l p (xs @ ys) n \<longleftrightarrow>
     lseg es l p xs (first_or (map fst ys) n) \<and> lseg es l (last_or (map fst xs) p) ys n"
  by (induction es l p xs n rule: lseg.induct) (simp_all add: conj_assoc)

lemma lseg_frame:
  "a \<notin> fst ` set xs \<Longrightarrow> lseg (es(a := e)) l p xs n = lseg es l p xs n"
  by (induction xs arbitrary: p) auto

lemma lseg_lookup: "lseg es l p xs n \<Longrightarrow> a \<in> fst ` set xs \<Longrightarrow> es a \<noteq> None"
  by (induction xs arbitrary: p) force+

lemma lseg_snoc:
  assumes "lseg es l p (ys @ [(z, w)]) n" "distinct (map fst (ys @ [(z, w)]))"
    "a \<notin> fst ` set (ys @ [(z, w)])"
  shows "\<exists>ez. es z = Some ez \<and> lseg (es(a \<mapsto> \<lparr>le_list = l, le_prev = Some z, le_next = n', le_value = v\<rparr>,
      z \<mapsto> ez\<lparr>le_next := Some a\<rparr>)) l p (ys @ [(z, w), (a, v)]) n'"
  using assms by (simp add: lseg_append lseg_frame)

lemma lseg_cons:
  assumes "lseg es l p ((z, w) # ys) n" "distinct (map fst ((z, w) # ys))"
    "a \<notin> fst ` set ((z, w) # ys)"
  shows "\<exists>ez. es z = Some ez \<and> lseg (es(a \<mapsto> \<lparr>le_list = l, le_prev = p', le_next = Some z, le_value = v\<rparr>,
      z \<mapsto> ez\<lparr>le_prev := Some a\<rparr>)) l p' ((a, v) # (z, w) # ys) n"
  using assms by (simp add: lseg_frame)

section \<open>The operations on well-linked lists\<close>

lemma list_get_head_is:
  assumes "list_is h p xs" "p = None \<longrightarrow> heads h newh = None"
  shows "\<exists>l h'. list_get_head newh p h = (l, h') \<and> list_at h' l xs \<and> elems h' = elems h
     \<and> (p = None \<longrightarrow> l = newh) \<and> (\<forall>m. m \<noteq> l \<longrightarrow> heads h' m = heads h m) \<and> (\<forall>m. p = Some m \<longrightarrow> l = m)"
  using assms by (auto simp: list_get_head_def list_is_def list_at_def split: option.splits)

lemma list_push_spec:
  assumes "list_is h p xs" "p = None \<longrightarrow> heads h newh = None" "a \<notin> fst ` set xs"
  shows "\<exists>l h'. list_push newh a v p h = Some (Some l, h') \<and> list_at h' l (xs @ [(a, v)])"
proof -
  from list_get_head_is [OF assms(1,2)] obtain l h1 where
    h1: "list_get_head newh p h = (l, h1)" "list_at h1 l xs" by blast
  show ?thesis
  proof (cases xs rule: rev_cases)
    case Nil
    with h1 show ?thesis by (simp add: list_push_def list_at_def Let_def)
  next
    case (snoc ys y)
    obtain z w where y: "y = (z, w)" by (cases y)
    have seg: "lseg (elems h1) l None (ys @ [(z, w)]) None" "distinct (map fst (ys @ [(z, w)]))"
      using h1(2) snoc y by (simp_all add: list_at_def)
    have a: "a \<notin> fst ` set (ys @ [(z, w)])" using assms(3) snoc y by simp
    from lseg_snoc [OF seg a, of None v] obtain ez where "elems h1 z = Some ez"
      "lseg ((elems h1)(a \<mapsto> \<lparr>le_list = l, le_prev = Some z, le_next = None, le_value = v\<rparr>,
         z \<mapsto> ez\<lparr>le_next := Some a\<rparr>)) l None (xs @ [(a, v)]) None"
      using snoc y by auto
    moreover have "z \<noteq> a" using a by auto
    ultimately show ?thesis
      using h1 snoc y a by (simp add: list_push_def list_at_def Let_def)
  qed
qed

lemma list_push_front_spec:
  assumes "list_is h p xs" "p = None \<longrightarrow> heads h newh = None" "a \<notin> fst ` set xs"
  shows "\<exists>l h'. list_push_front newh a v p h = Some (Some l, h') \<and> list_at h' l ((a, v) # xs)"
proof -
  from list_get_head_is [OF assms(1,2)] obtain l h1 where
    h1: "list_get_head newh p h = (l, h1)" "list_at h1 l xs" by blast
  show ?thesis
  proof (cases xs)
    case Nil
    with h1 show ?thesis by (simp add: list_push_front_def list_at_def Let_def)
  next
    case (Cons y ys)
    obtain z w where y: "y = (z, w)" by (cases y)
    have seg: "lseg (elems h1) l None ((z, w) # ys) None" "distinct (map fst ((z, w) # ys))"
      using h1(2) Cons y by (simp_all add: list_at_def)
    have a: "a \<notin> fst ` set ((z, w) # ys)" using assms(3) Cons y by simp
    from lseg_cons [OF seg a, of None v] obtain ez where "elems h1 z = Some ez"
      "lseg ((elems h1)(a \<mapsto> \<lparr>le_list = l, le_prev = None, le_next = Some z, le_value = v\<rparr>,
         z \<mapsto> ez\<lparr>le_prev := Some a\<rparr>)) l None ((a, v) # xs) None"
      using Cons y by auto
    moreover have "z \<noteq> a" using a by auto
    ultimately show ?thesis
      using h1 Cons y a by (simp add: list_push_front_def list_at_def Let_def)
  qed
qed

lemma list_at_elem:
  assumes "list_at h l (xs @ (a, v) # ys)"
  shows "elems h a = Some \<lparr>le_list = l, le_prev = last_or (map fst xs) None,
    le_next = first_or (map fst ys) None, le_value = v\<rparr>"
  using assms by (simp add: list_at_def lseg_append)

lemma list_remove_spec:
  assumes at: "list_at h l (xs @ (a, v) # ys)"
  shows "\<exists>h'. list_remove (Some a) h = Some ((), h') \<and> list_at h' l (xs @ ys) \<and> elems h' a = None"
proof -
  note e = list_at_elem [OF at]
  show ?thesis
  proof (cases xs rule: rev_cases; cases ys)
    assume "xs = []" "ys = []"
    with at e show ?thesis by (simp add: list_remove_def list_at_def Let_def)
  next
    fix y ys' assume "xs = []" "ys = y # ys'"
    with at e show ?thesis
      by (cases y) (simp add: list_remove_def list_at_def Let_def lseg_frame last_or_neq)
  next
    fix xs' x assume "xs = xs' @ [x]" "ys = []"
    with at e show ?thesis
      by (cases x)
         (simp add: list_remove_def list_at_def Let_def lseg_append lseg_frame first_or_neq)
  next
    fix xs' x y ys' assume "xs = xs' @ [x]" "ys = y # ys'"
    with at e show ?thesis
      by (cases x; cases y)
         (simp add: list_remove_def list_at_def Let_def lseg_append lseg_frame first_or_neq last_or_neq)
  qed
qed

lemma list_step_at:
  "elems h a = Some e \<Longrightarrow> list_next (Some a) h = Some (le_next e)"
  "elems h a = Some e \<Longrightarrow> list_prev (Some a) h = Some (le_prev e)"
  by (simp_all add: list_next_def list_prev_def)

lemma list_walk_next:
  "lseg (elems h) l p xs None \<Longrightarrow>
   list_walk list_next (first_or (map fst xs) None) h = Some (map snd xs)"
proof (induction xs arbitrary: p)
  case Nil
  show ?case by (subst list_walk.simps) simp
next
  case (Cons x xs)
  then show ?case by (cases x) (subst list_walk.simps, auto simp: list_step_at)
qed

lemma list_walk_prev:
  "lseg (elems h) l None xs n \<Longrightarrow>
   list_walk list_prev (last_or (map fst xs) None) h = Some (rev (map snd xs))"
proof (induction xs arbitrary: n rule: rev_induct)
  case Nil
  show ?case by (subst list_walk.simps) simp
next
  case (snoc x xs)
  then show ?case by (cases x) (subst list_walk.simps, auto simp: list_step_at lseg_append)
qed

lemma list_values_at: "list_at h l xs \<Longrightarrow> list_values (Some l) h = Some (map snd xs)"
  using list_walk_next [of h l None xs] by (simp add: list_values_def list_front_def list_at_def)

lemma list_values_back_at: "list_at h l xs \<Longrightarrow> list_values_back (Some l) h = Some (rev (map snd xs))"
  using list_walk_prev [of h l xs None] by (simp add: list_values_back_def list_back_def list_at_def)

lemma list_length_at: "list_at h l xs \<Longrightarrow> list_length (Some l) h = Some (of_nat (length xs))"
  by (simp add: list_length_def list_at_def)

lemma list_values_is: "list_is h p xs \<Longrightarrow> list_values p h = Some (map snd xs)"
proof (cases p)
  case None
  moreover have "list_walk list_next None h = Some []" by (subst list_walk.simps) simp
  ultimately show "list_is h p xs \<Longrightarrow> ?thesis" by (simp add: list_is_def list_values_def list_front_def)
qed (simp add: list_is_def list_values_at)

lemma list_clear_loop_spec:
  "lseg (elems h) l p xs None \<Longrightarrow> distinct (map fst xs) \<Longrightarrow>
   list_clear_loop (first_or (map fst xs) None) h
     = Some (h\<lparr>elems := elems h |` (- fst ` set xs)\<rparr>)"
proof (induction xs arbitrary: p h)
  case Nil
  have "elems h |` UNIV = elems h" by (simp add: restrict_map_def)
  then show ?case by (subst list_clear_loop.simps) simp
next
  case (Cons x xs)
  obtain a v where x: "x = (a, v)" by (cases x)
  let ?h = "h\<lparr>elems := (elems h)(a := None)\<rparr>"
  have "lseg (elems ?h) l (Some a) xs None" using Cons.prems x by (simp add: lseg_frame)
  then have "list_clear_loop (first_or (map fst xs) None) ?h
      = Some (?h\<lparr>elems := elems ?h |` (- fst ` set xs)\<rparr>)"
    by (rule Cons.IH) (use Cons.prems(2) in simp)
  moreover have "elems ?h |` (- fst ` set xs) = elems h |` (- fst ` set (x # xs))"
    using x by (simp add: restrict_map_def fun_eq_iff)
  ultimately show ?case using Cons.prems(1) x
    by (subst list_clear_loop.simps) (simp del: fun_upd_apply)
qed

definition klist_rep :: "addr \<Rightarrow> 'v lheap \<Rightarrow> addr option \<Rightarrow> (addr \<times> 'v) list \<Rightarrow> bool" where
  "klist_rep newh h p xs \<longleftrightarrow> list_is h p xs \<and> (p = None \<longrightarrow> heads h newh = None)"

interpretation kl: value_list "klist_rep newh" "list_push newh" "\<lambda>a. list_remove (Some a)" list_values
  for newh
proof
  fix h :: "'v lheap" and p xs a v
  assume "klist_rep newh h p xs" "a \<notin> fst ` set xs"
  then show "\<exists>p' h'. list_push newh a v p h = Some (p', h') \<and> klist_rep newh h' p' (xs @ [(a, v)])"
    using list_push_spec [of h p xs newh a v] by (fastforce simp: klist_rep_def list_is_def)
next
  fix h :: "'v lheap" and p xs a v ys
  assume rep: "klist_rep newh h p (xs @ (a, v) # ys)"
  then obtain l where l: "p = Some l" "list_at h l (xs @ (a, v) # ys)"
    by (auto simp: klist_rep_def list_is_def split: option.splits)
  then show "\<exists>h'. list_remove (Some a) h = Some ((), h') \<and> klist_rep newh h' p (xs @ ys)"
    using list_remove_spec [OF l(2)] by (auto simp: klist_rep_def list_is_def)
next
  fix h :: "'v lheap" and p xs
  assume "klist_rep newh h p xs"
  then show "list_values p h = Some (map snd xs)"
    by (simp add: klist_rep_def list_values_is)
qed

section \<open>Properties\<close>

text \<open>The list is a sequence: values pushed one after the other onto a null list, in elements at
  fresh addresses, are found in order by a walk over the links, and removing any one of them
  leaves exactly the others in their order.\<close>

lemma klist_push_remove:
  assumes "heads h newh = None" "distinct (map fst (xs @ (a, v) # ys))"
  shows "\<exists>p h1 h2. push_all (list_push newh) (xs @ (a, v) # ys) None h = Some (p, h1)
    \<and> list_values p h1 = Some (map snd (xs @ (a, v) # ys))
    \<and> list_remove (Some a) h1 = Some ((), h2) \<and> list_values p h2 = Some (map snd (xs @ ys))"
  using kl.push_all_remove [of newh h None xs a v ys] assms
  by (simp add: klist_rep_def list_is_def)

lemma klist_push_remove_demo:
  "\<exists>p h1 h2. push_all (list_push 100) ([(1, ''a''), (2, ''b'')] @ (3, ''c'') # [(4, ''d'')]) None
        \<lparr>heads = Map.empty, elems = Map.empty\<rparr> = Some (p, h1)
    \<and> list_values p h1 = Some [''a'', ''b'', ''c'', ''d'']
    \<and> list_remove (Some 3) h1 = Some ((), h2) \<and> list_values p h2 = Some [''a'', ''b'', ''d'']"
  using klist_push_remove [of "\<lparr>heads = Map.empty, elems = Map.empty\<rparr>" 100
      "[(1, ''a''), (2, ''b'')]" 3 "''c''" "[(4, ''d'')]"] by simp

text \<open>C8. Removing an element from a well-linked list at any position keeps the list well linked: the
  walk from the front, the walk from the back and the stored length all agree on the remaining
  sequence, and the element's memory is released.\<close>

theorem klist_remove_any:
  assumes "list_at h l (xs @ (a, v) # ys)"
  shows "\<exists>h'. list_remove (Some a) h = Some ((), h') \<and> list_at h' l (xs @ ys)
     \<and> list_values (Some l) h' = Some (map snd (xs @ ys))
     \<and> list_values_back (Some l) h' = Some (rev (map snd (xs @ ys)))
     \<and> list_length (Some l) h' = Some (of_nat (length (xs @ ys))) \<and> elems h' a = None"
proof -
  from list_remove_spec [OF assms] obtain h' where
    h': "list_remove (Some a) h = Some ((), h')" "list_at h' l (xs @ ys)" "elems h' a = None" by blast
  then show ?thesis
    using list_values_at [OF h'(2)] list_values_back_at [OF h'(2)] list_length_at [OF h'(2)] by blast
qed

text \<open>A heap with the list of the values \<open>7\<close> and \<open>8\<close> at addresses 1 and 2.\<close>

definition klist_demo :: "nat lheap" where
  "klist_demo = \<lparr>heads = [0 \<mapsto> \<lparr>lh_first = Some 1, lh_last = Some 2, lh_length = 2\<rparr>],
     elems = [1 \<mapsto> \<lparr>le_list = 0, le_prev = None, le_next = Some 2, le_value = 7\<rparr>,
              2 \<mapsto> \<lparr>le_list = 0, le_prev = Some 1, le_next = None, le_value = 8\<rparr>]\<rparr>"

lemma klist_demo_at: "list_at klist_demo 0 ([(1, 7)] @ (2, 8) # [])"
  by (simp add: klist_demo_def list_at_def last_or_def)

theorem klist_remove_any_witness:
  "\<exists>h'. list_remove (Some 2) klist_demo = Some ((), h') \<and> list_values (Some 0) h' = Some [7]"
  using klist_remove_any [OF klist_demo_at] by auto

text \<open>Clearing a list terminates, releases the head and every element of the list and nothing
  else, and nulls the client's pointer.\<close>

lemma klist_clear_frees:
  assumes "list_at h l xs"
  shows "\<exists>h'. list_clear (Some l) h = Some (None, h') \<and> heads h' = (heads h)(l := None)
     \<and> elems h' = elems h |` (- fst ` set xs)"
  using list_clear_loop_spec [of h l None xs] assms
  by (simp add: list_clear_def list_at_def)

lemma klist_clear_frees_demo:
  "\<exists>h'. list_clear (Some 0) klist_demo = Some (None, h') \<and> heads h' = Map.empty \<and> elems h' = Map.empty"
  using klist_clear_frees [OF klist_demo_at]
  by (auto simp: klist_demo_def fun_eq_iff restrict_map_def)

end
