(* ===== verification/Paging.thy ===== *)
theory Paging
  imports Pmm
begin

text \<open>
  The page tables of \<^verbatim>\<open>os/arch/x86/32/vmm.c\<close> and the mapping of ranges of \<^verbatim>\<open>os/arch/x86/vmm.c\<close>, over a
  memory of 32-bit words at kernel virtual addresses and the page allocator. A page directory is
  the base address of 1024 entries; an entry holds a frame number and flags. The theory proves
  that mapping and unmapping change the translation of exactly one page, that page tables and
  pages never share a frame, and that lookups agree with the tables.
\<close>

section \<open>Model\<close>

definition PAGE_SIZE :: u32 where "PAGE_SIZE = 4096"

definition X86_MMU_PG_P :: u64 where "X86_MMU_PG_P = push_bit 0 1"
definition X86_MMU_PG_RW :: u64 where "X86_MMU_PG_RW = push_bit 1 1"
definition X86_MMU_PG_U :: u64 where "X86_MMU_PG_U = push_bit 2 1"
definition X86_MMU_PG_CD :: u64 where "X86_MMU_PG_CD = push_bit 4 1"
definition X86_MMU_PG_PS :: u64 where "X86_MMU_PG_PS = push_bit 7 1"
definition X86_MMU_PG_G :: u64 where "X86_MMU_PG_G = push_bit 8 1"
definition X86_MMU_PG_NX :: u64 where "X86_MMU_PG_NX = push_bit 63 1"
definition X86_MMU_PT_PAT :: u64 where "X86_MMU_PT_PAT = push_bit 7 1"
definition X86_MMU_PG_AP_PFB :: u64 where "X86_MMU_PG_AP_PFB = push_bit 9 1"
definition X86_MMU_PG_AP_PAT :: u64 where "X86_MMU_PG_AP_PAT = push_bit 10 1"
definition X86_MMU_CLEAR :: u32 where "X86_MMU_CLEAR = 0"

definition ARCH_MAP_FIXED :: u32 where "ARCH_MAP_FIXED = 1"
definition ARCH_MAP_USER :: u32 where "ARCH_MAP_USER = 2"
definition ARCH_MAP_UNCACHED :: u32 where "ARCH_MAP_UNCACHED = 4"
definition ARCH_MAP_RDWR :: u32 where "ARCH_MAP_RDWR = 8"
definition ARCH_MAP_NOEXEC :: u32 where "ARCH_MAP_NOEXEC = 16"
definition ARCH_MAP_SHARED :: u32 where "ARCH_MAP_SHARED = 32"
definition ARCH_MAP_VIDEO_MEMORY :: u32 where "ARCH_MAP_VIDEO_MEMORY = 64"

text \<open>The memory that the tables live in, by the kernel virtual address of each word.\<close>

record vm =
  vm_mem :: "u32 \<Rightarrow> u32"
  vm_pmm :: pmm

definition vm_store :: "u32 \<Rightarrow> u32 \<Rightarrow> vm \<Rightarrow> vm" where
  "vm_store a w s = s\<lparr>vm_mem := (vm_mem s)(a := w)\<rparr>"

definition vm_memset_page :: "u32 \<Rightarrow> vm \<Rightarrow> vm" where
  "vm_memset_page base s = s\<lparr>vm_mem := (\<lambda>a. if a - base < PAGE_SIZE then 0 else vm_mem s a)\<rparr>"

definition pmm_alloc_block_safe :: "vm \<Rightarrow> (u32 \<times> vm) option" where
  "pmm_alloc_block_safe s =
     do {
       (b, p) \<leftarrow> pmm_alloc_block (vm_pmm s);
       kassert (b \<noteq> - 1);
       Some (b, vm_memset_page (push_bit 12 b + CONFIG_KERNEL_BASE) (s\<lparr>vm_pmm := p\<rparr>))
     }"

definition pg :: "u32 \<Rightarrow> u64 \<Rightarrow> bool" where
  "pg e f \<longleftrightarrow> ucast e AND f \<noteq> 0"

definition pde_addr :: "u32 \<Rightarrow> u32 \<Rightarrow> u32" where
  "pde_addr aspace address = aspace + 4 * (drop_bit 22 address AND 0x3FF)"

definition pte_addr :: "u32 \<Rightarrow> u32 \<Rightarrow> u32" where
  "pte_addr e address = (e AND NOT 0xFFF) + CONFIG_KERNEL_BASE + 4 * (drop_bit 12 address AND 0x3FF)"

text \<open>The three blocks of \<^verbatim>\<open>x86_map_page\<close>: the directory entry, the page table, the page.\<close>

definition x86_map_pd :: "u32 \<Rightarrow> u64 \<Rightarrow> vm \<Rightarrow> (unit \<times> vm) option" where
  "x86_map_pd d flags s =
     do {
       kassert (\<not> pg (vm_mem s d) X86_MMU_PG_PS);
       if \<not> pg (vm_mem s d) X86_MMU_PG_P
       then do {
         (b, s) \<leftarrow> pmm_alloc_block_safe s;
         Some ((), vm_store d (push_bit 12 b OR ucast flags) s)
       }
       else Some ((), s)
     }"

definition x86_map_pt :: "u32 \<Rightarrow> u32 \<Rightarrow> u64 \<Rightarrow> vm \<Rightarrow> (unit \<times> vm) option" where
  "x86_map_pt d block flags s =
     do {
       kassert (\<not> pg (vm_mem s d) X86_MMU_PG_P);
       let flags = (if flags AND X86_MMU_PG_AP_PAT \<noteq> 0 then flags OR X86_MMU_PT_PAT else flags);
       if block = - 1
       then do {
         (b, s) \<leftarrow> pmm_alloc_block_safe s;
         Some ((), vm_store d (push_bit 12 b OR ucast (X86_MMU_PG_AP_PFB OR flags)) s)
       }
       else Some ((), vm_store d (push_bit 12 block OR ucast flags) s)
     }"

definition x86_map_page :: "u32 \<Rightarrow> u32 \<Rightarrow> u32 \<Rightarrow> u64 \<Rightarrow> vm \<Rightarrow> (unit \<times> vm) option" where
  "x86_map_page aspace address block flags s =
     do {
       kassert (aspace \<noteq> 0);
       kassert (aspace > CONFIG_KERNEL_BASE);
       let flags = flags AND NOT X86_MMU_PG_NX;
       let d = pde_addr aspace address;
       (_, s) \<leftarrow> x86_map_pd d flags s;
       x86_map_pt (pte_addr (vm_mem s d) address) block flags s
     }"

definition x86_unmap_page :: "u32 \<Rightarrow> u32 \<Rightarrow> vm \<Rightarrow> (unit \<times> vm) option" where
  "x86_unmap_page aspace address s =
     do {
       kassert (aspace \<noteq> 0);
       kassert (aspace > CONFIG_KERNEL_BASE);
       let d = pde_addr aspace address;
       kassert (pg (vm_mem s d) X86_MMU_PG_P);
       let d = pte_addr (vm_mem s d) address;
       kassert (pg (vm_mem s d) X86_MMU_PG_P);
       s \<leftarrow> (if pg (vm_mem s d) X86_MMU_PG_AP_PFB
            then do {
              (_, p) \<leftarrow> pmm_free_block (drop_bit 12 (vm_mem s d)) (vm_pmm s);
              Some (s\<lparr>vm_pmm := p\<rparr>)
            }
            else Some s);
       Some ((), vm_store d X86_MMU_CLEAR s)
     }"

text \<open>The lookups. A directory entry of a 4 MiB page takes the place of the table entry.\<close>

definition x86_ptr_access :: "u32 \<Rightarrow> u32 \<Rightarrow> u32 \<Rightarrow> vm \<Rightarrow> bool option" where
  "x86_ptr_access aspace address mode s =
     do {
       kassert (aspace \<noteq> 0);
       let e = vm_mem s (pde_addr aspace address);
       if \<not> pg e X86_MMU_PG_P then Some False
       else do {
         let e = (if \<not> pg e X86_MMU_PG_PS then vm_mem s (pte_addr e address) else e);
         if mode AND R_OK \<noteq> 0 \<and> \<not> pg e X86_MMU_PG_P then Some False
         else if mode AND W_OK \<noteq> 0 \<and> \<not> pg e X86_MMU_PG_RW then Some False
         else Some True
       }
     }"

definition x86_ptr_phys :: "u32 \<Rightarrow> u32 \<Rightarrow> vm \<Rightarrow> u32 option" where
  "x86_ptr_phys aspace address s =
     do {
       kassert (aspace \<noteq> 0);
       let addend = address AND (PAGE_SIZE - 1);
       let e = vm_mem s (pde_addr aspace address);
       if \<not> pg e X86_MMU_PG_P then Some 0
       else do {
         let (e, addend) = (if \<not> pg e X86_MMU_PG_PS then (vm_mem s (pte_addr e address), addend)
                            else (e, address AND 0x3FFFFF));
         if \<not> pg e X86_MMU_PG_P then Some 0
         else Some (push_bit 12 (drop_bit 12 e) + addend)
       }
     }"

text \<open>An address space; its operations are three code addresses, its mappings references to map objects.\<close>

record address_space =
  as_vmmpd :: u32
  as_start :: u32
  as_end :: u32
  as_size :: u32
  as_ops :: "u32 \<times> u32 \<times> u32"
  as_mappings :: "nat list"

definition arch_map_flags :: "u32 \<Rightarrow> u64" where
  "arch_map_flags flags =
     X86_MMU_PG_P
     OR (if flags AND ARCH_MAP_RDWR \<noteq> 0 then X86_MMU_PG_RW else 0)
     OR (if flags AND ARCH_MAP_NOEXEC \<noteq> 0 then X86_MMU_PG_NX else 0)
     OR (if flags AND ARCH_MAP_USER \<noteq> 0 then X86_MMU_PG_U else 0)
     OR (if flags AND ARCH_MAP_UNCACHED \<noteq> 0 then X86_MMU_PG_CD else 0)
     OR (if flags AND ARCH_MAP_SHARED \<noteq> 0 then X86_MMU_PG_G else 0)
     OR (if flags AND ARCH_MAP_VIDEO_MEMORY \<noteq> 0 then X86_MMU_PG_AP_PAT else 0)"

partial_function (option) arch_mmap_loop ::
  "u32 \<Rightarrow> u32 \<Rightarrow> u32 \<Rightarrow> u64 \<Rightarrow> address_space \<Rightarrow> vm \<Rightarrow> (address_space \<times> vm) option" where
  "arch_mmap_loop a e flags mf asp s =
     (if a \<le> e
      then do {
        (_, s) \<leftarrow> x86_map_page (as_vmmpd asp + CONFIG_KERNEL_BASE) a
                   (if flags AND ARCH_MAP_FIXED \<noteq> 0 then drop_bit 12 a else - 1) mf s;
        arch_mmap_loop (a + PAGE_SIZE) e flags mf (asp\<lparr>as_size := as_size asp + PAGE_SIZE\<rparr>) s
      }
      else Some (asp, s))"

definition arch_mmap :: "u32 \<Rightarrow> u32 \<Rightarrow> u32 \<Rightarrow> address_space \<Rightarrow> vm \<Rightarrow> (u32 \<times> address_space \<times> vm) option" where
  "arch_mmap address len flags asp s =
     do {
       kassert (len \<noteq> 0);
       let a = address AND NOT (PAGE_SIZE - 1);
       let e = (address + len) AND NOT (PAGE_SIZE - 1);
       (asp, s) \<leftarrow> arch_mmap_loop a e flags (arch_map_flags flags) asp s;
       Some (address, asp, s)
     }"

partial_function (option) arch_munmap_loop ::
  "u32 \<Rightarrow> u32 \<Rightarrow> address_space \<Rightarrow> vm \<Rightarrow> (address_space \<times> vm) option" where
  "arch_munmap_loop a e asp s =
     (if a < e
      then do {
        (_, s) \<leftarrow> x86_unmap_page (as_vmmpd asp + CONFIG_KERNEL_BASE) a s;
        arch_munmap_loop (a + PAGE_SIZE) e (asp\<lparr>as_size := as_size asp - PAGE_SIZE\<rparr>) s
      }
      else Some (asp, s))"

definition arch_munmap :: "u32 \<Rightarrow> u32 \<Rightarrow> address_space \<Rightarrow> vm \<Rightarrow> (unit \<times> address_space \<times> vm) option" where
  "arch_munmap address len asp s =
     do {
       kassert (len \<noteq> 0);
       let a = address AND NOT (PAGE_SIZE - 1);
       let e = (address + len + PAGE_SIZE) AND NOT (PAGE_SIZE - 1);
       (asp, s) \<leftarrow> arch_munmap_loop a e asp s;
       Some ((), asp, s)
     }"

definition arch_ptr_access :: "address_space \<Rightarrow> u32 \<Rightarrow> u32 \<Rightarrow> vm \<Rightarrow> bool option" where
  "arch_ptr_access asp ptr mode s =
     do { kassert (ptr \<noteq> 0); x86_ptr_access (as_vmmpd asp + CONFIG_KERNEL_BASE) ptr mode s }"

definition arch_ptr_phys :: "address_space \<Rightarrow> u32 \<Rightarrow> vm \<Rightarrow> u32 option" where
  "arch_ptr_phys asp ptr s =
     do { kassert (ptr \<noteq> 0); x86_ptr_phys (as_vmmpd asp + CONFIG_KERNEL_BASE) ptr s }"

text \<open>The kernel heap's break: its two static variables and the page table updates.\<close>

definition CONFIG_HEAP_BASE :: u32 where "CONFIG_HEAP_BASE = 0xC8000000"
definition CONFIG_HEAP_SIZE :: u32 where "CONFIG_HEAP_SIZE = 0x10000000"
definition CONFIG_HEAP_PREALLOC_SIZE :: u32 where "CONFIG_HEAP_PREALLOC_SIZE = 0x00100000"

record kheap =
  kh_base :: u32
  kh_page :: u32

definition morecore :: "u32 \<Rightarrow> kheap \<Rightarrow> address_space \<Rightarrow> vm \<Rightarrow> (u32 \<times> kheap \<times> address_space \<times> vm) option" where
  "morecore incr kh asp s =
     do {
       kassert (0 \<le> sint incr);
       kassert (kh_base kh \<le> CONFIG_HEAP_BASE + CONFIG_HEAP_SIZE);
       (kh', asp, s) \<leftarrow>
         (if kh_base kh + incr > kh_page kh
          then do {
            let pe = incr AND (NOT (PAGE_SIZE - 1) + PAGE_SIZE * (if incr mod PAGE_SIZE \<noteq> 0 then 1 else 0));
            (_, asp, s) \<leftarrow> arch_mmap (kh_page kh) (pe - 1)
              (ARCH_MAP_NOEXEC OR ARCH_MAP_RDWR OR ARCH_MAP_SHARED) asp s;
            Some (kh\<lparr>kh_page := kh_page kh + pe\<rparr>, asp, s)
          }
          else Some (kh, asp, s));
       Some (kh_base kh, kh'\<lparr>kh_base := kh_base kh + incr\<rparr>, asp, s)
     }"

section \<open>Entries\<close>

lemmas mmu_flags = X86_MMU_PG_P_def X86_MMU_PG_RW_def X86_MMU_PG_U_def X86_MMU_PG_CD_def
  X86_MMU_PG_PS_def X86_MMU_PG_G_def X86_MMU_PG_NX_def X86_MMU_PT_PAT_def X86_MMU_PG_AP_PFB_def
  X86_MMU_PG_AP_PAT_def

lemma bit_push_one_u64: "bit (push_bit k 1 :: u64) n \<longleftrightarrow> n = k \<and> k < 64"
  by (auto simp: push_bit_of_1 bit_exp_iff)

lemma and_push_one: "(w :: u64) AND push_bit k 1 \<noteq> 0 \<longleftrightarrow> bit w k"
proof
  assume "w AND push_bit k 1 \<noteq> 0"
  then obtain n where "bit (w AND push_bit k 1) n" by (metis bit_eq_iff bit_0_eq bot_apply bot_bool_def)
  then show "bit w k" by (auto simp: bit_and_iff bit_push_one_u64 simp del: push_bit_of_1)
next
  assume w: "bit w k"
  then have "k < 64" using bit_imp_le_length [OF w] by simp
  then have "bit (w AND push_bit k 1) k" using w by (simp add: bit_and_iff bit_push_one_u64 del: push_bit_of_1)
  then show "w AND push_bit k 1 \<noteq> 0" by auto
qed

lemma pg_bit:
  "pg e X86_MMU_PG_P \<longleftrightarrow> bit e 0" "pg e X86_MMU_PG_RW \<longleftrightarrow> bit e 1"
  "pg e X86_MMU_PG_PS \<longleftrightarrow> bit e 7" "pg e X86_MMU_PG_AP_PFB \<longleftrightarrow> bit e 9"
  unfolding pg_def mmu_flags and_push_one by (simp_all add: bit_ucast_iff)

text \<open>The frame of an entry, and the address through which the kernel reaches a frame.\<close>

definition frame_of :: "u32 \<Rightarrow> nat" where
  "frame_of e = unat (drop_bit 12 e)"

definition frame_addr :: "nat \<Rightarrow> u32" where
  "frame_addr f = of_nat (f * 4096) + CONFIG_KERNEL_BASE"

definition cell :: "vm \<Rightarrow> nat \<Rightarrow> nat \<Rightarrow> u32" where
  "cell s f j = vm_mem s (frame_addr f + 4 * of_nat j)"

text \<open>The frames below 1 GiB are the ones the kernel can reach at \<^verbatim>\<open>CONFIG_KERNEL_BASE\<close>.\<close>

lemma unat_frame_addr: "f < 2 ^ 18 \<Longrightarrow> unat (frame_addr f) = 0xC0000000 + f * 4096"
proof -
  assume f: "f < 2 ^ 18"
  have "unat (frame_addr f) = (f * 4096 mod 2 ^ 32 + 0xC0000000) mod 2 ^ 32"
    by (simp add: frame_addr_def CONFIG_KERNEL_BASE_def unat_word_ariths unat_of_nat mod_simps)
  with f show ?thesis by simp
qed

lemma unat_cell_addr:
  assumes "f < 2 ^ 18" "j < 1024"
  shows "unat (frame_addr f + 4 * of_nat j) = 0xC0000000 + f * 4096 + 4 * j"
proof -
  have "unat (4 * of_nat j :: u32) = 4 * j" using assms(2) by (simp add: unat_word_ariths unat_of_nat)
  with assms unat_frame_addr [OF assms(1)] show ?thesis
    by (subst unat_word_ariths) simp
qed

lemma cell_addr_inj:
  assumes "f < 2 ^ 18" "j < 1024" "g < 2 ^ 18" "k < 1024"
  shows "frame_addr f + 4 * of_nat j = frame_addr g + 4 * of_nat k \<longleftrightarrow> f = g \<and> j = k"
proof
  assume "frame_addr f + 4 * of_nat j = frame_addr g + 4 * of_nat k"
  then have "f * 4096 + 4 * j = g * 4096 + 4 * k"
    using unat_cell_addr [OF assms(1,2)] unat_cell_addr [OF assms(3,4)] by simp
  then have "f * 1024 + j = g * 1024 + k" by simp
  then have "(f * 1024 + j) div 1024 = (g * 1024 + k) div 1024"
    "(f * 1024 + j) mod 1024 = (g * 1024 + k) mod 1024" by simp_all
  with assms(2,4) show "f = g \<and> j = k" by simp
qed simp

lemma cell_vm_store:
  assumes "f < 2 ^ 18" "j < 1024" "g < 2 ^ 18" "k < 1024"
  shows "cell (vm_store (frame_addr f + 4 * of_nat j) w s) g k = (if g = f \<and> k = j then w else cell s g k)"
  using cell_addr_inj [OF assms] by (auto simp: cell_def vm_store_def)

lemma cell_memset_page:
  assumes "f < 2 ^ 18" "g < 2 ^ 18" "k < 1024"
  shows "cell (vm_memset_page (frame_addr f) s) g k = (if g = f then 0 else cell s g k)"
proof -
  let ?a = "frame_addr g + 4 * of_nat k"
  have a: "unat ?a = 0xC0000000 + g * 4096 + 4 * k" by (rule unat_cell_addr [OF assms(2,3)])
  have f: "unat (frame_addr f) = 0xC0000000 + f * 4096" by (rule unat_frame_addr [OF assms(1)])
  have "?a - frame_addr f < PAGE_SIZE \<longleftrightarrow> g = f"
  proof (cases "frame_addr f \<le> ?a")
    case True
    then have "unat (?a - frame_addr f) = g * 4096 + 4 * k - f * 4096"
      using a f by (simp add: unat_sub)
    moreover have "g * 4096 + 4 * k - f * 4096 < 4096 \<longleftrightarrow> g = f"
      using True a f assms(3) by (auto simp: word_le_nat_alt)
    ultimately show ?thesis by (simp add: PAGE_SIZE_def word_less_nat_alt)
  next
    case False
    then have lt: "unat ?a < unat (frame_addr f)" by (simp add: word_le_nat_alt)
    then have "unat (?a - frame_addr f) = unat ?a + 2 ^ 32 - unat (frame_addr f)"
      by (simp add: unat_sub_if_size word_le_nat_alt word_size)
    moreover have "2 ^ 18 * 4096 \<ge> (f + 1) * (4096 :: nat)" using assms(1) by simp
    ultimately have "\<not> ?a - frame_addr f < PAGE_SIZE"
      using a f lt by (simp add: PAGE_SIZE_def word_less_nat_alt)
    moreover have "g \<noteq> f" using lt a f by auto
    ultimately show ?thesis by simp
  qed
  then show ?thesis by (simp add: cell_def vm_memset_page_def)
qed

text \<open>The two indices of an address, and the entry of a directory or table they select.\<close>

definition pdi :: "u32 \<Rightarrow> nat" where "pdi a = unat (drop_bit 22 a AND 0x3FF)"
definition pti :: "u32 \<Rightarrow> nat" where "pti a = unat (drop_bit 12 a AND 0x3FF)"

lemma and_low_mask: "(w :: u32) AND 0x3FF = take_bit 10 w" "(w :: u32) AND 0xFFF = take_bit 12 w"
  by (simp_all add: take_bit_eq_mask mask_eq_exp_minus_1)

lemma idx_less: "pdi a < 1024" "pti a < 1024"
  unfolding pdi_def pti_def and_low_mask
  using take_bit_nat_less_exp [of 10 "unat (drop_bit 22 a)"]
    take_bit_nat_less_exp [of 10 "unat (drop_bit 12 a)"]
  by (simp_all add: unsigned_take_bit_eq)

lemma high_mask: "(e :: u32) AND NOT 0xFFF = push_bit 12 (drop_bit 12 e)"
proof -
  have m: "(0xFFF :: u32) = mask 12" by (simp add: mask_eq_exp_minus_1)
  show ?thesis unfolding m by (auto intro!: bit_word_eqI simp: bit_simps)
qed

lemma high_mask_frame: "(e :: u32) AND NOT 0xFFF = of_nat (frame_of e * 4096)"
  unfolding high_mask frame_of_def push_bit_eq_mult by simp

lemma pde_addr_frame: "pde_addr (frame_addr d) a = frame_addr d + 4 * of_nat (pdi a)"
  by (simp add: pde_addr_def pdi_def)

lemma pte_addr_frame: "pte_addr e a = frame_addr (frame_of e) + 4 * of_nat (pti a)"
  unfolding pte_addr_def high_mask_frame by (simp add: pti_def frame_addr_def)

lemma block_frame_addr: "push_bit 12 (of_nat b) + CONFIG_KERNEL_BASE = frame_addr b"
  by (simp add: frame_addr_def push_bit_eq_mult)

text \<open>The flags that fit below the frame number, and the entry they make.\<close>

lemma entry_low_bits: "n < 12 \<Longrightarrow> bit (push_bit 12 b OR f :: u32) n \<longleftrightarrow> bit f n"
  by (auto simp: bit_simps)

lemma entry_frame:
  assumes "b < 2 ^ 20" "drop_bit 12 (f :: u32) = 0"
  shows "frame_of (push_bit 12 (of_nat b) OR f) = b"
proof -
  have "drop_bit 12 (push_bit 12 (of_nat b) OR f) = drop_bit 12 (push_bit 12 (of_nat b :: u32))"
    using assms(2) by (simp add: drop_bit_or)
  also have "\<dots> = take_bit 20 (of_nat b)"
    by (auto intro!: bit_word_eqI simp: bit_simps)
  finally show ?thesis
    using assms(1) by (simp add: frame_of_def unsigned_take_bit_eq unat_of_nat take_bit_nat_eq_self)
qed

section \<open>The tables of an address space\<close>

definition tables :: "vm \<Rightarrow> nat \<Rightarrow> nat set" where
  "tables s d = {i. i < 1024 \<and> bit (cell s d i) 0 \<and> \<not> bit (cell s d i) 7}"

definition table :: "vm \<Rightarrow> nat \<Rightarrow> nat \<Rightarrow> nat" where
  "table s d i = frame_of (cell s d i)"

text \<open>What the tables say about page \<open>j\<close> of directory slot \<open>i\<close>; zero where there is no table.\<close>

definition pte :: "vm \<Rightarrow> nat \<Rightarrow> nat \<Rightarrow> nat \<Rightarrow> u32" where
  "pte s d i j = (if i \<in> tables s d then cell s (table s d i) j else 0)"

text \<open>The pages whose frames belong to the address space.\<close>

definition owned :: "vm \<Rightarrow> nat \<Rightarrow> (nat \<times> nat) set" where
  "owned s d = {(i, j). j < 1024 \<and> bit (pte s d i j) 0 \<and> bit (pte s d i j) 9}"

abbreviation page_frame :: "vm \<Rightarrow> nat \<Rightarrow> nat \<times> nat \<Rightarrow> nat" where
  "page_frame s d ij \<equiv> frame_of (pte s d (fst ij) (snd ij))"

abbreviation vm_taken :: "vm \<Rightarrow> nat set" where
  "vm_taken s \<equiv> pmm_taken (vm_pmm s)"

text \<open>
  Well-formed tables: the directory, the tables and the owned pages lie in different frames, all
  of them taken from the page allocator, whose memory the kernel can reach.
\<close>

definition pt_wf :: "vm \<Rightarrow> nat \<Rightarrow> bool" where
  "pt_wf s d \<longleftrightarrow> pmm_wf (vm_pmm s) \<and> pmm_blocks (vm_pmm s) \<le> 2 ^ 18 \<and> 0 < d \<and> d \<in> vm_taken s
     \<and> table s d ` tables s d \<subseteq> vm_taken s - {d} \<and> inj_on (table s d) (tables s d)
     \<and> page_frame s d ` owned s d \<subseteq> vm_taken s - {d} - table s d ` tables s d
     \<and> inj_on (page_frame s d) (owned s d)"

lemma taken_bound: "pt_wf s d \<Longrightarrow> f \<in> vm_taken s \<Longrightarrow> f < 2 ^ 18"
  using bm_taken_bound [of "bitmap (vm_pmm s)"] by (force simp: pt_wf_def)

lemma pt_wf_frames:
  assumes "pt_wf s d"
  shows "d < 2 ^ 18" "i \<in> tables s d \<Longrightarrow> table s d i < 2 ^ 18" "i \<in> tables s d \<Longrightarrow> table s d i \<noteq> d"
    "i \<in> tables s d \<Longrightarrow> i < 1024"
  using assms taken_bound [OF assms] by (auto simp: pt_wf_def tables_def)

lemma pde_cell: "vm_mem s (pde_addr (frame_addr d) a) = cell s d (pdi a)"
  by (simp add: cell_def pde_addr_frame)

lemma pte_cell: "vm_mem s (pte_addr e a) = cell s (frame_of e) (pti a)"
  by (simp add: cell_def pte_addr_frame)

lemma frame_addr_gt: "0 < d \<Longrightarrow> d < 2 ^ 18 \<Longrightarrow> CONFIG_KERNEL_BASE < frame_addr d \<and> frame_addr d \<noteq> 0"
  using unat_frame_addr [of d] by (auto simp: word_less_nat_alt CONFIG_KERNEL_BASE_def)

text \<open>Taking a frame: it was free, and only its own words change.\<close>

lemma pmm_alloc_block_safe_spec:
  assumes wf: "pt_wf s d" and room: "vm_taken s \<noteq> {..<pmm_blocks (vm_pmm s)}"
  shows "\<exists>b s'. pmm_alloc_block_safe s = Some (of_nat b, s') \<and> b < pmm_blocks (vm_pmm s)
     \<and> b \<notin> vm_taken s \<and> vm_taken s' = insert b (vm_taken s) \<and> pmm_wf (vm_pmm s')
     \<and> pmm_blocks (vm_pmm s') = pmm_blocks (vm_pmm s)
     \<and> (\<forall>g k. g < 2 ^ 18 \<longrightarrow> k < 1024 \<longrightarrow> cell s' g k = (if g = b then 0 else cell s g k))"
proof -
  from wf have p: "pmm_wf (vm_pmm s)" "pmm_blocks (vm_pmm s) \<le> 2 ^ 18" by (simp_all add: pt_wf_def)
  from pmm_low.alloc_law [OF p(1) room] obtain b p' where
    b: "pmm_alloc_block (vm_pmm s) = Some (of_nat b, p')" "b < pmm_blocks (vm_pmm s)"
      "b \<notin> vm_taken s" "pmm_wf p'" "pmm_taken p' = insert b (vm_taken s)"
      "pmm_blocks p' = pmm_blocks (vm_pmm s)" by blast
  let ?s = "vm_memset_page (frame_addr b) (s\<lparr>vm_pmm := p'\<rparr>)"
  have "(of_nat b :: u32) \<noteq> - 1" using b(2) p(2) by (intro block_not_none) simp
  then have "pmm_alloc_block_safe s = Some (of_nat b, ?s)"
    using b(1) by (simp add: pmm_alloc_block_safe_def block_frame_addr)
  moreover have "cell ?s g k = (if g = b then 0 else cell s g k)" if "g < 2 ^ 18" "k < 1024" for g k
    using cell_memset_page [of b g k] that b(2) p(2) by (simp add: cell_def)
  moreover have "vm_pmm ?s = p'" by (simp add: vm_memset_page_def)
  ultimately show ?thesis using b by (intro exI [of _ b] exI [of _ ?s]) simp
qed

lemma owned_cong: "(\<And>i j. j < 1024 \<Longrightarrow> pte s' d i j = pte s d i j) \<Longrightarrow> owned s' d = owned s d"
  by (auto simp: owned_def)

text \<open>Making sure that a directory slot has a table: the translation does not change.\<close>

lemma x86_map_pd_spec:
  assumes wf: "pt_wf s d" and i: "i < 1024" and ps: "\<not> bit (cell s d i) 7"
    and fl: "bit (ucast flags :: u32) 0" "\<not> bit (ucast flags :: u32) 7" "drop_bit 12 (ucast flags :: u32) = 0"
    and room: "vm_taken s \<noteq> {..<pmm_blocks (vm_pmm s)}"
  shows "\<exists>s'. x86_map_pd (frame_addr d + 4 * of_nat i) flags s = Some ((), s') \<and> pt_wf s' d
     \<and> tables s' d = insert i (tables s d) \<and> (\<forall>i' j. j < 1024 \<longrightarrow> pte s' d i' j = pte s d i' j)
     \<and> (\<forall>i'. i' < 1024 \<longrightarrow> i' \<noteq> i \<longrightarrow> cell s' d i' = cell s d i')
     \<and> vm_taken s' = vm_taken s \<union> {table s' d i}
     \<and> pmm_blocks (vm_pmm s') = pmm_blocks (vm_pmm s)"
proof (cases "bit (cell s d i) 0")
  case True
  then have t: "i \<in> tables s d" using i ps by (simp add: tables_def)
  then have "table s d i \<in> vm_taken s" using wf by (auto simp: pt_wf_def)
  with t True ps wf show ?thesis
    by (simp add: x86_map_pd_def pg_bit cell_def insert_absorb)
next
  case False
  then have ni: "i \<notin> tables s d" by (simp add: tables_def)
  note d = pt_wf_frames [OF wf]
  from wf have p: "pmm_blocks (vm_pmm s) \<le> 2 ^ 18" by (simp add: pt_wf_def)
  from pmm_alloc_block_safe_spec [OF wf room] obtain b s1 where
    b: "pmm_alloc_block_safe s = Some (of_nat b, s1)" "b < pmm_blocks (vm_pmm s)" "b \<notin> vm_taken s"
      "vm_taken s1 = insert b (vm_taken s)" "pmm_wf (vm_pmm s1)"
      "pmm_blocks (vm_pmm s1) = pmm_blocks (vm_pmm s)"
    and c1: "\<And>g k. g < 2 ^ 18 \<Longrightarrow> k < 1024 \<Longrightarrow> cell s1 g k = (if g = b then 0 else cell s g k)"
    by blast
  let ?e = "push_bit 12 (of_nat b) OR ucast flags :: u32"
  let ?s = "vm_store (frame_addr d + 4 * of_nat i) ?e s1"
  have run: "x86_map_pd (frame_addr d + 4 * of_nat i) flags s = Some ((), ?s)"
    using False ps b(1) by (simp add: x86_map_pd_def pg_bit cell_def)
  have bd: "b < 2 ^ 18" "b \<noteq> d" using b(2,3) p wf by (auto simp: pt_wf_def)
  have c: "cell ?s g k = (if g = d \<and> k = i then ?e else if g = b then 0 else cell s g k)"
    if "g < 2 ^ 18" "k < 1024" for g k
    using cell_vm_store [OF d(1) i that] c1 [OF that] by auto
  have e: "bit ?e 0" "\<not> bit ?e 7" "frame_of ?e = b"
    using fl entry_low_bits [of 0] entry_low_bits [of 7] entry_frame [of b "ucast flags"] bd(1) by auto
  have pde: "cell ?s d k = (if k = i then ?e else cell s d k)" if "k < 1024" for k
    using c [OF d(1) that] bd(2) by simp
  have tabs: "tables ?s d = insert i (tables s d)"
    using pde e i by (auto simp: tables_def split: if_splits)
  have tab: "table ?s d k = (if k = i then b else table s d k)" if "k < 1024" for k
    using pde [OF that] e(3) by (simp add: table_def)
  have tb: "table s d k \<noteq> b" if "k \<in> tables s d" for k
    using that wf b(3) by (auto simp: pt_wf_def)
  have ptes: "pte ?s d k j = pte s d k j" if "j < 1024" for k j
  proof (cases "k = i")
    case True
    then show ?thesis using ni tabs tab [OF i] c [OF bd(1) that] bd(2) by (simp add: pte_def)
  next
    case False
    then show ?thesis
      using tabs tab [of k] d(2-4) [of k] tb [of k] c [of "table s d k" j] that by (auto simp: pte_def)
  qed
  have own: "owned ?s d = owned s d" using ptes by (rule owned_cong)
  have pm: "vm_pmm ?s = vm_pmm s1" by (simp add: vm_store_def)
  have tabT: "table ?s d k = table s d k" if "k \<in> tables s d" for k
    using that tab d(4) ni by auto
  then have imT0: "table ?s d ` tables s d = table s d ` tables s d" by (intro image_cong) auto
  then have imT: "table ?s d ` tables ?s d = insert b (table s d ` tables s d)"
    by (simp add: tabs tab [OF i])
  have pf: "page_frame ?s d ij = page_frame s d ij" if "ij \<in> owned s d" for ij
    using that ptes by (auto simp: owned_def)
  then have imP: "page_frame ?s d ` owned ?s d = page_frame s d ` owned s d"
    unfolding own by (intro image_cong) auto
  from wf have w: "d \<in> vm_taken s" "table s d ` tables s d \<subseteq> vm_taken s - {d}"
    "page_frame s d ` owned s d \<subseteq> vm_taken s - {d} - table s d ` tables s d"
    by (simp_all add: pt_wf_def)
  have "inj_on (table s d) (tables s d)" using wf by (simp add: pt_wf_def)
  then have "inj_on (table ?s d) (tables s d)" using tabT by (simp cong: inj_on_cong)
  moreover have "b \<notin> table s d ` tables s d" using w(2) b(3) by blast
  ultimately have "inj_on (table ?s d) (tables ?s d)"
    unfolding tabs inj_on_insert using imT0 ni tab [OF i] by simp
  moreover have "inj_on (page_frame s d) (owned s d)" using wf by (simp add: pt_wf_def)
  then have "inj_on (page_frame ?s d) (owned ?s d)"
    unfolding own using pf by (simp cong: inj_on_cong)
  moreover have "table ?s d ` tables ?s d \<subseteq> vm_taken s1 - {d}"
    unfolding imT using w(2) bd(2) b(4) by auto
  moreover have "page_frame ?s d ` owned ?s d \<subseteq> vm_taken s1 - {d} - table ?s d ` tables ?s d"
    unfolding imT imP using w(3) b(3,4) by blast
  ultimately have "pt_wf ?s d"
    using wf b w(1) unfolding pt_wf_def pm by simp
  then show ?thesis using run tabs ptes pde tab [OF i] b pm by auto
qed

text \<open>
  Changing one page entry. The frames in use by the other pages stay taken; if the new entry owns
  its frame, that frame is taken and used by nothing else.
\<close>

abbreviation other_frames :: "vm \<Rightarrow> nat \<Rightarrow> nat \<times> nat \<Rightarrow> nat set" where
  "other_frames s d ij \<equiv> insert d (table s d ` tables s d \<union> page_frame s d ` (owned s d - {ij}))"

lemma set_pte:
  assumes wf: "pt_wf s d" and i: "i \<in> tables s d" and j: "j < 1024"
    and c: "\<forall>g k. g \<in> vm_taken s \<longrightarrow> k < 1024 \<longrightarrow>
          cell s' g k = (if g = table s d i \<and> k = j then e else cell s g k)"
  shows "tables s' d = tables s d"
    and "k < 1024 \<Longrightarrow> cell s' d k = cell s d k"
    and "j' < 1024 \<Longrightarrow> pte s' d i' j' = (if i' = i \<and> j' = j then e else pte s d i' j')"
    and "owned s' d = (if bit e 0 \<and> bit e 9 then insert (i, j) (owned s d) else owned s d - {(i, j)})"
proof -
  from wf have w: "d \<in> vm_taken s" "table s d ` tables s d \<subseteq> vm_taken s - {d}"
    "inj_on (table s d) (tables s d)" by (simp_all add: pt_wf_def)
  show pde: "cell s' d k = cell s d k" if "k < 1024" for k
    using c w(1) that w(2) i by auto
  show tabs: "tables s' d = tables s d" using pde by (auto simp: tables_def)
  show ptes: "pte s' d i' j' = (if i' = i \<and> j' = j then e else pte s d i' j')" if j': "j' < 1024" for i' j'
  proof (cases "i' \<in> tables s d")
    case True
    then have "table s' d i' = table s d i'" "table s d i' \<in> vm_taken s"
      using pde w(2) by (auto simp: table_def tables_def)
    moreover have "table s d i' = table s d i \<longleftrightarrow> i' = i"
      using w(3) True i by (auto simp: inj_on_def)
    ultimately show ?thesis using True tabs c j' by (simp add: pte_def)
  next
    case False
    then show ?thesis using tabs i by (auto simp: pte_def)
  qed
  show "owned s' d = (if bit e 0 \<and> bit e 9 then insert (i, j) (owned s d) else owned s d - {(i, j)})"
    using ptes j by (auto simp: owned_def split: if_splits)
qed

lemma set_pte_wf:
  assumes wf: "pt_wf s d" and i: "i \<in> tables s d" and j: "j < 1024"
    and c: "\<forall>g k. g \<in> vm_taken s \<longrightarrow> k < 1024 \<longrightarrow>
          cell s' g k = (if g = table s d i \<and> k = j then e else cell s g k)"
    and pm: "pmm_wf (vm_pmm s')" "pmm_blocks (vm_pmm s') = pmm_blocks (vm_pmm s)"
    and rest: "other_frames s d (i, j) \<subseteq> vm_taken s'"
    and own: "bit e 0 \<Longrightarrow> bit e 9 \<Longrightarrow> frame_of e \<in> vm_taken s' - other_frames s d (i, j)"
  shows "pt_wf s' d"
proof -
  note sp = set_pte [OF wf i j c]
  from wf have w: "table s d ` tables s d \<subseteq> vm_taken s - {d}" "inj_on (table s d) (tables s d)"
    "page_frame s d ` owned s d \<subseteq> vm_taken s - {d} - table s d ` tables s d"
    "inj_on (page_frame s d) (owned s d)" by (simp_all add: pt_wf_def)
  have tab: "table s' d k = table s d k" if "k \<in> tables s d" for k
    using sp(2) that by (simp add: table_def tables_def)
  have im: "table s' d ` tables s d = table s d ` tables s d" using tab by (intro image_cong) auto
  have inj: "inj_on (table s' d) (tables s d)" using w(2) tab by (simp cong: inj_on_cong)
  have pf: "page_frame s' d q = (if q = (i, j) then frame_of e else page_frame s d q)"
    if "q \<in> insert (i, j) (owned s d)" for q
    using that j sp(3) by (cases q) (auto simp: owned_def split: if_splits)
  have pfO: "page_frame s' d ` (owned s d - {(i, j)}) = page_frame s d ` (owned s d - {(i, j)})"
    using pf by (intro image_cong) auto
  have injO: "inj_on (page_frame s' d) (owned s d - {(i, j)})"
    using inj_on_subset [OF w(4) Diff_subset [of _ "{(i, j)}"]] pf
    by (subst inj_on_cong [of _ _ "page_frame s d"]) auto
  have "owned s' d = owned s d - {(i, j)} \<or>
      owned s' d = insert (i, j) (owned s d - {(i, j)}) \<and> bit e 0 \<and> bit e 9"
    unfolding sp(4) by simp
  then have "page_frame s' d ` owned s' d \<subseteq> vm_taken s' - {d} - table s d ` tables s d
      \<and> inj_on (page_frame s' d) (owned s' d)"
  proof
    assume o: "owned s' d = owned s d - {(i, j)}"
    have "page_frame s d ` (owned s d - {(i, j)}) \<subseteq> vm_taken s' - {d} - table s d ` tables s d"
      using w(3) rest by blast
    with o injO show ?thesis by (simp add: pfO)
  next
    assume o: "owned s' d = insert (i, j) (owned s d - {(i, j)}) \<and> bit e 0 \<and> bit e 9"
    have "page_frame s' d (i, j) = frame_of e" using pf [of "(i, j)"] by simp
    moreover have "page_frame s d ` (owned s d - {(i, j)}) \<subseteq> vm_taken s' - {d} - table s d ` tables s d"
      using w(3) rest by blast
    moreover have "frame_of e \<in> vm_taken s' - {d} - table s d ` tables s d"
      "frame_of e \<notin> page_frame s d ` (owned s d - {(i, j)})" using own o by blast+
    ultimately show ?thesis using injO conjunct1 [OF o]
      by (simp add: pfO inj_on_insert del: insert_Diff_single)
  qed
  moreover have "table s d ` tables s d \<subseteq> vm_taken s' - {d}" using w(1) rest by blast
  ultimately show ?thesis using wf rest pm inj unfolding pt_wf_def sp(1) im by simp
qed

section \<open>Mapping and unmapping a page\<close>

definition flags_ok :: "u64 \<Rightarrow> bool" where
  "flags_ok fl \<longleftrightarrow> bit fl 0 \<and> \<not> bit fl 7 \<and> \<not> bit fl 9 \<and> drop_bit 12 fl = 0"

lemma ucast_flags:
  assumes "drop_bit 12 (fl :: u64) = 0"
  shows "drop_bit 12 (ucast fl :: u32) = 0"
proof (rule bit_word_eqI)
  fix n
  have "\<not> bit (drop_bit 12 fl) n" using assms by simp
  then show "bit (drop_bit 12 (ucast fl :: u32)) n \<longleftrightarrow> bit (0 :: u32) n"
    by (simp add: bit_simps)
qed

text \<open>The flags of a page entry: those asked for, with the PAT bit, and ownership of the frame.\<close>

definition page_flags :: "bool \<Rightarrow> u64 \<Rightarrow> u32" where
  "page_flags own fl = ucast ((if own then X86_MMU_PG_AP_PFB else 0)
     OR (if fl AND X86_MMU_PG_AP_PAT \<noteq> 0 then fl OR X86_MMU_PT_PAT else fl))"

lemma page_flags_bits:
  assumes "flags_ok fl"
  shows "drop_bit 12 (page_flags own fl) = 0" "bit (page_flags own fl) 0"
    "bit (page_flags own fl) 9 \<longleftrightarrow> own" "bit (page_flags own fl) 1 \<longleftrightarrow> bit fl 1"
proof -
  have [simp]: "\<not> bit fl (12 + n)" for n
    using assms bit_drop_bit_eq [of 12 fl] by (auto simp: flags_ok_def dest: fun_cong)
  have "drop_bit 12 ((if own then X86_MMU_PG_AP_PFB else 0)
     OR (if fl AND X86_MMU_PG_AP_PAT \<noteq> 0 then fl OR X86_MMU_PT_PAT else fl)) = 0"
    by (rule bit_word_eqI)
       (simp add: bit_simps mmu_flags bit_push_one_u64 del: push_bit_of_1)
  then show "drop_bit 12 (page_flags own fl) = 0" unfolding page_flags_def by (rule ucast_flags)
  show "bit (page_flags own fl) 0" "bit (page_flags own fl) 9 \<longleftrightarrow> own"
    "bit (page_flags own fl) 1 \<longleftrightarrow> bit fl 1"
    using assms
    by (simp_all add: page_flags_def flags_ok_def bit_ucast_iff bit_or_iff mmu_flags bit_push_one_u64
        del: push_bit_of_1)
qed

lemma x86_map_pt_spec:
  assumes wf: "pt_wf s d" and i: "i \<in> tables s d" and j: "j < 1024" and np: "\<not> bit (pte s d i j) 0"
    and fl: "flags_ok fl" and room: "vm_taken s \<noteq> {..<pmm_blocks (vm_pmm s)}"
    and block: "block \<noteq> - 1 \<longrightarrow> unat block < 2 ^ 20"
  shows "\<exists>s' e. x86_map_pt (frame_addr (table s d i) + 4 * of_nat j) block fl s = Some ((), s') \<and> pt_wf s' d
     \<and> bit e 0 \<and> (bit e 1 \<longleftrightarrow> bit fl 1) \<and> (bit e 9 \<longleftrightarrow> block = - 1)
     \<and> (if block = - 1 then frame_of e \<notin> vm_taken s \<and> vm_taken s' = insert (frame_of e) (vm_taken s)
          else frame_of e = unat block \<and> vm_taken s' = vm_taken s)
     \<and> (\<forall>i' j'. j' < 1024 \<longrightarrow> pte s' d i' j' = (if i' = i \<and> j' = j then e else pte s d i' j'))
     \<and> tables s' d = tables s d \<and> (\<forall>k < 1024. cell s' d k = cell s d k)
     \<and> pmm_blocks (vm_pmm s') = pmm_blocks (vm_pmm s)"
proof -
  note d = pt_wf_frames [OF wf]
  let ?t = "table s d i"
  have t: "?t < 2 ^ 18" "?t \<in> vm_taken s" using d(2) i wf by (auto simp: pt_wf_def)
  have np': "\<not> bit (vm_mem s (frame_addr ?t + 4 * of_nat j)) 0"
    using np i by (simp add: pte_def cell_def)
  have nown: "(i, j) \<notin> owned s d" using np by (simp add: owned_def)
  have others: "other_frames s d (i, j) \<subseteq> vm_taken s" using wf by (auto simp: pt_wf_def)
  show ?thesis
  proof (cases "block = - 1")
    case True
    from wf have p: "pmm_blocks (vm_pmm s) \<le> 2 ^ 18" by (simp add: pt_wf_def)
    from pmm_alloc_block_safe_spec [OF wf room] obtain b s1 where
      b: "pmm_alloc_block_safe s = Some (of_nat b, s1)" "b < pmm_blocks (vm_pmm s)" "b \<notin> vm_taken s"
        "vm_taken s1 = insert b (vm_taken s)" "pmm_wf (vm_pmm s1)"
        "pmm_blocks (vm_pmm s1) = pmm_blocks (vm_pmm s)"
      and c1: "\<And>g k. g < 2 ^ 18 \<Longrightarrow> k < 1024 \<Longrightarrow> cell s1 g k = (if g = b then 0 else cell s g k)"
      by blast
    let ?e = "push_bit 12 (of_nat b) OR page_flags True fl"
    let ?s = "vm_store (frame_addr ?t + 4 * of_nat j) ?e s1"
    have run: "x86_map_pt (frame_addr ?t + 4 * of_nat j) block fl s = Some ((), ?s)"
      using True np' b(1) by (simp add: x86_map_pt_def pg_bit page_flags_def Let_def)
    have e: "frame_of ?e = b" "bit ?e 0" "bit ?e 9" "bit ?e 1 \<longleftrightarrow> bit fl 1"
      using page_flags_bits [OF fl, of True] entry_frame [of b "page_flags True fl"] b(2) p
      by (simp_all add: entry_low_bits)
    have c: "\<forall>g k. g \<in> vm_taken s \<longrightarrow> k < 1024 \<longrightarrow>
        cell ?s g k = (if g = ?t \<and> k = j then ?e else cell s g k)"
      using cell_vm_store [OF t(1) j] c1 taken_bound [OF wf] b(3) by auto
    have pm: "vm_pmm ?s = vm_pmm s1" by (simp add: vm_store_def)
    have oth': "other_frames s d (i, j) \<subseteq> vm_taken ?s"
      unfolding pm b(4) using others by (rule subset_insertI2)
    have "frame_of ?e \<in> vm_taken ?s - other_frames s d (i, j)"
      unfolding pm b(4) e(1) using b(3) others by blast
    then have "pt_wf ?s d"
      by (intro set_pte_wf [OF wf i j c _ _ oth']) (use b pm in simp_all)
    then show ?thesis using run e b pm set_pte [OF wf i j c] True by (intro exI [of _ ?s] exI [of _ ?e]) simp
  next
    case False
    let ?e = "push_bit 12 block OR page_flags False fl"
    let ?s = "vm_store (frame_addr ?t + 4 * of_nat j) ?e s"
    have run: "x86_map_pt (frame_addr ?t + 4 * of_nat j) block fl s = Some ((), ?s)"
      using False np' by (simp add: x86_map_pt_def pg_bit page_flags_def Let_def)
    have e: "frame_of ?e = unat block" "bit ?e 0" "\<not> bit ?e 9" "bit ?e 1 \<longleftrightarrow> bit fl 1"
      using page_flags_bits [OF fl, of False] entry_frame [of "unat block" "page_flags False fl"] block False
      by (simp_all add: entry_low_bits)
    have c: "\<forall>g k. g \<in> vm_taken s \<longrightarrow> k < 1024 \<longrightarrow>
        cell ?s g k = (if g = ?t \<and> k = j then ?e else cell s g k)"
      using cell_vm_store [OF t(1) j] taken_bound [OF wf] by auto
    have pm: "vm_pmm ?s = vm_pmm s" by (simp add: vm_store_def)
    have "pt_wf ?s d"
      by (rule set_pte_wf [OF wf i j c]) (use wf others e(3) pm in \<open>auto simp: pt_wf_def\<close>)
    then show ?thesis using run e pm set_pte [OF wf i j c] False by (intro exI [of _ ?s] exI [of _ ?e]) simp
  qed
qed

definition page_entry :: "vm \<Rightarrow> nat \<Rightarrow> u32 \<Rightarrow> u32" where
  "page_entry s d a = pte s d (pdi a) (pti a)"

text \<open>The addresses of one page agree on both indices.\<close>

definition same_page :: "u32 \<Rightarrow> u32 \<Rightarrow> bool" where
  "same_page a a' \<longleftrightarrow> drop_bit 12 a = drop_bit 12 a'"

lemma same_page_idx: "same_page a a' \<longleftrightarrow> pdi a = pdi a' \<and> pti a = pti a'"
proof -
  have w: "drop_bit 12 x = push_bit 10 (drop_bit 22 x AND 0x3FF) OR (drop_bit 12 x AND 0x3FF)" for x :: u32
  proof -
    have "push_bit 10 (take_bit 10 (drop_bit 22 x)) OR take_bit 10 (drop_bit 12 x) = drop_bit 12 x"
      by (auto intro!: bit_word_eqI simp: bit_simps) (use bit_imp_le_length in fastforce)+
    then show ?thesis by (simp add: and_low_mask)
  qed
  show ?thesis
  proof
    assume "same_page a a'"
    then have eq: "drop_bit 12 a = drop_bit 12 a'" by (simp add: same_page_def)
    have "drop_bit 10 (drop_bit 12 x) = drop_bit 22 x" for x :: u32 by (simp add: drop_bit_drop_bit)
    with eq have "drop_bit 22 a = drop_bit 22 a'" by metis
    with eq show "pdi a = pdi a' \<and> pti a = pti a'" by (simp add: pdi_def pti_def)
  next
    assume "pdi a = pdi a' \<and> pti a = pti a'"
    then have "drop_bit 22 a AND 0x3FF = drop_bit 22 a' AND 0x3FF"
      "drop_bit 12 a AND 0x3FF = drop_bit 12 a' AND 0x3FF"
      by (simp_all add: pdi_def pti_def word_unat_eq_iff)
    with w [of a] w [of a'] show "same_page a a'" by (simp add: same_page_def)
  qed
qed

lemma room_two:
  assumes "finite T" "Suc (card T) < n" "T \<subseteq> {..<n}" "card U \<le> Suc (card T)"
  shows "T \<noteq> {..<n}" "U \<noteq> {..<n}"
  using assms by (auto dest: arg_cong [where f = card])

lemma x86_map_page_spec:
  assumes wf: "pt_wf s d" and big: "\<not> bit (cell s d (pdi a)) 7" and np: "\<not> bit (page_entry s d a) 0"
    and fl: "flags_ok (fl AND NOT X86_MMU_PG_NX)"
    and room: "card (vm_taken s) + 2 \<le> pmm_blocks (vm_pmm s)"
    and block: "block \<noteq> - 1 \<longrightarrow> unat block < 2 ^ 20"
  shows "\<exists>s' e. x86_map_page (frame_addr d) a block fl s = Some ((), s') \<and> pt_wf s' d
     \<and> bit e 0 \<and> (bit e 1 \<longleftrightarrow> bit fl 1) \<and> (bit e 9 \<longleftrightarrow> block = - 1)
     \<and> (if block = - 1 then frame_of e \<in> vm_taken s' - vm_taken s else frame_of e = unat block)
     \<and> (\<forall>a'. page_entry s' d a' = (if same_page a' a then e else page_entry s d a'))
     \<and> (\<forall>a'. bit (cell s' d (pdi a')) 7 \<longleftrightarrow> bit (cell s d (pdi a')) 7)
     \<and> vm_taken s \<subseteq> vm_taken s' \<and> card (vm_taken s') \<le> card (vm_taken s) + 2
     \<and> tables s' d = insert (pdi a) (tables s d)
     \<and> pmm_blocks (vm_pmm s') = pmm_blocks (vm_pmm s)
     \<and> (\<forall>a'. bit (cell s d (pdi a')) 7 \<longrightarrow> cell s' d (pdi a') = cell s d (pdi a'))"
proof -
  let ?i = "pdi a" and ?j = "pti a" and ?fl = "fl AND NOT X86_MMU_PG_NX"
  note d = pt_wf_frames [OF wf]
  have fin: "finite (vm_taken s)" and sub: "vm_taken s \<subseteq> {..<pmm_blocks (vm_pmm s)}"
    using bm_taken_bound [of "bitmap (vm_pmm s)"] finite_subset by blast+
  have ufl: "bit (ucast ?fl :: u32) 0" "\<not> bit (ucast ?fl :: u32) 7" "drop_bit 12 (ucast ?fl :: u32) = 0"
    using fl ucast_flags by (simp_all add: flags_ok_def bit_ucast_iff)
  have r1: "vm_taken s \<noteq> {..<pmm_blocks (vm_pmm s)}" using room_two(1) [OF fin _ sub] room by auto
  from x86_map_pd_spec [OF wf idx_less(1) big ufl r1] obtain s1 where
    s1: "x86_map_pd (frame_addr d + 4 * of_nat ?i) ?fl s = Some ((), s1)" "pt_wf s1 d"
      "tables s1 d = insert ?i (tables s d)" "\<forall>i' j. j < 1024 \<longrightarrow> pte s1 d i' j = pte s d i' j"
      "\<forall>i'. i' < 1024 \<longrightarrow> i' \<noteq> ?i \<longrightarrow> cell s1 d i' = cell s d i'"
      "vm_taken s1 = vm_taken s \<union> {table s1 d ?i}"
      "pmm_blocks (vm_pmm s1) = pmm_blocks (vm_pmm s)" by blast
  have card1: "card (vm_taken s1) \<le> Suc (card (vm_taken s))"
    using fin by (simp add: s1(6) card_insert_if)
  have r2: "vm_taken s1 \<noteq> {..<pmm_blocks (vm_pmm s1)}"
    using room_two(2) [OF fin _ sub card1] room s1(7) by simp
  have "?i \<in> tables s1 d" using s1(3) by simp
  moreover have "\<not> bit (pte s1 d ?i ?j) 0" using s1(4) idx_less np by (simp add: page_entry_def)
  ultimately obtain s2 e where
    s2: "x86_map_pt (frame_addr (table s1 d ?i) + 4 * of_nat ?j) block ?fl s1 = Some ((), s2)" "pt_wf s2 d"
      "bit e 0" "bit e 1 \<longleftrightarrow> bit ?fl 1" "bit e 9 \<longleftrightarrow> block = - 1"
      "if block = - 1 then frame_of e \<notin> vm_taken s1 \<and> vm_taken s2 = insert (frame_of e) (vm_taken s1)
       else frame_of e = unat block \<and> vm_taken s2 = vm_taken s1"
      "\<forall>i' j'. j' < 1024 \<longrightarrow> pte s2 d i' j' = (if i' = ?i \<and> j' = ?j then e else pte s1 d i' j')"
      "tables s2 d = tables s1 d" "\<forall>k < 1024. cell s2 d k = cell s1 d k"
      "pmm_blocks (vm_pmm s2) = pmm_blocks (vm_pmm s1)"
    using x86_map_pt_spec [OF s1(2) _ idx_less(2) _ fl r2 block] by blast
  have run: "x86_map_page (frame_addr d) a block fl s = Some ((), s2)"
    using s1(1) s2(1) frame_addr_gt [of d] wf d(1)
    by (simp add: x86_map_page_def pde_addr_frame pte_addr_frame Let_def cell_def table_def pt_wf_def)
  have ents: "page_entry s2 d a' = (if same_page a' a then e else page_entry s d a')" for a'
    using s2(7) s1(4) idx_less by (simp add: page_entry_def same_page_idx)
  have ps: "bit (cell s2 d (pdi a')) 7 \<longleftrightarrow> bit (cell s d (pdi a')) 7" for a'
    using s2(9) s1(3,5) idx_less(1) [of a'] big by (cases "pdi a' = ?i") (auto simp: tables_def)
  have big': "bit (cell s d (pdi a')) 7 \<longrightarrow> cell s2 d (pdi a') = cell s d (pdi a')" for a'
    using s2(9) s1(5) idx_less(1) [of a'] big by (cases "pdi a' = ?i") auto
  have tk: "vm_taken s \<subseteq> vm_taken s2" "card (vm_taken s2) \<le> card (vm_taken s) + 2"
    using s2(6) s1(6) card1 fin by (auto simp: card_insert_if split: if_splits)
  have b1: "bit ?fl 1 \<longleftrightarrow> bit fl 1" by (simp add: bit_simps X86_MMU_PG_NX_def bit_push_one_u64 del: push_bit_of_1)
  have fr: "if block = - 1 then frame_of e \<in> vm_taken s2 - vm_taken s else frame_of e = unat block"
    using s2(6) s1(6) by (auto split: if_splits)
  show ?thesis using run s2 s1(3,7) ents ps big' tk b1 fr by (intro exI [of _ s2] exI [of _ e]) simp
qed

lemma x86_unmap_page_spec:
  assumes wf: "pt_wf s d" and i: "pdi a \<in> tables s d" and pr: "bit (page_entry s d a) 0"
  shows "\<exists>s'. x86_unmap_page (frame_addr d) a s = Some ((), s') \<and> pt_wf s' d
     \<and> (\<forall>a'. page_entry s' d a' = (if same_page a' a then 0 else page_entry s d a'))
     \<and> (\<forall>k < 1024. cell s' d k = cell s d k) \<and> tables s' d = tables s d
     \<and> vm_taken s' = vm_taken s - (if bit (page_entry s d a) 9 then {frame_of (page_entry s d a)} else {})
     \<and> pmm_blocks (vm_pmm s') = pmm_blocks (vm_pmm s)"
proof -
  let ?i = "pdi a" and ?j = "pti a" and ?t = "table s d (pdi a)" and ?e = "page_entry s d a"
  note d = pt_wf_frames [OF wf]
  have t: "?t < 2 ^ 18" using d(2) i .
  have e: "?e = cell s ?t ?j" using i by (simp add: page_entry_def pte_def)
  have pde: "bit (cell s d ?i) 0" using i by (simp add: tables_def)
  let ?S = "\<lambda>p. vm_store (frame_addr ?t + 4 * of_nat ?j) 0 (s\<lparr>vm_pmm := p\<rparr>)"
  have c: "\<forall>g k. g \<in> vm_taken s \<longrightarrow> k < 1024 \<longrightarrow>
      cell (?S p) g k = (if g = ?t \<and> k = ?j then 0 else cell s g k)" for p
    using cell_vm_store [OF t idx_less(2)] taken_bound [OF wf] by (auto simp: cell_def vm_store_def)
  from wf have w: "pmm_wf (vm_pmm s)" "page_frame s d ` owned s d \<subseteq> vm_taken s - {d} - table s d ` tables s d"
    "inj_on (page_frame s d) (owned s d)" "d \<in> vm_taken s" "table s d ` tables s d \<subseteq> vm_taken s - {d}"
    by (simp_all add: pt_wf_def)
  define p where "p = (if bit ?e 9 then snd (the (pmm_free_block (drop_bit 12 ?e) (vm_pmm s))) else vm_pmm s)"
  have p: "(if bit ?e 9 then pmm_free_block (drop_bit 12 ?e) (vm_pmm s) = Some ((), p) else p = vm_pmm s)
     \<and> pmm_wf p \<and> pmm_blocks p = pmm_blocks (vm_pmm s)
     \<and> pmm_taken p = vm_taken s - (if bit ?e 9 then {frame_of ?e} else {})"
  proof (cases "bit ?e 9")
    case True
    then have o: "(?i, ?j) \<in> owned s d" using pr idx_less(2) by (simp add: owned_def page_entry_def)
    then have "frame_of ?e \<in> vm_taken s" using w(2) by (force simp: page_entry_def)
    then have "frame_of ?e < pmm_blocks (vm_pmm s)" using bm_taken_bound by blast
    from pmm_low.free_law [OF w(1) this] obtain p' where
      p': "pmm_free_block (of_nat (frame_of ?e)) (vm_pmm s) = Some ((), p')" "pmm_wf p'"
        "pmm_taken p' = vm_taken s - {frame_of ?e}" "pmm_blocks p' = pmm_blocks (vm_pmm s)" by blast
    have "of_nat (frame_of ?e) = drop_bit 12 ?e" by (simp add: frame_of_def)
    with p' True show ?thesis by (simp add: p_def)
  qed (simp add: p_def w(1))
  have run: "x86_unmap_page (frame_addr d) a s = Some ((), ?S p)"
    using p pr pde e frame_addr_gt [of d] wf d(1)
    by (simp add: x86_unmap_page_def pde_cell pte_addr_frame pg_bit table_def cell_def Let_def
        pt_wf_def X86_MMU_CLEAR_def split: if_splits)
  have sub: "other_frames s d (?i, ?j) \<subseteq> pmm_taken p"
  proof (cases "bit ?e 9")
    case True
    then have o: "(?i, ?j) \<in> owned s d" using pr idx_less(2) by (simp add: owned_def page_entry_def)
    have "page_frame s d (?i, ?j) \<notin> page_frame s d ` (owned s d - {(?i, ?j)})"
      using inj_on_image_mem_iff [OF w(3) o Diff_subset [of _ "{(?i, ?j)}"]] by blast
    moreover have "page_frame s d (?i, ?j) \<notin> insert d (table s d ` tables s d)" using w(2) o by blast
    ultimately have "frame_of ?e \<notin> other_frames s d (?i, ?j)" by (simp add: page_entry_def)
    moreover have "other_frames s d (?i, ?j) \<subseteq> vm_taken s" using w(2,4,5) by blast
    moreover have "pmm_taken p = vm_taken s - {frame_of ?e}" using p True by simp
    ultimately show ?thesis by (simp only: subset_Diff_insert Diff_empty simp_thms)
  next
    case False
    have "other_frames s d (?i, ?j) \<subseteq> vm_taken s" using w(2,4,5) by blast
    then show ?thesis using p False by simp
  qed
  have pm: "vm_pmm (?S p) = p" by (simp add: vm_store_def)
  have "pt_wf (?S p) d"
    by (rule set_pte_wf [OF wf i idx_less(2) c]) (use p sub pm in simp_all)
  moreover have "page_entry (?S p) d a' = (if same_page a' a then 0 else page_entry s d a')" for a'
    using set_pte(3) [OF wf i idx_less(2) c [of p] idx_less(2)] by (simp add: page_entry_def same_page_idx)
  ultimately show ?thesis
    using run p pm set_pte(1,2) [OF wf i idx_less(2) c [of p]] by (intro exI [of _ "?S p"]) simp
qed

text \<open>The lookups read the page entry.\<close>

lemma x86_ptr_phys_entry:
  assumes wf: "pt_wf s d" and big: "\<not> bit (cell s d (pdi a)) 7"
  shows "x86_ptr_phys (frame_addr d) a s =
    Some (if bit (page_entry s d a) 0 then of_nat (frame_of (page_entry s d a) * 4096) + (a AND 0xFFF) else 0)"
proof -
  have nz: "frame_addr d \<noteq> 0" using frame_addr_gt [of d] wf pt_wf_frames(1) [OF wf] by (simp add: pt_wf_def)
  have ps: "push_bit 12 (drop_bit 12 w) = (of_nat (frame_of w * 4096) :: u32)" for w
    using high_mask [of w] high_mask_frame [of w] by metis
  show ?thesis
  proof (cases "bit (cell s d (pdi a)) 0")
    case True
    then have i: "pdi a \<in> tables s d" using big idx_less(1) by (simp add: tables_def)
    then have "page_entry s d a = cell s (frame_of (cell s d (pdi a))) (pti a)"
      by (simp add: page_entry_def pte_def table_def)
    then show ?thesis using True big nz
      by (simp add: x86_ptr_phys_def pde_cell pte_cell pg_bit PAGE_SIZE_def ps Let_def)
  next
    case False
    then have "page_entry s d a = 0" by (simp add: page_entry_def pte_def tables_def)
    then show ?thesis using False nz by (simp add: x86_ptr_phys_def pde_cell pg_bit Let_def)
  qed
qed

lemma x86_ptr_access_entry:
  assumes wf: "pt_wf s d" and big: "\<not> bit (cell s d (pdi a)) 7"
  shows "x86_ptr_access (frame_addr d) a mode s = Some (pdi a \<in> tables s d
     \<and> (mode AND R_OK \<noteq> 0 \<longrightarrow> bit (page_entry s d a) 0) \<and> (mode AND W_OK \<noteq> 0 \<longrightarrow> bit (page_entry s d a) 1))"
proof -
  have nz: "frame_addr d \<noteq> 0" using frame_addr_gt [of d] wf pt_wf_frames(1) [OF wf] by (simp add: pt_wf_def)
  show ?thesis
  proof (cases "bit (cell s d (pdi a)) 0")
    case True
    then have i: "pdi a \<in> tables s d" using big idx_less(1) by (simp add: tables_def)
    then have "page_entry s d a = cell s (frame_of (cell s d (pdi a))) (pti a)"
      by (simp add: page_entry_def pte_def table_def)
    then show ?thesis using True big nz i
      by (simp add: x86_ptr_access_def pde_cell pte_cell pg_bit Let_def)
  next
    case False
    then show ?thesis using nz by (simp add: x86_ptr_access_def pde_cell pg_bit tables_def Let_def)
  qed
qed

section \<open>Mapping and unmapping ranges\<close>

text \<open>The number of the page an address is in; the first address of a page.\<close>

definition pn :: "u32 \<Rightarrow> nat" where "pn a = unat (drop_bit 12 a)"

definition pa :: "nat \<Rightarrow> u32" where "pa p = of_nat (p * 4096)"

lemma same_page_pn: "same_page a a' \<longleftrightarrow> pn a = pn a'"
  by (simp add: same_page_def pn_def word_unat_eq_iff)

lemma unat_pa: "p < 2 ^ 20 \<Longrightarrow> unat (pa p) = p * 4096"
  unfolding pa_def by (simp only: unat_of_nat) simp

lemma pn_pa [simp]: "p < 2 ^ 20 \<Longrightarrow> pn (pa p) = p"
  unfolding pn_def
  by (simp only: unsigned_drop_bit_eq unat_pa) (simp add: drop_bit_eq_div take_bit_nat_eq_self)

lemma pa_Suc: "pa p + PAGE_SIZE = pa (Suc p)"
  by (simp add: pa_def PAGE_SIZE_def)

lemma arch_map_flags_ok: "flags_ok (arch_map_flags flags AND NOT X86_MMU_PG_NX)"
proof -
  have "drop_bit 12 (arch_map_flags flags AND NOT X86_MMU_PG_NX) = 0"
    by (rule bit_word_eqI)
       (auto simp: arch_map_flags_def bit_simps mmu_flags bit_push_one_u64 simp del: push_bit_of_1)
  then show ?thesis
    unfolding flags_ok_def
    by (simp add: arch_map_flags_def bit_and_iff bit_or_iff bit_not_iff possible_bit_def mmu_flags
        bit_push_one_u64 del: push_bit_of_1)
qed

lemma arch_map_flags_rw: "bit (arch_map_flags flags) (Suc 0) \<longleftrightarrow> flags AND ARCH_MAP_RDWR \<noteq> 0"
  by (simp add: arch_map_flags_def bit_or_iff mmu_flags bit_push_one_u64 del: push_bit_of_1)

definition mapped_as :: "u32 \<Rightarrow> u32 \<Rightarrow> u32 \<Rightarrow> bool" where
  "mapped_as flags a e \<longleftrightarrow> bit e 0 \<and> (bit e 1 \<longleftrightarrow> flags AND ARCH_MAP_RDWR \<noteq> 0)
     \<and> (bit e 9 \<longleftrightarrow> flags AND ARCH_MAP_FIXED = 0) \<and> (flags AND ARCH_MAP_FIXED \<noteq> 0 \<longrightarrow> frame_of e = pn a)"

definition unmapped :: "vm \<Rightarrow> nat \<Rightarrow> u32 \<Rightarrow> bool" where
  "unmapped s d a \<longleftrightarrow> \<not> bit (page_entry s d a) 0 \<and> \<not> bit (cell s d (pdi a)) 7"

text \<open>What a state has in common with a later one in which \<open>n\<close> more pages may have been mapped.\<close>

definition vm_grows :: "nat \<Rightarrow> vm \<Rightarrow> vm \<Rightarrow> nat \<Rightarrow> bool" where
  "vm_grows n s s' d \<longleftrightarrow> vm_taken s \<subseteq> vm_taken s' \<and> card (vm_taken s') \<le> card (vm_taken s) + 2 * n
     \<and> pmm_blocks (vm_pmm s') = pmm_blocks (vm_pmm s)
     \<and> (\<forall>a. bit (cell s' d (pdi a)) 7 \<longleftrightarrow> bit (cell s d (pdi a)) 7)
     \<and> (\<forall>a. bit (cell s d (pdi a)) 7 \<longrightarrow> cell s' d (pdi a) = cell s d (pdi a))"

lemma vm_grows_trans: "vm_grows n s t d \<Longrightarrow> vm_grows m t u d \<Longrightarrow> vm_grows (n + m) s u d"
  by (auto simp: vm_grows_def)

lemma vm_grows_zero: "vm_grows 0 s s d"
  by (simp add: vm_grows_def)

lemma map_one_page:
  assumes wf: "pt_wf s d" and asp: "as_vmmpd asp + CONFIG_KERNEL_BASE = frame_addr d"
    and un: "unmapped s d (pa p)" and p: "p < 2 ^ 20 - 1"
    and room: "card (vm_taken s) + 2 \<le> pmm_blocks (vm_pmm s)"
  shows "\<exists>s'. x86_map_page (as_vmmpd asp + CONFIG_KERNEL_BASE) (pa p)
       (if flags AND ARCH_MAP_FIXED \<noteq> 0 then drop_bit 12 (pa p) else - 1) (arch_map_flags flags) s = Some ((), s')
     \<and> pt_wf s' d \<and> vm_grows 1 s s' d
     \<and> (\<forall>a. if pn a = p then mapped_as flags a (page_entry s' d a)
              \<and> (flags AND ARCH_MAP_FIXED = 0 \<longrightarrow> frame_of (page_entry s' d a) \<in> vm_taken s' - vm_taken s)
            else page_entry s' d a = page_entry s d a)"
proof -
  let ?b = "if flags AND ARCH_MAP_FIXED \<noteq> 0 then drop_bit 12 (pa p) else - 1"
  have pp: "p < 2 ^ 20" "unat (drop_bit 12 (pa p)) = p" using p pn_pa [of p] by (simp_all add: pn_def)
  have nn: "drop_bit 12 (pa p) \<noteq> - 1"
  proof
    assume "drop_bit 12 (pa p) = - 1"
    then have "p = unat (- 1 :: u32)" using pp(2) by simp
    with pp(1) show False by (simp add: unsigned_minus_1_eq_mask mask_eq_exp_minus_1)
  qed
  then have blk: "?b = - 1 \<longleftrightarrow> flags AND ARCH_MAP_FIXED = 0" "?b \<noteq> - 1 \<longrightarrow> unat ?b < 2 ^ 20"
    using pp by auto
  from un have un': "\<not> bit (cell s d (pdi (pa p))) 7" "\<not> bit (page_entry s d (pa p)) 0"
    by (simp_all add: unmapped_def)
  from x86_map_page_spec [OF wf un' arch_map_flags_ok room blk(2)] obtain s' e where
    s': "x86_map_page (frame_addr d) (pa p) ?b (arch_map_flags flags) s = Some ((), s')" "pt_wf s' d"
      "bit e 0" "bit e 1 \<longleftrightarrow> bit (arch_map_flags flags) 1" "bit e 9 \<longleftrightarrow> ?b = - 1"
      "if ?b = - 1 then frame_of e \<in> vm_taken s' - vm_taken s else frame_of e = unat ?b"
      "\<forall>a'. page_entry s' d a' = (if same_page a' (pa p) then e else page_entry s d a')"
      "\<forall>a'. bit (cell s' d (pdi a')) 7 \<longleftrightarrow> bit (cell s d (pdi a')) 7"
      "vm_taken s \<subseteq> vm_taken s'" "card (vm_taken s') \<le> card (vm_taken s) + 2"
      "pmm_blocks (vm_pmm s') = pmm_blocks (vm_pmm s)"
      "\<forall>a'. bit (cell s d (pdi a')) 7 \<longrightarrow> cell s' d (pdi a') = cell s d (pdi a')" by blast
  have "vm_grows 1 s s' d" using s' by (simp add: vm_grows_def)
  moreover have "mapped_as flags a e" if "pn a = p" for a
    using s'(3-6) blk(1) pp(2) that by (auto simp: mapped_as_def arch_map_flags_rw)
  moreover have "flags AND ARCH_MAP_FIXED = 0 \<longrightarrow> frame_of e \<in> vm_taken s' - vm_taken s"
    using s'(6) blk(1) by auto
  ultimately show ?thesis using s'(1,2,7) pp(1) unfolding asp
    by (intro exI [of _ s']) (simp add: same_page_pn)
qed

text \<open>The effect of mapping the pages from \<open>p\<close> to \<open>p + n\<close>: they are mapped as asked, in new frames unless
  fixed, and every other page keeps its entry.\<close>

definition maps_range :: "nat \<Rightarrow> nat \<Rightarrow> u32 \<Rightarrow> vm \<Rightarrow> vm \<Rightarrow> nat \<Rightarrow> bool" where
  "maps_range p n flags s s' d \<longleftrightarrow>
     (\<forall>a. if p \<le> pn a \<and> pn a \<le> p + n
          then mapped_as flags a (page_entry s' d a)
            \<and> (flags AND ARCH_MAP_FIXED = 0 \<longrightarrow> frame_of (page_entry s' d a) \<in> vm_taken s' - vm_taken s)
          else page_entry s' d a = page_entry s d a)"

lemma maps_range_Suc:
  assumes one: "\<forall>a. if pn a = p then mapped_as flags a (page_entry s1 d a)
              \<and> (flags AND ARCH_MAP_FIXED = 0 \<longrightarrow> frame_of (page_entry s1 d a) \<in> vm_taken s1 - vm_taken s)
            else page_entry s1 d a = page_entry s d a"
    and rest: "maps_range (Suc p) n flags s1 s2 d"
    and sub: "vm_taken s \<subseteq> vm_taken s1" "vm_taken s1 \<subseteq> vm_taken s2"
  shows "maps_range p (Suc n) flags s s2 d"
  unfolding maps_range_def
proof
  fix a
  consider "pn a = p" | "Suc p \<le> pn a \<and> pn a \<le> Suc p + n" | "\<not> (p \<le> pn a \<and> pn a \<le> p + Suc n)"
    by linarith
  then show "if p \<le> pn a \<and> pn a \<le> p + Suc n
       then mapped_as flags a (page_entry s2 d a)
         \<and> (flags AND ARCH_MAP_FIXED = 0 \<longrightarrow> frame_of (page_entry s2 d a) \<in> vm_taken s2 - vm_taken s)
       else page_entry s2 d a = page_entry s d a"
  proof cases
    case 1
    then have "page_entry s2 d a = page_entry s1 d a" using rest by (simp add: maps_range_def)
    with 1 spec [OF one, of a] sub show ?thesis by auto
  next
    case 2
    then have "mapped_as flags a (page_entry s2 d a)"
      "flags AND ARCH_MAP_FIXED = 0 \<longrightarrow> frame_of (page_entry s2 d a) \<in> vm_taken s2 - vm_taken s1"
      using rest [unfolded maps_range_def, THEN spec, of a] by simp_all
    with 2 sub show ?thesis by auto
  next
    case 3
    then have "page_entry s2 d a = page_entry s1 d a" "pn a \<noteq> p" using rest by (auto simp: maps_range_def)
    with 3 one show ?thesis by auto
  qed
qed

lemma arch_mmap_loop_spec:
  assumes "pt_wf s d" "as_vmmpd asp + CONFIG_KERNEL_BASE = frame_addr d" "p + n < 2 ^ 20 - 1"
    "\<forall>a. p \<le> pn a \<and> pn a \<le> p + n \<longrightarrow> unmapped s d a"
    "card (vm_taken s) + 2 * Suc n \<le> pmm_blocks (vm_pmm s)"
  shows "\<exists>s'. arch_mmap_loop (pa p) (pa (p + n)) flags (arch_map_flags flags) asp s
        = Some (asp\<lparr>as_size := as_size asp + of_nat (Suc n) * PAGE_SIZE\<rparr>, s')
     \<and> pt_wf s' d \<and> vm_grows (Suc n) s s' d \<and> maps_range p n flags s s' d"
  using assms
proof (induction n arbitrary: p asp s)
  case 0
  have p: "p < 2 ^ 20" "Suc p < 2 ^ 20" "p < 2 ^ 20 - 1" using "0.prems"(3) by simp_all
  have un: "unmapped s d (pa p)" using "0.prems"(4) p by simp
  from map_one_page [OF "0.prems"(1,2) un p(3)] "0.prems"(5) obtain s' where
    s': "x86_map_page (as_vmmpd asp + CONFIG_KERNEL_BASE) (pa p)
       (if flags AND ARCH_MAP_FIXED \<noteq> 0 then drop_bit 12 (pa p) else - 1) (arch_map_flags flags) s = Some ((), s')"
     "pt_wf s' d" "vm_grows 1 s s' d"
     "\<forall>a. if pn a = p then mapped_as flags a (page_entry s' d a)
              \<and> (flags AND ARCH_MAP_FIXED = 0 \<longrightarrow> frame_of (page_entry s' d a) \<in> vm_taken s' - vm_taken s)
            else page_entry s' d a = page_entry s d a" by auto
  have "\<not> pa (Suc p) \<le> pa p" using unat_pa [of p] unat_pa [of "Suc p"] p by (simp add: word_le_nat_alt)
  then have "arch_mmap_loop (pa p) (pa p) flags (arch_map_flags flags) asp s
      = Some (asp\<lparr>as_size := as_size asp + PAGE_SIZE\<rparr>, s')"
    using s'(1) by (simp add: arch_mmap_loop.simps [of "pa p"] arch_mmap_loop.simps [of "pa (Suc p)"] pa_Suc)
  moreover have "maps_range p 0 flags s s' d"
  proof -
    have "p \<le> pn a \<and> pn a \<le> p + 0 \<longleftrightarrow> pn a = p" for a by auto
    with s'(4) show ?thesis unfolding maps_range_def by (simp only:)
  qed
  ultimately show ?case using s' by simp
next
  case (Suc n)
  have p: "p < 2 ^ 20" "p < 2 ^ 20 - 1" "p + Suc n < 2 ^ 20" using Suc.prems(3) by simp_all
  have un: "unmapped s d (pa p)" using Suc.prems(4) p by simp
  from map_one_page [OF Suc.prems(1,2) un p(2)] Suc.prems(5) obtain s1 where
    s1: "x86_map_page (as_vmmpd asp + CONFIG_KERNEL_BASE) (pa p)
       (if flags AND ARCH_MAP_FIXED \<noteq> 0 then drop_bit 12 (pa p) else - 1) (arch_map_flags flags) s = Some ((), s1)"
     "pt_wf s1 d" "vm_grows 1 s s1 d"
     "\<forall>a. if pn a = p then mapped_as flags a (page_entry s1 d a)
              \<and> (flags AND ARCH_MAP_FIXED = 0 \<longrightarrow> frame_of (page_entry s1 d a) \<in> vm_taken s1 - vm_taken s)
            else page_entry s1 d a = page_entry s d a" by auto
  let ?asp = "asp\<lparr>as_size := as_size asp + PAGE_SIZE\<rparr>"
  have "\<forall>a. Suc p \<le> pn a \<and> pn a \<le> Suc p + n \<longrightarrow> unmapped s1 d a"
    using Suc.prems(4) s1(3,4) by (auto simp: unmapped_def vm_grows_def split: if_splits)
  moreover have "card (vm_taken s1) + 2 * Suc n \<le> pmm_blocks (vm_pmm s1)"
    using Suc.prems(5) s1(3) by (simp add: vm_grows_def)
  ultimately obtain s2 where
    s2: "arch_mmap_loop (pa (Suc p)) (pa (Suc p + n)) flags (arch_map_flags flags) ?asp s1
        = Some (?asp\<lparr>as_size := as_size ?asp + of_nat (Suc n) * PAGE_SIZE\<rparr>, s2)"
      "pt_wf s2 d" "vm_grows (Suc n) s1 s2 d" "maps_range (Suc p) n flags s1 s2 d"
    using Suc.IH [of s1 ?asp "Suc p"] s1(2) Suc.prems(2,3) by auto
  have "pa p \<le> pa (p + Suc n)" using unat_pa [of p] unat_pa [of "p + Suc n"] p by (simp add: word_le_nat_alt)
  moreover have "as_size asp + PAGE_SIZE + of_nat (Suc n) * PAGE_SIZE = as_size asp + of_nat (Suc (Suc n)) * PAGE_SIZE"
    by (simp add: algebra_simps)
  ultimately have "arch_mmap_loop (pa p) (pa (p + Suc n)) flags (arch_map_flags flags) asp s
      = Some (asp\<lparr>as_size := as_size asp + of_nat (Suc (Suc n)) * PAGE_SIZE\<rparr>, s2)"
    using s1(1) s2(1) by (simp add: arch_mmap_loop.simps [of "pa p"] pa_Suc del: of_nat_Suc)
  moreover have "vm_grows (Suc (Suc n)) s s2 d" using vm_grows_trans [OF s1(3) s2(3)] by simp
  moreover have "maps_range p (Suc n) flags s s2 d"
    using maps_range_Suc [OF s1(4) s2(4)] s1(3) s2(3) by (simp add: vm_grows_def)
  ultimately show ?case using s2(2) by blast
qed

text \<open>The frames that the pages from \<open>p\<close> up to \<open>p + n\<close> own.\<close>

definition owned_frames :: "vm \<Rightarrow> nat \<Rightarrow> nat \<Rightarrow> nat \<Rightarrow> nat set" where
  "owned_frames s d p n = (\<lambda>a. frame_of (page_entry s d a)) `
     {a. p \<le> pn a \<and> pn a < p + n \<and> bit (page_entry s d a) 9}"

lemma owned_frames_0: "owned_frames s d p 0 = {}"
  by (auto simp: owned_frames_def)

definition unmaps_range :: "nat \<Rightarrow> nat \<Rightarrow> vm \<Rightarrow> vm \<Rightarrow> nat \<Rightarrow> bool" where
  "unmaps_range p n s s' d \<longleftrightarrow>
     (\<forall>a. page_entry s' d a = (if p \<le> pn a \<and> pn a < p + n then 0 else page_entry s d a))
     \<and> vm_taken s' = vm_taken s - owned_frames s d p n
     \<and> (\<forall>k < 1024. cell s' d k = cell s d k) \<and> pmm_blocks (vm_pmm s') = pmm_blocks (vm_pmm s)"

lemma page_entry_pn: "pn a = pn a' \<Longrightarrow> page_entry s d a = page_entry s d a'"
  by (simp add: page_entry_def flip: same_page_pn add: same_page_idx)

lemma owned_frames_Suc:
  assumes p: "p < 2 ^ 20"
  shows "owned_frames s d p (Suc n) =
    (if bit (page_entry s d (pa p)) 9 then {frame_of (page_entry s d (pa p))} else {})
    \<union> owned_frames s d (Suc p) n"
proof -
  have eq: "page_entry s d a = page_entry s d (pa p)" if "pn a = p" for a
    using that p page_entry_pn [of a "pa p"] by simp
  have "{a. p \<le> pn a \<and> pn a < p + Suc n \<and> bit (page_entry s d a) 9} =
     {a. pn a = p \<and> bit (page_entry s d a) 9} \<union>
     {a. Suc p \<le> pn a \<and> pn a < Suc p + n \<and> bit (page_entry s d a) 9}" by auto
  moreover have "(\<lambda>a. frame_of (page_entry s d a)) ` {a. pn a = p \<and> bit (page_entry s d a) 9} =
     (if bit (page_entry s d (pa p)) 9 then {frame_of (page_entry s d (pa p))} else {})"
    (is "?f ` ?A = ?B")
  proof (cases "bit (page_entry s d (pa p)) 9")
    case True
    have "pa p \<in> ?A" using True p by simp
    moreover have "?f a = ?f (pa p)" if "a \<in> ?A" for a using that eq by simp
    ultimately have "?f ` ?A = {?f (pa p)}" by blast
    with True show ?thesis by simp
  next
    case False
    then have "?A = {}" using eq by auto
    with False show ?thesis by simp
  qed
  ultimately show ?thesis by (simp only: owned_frames_def image_Un)
qed

lemma unmaps_range_Suc:
  assumes p: "p < 2 ^ 20"
    and e1: "\<forall>a. page_entry s1 d a = (if same_page a (pa p) then 0 else page_entry s d a)"
    and c1: "\<forall>k < 1024. cell s1 d k = cell s d k"
    and t1: "vm_taken s1 = vm_taken s - (if bit (page_entry s d (pa p)) 9 then {frame_of (page_entry s d (pa p))} else {})"
    and b1: "pmm_blocks (vm_pmm s1) = pmm_blocks (vm_pmm s)"
    and rest: "unmaps_range (Suc p) n s1 s2 d"
  shows "unmaps_range p (Suc n) s s2 d"
proof -
  have e1': "page_entry s1 d a = (if pn a = p then 0 else page_entry s d a)" for a
    using e1 p by (simp add: same_page_pn)
  have e2: "page_entry s2 d a = (if Suc p \<le> pn a \<and> pn a < Suc p + n then 0 else page_entry s1 d a)" for a
    using rest by (simp add: unmaps_range_def)
  have ents: "page_entry s2 d a = (if p \<le> pn a \<and> pn a < p + Suc n then 0 else page_entry s d a)" for a
    using e2 [of a] e1' [of a] by auto
  have eq1: "owned_frames s1 d (Suc p) n = owned_frames s d (Suc p) n"
    unfolding owned_frames_def using e1' by (intro image_cong) auto
  have "vm_taken s2 = vm_taken s1 - owned_frames s1 d (Suc p) n" using rest by (simp add: unmaps_range_def)
  then have "vm_taken s2 = vm_taken s - owned_frames s d p (Suc n)"
    unfolding owned_frames_Suc [OF p] eq1 t1 by blast
  with ents c1 b1 rest show ?thesis by (simp add: unmaps_range_def)
qed

lemma arch_munmap_loop_spec:
  assumes "pt_wf s d" "as_vmmpd asp + CONFIG_KERNEL_BASE = frame_addr d" "p + n < 2 ^ 20"
    "\<forall>a. p \<le> pn a \<and> pn a < p + n \<longrightarrow> bit (page_entry s d a) 0"
  shows "\<exists>s'. arch_munmap_loop (pa p) (pa (p + n)) asp s
        = Some (asp\<lparr>as_size := as_size asp - of_nat n * PAGE_SIZE\<rparr>, s') \<and> pt_wf s' d \<and> unmaps_range p n s s' d"
  using assms
proof (induction n arbitrary: p asp s)
  case 0
  then show ?case
    by (auto simp: arch_munmap_loop.simps [of "pa p"] unmaps_range_def owned_frames_0)
next
  case (Suc n)
  have p: "p < 2 ^ 20" "p + Suc n < 2 ^ 20" using Suc.prems(3) by simp_all
  have pr: "bit (page_entry s d (pa p)) 0" using Suc.prems(4) p by simp
  then have i: "pdi (pa p) \<in> tables s d" by (auto simp: page_entry_def pte_def split: if_splits)
  from x86_unmap_page_spec [OF Suc.prems(1) i pr] obtain s1 where
    s1: "x86_unmap_page (frame_addr d) (pa p) s = Some ((), s1)" "pt_wf s1 d"
      "\<forall>a. page_entry s1 d a = (if same_page a (pa p) then 0 else page_entry s d a)"
      "\<forall>k < 1024. cell s1 d k = cell s d k"
      "vm_taken s1 = vm_taken s - (if bit (page_entry s d (pa p)) 9 then {frame_of (page_entry s d (pa p))} else {})"
      "pmm_blocks (vm_pmm s1) = pmm_blocks (vm_pmm s)" by blast
  let ?asp = "asp\<lparr>as_size := as_size asp - PAGE_SIZE\<rparr>"
  have "\<forall>a. Suc p \<le> pn a \<and> pn a < Suc p + n \<longrightarrow> bit (page_entry s1 d a) 0"
    using Suc.prems(4) s1(3) p by (simp add: same_page_pn)
  then obtain s2 where
    s2: "arch_munmap_loop (pa (Suc p)) (pa (Suc p + n)) ?asp s1
        = Some (?asp\<lparr>as_size := as_size ?asp - of_nat n * PAGE_SIZE\<rparr>, s2)" "pt_wf s2 d"
      "unmaps_range (Suc p) n s1 s2 d"
    using Suc.IH [of s1 ?asp "Suc p"] s1(2) Suc.prems(2,3) by auto
  have "pa p < pa (p + Suc n)" using unat_pa [of p] unat_pa [of "p + Suc n"] p by (simp add: word_less_nat_alt)
  moreover have "as_size asp - PAGE_SIZE - of_nat n * PAGE_SIZE = as_size asp - of_nat (Suc n) * PAGE_SIZE"
    by (simp add: algebra_simps)
  ultimately have "arch_munmap_loop (pa p) (pa (p + Suc n)) asp s
      = Some (asp\<lparr>as_size := as_size asp - of_nat (Suc n) * PAGE_SIZE\<rparr>, s2)"
    using s1(1) s2(1) Suc.prems(2) by (simp add: arch_munmap_loop.simps [of "pa p"] pa_Suc del: of_nat_Suc)
  then show ?case using s2(2) unmaps_range_Suc [OF p(1) s1(3-6) s2(3)] by blast
qed

lemma page_mask: "a AND NOT (PAGE_SIZE - 1) = pa (pn a)"
  using high_mask_frame [of a] by (simp add: PAGE_SIZE_def pa_def pn_def frame_of_def)

lemma pn_less: "pn a < 2 ^ 20"
  using unat_u32_less [of a] by (simp add: pn_def drop_bit_eq_div unat_div_distrib)

lemma pa_add: "pa p + pa q = pa (p + q)"
  by (simp add: pa_def algebra_simps)

lemma pn_pred:
  assumes "0 < q" "q < 2 ^ 20" shows "pn (pa q - 1) = q - 1"
proof -
  have "unat (pa q - 1) = q * 4096 - 1"
    using assms unat_pa [of q] by (simp add: unat_sub word_le_nat_alt)
  also have "\<dots> div 4096 = q - 1" using assms(1) by (cases q) simp_all
  finally show ?thesis by (simp add: pn_def drop_bit_eq_div unat_div_distrib)
qed

lemma arch_mmap_spec:
  assumes "pt_wf s d" "as_vmmpd asp + CONFIG_KERNEL_BASE = frame_addr d"
    "len \<noteq> 0" "pn address = p" "pn (address + len) = p + n" "p + n < 2 ^ 20 - 1"
    "\<forall>a. p \<le> pn a \<and> pn a \<le> p + n \<longrightarrow> unmapped s d a"
    "card (vm_taken s) + 2 * Suc n \<le> pmm_blocks (vm_pmm s)"
  shows "\<exists>s'. arch_mmap address len flags asp s
        = Some (address, asp\<lparr>as_size := as_size asp + of_nat (Suc n) * PAGE_SIZE\<rparr>, s')
     \<and> pt_wf s' d \<and> vm_grows (Suc n) s s' d \<and> maps_range p n flags s s' d"
  using arch_mmap_loop_spec [OF assms(1,2,6-8), of flags] assms(3-5)
  by (auto simp: arch_mmap_def page_mask simp del: of_nat_Suc)

lemma arch_munmap_spec:
  assumes "pt_wf s d" "as_vmmpd asp + CONFIG_KERNEL_BASE = frame_addr d"
    "len \<noteq> 0" "pn address = p" "pn (address + len + PAGE_SIZE) = p + n"
    "\<forall>a. p \<le> pn a \<and> pn a < p + n \<longrightarrow> bit (page_entry s d a) 0"
  shows "\<exists>s'. arch_munmap address len asp s
        = Some ((), asp\<lparr>as_size := as_size asp - of_nat n * PAGE_SIZE\<rparr>, s') \<and> pt_wf s' d \<and> unmaps_range p n s s' d"
proof -
  have "p + n < 2 ^ 20" using assms(5) pn_less [of "address + len + PAGE_SIZE"] by simp
  from arch_munmap_loop_spec [OF assms(1,2) this assms(6)] assms(3-5) show ?thesis
    by (auto simp: arch_munmap_def page_mask)
qed

text \<open>The first and last page of the lengths that the address space code passes.\<close>

lemma range_ends:
  assumes "p + n + 2 < 2 ^ 20"
  shows "pa (Suc n) - 1 \<noteq> 0" "pn (pa p) = p" "pn (pa p + (pa (Suc n) - 1)) = p + n"
    "pn (pa p + (pa (Suc n) - 1) + PAGE_SIZE) = p + Suc n"
proof -
  have sum: "pa p + (pa (Suc n) - 1) = pa (p + Suc n) - 1"
    "pa p + (pa (Suc n) - 1) + PAGE_SIZE = pa (p + Suc n + 1) - 1"
    using pa_add [of p "Suc n"] pa_Suc [of "p + Suc n"] by (simp_all add: algebra_simps)
  show "pa (Suc n) - 1 \<noteq> 0"
    using unat_pa [of "Suc n"] assms by (auto simp: unat_sub word_le_nat_alt dest: arg_cong [where f = unat])
  show "pn (pa p) = p" using assms by simp
  show "pn (pa p + (pa (Suc n) - 1)) = p + n"
    unfolding sum(1) using pn_pred [of "p + Suc n"] assms by simp
  show "pn (pa p + (pa (Suc n) - 1) + PAGE_SIZE) = p + Suc n"
    unfolding sum(2) using pn_pred [of "p + Suc n + 1"] assms by simp
qed

section \<open>The kernel heap's break\<close>

text \<open>
  A whole number of pages extends the mapped part of the heap by as much; any other amount passes
  through the operator precedence of the rounding expression as zero and maps nothing.
\<close>

lemma morecore_round:
  "(incr :: u32) mod PAGE_SIZE = 0 \<Longrightarrow>
     incr AND (NOT (PAGE_SIZE - 1) + PAGE_SIZE * (if incr mod PAGE_SIZE \<noteq> 0 then 1 else 0)) = pa (pn incr)"
  "incr mod PAGE_SIZE \<noteq> 0 \<Longrightarrow>
     incr AND (NOT (PAGE_SIZE - 1) + PAGE_SIZE * (if incr mod PAGE_SIZE \<noteq> 0 then 1 else 0)) = 0"
  using page_mask [of incr] by (simp_all add: PAGE_SIZE_def)

lemma morecore_unaligned:
  assumes "incr mod PAGE_SIZE \<noteq> 0" "0 \<le> sint incr" "kh_base kh \<le> CONFIG_HEAP_BASE + CONFIG_HEAP_SIZE"
    "kh_page kh < kh_base kh + incr" "kh_page kh = pa p" "0 < p" "p < 2 ^ 20"
  shows "morecore incr kh asp s = Some (kh_base kh, kh\<lparr>kh_base := kh_base kh + incr\<rparr>, asp, s)"
proof -
  have "(pa p + (0 - 1)) AND NOT (PAGE_SIZE - 1) = pa (p - 1)"
    using pn_pred [of p] assms(6,7) by (simp only: page_mask) simp
  moreover have "\<not> pa p \<le> pa (p - 1)"
    using unat_pa [of p] unat_pa [of "p - 1"] assms(6,7) by (simp add: word_le_nat_alt)
  ultimately have "arch_mmap (pa p) (0 - 1) fl asp s = Some (pa p, asp, s)" for fl
    using assms(7) page_mask [of "pa p"] by (simp add: arch_mmap_def arch_mmap_loop.simps)
  then show ?thesis
    using assms(2-5) by (simp add: morecore_def morecore_round(2) [OF assms(1)] Let_def)
qed

section \<open>Properties\<close>

text \<open>
  A directory in frame 1 with no table yet, in a machine of 64 pages whose first 32 blocks are
  taken, except for block 1 of the demonstration allocator which the directory takes.
\<close>

definition vm_demo :: vm where
  "vm_demo = \<lparr>vm_mem = (\<lambda>_. 0), vm_pmm = pmm_demo\<lparr>bitmap := [0xFFFFFFFF, 0]\<rparr>\<rparr>"

lemma vm_demo_taken: "vm_taken vm_demo = {..<32}"
proof -
  have "bit (0xFFFFFFFF :: u32) k" if "k < 32" for k using that bit_all_ones by blast
  then show ?thesis
    by (auto simp: vm_demo_def bm_taken_def pmm_demo_def less_Suc_eq numeral_2_eq_2)
qed

lemma vm_demo_wf: "pt_wf vm_demo 1"
proof -
  have c: "cell vm_demo f j = 0" for f j by (simp add: cell_def vm_demo_def)
  then have t: "tables vm_demo 1 = {}" by (simp add: tables_def)
  then have o: "owned vm_demo 1 = {}" by (simp add: owned_def pte_def)
  have "pmm_wf (vm_pmm vm_demo)" "pmm_blocks (vm_pmm vm_demo) \<le> 2 ^ 18"
    by (simp_all add: vm_demo_def pmm_wf_def pmm_demo_def)
  with t o vm_demo_taken show ?thesis by (simp add: pt_wf_def)
qed

lemma vm_demo_unmapped: "unmapped vm_demo 1 a"
  by (simp add: unmapped_def page_entry_def pte_def tables_def cell_def vm_demo_def)

lemma vm_demo_room: "card (vm_taken vm_demo) = 32" "pmm_blocks (vm_pmm vm_demo) = 64"
  unfolding vm_demo_taken by (simp_all add: vm_demo_def pmm_demo_def)

text \<open>C9. Mapping one page translates exactly that page: a page that was unmapped is afterwards
  translated to the frame of the new entry (a fresh frame of the page allocator, or the given
  block), with write access as the flags say; the translation and the access rights of every
  address outside the page are unchanged; and the tables stay well formed, so that no two
  pages of the address space share an owned frame and no page lies in a page table.\<close>

theorem x86_map_page_translates:
  assumes "pt_wf s d" "unmapped s d a" "flags_ok (fl AND NOT X86_MMU_PG_NX)"
    "card (vm_taken s) + 2 \<le> pmm_blocks (vm_pmm s)" "block \<noteq> - 1 \<longrightarrow> unat block < 2 ^ 20"
  shows "\<exists>s' f. x86_map_page (frame_addr d) a block fl s = Some ((), s') \<and> pt_wf s' d
     \<and> (if block = - 1 then f \<in> vm_taken s' - vm_taken s else f = unat block)
     \<and> (\<forall>a'. same_page a' a \<longrightarrow> x86_ptr_phys (frame_addr d) a' s' = Some (of_nat (f * 4096) + (a' AND 0xFFF))
           \<and> x86_ptr_access (frame_addr d) a' W_OK s' = Some (bit fl 1))
     \<and> (\<forall>a'. \<not> same_page a' a \<and> \<not> bit (cell s d (pdi a')) 7 \<longrightarrow>
           x86_ptr_phys (frame_addr d) a' s' = x86_ptr_phys (frame_addr d) a' s)"
proof -
  from assms(2) have un: "\<not> bit (cell s d (pdi a)) 7" "\<not> bit (page_entry s d a) 0"
    by (simp_all add: unmapped_def)
  from x86_map_page_spec [OF assms(1) un assms(3-5)] obtain s' e where
    s': "x86_map_page (frame_addr d) a block fl s = Some ((), s')" "pt_wf s' d" "bit e 0"
      "bit e 1 \<longleftrightarrow> bit fl 1"
      "if block = - 1 then frame_of e \<in> vm_taken s' - vm_taken s else frame_of e = unat block"
      "\<forall>a'. page_entry s' d a' = (if same_page a' a then e else page_entry s d a')"
      "\<forall>a'. bit (cell s' d (pdi a')) 7 \<longleftrightarrow> bit (cell s d (pdi a')) 7"
      "tables s' d = insert (pdi a) (tables s d)" by blast
  have "x86_ptr_phys (frame_addr d) a' s' = Some (of_nat (frame_of e * 4096) + (a' AND 0xFFF))
      \<and> x86_ptr_access (frame_addr d) a' W_OK s' = Some (bit fl 1)" if sp: "same_page a' a" for a'
  proof -
    have "pdi a' = pdi a" using sp by (simp add: same_page_idx)
    then have "\<not> bit (cell s' d (pdi a')) 7" "pdi a' \<in> tables s' d" using s'(7,8) un(1) by simp_all
    then show ?thesis using s' sp x86_ptr_phys_entry [OF s'(2)] x86_ptr_access_entry [OF s'(2)]
      by (simp add: R_OK_def W_OK_def)
  qed
  moreover have "x86_ptr_phys (frame_addr d) a' s' = x86_ptr_phys (frame_addr d) a' s"
    if "\<not> same_page a' a" "\<not> bit (cell s d (pdi a')) 7" for a'
    using that s'(6,7) x86_ptr_phys_entry [OF s'(2)] x86_ptr_phys_entry [OF assms(1)] by simp
  ultimately show ?thesis using s'(1,2,5) by (intro exI [of _ s'] exI [of _ "frame_of e"]) blast
qed

theorem x86_map_page_translates_witness:
  "\<exists>s'. x86_map_page (frame_addr 1) 0x1000 7 3 vm_demo = Some ((), s')
     \<and> x86_ptr_phys (frame_addr 1) 0x1234 s' = Some 0x7234"
proof -
  have fl: "flags_ok (3 AND NOT X86_MMU_PG_NX)"
    by (simp add: flags_ok_def X86_MMU_PG_NX_def bit_simps bit_numeral_rec bit_push_one_u64 del: push_bit_of_1)
  have "same_page 0x1234 0x1000" by (simp add: same_page_def)
  with x86_map_page_translates [OF vm_demo_wf vm_demo_unmapped fl, of 7 "0x1000"] vm_demo_room
  show ?thesis by force
qed

text \<open>C10. Mapping a range of unmapped pages and unmapping it again, with the lengths that the address
  space code passes, gives back the address space and the translation of every address, and
  releases every frame that the pages were given.\<close>

theorem arch_mmap_munmap_roundtrip:
  assumes "pt_wf s d" "as_vmmpd asp + CONFIG_KERNEL_BASE = frame_addr d" "p + n + 2 < 2 ^ 20"
    "\<forall>a. p \<le> pn a \<and> pn a \<le> p + n \<longrightarrow> unmapped s d a"
    "card (vm_taken s) + 2 * Suc n \<le> pmm_blocks (vm_pmm s)"
    "flags AND ARCH_MAP_FIXED = 0"
  shows "\<exists>asp1 s1 s2. arch_mmap (pa p) (pa (Suc n) - 1) flags asp s = Some (pa p, asp1, s1)
     \<and> (\<forall>a. p \<le> pn a \<and> pn a \<le> p + n \<longrightarrow> mapped_as flags a (page_entry s1 d a))
     \<and> arch_munmap (pa p) (pa (Suc n) - 1) asp1 s1 = Some ((), asp, s2) \<and> pt_wf s2 d
     \<and> (\<forall>a. \<not> bit (cell s d (pdi a)) 7 \<longrightarrow>
           x86_ptr_phys (frame_addr d) a s2 = x86_ptr_phys (frame_addr d) a s)
     \<and> owned_frames s1 d p (Suc n) \<inter> vm_taken s2 = {} \<and> vm_taken s \<subseteq> vm_taken s2"
proof -
  note len = range_ends(1) [OF assms(3)] and e1 = range_ends(3) [OF assms(3)]
    and e2 = range_ends(4) [OF assms(3)]
  have pp: "pn (pa p) = p" "p + n < 2 ^ 20 - 1" using assms(3) by simp_all
  let ?asp1 = "asp\<lparr>as_size := as_size asp + of_nat (Suc n) * PAGE_SIZE\<rparr>"
  from arch_mmap_spec [OF assms(1,2) len pp(1) e1 pp(2) assms(4,5), of flags] obtain s1 where
    s1: "arch_mmap (pa p) (pa (Suc n) - 1) flags asp s = Some (pa p, ?asp1, s1)" "pt_wf s1 d"
      "vm_grows (Suc n) s s1 d" "maps_range p n flags s s1 d" by blast
  have m: "mapped_as flags a (page_entry s1 d a) \<and> frame_of (page_entry s1 d a) \<notin> vm_taken s"
    if "p \<le> pn a \<and> pn a \<le> p + n" for a
    using s1(4) [unfolded maps_range_def, THEN spec, of a] that assms(6) by auto
  then have "\<forall>a. p \<le> pn a \<and> pn a < p + Suc n \<longrightarrow> bit (page_entry s1 d a) 0"
    by (simp add: mapped_as_def less_Suc_eq_le)
  from arch_munmap_spec [OF s1(2) _ len pp(1) e2 this, of ?asp1] assms(2) obtain s2 where
    s2: "arch_munmap (pa p) (pa (Suc n) - 1) ?asp1 s1 = Some ((), asp, s2)" "pt_wf s2 d"
      "unmaps_range p (Suc n) s1 s2 d" by auto
  have ph: "x86_ptr_phys (frame_addr d) a s2 = x86_ptr_phys (frame_addr d) a s"
    if "\<not> bit (cell s d (pdi a)) 7" for a
  proof -
    have "\<not> bit (cell s2 d (pdi a)) 7"
      using that s1(3) s2(3) idx_less(1) [of a] by (simp add: vm_grows_def unmaps_range_def)
    moreover have "bit (page_entry s2 d a) 0 \<longleftrightarrow> bit (page_entry s d a) 0"
      "bit (page_entry s d a) 0 \<longrightarrow> page_entry s2 d a = page_entry s d a"
      using s2(3) s1(4) [unfolded maps_range_def, THEN spec, of a] assms(4)
      by (auto simp: unmaps_range_def unmapped_def less_Suc_eq_le)
    ultimately show ?thesis
      using that x86_ptr_phys_entry [OF s2(2)] x86_ptr_phys_entry [OF assms(1)] by simp
  qed
  have "owned_frames s1 d p (Suc n) \<inter> vm_taken s = {}"
    using m by (auto simp: owned_frames_def less_Suc_eq_le)
  then have "owned_frames s1 d p (Suc n) \<inter> vm_taken s2 = {} \<and> vm_taken s \<subseteq> vm_taken s2"
    using s2(3) s1(3) by (auto simp: unmaps_range_def vm_grows_def)
  with s1(1) s2(1,2) ph m show ?thesis by blast
qed

theorem arch_mmap_munmap_roundtrip_witness:
  "\<exists>asp1 s1 s2. arch_mmap (pa 3) (pa (Suc 1) - 1) ARCH_MAP_RDWR
       \<lparr>as_vmmpd = 4096, as_start = 0, as_end = 0, as_size = 0, as_ops = (0, 0, 0), as_mappings = []\<rparr> vm_demo = Some (pa 3, asp1, s1)
     \<and> arch_munmap (pa 3) (pa (Suc 1) - 1) asp1 s1 =
         Some ((), \<lparr>as_vmmpd = 4096, as_start = 0, as_end = 0, as_size = 0, as_ops = (0, 0, 0), as_mappings = []\<rparr>, s2)"
proof -
  let ?asp = "\<lparr>as_vmmpd = 4096, as_start = 0, as_end = 0, as_size = 0, as_ops = (0, 0, 0), as_mappings = []\<rparr>"
  have a: "as_vmmpd ?asp + CONFIG_KERNEL_BASE = frame_addr 1" by (simp add: frame_addr_def)
  have f: "ARCH_MAP_RDWR AND ARCH_MAP_FIXED = 0" by (simp add: ARCH_MAP_RDWR_def ARCH_MAP_FIXED_def)
  have b: "(3 :: nat) + 1 + 2 < 2 ^ 20" "card (vm_taken vm_demo) + 2 * Suc 1 \<le> pmm_blocks (vm_pmm vm_demo)"
    by (simp_all add: vm_demo_room)
  from arch_mmap_munmap_roundtrip [OF vm_demo_wf a b(1) _ b(2) f] vm_demo_unmapped show ?thesis by blast
qed

end
