(* ===== verification/Aspace.thy ===== *)
theory Aspace
  imports Paging
begin

text \<open>
  Address spaces, \<^verbatim>\<open>os/kernel/mm/aspace.c\<close>, and the system call \<^verbatim>\<open>brk\<close>: typed maps with reference
  counts that several address spaces may share, grown and shrunk through the page tables.
\<close>

section \<open>Model\<close>

definition ASPACE_TYPE_UNKNOWN :: byte where "ASPACE_TYPE_UNKNOWN = 0"
definition ASPACE_TYPE_TLS :: byte where "ASPACE_TYPE_TLS = 3"
definition ASPACE_TYPE_BRK :: byte where "ASPACE_TYPE_BRK = 4"
definition ASPACE_TYPE_SWAP :: byte where "ASPACE_TYPE_SWAP = 6"

record as_map =
  am_type :: byte
  am_flags :: u32
  am_start :: u32
  am_end :: u32
  am_lock :: bool
  am_refcount :: int

text \<open>The map objects on the kernel heap, by their address, and the machine.\<close>

record as_sys =
  sys_maps :: "nat \<rightharpoonup> as_map"
  sys_vm :: vm

definition aspace_create :: "u32 \<Rightarrow> u32 \<times> u32 \<times> u32 \<Rightarrow> u32 \<Rightarrow> u32 \<Rightarrow> address_space option" where
  "aspace_create vmmpd ops start stop =
     do {
       kassert (start \<le> stop);
       Some \<lparr>as_vmmpd = vmmpd, as_start = start, as_end = stop, as_size = 0, as_ops = ops,
             as_mappings = []\<rparr>
     }"

definition aspace_create_nomem ::
  "address_space \<Rightarrow> u32 \<Rightarrow> u32 \<times> u32 \<times> u32 \<Rightarrow> u32 \<Rightarrow> u32 \<Rightarrow> address_space option" where
  "aspace_create_nomem staticbuf vmmpd ops start stop =
     do {
       kassert (start \<le> stop);
       Some (staticbuf\<lparr>as_start := start, as_end := stop, as_size := 0, as_vmmpd := vmmpd, as_ops := ops\<rparr>)
     }"

text \<open>The critical section of a map.\<close>

definition map_locked :: "nat \<Rightarrow> (as_sys \<Rightarrow> ('a \<times> as_sys) option) \<Rightarrow> as_sys \<Rightarrow> ('a \<times> as_sys) option" where
  "map_locked m body =
     with_lock (\<lambda>s. case sys_maps s m of None \<Rightarrow> True | Some x \<Rightarrow> am_lock x)
       (\<lambda>b s. s\<lparr>sys_maps := (sys_maps s)(m := map_option (am_lock_update (\<lambda>_. b)) (sys_maps s m))\<rparr>) body"

definition aspace_round :: "u32 \<Rightarrow> u32" where
  "aspace_round incr =
     (if incr AND (PAGE_SIZE - 1) \<noteq> 0 then (incr AND NOT (PAGE_SIZE - 1)) + PAGE_SIZE else incr)"

definition aspace_enlarge_map :: "nat \<Rightarrow> u32 \<Rightarrow> address_space \<Rightarrow> as_sys \<Rightarrow> (address_space \<times> as_sys) option" where
  "aspace_enlarge_map m incr asp s =
     do {
       kassert (incr \<noteq> 0);
       let incr = aspace_round incr;
       x \<leftarrow> sys_maps s m;
       kassert (\<not> am_end x + incr > as_end asp);
       map_locked m (\<lambda>s. do {
         x \<leftarrow> sys_maps s m;
         (r, asp, v) \<leftarrow> arch_mmap (am_end x) (incr - 1) (am_flags x) asp (sys_vm s);
         kassert (r \<noteq> 0);
         Some (asp, s\<lparr>sys_vm := v, sys_maps := (sys_maps s)(m \<mapsto> x\<lparr>am_end := am_end x + incr\<rparr>)\<rparr>)
       }) s
     }"

definition aspace_shrink_map :: "nat \<Rightarrow> u32 \<Rightarrow> address_space \<Rightarrow> as_sys \<Rightarrow> (address_space \<times> as_sys) option" where
  "aspace_shrink_map m decr asp s =
     do {
       kassert (decr \<noteq> 0);
       x \<leftarrow> sys_maps s m;
       kassert (\<not> am_end x - decr < as_start asp);
       map_locked m (\<lambda>s. do {
         x \<leftarrow> sys_maps s m;
         (_, asp, v) \<leftarrow> arch_munmap (am_end x - decr) (decr - 1) asp (sys_vm s);
         Some (asp, s\<lparr>sys_vm := v, sys_maps := (sys_maps s)(m \<mapsto> x\<lparr>am_end := am_end x - decr\<rparr>)\<rparr>)
       }) s
     }"

text \<open>\<open>m\<close> is the address of the new object.\<close>

definition aspace_add_map ::
  "nat \<Rightarrow> byte \<Rightarrow> u32 \<Rightarrow> u32 \<Rightarrow> u32 \<Rightarrow> address_space \<Rightarrow> as_sys \<Rightarrow> (address_space \<times> as_sys) option" where
  "aspace_add_map m type start stop flags asp s =
     do {
       kassert (type \<noteq> ASPACE_TYPE_UNKNOWN);
       kassert (start \<le> stop);
       let x = \<lparr>am_type = type AND 0xF, am_flags = flags AND 0xFFFFFFF, am_start = start, am_end = start,
                am_lock = False, am_refcount = 1\<rparr>;
       let s = s\<lparr>sys_maps := (sys_maps s)(m \<mapsto> x)\<rparr>;
       (asp, s) \<leftarrow>
         (if type = ASPACE_TYPE_TLS \<or> type = ASPACE_TYPE_SWAP
          then Some (asp, s\<lparr>sys_maps := (sys_maps s)(m \<mapsto> x\<lparr>am_end := stop\<rparr>)\<rparr>)
          else if stop > start then aspace_enlarge_map m (stop - start) asp s
          else Some (asp, s));
       Some (asp\<lparr>as_mappings := as_mappings asp @ [m]\<rparr>, s)
     }"

definition aspace_ref_map :: "nat \<Rightarrow> address_space \<Rightarrow> as_sys \<Rightarrow> (address_space \<times> as_sys) option" where
  "aspace_ref_map m asp s =
     do {
       x \<leftarrow> sys_maps s m;
       Some (asp\<lparr>as_mappings := as_mappings asp @ [m]\<rparr>,
             s\<lparr>sys_maps := (sys_maps s)(m \<mapsto> x\<lparr>am_refcount := am_refcount x + 1\<rparr>)\<rparr>)
     }"

definition aspace_remove_map :: "nat \<Rightarrow> address_space \<Rightarrow> as_sys \<Rightarrow> (address_space \<times> as_sys) option" where
  "aspace_remove_map m asp s =
     do {
       x \<leftarrow> sys_maps s m;
       kassert (am_start x \<noteq> 0);
       kassert (am_end x \<noteq> 0);
       let asp = asp\<lparr>as_mappings := remove1 m (as_mappings asp)\<rparr>;
       let x = x\<lparr>am_refcount := am_refcount x - 1\<rparr>;
       if am_refcount x > 0 then Some (asp, s\<lparr>sys_maps := (sys_maps s)(m \<mapsto> x)\<rparr>)
       else do {
         (asp, v) \<leftarrow>
           (if am_end x > am_start x
            then do {
              (_, asp, v) \<leftarrow> arch_munmap (am_start x) (am_end x - am_start x) asp (sys_vm s);
              Some (asp, v)
            }
            else Some (asp, sys_vm s));
         Some (asp, s\<lparr>sys_vm := v, sys_maps := (sys_maps s)(m := None)\<rparr>)
       }
     }"

text \<open>The loops over the maps of an address space visit the maps in list order.\<close>

fun aspace_ref_maps :: "nat list \<Rightarrow> address_space \<Rightarrow> as_sys \<Rightarrow> (address_space \<times> as_sys) option" where
  "aspace_ref_maps [] asp s = Some (asp, s)"
| "aspace_ref_maps (m # ms) asp s = do { (asp, s) \<leftarrow> aspace_ref_map m asp s; aspace_ref_maps ms asp s }"

definition aspace_clone :: "address_space \<Rightarrow> as_sys \<Rightarrow> (address_space \<times> as_sys) option" where
  "aspace_clone src s =
     do {
       dest \<leftarrow> aspace_create (as_vmmpd src) (as_ops src) (as_start src) (as_end src);
       aspace_ref_maps (as_mappings src) dest s
     }"

fun aspace_remove_maps :: "nat list \<Rightarrow> address_space \<Rightarrow> as_sys \<Rightarrow> (address_space \<times> as_sys) option" where
  "aspace_remove_maps [] asp s = Some (asp, s)"
| "aspace_remove_maps (m # ms) asp s =
     do { (asp, s) \<leftarrow> aspace_remove_map m asp s; aspace_remove_maps ms asp s }"

definition aspace_free :: "address_space \<Rightarrow> as_sys \<Rightarrow> (address_space \<times> as_sys) option" where
  "aspace_free asp s = aspace_remove_maps (as_mappings asp) asp s"

text \<open>\<open>None\<close> as the address space is the pointer after \<^verbatim>\<open>kfree\<close>, set to null.\<close>

definition aspace_destroy :: "address_space option \<Rightarrow> as_sys \<Rightarrow> (address_space option \<times> as_sys) option" where
  "aspace_destroy p s = do { asp \<leftarrow> p; (_, s) \<leftarrow> aspace_free asp s; Some (None, s) }"

text \<open>The maps of a type, at most \<open>size\<close> of them, that \<^verbatim>\<open>aspace_get_maps\<close> stores to its array.\<close>

definition aspace_get_maps :: "byte \<Rightarrow> nat \<Rightarrow> address_space \<Rightarrow> as_sys \<Rightarrow> nat list" where
  "aspace_get_maps type sz asp s =
     take sz (filter (\<lambda>m. map_option am_type (sys_maps s m) = Some type) (as_mappings asp))"

text \<open>\<open>brk0\<close> is the value of the uninitialised local variable of \<^verbatim>\<open>sys_brk\<close>, \<open>None\<close> for a null pointer.\<close>

definition sys_brk :: "nat option \<Rightarrow> u32 \<Rightarrow> address_space \<Rightarrow> as_sys \<Rightarrow> (u32 \<times> address_space \<times> as_sys) option" where
  "sys_brk brk0 new_brk asp s =
     do {
       m \<leftarrow> (case aspace_get_maps ASPACE_TYPE_BRK 1 asp s of m # _ \<Rightarrow> Some m | [] \<Rightarrow> brk0);
       x \<leftarrow> sys_maps s m;
       if new_brk = 0 then Some (am_end x, asp, s)
       else if new_brk < am_start x then Some (am_end x, asp, s)
       else if new_brk = am_end x then Some (am_end x, asp, s)
       else do {
         (asp, s) \<leftarrow>
           (if new_brk > am_end x then aspace_enlarge_map m (new_brk - am_end x) asp s
            else aspace_shrink_map m (am_end x - new_brk) asp s);
         x \<leftarrow> sys_maps s m;
         Some (am_end x, asp, s)
       }
     }"

section \<open>Growing a map\<close>

text \<open>The pages that \<open>incr\<close> bytes need.\<close>

definition pages_for :: "u32 \<Rightarrow> nat" where
  "pages_for incr = (unat incr + 4095) div 4096"

lemma unat_page_offset: "unat (a AND 0xFFF) = unat (a :: u32) mod 4096"
  unfolding and_low_mask by (simp add: unsigned_take_bit_eq take_bit_eq_mod unat_mod_distrib)

lemma pn_div: "pn a = unat a div 4096"
  by (simp add: pn_def drop_bit_eq_div unat_div_distrib)

lemma round_up: "(u + 4095) div 4096 = u div 4096 + (if u mod 4096 = 0 then 0 else 1 :: nat)"
proof -
  have "u + 4095 = u mod 4096 + 4095 + u div 4096 * 4096" by simp
  then have "(u + 4095) div 4096 = (u mod 4096 + 4095 + u div 4096 * 4096) div 4096" by (rule arg_cong)
  also have "\<dots> = u div 4096 + (u mod 4096 + 4095) div 4096" by (rule div_mult_self1) simp
  also have "(u mod 4096 + 4095) div 4096 = (if u mod 4096 = 0 then 0 else 1)"
  proof (cases "u mod 4096 = 0")
    case False
    have "u mod 4096 < 4096" by simp
    with False have "(u mod 4096 + 4095) div 4096 = 1" by (intro div_nat_eqI) auto
    with False show ?thesis by simp
  qed simp
  finally show ?thesis .
qed

lemma aspace_round_pa: "aspace_round incr = pa (pages_for incr)"
proof (cases "unat incr mod 4096 = 0")
  case True
  then have z: "incr AND 0xFFF = 0" using unat_page_offset [of incr] by (simp add: word_unat_eq_iff)
  have "pages_for incr = pn incr" using True by (simp add: pages_for_def pn_div round_up)
  moreover have "unat incr div 4096 * 4096 = unat incr" using True by auto
  then have "pa (pn incr) = incr" by (simp only: pa_def pn_div) simp
  ultimately show ?thesis using z by (simp add: aspace_round_def PAGE_SIZE_def)
next
  case False
  then have nz: "incr AND 0xFFF \<noteq> 0" using unat_page_offset [of incr] by auto
  have "pages_for incr = Suc (pn incr)" using False by (simp add: pages_for_def pn_div round_up)
  moreover have "aspace_round incr = (incr AND NOT (PAGE_SIZE - 1)) + PAGE_SIZE"
    using nz by (simp add: aspace_round_def PAGE_SIZE_def)
  ultimately show ?thesis unfolding page_mask by (simp only: pa_Suc)
qed

lemma pages_for_bounds:
  assumes "incr \<noteq> 0"
  shows "0 < pages_for incr" "unat incr \<le> pages_for incr * 4096" "pages_for incr * 4096 < unat incr + 4096"
proof -
  have "0 < unat incr" using assms by (simp add: unat_gt_0)
  then show "0 < pages_for incr" by (simp add: pages_for_def div_greater_zero_iff)
  define k r where "k = unat incr div 4096" and "r = unat incr mod 4096"
  then have u: "unat incr = k * 4096 + r" "r < 4096" by simp_all
  have "pages_for incr = k + (if r = 0 then 0 else 1)"
    unfolding pages_for_def round_up by (simp add: k_def r_def)
  with u show "unat incr \<le> pages_for incr * 4096" "pages_for incr * 4096 < unat incr + 4096" by auto
qed

lemma aspace_enlarge_map_spec:
  assumes wf: "pt_wf (sys_vm s) d" and asp: "as_vmmpd asp + CONFIG_KERNEL_BASE = frame_addr d"
    and x: "sys_maps s m = Some x" "am_end x = pa q" "\<not> am_lock x" "0 < q"
    and incr: "incr \<noteq> 0" "pages_for incr = Suc n" "q + n + 2 < 2 ^ 20"
    and lim: "pa (q + Suc n) \<le> as_end asp"
    and un: "\<forall>a. q \<le> pn a \<and> pn a \<le> q + n \<longrightarrow> unmapped (sys_vm s) d a"
    and room: "card (vm_taken (sys_vm s)) + 2 * Suc n \<le> pmm_blocks (vm_pmm (sys_vm s))"
  shows "\<exists>v. aspace_enlarge_map m incr asp s = Some (asp\<lparr>as_size := as_size asp + of_nat (Suc n) * PAGE_SIZE\<rparr>,
        s\<lparr>sys_vm := v, sys_maps := (sys_maps s)(m \<mapsto> x\<lparr>am_end := pa (q + Suc n)\<rparr>)\<rparr>)
     \<and> pt_wf v d \<and> vm_grows (Suc n) (sys_vm s) v d \<and> maps_range q n (am_flags x) (sys_vm s) v d"
proof -
  have q: "q + n < 2 ^ 20 - 1" using incr(3) by simp
  from arch_mmap_spec [OF wf asp range_ends(1-3) [OF incr(3)] q un room, of "am_flags x"] obtain v where
    v: "arch_mmap (pa q) (pa (Suc n) - 1) (am_flags x) asp (sys_vm s)
        = Some (pa q, asp\<lparr>as_size := as_size asp + of_nat (Suc n) * PAGE_SIZE\<rparr>, v)" "pt_wf v d"
      "vm_grows (Suc n) (sys_vm s) v d" "maps_range q n (am_flags x) (sys_vm s) v d" by blast
  have "pa q \<noteq> 0" using unat_pa [of q] x(4) incr(3) by auto
  then have run: "aspace_enlarge_map m incr asp s = Some (asp\<lparr>as_size := as_size asp + of_nat (Suc n) * PAGE_SIZE\<rparr>,
        s\<lparr>sys_vm := v, sys_maps := (sys_maps s)(m \<mapsto> x\<lparr>am_end := pa (q + Suc n), am_lock := False\<rparr>)\<rparr>)"
    using v(1) x incr lim pa_add [of q "Suc n"]
    by (simp add: aspace_enlarge_map_def aspace_round_pa map_locked_def lock_simps Let_def not_less
        del: of_nat_Suc)
  have "x\<lparr>am_end := pa (q + Suc n), am_lock := False\<rparr> = x\<lparr>am_end := pa (q + Suc n)\<rparr>"
    using x(3) by (cases x) simp
  from run [unfolded this] v(2-4) show ?thesis by blast
qed

section \<open>Unmapping past the end of a map\<close>

lemma x86_unmap_page_unmapped:
  assumes "pt_wf s d" "unmapped s d a"
  shows "x86_unmap_page (frame_addr d) a s = None"
proof (cases "bit (cell s d (pdi a)) 0")
  case True
  then have "pdi a \<in> tables s d" using assms(2) idx_less(1) by (simp add: tables_def unmapped_def)
  then have "page_entry s d a = cell s (frame_of (cell s d (pdi a))) (pti a)"
    by (simp add: page_entry_def pte_def table_def)
  then show ?thesis using assms(2) True
    by (simp add: x86_unmap_page_def pde_cell pte_cell pg_bit Let_def unmapped_def kassert_def)
next
  case False
  then show ?thesis by (simp add: x86_unmap_page_def pde_cell pg_bit Let_def kassert_def)
qed

lemma arch_munmap_loop_stuck:
  assumes "pt_wf s d" "as_vmmpd asp + CONFIG_KERNEL_BASE = frame_addr d" "p + n < stop" "stop < 2 ^ 20"
    "\<forall>a. p \<le> pn a \<and> pn a < p + n \<longrightarrow> bit (page_entry s d a) 0" "unmapped s d (pa (p + n))"
  shows "arch_munmap_loop (pa p) (pa stop) asp s = None"
  using assms
proof (induction n arbitrary: p asp s)
  case 0
  then have "pa p < pa stop" using unat_pa [of p] unat_pa [of stop] by (simp add: word_less_nat_alt)
  with 0 show ?case by (simp add: arch_munmap_loop.simps [of "pa p"] x86_unmap_page_unmapped)
next
  case (Suc n)
  have p: "p < 2 ^ 20" "p < stop" using Suc.prems(3,4) by simp_all
  have pr: "bit (page_entry s d (pa p)) 0" using Suc.prems(5) p by simp
  then have i: "pdi (pa p) \<in> tables s d" by (auto simp: page_entry_def pte_def split: if_splits)
  from x86_unmap_page_spec [OF Suc.prems(1) i pr] obtain s1 where
    s1: "x86_unmap_page (frame_addr d) (pa p) s = Some ((), s1)" "pt_wf s1 d"
      "\<forall>a. page_entry s1 d a = (if same_page a (pa p) then 0 else page_entry s d a)"
      "\<forall>k < 1024. cell s1 d k = cell s d k" by blast
  have "\<forall>a. Suc p \<le> pn a \<and> pn a < Suc p + n \<longrightarrow> bit (page_entry s1 d a) 0"
    using Suc.prems(5) s1(3) p by (simp add: same_page_pn)
  moreover have "unmapped s1 d (pa (Suc p + n))"
    using Suc.prems(3,4,6) s1(3,4) p idx_less(1) by (simp add: unmapped_def same_page_pn)
  ultimately have "arch_munmap_loop (pa (Suc p)) (pa stop) (asp\<lparr>as_size := as_size asp - PAGE_SIZE\<rparr>) s1 = None"
    using Suc.IH [of s1 "asp\<lparr>as_size := as_size asp - PAGE_SIZE\<rparr>" "Suc p"] s1(2) Suc.prems(2-4) by simp
  moreover have "pa p < pa stop" using unat_pa [of p] unat_pa [of stop] p Suc.prems(4) by (simp add: word_less_nat_alt)
  ultimately show ?case using s1(1) Suc.prems(2) by (simp add: arch_munmap_loop.simps [of "pa p"] pa_Suc)
qed

section \<open>Properties\<close>

text \<open>C11. Growing the break: \<^verbatim>\<open>brk\<close> with an address above the current, page-aligned end of the break map
  returns an end that covers the address by less than a page; every page from the old end to
  the new one is mapped with the flags of the map, in frames of its own, and no other page of
  the address space changes.\<close>

theorem sys_brk_grows:
  assumes "pt_wf (sys_vm s) d" "as_vmmpd asp + CONFIG_KERNEL_BASE = frame_addr d"
    "aspace_get_maps ASPACE_TYPE_BRK 1 asp s = [m]" "sys_maps s m = Some x" "\<not> am_lock x"
    "am_start x \<le> am_end x" "am_end x = pa q" "0 < q" "am_end x < new_brk"
    "pages_for (new_brk - am_end x) = Suc n" "q + n + 2 < 2 ^ 20" "pa (q + Suc n) \<le> as_end asp"
    "\<forall>a. q \<le> pn a \<and> pn a \<le> q + n \<longrightarrow> unmapped (sys_vm s) d a"
    "card (vm_taken (sys_vm s)) + 2 * Suc n \<le> pmm_blocks (vm_pmm (sys_vm s))"
  shows "\<exists>e asp' s'. sys_brk brk0 new_brk asp s = Some (e, asp', s') \<and> new_brk \<le> e
     \<and> unat e < unat new_brk + 4096 \<and> pn e = q + Suc n \<and> pt_wf (sys_vm s') d
     \<and> maps_range q n (am_flags x) (sys_vm s) (sys_vm s') d"
proof -
  let ?incr = "new_brk - am_end x"
  have lt: "unat (am_end x) < unat new_brk" using assms(9) by (simp add: word_less_nat_alt)
  have nz: "?incr \<noteq> 0" using assms(9) by auto
  have ui: "unat ?incr = unat new_brk - q * 4096"
    using lt assms(7,11) unat_pa [of q] by (simp add: unat_sub word_le_nat_alt)
  have ue: "unat (pa (q + Suc n)) = q * 4096 + Suc n * 4096"
    using unat_pa [of "q + Suc n"] assms(11) by simp
  have fin: "new_brk \<le> pa (q + Suc n)" "unat (pa (q + Suc n)) < unat new_brk + 4096"
    using pages_for_bounds(2,3) [OF nz] lt assms(7,10,11) unat_pa [of q] ue ui
    by (simp_all add: word_le_nat_alt)
  from aspace_enlarge_map_spec [OF assms(1,2,4,7,5,8) nz assms(10-14)] obtain v where
    v: "aspace_enlarge_map m ?incr asp s = Some (asp\<lparr>as_size := as_size asp + of_nat (Suc n) * PAGE_SIZE\<rparr>,
        s\<lparr>sys_vm := v, sys_maps := (sys_maps s)(m \<mapsto> x\<lparr>am_end := pa (q + Suc n)\<rparr>)\<rparr>)"
     "pt_wf v d" "maps_range q n (am_flags x) (sys_vm s) v d" by blast
  have "sys_brk brk0 new_brk asp s = Some (pa (q + Suc n),
      asp\<lparr>as_size := as_size asp + of_nat (Suc n) * PAGE_SIZE\<rparr>,
      s\<lparr>sys_vm := v, sys_maps := (sys_maps s)(m \<mapsto> x\<lparr>am_end := pa (q + Suc n)\<rparr>)\<rparr>)"
    using v(1) assms(3,4,6,9) by (auto simp: sys_brk_def simp del: of_nat_Suc)
  moreover have "pn (pa (q + Suc n)) = q + Suc n" using assms(11) by simp
  ultimately show ?thesis using v(2,3) fin by auto
qed

text \<open>A break map over the demonstration tables: it ends at page 16.\<close>

definition brk_map :: as_map where
  "brk_map = \<lparr>am_type = ASPACE_TYPE_BRK, am_flags = ARCH_MAP_USER OR ARCH_MAP_RDWR, am_start = pa 16,
     am_end = pa 16, am_lock = False, am_refcount = 1\<rparr>"

definition brk_aspace :: address_space where
  "brk_aspace = \<lparr>as_vmmpd = 4096, as_start = 0, as_end = 0xC0000000, as_size = 0, as_ops = (0, 0, 0),
     as_mappings = [5]\<rparr>"

definition brk_sys :: as_sys where
  "brk_sys = \<lparr>sys_maps = [5 \<mapsto> brk_map], sys_vm = vm_demo\<rparr>"

lemma brk_aspace_pd: "as_vmmpd brk_aspace + CONFIG_KERNEL_BASE = frame_addr 1"
  by (simp add: brk_aspace_def frame_addr_def)

theorem sys_brk_grows_witness:
  "\<exists>e asp' s'. sys_brk None 0x11800 brk_aspace brk_sys = Some (e, asp', s') \<and> pn e = 18"
proof -
  have "\<exists>e asp' s'. sys_brk None 0x11800 brk_aspace brk_sys = Some (e, asp', s') \<and> 0x11800 \<le> e
     \<and> unat e < unat (0x11800 :: u32) + 4096 \<and> pn e = 16 + Suc 1 \<and> pt_wf (sys_vm s') 1
     \<and> maps_range 16 1 (am_flags brk_map) (sys_vm brk_sys) (sys_vm s') 1"
    by (rule sys_brk_grows [OF _ brk_aspace_pd, where m = 5])
       (simp_all add: brk_sys_def brk_map_def brk_aspace_def aspace_get_maps_def vm_demo_wf vm_demo_unmapped
         vm_demo_room pages_for_def pa_def del: One_nat_def)
  then show ?thesis by auto
qed

text \<open>Dropping the last reference to a map unmaps one page too many: \<^verbatim>\<open>aspace_remove_map\<close> passes the
  length of the map where \<^verbatim>\<open>arch_munmap\<close> expects the length minus one, so that when the page after a
  map of whole pages is not mapped, the assertion of \<^verbatim>\<open>x86_unmap_page\<close> fails and the call does not
  return.\<close>

lemma aspace_remove_map_overruns:
  assumes "pt_wf (sys_vm s) d" "as_vmmpd asp + CONFIG_KERNEL_BASE = frame_addr d"
    "sys_maps s m = Some x" "am_refcount x = 1" "am_start x = pa q" "am_end x = pa (q + Suc n)" "0 < q"
    "q + n + 2 < 2 ^ 20" "\<forall>a. q \<le> pn a \<and> pn a < q + Suc n \<longrightarrow> bit (page_entry (sys_vm s) d a) 0"
    "unmapped (sys_vm s) d (pa (q + Suc n))"
  shows "aspace_remove_map m asp s = None"
proof -
  let ?asp = "asp\<lparr>as_mappings := remove1 m (as_mappings asp)\<rparr>"
  have u: "unat (pa q) = q * 4096" "unat (pa (q + Suc n)) = (q + Suc n) * 4096"
    using unat_pa [of q] unat_pa [of "q + Suc n"] assms(8) by simp_all
  then have ne: "pa q \<noteq> 0" "pa (q + Suc n) \<noteq> 0" "pa q < pa (q + Suc n)"
    using assms(7) by (auto simp: word_less_nat_alt)
  have len: "pa (q + Suc n) - pa q = pa (Suc n)" using pa_add [of q "Suc n"] by (simp add: algebra_simps)
  have lnz: "pa (Suc n) \<noteq> 0" using unat_pa [of "Suc n"] assms(8) by auto
  have stop: "(pa q + pa (Suc n) + PAGE_SIZE) AND NOT (PAGE_SIZE - 1) = pa (q + n + 2)"
    unfolding page_mask pa_add pa_Suc using assms(8) by simp
  have "arch_munmap_loop (pa q) (pa (q + n + 2)) ?asp (sys_vm s) = None"
    using assms by (intro arch_munmap_loop_stuck [of _ d _ _ "Suc n"]) simp_all
  then have "arch_munmap (pa q) (pa (Suc n)) ?asp (sys_vm s) = None"
    using lnz stop assms(8) page_mask [of "pa q"] by (simp add: arch_munmap_def Let_def)
  then show ?thesis using assms(3-6) ne len by (simp add: aspace_remove_map_def Let_def)
qed

text \<open>One page of the demonstration address space, mapped at page 16.\<close>

lemma aspace_remove_map_overruns_demo:
  "\<exists>v. x86_map_page (frame_addr 1) (pa 16) 7 3 vm_demo = Some ((), v)
     \<and> aspace_remove_map 5 brk_aspace \<lparr>sys_maps = [5 \<mapsto> brk_map\<lparr>am_end := pa 17\<rparr>], sys_vm = v\<rparr> = None"
proof -
  have fl: "flags_ok (3 AND NOT X86_MMU_PG_NX)"
    by (simp add: flags_ok_def X86_MMU_PG_NX_def bit_simps bit_numeral_rec bit_push_one_u64 del: push_bit_of_1)
  have un: "\<not> bit (cell vm_demo 1 (pdi (pa 16))) 7" "\<not> bit (page_entry vm_demo 1 (pa 16)) 0"
    using vm_demo_unmapped [of "pa 16"] by (simp_all add: unmapped_def)
  from x86_map_page_spec [OF vm_demo_wf un fl, of 7] vm_demo_room obtain v e where
    v: "x86_map_page (frame_addr 1) (pa 16) 7 3 vm_demo = Some ((), v)" "pt_wf v 1" "bit e 0"
      "\<forall>a'. page_entry v 1 a' = (if same_page a' (pa 16) then e else page_entry vm_demo 1 a')"
      "\<forall>a'. bit (cell v 1 (pdi a')) 7 \<longleftrightarrow> bit (cell vm_demo 1 (pdi a')) 7" by auto
  let ?s = "\<lparr>sys_maps = [5 \<mapsto> brk_map\<lparr>am_end := pa 17\<rparr>], sys_vm = v\<rparr>"
  have "unmapped (sys_vm ?s) 1 (pa (16 + Suc 0))"
    using v(4,5) vm_demo_unmapped [of "pa (16 + Suc 0)"] by (simp add: unmapped_def same_page_pn)
  moreover have "\<forall>a. 16 \<le> pn a \<and> pn a < 16 + Suc 0 \<longrightarrow> bit (page_entry (sys_vm ?s) 1 a) 0"
    using v(3,4) by (simp add: same_page_pn)
  ultimately have "aspace_remove_map 5 brk_aspace ?s = None"
    using v(2) brk_aspace_pd
    by (intro aspace_remove_map_overruns [where d = 1 and q = 16 and n = 0 and x = "brk_map\<lparr>am_end := pa 17\<rparr>"]) (simp_all add: brk_map_def)
  with v(1) show ?thesis by blast
qed

end
