(* ===== verification/Vfs_Cache.thy ===== *)
theory Vfs_Cache
  imports Kprelude "HOL-Library.AList"
begin

text \<open>
  The object cache of \<^verbatim>\<open>kernel/fs/cache.c\<close>, which a mounted file system keeps its inodes in: a list of
  items keyed by inode number, filled by the \<^verbatim>\<open>load\<close> operation of the file system on the first access
  and of a fixed capacity. The contract \<open>object_cache\<close> is what the file systems rely on.
\<close>

section \<open>The object cache\<close>

text \<open>
  \<^verbatim>\<open>struct vfs_cache\<close>: the items in the order of the list. The operations of the cache
  (\<^verbatim>\<open>ops.load\<close>, \<^verbatim>\<open>ops.flush\<close>) are arguments of the functions that call them; they work on the state
  \<open>'s\<close> of the file system.
\<close>

record 'd vfs_cache =
  c_capacity :: u32
  c_count :: u32
  c_items :: "(u32 \<times> 'd) list"
  c_lock :: bool

definition unsafe_vfs_get_inode ::
  "(u32 \<Rightarrow> 's \<Rightarrow> ('d \<times> 's) option) \<Rightarrow> u32 \<Rightarrow> 'd vfs_cache \<times> 's \<Rightarrow> ('d \<times> 'd vfs_cache \<times> 's) option" where
  "unsafe_vfs_get_inode load ino = (\<lambda>(c, s).
     (case (if c_count c = 0 then None else map_of (c_items c) ino) of
        Some d \<Rightarrow> Some (d, c, s)
      | None \<Rightarrow>
          if c_count c = c_capacity c then None
          else do {
            (d, s) \<leftarrow> load ino s;
            Some (d, c\<lparr>c_items := c_items c @ [(ino, d)], c_count := c_count c + 1\<rparr>, s)
          }))"

definition vfs_cache_get ::
  "(u32 \<Rightarrow> 's \<Rightarrow> ('d \<times> 's) option) \<Rightarrow> u32 \<Rightarrow> 'd vfs_cache \<times> 's \<Rightarrow> ('d \<times> 'd vfs_cache \<times> 's) option" where
  "vfs_cache_get load ino =
     with_lock (\<lambda>(c, s). c_lock c) (\<lambda>b (c, s). (c\<lparr>c_lock := b\<rparr>, s)) (unsafe_vfs_get_inode load ino)"

text \<open>The callers write through the pointer that \<^verbatim>\<open>vfs_cache_get\<close> returned.\<close>

definition cache_put :: "u32 \<Rightarrow> 'd \<Rightarrow> 'd vfs_cache \<Rightarrow> 'd vfs_cache" where
  "cache_put ino d c = c\<lparr>c_items := AList.update ino d (c_items c)\<rparr>"

definition vfs_cache_flush ::
  "(u32 \<Rightarrow> 'd \<Rightarrow> 's \<Rightarrow> 's option) \<Rightarrow> u32 \<Rightarrow> 'd vfs_cache \<Rightarrow> 's \<Rightarrow> 's option" where
  "vfs_cache_flush flush ino c s =
     (if c_count c = 0 then Some s
      else case map_of (c_items c) ino of
             None \<Rightarrow> Some s
           | Some d \<Rightarrow> if c_lock c then None else flush ino d s)"

definition vfs_cache_create :: "u32 \<Rightarrow> 'd vfs_cache option" where
  "vfs_cache_create capacity =
     do {
       kassert (capacity \<noteq> 0);
       Some \<lparr>c_capacity = capacity, c_count = 0, c_items = [], c_lock = False\<rparr>
     }"

fun cache_flush_all ::
  "(u32 \<Rightarrow> 'd \<Rightarrow> 's \<Rightarrow> 's option) \<Rightarrow> (u32 \<times> 'd) list \<Rightarrow> 's \<Rightarrow> 's option" where
  "cache_flush_all flush [] s = Some s"
| "cache_flush_all flush ((ino, d) # xs) s = do { s \<leftarrow> flush ino d s; cache_flush_all flush xs s }"

definition vfs_cache_destroy ::
  "(u32 \<Rightarrow> 'd \<Rightarrow> 's \<Rightarrow> 's option) \<Rightarrow> 'd vfs_cache \<Rightarrow> 's \<Rightarrow> ('d vfs_cache \<times> 's) option" where
  "vfs_cache_destroy flush c s =
     do {
       s \<leftarrow> cache_flush_all flush (c_items c) s;
       Some (c\<lparr>c_items := [], c_count := 0\<rparr>, s)
     }"

section \<open>The contract of a cache\<close>

text \<open>
  \<open>get\<close> returns the object of a key, loading it when the key has none and there is room, and does not
  come back when there is none; \<open>put\<close> is a write through the pointer it returned; \<open>peek\<close> is the abstract
  map from keys to objects. Only a load may change the state beside the cache.
\<close>

locale object_cache =
  fixes get :: "'k \<Rightarrow> 'c \<times> 's \<Rightarrow> ('d \<times> 'c \<times> 's) option"
    and put :: "'k \<Rightarrow> 'd \<Rightarrow> 'c \<Rightarrow> 'c"
    and peek :: "'c \<Rightarrow> 'k \<Rightarrow> 'd option"
    and ok :: "'c \<Rightarrow> bool"
    and room :: "'c \<Rightarrow> bool"
    and load :: "'k \<Rightarrow> 's \<Rightarrow> ('d \<times> 's) option"
  assumes hit: "ok c \<Longrightarrow> peek c k = Some d \<Longrightarrow> get k (c, s) = Some (d, c, s)"
    and miss: "ok c \<Longrightarrow> peek c k = None \<Longrightarrow> room c \<Longrightarrow> load k s = Some (d, s') \<Longrightarrow>
      \<exists>c'. get k (c, s) = Some (d, c', s') \<and> ok c' \<and> peek c' = (peek c)(k \<mapsto> d)"
    and fails: "ok c \<Longrightarrow> peek c k = None \<Longrightarrow> load k s = None \<Longrightarrow> get k (c, s) = None"
    and full: "ok c \<Longrightarrow> peek c k = None \<Longrightarrow> \<not> room c \<Longrightarrow> get k (c, s) = None"
    and put_ok: "ok c \<Longrightarrow> peek c k \<noteq> None \<Longrightarrow> ok (put k d c)"
    and put_peek: "ok c \<Longrightarrow> peek c k \<noteq> None \<Longrightarrow> peek (put k d c) = (peek c)(k \<mapsto> d)"
begin

text \<open>What an access returns, and the state it leaves.\<close>

definition value_at :: "'c \<Rightarrow> 'k \<Rightarrow> 's \<Rightarrow> ('d \<times> 's) option" where
  "value_at c k s = (case peek c k of Some d \<Rightarrow> Some (d, s) | None \<Rightarrow> load k s)"

lemma get_value:
  assumes "ok c" and "get k (c, s) = Some (d, c', s')"
  shows "ok c'" "peek c' = (peek c)(k \<mapsto> d)" "value_at c k s = Some (d, s')"
proof -
  have *: "ok c' \<and> peek c' = (peek c)(k \<mapsto> d) \<and> value_at c k s = Some (d, s')"
  proof (cases "peek c k")
    case None
    from full [OF assms(1) None] assms(2) have r: "room c" by (cases "room c") auto
    from fails [OF assms(1) None] assms(2) obtain e t where l: "load k s = Some (e, t)"
      by (cases "load k s") auto
    from miss [OF assms(1) None r l] assms(2) l show ?thesis by (auto simp: value_at_def None)
  next
    case (Some x)
    with hit [OF assms(1) Some] assms show ?thesis by (auto simp: value_at_def fun_upd_idem_iff)
  qed
  then show "ok c'" "peek c' = (peek c)(k \<mapsto> d)" "value_at c k s = Some (d, s')" by blast+
qed

lemma get_returns:
  assumes "ok c" and "peek c k \<noteq> None \<or> room c" and "value_at c k s = Some (d, s')"
  obtains c' where "get k (c, s) = Some (d, c', s')"
  using assms hit [OF assms(1), of k _ s] miss [OF assms(1), of k s d s']
  by (cases "peek c k") (auto simp: value_at_def)

lemma get_idem:
  assumes "ok c" and "get k (c, s) = Some (d, c', s')"
  shows "get k (c', t) = Some (d, c', t)"
  using hit [OF get_value(1) [OF assms], of k d] get_value(2) [OF assms] by simp

lemma get_put_get:
  assumes "ok c" and "get k (c, s) = Some (d, c', s')"
  shows "get k (put k e c', t) = Some (e, put k e c', t)"
proof -
  note g = get_value [OF assms]
  have n: "peek c' k \<noteq> None" by (simp add: g(2))
  then show ?thesis by (intro hit put_ok g) (simp_all add: put_peek g(1))
qed

lemma get_put_other:
  assumes "ok c" and "get k (c, s) = Some (d, c', s')" and "j \<noteq> k"
  shows "peek (put k e c') j = peek c j" "value_at (put k e c') j = value_at c j"
proof -
  note g = get_value [OF assms(1,2)]
  have n: "peek c' k \<noteq> None" by (simp add: g(2))
  show p: "peek (put k e c') j = peek c j"
    by (simp add: put_peek [OF g(1) n] g(2) assms(3))
  show "value_at (put k e c') j = value_at c j" by (rule ext) (simp add: value_at_def p)
qed

end

section \<open>The cache of the kernel\<close>

definition cache_ok :: "'d vfs_cache \<Rightarrow> bool" where
  "cache_ok c \<longleftrightarrow> distinct (map fst (c_items c)) \<and> unat (c_count c) = length (c_items c)
     \<and> c_count c \<le> c_capacity c \<and> \<not> c_lock c"

definition cache_room :: "'d vfs_cache \<Rightarrow> bool" where
  "cache_room c \<longleftrightarrow> c_count c < c_capacity c"

definition cache_peek :: "'d vfs_cache \<Rightarrow> u32 \<Rightarrow> 'd option" where
  "cache_peek c = map_of (c_items c)"

lemma cache_ok_items:
  assumes "cache_ok c"
  shows "(if c_count c = 0 then None else map_of (c_items c) ino) = cache_peek c ino"
  using assms by (auto simp: cache_ok_def cache_peek_def)

lemma vfs_cache_get_hit:
  assumes "cache_ok c" and "cache_peek c ino = Some d"
  shows "vfs_cache_get load ino (c, s) = Some (d, c, s)"
  using assms cache_ok_items [of "c\<lparr>c_lock := True\<rparr>" ino]
  by (cases c) (auto simp: vfs_cache_get_def unsafe_vfs_get_inode_def lock_simps cache_ok_def
      cache_peek_def split: if_splits)

lemma vfs_cache_get_miss:
  assumes "cache_ok c" and "cache_peek c ino = None" and "cache_room c" and "load ino s = Some (d, s')"
  shows "vfs_cache_get load ino (c, s) =
    Some (d, c\<lparr>c_items := c_items c @ [(ino, d)], c_count := c_count c + 1\<rparr>, s')"
  using assms
  by (cases c) (auto simp: vfs_cache_get_def unsafe_vfs_get_inode_def lock_simps cache_ok_def
      cache_peek_def cache_room_def)

lemma vfs_cache_get_full:
  assumes "cache_ok c" and "cache_peek c ino = None" and "\<not> cache_room c \<or> load ino s = None"
  shows "vfs_cache_get load ino (c, s) = None"
  using assms
  by (cases c) (auto simp: vfs_cache_get_def unsafe_vfs_get_inode_def lock_simps cache_ok_def
      cache_peek_def cache_room_def)

lemma cache_append_ok:
  assumes "cache_ok c" and "cache_peek c ino = None" and "cache_room c"
  shows "cache_ok (c\<lparr>c_items := c_items c @ [(ino, d)], c_count := c_count c + 1\<rparr>)"
proof -
  have "unat (c_count c) < unat (c_capacity c)"
    using assms(3) by (simp add: cache_room_def word_less_nat_alt)
  then have u: "unat (c_count c + 1) = unat (c_count c) + 1"
    using unat_u32_less [of "c_capacity c"] by (intro unat_Suc_word) simp
  then have "c_count c + 1 \<le> c_capacity c"
    using \<open>unat (c_count c) < unat (c_capacity c)\<close> by (simp add: word_le_nat_alt)
  with assms u show ?thesis
    by (auto simp: cache_ok_def cache_peek_def map_of_eq_None_iff)
qed

lemma cache_append_peek:
  assumes "cache_peek c ino = None"
  shows "cache_peek (c\<lparr>c_items := c_items c @ [(ino, d)], c_count := k\<rparr>) = (cache_peek c)(ino \<mapsto> d)"
  using assms by (auto simp: cache_peek_def map_add_def fun_eq_iff split: option.splits)

lemma cache_put_peek: "cache_peek (cache_put ino d c) = (cache_peek c)(ino \<mapsto> d)"
  by (simp add: cache_peek_def cache_put_def update_conv')

lemma cache_put_sel [simp]:
  "c_capacity (cache_put ino d c) = c_capacity c" "c_count (cache_put ino d c) = c_count c"
  "c_lock (cache_put ino d c) = c_lock c"
  by (simp_all add: cache_put_def)

lemma cache_put_ok:
  assumes "cache_ok c" and "cache_peek c ino \<noteq> None"
  shows "cache_ok (cache_put ino d c)"
proof -
  have "ino \<in> fst ` set (c_items c)"
    using assms(2) by (auto simp: cache_peek_def map_of_eq_None_iff)
  then have "map fst (AList.update ino d (c_items c)) = map fst (c_items c)"
    by (simp add: update_keys)
  moreover from this have "length (AList.update ino d (c_items c)) = length (c_items c)"
    by (metis length_map)
  ultimately show ?thesis using assms(1) by (simp add: cache_ok_def cache_put_def)
qed

interpretation oc: object_cache "vfs_cache_get load" cache_put cache_peek cache_ok cache_room load
  for load :: "u32 \<Rightarrow> 's \<Rightarrow> ('d \<times> 's) option"
proof unfold_locales
  fix c :: "'d vfs_cache" and k d s s'
  assume a: "cache_ok c" "cache_peek c k = None" "cache_room c" and l: "load k s = Some (d, s')"
  show "\<exists>c'. vfs_cache_get load k (c, s) = Some (d, c', s') \<and> cache_ok c' \<and> cache_peek c' = (cache_peek c)(k \<mapsto> d)"
    using cache_append_ok [OF a] cache_append_peek [OF a(2)] vfs_cache_get_miss [OF a, of load s d s'] l by blast
qed (auto simp: vfs_cache_get_hit vfs_cache_get_full cache_put_ok cache_put_peek)

lemma vfs_cache_create_ok:
  assumes "vfs_cache_create cap = Some c"
  shows "cache_ok c" "cache_peek c = Map.empty" "cache_room c" "c_capacity c = cap"
  using assms by (auto simp: vfs_cache_create_def cache_ok_def cache_peek_def cache_room_def
      word_neq_0_conv split: if_splits)

text \<open>A cache that holds the key returns the object kept under it and leaves the state alone; without the
  key and with room it returns the object the file system loads. The next access returns what was
  written through that pointer, without loading, and the objects of all other keys are those of
  before. An access comes back unless the key is absent and the cache full or the load stuck.\<close>

lemma vfs_cache_get_put:
  assumes "cache_ok c"
  shows "case vfs_cache_get load ino (c, s) of
      None \<Rightarrow> cache_peek c ino = None \<and> (c_count c = c_capacity c \<or> load ino s = None)
    | Some (d, c', s') \<Rightarrow>
        (case cache_peek c ino of Some e \<Rightarrow> Some (e, s) | None \<Rightarrow> load ino s) = Some (d, s')
        \<and> cache_ok (cache_put ino d' c')
        \<and> vfs_cache_get load ino (cache_put ino d' c', t) = Some (d', cache_put ino d' c', t)
        \<and> (cache_peek (cache_put ino d' c'))(ino := None) = (cache_peek c)(ino := None)"
proof (cases "vfs_cache_get load ino (c, s)")
  case None
  have "cache_peek c ino = None" using None vfs_cache_get_hit [OF assms, of ino _ load s] by (cases "cache_peek c ino") auto
  moreover have "\<not> cache_room c \<or> load ino s = None"
    using None vfs_cache_get_miss [OF assms calculation, of load s] by (cases "load ino s") auto
  ultimately show ?thesis using None assms by (auto simp: cache_room_def cache_ok_def)
next
  case (Some r)
  obtain d c' s' where r: "r = (d, c', s')" by (cases r) auto
  note g = Some [unfolded r]
  note v = oc.get_value [OF assms g]
  have "cache_ok (cache_put ino d' c')" using v(1,2) by (intro cache_put_ok) simp_all
  moreover have "(case cache_peek c ino of Some e \<Rightarrow> Some (e, s) | None \<Rightarrow> load ino s) = Some (d, s')"
    using v(3) by (simp add: oc.value_at_def)
  ultimately show ?thesis using oc.get_put_get [OF assms g, of d' t] v(2) by (simp add: g cache_put_peek)
qed

lemma vfs_cache_get_put_demo:
  "cache_ok \<lparr>c_capacity = 2, c_count = 1, c_items = [(7, ''a'')], c_lock = False\<rparr>
   \<and> vfs_cache_get (\<lambda>k n. Some (''new'', n + 1)) 9
       (\<lparr>c_capacity = 2, c_count = 1, c_items = [(7, ''a'')], c_lock = False\<rparr>, 0)
     = Some (''new'', \<lparr>c_capacity = 2, c_count = 2, c_items = [(7, ''a''), (9, ''new'')], c_lock = False\<rparr>, 1 :: nat)
   \<and> vfs_cache_get (\<lambda>k n. Some (''new'', n + 1)) 9
       (cache_put 9 ''b'' \<lparr>c_capacity = 2, c_count = 2, c_items = [(7, ''a''), (9, ''new'')], c_lock = False\<rparr>, 1 :: nat)
     = Some (''b'', cache_put 9 ''b'' \<lparr>c_capacity = 2, c_count = 2, c_items = [(7, ''a''), (9, ''new'')], c_lock = False\<rparr>, 1)"
proof -
  let ?c = "\<lparr>c_capacity = 2, c_count = 1, c_items = [(7, ''a'')], c_lock = False\<rparr> :: string vfs_cache"
  have ok: "cache_ok ?c" by (simp add: cache_ok_def)
  have g: "vfs_cache_get (\<lambda>k n. Some (''new'', n + 1)) 9 (?c, 0)
      = Some (''new'', \<lparr>c_capacity = 2, c_count = 2, c_items = [(7, ''a''), (9, ''new'')], c_lock = False\<rparr>, 1 :: nat)"
    by code_simp
  from vfs_cache_get_put [OF ok, where load = "\<lambda>k n. Some (''new'', n + 1 :: nat)" and ino = 9 and s = 0 and d' = "''b''" and t = 1]
  show ?thesis unfolding g by (simp add: ok g)
qed

end
