(* ===== verification/Vfs_State.thy ===== *)
theory Vfs_State
  imports Vfs_Cache
begin

text \<open>
  The state of the file system code: the records of \<^verbatim>\<open>include/aplus/vfs.h\<close>, the part of the current task
  it works on, and the directory cache of \<^verbatim>\<open>kernel/fs/dcache.c\<close>. Inodes and super blocks live at
  addresses; an address that holds no object is a dangling pointer and dereferencing it has no
  result. A table of operations holds, for each operation, the file system that implements it.
\<close>

section \<open>Constants of the C library\<close>

definition EPERM :: int where "EPERM = 1"
definition ENOENT :: int where "ENOENT = 2"
definition EBADF :: int where "EBADF = 9"
definition EACCES :: int where "EACCES = 13"
definition EFAULT :: int where "EFAULT = 14"
definition EEXIST :: int where "EEXIST = 17"
definition ENOTDIR :: int where "ENOTDIR = 20"
definition EINVAL :: int where "EINVAL = 22"
definition EMFILE :: int where "EMFILE = 24"
definition ENOSPC :: int where "ENOSPC = 28"
definition ESPIPE :: int where "ESPIPE = 29"
definition EROFS :: int where "EROFS = 30"
definition ENOSYS :: int where "ENOSYS = 88"
definition ENOTEMPTY :: int where "ENOTEMPTY = 90"

lemmas errno_defs =
  EPERM_def ENOENT_def EBADF_def EACCES_def EFAULT_def EEXIST_def ENOTDIR_def EINVAL_def
  EMFILE_def ENOSPC_def ESPIPE_def EROFS_def ENOSYS_def ENOTEMPTY_def

definition S_IFMT :: u32 where "S_IFMT = 0xF000"
definition S_IFIFO :: u32 where "S_IFIFO = 0x1000"
definition S_IFCHR :: u32 where "S_IFCHR = 0x2000"
definition S_IFDIR :: u32 where "S_IFDIR = 0x4000"
definition S_IFBLK :: u32 where "S_IFBLK = 0x6000"
definition S_IFREG :: u32 where "S_IFREG = 0x8000"
definition S_IFLNK :: u32 where "S_IFLNK = 0xA000"
definition S_IFSOCK :: u32 where "S_IFSOCK = 0xC000"

definition S_ISFIFO :: "u32 \<Rightarrow> bool" where "S_ISFIFO m = (m AND S_IFMT = S_IFIFO)"
definition S_ISDIR :: "u32 \<Rightarrow> bool" where "S_ISDIR m = (m AND S_IFMT = S_IFDIR)"
definition S_ISREG :: "u32 \<Rightarrow> bool" where "S_ISREG m = (m AND S_IFMT = S_IFREG)"
definition S_ISLNK :: "u32 \<Rightarrow> bool" where "S_ISLNK m = (m AND S_IFMT = S_IFLNK)"

lemmas mode_defs =
  S_IFMT_def S_IFIFO_def S_IFCHR_def S_IFDIR_def S_IFBLK_def S_IFREG_def S_IFLNK_def S_IFSOCK_def
  S_ISFIFO_def S_ISDIR_def S_ISREG_def S_ISLNK_def

text \<open>\<^verbatim>\<open>MAXNAMLEN\<close>, the size of the name buffers of an inode and of a directory entry.\<close>

definition MAXNAMLEN :: nat where "MAXNAMLEN = 255"

record stat =
  st_dev :: u32
  st_ino :: u32
  st_mode :: u32
  st_nlink :: u32
  st_uid :: u32
  st_gid :: u32
  st_rdev :: u32
  st_size :: u32
  st_blksize :: u32
  st_blocks :: u32
  st_atime :: u32
  st_mtime :: u32
  st_ctime :: u32

definition stat_zero :: stat where
  "stat_zero = \<lparr>st_dev = 0, st_ino = 0, st_mode = 0, st_nlink = 0, st_uid = 0, st_gid = 0, st_rdev = 0,
     st_size = 0, st_blksize = 0, st_blocks = 0, st_atime = 0, st_mtime = 0, st_ctime = 0\<rparr>"

record statvfs =
  f_bsize :: u32
  f_frsize :: u32
  f_blocks :: u32
  f_bfree :: u32
  f_bavail :: u32
  f_files :: u32
  f_ffree :: u32
  f_favail :: u32
  f_flag :: u32
  f_fsid :: u32
  f_namemax :: u32

definition statvfs_zero :: statvfs where
  "statvfs_zero = \<lparr>f_bsize = 0, f_frsize = 0, f_blocks = 0, f_bfree = 0, f_bavail = 0, f_files = 0,
     f_ffree = 0, f_favail = 0, f_flag = 0, f_fsid = 0, f_namemax = 0\<rparr>"

text \<open>
  \<^verbatim>\<open>struct dirent\<close>: two 32-bit words, a 16-bit record length, a type byte and a name with its
  terminator, rounded up to a multiple of four bytes.
\<close>

definition DIRENT_SIZE :: nat where "DIRENT_SIZE = 268"

record dirent =
  d_ino :: u32
  d_off :: u32
  d_reclen :: u16
  d_type :: byte
  d_name :: string

section \<open>State\<close>

type_synonym iptr = nat
type_synonym sptr = nat

text \<open>A user string argument: its address and the characters before the terminator.\<close>

type_synonym ustr = "u32 \<times> string"

text \<open>
  The entries of \<^verbatim>\<open>struct inode_ops\<close>, and the file systems whose functions they point to:
  \<^verbatim>\<open>i_ops i Oread = Some Tmpfs\<close> stands for \<^verbatim>\<open>inode->ops.read = tmpfs_read\<close>.
\<close>

datatype vop =
    Oopen | Oclose | Oioctl | Ogetattr | Osetattr | Osetxattr | Ogetxattr | Olistxattr | Oremovexattr
  | Otruncate | Ofsync | Oread | Owrite | Oreadlink | Ocreat | Ofinddir | Oreaddir | Orename | Osymlink
  | Ounlink

datatype fsimpl = Rootfs | Bindfs | Tmpfs | Ext2 | Device

type_synonym inode_ops = "vop \<Rightarrow> fsimpl option"

record inode =
  i_name :: string
  i_ino :: u32
  i_sb :: "sptr option"
  i_ops :: inode_ops
  i_parent :: "iptr option"
  i_lock :: bool

text \<open>
  The contents of a tmpfs file: no block, a block of the heap whose bytes may be uninitialised
  (\<open>None\<close>), or a block that was freed.
\<close>

datatype tdata = TNull | TData "byte option list" | TFreed

record tmpfs_inode =
  ti_st :: stat
  ti_capacity :: u32
  ti_data :: tdata

text \<open>
  ext2: of the super block and of an inode of the disk the fields that the driver reads, and the data
  of a mounted volume (\<^verbatim>\<open>ext2_t\<close>). \<open>e2_cache\<close> is the buffer of one block. The object cache of a super block
  holds objects of its file system; the one of ext2 is \<open>e2_icache\<close>.
\<close>

record ext2_super_block =
  s_inodes_count :: u32
  s_blocks_count :: u32
  s_free_blocks_count :: u32
  s_free_inodes_count :: u32
  s_first_data_block :: u32
  s_log_block_size :: u32
  s_log_frag_size :: u32
  s_blocks_per_group :: u32
  s_inodes_per_group :: u32
  s_magic :: u16
  s_rev_level :: u32
  s_inode_size :: u16
  s_feature_incompat :: u32

record ext2_inode =
  en_mode :: u16
  en_uid :: u16
  en_size :: u32
  en_atime :: u32
  en_ctime :: u32
  en_mtime :: u32
  en_gid :: u16
  en_links_count :: u16
  en_blocks :: u32
  en_block :: "u32 list"
  en_size_high :: u32

record ext2_t =
  e2_sb :: ext2_super_block
  e2_first_block_group :: u32
  e2_count_block_group :: u32
  e2_blocksize :: u32
  e2_inodesize :: u32
  e2_cache :: "byte option list"
  e2_lock :: bool
  e2_dev :: iptr
  e2_root :: iptr
  e2_icache :: "ext2_inode vfs_cache"

datatype fsinfo = NoInfo | TmpfsInfo "iptr list" | Ext2Info ext2_t

record superblock =
  sb_fsid :: u32
  sb_flags :: u32
  sb_dev :: "iptr option"
  sb_root :: iptr
  sb_ino :: u32
  sb_st :: statvfs
  sb_ops :: inode_ops
  sb_cache :: "tmpfs_inode vfs_cache"
  sb_info :: fsinfo

record fd =
  fd_inode :: "iptr option"
  fd_position :: u32
  fd_flags :: u32
  fd_lock :: bool

record iostat =
  io_rchar :: u64
  io_wchar :: u64
  io_syscr :: u64
  io_syscw :: u64
  io_read_bytes :: u64
  io_write_bytes :: u64

text \<open>
  The part of the current task that the file system code reads and writes, and the global state.
  \<open>fs_kstack\<close> stands for the addresses of the kernel's own buffers that are passed on, \<open>fs_chk\<close> answers \<^verbatim>\<open>ptr_check\<close>, \<open>fs_time\<close> is the clock during the call, \<open>fs_next\<close> is the next
  address that \<^verbatim>\<open>kcalloc\<close> hands out and \<open>fs_next_ino\<close> is the static counter of \<^verbatim>\<open>tmpfs_creat\<close>.
\<close>

record ftask =
  t_root :: iptr
  t_cwd :: iptr
  t_uid :: u32
  t_gid :: u32
  t_umask :: u32
  t_fd :: "fd list"
  t_iostat :: iostat
  t_lock :: bool

record fs =
  fs_inodes :: "iptr \<rightharpoonup> inode"
  fs_sbs :: "sptr \<rightharpoonup> superblock"
  fs_next :: nat
  fs_dcache :: "iptr list"
  fs_errno :: int
  fs_task :: ftask
  fs_next_ino :: u32
  fs_time :: u32
  fs_chk :: "u32 \<Rightarrow> u32 \<Rightarrow> bool"
  fs_kstack :: u32

abbreviation ptr_check :: "fs \<Rightarrow> u32 \<Rightarrow> u32 \<Rightarrow> bool" where
  "ptr_check s \<equiv> fs_chk s"

definition set_errno :: "int \<Rightarrow> fs \<Rightarrow> fs" where
  "set_errno e s = s\<lparr>fs_errno := e\<rparr>"

text \<open>Writing through a pointer to an inode or a super block.\<close>

definition upd_inode :: "iptr \<Rightarrow> (inode \<Rightarrow> inode) \<Rightarrow> fs \<Rightarrow> fs" where
  "upd_inode p f s = s\<lparr>fs_inodes := (fs_inodes s)(p := map_option f (fs_inodes s p))\<rparr>"

definition upd_sb :: "sptr \<Rightarrow> (superblock \<Rightarrow> superblock) \<Rightarrow> fs \<Rightarrow> fs" where
  "upd_sb p f s = s\<lparr>fs_sbs := (fs_sbs s)(p := map_option f (fs_sbs s p))\<rparr>"

text \<open>The critical sections of \<^verbatim>\<open>vfs.c\<close>: \<^verbatim>\<open>__lock(&inode->lock, ...)\<close> and its variants.\<close>

definition ilock_held :: "iptr \<Rightarrow> fs \<Rightarrow> bool" where
  "ilock_held p s = (case fs_inodes s p of None \<Rightarrow> False | Some i \<Rightarrow> i_lock i)"

definition with_ilock :: "iptr \<Rightarrow> (fs \<Rightarrow> ('a \<times> fs) option) \<Rightarrow> fs \<Rightarrow> ('a \<times> fs) option" where
  "with_ilock p = with_lock (ilock_held p) (\<lambda>b. upd_inode p (i_lock_update (\<lambda>_. b)))"

text \<open>
  \<^verbatim>\<open>strcmp\<close> on a name buffer of an inode. A name of \<^verbatim>\<open>MAXNAMLEN\<close> characters has no terminator in the
  buffer; comparing it with a string that starts with it reads on behind the buffer.
\<close>

definition name_eq :: "string \<Rightarrow> string \<Rightarrow> bool option" where
  "name_eq buf nm =
     (if length buf < MAXNAMLEN then Some (buf = nm)
      else if take MAXNAMLEN nm = take MAXNAMLEN buf then None else Some False)"

text \<open>The loop over a list of inodes that looks for a parent and a name.\<close>

fun find_child :: "(iptr \<rightharpoonup> inode) \<Rightarrow> iptr list \<Rightarrow> iptr \<Rightarrow> string \<Rightarrow> iptr option option" where
  "find_child m [] parent nm = Some None"
| "find_child m (e # es) parent nm =
     do {
       i \<leftarrow> m e;
       if i_parent i \<noteq> Some parent then find_child m es parent nm
       else do {
         b \<leftarrow> name_eq (i_name i) nm;
         if b then Some (Some e) else find_child m es parent nm
       }
     }"

section \<open>The directory cache\<close>

definition dcache_init :: "fs \<Rightarrow> fs" where
  "dcache_init s = s\<lparr>fs_dcache := []\<rparr>"

definition vfs_dcache_add :: "iptr \<Rightarrow> fs \<Rightarrow> fs option" where
  "vfs_dcache_add p s =
     do {
       kassert (p \<notin> set (fs_dcache s));
       Some (s\<lparr>fs_dcache := fs_dcache s @ [p]\<rparr>)
     }"

definition vfs_dcache_remove :: "iptr option \<Rightarrow> fs \<Rightarrow> fs option" where
  "vfs_dcache_remove q s =
     do {
       p \<leftarrow> q;
       kassert (p \<in> set (fs_dcache s));
       Some (s\<lparr>fs_dcache := remove1 p (fs_dcache s), fs_inodes := (fs_inodes s)(p := None)\<rparr>)
     }"

definition vfs_dcache_find :: "iptr \<Rightarrow> string \<Rightarrow> fs \<Rightarrow> iptr option option" where
  "vfs_dcache_find parent nm s = find_child (fs_inodes s) (fs_dcache s) parent nm"

section \<open>Implementations\<close>

text \<open>
  The implementations, one field per entry of \<^verbatim>\<open>struct inode_ops\<close>. Buffers the caller provides for
  the result are addresses; what is stored there is returned beside the return value. The bytes of a
  buffer that is read are passed with its address.
\<close>

record fsops =
  op_open :: "iptr \<Rightarrow> u32 \<Rightarrow> fs \<Rightarrow> (int \<times> fs) option"
  op_close :: "iptr \<Rightarrow> fs \<Rightarrow> (int \<times> fs) option"
  op_ioctl :: "iptr \<Rightarrow> u32 \<Rightarrow> u32 \<Rightarrow> fs \<Rightarrow> (int \<times> fs) option"
  op_getattr :: "iptr \<Rightarrow> u32 \<Rightarrow> fs \<Rightarrow> ((int \<times> stat option) \<times> fs) option"
  op_setattr :: "iptr \<Rightarrow> u32 \<times> stat \<Rightarrow> fs \<Rightarrow> (int \<times> fs) option"
  op_setxattr :: "iptr \<Rightarrow> ustr \<Rightarrow> u32 \<times> byte list \<Rightarrow> u32 \<Rightarrow> fs \<Rightarrow> (int \<times> fs) option"
  op_getxattr :: "iptr \<Rightarrow> ustr \<Rightarrow> u32 \<Rightarrow> u32 \<Rightarrow> fs \<Rightarrow> ((int \<times> byte option list) \<times> fs) option"
  op_listxattr :: "iptr \<Rightarrow> u32 \<Rightarrow> u32 \<Rightarrow> fs \<Rightarrow> ((int \<times> byte option list) \<times> fs) option"
  op_removexattr :: "iptr \<Rightarrow> ustr \<Rightarrow> fs \<Rightarrow> (int \<times> fs) option"
  op_truncate :: "iptr \<Rightarrow> u32 \<Rightarrow> fs \<Rightarrow> (int \<times> fs) option"
  op_fsync :: "iptr \<Rightarrow> u32 \<Rightarrow> fs \<Rightarrow> (int \<times> fs) option"
  op_read :: "iptr \<Rightarrow> u32 \<Rightarrow> u32 \<Rightarrow> u32 \<Rightarrow> fs \<Rightarrow> ((int \<times> byte option list) \<times> fs) option"
  op_write :: "iptr \<Rightarrow> u32 \<times> byte list \<Rightarrow> u32 \<Rightarrow> fs \<Rightarrow> (int \<times> fs) option"
  op_readlink :: "iptr \<Rightarrow> u32 \<Rightarrow> u32 \<Rightarrow> fs \<Rightarrow> ((int \<times> byte option list) \<times> fs) option"
  op_creat :: "iptr \<Rightarrow> ustr \<Rightarrow> u32 \<Rightarrow> fs \<Rightarrow> (iptr option \<times> fs) option"
  op_finddir :: "iptr \<Rightarrow> ustr \<Rightarrow> fs \<Rightarrow> (iptr option \<times> fs) option"
  op_readdir :: "iptr \<Rightarrow> u32 \<Rightarrow> u32 \<Rightarrow> u32 \<Rightarrow> fs \<Rightarrow> ((int \<times> dirent option list) \<times> fs) option"
  op_rename :: "iptr \<Rightarrow> ustr \<Rightarrow> ustr \<Rightarrow> fs \<Rightarrow> (int \<times> fs) option"
  op_symlink :: "iptr \<Rightarrow> ustr \<Rightarrow> ustr \<Rightarrow> fs \<Rightarrow> (int \<times> fs) option"
  op_unlink :: "iptr \<Rightarrow> ustr \<Rightarrow> fs \<Rightarrow> (int \<times> fs) option"

type_synonym dispatch = "fsimpl \<Rightarrow> fsops"

section \<open>State updates\<close>

lemma set_errno_sel [simp]:
  "fs_inodes (set_errno e s) = fs_inodes s" "fs_sbs (set_errno e s) = fs_sbs s"
  "fs_next (set_errno e s) = fs_next s" "fs_dcache (set_errno e s) = fs_dcache s"
  "fs_errno (set_errno e s) = e" "fs_task (set_errno e s) = fs_task s"
  "fs_next_ino (set_errno e s) = fs_next_ino s" "fs_time (set_errno e s) = fs_time s"
  "fs_chk (set_errno e s) = fs_chk s" "fs_kstack (set_errno e s) = fs_kstack s"
  by (simp_all add: set_errno_def)

lemma upd_inode_sel [simp]:
  "fs_inodes (upd_inode p f s) = (fs_inodes s)(p := map_option f (fs_inodes s p))"
  "fs_sbs (upd_inode p f s) = fs_sbs s" "fs_next (upd_inode p f s) = fs_next s"
  "fs_dcache (upd_inode p f s) = fs_dcache s" "fs_errno (upd_inode p f s) = fs_errno s"
  "fs_task (upd_inode p f s) = fs_task s" "fs_next_ino (upd_inode p f s) = fs_next_ino s"
  "fs_time (upd_inode p f s) = fs_time s" "fs_chk (upd_inode p f s) = fs_chk s"
  "fs_kstack (upd_inode p f s) = fs_kstack s"
  by (simp_all add: upd_inode_def)

lemma upd_sb_sel [simp]:
  "fs_inodes (upd_sb b f s) = fs_inodes s"
  "fs_sbs (upd_sb b f s) = (fs_sbs s)(b := map_option f (fs_sbs s b))"
  "fs_next (upd_sb b f s) = fs_next s" "fs_dcache (upd_sb b f s) = fs_dcache s"
  "fs_errno (upd_sb b f s) = fs_errno s" "fs_task (upd_sb b f s) = fs_task s"
  "fs_next_ino (upd_sb b f s) = fs_next_ino s" "fs_time (upd_sb b f s) = fs_time s"
  "fs_chk (upd_sb b f s) = fs_chk s" "fs_kstack (upd_sb b f s) = fs_kstack s"
  by (simp_all add: upd_sb_def)

lemma upd_inode_id:
  assumes "fs_inodes s p = Some i" and "f i = i"
  shows "upd_inode p f s = s"
  using assms by (cases s) (auto simp: upd_inode_def fun_upd_idem_iff)

lemma upd_sb_id:
  assumes "fs_sbs s b = Some sb" and "f sb = sb"
  shows "upd_sb b f s = s"
  using assms by (cases s) (auto simp: upd_sb_def fun_upd_idem_iff)

lemma upd_sb_eq:
  assumes "fs_sbs s b = Some sb"
  shows "upd_sb b f s = s\<lparr>fs_sbs := (fs_sbs s)(b \<mapsto> f sb)\<rparr>"
  using assms by (simp add: upd_sb_def)

text \<open>The state with the lock of an inode taken.\<close>

definition ilocked :: "iptr \<Rightarrow> fs \<Rightarrow> fs" where
  "ilocked p = upd_inode p (i_lock_update (\<lambda>_. True))"

lemma ilocked_sel [simp]:
  "fs_inodes (ilocked p s) = (fs_inodes s)(p := map_option (i_lock_update (\<lambda>_. True)) (fs_inodes s p))"
  "fs_sbs (ilocked p s) = fs_sbs s" "fs_next (ilocked p s) = fs_next s"
  "fs_dcache (ilocked p s) = fs_dcache s" "fs_errno (ilocked p s) = fs_errno s"
  "fs_task (ilocked p s) = fs_task s" "fs_next_ino (ilocked p s) = fs_next_ino s"
  "fs_time (ilocked p s) = fs_time s" "fs_chk (ilocked p s) = fs_chk s"
  "fs_kstack (ilocked p s) = fs_kstack s"
  by (simp_all add: ilocked_def)

lemma with_ilock_free:
  assumes "fs_inodes s p = Some i" and "\<not> i_lock i"
  shows "with_ilock p body s =
    map_option (\<lambda>(r, t). (r, upd_inode p (i_lock_update (\<lambda>_. False)) t)) (body (ilocked p s))"
  using assms by (simp add: with_ilock_def with_lock_free ilock_held_def ilocked_def)

lemma with_ilock_held:
  assumes "fs_inodes s p = Some i" and "i_lock i"
  shows "with_ilock p body s = None"
  using assms by (simp add: with_ilock_def with_lock_held ilock_held_def)

text \<open>A body that changes super blocks and \<^verbatim>\<open>errno\<close> only leaves the lock free again.\<close>

lemma with_ilock_sbs:
  assumes "fs_inodes s p = Some i" and "\<not> i_lock i"
    and "body (ilocked p s) = Some (r, (ilocked p s)\<lparr>fs_sbs := m, fs_errno := e\<rparr>)"
  shows "with_ilock p body s = Some (r, s\<lparr>fs_sbs := m, fs_errno := e\<rparr>)"
  using assms by (cases s) (auto simp: with_ilock_free upd_inode_def ilocked_def fun_upd_idem_iff)

end
