(* ===== verification/Vfs.thy ===== *)
theory Vfs
  imports Vfs_State
begin

text \<open>
  The functions of \<^verbatim>\<open>kernel/fs/vfs.c\<close>, which check their arguments, take the lock of the inode and call
  the operation that the file system installed, and the two small file systems \<^verbatim>\<open>rootfs.c\<close> and
  \<^verbatim>\<open>bindfs.c\<close>. The implementations are an argument of the functions, since bind mounts call back
  into them.
\<close>

section \<open>The operations of vfs.c\<close>

text \<open>
  The common end of the functions of \<^verbatim>\<open>vfs.c\<close>: with the operation installed, call it under the lock
  of the inode (\<^verbatim>\<open>__lock_return\<close>; \<^verbatim>\<open>__trylock_return\<close> panics where the former would wait), otherwise
  set \<^verbatim>\<open>errno\<close> and return the failure value.
\<close>

definition vfs_call ::
  "vop \<Rightarrow> int \<Rightarrow> 'a \<Rightarrow> (fsimpl \<Rightarrow> fs \<Rightarrow> ('a \<times> fs) option) \<Rightarrow> iptr \<Rightarrow> fs \<Rightarrow> ('a \<times> fs) option" where
  "vfs_call op err failed f p s =
     do {
       i \<leftarrow> fs_inodes s p;
       case i_ops i op of
         Some im \<Rightarrow> with_ilock p (f im) s
       | None \<Rightarrow> Some (failed, set_errno err s)
     }"

text \<open>The dereference behind \<^verbatim>\<open>DEBUG_ASSERT(inode)\<close>.\<close>

definition valid_inode :: "iptr \<Rightarrow> fs \<Rightarrow> unit option" where
  "valid_inode p s = kassert (fs_inodes s p \<noteq> None)"

definition vfs_open :: "dispatch \<Rightarrow> iptr \<Rightarrow> u32 \<Rightarrow> fs \<Rightarrow> (int \<times> fs) option" where
  "vfs_open D p flags = vfs_call Oopen ENOSYS (- 1) (\<lambda>im. op_open (D im) p flags) p"

definition vfs_close :: "dispatch \<Rightarrow> iptr \<Rightarrow> fs \<Rightarrow> (int \<times> fs) option" where
  "vfs_close D p = vfs_call Oclose ENOSYS (- 1) (\<lambda>im. op_close (D im) p) p"

definition vfs_ioctl :: "dispatch \<Rightarrow> iptr \<Rightarrow> u32 \<Rightarrow> u32 \<Rightarrow> fs \<Rightarrow> (int \<times> fs) option" where
  "vfs_ioctl D p req arg = vfs_call Oioctl ENOSYS (- 1) (\<lambda>im. op_ioctl (D im) p req arg) p"

definition vfs_getattr :: "dispatch \<Rightarrow> iptr \<Rightarrow> u32 \<Rightarrow> fs \<Rightarrow> ((int \<times> stat option) \<times> fs) option" where
  "vfs_getattr D p st s =
     do {
       valid_inode p s;
       kassert (st \<noteq> 0);
       if \<not> ptr_check s st (R_OK OR W_OK) then Some ((- 1, None), set_errno EFAULT s)
       else vfs_call Ogetattr ENOSYS (- 1, None) (\<lambda>im. op_getattr (D im) p st) p s
     }"

definition vfs_setattr :: "dispatch \<Rightarrow> iptr \<Rightarrow> u32 \<times> stat \<Rightarrow> fs \<Rightarrow> (int \<times> fs) option" where
  "vfs_setattr D p st s =
     do {
       valid_inode p s;
       kassert (fst st \<noteq> 0);
       if \<not> ptr_check s (fst st) R_OK then Some (- 1, set_errno EFAULT s)
       else vfs_call Osetattr EROFS (- 1) (\<lambda>im. op_setattr (D im) p st) p s
     }"

definition vfs_setxattr ::
  "dispatch \<Rightarrow> iptr \<Rightarrow> ustr \<Rightarrow> u32 \<times> byte list \<Rightarrow> u32 \<Rightarrow> fs \<Rightarrow> (int \<times> fs) option" where
  "vfs_setxattr D p nm val flags s =
     do {
       valid_inode p s;
       kassert (fst nm \<noteq> 0);
       kassert (fst val \<noteq> 0);
       kassert (snd val \<noteq> []);
       if \<not> ptr_check s (fst nm) R_OK then Some (- 1, set_errno EFAULT s)
       else if \<not> ptr_check s (fst val) R_OK then Some (- 1, set_errno EFAULT s)
       else vfs_call Osetxattr EROFS (- 1) (\<lambda>im. op_setxattr (D im) p nm val flags) p s
     }"

definition vfs_getxattr ::
  "dispatch \<Rightarrow> iptr \<Rightarrow> ustr \<Rightarrow> u32 \<Rightarrow> u32 \<Rightarrow> fs \<Rightarrow> ((int \<times> byte option list) \<times> fs) option" where
  "vfs_getxattr D p nm val sz s =
     do {
       valid_inode p s;
       kassert (fst nm \<noteq> 0);
       kassert (val \<noteq> 0);
       kassert (sz \<noteq> 0);
       if \<not> ptr_check s (fst nm) R_OK then Some ((- 1, []), set_errno EFAULT s)
       else if \<not> ptr_check s val (R_OK OR W_OK) then Some ((- 1, []), set_errno EFAULT s)
       else vfs_call Ogetxattr ENOSYS (- 1, []) (\<lambda>im. op_getxattr (D im) p nm val sz) p s
     }"

definition vfs_listxattr ::
  "dispatch \<Rightarrow> iptr \<Rightarrow> u32 \<Rightarrow> u32 \<Rightarrow> fs \<Rightarrow> ((int \<times> byte option list) \<times> fs) option" where
  "vfs_listxattr D p buf sz s =
     do {
       valid_inode p s;
       kassert (buf \<noteq> 0);
       kassert (sz \<noteq> 0);
       if \<not> ptr_check s buf (R_OK OR W_OK) then Some ((- 1, []), set_errno EFAULT s)
       else vfs_call Olistxattr ENOSYS (- 1, []) (\<lambda>im. op_listxattr (D im) p buf sz) p s
     }"

definition vfs_removexattr :: "dispatch \<Rightarrow> iptr \<Rightarrow> ustr \<Rightarrow> fs \<Rightarrow> (int \<times> fs) option" where
  "vfs_removexattr D p nm s =
     do {
       valid_inode p s;
       kassert (fst nm \<noteq> 0);
       if \<not> ptr_check s (fst nm) R_OK then Some (- 1, set_errno EFAULT s)
       else vfs_call Oremovexattr EROFS (- 1) (\<lambda>im. op_removexattr (D im) p nm) p s
     }"

definition vfs_truncate :: "dispatch \<Rightarrow> iptr \<Rightarrow> u32 \<Rightarrow> fs \<Rightarrow> (int \<times> fs) option" where
  "vfs_truncate D p len = vfs_call Otruncate EROFS (- 1) (\<lambda>im. op_truncate (D im) p len) p"

definition vfs_fsync :: "dispatch \<Rightarrow> iptr \<Rightarrow> u32 \<Rightarrow> fs \<Rightarrow> (int \<times> fs) option" where
  "vfs_fsync D p datasync = vfs_call Ofsync ENOSYS (- 1) (\<lambda>im. op_fsync (D im) p datasync) p"

definition vfs_read ::
  "dispatch \<Rightarrow> iptr \<Rightarrow> u32 \<Rightarrow> u32 \<Rightarrow> u32 \<Rightarrow> fs \<Rightarrow> ((int \<times> byte option list) \<times> fs) option" where
  "vfs_read D p buf off sz s =
     do {
       valid_inode p s;
       kassert (buf \<noteq> 0);
       kassert (sz \<noteq> 0);
       if \<not> ptr_check s buf (R_OK OR W_OK) then Some ((- 1, []), set_errno EFAULT s)
       else vfs_call Oread ENOSYS (- 1, []) (\<lambda>im. op_read (D im) p buf off sz) p s
     }"

definition vfs_write :: "dispatch \<Rightarrow> iptr \<Rightarrow> u32 \<times> byte list \<Rightarrow> u32 \<Rightarrow> fs \<Rightarrow> (int \<times> fs) option" where
  "vfs_write D p buf off s =
     do {
       valid_inode p s;
       kassert (fst buf \<noteq> 0);
       kassert (snd buf \<noteq> []);
       if \<not> ptr_check s (fst buf) R_OK then Some (- 1, set_errno EFAULT s)
       else vfs_call Owrite ENOSYS (- 1) (\<lambda>im. op_write (D im) p buf off) p s
     }"

definition vfs_readlink ::
  "dispatch \<Rightarrow> iptr \<Rightarrow> u32 \<Rightarrow> u32 \<Rightarrow> fs \<Rightarrow> ((int \<times> byte option list) \<times> fs) option" where
  "vfs_readlink D p buf sz s =
     do {
       valid_inode p s;
       kassert (buf \<noteq> 0);
       kassert (sz \<noteq> 0);
       if \<not> ptr_check s buf (R_OK OR W_OK) then Some ((- 1, []), set_errno EFAULT s)
       else vfs_call Oreadlink ENOSYS (- 1, []) (\<lambda>im. op_readlink (D im) p buf sz) p s
     }"

text \<open>The names that directories answer for themselves.\<close>

definition is_dot :: "string \<Rightarrow> bool" where
  "is_dot nm = (nm = ''.'')"

definition is_dotdot :: "string \<Rightarrow> bool" where
  "is_dotdot nm = (nm = ''..'')"

text \<open>An inode that an operation returned enters the directory cache when it lies in the directory.\<close>

definition dcache_note :: "iptr \<Rightarrow> iptr option \<times> fs \<Rightarrow> (iptr option \<times> fs) option" where
  "dcache_note p x =
     (case x of
        (None, s) \<Rightarrow> Some (None, s)
      | (Some r, s) \<Rightarrow>
          do {
            j \<leftarrow> fs_inodes s r;
            if i_parent j = Some p then do { s \<leftarrow> vfs_dcache_add r s; Some (Some r, s) }
            else Some (Some r, s)
          })"

definition vfs_creat :: "dispatch \<Rightarrow> iptr \<Rightarrow> ustr \<Rightarrow> u32 \<Rightarrow> fs \<Rightarrow> (iptr option \<times> fs) option" where
  "vfs_creat D p nm mode s =
     do {
       valid_inode p s;
       kassert (fst nm \<noteq> 0);
       if \<not> ptr_check s (fst nm) R_OK then Some (None, set_errno EFAULT s)
       else if is_dot (snd nm) then Some (None, set_errno EEXIST s)
       else if is_dotdot (snd nm) then Some (None, set_errno EEXIST s)
       else vfs_call Ocreat ENOSYS None
              (\<lambda>im s. Option.bind (op_creat (D im) p nm mode s) (dcache_note p)) p s
     }"

definition vfs_finddir :: "dispatch \<Rightarrow> iptr \<Rightarrow> ustr \<Rightarrow> fs \<Rightarrow> (iptr option \<times> fs) option" where
  "vfs_finddir D p nm s =
     do {
       i \<leftarrow> fs_inodes s p;
       kassert (fst nm \<noteq> 0);
       if \<not> ptr_check s (fst nm) R_OK then Some (None, set_errno EFAULT s)
       else if is_dot (snd nm) then Some (Some p, s)
       else if is_dotdot (snd nm) then
         (if t_root (fs_task s) \<noteq> p \<or> i_parent i \<noteq> None then Some (i_parent i, s)
          else Some (None, set_errno ENOENT s))
       else do {
         r \<leftarrow> vfs_dcache_find p (snd nm) s;
         case r of
           Some q \<Rightarrow> Some (Some q, s)
         | None \<Rightarrow>
             vfs_call Ofinddir ENOSYS None
               (\<lambda>im s. Option.bind (op_finddir (D im) p nm s) (dcache_note p)) p s
       }
     }"

definition vfs_readdir ::
  "dispatch \<Rightarrow> iptr \<Rightarrow> u32 \<Rightarrow> u32 \<Rightarrow> u32 \<Rightarrow> fs \<Rightarrow> ((int \<times> dirent option list) \<times> fs) option" where
  "vfs_readdir D p ent off sz s =
     do {
       valid_inode p s;
       kassert (ent \<noteq> 0);
       kassert (sz \<noteq> 0);
       if \<not> ptr_check s ent (R_OK OR W_OK) then Some ((- 1, []), set_errno EFAULT s)
       else vfs_call Oreaddir ENOSYS (- 1, []) (\<lambda>im. op_readdir (D im) p ent off sz) p s
     }"

definition vfs_rename :: "dispatch \<Rightarrow> iptr \<Rightarrow> ustr \<Rightarrow> ustr \<Rightarrow> fs \<Rightarrow> (int \<times> fs) option" where
  "vfs_rename D p nm newnm s =
     do {
       valid_inode p s;
       kassert (fst nm \<noteq> 0);
       kassert (fst newnm \<noteq> 0);
       if \<not> ptr_check s (fst nm) R_OK then Some (- 1, set_errno EFAULT s)
       else if \<not> ptr_check s (fst newnm) R_OK then Some (- 1, set_errno EFAULT s)
       else if is_dot (snd nm) then Some (- 1, set_errno EINVAL s)
       else if is_dotdot (snd nm) then Some (- 1, set_errno EINVAL s)
       else if is_dot (snd newnm) then Some (- 1, set_errno EEXIST s)
       else if is_dotdot (snd newnm) then Some (- 1, set_errno EEXIST s)
       else vfs_call Orename EROFS (- 1) (\<lambda>im. op_rename (D im) p nm newnm) p s
     }"

definition vfs_symlink :: "dispatch \<Rightarrow> iptr \<Rightarrow> ustr \<Rightarrow> ustr \<Rightarrow> fs \<Rightarrow> (int \<times> fs) option" where
  "vfs_symlink D p nm target s =
     do {
       valid_inode p s;
       kassert (fst nm \<noteq> 0);
       kassert (fst target \<noteq> 0);
       if \<not> ptr_check s (fst nm) R_OK then Some (- 1, set_errno EFAULT s)
       else if \<not> ptr_check s (fst target) R_OK then Some (- 1, set_errno EFAULT s)
       else if is_dot (snd nm) then Some (- 1, set_errno EEXIST s)
       else if is_dotdot (snd nm) then Some (- 1, set_errno EEXIST s)
       else vfs_call Osymlink EROFS (- 1) (\<lambda>im. op_symlink (D im) p nm target) p s
     }"

definition vfs_unlink :: "dispatch \<Rightarrow> iptr \<Rightarrow> ustr \<Rightarrow> fs \<Rightarrow> (int \<times> fs) option" where
  "vfs_unlink D p nm s =
     do {
       valid_inode p s;
       kassert (fst nm \<noteq> 0);
       if \<not> ptr_check s (fst nm) R_OK then Some (- 1, set_errno EFAULT s)
       else if is_dot (snd nm) then Some (- 1, set_errno ENOTEMPTY s)
       else if is_dotdot (snd nm) then Some (- 1, set_errno ENOTEMPTY s)
       else vfs_call Ounlink EROFS (- 1)
              (\<lambda>im s. do {
                 (r, s) \<leftarrow> op_unlink (D im) p nm s;
                 if r = 0 then do {
                   q \<leftarrow> vfs_dcache_find p (snd nm) s;
                   s \<leftarrow> vfs_dcache_remove q s;
                   Some (r, s)
                 } else Some (r, s) }) p s
     }"

section \<open>The root file system\<close>

text \<open>\<^verbatim>\<open>_vfs_root\<close> is a static object; it has a fixed address.\<close>

definition vfs_root :: iptr where "vfs_root = 0"

definition rootfs_getattr :: "iptr \<Rightarrow> u32 \<Rightarrow> fs \<Rightarrow> ((int \<times> stat option) \<times> fs) option" where
  "rootfs_getattr p st s =
     Some ((0, Some \<lparr>st_dev = 0, st_ino = 1, st_mode = S_IFDIR OR 0x1B6, st_nlink = 1, st_uid = 0,
                      st_gid = 0, st_rdev = 0, st_size = 0, st_blksize = 1, st_blocks = 0,
                      st_atime = fs_time s, st_mtime = fs_time s, st_ctime = fs_time s\<rparr>), s)"

definition rootfs_init :: "fs \<Rightarrow> fs" where
  "rootfs_init s = s\<lparr>fs_inodes := (fs_inodes s)(vfs_root \<mapsto>
     \<lparr>i_name = ''/'', i_ino = 1, i_sb = None, i_ops = (\<lambda>_. None)(Ogetattr := Some Rootfs),
      i_parent = None, i_lock = False\<rparr>)\<rparr>"

text \<open>An implementation that installs no operation: calling one jumps through a null pointer.\<close>

definition no_ops :: fsops where
  "no_ops = \<lparr>op_open = \<lambda>_ _ _. None, op_close = \<lambda>_ _. None, op_ioctl = \<lambda>_ _ _ _. None,
     op_getattr = \<lambda>_ _ _. None, op_setattr = \<lambda>_ _ _. None, op_setxattr = \<lambda>_ _ _ _ _. None,
     op_getxattr = \<lambda>_ _ _ _ _. None, op_listxattr = \<lambda>_ _ _ _. None, op_removexattr = \<lambda>_ _ _. None,
     op_truncate = \<lambda>_ _ _. None, op_fsync = \<lambda>_ _ _. None, op_read = \<lambda>_ _ _ _ _. None,
     op_write = \<lambda>_ _ _ _. None, op_readlink = \<lambda>_ _ _ _. None, op_creat = \<lambda>_ _ _ _. None,
     op_finddir = \<lambda>_ _ _. None, op_readdir = \<lambda>_ _ _ _ _. None, op_rename = \<lambda>_ _ _ _. None,
     op_symlink = \<lambda>_ _ _ _. None, op_unlink = \<lambda>_ _ _. None\<rparr>"

definition rootfs_ops :: fsops where
  "rootfs_ops = no_ops\<lparr>op_getattr := rootfs_getattr\<rparr>"

section \<open>Bind mounts\<close>

text \<open>The head of the functions that the macro \<^verbatim>\<open>bind_fn\<close> declares, up to \<^verbatim>\<open>d = inode->sb->dev\<close>.\<close>

definition bind_dev :: "iptr \<Rightarrow> fs \<Rightarrow> iptr option" where
  "bind_dev p s =
     do {
       i \<leftarrow> fs_inodes s p;
       b \<leftarrow> i_sb i;
       sb \<leftarrow> fs_sbs s b;
       kassert (sb_fsid sb = 1);
       sb_dev sb
     }"

definition bindfs_getattr :: "dispatch \<Rightarrow> iptr \<Rightarrow> u32 \<Rightarrow> fs \<Rightarrow> ((int \<times> stat option) \<times> fs) option" where
  "bindfs_getattr D p st s = do { d \<leftarrow> bind_dev p s; vfs_getattr D d st s }"

definition bindfs_setattr :: "dispatch \<Rightarrow> iptr \<Rightarrow> u32 \<times> stat \<Rightarrow> fs \<Rightarrow> (int \<times> fs) option" where
  "bindfs_setattr D p st s = do { d \<leftarrow> bind_dev p s; vfs_setattr D d st s }"

definition bindfs_truncate :: "dispatch \<Rightarrow> iptr \<Rightarrow> u32 \<Rightarrow> fs \<Rightarrow> (int \<times> fs) option" where
  "bindfs_truncate D p off s = do { d \<leftarrow> bind_dev p s; vfs_truncate D d off s }"

definition bindfs_read ::
  "dispatch \<Rightarrow> iptr \<Rightarrow> u32 \<Rightarrow> u32 \<Rightarrow> u32 \<Rightarrow> fs \<Rightarrow> ((int \<times> byte option list) \<times> fs) option" where
  "bindfs_read D p buf off sz s = do { d \<leftarrow> bind_dev p s; vfs_read D d buf off sz s }"

definition bindfs_write :: "dispatch \<Rightarrow> iptr \<Rightarrow> u32 \<times> byte list \<Rightarrow> u32 \<Rightarrow> fs \<Rightarrow> (int \<times> fs) option" where
  "bindfs_write D p buf off s = do { d \<leftarrow> bind_dev p s; vfs_write D d buf off s }"

definition bindfs_readlink ::
  "dispatch \<Rightarrow> iptr \<Rightarrow> u32 \<Rightarrow> u32 \<Rightarrow> fs \<Rightarrow> ((int \<times> byte option list) \<times> fs) option" where
  "bindfs_readlink D p buf sz s = do { d \<leftarrow> bind_dev p s; vfs_readlink D d buf sz s }"

definition bindfs_creat :: "dispatch \<Rightarrow> iptr \<Rightarrow> ustr \<Rightarrow> u32 \<Rightarrow> fs \<Rightarrow> (iptr option \<times> fs) option" where
  "bindfs_creat D p nm mode s = do { d \<leftarrow> bind_dev p s; vfs_creat D d nm mode s }"

definition bindfs_finddir :: "dispatch \<Rightarrow> iptr \<Rightarrow> ustr \<Rightarrow> fs \<Rightarrow> (iptr option \<times> fs) option" where
  "bindfs_finddir D p nm s = do { d \<leftarrow> bind_dev p s; vfs_finddir D d nm s }"

definition bindfs_readdir ::
  "dispatch \<Rightarrow> iptr \<Rightarrow> u32 \<Rightarrow> u32 \<Rightarrow> u32 \<Rightarrow> fs \<Rightarrow> ((int \<times> dirent option list) \<times> fs) option" where
  "bindfs_readdir D p e off sz s = do { d \<leftarrow> bind_dev p s; vfs_readdir D d e off sz s }"

definition bindfs_rename :: "dispatch \<Rightarrow> iptr \<Rightarrow> ustr \<Rightarrow> ustr \<Rightarrow> fs \<Rightarrow> (int \<times> fs) option" where
  "bindfs_rename D p ol nw s = do { d \<leftarrow> bind_dev p s; vfs_rename D d ol nw s }"

definition bindfs_symlink :: "dispatch \<Rightarrow> iptr \<Rightarrow> ustr \<Rightarrow> ustr \<Rightarrow> fs \<Rightarrow> (int \<times> fs) option" where
  "bindfs_symlink D p ol nw s = do { d \<leftarrow> bind_dev p s; vfs_symlink D d ol nw s }"

definition bindfs_unlink :: "dispatch \<Rightarrow> iptr \<Rightarrow> ustr \<Rightarrow> fs \<Rightarrow> (int \<times> fs) option" where
  "bindfs_unlink D p ol s = do { d \<leftarrow> bind_dev p s; vfs_unlink D d ol s }"

definition bindfs_ops :: "dispatch \<Rightarrow> fsops" where
  "bindfs_ops D = no_ops\<lparr>op_getattr := bindfs_getattr D, op_setattr := bindfs_setattr D,
     op_truncate := bindfs_truncate D, op_read := bindfs_read D, op_write := bindfs_write D,
     op_readlink := bindfs_readlink D, op_creat := bindfs_creat D, op_finddir := bindfs_finddir D,
     op_readdir := bindfs_readdir D, op_rename := bindfs_rename D, op_symlink := bindfs_symlink D,
     op_unlink := bindfs_unlink D\<rparr>"

text \<open>The object that \<^verbatim>\<open>kcalloc(sizeof(struct superblock), 1, ...)\<close> returns.\<close>

definition sb_zero :: superblock where
  "sb_zero = \<lparr>sb_fsid = 0, sb_flags = 0, sb_dev = None, sb_root = 0, sb_ino = 0, sb_st = statvfs_zero,
     sb_ops = (\<lambda>_. None), sb_cache = \<lparr>c_capacity = 0, c_count = 0, c_items = [], c_lock = False\<rparr>,
     sb_info = NoInfo\<rparr>"

definition new_sb :: "superblock \<Rightarrow> fs \<Rightarrow> sptr \<times> fs" where
  "new_sb sb s = (fs_next s, s\<lparr>fs_sbs := (fs_sbs s)(fs_next s \<mapsto> sb), fs_next := fs_next s + 1\<rparr>)"

text \<open>A table with the same implementation for a list of operations.\<close>

definition ops_of :: "fsimpl \<Rightarrow> vop list \<Rightarrow> inode_ops" where
  "ops_of im os = (\<lambda>o'. if o' \<in> set os then Some im else None)"

definition dir_vops :: "vop list" where
  "dir_vops = [Ogetattr, Osetattr, Ocreat, Ofinddir, Oreaddir, Orename, Osymlink, Ounlink]"

definition bindfs_mount :: "iptr option \<Rightarrow> iptr \<Rightarrow> u32 \<Rightarrow> fs \<Rightarrow> (int \<times> fs) option" where
  "bindfs_mount dev dir flags s =
     do {
       d \<leftarrow> dev;
       j \<leftarrow> fs_inodes s d;
       kassert (i_sb j \<noteq> None);
       i \<leftarrow> fs_inodes s dir;
       let (b, s) = new_sb (sb_zero\<lparr>sb_fsid := 1, sb_dev := dev, sb_root := dir, sb_flags := flags,
                              sb_info := NoInfo, sb_ino := i_ino i\<rparr>) s;
       let s = upd_inode dir (\<lambda>i. i\<lparr>i_sb := Some b\<rparr>) s;
       j \<leftarrow> fs_inodes s d;
       c \<leftarrow> i_sb j;
       dsb \<leftarrow> fs_sbs s c;
       let s = upd_sb b (\<lambda>sb. sb\<lparr>sb_st := sb_st dsb, sb_ops := ops_of Bindfs dir_vops\<rparr>) s;
       Some (0, s)
     }"

definition bindfs_umount :: "iptr \<Rightarrow> fs \<Rightarrow> (int \<times> fs) option" where
  "bindfs_umount dir s =
     do {
       i \<leftarrow> fs_inodes s dir;
       kassert (i_sb i \<noteq> None);
       Some (0, s)
     }"

section \<open>Mounting\<close>

definition TMPFS_ID :: u32 where "TMPFS_ID = 0xDEAD1000"
definition EXT2_ID :: u32 where "EXT2_ID = 0xDEAD1001"

text \<open>\<^verbatim>\<open>vfs_table\<close> as \<^verbatim>\<open>vfs_init\<close> fills it from \<^verbatim>\<open>fstable.c.in\<close>; the entries after it have id 0.\<close>

definition vfs_table :: "(u32 \<times> string \<times> fsimpl) list" where
  "vfs_table = [(1, ''bind'', Bindfs), (TMPFS_ID, ''tmpfs'', Tmpfs), (EXT2_ID, ''ext2'', Ext2)]"

definition vfs_init :: "fs \<Rightarrow> fs" where
  "vfs_init s = dcache_init (rootfs_init s)"

fun table_find :: "(u32 \<times> string \<times> fsimpl) list \<Rightarrow> string \<Rightarrow> fsimpl option" where
  "table_find [] nm = None"
| "table_find ((k, n, im) # xs) nm = (if k = 0 then None else if n = nm then Some im else table_find xs nm)"

text \<open>The exchange of the operations and the inode numbers (three exclusive ors) after a mount.\<close>

definition mount_swap :: "iptr \<Rightarrow> fs \<Rightarrow> fs option" where
  "mount_swap dir s =
     do {
       i \<leftarrow> fs_inodes s dir;
       b \<leftarrow> i_sb i;
       sb \<leftarrow> fs_sbs s b;
       let x = i_ino i XOR sb_ino sb;
       let y = sb_ino sb XOR x;
       let z = x XOR y;
       let s = upd_inode dir (\<lambda>i. i\<lparr>i_ops := sb_ops sb, i_ino := z\<rparr>) s;
       Some (upd_sb b (\<lambda>sb. sb\<lparr>sb_ops := i_ops i, sb_ino := y\<rparr>) s)
     }"

text \<open>
  \<^verbatim>\<open>(e = mount(...) < 0)\<close> stores the truth value of the comparison, so a failed mount returns 1.
\<close>

definition vfs_mount ::
  "(fsimpl \<Rightarrow> iptr option \<Rightarrow> iptr \<Rightarrow> u32 \<Rightarrow> fs \<Rightarrow> (int \<times> fs) option) \<Rightarrow>
   iptr option \<Rightarrow> iptr \<Rightarrow> ustr \<Rightarrow> u32 \<Rightarrow> u32 \<Rightarrow> fs \<Rightarrow> (int \<times> fs) option" where
  "vfs_mount M dev dir fs flags args s =
     do {
       valid_inode dir s;
       kassert (fst fs \<noteq> 0);
       if \<not> ptr_check s (fst fs) R_OK then Some (- 1, set_errno EFAULT s)
       else if args \<noteq> 0 \<and> \<not> ptr_check s args R_OK then Some (- 1, set_errno EFAULT s)
       else case table_find vfs_table (snd fs) of
              None \<Rightarrow> Some (- 1, set_errno EINVAL s)
            | Some im \<Rightarrow>
                do {
                  (e, s) \<leftarrow> M im dev dir flags s;
                  if e < 0 then Some (1, s)
                  else do {
                    s \<leftarrow> mount_swap dir s;
                    Some (0, s)
                  }
                }
     }"

end
