(* ===== verification/Tmpfs.thy ===== *)
theory Tmpfs
  imports Vfs
begin

text \<open>
  The memory file system of \<^verbatim>\<open>kernel/fs/tmpfs/\<close>: its cache operations, mount and unmount, and one
  definition per inode operation. A file is an item of the object cache of the super block, with its
  attributes and a block of the kernel heap; the directory entries are the list of child inodes of
  the super block. The theory proves that reads and writes inside a file act on one byte sequence
  (the contract \<open>byte_file\<close>).
\<close>

section \<open>Model\<close>

definition TMPFS_SIZE_MAX :: u32 where "TMPFS_SIZE_MAX = 4 * 1024 * 1024"
definition TMPFS_NODES_MAX :: u32 where "TMPFS_NODES_MAX = 4096"

text \<open>\<^verbatim>\<open>BUFSIZ\<close> of the C library.\<close>

definition BUFSIZ :: u32 where "BUFSIZ = 1024"

text \<open>The mount flags with the flag of the file system that each one sets.\<close>

definition mount_flags :: "(u32 \<times> u32) list" where
  "mount_flags = [(64, 64), (1024, 1024), (4, 4), (2048, 2048), (8, 8), (2, 2), (1, 1), (16, 16)]"

definition ST_SYNCHRONOUS :: u32 where "ST_SYNCHRONOUS = 16"
definition ST_NODEV :: u32 where "ST_NODEV = 4"

definition tmpfs_stflags :: "u32 \<Rightarrow> u32" where
  "tmpfs_stflags flags = fold (\<lambda>(a, b) r. if flags AND a \<noteq> 0 then r OR b else r) mount_flags 0"

text \<open>
  \<^verbatim>\<open>krealloc\<close>: the old contents up to the smaller size, then uninitialised bytes; a freed block may
  not be passed. The kernel allocator panics instead of returning a null pointer.
\<close>

definition krealloc :: "tdata \<Rightarrow> u32 \<Rightarrow> tdata option" where
  "krealloc d n =
     (case d of
        TNull \<Rightarrow> Some (TData (replicate (unat n) None))
      | TData xs \<Rightarrow> Some (TData (take (unat n) xs @ replicate (unat n - length xs) None))
      | TFreed \<Rightarrow> None)"

definition tdata_read :: "tdata \<Rightarrow> nat \<Rightarrow> nat \<Rightarrow> byte option list option" where
  "tdata_read d off n = (case d of TData xs \<Rightarrow> mem_slice xs off n | _ \<Rightarrow> None)"

definition tdata_write :: "tdata \<Rightarrow> nat \<Rightarrow> byte list \<Rightarrow> tdata option" where
  "tdata_write d off bs =
     (case d of TData xs \<Rightarrow> map_option TData (mem_store xs off (map Some bs)) | _ \<Rightarrow> None)"

definition tmpfs_cache_load :: "fs \<Rightarrow> u32 \<Rightarrow> tmpfs_inode" where
  "tmpfs_cache_load s ino =
     \<lparr>ti_st = stat_zero\<lparr>st_uid := t_uid (fs_task s), st_gid := t_gid (fs_task s), st_ino := ino,
        st_nlink := 1, st_blocks := 1, st_atime := fs_time s, st_mtime := fs_time s,
        st_ctime := fs_time s\<rparr>,
      ti_capacity = 0, ti_data = TNull\<rparr>"

definition tmpfs_cache_flush :: "u32 \<Rightarrow> tmpfs_inode \<Rightarrow> fs \<Rightarrow> fs option" where
  "tmpfs_cache_flush ino d s = Some s"

text \<open>\<^verbatim>\<open>vfs_cache_get(&inode->sb->cache, ino)\<close> and a write through the pointer it returns.\<close>

definition tmpfs_get :: "sptr \<Rightarrow> u32 \<Rightarrow> fs \<Rightarrow> (tmpfs_inode \<times> fs) option" where
  "tmpfs_get b ino s =
     do {
       sb \<leftarrow> fs_sbs s b;
       (d, c, s) \<leftarrow> vfs_cache_get (\<lambda>ino s. Some (tmpfs_cache_load s ino, s)) ino (sb_cache sb, s);
       Some (d, upd_sb b (\<lambda>sb. sb\<lparr>sb_cache := c\<rparr>) s)
     }"

definition tmpfs_put :: "sptr \<Rightarrow> u32 \<Rightarrow> tmpfs_inode \<Rightarrow> fs \<Rightarrow> fs" where
  "tmpfs_put b ino d = upd_sb b (\<lambda>sb. sb\<lparr>sb_cache := cache_put ino d (sb_cache sb)\<rparr>)"

text \<open>The assertions that every inode operation starts with.\<close>

definition tmpfs_sb :: "iptr \<Rightarrow> fs \<Rightarrow> (inode \<times> sptr \<times> superblock) option" where
  "tmpfs_sb p s =
     do {
       i \<leftarrow> fs_inodes s p;
       b \<leftarrow> i_sb i;
       sb \<leftarrow> fs_sbs s b;
       kassert (sb_fsid sb = TMPFS_ID);
       Some (i, b, sb)
     }"

definition tmpfs_children :: "superblock \<Rightarrow> iptr list option" where
  "tmpfs_children sb = (case sb_info sb of TmpfsInfo xs \<Rightarrow> Some xs | _ \<Rightarrow> None)"

definition upd_sb_st :: "sptr \<Rightarrow> (statvfs \<Rightarrow> statvfs) \<Rightarrow> fs \<Rightarrow> fs" where
  "upd_sb_st b f = upd_sb b (\<lambda>sb. sb\<lparr>sb_st := f (sb_st sb)\<rparr>)"

definition tmpfs_mount :: "iptr option \<Rightarrow> iptr \<Rightarrow> u32 \<Rightarrow> fs \<Rightarrow> (int \<times> fs) option" where
  "tmpfs_mount dev dir flags s =
     do {
       i \<leftarrow> fs_inodes s dir;
       kassert (dev = None);
       cache \<leftarrow> vfs_cache_create TMPFS_NODES_MAX;
       let (b, s) = new_sb (sb_zero\<lparr>sb_fsid := TMPFS_ID, sb_dev := dev, sb_root := dir,
             sb_flags := flags, sb_info := TmpfsInfo [],
             sb_st := \<lparr>f_bsize = 1, f_frsize = 1, f_blocks = TMPFS_SIZE_MAX, f_bfree = TMPFS_SIZE_MAX,
               f_bavail = TMPFS_SIZE_MAX, f_files = 0, f_ffree = TMPFS_NODES_MAX,
               f_favail = TMPFS_NODES_MAX,
               f_flag = ST_SYNCHRONOUS OR ST_NODEV OR tmpfs_stflags flags, f_fsid = TMPFS_ID,
               f_namemax = of_nat MAXNAMLEN\<rparr>,
             sb_ops := ops_of Tmpfs dir_vops, sb_cache := cache\<rparr>) s;
       let s = upd_inode dir (\<lambda>i. i\<lparr>i_sb := Some b\<rparr>) s;
       (r, s) \<leftarrow> tmpfs_get b (i_ino i) s;
       let m = (st_mode (ti_st r) AND NOT S_IFMT) OR S_IFMT;
       let s = tmpfs_put b (i_ino i) (r\<lparr>ti_st := (ti_st r)\<lparr>st_mode := m\<rparr>\<rparr>) s;
       Some (0, upd_sb b (\<lambda>sb. sb\<lparr>sb_ino := i_ino i\<rparr>) s)
     }"

fun free_inodes :: "iptr list \<Rightarrow> (iptr \<rightharpoonup> inode) \<Rightarrow> (iptr \<rightharpoonup> inode)" where
  "free_inodes [] m = m"
| "free_inodes (x # xs) m = free_inodes xs (m(x := None))"

definition tmpfs_umount :: "iptr \<Rightarrow> fs \<Rightarrow> (int \<times> fs) option" where
  "tmpfs_umount dir s =
     do {
       (i, b, sb) \<leftarrow> tmpfs_sb dir s;
       kassert (sb_root sb = dir);
       cs \<leftarrow> tmpfs_children sb;
       let s = s\<lparr>fs_inodes := free_inodes cs (fs_inodes s)\<rparr>;
       (c, s) \<leftarrow> vfs_cache_destroy tmpfs_cache_flush (sb_cache sb) s;
       Some (0, upd_sb b (\<lambda>sb. sb\<lparr>sb_info := NoInfo, sb_cache := c\<rparr>) s)
     }"

definition tmpfs_getattr :: "iptr \<Rightarrow> u32 \<Rightarrow> fs \<Rightarrow> ((int \<times> stat option) \<times> fs) option" where
  "tmpfs_getattr p st s =
     do {
       (i, b, sb) \<leftarrow> tmpfs_sb p s;
       kassert (st \<noteq> 0);
       (n, s) \<leftarrow> tmpfs_get b (i_ino i) s;
       Some ((0, Some (ti_st n)), s)
     }"

definition tmpfs_setattr :: "iptr \<Rightarrow> u32 \<times> stat \<Rightarrow> fs \<Rightarrow> (int \<times> fs) option" where
  "tmpfs_setattr p st s =
     do {
       (i, b, sb) \<leftarrow> tmpfs_sb p s;
       kassert (fst st \<noteq> 0);
       (n, s) \<leftarrow> tmpfs_get b (i_ino i) s;
       let t = (ti_st n)\<lparr>st_mode := st_mode (snd st), st_uid := st_uid (snd st),
                 st_gid := st_gid (snd st), st_atime := st_atime (snd st),
                 st_mtime := st_mtime (snd st), st_ctime := st_ctime (snd st)\<rparr>;
       Some (0, tmpfs_put b (i_ino i) (n\<lparr>ti_st := t\<rparr>) s)
     }"

text \<open>\<^verbatim>\<open>off_t\<close> is signed, so the comparison of \<^verbatim>\<open>tmpfs_truncate\<close> is.\<close>

definition tmpfs_truncate :: "iptr \<Rightarrow> u32 \<Rightarrow> fs \<Rightarrow> (int \<times> fs) option" where
  "tmpfs_truncate p len s =
     do {
       (i, b, sb) \<leftarrow> tmpfs_sb p s;
       (n, s) \<leftarrow> tmpfs_get b (i_ino i) s;
       if sint (st_size (ti_st n)) \<le> sint len then Some (0, s)
       else do {
         let n = n\<lparr>ti_capacity := BUFSIZ + len, ti_st := (ti_st n)\<lparr>st_size := len\<rparr>\<rparr>;
         d \<leftarrow> krealloc (ti_data n) (ti_capacity n);
         let n = n\<lparr>ti_data := d\<rparr>;
         let s = upd_sb_st b (\<lambda>v. v\<lparr>f_bfree := f_bfree v - (st_size (ti_st n) - len),
                                    f_bavail := f_bavail v - (st_size (ti_st n) - len)\<rparr>) s;
         Some (0, tmpfs_put b (i_ino i) n s)
       }
     }"

text \<open>\<^verbatim>\<open>pos + len\<close> mixes \<^verbatim>\<open>off_t\<close> and \<^verbatim>\<open>size_t\<close>, so it is compared without sign.\<close>

definition tmpfs_read ::
  "iptr \<Rightarrow> u32 \<Rightarrow> u32 \<Rightarrow> u32 \<Rightarrow> fs \<Rightarrow> ((int \<times> byte option list) \<times> fs) option" where
  "tmpfs_read p buf pos len s =
     do {
       (i, b, sb) \<leftarrow> tmpfs_sb p s;
       kassert (buf \<noteq> 0);
       kassert (len \<noteq> 0);
       (n, s) \<leftarrow> tmpfs_get b (i_ino i) s;
       if ti_data n = TNull then Some ((0, []), s)
       else do {
         let l = (if pos + len > st_size (ti_st n) then st_size (ti_st n) - pos else len);
         bs \<leftarrow> (if l > 0 then tdata_read (ti_data n) (unat pos) (unat l) else Some []);
         Some ((sint l, bs), s)
       }
     }"

text \<open>The subtraction of two values of type \<^verbatim>\<open>long\<close>; an overflow is undefined.\<close>

definition long_sub :: "u32 \<Rightarrow> u32 \<Rightarrow> int option" where
  "long_sub x y = (let d = sint x - sint y in if - (2 ^ 31) \<le> d \<and> d < 2 ^ 31 then Some d else None)"

text \<open>The growth of the file to \<open>stop\<close> bytes; \<open>None\<close> inside the result is the failure \<^verbatim>\<open>ENOSPC\<close>.\<close>

definition tmpfs_grow :: "sptr \<Rightarrow> u32 \<Rightarrow> tmpfs_inode \<Rightarrow> fs \<Rightarrow> (tmpfs_inode option \<times> fs) option" where
  "tmpfs_grow b stop n s =
     do {
       sb \<leftarrow> fs_sbs s b;
       left \<leftarrow> long_sub (f_bavail (sb_st sb)) (stop - st_size (ti_st n));
       if left \<le> 0 then Some (None, set_errno ENOSPC s)
       else do {
         n \<leftarrow> (if stop > ti_capacity n
               then do {
                 d \<leftarrow> krealloc (ti_data n) (BUFSIZ + stop);
                 Some (n\<lparr>ti_capacity := BUFSIZ + stop, ti_data := d\<rparr>)
               } else Some n);
         let s = upd_sb_st b (\<lambda>v. v\<lparr>f_bfree := f_bfree v - (stop - st_size (ti_st n)),
                                    f_bavail := f_bavail v - (stop - st_size (ti_st n))\<rparr>) s;
         Some (Some (n\<lparr>ti_st := (ti_st n)\<lparr>st_size := stop\<rparr>\<rparr>), s)
       }
     }"

definition tmpfs_write :: "iptr \<Rightarrow> u32 \<times> byte list \<Rightarrow> u32 \<Rightarrow> fs \<Rightarrow> (int \<times> fs) option" where
  "tmpfs_write p buf pos s =
     do {
       (i, b, sb) \<leftarrow> tmpfs_sb p s;
       kassert (fst buf \<noteq> 0);
       let len = (of_nat (length (snd buf)) :: u32);
       kassert (len \<noteq> 0);
       (n, s) \<leftarrow> tmpfs_get b (i_ino i) s;
       (r, s) \<leftarrow> (if pos + len > st_size (ti_st n) then tmpfs_grow b (pos + len) n s
                 else Some (Some n, s));
       case r of
         None \<Rightarrow> Some (- 1, s)
       | Some n \<Rightarrow>
           do {
             d \<leftarrow> tdata_write (ti_data n) (unat pos) (snd buf);
             Some (sint len, tmpfs_put b (i_ino i) (n\<lparr>ti_data := d\<rparr>) s)
           }
     }"

definition tmpfs_readlink ::
  "iptr \<Rightarrow> u32 \<Rightarrow> u32 \<Rightarrow> fs \<Rightarrow> ((int \<times> byte option list) \<times> fs) option" where
  "tmpfs_readlink p buf len s =
     do {
       (i, b, sb) \<leftarrow> tmpfs_sb p s;
       kassert (buf \<noteq> 0);
       kassert (len \<noteq> 0);
       (n, s) \<leftarrow> tmpfs_get b (i_ino i) s;
       if ti_data n = TNull then Some ((0, []), s)
       else do {
         let l = (if len > st_size (ti_st n) then st_size (ti_st n) else len);
         bs \<leftarrow> tdata_read (ti_data n) 0 (unat l);
         Some ((sint l, bs), s)
       }
     }"

text \<open>The operations that \<^verbatim>\<open>tmpfs_creat\<close> installs for each type of file.\<close>

definition tmpfs_vops :: "u32 \<Rightarrow> vop list" where
  "tmpfs_vops mode =
     [Ogetattr, Osetattr]
     @ (if S_ISDIR mode then [Ocreat, Ofinddir, Oreaddir, Orename, Osymlink, Ounlink] else [])
     @ (if S_ISREG mode then [Otruncate, Oread, Owrite] else [])
     @ (if S_ISLNK mode then [Oreadlink] else [])"

definition tmpfs_creat :: "iptr \<Rightarrow> ustr \<Rightarrow> u32 \<Rightarrow> fs \<Rightarrow> (iptr option \<times> fs) option" where
  "tmpfs_creat p nm mode s =
     do {
       (i, b, sb) \<leftarrow> tmpfs_sb p s;
       kassert (fst nm \<noteq> 0);
       if f_ffree (sb_st sb) = 0 then Some (None, set_errno ENOSPC s)
       else do {
         let ino = fs_next_ino s + 1;
         (n, s) \<leftarrow> tmpfs_get b ino (s\<lparr>fs_next_ino := ino\<rparr>);
         let n = n\<lparr>ti_capacity := 0, ti_data := TNull,
                   ti_st := (ti_st n)\<lparr>st_mode := mode AND NOT (t_umask (fs_task s))\<rparr>\<rparr>;
         let s = tmpfs_put b ino n s;
         let d = fs_next s;
         let s = s\<lparr>fs_next := d + 1, fs_inodes := (fs_inodes s)(d \<mapsto>
                   \<lparr>i_name = take MAXNAMLEN (snd nm), i_ino = st_ino (ti_st n), i_sb = Some b,
                    i_ops = ops_of Tmpfs (tmpfs_vops mode), i_parent = Some p, i_lock = False\<rparr>)\<rparr>;
         let s = upd_sb_st b (\<lambda>v. v\<lparr>f_ffree := f_ffree v - 1, f_favail := f_favail v - 1\<rparr>) s;
         cs \<leftarrow> tmpfs_children sb;
         Some (Some d, upd_sb b (\<lambda>sb. sb\<lparr>sb_info := TmpfsInfo (cs @ [d])\<rparr>) s)
       }
     }"

definition tmpfs_finddir :: "iptr \<Rightarrow> ustr \<Rightarrow> fs \<Rightarrow> (iptr option \<times> fs) option" where
  "tmpfs_finddir p nm s =
     do {
       (i, b, sb) \<leftarrow> tmpfs_sb p s;
       kassert (fst nm \<noteq> 0);
       cs \<leftarrow> tmpfs_children sb;
       r \<leftarrow> find_child (fs_inodes s) cs p (snd nm);
       Some (r, s)
     }"

text \<open>
  One pass of \<^verbatim>\<open>tmpfs_readdir\<close> over the children, with the counter \<open>k\<close> (\<^verbatim>\<open>p\<close> in the source): the
  entry of the directory it stops at, or the value of the counter at the end.
\<close>

fun readdir_scan :: "(iptr \<rightharpoonup> inode) \<Rightarrow> iptr list \<Rightarrow> iptr \<Rightarrow> int \<Rightarrow> (iptr + int) option" where
  "readdir_scan m [] dir k = Some (Inr k)"
| "readdir_scan m (d # ds) dir k =
     do {
       i \<leftarrow> m d;
       if i_parent i \<noteq> Some dir then readdir_scan m ds dir k
       else if k \<noteq> 0 then readdir_scan m ds dir (k - 1)
       else Some (Inl d)
     }"

fun tmpfs_readdir_loop ::
  "iptr \<Rightarrow> sptr \<Rightarrow> nat \<Rightarrow> u32 \<Rightarrow> int \<Rightarrow> fs \<Rightarrow> ((int \<times> dirent option list) \<times> fs) option" where
  "tmpfs_readdir_loop p b 0 pos r s = Some ((r, []), s)"
| "tmpfs_readdir_loop p b (Suc left) pos r s =
     do {
       sb \<leftarrow> fs_sbs s b;
       cs \<leftarrow> tmpfs_children sb;
       x \<leftarrow> readdir_scan (fs_inodes s) cs p (sint pos);
       case x of
         Inr k \<Rightarrow>
           if k = 0 then Some ((r, []), s)
           else do {
             ((r, es), s) \<leftarrow> tmpfs_readdir_loop p b left (pos + 1) (r + 1) s;
             Some ((r, None # es), s)
           }
       | Inl d \<Rightarrow>
           do {
             i \<leftarrow> fs_inodes s d;
             (n, s) \<leftarrow> tmpfs_get b (i_ino i) s;
             let e = \<lparr>d_ino = st_ino (ti_st n), d_off = pos, d_reclen = of_nat DIRENT_SIZE,
                      d_type = ucast (drop_bit 12 (st_mode (ti_st n))), d_name = i_name i\<rparr>;
             ((r, es), s) \<leftarrow> tmpfs_readdir_loop p b left (pos + 1) (r + 1) s;
             Some ((r, Some e # es), s)
           }
     }"

definition tmpfs_readdir ::
  "iptr \<Rightarrow> u32 \<Rightarrow> u32 \<Rightarrow> u32 \<Rightarrow> fs \<Rightarrow> ((int \<times> dirent option list) \<times> fs) option" where
  "tmpfs_readdir p e pos count s =
     do {
       (i, b, sb) \<leftarrow> tmpfs_sb p s;
       kassert (e \<noteq> 0);
       tmpfs_readdir_loop p b (unat count) pos 0 s
     }"

definition tmpfs_rename :: "iptr \<Rightarrow> ustr \<Rightarrow> ustr \<Rightarrow> fs \<Rightarrow> (int \<times> fs) option" where
  "tmpfs_rename p nm newnm s =
     do {
       (i, b, sb) \<leftarrow> tmpfs_sb p s;
       kassert (fst nm \<noteq> 0);
       kassert (fst newnm \<noteq> 0);
       cs \<leftarrow> tmpfs_children sb;
       r \<leftarrow> find_child (fs_inodes s) cs p (snd nm);
       case r of
         None \<Rightarrow> Some (- 1, set_errno ENOENT s)
       | Some d \<Rightarrow> Some (0, upd_inode d (\<lambda>i. i\<lparr>i_name := take MAXNAMLEN (snd newnm)\<rparr>) s)
     }"

definition tmpfs_symlink :: "iptr \<Rightarrow> ustr \<Rightarrow> ustr \<Rightarrow> fs \<Rightarrow> (int \<times> fs) option" where
  "tmpfs_symlink p nm target s =
     do {
       (i, b, sb) \<leftarrow> tmpfs_sb p s;
       kassert (i_ops i Ocreat \<noteq> None);
       kassert (fst nm \<noteq> 0);
       kassert (fst target \<noteq> 0);
       (r, s) \<leftarrow> tmpfs_creat p nm (S_IFLNK OR 0x1B6) s;
       case r of
         None \<Rightarrow> Some (- 1, s)
       | Some d \<Rightarrow>
           do {
             j \<leftarrow> fs_inodes s d;
             (n, s) \<leftarrow> tmpfs_get b (i_ino j) s;
             let bs = map of_char (snd target) @ [0];
             let n = n\<lparr>ti_st := (ti_st n)\<lparr>st_size := of_nat (length bs)\<rparr>,
                       ti_capacity := of_nat (length bs), ti_data := TData (map Some bs)\<rparr>;
             Some (0, tmpfs_put b (i_ino j) n s)
           }
     }"

definition tmpfs_unlink :: "iptr \<Rightarrow> ustr \<Rightarrow> fs \<Rightarrow> (int \<times> fs) option" where
  "tmpfs_unlink p nm s =
     do {
       (i, b, sb) \<leftarrow> tmpfs_sb p s;
       kassert (fst nm \<noteq> 0);
       cs \<leftarrow> tmpfs_children sb;
       r \<leftarrow> find_child (fs_inodes s) cs p (snd nm);
       case r of
         None \<Rightarrow> Some (- 1, set_errno ENOENT s)
       | Some d \<Rightarrow>
           do {
             let s = upd_sb b (\<lambda>sb. sb\<lparr>sb_info := TmpfsInfo (remove1 d cs)\<rparr>) s;
             j \<leftarrow> fs_inodes s d;
             (n, s) \<leftarrow> tmpfs_get b (i_ino j) s;
             let sz = st_size (ti_st n);
             let s = upd_sb_st b (\<lambda>v. v\<lparr>f_ffree := f_ffree v + 1, f_favail := f_favail v + 1,
                                        f_bavail := f_bavail v + sz, f_bfree := f_bfree v + sz\<rparr>) s;
             if ti_data n = TNull then Some (0, s)
             else if ti_data n = TFreed then None
             else Some (0, tmpfs_put b (i_ino j) (n\<lparr>ti_data := TFreed\<rparr>) s)
           }
     }"

definition tmpfs_ops :: fsops where
  "tmpfs_ops = no_ops\<lparr>op_getattr := tmpfs_getattr, op_setattr := tmpfs_setattr,
     op_truncate := tmpfs_truncate, op_read := tmpfs_read, op_write := tmpfs_write,
     op_readlink := tmpfs_readlink, op_creat := tmpfs_creat, op_finddir := tmpfs_finddir,
     op_readdir := tmpfs_readdir, op_rename := tmpfs_rename, op_symlink := tmpfs_symlink,
     op_unlink := tmpfs_unlink\<rparr>"

section \<open>Nodes and their contents\<close>

text \<open>A node of a live file: its block has the size of its capacity and covers the file.\<close>

definition tnode_ok :: "tmpfs_inode \<Rightarrow> bool" where
  "tnode_ok n =
     (case ti_data n of
        TNull \<Rightarrow> st_size (ti_st n) = 0 \<and> ti_capacity n = 0
      | TData xs \<Rightarrow> length xs = unat (ti_capacity n) \<and> st_size (ti_st n) \<le> ti_capacity n
      | TFreed \<Rightarrow> False)"

text \<open>The abstract contents: the initial bytes of the block, as many as the file has.\<close>

definition file_bytes :: "tmpfs_inode \<Rightarrow> byte option list" where
  "file_bytes n = (case ti_data n of TData xs \<Rightarrow> take (unat (st_size (ti_st n))) xs | _ \<Rightarrow> [])"

lemma length_file_bytes: "tnode_ok n \<Longrightarrow> length (file_bytes n) = unat (st_size (ti_st n))"
  by (auto simp: tnode_ok_def file_bytes_def word_le_nat_alt split: tdata.splits)

text \<open>Files as a contract: sequences of reads and writes inside a file act on one byte sequence.\<close>

lemma tmpfs_sb_iff:
  "tmpfs_sb p s = Some (i, b, sb) \<longleftrightarrow>
     fs_inodes s p = Some i \<and> i_sb i = Some b \<and> fs_sbs s b = Some sb \<and> sb_fsid sb = TMPFS_ID"
  by (auto simp: tmpfs_sb_def bind_eq_Some_conv)

lemma tmpfs_get_hit:
  assumes "fs_sbs s b = Some sb" "cache_ok (sb_cache sb)" "cache_peek (sb_cache sb) ino = Some n"
  shows "tmpfs_get b ino s = Some (n, s)"
  using assms by (simp add: tmpfs_get_def vfs_cache_get_hit upd_sb_id)

lemma krealloc_ok:
  assumes "tnode_ok n" and "ti_capacity n \<le> cap"
  obtains xs where "krealloc (ti_data n) cap = Some (TData xs)" and "length xs = unat cap"
    and "take (unat (st_size (ti_st n))) xs = file_bytes n"
proof (cases "ti_data n")
  case TNull
  with assms that show ?thesis by (auto simp: krealloc_def tnode_ok_def file_bytes_def)
next
  case (TData xs)
  have "unat (st_size (ti_st n)) \<le> length xs" "length xs \<le> unat cap"
    using assms TData by (auto simp: tnode_ok_def word_le_nat_alt)
  with TData that show ?thesis by (auto simp: krealloc_def file_bytes_def)
next
  case TFreed
  with assms show ?thesis by (simp add: tnode_ok_def)
qed

lemma tdata_write_ok:
  assumes "length xs = cap" "off + length bs \<le> cap"
  shows "tdata_write (TData xs) off bs = Some (TData (pwrite xs off (map Some bs)))"
  using assms by (simp add: tdata_write_def mem_store_def pwrite_def)

lemma take_pwrite:
  assumes "off + length ys \<le> k" "k \<le> length xs"
  shows "take k (pwrite xs off ys) = pwrite (take k xs) off ys"
  using assms by (simp add: pwrite_def drop_take min_absorb1 min_absorb2)

text \<open>A live node, as the operations on files find it.\<close>

definition live_node :: "fs \<Rightarrow> iptr \<Rightarrow> inode \<Rightarrow> sptr \<Rightarrow> superblock \<Rightarrow> tmpfs_inode \<Rightarrow> bool" where
  "live_node s p i b sb n \<longleftrightarrow>
     tmpfs_sb p s = Some (i, b, sb) \<and> cache_ok (sb_cache sb)
     \<and> cache_peek (sb_cache sb) (i_ino i) = Some n \<and> tnode_ok n"

lemma live_nodeD:
  assumes "live_node s p i b sb n"
  shows "tmpfs_sb p s = Some (i, b, sb)" "fs_sbs s b = Some sb" "tmpfs_get b (i_ino i) s = Some (n, s)"
    "tnode_ok n" "cache_ok (sb_cache sb)" "cache_peek (sb_cache sb) (i_ino i) = Some n"
    "fs_inodes s p = Some i" "i_sb i = Some b" "sb_fsid sb = TMPFS_ID"
  using assms tmpfs_get_hit [of s b sb "i_ino i" n] by (auto simp: live_node_def tmpfs_sb_iff)

lemma tmpfs_getattr_live:
  assumes "live_node s p i b sb n" and "st \<noteq> 0"
  shows "tmpfs_getattr p st s = Some ((0, Some (ti_st n)), s)"
  using assms(2) by (simp add: tmpfs_getattr_def live_nodeD [OF assms(1)])

lemma pread_file_bytes:
  assumes "ti_data n = TData xs" and "off + k \<le> unat (st_size (ti_st n))"
  shows "pread (file_bytes n) off k = take k (drop off xs)"
  using assms by (simp add: pread_def file_bytes_def drop_take min_absorb1)

text \<open>Reading inside the file returns the bytes of its contents, at its end fewer, and changes nothing.\<close>

lemma tmpfs_read_live:
  assumes n: "live_node s p i b sb n" and "buf \<noteq> 0" "len \<noteq> 0"
    and pos: "pos \<le> st_size (ti_st n)" and small: "unat (st_size (ti_st n)) < 2 ^ 31"
    and nowrap: "unat pos + unat len < 2 ^ 31"
  shows "tmpfs_read p buf pos len s =
    (let r = pread (file_bytes n) (unat pos) (unat len) in Some ((int (length r), r), s))"
proof (cases "ti_data n")
  case TNull
  with live_nodeD(4) [OF n] show ?thesis
    using assms(2,3) by (simp add: tmpfs_read_def live_nodeD [OF n] file_bytes_def pread_def)
next
  case TFreed
  with live_nodeD(4) [OF n] show ?thesis by (simp add: tnode_ok_def)
next
  case (TData xs)
  let ?sz = "unat (st_size (ti_st n))"
  have sum: "unat (pos + len) = unat pos + unat len" using nowrap by (intro unat_add_small) simp
  have le: "unat pos \<le> ?sz" "?sz \<le> length xs"
    using pos live_nodeD(4) [OF n] TData by (auto simp: word_le_nat_alt tnode_ok_def)
  define l where "l = (if pos + len > st_size (ti_st n) then st_size (ti_st n) - pos else len)"
  have ul: "unat l = min (unat len) (?sz - unat pos)"
    using pos sum by (auto simp: l_def word_less_nat_alt unat_sub)
  then have "unat pos + unat l \<le> ?sz" "sint l = int (unat l)"
    using le(1) small sint_small [of l] by auto
  moreover have "pread (file_bytes n) (unat pos) (unat len) = take (unat l) (drop (unat pos) xs)"
    using TData by (simp add: pread_def file_bytes_def drop_take ul)
  moreover have "tdata_read (TData xs) (unat pos) (unat l) = Some (take (unat l) (drop (unat pos) xs))"
    using \<open>unat pos + unat l \<le> ?sz\<close> le(2) by (simp add: tdata_read_def mem_slice_def)
  moreover have "length (take (unat l) (drop (unat pos) xs)) = unat l"
    using \<open>unat pos + unat l \<le> ?sz\<close> le(2) by simp
  ultimately show ?thesis
    using assms(2,3) TData
    by (auto simp: tmpfs_read_def live_nodeD [OF n] l_def [symmetric] Let_def word_gt_0)
qed

lemma long_sub_small:
  assumes "unat x < 2 ^ 31" and "unat y < 2 ^ 31"
  shows "long_sub x y = Some (int (unat x) - int (unat y))"
proof -
  have "int (unat x) < int (2 ^ 31)" "int (unat y) < int (2 ^ 31)"
    using assms by (simp_all only: of_nat_less_iff)
  then have "uint x < 2147483648" "uint y < 2147483648" by simp_all
  with uint_ge_0 [of x] uint_ge_0 [of y]
  have "- 2147483648 \<le> uint x - uint y \<and> uint x - uint y < 2147483648" by linarith
  then show ?thesis
    unfolding long_sub_def sint_small [OF assms(1)] sint_small [OF assms(2)] Let_def by simp
qed

text \<open>The free space after a file grew by \<open>k\<close> bytes.\<close>

definition take_space :: "nat \<Rightarrow> statvfs \<Rightarrow> statvfs" where
  "take_space k v = v\<lparr>f_bfree := f_bfree v - of_nat k, f_bavail := f_bavail v - of_nat k\<rparr>"

lemma take_space_0 [simp]: "take_space 0 v = v"
  by (simp add: take_space_def)

text \<open>The growth of a live node that the free space allows.\<close>

lemma tmpfs_grow_live:
  assumes n: "live_node s p i b sb n" and grows: "st_size (ti_st n) < stop"
    and small: "unat stop < 2 ^ 31 - 1024"
    and avail: "unat (f_bavail (sb_st sb)) < 2 ^ 31"
    and fits: "unat stop - unat (st_size (ti_st n)) < unat (f_bavail (sb_st sb))"
  obtains m xs where "ti_data m = TData xs" "length xs = unat (ti_capacity m)" "stop \<le> ti_capacity m"
    "st_size (ti_st m) = stop" "ti_st m = (ti_st n)\<lparr>st_size := stop\<rparr>"
    "take (unat (st_size (ti_st n))) xs = file_bytes n"
    "tmpfs_grow b stop n s = Some (Some m, upd_sb_st b (take_space (unat stop - unat (st_size (ti_st n)))) s)"
proof -
  let ?d = "stop - st_size (ti_st n)"
  have ud: "unat ?d = unat stop - unat (st_size (ti_st n))" using grows by (simp add: unat_sub)
  then have sp: "take_space (unat stop - unat (st_size (ti_st n))) =
      (\<lambda>v. v\<lparr>f_bfree := f_bfree v - ?d, f_bavail := f_bavail v - ?d\<rparr>)"
    by (simp add: take_space_def [abs_def] flip: ud)
  have sub: "long_sub (f_bavail (sb_st sb)) ?d = Some (int (unat (f_bavail (sb_st sb))) - int (unat ?d))"
    using avail ud small by (intro long_sub_small) simp_all
  have left: "\<not> int (unat (f_bavail (sb_st sb))) - int (unat ?d) \<le> 0"
    using fits unfolding ud by linarith
  note L = live_nodeD [OF n]
  show thesis
  proof (cases "stop > ti_capacity n")
    case True
    have cap: "unat (BUFSIZ + stop) = 1024 + unat stop"
      using small unat_add_small [of BUFSIZ stop] by (simp add: BUFSIZ_def)
    then have "ti_capacity n \<le> BUFSIZ + stop" "stop \<le> BUFSIZ + stop"
      using True by (simp_all add: word_le_nat_alt word_less_nat_alt)
    from krealloc_ok [OF L(4) this(1)] obtain xs
      where xs: "krealloc (ti_data n) (BUFSIZ + stop) = Some (TData xs)" "length xs = unat (BUFSIZ + stop)"
        "take (unat (st_size (ti_st n))) xs = file_bytes n" .
    show ?thesis
      by (rule that [of "n\<lparr>ti_capacity := BUFSIZ + stop, ti_data := TData xs,
              ti_st := (ti_st n)\<lparr>st_size := stop\<rparr>\<rparr>" xs])
        (use xs True left \<open>stop \<le> BUFSIZ + stop\<close> in \<open>simp_all add: tmpfs_grow_def L(2) sub sp\<close>)
  next
    case False
    then have le: "stop \<le> ti_capacity n" by simp
    with grows have "ti_capacity n \<noteq> 0" by (auto simp: word_less_nat_alt word_le_nat_alt)
    with L(4) obtain xs where xs: "ti_data n = TData xs" "length xs = unat (ti_capacity n)"
      by (auto simp: tnode_ok_def split: tdata.splits)
    show ?thesis
      by (rule that [of "n\<lparr>ti_st := (ti_st n)\<lparr>st_size := stop\<rparr>\<rparr>" xs])
        (use xs le left False in \<open>simp_all add: tmpfs_grow_def L(2) sub sp file_bytes_def\<close>)
  qed
qed

lemma tnode_ok_grown:
  assumes "ti_data m = TData xs" "length xs = unat (ti_capacity m)" "st_size (ti_st m) \<le> ti_capacity m"
  shows "tnode_ok m"
  using assms by (simp add: tnode_ok_def)

text \<open>Storing bytes inside a live block.\<close>

lemma tdata_write_live:
  assumes "ti_data m = TData xs" "length xs = unat (ti_capacity m)" "st_size (ti_st m) \<le> ti_capacity m"
    and "off + length bs \<le> unat (st_size (ti_st m))"
  obtains d where "tdata_write (ti_data m) off bs = Some d" "tnode_ok (m\<lparr>ti_data := d\<rparr>)"
    "file_bytes (m\<lparr>ti_data := d\<rparr>) = pwrite (take (unat (st_size (ti_st m))) xs) off (map Some bs)"
proof -
  have le: "unat (st_size (ti_st m)) \<le> length xs" using assms(2,3) by (simp add: word_le_nat_alt)
  show ?thesis
  proof (rule that [of "TData (pwrite xs off (map Some bs))"])
    show "tdata_write (ti_data m) off bs = Some (TData (pwrite xs off (map Some bs)))"
      using assms(1,4) le by (simp add: tdata_write_ok [OF refl])
    have "length (pwrite xs off (map Some bs)) = length xs"
      using assms(4) le by (simp add: length_pwrite)
    then show "tnode_ok (m\<lparr>ti_data := TData (pwrite xs off (map Some bs))\<rparr>)"
      using assms(2,3) by (simp add: tnode_ok_def)
    show "file_bytes (m\<lparr>ti_data := TData (pwrite xs off (map Some bs))\<rparr>)
        = pwrite (take (unat (st_size (ti_st m))) xs) off (map Some bs)"
      using assms(4) le by (simp add: file_bytes_def take_pwrite)
  qed
qed

text \<open>
  Writing at an offset inside the file: the file becomes what the specification of a write says, its
  size the larger of the old size and the end of the write, and the free space drops by the growth.
\<close>

definition node_written :: "tmpfs_inode \<Rightarrow> nat \<Rightarrow> byte list \<Rightarrow> tmpfs_inode \<Rightarrow> bool" where
  "node_written n off bs m \<longleftrightarrow>
     tnode_ok m \<and> file_bytes m = pwrite (file_bytes n) off (map Some bs)
     \<and> ti_st m = (ti_st n)\<lparr>st_size := of_nat (max (unat (st_size (ti_st n))) (off + length bs))\<rparr>"

definition fs_written :: "fs \<Rightarrow> u32 \<Rightarrow> sptr \<Rightarrow> superblock \<Rightarrow> nat \<Rightarrow> tmpfs_inode \<Rightarrow> fs" where
  "fs_written s ino b sb k m =
     s\<lparr>fs_sbs := (fs_sbs s)(b \<mapsto> sb\<lparr>sb_st := take_space k (sb_st sb),
                                   sb_cache := cache_put ino m (sb_cache sb)\<rparr>)\<rparr>"

lemma write_len:
  assumes "bs \<noteq> []" and "unat (pos :: u32) + length bs < 2 ^ 31 - 1024"
  shows "(of_nat (length bs) :: u32) \<noteq> 0" "sint (of_nat (length bs) :: u32) = int (length bs)"
    "unat (pos + of_nat (length bs)) = unat pos + length bs"
proof -
  have u: "unat (of_nat (length bs) :: u32) = length bs" using assms(2) by (simp add: unat_of_nat)
  then show "sint (of_nat (length bs) :: u32) = int (length bs)" "(of_nat (length bs) :: u32) \<noteq> 0"
    using assms sint_small [of "of_nat (length bs)"] by auto
  show "unat (pos + of_nat (length bs)) = unat pos + length bs"
    using assms(2) u unat_add_small [of pos "of_nat (length bs)"] by simp
qed

lemma tmpfs_write_inside:
  assumes n: "live_node s p i b sb n" and a: "a \<noteq> 0" "bs \<noteq> []"
    and small: "unat pos + length bs < 2 ^ 31 - 1024"
    and le: "unat pos + length bs \<le> unat (st_size (ti_st n))"
  obtains m where "node_written n (unat pos) bs m"
    "tmpfs_write p (a, bs) pos s = Some (int (length bs), fs_written s (i_ino i) b sb 0 m)"
proof -
  note L = live_nodeD [OF n] and len = write_len [OF a(2) small]
  have le': "\<not> pos + of_nat (length bs) > st_size (ti_st n)"
    using le by (simp add: word_less_nat_alt len(3))
  from le a(2) have "st_size (ti_st n) \<noteq> 0" by auto
  with L(4) obtain xs where xs: "ti_data n = TData xs" "length xs = unat (ti_capacity n)"
      "st_size (ti_st n) \<le> ti_capacity n" by (auto simp: tnode_ok_def split: tdata.splits)
  from tdata_write_live [OF this le] obtain d
    where "tdata_write (ti_data n) (unat pos) bs = Some d" "tnode_ok (n\<lparr>ti_data := d\<rparr>)"
      "file_bytes (n\<lparr>ti_data := d\<rparr>) =
        pwrite (take (unat (st_size (ti_st n))) xs) (unat pos) (map Some bs)" .
  with le le' xs(1) len(1,2) a show ?thesis
    by (intro that [of "n\<lparr>ti_data := d\<rparr>"])
      (simp_all add: node_written_def fs_written_def file_bytes_def tmpfs_write_def L max_def
        tmpfs_put_def upd_sb_eq)
qed

lemma tmpfs_write_extends:
  assumes n: "live_node s p i b sb n" and a: "a \<noteq> 0" "bs \<noteq> []"
    and pos: "unat pos \<le> unat (st_size (ti_st n))"
    and small: "unat pos + length bs < 2 ^ 31 - 1024"
    and avail: "unat (f_bavail (sb_st sb)) < 2 ^ 31"
    and gt: "unat (st_size (ti_st n)) < unat pos + length bs"
    and fits: "unat pos + length bs - unat (st_size (ti_st n)) < unat (f_bavail (sb_st sb))"
  obtains m where "node_written n (unat pos) bs m"
    "tmpfs_write p (a, bs) pos s = Some (int (length bs),
       fs_written s (i_ino i) b sb (unat pos + length bs - unat (st_size (ti_st n))) m)"
proof -
  note L = live_nodeD [OF n] and len = write_len [OF a(2) small]
  let ?stop = "pos + of_nat (length bs)" and ?sz = "unat (st_size (ti_st n))"
  have gt': "st_size (ti_st n) < ?stop" using gt by (simp add: word_less_nat_alt len(3))
  obtain m xs where m: "ti_data m = TData xs" "length xs = unat (ti_capacity m)" "?stop \<le> ti_capacity m"
      "st_size (ti_st m) = ?stop" "ti_st m = (ti_st n)\<lparr>st_size := ?stop\<rparr>" "take ?sz xs = file_bytes n"
      "tmpfs_grow b ?stop n s = Some (Some m, upd_sb_st b (take_space (unat ?stop - ?sz)) s)"
    using tmpfs_grow_live [OF n gt' _ avail] fits small unfolding len(3) by blast
  from m(3,4) len(3) have "st_size (ti_st m) \<le> ti_capacity m"
    "unat pos + length bs \<le> unat (st_size (ti_st m))" by simp_all
  from tdata_write_live [OF m(1,2) this] obtain d
    where d: "tdata_write (ti_data m) (unat pos) bs = Some d" "tnode_ok (m\<lparr>ti_data := d\<rparr>)"
      "file_bytes (m\<lparr>ti_data := d\<rparr>) =
        pwrite (take (unat (st_size (ti_st m))) xs) (unat pos) (map Some bs)" .
  have "pwrite (take (unat pos + length bs) xs) (unat pos) (map Some bs)
      = pwrite (take ?sz xs) (unat pos) (map Some bs)"
    using pos gt by (simp add: pwrite_def min_absorb1)
  then have fb: "file_bytes (m\<lparr>ti_data := d\<rparr>) = pwrite (file_bytes n) (unat pos) (map Some bs)"
    using d(3) m(4,6) len(3) by simp
  have st: "ti_st m = (ti_st n)\<lparr>st_size := of_nat (max ?sz (unat pos + length bs))\<rparr>"
    using m(5) gt by (simp add: max_def)
  show ?thesis
    by (rule that [of "m\<lparr>ti_data := d\<rparr>"])
      (use d(1,2) fb st gt' len(1,2) a in \<open>simp_all add: node_written_def fs_written_def tmpfs_write_def
          L m(7) len(3) tmpfs_put_def upd_sb_st_def upd_sb_eq\<close>)
qed

lemma tmpfs_write_live:
  assumes n: "live_node s p i b sb n" and a: "a \<noteq> 0" "bs \<noteq> []"
    and pos: "unat pos \<le> unat (st_size (ti_st n))"
    and small: "unat pos + length bs < 2 ^ 31 - 1024"
    and avail: "unat (f_bavail (sb_st sb)) < 2 ^ 31"
    and fits: "unat pos + length bs - unat (st_size (ti_st n)) < unat (f_bavail (sb_st sb))"
  obtains m where "node_written n (unat pos) bs m"
    "tmpfs_write p (a, bs) pos s = Some (int (length bs),
       fs_written s (i_ino i) b sb (unat pos + length bs - unat (st_size (ti_st n))) m)"
proof (cases "unat pos + length bs \<le> unat (st_size (ti_st n))")
  case True
  with tmpfs_write_inside [OF n a small True] that show ?thesis by auto
next
  case False
  with tmpfs_write_extends [OF n a pos small avail _ fits] that show ?thesis by auto
qed

section \<open>Files as byte sequences\<close>

text \<open>
  The contract of a random access file over a state: \<open>rd\<close> and \<open>wr\<close> act on one byte sequence, as long
  as accesses start inside it and stay below a limit that writing does not change.
\<close>

locale byte_file =
  fixes rd :: "nat \<Rightarrow> nat \<Rightarrow> 's \<Rightarrow> ((int \<times> 'b option list) \<times> 's) option"
    and wr :: "nat \<Rightarrow> 'b list \<Rightarrow> 's \<Rightarrow> (int \<times> 's) option"
    and bytes :: "'s \<Rightarrow> 'b option list"
    and limit :: "'s \<Rightarrow> nat"
    and ok :: "'s \<Rightarrow> bool"
  assumes rd_law: "ok s \<Longrightarrow> off \<le> length (bytes s) \<Longrightarrow> 0 < k \<Longrightarrow> off + k \<le> limit s \<Longrightarrow>
      rd off k s = (let r = pread (bytes s) off k in Some ((int (length r), r), s))"
    and wr_law: "ok s \<Longrightarrow> off \<le> length (bytes s) \<Longrightarrow> bs \<noteq> [] \<Longrightarrow> off + length bs \<le> limit s \<Longrightarrow>
      \<exists>t. wr off bs s = Some (int (length bs), t) \<and> ok t \<and> bytes t = pwrite (bytes s) off (map Some bs)
        \<and> limit t = limit s"
begin

text \<open>A sequence of writes, each one where the last one ended.\<close>

fun wr_seq :: "nat \<Rightarrow> 'b list list \<Rightarrow> 's \<Rightarrow> 's option" where
  "wr_seq off [] s = Some s"
| "wr_seq off (bs # bss) s =
     (case wr off bs s of None \<Rightarrow> None | Some (r, t) \<Rightarrow> wr_seq (off + nat r) bss t)"

lemma pwrite_pwrite:
  "off \<le> length xs \<Longrightarrow> pwrite (pwrite xs off ys) (off + length ys) zs = pwrite xs off (ys @ zs)"
  by (simp add: pwrite_def ac_simps)

lemma wr_seq_concat:
  assumes "ok s" "off \<le> length (bytes s)" "[] \<notin> set bss" "off + length (concat bss) \<le> limit s"
  shows "\<exists>t. wr_seq off bss s = Some t \<and> ok t \<and> bytes t = pwrite (bytes s) off (map Some (concat bss))
    \<and> limit t = limit s"
  using assms
proof (induction bss arbitrary: off s)
  case Nil
  then show ?case by (simp add: pwrite_def)
next
  case (Cons bs bss)
  then have "off + length bs \<le> limit s" "bs \<noteq> []" by auto
  with wr_law [OF Cons.prems(1,2)] obtain t
    where t: "wr off bs s = Some (int (length bs), t)" "ok t"
      "bytes t = pwrite (bytes s) off (map Some bs)" "limit t = limit s" by blast
  have "off + length bs \<le> length (bytes t)" using Cons.prems(2) by (simp add: t(3) length_pwrite)
  with Cons.IH [OF t(2) this] Cons.prems t obtain u where
    "wr_seq (off + length bs) bss t = Some u \<and> ok u \<and> limit u = limit s
      \<and> bytes u = pwrite (bytes t) (off + length bs) (map Some (concat bss))" by (auto simp: add.assoc)
  with t Cons.prems(2) pwrite_pwrite [of off "bytes s" "map Some bs"] show ?case by simp
qed

lemma write_then_read:
  assumes "ok s" "off \<le> length (bytes s)" "bs \<noteq> []" "off + length bs \<le> limit s"
  shows "\<exists>t. wr off bs s = Some (int (length bs), t) \<and> ok t
    \<and> rd off (length bs) t = Some ((int (length bs), map Some bs), t)"
proof -
  from wr_law [OF assms] obtain t where t: "wr off bs s = Some (int (length bs), t)" "ok t"
    "bytes t = pwrite (bytes s) off (map Some bs)" "limit t = limit s" by blast
  have "off \<le> length (bytes t)" using assms(2) by (simp add: t(3) length_pwrite)
  moreover have "0 < length bs" using assms(3) by simp
  ultimately have "rd off (length bs) t = Some ((int (length bs), map Some bs), t)"
    using rd_law [OF t(2), of off "length bs"] pread_pwrite_same [OF assms(2), of "map Some bs"] assms(4)
    by (simp add: t(3,4))
  with t show ?thesis by blast
qed

end

text \<open>A tmpfs file at an inode, with the address of the buffer of the caller.\<close>

definition tfile_bytes :: "iptr \<Rightarrow> fs \<Rightarrow> byte option list" where
  "tfile_bytes p s =
     (case tmpfs_sb p s of
        None \<Rightarrow> []
      | Some (i, b, sb) \<Rightarrow>
          (case cache_peek (sb_cache sb) (i_ino i) of None \<Rightarrow> [] | Some n \<Rightarrow> file_bytes n))"

definition tfile_limit :: "iptr \<Rightarrow> fs \<Rightarrow> nat" where
  "tfile_limit p s =
     (case tmpfs_sb p s of
        None \<Rightarrow> 0
      | Some (i, b, sb) \<Rightarrow> length (tfile_bytes p s) + unat (f_bavail (sb_st sb)) - 1)"

definition tfile_ok :: "u32 \<Rightarrow> iptr \<Rightarrow> fs \<Rightarrow> bool" where
  "tfile_ok a p s \<longleftrightarrow> a \<noteq> 0 \<and>
     (\<exists>i b sb n. live_node s p i b sb n \<and> 0 < unat (f_bavail (sb_st sb))
        \<and> unat (st_size (ti_st n)) + unat (f_bavail (sb_st sb)) < 2 ^ 31 - 1024)"

lemma tfile_live:
  assumes "live_node s p i b sb n"
  shows "tfile_bytes p s = file_bytes n"
    "tfile_limit p s = unat (st_size (ti_st n)) + unat (f_bavail (sb_st sb)) - 1"
    "length (tfile_bytes p s) = unat (st_size (ti_st n))"
proof -
  note L = live_nodeD [OF assms]
  show 1: "tfile_bytes p s = file_bytes n" by (simp add: tfile_bytes_def L)
  show 2: "length (tfile_bytes p s) = unat (st_size (ti_st n))"
    by (simp add: 1 length_file_bytes L(4))
  show "tfile_limit p s = unat (st_size (ti_st n)) + unat (f_bavail (sb_st sb)) - 1"
    by (simp add: tfile_limit_def L 2)
qed

lemma live_node_written:
  assumes "live_node s p i b sb n" and "tnode_ok m"
  shows "live_node (fs_written s (i_ino i) b sb k m) p i b
    (sb\<lparr>sb_st := take_space k (sb_st sb), sb_cache := cache_put (i_ino i) m (sb_cache sb)\<rparr>) m"
  using live_nodeD [OF assms(1)] assms(2)
  by (simp add: live_node_def fs_written_def tmpfs_sb_iff cache_put_ok cache_put_peek)

lemma take_space_bavail:
  assumes "k < unat (f_bavail v)"
  shows "unat (f_bavail (take_space k v)) = unat (f_bavail v) - k"
proof -
  have "unat (of_nat k :: u32) = k"
    using assms unat_u32_less [of "f_bavail v"] by (simp add: unat_of_nat)
  then show ?thesis using assms by (simp add: take_space_def unat_sub word_le_nat_alt)
qed

lemma tfile_write:
  assumes ok: "tfile_ok a p s" and off: "off \<le> length (tfile_bytes p s)" and bs: "bs \<noteq> []"
    and lim: "off + length bs \<le> tfile_limit p s"
  shows "\<exists>t. tmpfs_write p (a, bs) (of_nat off) s = Some (int (length bs), t) \<and> tfile_ok a p t
    \<and> tfile_bytes p t = pwrite (tfile_bytes p s) off (map Some bs) \<and> tfile_limit p t = tfile_limit p s"
proof -
  from ok obtain i b sb n where n: "live_node s p i b sb n" and a: "a \<noteq> 0"
    and pos: "0 < unat (f_bavail (sb_st sb))"
    and small: "unat (st_size (ti_st n)) + unat (f_bavail (sb_st sb)) < 2 ^ 31 - 1024"
    by (auto simp: tfile_ok_def)
  note T = tfile_live [OF n]
  let ?sz = "unat (st_size (ti_st n))" and ?k = "off + length bs - unat (st_size (ti_st n))"
  have lim': "off + length bs < ?sz + unat (f_bavail (sb_st sb))" using lim pos by (simp add: T(2))
  then have u: "unat (of_nat off :: u32) = off" using small by (simp add: unat_of_nat)
  have fits: "?k < unat (f_bavail (sb_st sb))" using lim' pos by simp
  obtain m where m: "node_written n off bs m" "tmpfs_write p (a, bs) (of_nat off) s =
      Some (int (length bs), fs_written s (i_ino i) b sb ?k m)"
    using tmpfs_write_live [OF n a bs, of "of_nat off"] lim' small off fits unfolding u T(3) by auto
  have "tnode_ok m" using m(1) by (simp add: node_written_def)
  note n' = live_node_written [OF n this, of ?k]
  have sz': "unat (st_size (ti_st m)) = max ?sz (off + length bs)"
    using m(1) lim' small by (simp add: node_written_def unat_of_nat)
  have av': "unat (f_bavail (take_space ?k (sb_st sb))) = unat (f_bavail (sb_st sb)) - ?k"
    using fits by (rule take_space_bavail)
  have "tfile_ok a p (fs_written s (i_ino i) b sb ?k m)"
    unfolding tfile_ok_def using n' a av' sz' lim' small fits
    by (intro conjI exI [of _ i] exI [of _ b] exI [of _ m] exI) auto
  moreover have "tfile_bytes p (fs_written s (i_ino i) b sb ?k m) = pwrite (tfile_bytes p s) off (map Some bs)"
    using m(1) by (simp add: tfile_live(1) [OF n'] T(1) node_written_def)
  moreover have "tfile_limit p (fs_written s (i_ino i) b sb ?k m) = tfile_limit p s"
    using av' sz' lim' by (simp add: tfile_live(2) [OF n'] T(2))
  ultimately show ?thesis using m(2) by blast
qed

lemma tfile_read:
  assumes ok: "tfile_ok a p s" and off: "off \<le> length (tfile_bytes p s)" and k: "0 < k"
    and lim: "off + k \<le> tfile_limit p s"
  shows "tmpfs_read p a (of_nat off) (of_nat k) s =
    (let r = pread (tfile_bytes p s) off k in Some ((int (length r), r), s))"
proof -
  from ok obtain i b sb n where n: "live_node s p i b sb n" and a: "a \<noteq> 0"
    and small: "unat (st_size (ti_st n)) + unat (f_bavail (sb_st sb)) < 2 ^ 31 - 1024"
    by (auto simp: tfile_ok_def)
  note T = tfile_live [OF n]
  have u: "unat (of_nat off :: u32) = off" "unat (of_nat k :: u32) = k"
    using lim small by (simp_all add: unat_of_nat T(2))
  have "of_nat off \<le> st_size (ti_st n)" using off by (simp add: word_le_nat_alt u T(3))
  moreover have "(of_nat k :: u32) \<noteq> 0" using k u(2) by auto
  moreover have "off + k < 2 ^ 31" using lim small by (simp add: T(2))
  ultimately show ?thesis
    using tmpfs_read_live [OF n a, of "of_nat k" "of_nat off"] small unfolding u T(1) by simp
qed

interpretation tfile: byte_file
  "\<lambda>off k. tmpfs_read p a (of_nat off) (of_nat k)" "\<lambda>off bs. tmpfs_write p (a, bs) (of_nat off)"
  "tfile_bytes p" "tfile_limit p" "tfile_ok a p" for a p
  by unfold_locales (simp_all add: tfile_read tfile_write)

section \<open>A mounted file system\<close>

text \<open>
  The state after a tmpfs was mounted on the root directory (super block 1), with one empty regular
  file \<^verbatim>\<open>a\<close> (inode 2) in it. Every address may be read and written.
\<close>

definition demo_node :: "u32 \<Rightarrow> u32 \<Rightarrow> tmpfs_inode" where
  "demo_node ino mode = \<lparr>ti_st = stat_zero\<lparr>st_ino := ino, st_nlink := 1, st_blocks := 1, st_mode := mode\<rparr>,
     ti_capacity = 0, ti_data = TNull\<rparr>"

definition demo_sb :: superblock where
  "demo_sb = sb_zero\<lparr>sb_fsid := TMPFS_ID, sb_ino := 1, sb_info := TmpfsInfo [2],
     sb_ops := (\<lambda>_. None)(Ogetattr := Some Rootfs),
     sb_st := statvfs_zero\<lparr>f_bfree := TMPFS_SIZE_MAX, f_bavail := TMPFS_SIZE_MAX,
       f_ffree := TMPFS_NODES_MAX - 1, f_favail := TMPFS_NODES_MAX - 1\<rparr>,
     sb_cache := \<lparr>c_capacity = TMPFS_NODES_MAX, c_count = 2,
       c_items = [(1, demo_node 1 S_IFMT), (2, demo_node 2 S_IFREG)], c_lock = False\<rparr>\<rparr>"

definition demo_root :: inode where
  "demo_root = \<lparr>i_name = ''/'', i_ino = 1, i_sb = Some 1, i_ops = ops_of Tmpfs dir_vops, i_parent = None,
     i_lock = False\<rparr>"

definition demo_file :: inode where
  "demo_file = \<lparr>i_name = ''a'', i_ino = 2, i_sb = Some 1, i_ops = ops_of Tmpfs (tmpfs_vops S_IFREG),
     i_parent = Some 0, i_lock = False\<rparr>"

definition demo_task :: ftask where
  "demo_task = \<lparr>t_root = 0, t_cwd = 0, t_uid = 1, t_gid = 1, t_umask = 0,
     t_fd = \<lparr>fd_inode = Some 2, fd_position = 0, fd_flags = 2, fd_lock = False\<rparr> #
       replicate 31 \<lparr>fd_inode = None, fd_position = 0, fd_flags = 0, fd_lock = False\<rparr>,
     t_iostat = \<lparr>io_rchar = 0, io_wchar = 0, io_syscr = 0, io_syscw = 0, io_read_bytes = 0,
       io_write_bytes = 0\<rparr>, t_lock = False\<rparr>"

definition fs_demo :: fs where
  "fs_demo = \<lparr>fs_inodes = [0 \<mapsto> demo_root, 2 \<mapsto> demo_file], fs_sbs = [1 \<mapsto> demo_sb], fs_next = 3,
     fs_dcache = [2], fs_errno = 0, fs_task = demo_task, fs_next_ino = 2, fs_time = 0,
     fs_chk = (\<lambda>_ _. True), fs_kstack = 0x1000\<rparr>"

lemmas demo_defs =
  fs_demo_def demo_task_def demo_file_def demo_root_def demo_sb_def demo_node_def sb_zero_def
  statvfs_zero_def stat_zero_def

lemma demo_live: "live_node fs_demo 2 demo_file 1 demo_sb (demo_node 2 S_IFREG)"
  by (simp add: live_node_def tmpfs_sb_iff cache_ok_def cache_peek_def tnode_ok_def demo_defs
      TMPFS_NODES_MAX_def)

lemma demo_tfile_ok: "tfile_ok 0x2000 2 fs_demo"
  unfolding tfile_ok_def
  by (intro conjI exI, simp, rule demo_live)
    (simp_all add: demo_sb_def demo_node_def stat_zero_def sb_zero_def TMPFS_SIZE_MAX_def)

lemma demo_tfile: "tfile_bytes 2 fs_demo = []" "tfile_limit 2 fs_demo = 4 * 1024 * 1024 - 1"
  using tfile_live [OF demo_live]
  by (simp_all add: file_bytes_def demo_node_def demo_sb_def TMPFS_SIZE_MAX_def stat_zero_def)

text \<open>The same state with two bytes in the file.\<close>

definition demo_data :: tmpfs_inode where
  "demo_data = \<lparr>ti_st = (ti_st (demo_node 2 S_IFREG))\<lparr>st_size := 2\<rparr>, ti_capacity = 1026,
     ti_data = TData ([Some 104, Some 105] @ replicate 1024 None)\<rparr>"

definition demo_written :: fs where
  "demo_written = fs_written fs_demo 2 1 demo_sb 2 demo_data"

lemma demo_written_live: "\<exists>sb. live_node demo_written 2 demo_file 1 sb demo_data"
proof -
  have "tnode_ok demo_data" by (simp add: tnode_ok_def demo_data_def word_le_nat_alt)
  moreover have "i_ino demo_file = 2" by (simp add: demo_file_def)
  ultimately show ?thesis unfolding demo_written_def using live_node_written [OF demo_live] by metis
qed

section \<open>Properties of files\<close>

text \<open>C14. Writing to a tmpfs file at an offset inside it stores the bytes: the call reports the number of
  bytes, the contents become what the specification of a write says, and a read at the same offset
  returns exactly the bytes that were written.\<close>

theorem tmpfs_write_read:
  assumes "tfile_ok a p s" "off \<le> length (tfile_bytes p s)" "bs \<noteq> []"
    "off + length bs \<le> tfile_limit p s"
  shows "\<exists>t. tmpfs_write p (a, bs) (of_nat off) s = Some (int (length bs), t)
    \<and> tfile_bytes p t = pwrite (tfile_bytes p s) off (map Some bs)
    \<and> tmpfs_read p a (of_nat off) (of_nat (length bs)) t = Some ((int (length bs), map Some bs), t)"
  using tfile.write_then_read [OF assms] tfile.wr_law [OF assms] by (metis Pair_inject option.inject)

theorem tmpfs_write_read_witness:
  "\<exists>t. tmpfs_write 2 (0x2000, [104, 105]) (of_nat 0) fs_demo = Some (2, t)
    \<and> tfile_bytes 2 t = [Some 104, Some 105]
    \<and> tmpfs_read 2 0x2000 (of_nat 0) (of_nat 2) t = Some ((2, [Some 104, Some 105]), t)"
  using tmpfs_write_read [OF demo_tfile_ok, of 0 "[104, 105]"]
  by (simp add: demo_tfile pwrite_def)

end
