(* ===== verification/Tmpfs_Inv.thy ===== *)
theory Tmpfs_Inv
  imports Tmpfs
begin

text \<open>
  The state of a mounted tmpfs over sequences of operations: the invariant of the super block with its
  counters of free space and free inodes, what creation, symbolic links and removal do to it, and the
  boundary cases in which the code leaves it.
\<close>

section \<open>The counters of the super block\<close>

text \<open>
  The invariant of a mounted tmpfs between operations: the directory entries are distinct inodes with
  distinct numbers and live nodes; the number of free inodes and the entries, and the free space and
  the sizes of the files, add up to the limits.
\<close>

definition child_size :: "(iptr \<rightharpoonup> inode) \<Rightarrow> superblock \<Rightarrow> iptr \<Rightarrow> nat" where
  "child_size m sb p =
     (case m p of None \<Rightarrow> 0 | Some i \<Rightarrow>
        (case cache_peek (sb_cache sb) (i_ino i) of None \<Rightarrow> 0 | Some n \<Rightarrow> unat (st_size (ti_st n))))"

definition children_live :: "sptr \<Rightarrow> superblock \<Rightarrow> iptr list \<Rightarrow> fs \<Rightarrow> bool" where
  "children_live b sb cs s \<longleftrightarrow>
     distinct cs \<and> inj_on (\<lambda>p. map_option i_ino (fs_inodes s p)) (set cs)
     \<and> (\<forall>p \<in> set cs. p < fs_next s \<and> (\<exists>i n. live_node s p i b sb n))"

definition tmpfs_inv :: "sptr \<Rightarrow> fs \<Rightarrow> bool" where
  "tmpfs_inv b s \<longleftrightarrow> (\<exists>sb cs.
     fs_sbs s b = Some sb \<and> sb_fsid sb = TMPFS_ID \<and> sb_info sb = TmpfsInfo cs \<and> cache_ok (sb_cache sb)
     \<and> children_live b sb cs s
     \<and> (\<forall>k. cache_peek (sb_cache sb) k \<noteq> None \<longrightarrow> k \<le> fs_next_ino s)
     \<and> unat (f_bavail (sb_st sb)) + sum_list (map (child_size (fs_inodes s) sb) cs) = unat TMPFS_SIZE_MAX
     \<and> unat (f_ffree (sb_st sb)) + length cs = unat TMPFS_NODES_MAX)"

lemma child_size_live: "live_node s p i b sb n \<Longrightarrow> child_size (fs_inodes s) sb p = unat (st_size (ti_st n))"
  using live_nodeD [of s p i b sb n] by (simp add: child_size_def)

lemma child_size_le:
  assumes "p \<in> set cs"
  shows "child_size m sb p \<le> sum_list (map (child_size m sb) cs)"
  using assms by (auto intro: member_le_sum_list)

lemma tmpfs_grow_nospace:
  assumes n: "live_node s p i b sb n" and "st_size (ti_st n) < stop" and "unat stop < 2 ^ 31"
    and avail: "unat (f_bavail (sb_st sb)) < 2 ^ 31"
    and full: "unat (f_bavail (sb_st sb)) \<le> unat stop - unat (st_size (ti_st n))"
  shows "tmpfs_grow b stop n s = Some (None, set_errno ENOSPC s)"
proof -
  have ud: "unat (stop - st_size (ti_st n)) = unat stop - unat (st_size (ti_st n))"
    using assms(2) by (simp add: unat_sub)
  have "long_sub (f_bavail (sb_st sb)) (stop - st_size (ti_st n)) =
      Some (int (unat (f_bavail (sb_st sb))) - int (unat (stop - st_size (ti_st n))))"
    using avail assms(3) by (intro long_sub_small) (simp_all add: ud)
  moreover have "int (unat (f_bavail (sb_st sb))) - int (unat (stop - st_size (ti_st n))) \<le> 0"
    using full unfolding ud by linarith
  ultimately show ?thesis unfolding tmpfs_grow_def live_nodeD(2) [OF n] by simp
qed

lemma tdata_write_tnode:
  assumes "tdata_write (ti_data m) off bs = Some d" and "tnode_ok m"
  shows "tnode_ok (m\<lparr>ti_data := d\<rparr>)"
  using assms by (auto simp: tdata_write_def tnode_ok_def length_mem_store split: tdata.splits)

text \<open>What a write to a live node does whenever it returns, at any offset below the limit.\<close>

lemma tmpfs_write_returns:
  assumes n: "live_node s p i b sb n" and small: "unat pos + length bs < 2 ^ 31 - 1024"
    and avail: "unat (f_bavail (sb_st sb)) < 2 ^ 31"
    and w: "tmpfs_write p (a, bs) pos s = Some (r, t)"
  shows "t = set_errno ENOSPC s \<or>
    (\<exists>m k. t = fs_written s (i_ino i) b sb k m \<and> tnode_ok m
      \<and> unat (st_size (ti_st m)) = unat (st_size (ti_st n)) + k \<and> (k = 0 \<or> k < unat (f_bavail (sb_st sb))))"
proof -
  note L = live_nodeD [OF n]
  let ?stop = "pos + of_nat (length bs)" and ?sz = "unat (st_size (ti_st n))"
  have bs: "bs \<noteq> []" "a \<noteq> 0" using w by (auto simp: tmpfs_write_def L)
  note len = write_len [OF bs(1) small]
  have w': "Option.bind (if ?stop > st_size (ti_st n) then tmpfs_grow b ?stop n s else Some (Some n, s))
      (\<lambda>(r, s). case r of None \<Rightarrow> Some (- 1, s)
        | Some n \<Rightarrow> Option.bind (tdata_write (ti_data n) (unat pos) bs) (\<lambda>d.
            Some (int (length bs), tmpfs_put b (i_ino i) (n\<lparr>ti_data := d\<rparr>) s))) = Some (r, t)"
    using w bs len(1,2)
    by (simp add: tmpfs_write_def L Let_def cong: option.case_cong split del: if_split)
  consider "\<not> ?stop > st_size (ti_st n)"
    | "?stop > st_size (ti_st n)" "unat (f_bavail (sb_st sb)) \<le> unat ?stop - ?sz"
    | "?stop > st_size (ti_st n)" "unat ?stop - ?sz < unat (f_bavail (sb_st sb))" by linarith
  then show ?thesis
  proof cases
    case 1
    with w' obtain d where d: "tdata_write (ti_data n) (unat pos) bs = Some d"
      "t = tmpfs_put b (i_ino i) (n\<lparr>ti_data := d\<rparr>) s" by (auto simp: bind_eq_Some_conv)
    with tdata_write_tnode [OF d(1) L(4)] show ?thesis
      by (intro disjI2 exI [of _ "n\<lparr>ti_data := d\<rparr>"] exI [of _ 0])
        (simp add: fs_written_def tmpfs_put_def upd_sb_eq L)
  next
    case 2
    with tmpfs_grow_nospace [OF n 2(1) _ avail 2(2)] small w' show ?thesis by (simp add: len(3))
  next
    case 3
    have st: "unat ?stop < 2 ^ 31 - 1024" using small by (simp only: len(3))
    from tmpfs_grow_live [OF n 3(1) st avail 3(2)] obtain m xs
      where m: "ti_data m = TData xs" "length xs = unat (ti_capacity m)" "?stop \<le> ti_capacity m"
        "st_size (ti_st m) = ?stop"
        "tmpfs_grow b ?stop n s = Some (Some m, upd_sb_st b (take_space (unat ?stop - ?sz)) s)" .
    with w' 3(1) obtain d where d: "tdata_write (ti_data m) (unat pos) bs = Some d"
      "t = tmpfs_put b (i_ino i) (m\<lparr>ti_data := d\<rparr>) (upd_sb_st b (take_space (unat ?stop - ?sz)) s)"
      by (auto simp: bind_eq_Some_conv)
    have "tnode_ok m" using m by (simp add: tnode_ok_def)
    with tdata_write_tnode [OF d(1)] d(2) 3 m(4) show ?thesis
      by (intro disjI2 exI [of _ "m\<lparr>ti_data := d\<rparr>"] exI [of _ "unat ?stop - ?sz"])
        (simp add: fs_written_def tmpfs_put_def upd_sb_st_def upd_sb_eq L word_less_nat_alt)
  qed
qed

lemma sum_list_change:
  fixes f g :: "'a \<Rightarrow> nat"
  assumes "distinct cs" "p \<in> set cs" "\<forall>q \<in> set cs. q \<noteq> p \<longrightarrow> g q = f q"
  shows "sum_list (map g cs) + f p = sum_list (map f cs) + g p"
  using assms
proof (induction cs)
  case (Cons x cs)
  show ?case
  proof (cases "x = p")
    case True
    with Cons.prems have "map g cs = map f cs" by (intro map_cong) auto
    then have "sum_list (map g cs) = sum_list (map f cs)" by (rule arg_cong)
    with True show ?thesis by simp
  next
    case False
    with Cons show ?thesis by auto
  qed
qed simp

lemma children_liveD:
  assumes "children_live b sb cs s" and "p \<in> set cs"
  obtains i n where "live_node s p i b sb n" "p < fs_next s"
  using assms by (auto simp: children_live_def)

lemma children_ino_neq:
  assumes "children_live b sb cs s" "p \<in> set cs" "q \<in> set cs" "q \<noteq> p"
    "fs_inodes s p = Some i" "fs_inodes s q = Some j"
  shows "i_ino j \<noteq> i_ino i"
  using assms by (auto simp: children_live_def inj_on_def)

text \<open>Replacing the node of one child by a live node leaves the children live.\<close>

lemma children_live_put:
  assumes c: "children_live b sb cs s" and p: "p \<in> set cs" and i: "fs_inodes s p = Some i"
    and m: "tnode_ok m"
    and t: "t = s\<lparr>fs_sbs := (fs_sbs s)(b \<mapsto> sb\<lparr>sb_st := v, sb_cache := cache_put (i_ino i) m (sb_cache sb)\<rparr>)\<rparr>"
  shows "children_live b (sb\<lparr>sb_st := v, sb_cache := cache_put (i_ino i) m (sb_cache sb)\<rparr>) cs t"
proof -
  let ?sb = "sb\<lparr>sb_st := v, sb_cache := cache_put (i_ino i) m (sb_cache sb)\<rparr>"
  have "\<exists>j k. live_node t q j b ?sb k" if q: "q \<in> set cs" for q
  proof -
    obtain ip np where P: "live_node s p ip b sb np" using children_liveD [OF c p] by blast
    obtain j k where Q: "live_node s q j b sb k" using children_liveD [OF c q] by blast
    note L = live_nodeD [OF P] live_nodeD [OF Q]
    have "ip = i" using i L(7) by simp
    have ok: "cache_ok (cache_put (i_ino i) m (sb_cache sb))"
      using L(5,6) \<open>ip = i\<close> by (intro cache_put_ok) auto
    show ?thesis
    proof (cases "q = p")
      case True
      then have "live_node t q i b ?sb m"
        using L ok m i \<open>ip = i\<close> by (simp add: live_node_def tmpfs_sb_iff t cache_put_peek)
      then show ?thesis by blast
    next
      case False
      then have "i_ino j \<noteq> i_ino i" using children_ino_neq [OF c p q] i L by auto
      then have "live_node t q j b ?sb k"
        using L ok by (simp add: live_node_def tmpfs_sb_iff t cache_put_peek)
      then show ?thesis by blast
    qed
  qed
  with c show ?thesis by (auto simp: children_live_def t)
qed

lemma child_size_put:
  assumes c: "children_live b sb cs s" and p: "p \<in> set cs" and i: "fs_inodes s p = Some i"
    and q: "q \<in> set cs"
  shows "child_size (fs_inodes s) (sb\<lparr>sb_st := v, sb_cache := cache_put (i_ino i) m (sb_cache sb)\<rparr>) q =
    (if q = p then unat (st_size (ti_st m)) else child_size (fs_inodes s) sb q)"
proof -
  obtain j k where Q: "live_node s q j b sb k" using children_liveD [OF c q] by blast
  show ?thesis
    using children_ino_neq [OF c p q _ i] live_nodeD(7) [OF Q] i
    by (auto simp: child_size_def cache_put_peek)
qed

text \<open>A child whose node grew by \<open>k\<close> bytes, with the space taken from the free space.\<close>

lemma tmpfs_inv_put:
  assumes I: "fs_sbs s b = Some sb" "sb_fsid sb = TMPFS_ID" "sb_info sb = TmpfsInfo cs"
      "cache_ok (sb_cache sb)" "children_live b sb cs s"
      "\<forall>k. cache_peek (sb_cache sb) k \<noteq> None \<longrightarrow> k \<le> fs_next_ino s"
      "unat (f_bavail (sb_st sb)) + sum_list (map (child_size (fs_inodes s) sb) cs) = unat TMPFS_SIZE_MAX"
      "unat (f_ffree (sb_st sb)) + length cs = unat TMPFS_NODES_MAX"
    and p: "p \<in> set cs" "live_node s p i b sb n"
    and m: "tnode_ok m" "unat (st_size (ti_st m)) = unat (st_size (ti_st n)) + k"
    and k: "k = 0 \<or> k < unat (f_bavail (sb_st sb))"
  shows "tmpfs_inv b (fs_written s (i_ino i) b sb k m)"
proof -
  note L = live_nodeD [OF p(2)]
  let ?sb = "sb\<lparr>sb_st := take_space k (sb_st sb), sb_cache := cache_put (i_ino i) m (sb_cache sb)\<rparr>"
  have av: "unat (f_bavail (take_space k (sb_st sb))) = unat (f_bavail (sb_st sb)) - k"
    using k take_space_bavail [of k "sb_st sb"] by (cases "k = 0") auto
  have "sum_list (map (child_size (fs_inodes s) ?sb) cs) + unat (st_size (ti_st n))
      = sum_list (map (child_size (fs_inodes s) sb) cs) + unat (st_size (ti_st m))"
    using sum_list_change [of cs p "child_size (fs_inodes s) ?sb" "child_size (fs_inodes s) sb"]
      child_size_put [OF I(5) p(1) L(7)] child_size_live [OF p(2)] p(1) I(5)
    by (simp add: children_live_def)
  then have "unat (f_bavail (sb_st ?sb)) + sum_list (map (child_size (fs_inodes s) ?sb) cs) = unat TMPFS_SIZE_MAX"
    using av k I(7) m(2) by auto
  moreover have "children_live b ?sb cs (fs_written s (i_ino i) b sb k m)"
    by (rule children_live_put [OF I(5) p(1) L(7) m(1)]) (simp add: fs_written_def)
  moreover have "cache_ok (cache_put (i_ino i) m (sb_cache sb))"
    using L(6) by (intro cache_put_ok I) simp
  ultimately show ?thesis
    unfolding tmpfs_inv_def using I L(6)
    by (intro exI [of _ ?sb] exI [of _ cs])
      (auto simp: fs_written_def cache_put_peek take_space_def)
qed

lemma find_child_SomeD:
  assumes "find_child m cs dir nm = Some (Some d)"
  shows "d \<in> set cs \<and> (\<exists>i. m d = Some i \<and> i_parent i = Some dir \<and> name_eq (i_name i) nm = Some True)"
  using assms by (induction cs) (auto simp: bind_eq_Some_conv split: if_splits)

lemma tmpfs_invD:
  assumes "tmpfs_inv b s" and "fs_sbs s b = Some sb" "sb_info sb = TmpfsInfo cs"
  shows "sb_fsid sb = TMPFS_ID" "cache_ok (sb_cache sb)" "children_live b sb cs s"
    "\<forall>k. cache_peek (sb_cache sb) k \<noteq> None \<longrightarrow> k \<le> fs_next_ino s"
    "unat (f_bavail (sb_st sb)) + sum_list (map (child_size (fs_inodes s) sb) cs) = unat TMPFS_SIZE_MAX"
    "unat (f_ffree (sb_st sb)) + length cs = unat TMPFS_NODES_MAX"
  using assms by (auto simp: tmpfs_inv_def)

lemma tmpfs_inv_write:
  assumes I: "tmpfs_inv b s" and sb: "fs_sbs s b = Some sb" "sb_info sb = TmpfsInfo cs" and p: "p \<in> set cs"
    and small: "unat pos + length bs < 2 ^ 31 - 1024" and w: "tmpfs_write p (a, bs) pos s = Some (r, t)"
  shows "tmpfs_inv b t"
proof -
  note J = tmpfs_invD [OF I sb]
  obtain i n where n: "live_node s p i b sb n" using children_liveD [OF J(3) p] by blast
  have "unat (f_bavail (sb_st sb)) < 2 ^ 31" using J(5) by (simp add: TMPFS_SIZE_MAX_def)
  from tmpfs_write_returns [OF n small this w] show ?thesis
  proof (elim disjE exE conjE)
    assume "t = set_errno ENOSPC s"
    with I show ?thesis by (simp add: tmpfs_inv_def children_live_def live_node_def tmpfs_sb_iff)
  qed (use tmpfs_inv_put [OF sb(1) J(1) sb(2) J(2-6) p n] in auto)
qed

lemma tmpfs_inv_setattr:
  assumes I: "tmpfs_inv b s" and sb: "fs_sbs s b = Some sb" "sb_info sb = TmpfsInfo cs" and p: "p \<in> set cs"
    and w: "tmpfs_setattr p st s = Some (r, t)"
  shows "tmpfs_inv b t"
proof -
  note J = tmpfs_invD [OF I sb]
  obtain i n where n: "live_node s p i b sb n" using children_liveD [OF J(3) p] by blast
  note L = live_nodeD [OF n]
  let ?m = "n\<lparr>ti_st := (ti_st n)\<lparr>st_mode := st_mode (snd st), st_uid := st_uid (snd st),
                 st_gid := st_gid (snd st), st_atime := st_atime (snd st),
                 st_mtime := st_mtime (snd st), st_ctime := st_ctime (snd st)\<rparr>\<rparr>"
  have "t = fs_written s (i_ino i) b sb 0 ?m"
    using w by (auto simp: tmpfs_setattr_def L tmpfs_put_def fs_written_def upd_sb_eq)
  moreover have "tnode_ok ?m" using L(4) by (simp add: tnode_ok_def split: tdata.splits)
  ultimately show ?thesis
    using tmpfs_inv_put [OF sb(1) J(1) sb(2) J(2-6) p n, of ?m 0] by simp
qed

text \<open>Only the numbers and super blocks of the inodes matter.\<close>

lemma tmpfs_inv_cong:
  assumes I: "tmpfs_inv b s" and sel: "fs_sbs t = fs_sbs s" "fs_next t = fs_next s" "fs_next_ino t = fs_next_ino s"
    and ino: "\<forall>q. map_option (\<lambda>i. (i_ino i, i_sb i)) (fs_inodes t q) = map_option (\<lambda>i. (i_ino i, i_sb i)) (fs_inodes s q)"
  shows "tmpfs_inv b t"
proof -
  have inj: "map_option i_ino (fs_inodes t q) = map_option i_ino (fs_inodes s q)" for q
    using arg_cong [OF spec [OF ino, of q], of "map_option fst"] by (simp add: option.map_comp comp_def)
  have "child_size (fs_inodes t) sb q = child_size (fs_inodes s) sb q" for sb q
    using inj [of q] by (auto simp: child_size_def split: option.splits)
  then have sz: "child_size (fs_inodes t) sb = child_size (fs_inodes s) sb" for sb by (rule ext)
  have "\<exists>j n. live_node t q j b sb n" if "live_node s q i b sb n" for q i sb n
    using live_nodeD [OF that] spec [OF ino, of q]
    by (cases "fs_inodes t q") (auto simp: live_node_def tmpfs_sb_iff sel)
  then have "children_live b sb cs s \<Longrightarrow> children_live b sb cs t" for sb cs
    unfolding children_live_def inj sel by blast
  with I show ?thesis unfolding tmpfs_inv_def sel sz by blast
qed

lemma tmpfs_inv_rename:
  assumes I: "tmpfs_inv b s" and w: "tmpfs_rename p nm newnm s = Some (r, t)"
  shows "tmpfs_inv b t"
proof -
  have "t = set_errno ENOENT s \<or> (\<exists>d. t = upd_inode d (\<lambda>i. i\<lparr>i_name := take MAXNAMLEN (snd newnm)\<rparr>) s)"
    using w by (auto simp: tmpfs_rename_def bind_eq_Some_conv split: option.splits)
  with I show ?thesis by (auto elim!: tmpfs_inv_cong simp: option.map_comp comp_def)
qed

text \<open>
  Creation. The number after the last one is not in the cache, so a new item is loaded for it; the
  resulting state is given by what it adds.
\<close>

definition fs_created ::
  "fs \<Rightarrow> iptr \<Rightarrow> sptr \<Rightarrow> string \<Rightarrow> u32 \<Rightarrow> superblock \<Rightarrow> fs" where
  "fs_created s dir b nm mode sb =
     s\<lparr>fs_next_ino := fs_next_ino s + 1, fs_next := fs_next s + 1,
       fs_inodes := (fs_inodes s)(fs_next s \<mapsto>
         \<lparr>i_name = take MAXNAMLEN nm, i_ino = fs_next_ino s + 1, i_sb = Some b,
          i_ops = ops_of Tmpfs (tmpfs_vops mode), i_parent = Some dir, i_lock = False\<rparr>),
       fs_sbs := (fs_sbs s)(b \<mapsto> sb)\<rparr>"

definition sb_created :: "superblock \<Rightarrow> tmpfs_inode vfs_cache \<Rightarrow> iptr list \<Rightarrow> superblock" where
  "sb_created sb c cs = sb\<lparr>sb_cache := c,
     sb_st := (sb_st sb)\<lparr>f_ffree := f_ffree (sb_st sb) - 1, f_favail := f_favail (sb_st sb) - 1\<rparr>,
     sb_info := TmpfsInfo cs\<rparr>"

definition new_node :: "fs \<Rightarrow> u32 \<Rightarrow> tmpfs_inode" where
  "new_node s mode = (tmpfs_cache_load s (fs_next_ino s + 1))
     \<lparr>ti_st := (ti_st (tmpfs_cache_load s (fs_next_ino s + 1)))\<lparr>st_mode := mode AND NOT (t_umask (fs_task s))\<rparr>\<rparr>"

lemma new_node_ok: "tnode_ok (new_node s mode)" "st_size (ti_st (new_node s mode)) = 0"
    "ti_data (new_node s mode) = TNull"
  by (simp_all add: new_node_def tnode_ok_def tmpfs_cache_load_def stat_zero_def)

lemma tmpfs_creat_eq:
  assumes sb: "tmpfs_sb dir s = Some (i, b, sb)" and cs: "sb_info sb = TmpfsInfo cs"
    and ok: "cache_ok (sb_cache sb)" and fresh: "cache_peek (sb_cache sb) (fs_next_ino s + 1) = None"
    and nm: "fst nm \<noteq> 0" and room: "cache_room (sb_cache sb)" and free: "f_ffree (sb_st sb) \<noteq> 0"
  obtains c where "cache_ok c" "cache_peek c = (cache_peek (sb_cache sb))(fs_next_ino s + 1 \<mapsto> new_node s mode)"
    "c_capacity c = c_capacity (sb_cache sb)" "c_count c = c_count (sb_cache sb) + 1"
    "tmpfs_creat dir nm mode s = Some (Some (fs_next s),
       fs_created s dir b (snd nm) mode (sb_created sb c (cs @ [fs_next s])))"
proof -
  let ?ino = "fs_next_ino s + 1" and ?s = "s\<lparr>fs_next_ino := fs_next_ino s + 1\<rparr>"
  let ?c = "(sb_cache sb)\<lparr>c_items := c_items (sb_cache sb) @ [(?ino, tmpfs_cache_load s ?ino)],
              c_count := c_count (sb_cache sb) + 1\<rparr>"
  have load: "tmpfs_cache_load ?s = tmpfs_cache_load s" by (rule ext) (simp add: tmpfs_cache_load_def)
  have b: "fs_sbs s b = Some sb" using sb by (simp add: tmpfs_sb_iff)
  have get: "tmpfs_get b ?ino ?s = Some (tmpfs_cache_load s ?ino, upd_sb b (\<lambda>sb. sb\<lparr>sb_cache := ?c\<rparr>) ?s)"
    using b vfs_cache_get_miss [OF ok fresh room, of "\<lambda>ino s. Some (tmpfs_cache_load s ino, s)" ?s]
    by (simp add: tmpfs_get_def load)
  have c: "cache_ok ?c" "cache_peek ?c = (cache_peek (sb_cache sb))(?ino \<mapsto> tmpfs_cache_load s ?ino)"
    using cache_append_ok [OF ok fresh room] cache_append_peek [OF fresh] by simp_all
  have nn: "(tmpfs_cache_load s ?ino)\<lparr>ti_capacity := 0, ti_data := TNull,
      ti_st := (ti_st (tmpfs_cache_load s ?ino))\<lparr>st_mode := mode AND NOT (t_umask (fs_task s))\<rparr>\<rparr> = new_node s mode"
    by (simp add: new_node_def tmpfs_cache_load_def)
  have ino: "st_ino (ti_st (tmpfs_cache_load s ?ino)) = ?ino" by (simp add: tmpfs_cache_load_def)
  show thesis
  proof (rule that [of "cache_put ?ino (new_node s mode) ?c"])
    show "cache_ok (cache_put ?ino (new_node s mode) ?c)" using c by (simp add: cache_put_ok)
    show "tmpfs_creat dir nm mode s = Some (Some (fs_next s), fs_created s dir b (snd nm) mode
        (sb_created sb (cache_put ?ino (new_node s mode) ?c) (cs @ [fs_next s])))"
      using free nm
      by (simp add: tmpfs_creat_def sb get nn ino tmpfs_children_def cs tmpfs_put_def upd_sb_st_def
          upd_sb_def b fs_created_def sb_created_def Let_def)
    show "cache_peek (cache_put ?ino (new_node s mode) ?c)
        = (cache_peek (sb_cache sb))(?ino \<mapsto> new_node s mode)" by (simp add: cache_put_peek c(2))
  qed simp_all
qed

lemma tmpfs_creat_full:
  assumes sb: "tmpfs_sb dir s = Some (i, b, sb)" and ok: "cache_ok (sb_cache sb)"
    and fresh: "cache_peek (sb_cache sb) (fs_next_ino s + 1) = None"
    and full: "\<not> cache_room (sb_cache sb)" and free: "f_ffree (sb_st sb) \<noteq> 0"
  shows "tmpfs_creat dir nm mode s = None"
proof -
  have "fs_sbs s b = Some sb" using sb by (simp add: tmpfs_sb_iff)
  then have "tmpfs_get b (fs_next_ino s + 1) (s\<lparr>fs_next_ino := fs_next_ino s + 1\<rparr>) = None"
    by (simp add: tmpfs_get_def vfs_cache_get_full [OF ok fresh disjI1 [OF full]])
  with free show ?thesis by (simp add: tmpfs_creat_def sb Let_def)
qed

lemma next_ino_fresh:
  assumes "\<forall>k. cache_peek c k \<noteq> None \<longrightarrow> k \<le> (l :: u32)" and "l \<noteq> - 1"
  shows "cache_peek c (l + 1) = None" "l < l + 1"
proof -
  have "l + 1 \<noteq> 0" using assms(2) by (simp add: add_eq_0_iff2)
  then have "unat l + 1 \<noteq> 2 ^ 32" by (auto simp: unat_eq_0 [symmetric] unat_word_ariths)
  then show "l < l + 1"
    using unat_u32_less [of l] by (simp add: word_less_nat_alt unat_word_ariths)
  then show "cache_peek c (l + 1) = None" using assms(1) by (metis not_le)
qed

text \<open>A new child at the end of the list, with a new number, in an extended cache.\<close>

lemma children_live_created:
  assumes c: "children_live b sb cs s"
    and bound: "\<forall>k. cache_peek (sb_cache sb) k \<noteq> None \<longrightarrow> k \<le> fs_next_ino s"
    and less: "fs_next_ino s < fs_next_ino s + 1"
    and C: "cache_ok C" "cache_peek C = (cache_peek (sb_cache sb))(fs_next_ino s + 1 \<mapsto> n)" "tnode_ok n"
    and sb': "sb_cache sb' = C" "sb_fsid sb' = TMPFS_ID"
  shows "children_live b sb' (cs @ [fs_next s]) (fs_created s dir b nm mode sb')"
proof -
  let ?t = "fs_created s dir b nm mode sb'"
  have new: "fs_next s \<notin> set cs" using c by (auto simp: children_live_def)
  have old: "fs_inodes ?t q = fs_inodes s q" if "q \<in> set cs" for q
    using new that by (auto simp: fs_created_def)
  have ino: "\<exists>i k. live_node s q i b sb k \<and> i_ino i \<noteq> fs_next_ino s + 1" if "q \<in> set cs" for q
  proof -
    obtain i k where k: "live_node s q i b sb k" using children_liveD [OF c \<open>q \<in> set cs\<close>] by blast
    then have "i_ino i \<le> fs_next_ino s" using bound live_nodeD(6) [OF k] by simp
    with k less show ?thesis by (metis not_le)
  qed
  have "\<exists>i k. live_node ?t q i b sb' k" if "q \<in> set (cs @ [fs_next s])" for q
  proof (cases "q \<in> set cs")
    case True
    with ino obtain i k where k: "live_node s q i b sb k" "i_ino i \<noteq> fs_next_ino s + 1" by blast
    note L = live_nodeD [OF k(1)]
    have "live_node ?t q i b sb' k"
      using L k(2) C sb' old [OF True] by (simp add: live_node_def tmpfs_sb_iff fs_created_def)
    then show ?thesis by blast
  next
    case False
    with that have "q = fs_next s" by simp
    with C sb' show ?thesis by (simp add: live_node_def tmpfs_sb_iff fs_created_def)
  qed
  moreover have "\<forall>q \<in> set cs. map_option i_ino (fs_inodes s q) \<noteq> Some (fs_next_ino s + 1)"
    "\<forall>q \<in> set cs. Some (fs_next_ino s + 1) \<noteq> map_option i_ino (fs_inodes s q)"
    using ino live_nodeD(7) by fastforce+
  then have "inj_on (\<lambda>p. map_option i_ino (fs_inodes ?t p)) (set (cs @ [fs_next s]))"
    using c new by (auto simp: children_live_def fs_created_def inj_on_def)
  ultimately show ?thesis
    using c new unfolding children_live_def by (auto simp: fs_created_def less_Suc_eq)
qed

lemma child_size_created:
  assumes c: "children_live b sb cs s"
    and bound: "\<forall>k. cache_peek (sb_cache sb) k \<noteq> None \<longrightarrow> k \<le> fs_next_ino s"
    and less: "fs_next_ino s < fs_next_ino s + 1"
    and C: "cache_peek (sb_cache sb') = (cache_peek (sb_cache sb))(fs_next_ino s + 1 \<mapsto> n)"
      "st_size (ti_st n) = 0"
  shows "sum_list (map (child_size (fs_inodes (fs_created s dir b nm mode sb')) sb') (cs @ [fs_next s]))
    = sum_list (map (child_size (fs_inodes s) sb) cs)"
proof -
  let ?t = "fs_created s dir b nm mode sb'"
  have "child_size (fs_inodes ?t) sb' q = child_size (fs_inodes s) sb q" if "q \<in> set cs" for q
  proof -
    obtain i k where k: "live_node s q i b sb k" "q < fs_next s"
      using children_liveD [OF c \<open>q \<in> set cs\<close>] by blast
    note L = live_nodeD [OF k(1)]
    have "i_ino i \<le> fs_next_ino s" using bound L(6) by simp
    with less have "i_ino i \<noteq> fs_next_ino s + 1" by (metis not_le)
    with L(7) C(1) k(2) show ?thesis by (simp add: child_size_def fs_created_def)
  qed
  then have "map (child_size (fs_inodes ?t) sb') cs = map (child_size (fs_inodes s) sb) cs" by simp
  then have "sum_list (map (child_size (fs_inodes ?t) sb') cs) = sum_list (map (child_size (fs_inodes s) sb) cs)"
    by (rule arg_cong)
  moreover have "child_size (fs_inodes ?t) sb' (fs_next s) = 0"
    using C by (simp add: child_size_def fs_created_def)
  ultimately show ?thesis by simp
qed

lemma tmpfs_inv_creat:
  assumes I: "tmpfs_inv b s" and sb: "tmpfs_sb dir s = Some (i, b, sb)" and more: "fs_next_ino s \<noteq> - 1"
    and w: "tmpfs_creat dir nm mode s = Some (r, t)"
  shows "tmpfs_inv b t"
proof (cases "f_ffree (sb_st sb) = 0")
  case True
  then have "t = set_errno ENOSPC s" using w by (auto simp: tmpfs_creat_def sb bind_eq_Some_conv)
  with I show ?thesis by (simp add: tmpfs_inv_def children_live_def live_node_def tmpfs_sb_iff)
next
  case False
  have b: "fs_sbs s b = Some sb" using sb by (simp add: tmpfs_sb_iff)
  with I obtain cs where cs: "sb_info sb = TmpfsInfo cs" by (auto simp: tmpfs_inv_def)
  note J = tmpfs_invD [OF I b cs] and F = next_ino_fresh [OF tmpfs_invD(4) [OF I b cs] more]
  have nm: "fst nm \<noteq> 0" using w by (auto simp: tmpfs_creat_def sb)
  have room: "cache_room (sb_cache sb)"
    using tmpfs_creat_full [OF sb J(2) F(1) _ False, of nm mode] w by (cases "cache_room (sb_cache sb)") auto
  obtain c where c: "cache_ok c" "cache_peek c = (cache_peek (sb_cache sb))(fs_next_ino s + 1 \<mapsto> new_node s mode)"
    "tmpfs_creat dir nm mode s = Some (Some (fs_next s),
       fs_created s dir b (snd nm) mode (sb_created sb c (cs @ [fs_next s])))"
    using tmpfs_creat_eq [OF sb cs J(2) F(1) nm room False] by metis
  let ?sb = "sb_created sb c (cs @ [fs_next s])"
  have t: "t = fs_created s dir b (snd nm) mode ?sb" using w c(3) by simp
  have sel: "sb_cache ?sb = c" "sb_fsid ?sb = TMPFS_ID" "sb_info ?sb = TmpfsInfo (cs @ [fs_next s])"
    "f_bavail (sb_st ?sb) = f_bavail (sb_st sb)" "f_ffree (sb_st ?sb) = f_ffree (sb_st sb) - 1"
    using J(1) by (simp_all add: sb_created_def)
  have "unat (f_ffree (sb_st sb) - 1) = unat (f_ffree (sb_st sb)) - 1" "unat (f_ffree (sb_st sb)) \<noteq> 0"
    using False by (simp_all add: unat_minus_one unat_eq_zero)
  then have ff: "unat (f_ffree (sb_st ?sb)) + length (cs @ [fs_next s]) = unat TMPFS_NODES_MAX"
    using J(6) sel(5) by simp
  have live: "children_live b ?sb (cs @ [fs_next s]) t"
    unfolding t by (rule children_live_created [OF J(3,4) F(2) c(1,2) new_node_ok(1) sel(1,2)])
  have sum: "unat (f_bavail (sb_st ?sb)) + sum_list (map (child_size (fs_inodes t) ?sb) (cs @ [fs_next s]))
      = unat TMPFS_SIZE_MAX"
    using child_size_created [OF J(3,4) F(2), of ?sb] c(2) new_node_ok(2) J(5) sel
    unfolding t by simp
  have "fs_sbs t b = Some ?sb" "fs_next_ino t = fs_next_ino s + 1" by (simp_all add: t fs_created_def)
  moreover have "\<forall>k. cache_peek c k \<noteq> None \<longrightarrow> k \<le> fs_next_ino s + 1"
    using J(4) F(2) c(2) by (auto intro: order_trans less_imp_le)
  ultimately show ?thesis
    unfolding tmpfs_inv_def using live sum ff sel(1-3) c(1) by auto
qed

text \<open>Removal of a child; only the item of its number may have changed in the cache.\<close>

lemma children_live_removed:
  assumes c: "children_live b sb cs s" and d: "d \<in> set cs" "fs_inodes s d = Some j"
    and C: "cache_ok (sb_cache sb')" "\<forall>k. k \<noteq> i_ino j \<longrightarrow> cache_peek (sb_cache sb') k = cache_peek (sb_cache sb) k"
    and sb': "sb_fsid sb' = TMPFS_ID" and t: "t = s\<lparr>fs_sbs := (fs_sbs s)(b \<mapsto> sb')\<rparr>"
  shows "children_live b sb' (remove1 d cs) t"
    "sum_list (map (child_size (fs_inodes t) sb') (remove1 d cs)) + child_size (fs_inodes s) sb d
      = sum_list (map (child_size (fs_inodes s) sb) cs)"
proof -
  have dist: "distinct cs" using c by (simp add: children_live_def)
  then have sub: "set (remove1 d cs) = set cs - {d}" by simp
  have keep: "live_node t q i b sb' n \<and> child_size (fs_inodes t) sb' q = child_size (fs_inodes s) sb q"
    if q: "q \<in> set (remove1 d cs)" and n: "live_node s q i b sb n" for q i n
  proof -
    note L = live_nodeD [OF n]
    have "i_ino i \<noteq> i_ino j" using children_ino_neq [OF c d(1) _ _ d(2) L(7)] q sub by auto
    then have "cache_peek (sb_cache sb') (i_ino i) = cache_peek (sb_cache sb) (i_ino i)" using C(2) by simp
    with L C(1) sb' show ?thesis by (simp add: live_node_def tmpfs_sb_iff child_size_def t)
  qed
  have live: "\<exists>i n. live_node s q i b sb n" if "q \<in> set cs" for q
    using children_liveD [OF c that] by blast
  have "\<exists>i n. live_node t q i b sb' n" if "q \<in> set (remove1 d cs)" for q
    using keep [OF that] live [of q] that sub by blast
  then show "children_live b sb' (remove1 d cs) t"
    using c sub dist unfolding children_live_def by (auto simp: t intro: inj_on_subset)
  have "child_size (fs_inodes t) sb' q = child_size (fs_inodes s) sb q" if "q \<in> set (remove1 d cs)" for q
    using keep [OF that] live [of q] that sub by blast
  then have "map (child_size (fs_inodes t) sb') (remove1 d cs) = map (child_size (fs_inodes s) sb) (remove1 d cs)"
    by (intro map_cong) auto
  with sum_list_map_remove1 [OF d(1), of "child_size (fs_inodes s) sb"]
  show "sum_list (map (child_size (fs_inodes t) sb') (remove1 d cs)) + child_size (fs_inodes s) sb d
      = sum_list (map (child_size (fs_inodes s) sb) cs)" by (simp only: add.commute)
qed

definition sb_removed :: "superblock \<Rightarrow> tmpfs_inode vfs_cache \<Rightarrow> iptr list \<Rightarrow> u32 \<Rightarrow> superblock" where
  "sb_removed sb c cs sz = sb\<lparr>sb_info := TmpfsInfo cs,
     sb_st := (sb_st sb)\<lparr>f_ffree := f_ffree (sb_st sb) + 1, f_favail := f_favail (sb_st sb) + 1,
       f_bavail := f_bavail (sb_st sb) + sz, f_bfree := f_bfree (sb_st sb) + sz\<rparr>, sb_cache := c\<rparr>"

lemma tmpfs_unlink_eq:
  assumes sb: "tmpfs_sb dir s = Some (i, b, sb)" "sb_info sb = TmpfsInfo cs" and nm: "fst nm \<noteq> 0"
    and f: "find_child (fs_inodes s) cs dir (snd nm) = Some (Some d)" and n: "live_node s d j b sb n"
  obtains c where "cache_ok c" "\<forall>k. k \<noteq> i_ino j \<longrightarrow> cache_peek c k = cache_peek (sb_cache sb) k"
    "cache_peek c (i_ino j) \<noteq> None" "c_count c = c_count (sb_cache sb)"
    "c_capacity c = c_capacity (sb_cache sb)"
    "tmpfs_unlink dir nm s = Some (0, s\<lparr>fs_sbs := (fs_sbs s)(b \<mapsto>
       sb_removed sb c (remove1 d cs) (st_size (ti_st n)))\<rparr>)"
proof -
  note L = live_nodeD [OF n]
  let ?s = "s\<lparr>fs_sbs := (fs_sbs s)(b \<mapsto> sb\<lparr>sb_info := TmpfsInfo (remove1 d cs)\<rparr>)\<rparr>"
  have get: "tmpfs_get b (i_ino j) ?s = Some (n, ?s)"
    using L by (intro tmpfs_get_hit [of _ _ "sb\<lparr>sb_info := TmpfsInfo (remove1 d cs)\<rparr>"]) simp_all
  have nf: "ti_data n \<noteq> TFreed" using L(4) by (auto simp: tnode_ok_def)
  show thesis
  proof (cases "ti_data n = TNull")
    case True
    show ?thesis
      by (rule that [of "sb_cache sb"])
        (use True nm L in \<open>simp_all add: tmpfs_unlink_def sb tmpfs_children_def f get upd_sb_st_def upd_sb_def
          sb_removed_def Let_def\<close>)
  next
    case False
    show ?thesis
      by (rule that [of "cache_put (i_ino j) (n\<lparr>ti_data := TFreed\<rparr>) (sb_cache sb)"])
        (use False nf nm L in \<open>simp_all add: tmpfs_unlink_def sb tmpfs_children_def f get upd_sb_st_def
          upd_sb_def sb_removed_def tmpfs_put_def cache_put_ok cache_put_peek Let_def\<close>)
  qed
qed

lemma tmpfs_inv_unlink:
  assumes I: "tmpfs_inv b s" and sb: "tmpfs_sb dir s = Some (i, b, sb)"
    and w: "tmpfs_unlink dir nm s = Some (r, t)"
  shows "tmpfs_inv b t"
proof -
  have b: "fs_sbs s b = Some sb" using sb by (simp add: tmpfs_sb_iff)
  with I obtain cs where cs: "sb_info sb = TmpfsInfo cs" by (auto simp: tmpfs_inv_def)
  note J = tmpfs_invD [OF I b cs]
  have nm: "fst nm \<noteq> 0" using w by (auto simp: tmpfs_unlink_def sb)
  from w obtain x where x: "find_child (fs_inodes s) cs dir (snd nm) = Some x"
    by (auto simp: tmpfs_unlink_def sb tmpfs_children_def cs bind_eq_Some_conv)
  show ?thesis
  proof (cases x)
    case None
    with w x have "t = set_errno ENOENT s" by (auto simp: tmpfs_unlink_def sb tmpfs_children_def cs)
    with I show ?thesis by (simp add: tmpfs_inv_def children_live_def live_node_def tmpfs_sb_iff)
  next
    case (Some d)
    with x have f: "find_child (fs_inodes s) cs dir (snd nm) = Some (Some d)" by simp
    have d: "d \<in> set cs" using find_child_SomeD [OF f] by blast
    obtain j n where n: "live_node s d j b sb n" using children_liveD [OF J(3) d] by blast
    obtain c where c: "cache_ok c" "\<forall>k. k \<noteq> i_ino j \<longrightarrow> cache_peek c k = cache_peek (sb_cache sb) k"
      and u: "tmpfs_unlink dir nm s = Some (0, s\<lparr>fs_sbs := (fs_sbs s)(b \<mapsto>
         sb_removed sb c (remove1 d cs) (st_size (ti_st n)))\<rparr>)"
      using tmpfs_unlink_eq [OF sb cs nm f n] by metis
    let ?sb = "sb_removed sb c (remove1 d cs) (st_size (ti_st n))"
    have t: "t = s\<lparr>fs_sbs := (fs_sbs s)(b \<mapsto> ?sb)\<rparr>" using w u by simp
    have sel: "sb_cache ?sb = c" "sb_fsid ?sb = TMPFS_ID" "sb_info ?sb = TmpfsInfo (remove1 d cs)"
      using J(1) by (simp_all add: sb_removed_def)
    have R: "children_live b ?sb (remove1 d cs) t"
      "sum_list (map (child_size (fs_inodes t) ?sb) (remove1 d cs)) + child_size (fs_inodes s) sb d
        = sum_list (map (child_size (fs_inodes s) sb) cs)"
      using children_live_removed [OF J(3) d live_nodeD(7) [OF n], of ?sb t] c sel t by simp_all
    have cd: "child_size (fs_inodes s) sb d = unat (st_size (ti_st n))" by (rule child_size_live [OF n])
    have "unat (f_bavail (sb_st sb)) + unat (st_size (ti_st n)) \<le> unat TMPFS_SIZE_MAX"
      using J(5) child_size_le [OF d, of "fs_inodes s" sb] cd by simp
    then have av: "unat (f_bavail (sb_st ?sb)) = unat (f_bavail (sb_st sb)) + unat (st_size (ti_st n))"
      by (simp add: sb_removed_def unat_add_small TMPFS_SIZE_MAX_def)
    have "length cs = length (remove1 d cs) + 1"
      using d length_pos_if_in_set [OF d] by (simp add: length_remove1)
    moreover have "unat (f_ffree (sb_st sb) + 1) = unat (f_ffree (sb_st sb)) + 1"
      using J(6) by (intro unat_Suc_word) (simp add: TMPFS_NODES_MAX_def)
    ultimately have ff: "unat (f_ffree (sb_st ?sb)) + length (remove1 d cs) = unat TMPFS_NODES_MAX"
      using J(6) by (simp add: sb_removed_def)
    have "\<forall>k. cache_peek c k \<noteq> None \<longrightarrow> k \<le> fs_next_ino s"
      using J(4) c(2) live_nodeD(6) [OF n] by (metis option.distinct(1))
    with R av ff sel c(1) J(5) cd show ?thesis
      unfolding tmpfs_inv_def by (intro exI [of _ ?sb] exI [of _ "remove1 d cs"]) (simp add: t)
  qed
qed

text \<open>Mounting establishes the invariant, with an empty directory.\<close>

lemma tmpfs_mount_inv:
  assumes i: "fs_inodes s dir = Some i" and ino: "i_ino i \<le> fs_next_ino s"
  obtains t where "tmpfs_mount None dir flags s = Some (0, t)" "tmpfs_inv (fs_next s) t"
    "fs_next t = fs_next s + 1" "\<forall>q. fs_inodes t q = None \<longleftrightarrow> fs_inodes s q = None"
proof -
  let ?c0 = "\<lparr>c_capacity = TMPFS_NODES_MAX, c_count = 0, c_items = [], c_lock = False\<rparr> :: tmpfs_inode vfs_cache"
  have cr: "vfs_cache_create TMPFS_NODES_MAX = Some ?c0"
    by (simp add: vfs_cache_create_def TMPFS_NODES_MAX_def)
  note C = vfs_cache_create_ok [OF cr]
  have none: "cache_peek ?c0 (i_ino i) = None" using C(2) by simp
  define f where "f = (\<lambda>x. tmpfs_cache_load s x)"
  define c1 where "c1 = ?c0\<lparr>c_items := c_items ?c0 @ [(i_ino i, f (i_ino i))], c_count := c_count ?c0 + 1\<rparr>"
  have c1: "cache_ok c1" "cache_peek c1 = [i_ino i \<mapsto> f (i_ino i)]"
    using cache_append_ok [OF C(1) none C(3)] cache_append_peek [OF none] C(2) by (simp_all add: c1_def)
  have get: "vfs_cache_get (\<lambda>ino s. Some (tmpfs_cache_load s ino, s)) (i_ino i) (?c0, u)
      = Some (tmpfs_cache_load u (i_ino i), c1\<lparr>c_items := [(i_ino i, tmpfs_cache_load u (i_ino i))]\<rparr>, u)" for u
    using vfs_cache_get_miss [OF C(1) none C(3), of "\<lambda>ino s. Some (tmpfs_cache_load s ino, s)" u] by (simp add: c1_def)
  have c1_items: "c1\<lparr>c_items := [(i_ino i, f (i_ino i))]\<rparr> = c1" by (simp add: c1_def)
  have load: "tmpfs_cache_load (upd_inode d g (s\<lparr>fs_sbs := m, fs_next := k\<rparr>)) = f" for d g m k
    by (rule ext) (simp add: f_def tmpfs_cache_load_def)
  define n where "n = (f (i_ino i))\<lparr>ti_st := (ti_st (f (i_ino i)))\<lparr>st_mode :=
      (st_mode (ti_st (f (i_ino i))) AND NOT S_IFMT) OR S_IFMT\<rparr>\<rparr>"
  obtain t where t: "tmpfs_mount None dir flags s = Some (0, t)"
    by (simp add: tmpfs_mount_def i cr new_sb_def tmpfs_get_def load get Let_def)
  then have sb: "\<exists>sb. fs_sbs t (fs_next s) = Some sb \<and> sb_fsid sb = TMPFS_ID \<and> sb_info sb = TmpfsInfo []
      \<and> sb_cache sb = cache_put (i_ino i) n c1 \<and> f_bavail (sb_st sb) = TMPFS_SIZE_MAX
      \<and> f_ffree (sb_st sb) = TMPFS_NODES_MAX"
    and ni: "fs_next_ino t = fs_next_ino s" and nx: "fs_next t = fs_next s + 1"
    and dm: "\<forall>q. fs_inodes t q = None \<longleftrightarrow> fs_inodes s q = None"
    by (auto simp: tmpfs_mount_def i cr new_sb_def tmpfs_get_def load get c1_items Let_def tmpfs_put_def n_def split: if_splits)
  have "cache_ok (cache_put (i_ino i) n c1)" using c1 by (intro cache_put_ok) simp_all
  moreover have "\<forall>k. cache_peek (cache_put (i_ino i) n c1) k \<noteq> None \<longrightarrow> k \<le> fs_next_ino t"
    using ino by (simp add: cache_put_peek c1(2) ni)
  ultimately have "tmpfs_inv (fs_next s) t"
    using sb by (auto simp: tmpfs_inv_def children_live_def)
  with t nx dm that show thesis by blast
qed

text \<open>
  The operations on one mounted file system that the counters follow: creation in a directory of it,
  removal, renaming, and writing and changing attributes of its entries.
\<close>

inductive tmpfs_step :: "sptr \<Rightarrow> fs \<Rightarrow> fs \<Rightarrow> bool" for b where
  creat_step: "tmpfs_sb dir s = Some (i, b, sb) \<Longrightarrow> fs_next_ino s \<noteq> - 1 \<Longrightarrow>
    tmpfs_creat dir nm mode s = Some (r, t) \<Longrightarrow> tmpfs_step b s t"
| unlink_step: "tmpfs_sb dir s = Some (i, b, sb) \<Longrightarrow> tmpfs_unlink dir nm s = Some (r, t) \<Longrightarrow> tmpfs_step b s t"
| rename_step: "tmpfs_rename dir nm newnm s = Some (r, t) \<Longrightarrow> tmpfs_step b s t"
| write_step: "fs_sbs s b = Some sb \<Longrightarrow> sb_info sb = TmpfsInfo cs \<Longrightarrow> p \<in> set cs \<Longrightarrow>
    unat pos + length bs < 2 ^ 31 - 1024 \<Longrightarrow> tmpfs_write p (a, bs) pos s = Some (r, t) \<Longrightarrow> tmpfs_step b s t"
| setattr_step: "fs_sbs s b = Some sb \<Longrightarrow> sb_info sb = TmpfsInfo cs \<Longrightarrow> p \<in> set cs \<Longrightarrow>
    tmpfs_setattr p st s = Some (r, t) \<Longrightarrow> tmpfs_step b s t"

lemma tmpfs_inv_step: "tmpfs_step b s t \<Longrightarrow> tmpfs_inv b s \<Longrightarrow> tmpfs_inv b t"
  by (induction rule: tmpfs_step.induct)
    (blast intro: tmpfs_inv_creat tmpfs_inv_unlink tmpfs_inv_rename tmpfs_inv_write tmpfs_inv_setattr)+

lemma tmpfs_inv_reachable: "(tmpfs_step b)\<^sup>*\<^sup>* s t \<Longrightarrow> tmpfs_inv b s \<Longrightarrow> tmpfs_inv b t"
  by (induction rule: rtranclp_induct) (auto intro: tmpfs_inv_step)


text \<open>The state at boot, a tmpfs mounted on the root directory, and a file created in it.\<close>

definition fs_boot :: fs where
  "fs_boot = vfs_init (fs_demo\<lparr>fs_inodes := Map.empty, fs_sbs := Map.empty\<rparr>)"

definition boot_mounted :: fs where
  "boot_mounted = snd (the (tmpfs_mount None vfs_root 0 fs_boot))"

definition boot_created :: fs where
  "boot_created = snd (the (tmpfs_creat vfs_root (0x2000, ''a'') S_IFREG boot_mounted))"

lemma boot_mount: "tmpfs_mount None vfs_root 0 fs_boot = Some (0, boot_mounted)"
proof -
  obtain i where "fs_inodes fs_boot vfs_root = Some i" "i_ino i \<le> fs_next_ino fs_boot"
    by (simp add: fs_boot_def vfs_init_def rootfs_init_def dcache_init_def fs_demo_def word_le_nat_alt)
  then show ?thesis using tmpfs_mount_inv [of fs_boot vfs_root i 0] by (metis boot_mounted_def option.sel snd_conv)
qed

lemma boot_creat: "map_option fst (tmpfs_creat vfs_root (0x2000, ''a'') S_IFREG boot_mounted) = Some (Some 4)"
  by code_simp


section \<open>Boundary behaviour\<close>

text \<open>Reading behind the end of a file that has a block does not stop at the end: the length that is
  left is computed as a negative number in an unsigned type, and the copy runs out of the block.\<close>

lemma tmpfs_read_beyond_end:
  assumes n: "live_node s p i b sb n" and "ti_data n \<noteq> TNull" and "buf \<noteq> 0" "len \<noteq> 0"
    and beyond: "st_size (ti_st n) < pos" and nowrap: "unat pos + unat len < 2 ^ 32"
  shows "tmpfs_read p buf pos len s = None"
proof -
  note L = live_nodeD [OF n]
  from L(4) assms(2) obtain xs where xs: "ti_data n = TData xs" "length xs = unat (ti_capacity n)"
    by (auto simp: tnode_ok_def split: tdata.splits)
  have gt: "pos + len > st_size (ti_st n)"
    using beyond unat_add_small [OF nowrap] by (simp add: word_less_nat_alt)
  define l where "l = st_size (ti_st n) - pos"
  have "l \<noteq> 0" using beyond by (auto simp: l_def)
  moreover have "pos + l = st_size (ti_st n)" by (simp add: l_def)
  ultimately have "2 ^ 32 \<le> unat pos + unat l"
    using beyond unat_add_small [of pos l] by (auto simp: word_less_nat_alt not_less [symmetric])
  then have "tdata_read (TData xs) (unat pos) (unat l) = None"
    using xs(2) unat_u32_less [of "ti_capacity n"] by (simp add: tdata_read_def mem_slice_def)
  with assms(3,4) gt xs(1) \<open>l \<noteq> 0\<close> show ?thesis
    by (simp add: tmpfs_read_def L l_def [symmetric] Let_def word_gt_0)
qed

lemma tmpfs_read_beyond_end_demo: "tmpfs_read 2 0x2000 3 1 demo_written = None"
proof -
  obtain sb where "live_node demo_written 2 demo_file 1 sb demo_data" using demo_written_live ..
  from tmpfs_read_beyond_end [OF this] show ?thesis by (simp add: demo_data_def word_less_nat_alt)
qed

text \<open>Truncating a file cuts its contents at the new length, but gives no space back: the difference
  is computed after the size was overwritten.\<close>

lemma tmpfs_truncate_cuts:
  assumes n: "live_node s p i b sb n" and less: "unat len < unat (st_size (ti_st n))"
    and small: "unat (st_size (ti_st n)) < 2 ^ 31"
  shows "\<exists>t sb' m. tmpfs_truncate p len s = Some (0, t) \<and> live_node t p i b sb' m
    \<and> file_bytes m = take (unat len) (file_bytes n) \<and> st_size (ti_st m) = len
    \<and> f_bavail (sb_st sb') = f_bavail (sb_st sb)"
proof -
  note L = live_nodeD [OF n]
  from less have "st_size (ti_st n) \<noteq> 0" by auto
  with L(4) obtain xs where xs: "ti_data n = TData xs" "length xs = unat (ti_capacity n)"
      "st_size (ti_st n) \<le> ti_capacity n" by (auto simp: tnode_ok_def split: tdata.splits)
  have cap: "unat (BUFSIZ + len) = 1024 + unat len"
    using less small unat_add_small [of BUFSIZ len] by (simp add: BUFSIZ_def)
  have ge: "unat len \<le> length xs" using less xs by (simp add: word_le_nat_alt)
  have "int (unat len) < int (unat (st_size (ti_st n)))" using less by (simp only: of_nat_less_iff)
  then have cmp: "\<not> sint (st_size (ti_st n)) \<le> sint len"
    using sint_small [of len] sint_small [OF small] less small by linarith
  let ?ys = "take (unat (BUFSIZ + len)) xs @ replicate (unat (BUFSIZ + len) - length xs) None"
  let ?m = "n\<lparr>ti_capacity := BUFSIZ + len, ti_st := (ti_st n)\<lparr>st_size := len\<rparr>, ti_data := TData ?ys\<rparr>"
  have "tmpfs_truncate p len s = Some (0, fs_written s (i_ino i) b sb 0 ?m)"
    using cmp by (simp add: tmpfs_truncate_def L xs(1) krealloc_def tmpfs_put_def upd_sb_st_def
        upd_sb_eq fs_written_def Let_def)
  moreover have "tnode_ok ?m" using cap by (simp add: tnode_ok_def word_le_nat_alt)
  note live_node_written [OF n this, of 0]
  moreover have "file_bytes ?m = take (unat len) (file_bytes n)"
    using cap ge less xs(1) by (simp add: file_bytes_def min_absorb1)
  ultimately show ?thesis by fastforce
qed

lemma tmpfs_truncate_cuts_demo:
  "\<exists>t sb' m. tmpfs_truncate 2 1 demo_written = Some (0, t) \<and> live_node t 2 demo_file 1 sb' m
    \<and> file_bytes m = [Some 104] \<and> st_size (ti_st m) = 1"
proof -
  obtain sb where "live_node demo_written 2 demo_file 1 sb demo_data" using demo_written_live ..
  from tmpfs_truncate_cuts [OF this, of 1] show ?thesis
    by (auto simp: demo_data_def file_bytes_def)
qed

section \<open>Names\<close>

lemma name_eq_short: "length buf < MAXNAMLEN \<Longrightarrow> name_eq buf nm = Some (buf = nm)"
  by (simp add: name_eq_def)

lemma find_child_append:
  assumes "find_child m cs dir nm = Some None"
  shows "find_child m (cs @ ds) dir nm = find_child m ds dir nm"
  using assms by (induction cs) (auto simp: bind_eq_Some_conv split: if_splits)

lemma find_child_cong:
  assumes "\<forall>q \<in> set cs. m' q = m q"
  shows "find_child m' cs dir nm = find_child m cs dir nm"
  using assms by (induction cs) (auto split: Option.bind_split)

text \<open>The inode that \<^verbatim>\<open>tmpfs_creat\<close> makes is found under its name.\<close>

lemma find_child_created:
  assumes "find_child (fs_inodes s) cs dir nm = Some None" "fs_next s \<notin> set cs" "length nm < MAXNAMLEN"
  shows "find_child (fs_inodes (fs_created s dir b nm mode sb)) (cs @ [fs_next s]) dir nm = Some (Some (fs_next s))"
proof -
  have "find_child (fs_inodes (fs_created s dir b nm mode sb)) cs dir nm = Some None"
    using assms(1,2) find_child_cong [of cs "fs_inodes (fs_created s dir b nm mode sb)" "fs_inodes s" dir nm]
    by (auto simp: fs_created_def)
  then show ?thesis
    using assms(3) by (simp add: find_child_append fs_created_def name_eq_short)
qed

text \<open>What the next three properties ask of a directory before a name is created in it.\<close>

definition can_creat :: "fs \<Rightarrow> iptr \<Rightarrow> inode \<Rightarrow> sptr \<Rightarrow> superblock \<Rightarrow> ustr \<Rightarrow> bool" where
  "can_creat s dir i b sb nm \<longleftrightarrow>
     tmpfs_inv b s \<and> tmpfs_sb dir s = Some (i, b, sb) \<and> fs_next_ino s \<noteq> - 1 \<and> cache_room (sb_cache sb)
     \<and> f_ffree (sb_st sb) \<noteq> 0 \<and> fst nm \<noteq> 0 \<and> length (snd nm) < MAXNAMLEN
     \<and> fs_inodes s (fs_next s) = None
     \<and> (\<forall>cs. sb_info sb = TmpfsInfo cs \<longrightarrow> find_child (fs_inodes s) cs dir (snd nm) = Some None)"

lemma can_creatE:
  assumes "can_creat s dir i b sb nm"
  obtains cs c where "sb_info sb = TmpfsInfo cs" "cache_ok c" "fs_next s \<notin> set cs"
    "cache_peek c = (cache_peek (sb_cache sb))(fs_next_ino s + 1 \<mapsto> new_node s mode)"
    "c_count c = c_count (sb_cache sb) + 1"
    "tmpfs_creat dir nm mode s = Some (Some (fs_next s),
       fs_created s dir b (snd nm) mode (sb_created sb c (cs @ [fs_next s])))"
    "find_child (fs_inodes (fs_created s dir b (snd nm) mode (sb_created sb c (cs @ [fs_next s]))))
       (cs @ [fs_next s]) dir (snd nm) = Some (Some (fs_next s))"
proof -
  from assms have A: "tmpfs_inv b s" "tmpfs_sb dir s = Some (i, b, sb)" "fs_next_ino s \<noteq> - 1"
    "cache_room (sb_cache sb)" "f_ffree (sb_st sb) \<noteq> 0" "fst nm \<noteq> 0" "length (snd nm) < MAXNAMLEN"
    by (auto simp: can_creat_def)
  have b: "fs_sbs s b = Some sb" using A(2) by (simp add: tmpfs_sb_iff)
  with A(1) obtain cs where cs: "sb_info sb = TmpfsInfo cs" by (auto simp: tmpfs_inv_def)
  note J = tmpfs_invD [OF A(1) b cs] and F = next_ino_fresh [OF tmpfs_invD(4) [OF A(1) b cs] A(3)]
  have new: "fs_next s \<notin> set cs" using J(3) by (auto simp: children_live_def)
  from assms cs have none: "find_child (fs_inodes s) cs dir (snd nm) = Some None"
    by (simp add: can_creat_def)
  from tmpfs_creat_eq [OF A(2) cs J(2) F(1) A(6) A(4) A(5)] obtain c where
    "cache_ok c" "cache_peek c = (cache_peek (sb_cache sb))(fs_next_ino s + 1 \<mapsto> new_node s mode)"
    "c_count c = c_count (sb_cache sb) + 1"
    "tmpfs_creat dir nm mode s = Some (Some (fs_next s),
       fs_created s dir b (snd nm) mode (sb_created sb c (cs @ [fs_next s])))" by metis
  with that cs new find_child_created [OF none new A(7)] show thesis by blast
qed

lemma created_live:
  assumes "cache_ok c" "cache_peek c = (cache_peek (sb_cache sb))(fs_next_ino s + 1 \<mapsto> new_node s mode)"
    and "sb_fsid sb = TMPFS_ID"
  shows "live_node (fs_created s dir b nm mode (sb_created sb c cs)) (fs_next s)
    \<lparr>i_name = take MAXNAMLEN nm, i_ino = fs_next_ino s + 1, i_sb = Some b,
     i_ops = ops_of Tmpfs (tmpfs_vops mode), i_parent = Some dir, i_lock = False\<rparr> b (sb_created sb c cs)
    (new_node s mode)"
  using assms by (simp add: live_node_def tmpfs_sb_iff fs_created_def sb_created_def new_node_ok)

definition link_bytes :: "string \<Rightarrow> byte list" where
  "link_bytes target = map of_char target @ [0]"

text \<open>The state after \<^verbatim>\<open>tmpfs_symlink\<close>: the new child is a live node that holds the target.\<close>

lemma tmpfs_symlink_live:
  assumes C: "can_creat s dir i b sb nm" and ops: "i_ops i Ocreat \<noteq> None" and tg: "fst target \<noteq> 0"
    and len: "length (snd target) + 1 < 2 ^ 31"
  obtains t j sb' m cs where "tmpfs_symlink dir nm target s = Some (0, t)"
    "live_node t (fs_next s) j b sb' m" "ti_data m = TData (map Some (link_bytes (snd target)))"
    "unat (st_size (ti_st m)) = length (snd target) + 1"
    "sb_info sb' = TmpfsInfo (cs @ [fs_next s])" "f_bavail (sb_st sb') = f_bavail (sb_st sb)"
    "find_child (fs_inodes t) (cs @ [fs_next s]) dir (snd nm) = Some (Some (fs_next s))"
    "tmpfs_sb dir t = Some (i, b, sb')"
proof -
  from C have A: "tmpfs_sb dir s = Some (i, b, sb)" "fst nm \<noteq> 0" "fs_inodes s (fs_next s) = None"
    by (auto simp: can_creat_def)
  then have D: "sb_fsid sb = TMPFS_ID" "fs_inodes s dir = Some i" "i_sb i = Some b" "dir \<noteq> fs_next s"
    by (auto simp: tmpfs_sb_iff)
  let ?mode = "S_IFLNK OR 0x1B6"
  obtain cs c where c: "cache_ok c" "cache_peek c = (cache_peek (sb_cache sb))(fs_next_ino s + 1 \<mapsto> new_node s ?mode)"
    and creat: "tmpfs_creat dir nm ?mode s = Some (Some (fs_next s),
       fs_created s dir b (snd nm) ?mode (sb_created sb c (cs @ [fs_next s])))"
    and found: "find_child (fs_inodes (fs_created s dir b (snd nm) ?mode (sb_created sb c (cs @ [fs_next s]))))
       (cs @ [fs_next s]) dir (snd nm) = Some (Some (fs_next s))"
    using can_creatE [OF C] by metis
  define sb1 where "sb1 = sb_created sb c (cs @ [fs_next s])"
  define s1 where "s1 = fs_created s dir b (snd nm) ?mode sb1"
  define k where "k = length (link_bytes (snd target))"
  define j where "j = \<lparr>i_name = take MAXNAMLEN (snd nm), i_ino = fs_next_ino s + 1, i_sb = Some b,
     i_ops = ops_of Tmpfs (tmpfs_vops ?mode), i_parent = Some dir, i_lock = False\<rparr>"
  define m where "m = (new_node s ?mode)\<lparr>ti_st := (ti_st (new_node s ?mode))\<lparr>st_size := of_nat k\<rparr>,
     ti_capacity := of_nat k, ti_data := TData (map Some (link_bytes (snd target)))\<rparr>"
  have n: "live_node s1 (fs_next s) j b sb1 (new_node s ?mode)"
    unfolding s1_def sb1_def j_def by (rule created_live [OF c D(1)])
  have k2: "length (snd target) + 1 = k" by (simp add: k_def link_bytes_def)
  then have k: "unat (of_nat k :: u32) = k" using len by (simp add: unat_of_nat)
  have ok: "tnode_ok m" using k by (simp add: tnode_ok_def m_def flip: k_def)
  let ?sb = "sb1\<lparr>sb_st := take_space 0 (sb_st sb1), sb_cache := cache_put (i_ino j) m (sb_cache sb1)\<rparr>"
  have ino: "i_ino j = fs_next_ino s + 1" by (simp add: j_def)
  show thesis
  proof (rule that [of "fs_written s1 (i_ino j) b sb1 0 m" j ?sb m cs])
    show "live_node (fs_written s1 (i_ino j) b sb1 0 m) (fs_next s) j b ?sb m"
      by (rule live_node_written [OF n ok])
    show "tmpfs_symlink dir nm target s = Some (0, fs_written s1 (i_ino j) b sb1 0 m)"
      using ops tg A(2) live_nodeD [OF n]
      by (simp add: tmpfs_symlink_def A(1) creat sb1_def [symmetric] s1_def [symmetric] m_def k_def
          link_bytes_def tmpfs_put_def upd_sb_eq fs_written_def Let_def)
    show "find_child (fs_inodes (fs_written s1 (i_ino j) b sb1 0 m)) (cs @ [fs_next s]) dir (snd nm)
        = Some (Some (fs_next s))"
      using found by (simp add: fs_written_def s1_def sb1_def)
    show "tmpfs_sb dir (fs_written s1 (i_ino j) b sb1 0 m) = Some (i, b, ?sb)"
      using D by (simp add: tmpfs_sb_iff fs_written_def s1_def fs_created_def sb1_def sb_created_def)
  qed (simp_all only: k2, simp_all add: m_def k sb1_def sb_created_def)
qed

lemma tmpfs_readlink_live:
  assumes n: "live_node s p i b sb n" and "ti_data n = TData (map Some bs)"
    and "unat (st_size (ti_st n)) = length bs" "length bs < 2 ^ 31" "buf \<noteq> 0" "bs \<noteq> []"
    and sz: "length bs \<le> unat sz"
  shows "tmpfs_readlink p buf sz s = Some ((int (length bs), map Some bs), s)"
proof -
  note L = live_nodeD [OF n]
  have sz0: "sz \<noteq> 0" using assms(6) sz by auto
  have l: "(if sz > st_size (ti_st n) then st_size (ti_st n) else sz) = st_size (ti_st n)"
    using sz assms(3) by (auto simp: word_less_nat_alt word_eq_iff_unsigned word_unat_eq_iff)
  have "sint (st_size (ti_st n)) = int (length bs)" using assms(3,4) sint_small [of "st_size (ti_st n)"] by simp
  then show ?thesis
    using assms(2,3,5) sz0 l
    by (simp add: tmpfs_readlink_def L Let_def tdata_read_def mem_slice_def)
qed

text \<open>A symbolic link keeps its target: after \<^verbatim>\<open>tmpfs_symlink\<close> the name is found in the directory, and
  reading the link with a buffer that is large enough returns the bytes of the target with the
  terminating zero.\<close>

lemma tmpfs_symlink_readlink:
  assumes "can_creat s dir i b sb nm" "i_ops i Ocreat \<noteq> None" "fst target \<noteq> 0"
    "length (snd target) + 1 < 2 ^ 31" "buf \<noteq> 0" "length (snd target) + 1 \<le> unat sz"
  shows "\<exists>t. tmpfs_symlink dir nm target s = Some (0, t) \<and> tmpfs_finddir dir nm t = Some (Some (fs_next s), t)
    \<and> tmpfs_readlink (fs_next s) buf sz t =
        Some ((int (length (snd target)) + 1, map Some (map of_char (snd target) @ [0])), t)"
proof -
  from tmpfs_symlink_live [OF assms(1-4)] obtain t j sb' m cs where
    t: "tmpfs_symlink dir nm target s = Some (0, t)" "live_node t (fs_next s) j b sb' m"
      "ti_data m = TData (map Some (link_bytes (snd target)))"
      "unat (st_size (ti_st m)) = length (snd target) + 1" "sb_info sb' = TmpfsInfo (cs @ [fs_next s])"
      "find_child (fs_inodes t) (cs @ [fs_next s]) dir (snd nm) = Some (Some (fs_next s))"
      "tmpfs_sb dir t = Some (i, b, sb')" .
  have "tmpfs_readlink (fs_next s) buf sz t = Some ((int (length (link_bytes (snd target))),
      map Some (link_bytes (snd target))), t)"
    using assms(4-6) t(4) by (intro tmpfs_readlink_live [OF t(2,3)]) (simp_all add: link_bytes_def)
  moreover have "fst nm \<noteq> 0" using assms(1) by (simp add: can_creat_def)
  ultimately show ?thesis
    using t by (auto simp: link_bytes_def tmpfs_finddir_def tmpfs_children_def)
qed

text \<open>Removing a symbolic link gives back space that was never taken: after creating a link and
  removing it the free space is larger than before by the length of the target and its terminator.\<close>

lemma tmpfs_symlink_unlink_space:
  assumes "can_creat s dir i b sb nm" "i_ops i Ocreat \<noteq> None" "fst target \<noteq> 0"
    "length (snd target) + 1 < 2 ^ 31"
  shows "\<exists>t u sb'. tmpfs_symlink dir nm target s = Some (0, t) \<and> tmpfs_unlink dir nm t = Some (0, u)
    \<and> fs_sbs u b = Some sb' \<and> f_bavail (sb_st sb') = f_bavail (sb_st sb) + of_nat (length (snd target) + 1)"
proof -
  from tmpfs_symlink_live [OF assms] obtain t j sb1 m cs where
    t: "tmpfs_symlink dir nm target s = Some (0, t)" "live_node t (fs_next s) j b sb1 m"
      "unat (st_size (ti_st m)) = length (snd target) + 1" "sb_info sb1 = TmpfsInfo (cs @ [fs_next s])"
      "f_bavail (sb_st sb1) = f_bavail (sb_st sb)"
      "find_child (fs_inodes t) (cs @ [fs_next s]) dir (snd nm) = Some (Some (fs_next s))"
      "tmpfs_sb dir t = Some (i, b, sb1)" .
  have nm: "fst nm \<noteq> 0" using assms(1) by (simp add: can_creat_def)
  from tmpfs_unlink_eq [OF t(7,4) nm t(6,2)] obtain c where
    "tmpfs_unlink dir nm t = Some (0, t\<lparr>fs_sbs := (fs_sbs t)(b \<mapsto>
       sb_removed sb1 c (remove1 (fs_next s) (cs @ [fs_next s])) (st_size (ti_st m)))\<rparr>)" by metis
  moreover have "st_size (ti_st m) = of_nat (length (snd target) + 1)"
    using arg_cong [OF t(3), of "of_nat :: nat \<Rightarrow> u32"] by simp
  ultimately show ?thesis using t(1,5) by (fastforce simp: sb_removed_def)
qed

text \<open>Creating and removing the same name over and over.\<close>

fun creat_unlink :: "nat \<Rightarrow> iptr \<Rightarrow> ustr \<Rightarrow> u32 \<Rightarrow> fs \<Rightarrow> fs option" where
  "creat_unlink 0 dir nm mode s = Some s"
| "creat_unlink (Suc k) dir nm mode s =
     do {
       (r, s) \<leftarrow> tmpfs_creat dir nm mode s;
       (r, s) \<leftarrow> tmpfs_unlink dir nm s;
       creat_unlink k dir nm mode s
     }"

lemma find_child_new_end:
  assumes "find_child m (cs @ [d]) dir nm = Some x"
    and "\<exists>j. m d = Some j \<and> i_parent j = Some dir \<and> i_name j = take MAXNAMLEN nm"
  shows "x \<noteq> None"
  using assms by (induction cs) (auto simp: bind_eq_Some_conv name_eq_def split: if_splits)

text \<open>One round: the free inodes are as before, but the cache has one item more.\<close>

lemma creat_unlink_round:
  assumes I: "tmpfs_inv b s" and sb: "tmpfs_sb dir s = Some (i, b, sb)" and more: "fs_next_ino s \<noteq> - 1"
    and free: "f_ffree (sb_st sb) \<noteq> 0" and heap: "\<forall>q \<ge> fs_next s. fs_inodes s q = None"
    and c: "tmpfs_creat dir nm mode s = Some (r, t)" and u: "tmpfs_unlink dir nm t = Some (r', v)"
  obtains sb' where "tmpfs_inv b v" "tmpfs_sb dir v = Some (i, b, sb')"
    "f_ffree (sb_st sb') = f_ffree (sb_st sb)" "\<forall>q \<ge> fs_next v. fs_inodes v q = None"
    "c_count (sb_cache sb') = c_count (sb_cache sb) + 1" "c_capacity (sb_cache sb') = c_capacity (sb_cache sb)"
    "fs_next_ino v = fs_next_ino s + 1" "cache_room (sb_cache sb)"
proof -
  have b: "fs_sbs s b = Some sb" "fs_inodes s dir = Some i" "i_sb i = Some b" using sb by (simp_all add: tmpfs_sb_iff)
  with I obtain cs where cs: "sb_info sb = TmpfsInfo cs" by (auto simp: tmpfs_inv_def)
  note J = tmpfs_invD [OF I b(1) cs] and F = next_ino_fresh [OF tmpfs_invD(4) [OF I b(1) cs] more]
  have nm: "fst nm \<noteq> 0" using c by (auto simp: tmpfs_creat_def sb)
  have room: "cache_room (sb_cache sb)"
    using tmpfs_creat_full [OF sb J(2) F(1) _ free, of nm mode] c by (cases "cache_room (sb_cache sb)") auto
  obtain C where C: "cache_ok C" "c_capacity C = c_capacity (sb_cache sb)" "c_count C = c_count (sb_cache sb) + 1"
      and t: "t = fs_created s dir b (snd nm) mode (sb_created sb C (cs @ [fs_next s]))"
    using tmpfs_creat_eq [OF sb cs J(2) F(1) nm room free, of mode] c by (metis option.inject Pair_inject)
  let ?sb = "sb_created sb C (cs @ [fs_next s])"
  have "dir \<noteq> fs_next s" using heap b(2) by auto
  then have sbt: "tmpfs_sb dir t = Some (i, b, ?sb)"
    using b J(1) by (simp add: tmpfs_sb_iff t fs_created_def sb_created_def)
  have cst: "sb_info ?sb = TmpfsInfo (cs @ [fs_next s])" by (simp add: sb_created_def)
  have It: "tmpfs_inv b t" by (rule tmpfs_inv_creat [OF I sb more c])
  have bt: "fs_sbs t b = Some ?sb" using sbt by (simp add: tmpfs_sb_iff)
  from u obtain x where x: "find_child (fs_inodes t) (cs @ [fs_next s]) dir (snd nm) = Some x"
    by (auto simp: tmpfs_unlink_def sbt tmpfs_children_def cst bind_eq_Some_conv)
  then have "x \<noteq> None" by (rule find_child_new_end) (simp_all add: t fs_created_def)
  with x obtain d where d: "find_child (fs_inodes t) (cs @ [fs_next s]) dir (snd nm) = Some (Some d)" by auto
  obtain j n where n: "live_node t d j b ?sb n"
    using children_liveD [OF tmpfs_invD(3) [OF It bt cst]] find_child_SomeD [OF d] by blast
  from tmpfs_unlink_eq [OF sbt cst nm d n] obtain C' where C': "c_count C' = c_count (sb_cache ?sb)"
      "c_capacity C' = c_capacity (sb_cache ?sb)"
      and v: "tmpfs_unlink dir nm t = Some (0, t\<lparr>fs_sbs := (fs_sbs t)(b \<mapsto>
        sb_removed ?sb C' (remove1 d (cs @ [fs_next s])) (st_size (ti_st n)))\<rparr>)" by metis
  let ?sb' = "sb_removed ?sb C' (remove1 d (cs @ [fs_next s])) (st_size (ti_st n))"
  have v': "v = t\<lparr>fs_sbs := (fs_sbs t)(b \<mapsto> ?sb')\<rparr>" using u v by simp
  show thesis
  proof (rule that [of ?sb'])
    show "tmpfs_inv b v" by (rule tmpfs_inv_unlink [OF It sbt u])
    show "tmpfs_sb dir v = Some (i, b, ?sb')"
      using sbt by (simp add: tmpfs_sb_iff v' sb_removed_def)
    show "\<forall>q \<ge> fs_next v. fs_inodes v q = None" using heap by (simp add: v' t fs_created_def)
  qed (use C C' room in \<open>simp_all add: sb_removed_def sb_created_def v' t fs_created_def\<close>)
qed

text \<open>Removed files stay in the object cache: whatever the name, a file can be created and removed
  only as often as the cache has room, and the next creation panics although the file system reports
  free inodes.\<close>

lemma tmpfs_creat_unlink_exhausts:
  assumes "tmpfs_inv b s" "tmpfs_sb dir s = Some (i, b, sb)" "f_ffree (sb_st sb) \<noteq> 0"
    "\<forall>q \<ge> fs_next s. fs_inodes s q = None" "unat (fs_next_ino s) + k < 2 ^ 32"
    "unat (c_capacity (sb_cache sb)) < unat (c_count (sb_cache sb)) + k"
  shows "creat_unlink k dir nm mode s = None"
  using assms
proof (induction k arbitrary: s sb)
  case 0
  then have "cache_ok (sb_cache sb)" by (auto simp: tmpfs_inv_def tmpfs_sb_iff)
  with 0 show ?case by (simp add: cache_ok_def word_le_nat_alt)
next
  case (Suc k)
  have more: "fs_next_ino s \<noteq> - 1" using Suc.prems(5) by (auto simp: unsigned_minus_1_eq_mask mask_eq_exp_minus_1)
  show ?case
  proof (rule ccontr)
    assume "creat_unlink (Suc k) dir nm mode s \<noteq> None"
    then obtain r t r' v where S: "tmpfs_creat dir nm mode s = Some (r, t)" "tmpfs_unlink dir nm t = Some (r', v)"
      "creat_unlink k dir nm mode v \<noteq> None" by (auto simp: bind_eq_Some_conv)
    from creat_unlink_round [OF Suc.prems(1,2) more Suc.prems(3,4) S(1,2)] obtain sb' where
      R: "tmpfs_inv b v" "tmpfs_sb dir v = Some (i, b, sb')" "f_ffree (sb_st sb') = f_ffree (sb_st sb)"
      "\<forall>q \<ge> fs_next v. fs_inodes v q = None"
      "c_count (sb_cache sb') = c_count (sb_cache sb) + 1" "c_capacity (sb_cache sb') = c_capacity (sb_cache sb)"
      "fs_next_ino v = fs_next_ino s + 1" "cache_room (sb_cache sb)" .
    have "unat (c_count (sb_cache sb) + 1) = unat (c_count (sb_cache sb)) + 1"
      using R(8) unat_u32_less [of "c_capacity (sb_cache sb)"]
      by (intro unat_Suc_word) (simp add: cache_room_def word_less_nat_alt)
    moreover have "unat (fs_next_ino s + 1) = unat (fs_next_ino s) + 1"
      using Suc.prems(5) by (intro unat_Suc_word) simp
    ultimately have "creat_unlink k dir nm mode v = None"
      using R Suc.prems(3,5,6) by (intro Suc.IH [OF R(1,2)]) simp_all
    with S(3) show False by simp
  qed
qed

section \<open>Listing a directory\<close>

text \<open>The entries of a directory, in the order of the list of children.\<close>

definition entries :: "(iptr \<rightharpoonup> inode) \<Rightarrow> iptr list \<Rightarrow> iptr \<Rightarrow> iptr list" where
  "entries m cs dir = filter (\<lambda>d. \<exists>i. m d = Some i \<and> i_parent i = Some dir) cs"

lemma readdir_scan_spec:
  assumes "\<forall>d \<in> set cs. m d \<noteq> None" "0 \<le> k"
  shows "readdir_scan m cs dir k =
    Some (if nat k < length (entries m cs dir) then Inl (entries m cs dir ! nat k)
          else Inr (k - int (length (entries m cs dir))))"
  using assms
proof (induction m cs dir k rule: readdir_scan.induct)
  case (2 m d ds dir k)
  then obtain i where i: "m d = Some i" by auto
  consider "i_parent i \<noteq> Some dir" | "i_parent i = Some dir" "k = 0" | "i_parent i = Some dir" "0 < k"
    using 2(4) by linarith
  then show ?case
  proof cases
    case 3
    then have "nat k = Suc (nat (k - 1))" by simp
    with 2 i 3 show ?thesis by (simp add: entries_def)
  qed (use 2 i in \<open>simp_all add: entries_def\<close>)
qed (simp add: entries_def)

text \<open>The entry that a child is listed as.\<close>

definition dirent_of :: "fs \<Rightarrow> superblock \<Rightarrow> iptr \<Rightarrow> u32 \<Rightarrow> dirent" where
  "dirent_of s sb d pos =
     (case fs_inodes s d of
        None \<Rightarrow> \<lparr>d_ino = 0, d_off = 0, d_reclen = 0, d_type = 0, d_name = []\<rparr>
      | Some i \<Rightarrow>
          (case cache_peek (sb_cache sb) (i_ino i) of
             None \<Rightarrow> \<lparr>d_ino = 0, d_off = 0, d_reclen = 0, d_type = 0, d_name = []\<rparr>
           | Some n \<Rightarrow> \<lparr>d_ino = st_ino (ti_st n), d_off = pos, d_reclen = of_nat DIRENT_SIZE,
               d_type = ucast (drop_bit 12 (st_mode (ti_st n))), d_name = i_name i\<rparr>))"

lemma readdir_scan_at:
  assumes c: "children_live b sb cs s" and small: "k < 2 ^ 31"
  shows "readdir_scan (fs_inodes s) cs dir (sint (of_nat k :: u32)) =
    Some (if k < length (entries (fs_inodes s) cs dir) then Inl (entries (fs_inodes s) cs dir ! k)
          else Inr (int k - int (length (entries (fs_inodes s) cs dir))))"
proof -
  have "sint (of_nat k :: u32) = int k" using small sint_small [of "of_nat k"] by (simp add: unat_of_nat)
  moreover have "\<forall>d \<in> set cs. fs_inodes s d \<noteq> None"
    using c live_nodeD(7) by (fastforce simp: children_live_def)
  ultimately show ?thesis using readdir_scan_spec [of cs "fs_inodes s" "int k" dir] by simp
qed

lemma readdir_loop_spec:
  assumes I: "tmpfs_inv b s" and sb: "fs_sbs s b = Some sb" "sb_info sb = TmpfsInfo cs"
    and k: "k \<le> length (entries (fs_inodes s) cs dir)" "k + n < 2 ^ 31"
  shows "tmpfs_readdir_loop dir b n (of_nat k) r s =
    (let l = min n (length (entries (fs_inodes s) cs dir) - k) in
     Some ((r + int l, map (\<lambda>j. Some (dirent_of s sb (entries (fs_inodes s) cs dir ! j) (of_nat j))) [k..<k + l]), s))"
  using k
proof (induction n arbitrary: k r)
  case (Suc n)
  let ?E = "entries (fs_inodes s) cs dir"
  note J = tmpfs_invD [OF I sb]
  have sc: "readdir_scan (fs_inodes s) cs dir (sint (of_nat k :: u32)) =
      Some (if k < length ?E then Inl (?E ! k) else Inr (int k - int (length ?E)))"
    using Suc.prems by (intro readdir_scan_at [OF J(3)]) simp
  show ?case
  proof (cases "k < length ?E")
    case True
    then have "?E ! k \<in> set cs" using nth_mem [OF True] by (simp add: entries_def)
    then obtain i m where m: "live_node s (?E ! k) i b sb m" using children_liveD [OF J(3)] by blast
    note L = live_nodeD [OF m]
    define l where "l = min n (length ?E - Suc k)"
    have l: "min (Suc n) (length ?E - k) = Suc l" using True by (simp add: l_def)
    have "[k..<k + Suc l] = k # [Suc k..<Suc k + l]" by (simp add: upt_conv_Cons)
    then show ?thesis
      using Suc.IH [of "Suc k" "r + 1"] Suc.prems True sc L sb
      by (simp add: tmpfs_children_def dirent_of_def l l_def [symmetric] Let_def add.commute)
  next
    case False
    with Suc.prems sc sb show ?thesis by (simp add: tmpfs_children_def)
  qed
qed simp

lemma readdir_loop_beyond:
  assumes I: "tmpfs_inv b s" and sb: "fs_sbs s b = Some sb" "sb_info sb = TmpfsInfo cs"
    and k: "length (entries (fs_inodes s) cs dir) < k" "k + n < 2 ^ 31"
  shows "tmpfs_readdir_loop dir b n (of_nat k) r s = Some ((r + int n, replicate n None), s)"
  using k
proof (induction n arbitrary: k r)
  case (Suc n)
  note J = tmpfs_invD [OF I sb]
  have "readdir_scan (fs_inodes s) cs dir (sint (of_nat k :: u32)) =
      Some (Inr (int k - int (length (entries (fs_inodes s) cs dir))))"
    using Suc.prems by (subst readdir_scan_at [OF J(3)]) simp_all
  with Suc.IH [of "Suc k" "r + 1"] Suc.prems sb show ?case
    by (simp add: tmpfs_children_def add.commute)
qed simp

text \<open>Listing a directory from its start returns every entry once, in order, with its number, type and
  name, and as many entries as the buffer holds; started behind the end, however, it reports as many
  entries as were asked for without storing any.\<close>

lemma tmpfs_readdir_lists:
  assumes "tmpfs_inv b s" "tmpfs_sb dir s = Some (i, b, sb)" "sb_info sb = TmpfsInfo cs" "a \<noteq> 0"
    "unat pos + unat count < 2 ^ 31"
  shows "tmpfs_readdir dir a pos count s =
    (let E = entries (fs_inodes s) cs dir in
     if unat pos \<le> length E
     then let l = min (unat count) (length E - unat pos) in
       Some ((int l, map (\<lambda>j. Some (dirent_of s sb (E ! j) (of_nat j))) [unat pos..<unat pos + l]), s)
     else Some ((int (unat count), replicate (unat count) None), s))"
proof -
  have sb: "fs_sbs s b = Some sb" using assms(2) by (simp add: tmpfs_sb_iff)
  show ?thesis
    using readdir_loop_spec [OF assms(1) sb assms(3), of "unat pos" dir "unat count" 0]
      readdir_loop_beyond [OF assms(1) sb assms(3), of dir "unat pos" "unat count" 0] assms(2,4,5)
    by (auto simp: tmpfs_readdir_def Let_def)
qed

section \<open>Instances\<close>

lemma boot_root:
  obtains i sb where "tmpfs_inv 3 boot_mounted" "tmpfs_sb vfs_root boot_mounted = Some (i, 3, sb)"
    "f_ffree (sb_st sb) = 4096" "c_count (sb_cache sb) = 1" "c_capacity (sb_cache sb) = 4096"
    "fs_next_ino boot_mounted = 2" "fs_next boot_mounted = 4" "\<forall>q \<ge> 4. fs_inodes boot_mounted q = None"
proof -
  obtain i where i: "fs_inodes fs_boot vfs_root = Some i" "i_ino i \<le> fs_next_ino fs_boot"
    and b: "fs_next fs_boot = 3" "\<forall>q \<ge> 4. fs_inodes fs_boot q = None"
    by (simp add: fs_boot_def vfs_init_def rootfs_init_def dcache_init_def fs_demo_def word_le_nat_alt
        vfs_root_def)
  from tmpfs_mount_inv [OF i, of 0] obtain t where T: "tmpfs_mount None vfs_root 0 fs_boot = Some (0, t)"
    "tmpfs_inv (fs_next fs_boot) t" "fs_next t = fs_next fs_boot + 1"
    "\<forall>q. fs_inodes t q = None \<longleftrightarrow> fs_inodes fs_boot q = None" .
  then have "tmpfs_inv 3 t" "fs_next t = 4" "\<forall>q \<ge> 4. fs_inodes t q = None" using b by simp_all
  moreover from T(1) boot_mount have "t = boot_mounted" by simp
  moreover have "map_option (\<lambda>(i, b, sb). (b, f_ffree (sb_st sb), c_count (sb_cache sb),
      c_capacity (sb_cache sb))) (tmpfs_sb vfs_root boot_mounted) = Some (3, 4096, 1, 4096)"
    "fs_next_ino boot_mounted = 2" by code_simp+
  ultimately show thesis using that by auto
qed

lemma tmpfs_creat_unlink_exhausts_demo:
  "creat_unlink 4096 vfs_root (0x2000, ''a'') S_IFREG boot_mounted = None"
proof -
  obtain i sb where "tmpfs_inv 3 boot_mounted" "tmpfs_sb vfs_root boot_mounted = Some (i, 3, sb)"
    "f_ffree (sb_st sb) = 4096" "c_count (sb_cache sb) = 1" "c_capacity (sb_cache sb) = 4096"
    "fs_next_ino boot_mounted = 2" "fs_next boot_mounted = 4" "\<forall>q \<ge> 4. fs_inodes boot_mounted q = None"
    by (rule boot_root)
  then show ?thesis using tmpfs_creat_unlink_exhausts [of 3 boot_mounted vfs_root i sb 4096] by simp
qed

lemma demo_inv: "tmpfs_inv 1 fs_demo"
proof -
  have "children_live 1 demo_sb [2] fs_demo"
    unfolding children_live_def using demo_live by (auto simp: fs_demo_def)
  moreover have "child_size (fs_inodes fs_demo) demo_sb 2 = 0"
    using child_size_live [OF demo_live] by (simp add: demo_node_def stat_zero_def)
  moreover have "cache_ok (sb_cache demo_sb)" by (rule live_nodeD(5) [OF demo_live])
  moreover have "\<forall>k. cache_peek (sb_cache demo_sb) k \<noteq> None \<longrightarrow> k \<le> fs_next_ino fs_demo"
    by (simp add: demo_sb_def cache_peek_def fs_demo_def word_le_nat_alt)
  ultimately show ?thesis
    unfolding tmpfs_inv_def
    by (intro exI [of _ demo_sb] exI [of _ "[2]"])
      (simp add: fs_demo_def demo_sb_def TMPFS_SIZE_MAX_def TMPFS_NODES_MAX_def)
qed

lemma demo_can_creat: "can_creat fs_demo 0 demo_root 1 demo_sb (0x3000, ''l'')"
  using demo_inv
  by (simp add: can_creat_def tmpfs_sb_iff cache_room_def demo_defs MAXNAMLEN_def TMPFS_NODES_MAX_def
      name_eq_def word_less_nat_alt)

lemma tmpfs_symlink_readlink_demo:
  "\<exists>t. tmpfs_symlink 0 (0x3000, ''l'') (0x3010, ''/a'') fs_demo = Some (0, t)
    \<and> tmpfs_readlink 3 0x1000 16 t = Some ((3, [Some 47, Some 97, Some 0]), t)"
proof -
  have "fs_next fs_demo = 3" "i_ops demo_root Ocreat \<noteq> None"
    by (simp_all add: fs_demo_def demo_root_def ops_of_def dir_vops_def)
  with tmpfs_symlink_readlink [where target = "(0x3010, ''/a'')" and buf = "0x1000" and sz = 16, OF demo_can_creat] show ?thesis by auto
qed

lemma tmpfs_symlink_unlink_space_demo:
  "\<exists>t u sb'. tmpfs_symlink 0 (0x3000, ''l'') (0x3010, ''/a'') fs_demo = Some (0, t)
    \<and> tmpfs_unlink 0 (0x3000, ''l'') t = Some (0, u) \<and> fs_sbs u 1 = Some sb'
    \<and> f_bavail (sb_st sb') = TMPFS_SIZE_MAX + 3"
proof -
  have "i_ops demo_root Ocreat \<noteq> None" "f_bavail (sb_st demo_sb) = TMPFS_SIZE_MAX"
    by (simp_all add: demo_root_def demo_sb_def ops_of_def dir_vops_def)
  with tmpfs_symlink_unlink_space [OF demo_can_creat, of "(0x3010, ''/a'')"] show ?thesis by auto
qed

lemma tmpfs_readdir_lists_demo:
  "tmpfs_readdir 0 0x4000 0 4 fs_demo = Some ((1, [Some \<lparr>d_ino = 2, d_off = 0, d_reclen = 268, d_type = 8, d_name = ''a''\<rparr>]), fs_demo)
    \<and> tmpfs_readdir 0 0x4000 2 4 fs_demo = Some ((4, replicate 4 None), fs_demo)"
proof -
  have E: "entries (fs_inodes fs_demo) [2] 0 = [2]"
    by (simp add: entries_def fs_demo_def demo_file_def)
  have d: "dirent_of fs_demo demo_sb 2 0 = \<lparr>d_ino = 2, d_off = 0, d_reclen = 268, d_type = 8, d_name = ''a''\<rparr>"
    by code_simp
  have "tmpfs_sb 0 fs_demo = Some (demo_root, 1, demo_sb)" "sb_info demo_sb = TmpfsInfo [2]"
    by (simp_all add: tmpfs_sb_iff demo_defs)
  from tmpfs_readdir_lists [OF demo_inv this, of "0x4000" 0 4] tmpfs_readdir_lists [OF demo_inv this, of "0x4000" 2 4]
  show ?thesis by (simp add: E d)
qed

end
