(* ===== verification/Ext2.thy ===== *)
theory Ext2
  imports Tmpfs
begin

text \<open>
  The ext2 driver of \<^verbatim>\<open>kernel/fs/ext2/\<close>: reading and writing blocks and inodes of the volume through
  \<^verbatim>\<open>vfs_read\<close> and \<^verbatim>\<open>vfs_write\<close> of the device it is mounted from, and one definition per inode
  operation. A volume is addressed by its super block \<open>b\<close> in memory, whose \<^verbatim>\<open>fsinfo\<close> is the \<^verbatim>\<open>ext2_t\<close>.
\<close>

section \<open>Constants\<close>

definition EXT2_SIGNATURE :: u16 where "EXT2_SIGNATURE = 0xEF53"
definition EXT2_BAD_INO :: u32 where "EXT2_BAD_INO = 1"
definition EXT2_ROOT_INO :: u32 where "EXT2_ROOT_INO = 2"
definition EXT2_MIN_BLOCK_SIZE :: u32 where "EXT2_MIN_BLOCK_SIZE = 1024"
definition EXT2_MAX_BLOCK_SIZE :: u32 where "EXT2_MAX_BLOCK_SIZE = 4096"
definition EXT2_MIN_FRAG_SIZE :: u32 where "EXT2_MIN_FRAG_SIZE = 1024"
definition EXT2_MAX_FRAG_SIZE :: u32 where "EXT2_MAX_FRAG_SIZE = 4096"
definition EXT2_NDIR_BLOCKS :: u32 where "EXT2_NDIR_BLOCKS = 12"
definition EXT2_IND_BLOCK :: nat where "EXT2_IND_BLOCK = 12"
definition EXT2_DIND_BLOCK :: nat where "EXT2_DIND_BLOCK = 13"
definition EXT2_TIND_BLOCK :: nat where "EXT2_TIND_BLOCK = 14"
definition EXT2_DYNAMIC_REV :: u32 where "EXT2_DYNAMIC_REV = 1"
definition EXT2_FEATURE_INCOMPAT_COMPRESSION :: u32 where "EXT2_FEATURE_INCOMPAT_COMPRESSION = 1"
definition EXT3_FEATURE_INCOMPAT_RECOVER :: u32 where "EXT3_FEATURE_INCOMPAT_RECOVER = 4"
definition EXT3_FEATURE_INCOMPAT_JOURNAL_DEV :: u32 where "EXT3_FEATURE_INCOMPAT_JOURNAL_DEV = 8"
definition EXT2_FT_REG_FILE :: byte where "EXT2_FT_REG_FILE = 1"
definition EXT2_FT_DIR :: byte where "EXT2_FT_DIR = 2"
definition EXT2_FT_CHRDEV :: byte where "EXT2_FT_CHRDEV = 3"
definition EXT2_FT_BLKDEV :: byte where "EXT2_FT_BLKDEV = 4"
definition EXT2_FT_FIFO :: byte where "EXT2_FT_FIFO = 5"
definition EXT2_FT_SOCK :: byte where "EXT2_FT_SOCK = 6"
definition EXT2_FT_SYMLINK :: byte where "EXT2_FT_SYMLINK = 7"

lemmas ext2_index_defs = EXT2_NDIR_BLOCKS_def EXT2_IND_BLOCK_def EXT2_DIND_BLOCK_def EXT2_TIND_BLOCK_def

text \<open>The sizes of \<^verbatim>\<open>struct ext2_super_block\<close>, \<^verbatim>\<open>struct ext2_group_desc\<close> and \<^verbatim>\<open>struct ext2_inode\<close>.\<close>

definition SUPER_BLOCK_SIZE :: u32 where "SUPER_BLOCK_SIZE = 1024"
definition GROUP_DESC_SIZE :: u32 where "GROUP_DESC_SIZE = 32"
definition INODE_STRUCT_SIZE :: nat where "INODE_STRUCT_SIZE = 128"

section \<open>Structures of the disk\<close>

text \<open>The fields at their offsets in the structures of \<^verbatim>\<open>ext2.h\<close>.\<close>

definition super_block_of :: "byte option list \<Rightarrow> ext2_super_block option" where
  "super_block_of xs =
     do {
       inodes \<leftarrow> mem32 xs 0;
       blocks \<leftarrow> mem32 xs 4;
       free_blocks \<leftarrow> mem32 xs 12;
       free_inodes \<leftarrow> mem32 xs 16;
       first \<leftarrow> mem32 xs 20;
       log_block \<leftarrow> mem32 xs 24;
       log_frag \<leftarrow> mem32 xs 28;
       bpg \<leftarrow> mem32 xs 32;
       ipg \<leftarrow> mem32 xs 40;
       magic \<leftarrow> mem16 xs 56;
       rev \<leftarrow> mem32 xs 76;
       isize \<leftarrow> mem16 xs 88;
       incompat \<leftarrow> mem32 xs 96;
       Some \<lparr>s_inodes_count = inodes, s_blocks_count = blocks, s_free_blocks_count = free_blocks,
             s_free_inodes_count = free_inodes, s_first_data_block = first, s_log_block_size = log_block,
             s_log_frag_size = log_frag, s_blocks_per_group = bpg, s_inodes_per_group = ipg,
             s_magic = magic, s_rev_level = rev, s_inode_size = isize, s_feature_incompat = incompat\<rparr>
     }"

record ext2_group_desc =
  bg_block_bitmap :: u32
  bg_inode_bitmap :: u32
  bg_inode_table :: u32
  bg_free_blocks_count :: u16
  bg_free_inodes_count :: u16
  bg_used_dirs_count :: u16
  bg_pad :: u16
  bg_reserved :: "u32 \<times> u32 \<times> u32"

definition group_desc_of :: "byte option list \<Rightarrow> ext2_group_desc option" where
  "group_desc_of xs =
     do {
       bb \<leftarrow> mem32 xs 0;
       ib \<leftarrow> mem32 xs 4;
       it \<leftarrow> mem32 xs 8;
       fb \<leftarrow> mem16 xs 12;
       fi \<leftarrow> mem16 xs 14;
       ud \<leftarrow> mem16 xs 16;
       pad \<leftarrow> mem16 xs 18;
       r0 \<leftarrow> mem32 xs 20;
       r1 \<leftarrow> mem32 xs 24;
       r2 \<leftarrow> mem32 xs 28;
       Some \<lparr>bg_block_bitmap = bb, bg_inode_bitmap = ib, bg_inode_table = it, bg_free_blocks_count = fb,
             bg_free_inodes_count = fi, bg_used_dirs_count = ud, bg_pad = pad, bg_reserved = (r0, r1, r2)\<rparr>
     }"

definition group_desc_bytes :: "ext2_group_desc \<Rightarrow> byte list" where
  "group_desc_bytes d =
     (case bg_reserved d of (r0, r1, r2) \<Rightarrow>
        bytes32 (bg_block_bitmap d) @ bytes32 (bg_inode_bitmap d) @ bytes32 (bg_inode_table d)
        @ bytes16 (bg_free_blocks_count d) @ bytes16 (bg_free_inodes_count d)
        @ bytes16 (bg_used_dirs_count d) @ bytes16 (bg_pad d) @ bytes32 r0 @ bytes32 r1 @ bytes32 r2)"

text \<open>The words of an array; \<^verbatim>\<open>i_block\<close> has 15 of them.\<close>

fun mem32s :: "byte option list \<Rightarrow> nat \<Rightarrow> nat \<Rightarrow> u32 list option" where
  "mem32s xs i 0 = Some []"
| "mem32s xs i (Suc n) = do { w \<leftarrow> mem32 xs i; ws \<leftarrow> mem32s xs (i + 4) n; Some (w # ws) }"

definition inode_of :: "byte option list \<Rightarrow> ext2_inode option" where
  "inode_of xs =
     do {
       mode \<leftarrow> mem16 xs 0;
       uid \<leftarrow> mem16 xs 2;
       sz \<leftarrow> mem32 xs 4;
       atime \<leftarrow> mem32 xs 8;
       ctime \<leftarrow> mem32 xs 12;
       mtime \<leftarrow> mem32 xs 16;
       gid \<leftarrow> mem16 xs 24;
       links \<leftarrow> mem16 xs 26;
       blocks \<leftarrow> mem32 xs 28;
       block \<leftarrow> mem32s xs 40 15;
       high \<leftarrow> mem32 xs 108;
       Some \<lparr>en_mode = mode, en_uid = uid, en_size = sz, en_atime = atime, en_ctime = ctime,
             en_mtime = mtime, en_gid = gid, en_links_count = links, en_blocks = blocks,
             en_block = block, en_size_high = high\<rparr>
     }"

section \<open>The volume\<close>

definition ext2_of :: "sptr \<Rightarrow> fs \<Rightarrow> ext2_t option" where
  "ext2_of b s =
     do {
       sb \<leftarrow> fs_sbs s b;
       case sb_info sb of Ext2Info e \<Rightarrow> Some e | _ \<Rightarrow> None
     }"

definition upd_ext2 :: "sptr \<Rightarrow> (ext2_t \<Rightarrow> ext2_t) \<Rightarrow> fs \<Rightarrow> fs" where
  "upd_ext2 b f = upd_sb b (\<lambda>sb. sb\<lparr>sb_info := (case sb_info sb of Ext2Info e \<Rightarrow> Ext2Info (f e) | x \<Rightarrow> x)\<rparr>)"

text \<open>\<^verbatim>\<open>__lock(&ext2->lock, ...)\<close>.\<close>

definition with_elock :: "sptr \<Rightarrow> (fs \<Rightarrow> ('a \<times> fs) option) \<Rightarrow> fs \<Rightarrow> ('a \<times> fs) option" where
  "with_elock b =
     with_lock (\<lambda>s. case ext2_of b s of None \<Rightarrow> True | Some e \<Rightarrow> e2_lock e)
       (\<lambda>h. upd_ext2 b (\<lambda>e. e\<lparr>e2_lock := h\<rparr>))"

text \<open>
  The checks of \<^verbatim>\<open>ext2_utils_read_block\<close> and \<^verbatim>\<open>ext2_utils_write_block\<close> that stop the machine. The
  number of bytes transferred is compared without sign.
\<close>

definition block_in_range :: "ext2_t \<Rightarrow> u32 \<Rightarrow> bool" where
  "block_in_range e block \<longleftrightarrow> \<not> block > s_blocks_count (e2_sb e) \<and> \<not> block < e2_first_block_group e - 1"

definition ext2_utils_read_block ::
  "dispatch \<Rightarrow> sptr \<Rightarrow> u32 \<Rightarrow> u32 \<Rightarrow> u32 \<Rightarrow> u32 \<Rightarrow> fs \<Rightarrow> (byte option list \<times> fs) option" where
  "ext2_utils_read_block D b block offset data sz s =
     do {
       e \<leftarrow> ext2_of b s;
       kassert (block \<noteq> 0);
       kassert (data \<noteq> 0);
       kassert (sz \<noteq> 0);
       kassert (block_in_range e block);
       ((r, bs), s) \<leftarrow> vfs_read D (e2_dev e) data (block * e2_blocksize e + offset) sz s;
       kassert (of_int r = sz);
       Some (bs, s)
     }"

definition ext2_utils_write_block ::
  "dispatch \<Rightarrow> sptr \<Rightarrow> u32 \<Rightarrow> u32 \<Rightarrow> u32 \<times> byte list \<Rightarrow> fs \<Rightarrow> fs option" where
  "ext2_utils_write_block D b block offset data s =
     do {
       e \<leftarrow> ext2_of b s;
       kassert (block \<noteq> 0);
       kassert (fst data \<noteq> 0);
       kassert (snd data \<noteq> []);
       kassert (block_in_range e block);
       (r, s) \<leftarrow> vfs_write D (e2_dev e) data (block * e2_blocksize e + offset) s;
       kassert (of_int r = (of_nat (length (snd data)) :: u32));
       Some s
     }"

text \<open>\<^verbatim>\<open>__builtin_ffs\<close>: the position of the lowest bit that is set, counted from one.\<close>

definition builtin_ffs :: "u32 \<Rightarrow> nat" where
  "builtin_ffs x = (case find (bit x) [0..<32] of None \<Rightarrow> 0 | Some i \<Rightarrow> i + 1)"

text \<open>The scan of a block bitmap: \<open>n\<close> words from word \<open>j\<close> on, in group \<open>i\<close>; 0 when there is no clear bit.\<close>

fun bitmap_scan :: "byte option list \<Rightarrow> u32 \<Rightarrow> u32 \<Rightarrow> nat \<Rightarrow> nat \<Rightarrow> u32 option" where
  "bitmap_scan bitmap bpg i 0 j = Some 0"
| "bitmap_scan bitmap bpg i (Suc n) j =
     do {
       w \<leftarrow> mem32 bitmap (4 * j);
       if w = 0xFFFFFFFF then bitmap_scan bitmap bpg i n (j + 1)
       else Some (of_nat (builtin_ffs (NOT w)) - 1 + of_nat j * 32 + i * bpg)
     }"

text \<open>The search for a group with free blocks: \<open>n\<close> groups from group \<open>i\<close> on.\<close>

fun alloc_in_groups :: "dispatch \<Rightarrow> sptr \<Rightarrow> nat \<Rightarrow> u32 \<Rightarrow> fs \<Rightarrow> (u32 \<times> fs) option" where
  "alloc_in_groups D b 0 i s = Some (0, s)"
| "alloc_in_groups D b (Suc n) i s =
     do {
       e \<leftarrow> ext2_of b s;
       (xs, s) \<leftarrow> ext2_utils_read_block D b (e2_first_block_group e) (i * GROUP_DESC_SIZE) (fs_kstack s)
                   GROUP_DESC_SIZE s;
       d \<leftarrow> group_desc_of xs;
       if bg_free_blocks_count d = 0 then alloc_in_groups D b n (i + 1) s
       else do {
         (cache, s) \<leftarrow> ext2_utils_read_block D b (bg_block_bitmap d) 0 (fs_kstack s) (e2_blocksize e) s;
         let s = upd_ext2 b (\<lambda>e. e\<lparr>e2_cache := cache\<rparr>) s;
         block \<leftarrow> bitmap_scan cache (s_blocks_per_group (e2_sb e)) i (unat (e2_blocksize e div 4)) 0;
         let s = upd_ext2 b (\<lambda>e. e\<lparr>e2_sb := (e2_sb e)\<lparr>s_free_blocks_count := s_free_blocks_count (e2_sb e) - 1\<rparr>\<rparr>) s;
         let d = d\<lparr>bg_free_blocks_count := bg_free_blocks_count d - 1\<rparr>;
         bs \<leftarrow> those cache;
         s \<leftarrow> ext2_utils_write_block D b (bg_block_bitmap d) 0 (fs_kstack s, bs) s;
         s \<leftarrow> ext2_utils_write_block D b (e2_first_block_group e) (i * GROUP_DESC_SIZE)
                (fs_kstack s, group_desc_bytes d) s;
         Some (block, s)
       }
     }"

definition ext2_utils_alloc_block :: "dispatch \<Rightarrow> sptr \<Rightarrow> fs \<Rightarrow> (u32 \<times> fs) option" where
  "ext2_utils_alloc_block D b s =
     do {
       e \<leftarrow> ext2_of b s;
       if s_free_blocks_count (e2_sb e) = 0 then Some (0, s)
       else do {
         (block, s) \<leftarrow> with_elock b (\<lambda>s. do {
           kassert (s_blocks_per_group (e2_sb e) \<noteq> 0);
           alloc_in_groups D b (unat (s_blocks_count (e2_sb e) div s_blocks_per_group (e2_sb e))) 0 s }) s;
         kassert (block \<noteq> 0);
         Some (block, s)
       }
     }"

definition ext2_utils_free_block :: "sptr \<Rightarrow> u32 \<Rightarrow> fs \<Rightarrow> fs option" where
  "ext2_utils_free_block b block s =
     do {
       e \<leftarrow> ext2_of b s;
       kassert (block > 1);
       Some s
     }"

section \<open>Inodes\<close>

text \<open>The descriptor of the group that an inode number belongs to, and the place of the inode there.\<close>

definition inode_group :: "dispatch \<Rightarrow> sptr \<Rightarrow> u32 \<Rightarrow> fs \<Rightarrow> ((ext2_group_desc \<times> u32) \<times> fs) option" where
  "inode_group D b ino s =
     do {
       e \<leftarrow> ext2_of b s;
       let ipg = s_inodes_per_group (e2_sb e);
       kassert (ipg \<noteq> 0);
       (xs, s) \<leftarrow> ext2_utils_read_block D b (e2_first_block_group e) ((ino - 1) div ipg * GROUP_DESC_SIZE)
                   (fs_kstack s) GROUP_DESC_SIZE s;
       d \<leftarrow> group_desc_of xs;
       Some ((d, (ino - 1) mod ipg * e2_inodesize e), s)
     }"

definition ext2_utils_read_inode ::
  "dispatch \<Rightarrow> sptr \<Rightarrow> u32 \<Rightarrow> u32 \<Rightarrow> fs \<Rightarrow> (byte option list \<times> fs) option" where
  "ext2_utils_read_inode D b ino data s =
     do {
       e \<leftarrow> ext2_of b s;
       kassert (data \<noteq> 0);
       kassert (ino \<noteq> EXT2_BAD_INO);
       kassert (ino \<noteq> 0);
       kassert (\<not> ino > s_inodes_count (e2_sb e));
       ((d, off), s) \<leftarrow> inode_group D b ino s;
       ext2_utils_read_block D b (bg_inode_table d) off data (e2_inodesize e) s
     }"

definition ext2_utils_write_inode :: "dispatch \<Rightarrow> sptr \<Rightarrow> u32 \<Rightarrow> u32 \<times> byte list \<Rightarrow> fs \<Rightarrow> fs option" where
  "ext2_utils_write_inode D b ino data s =
     do {
       e \<leftarrow> ext2_of b s;
       kassert (fst data \<noteq> 0);
       kassert (ino \<noteq> EXT2_BAD_INO);
       kassert (ino \<noteq> 0);
       ((d, off), s) \<leftarrow> inode_group D b ino s;
       bs \<leftarrow> mem_slice (snd data) 0 (unat (e2_inodesize e));
       ext2_utils_write_block D b (bg_inode_table d) off (fst data, bs) s
     }"

text \<open>A block number that \<^verbatim>\<open>ext2_utils_read_inode_data\<close> reads from an indirect block into \<^verbatim>\<open>block\<close>.\<close>

definition read_pointer :: "dispatch \<Rightarrow> sptr \<Rightarrow> u32 \<Rightarrow> u32 \<Rightarrow> fs \<Rightarrow> (u32 \<times> fs) option" where
  "read_pointer D b block i s =
     do {
       (xs, s) \<leftarrow> ext2_utils_read_block D b block (4 * i) (fs_kstack s) 4 s;
       w \<leftarrow> mem32 xs 0;
       Some (w, s)
     }"

text \<open>
  The search for the block of the disk that \<^verbatim>\<open>ext2_utils_read_inode_data\<close> and
  \<^verbatim>\<open>ext2_utils_write_inode_data\<close> have in common. The variable \<^verbatim>\<open>block\<close> is overwritten by the first
  block number that is read, and the later indices are computed from the new value.
\<close>

definition inode_data_block :: "dispatch \<Rightarrow> sptr \<Rightarrow> u32 list \<Rightarrow> u32 \<Rightarrow> fs \<Rightarrow> (u32 \<times> fs) option" where
  "inode_data_block D b blocks block s =
     do {
       e \<leftarrow> ext2_of b s;
       let a = EXT2_NDIR_BLOCKS;
       let w = e2_blocksize e div 4;
       if block < a then do { k \<leftarrow> array_get blocks (unat block); Some (k, s) }
       else do {
         let block = block - a;
         if block < w then do {
           k \<leftarrow> array_get blocks EXT2_IND_BLOCK;
           read_pointer D b k block s
         }
         else do {
           let block = block - w;
           if block < w * w then do {
             k \<leftarrow> array_get blocks EXT2_DIND_BLOCK;
             (block, s) \<leftarrow> read_pointer D b k (block div w) s;
             read_pointer D b block (block mod w) s
           }
           else do {
             let block = block - w * w;
             if block < w * w * w then do {
               k \<leftarrow> array_get blocks EXT2_TIND_BLOCK;
               (block, s) \<leftarrow> read_pointer D b k (block div (w * w)) s;
               (block, s) \<leftarrow> read_pointer D b block (block mod (w * w) div w) s;
               read_pointer D b block (block mod (w * w) mod w) s
             }
             else None
           }
         }
       }
     }"

definition ext2_utils_read_inode_data ::
  "dispatch \<Rightarrow> sptr \<Rightarrow> u32 list \<Rightarrow> u32 \<Rightarrow> u32 \<Rightarrow> u32 \<Rightarrow> u32 \<Rightarrow> fs \<Rightarrow> (byte option list \<times> fs) option" where
  "ext2_utils_read_inode_data D b blocks block offset data sz s =
     do {
       e \<leftarrow> ext2_of b s;
       kassert (sz \<noteq> 0);
       kassert (sz \<le> e2_blocksize e);
       (k, s) \<leftarrow> inode_data_block D b blocks block s;
       ext2_utils_read_block D b k offset data sz s
     }"

definition ext2_utils_write_inode_data ::
  "dispatch \<Rightarrow> sptr \<Rightarrow> u32 list \<Rightarrow> u32 \<Rightarrow> u32 \<Rightarrow> u32 \<times> byte list \<Rightarrow> fs \<Rightarrow> fs option" where
  "ext2_utils_write_inode_data D b blocks block offset data s =
     do {
       e \<leftarrow> ext2_of b s;
       kassert (snd data \<noteq> []);
       kassert (of_nat (length (snd data)) \<le> e2_blocksize e);
       (k, s) \<leftarrow> inode_data_block D b blocks block s;
       ext2_utils_write_block D b k offset data s
     }"

text \<open>\<^verbatim>\<open>ext2_cache_load\<close> allocates \<^verbatim>\<open>sizeof(struct ext2_inode)\<close> bytes and reads \<^verbatim>\<open>inodesize\<close> into them.\<close>

definition ext2_cache_load :: "dispatch \<Rightarrow> sptr \<Rightarrow> u32 \<Rightarrow> fs \<Rightarrow> (ext2_inode \<times> fs) option" where
  "ext2_cache_load D b ino s =
     do {
       (bs, s) \<leftarrow> ext2_utils_read_inode D b ino (fs_kstack s) s;
       xs \<leftarrow> mem_store (replicate INODE_STRUCT_SIZE (Some 0)) 0 bs;
       n \<leftarrow> inode_of xs;
       Some (n, s)
     }"

definition ext2_cache_flush :: "u32 \<Rightarrow> ext2_inode \<Rightarrow> fs \<Rightarrow> fs option" where
  "ext2_cache_flush ino d s = Some s"

definition ext2_get :: "dispatch \<Rightarrow> sptr \<Rightarrow> u32 \<Rightarrow> fs \<Rightarrow> (ext2_inode \<times> fs) option" where
  "ext2_get D b ino s =
     do {
       e \<leftarrow> ext2_of b s;
       (n, c, s) \<leftarrow> vfs_cache_get (ext2_cache_load D b) ino (e2_icache e, s);
       Some (n, upd_ext2 b (\<lambda>e. e\<lparr>e2_icache := c\<rparr>) s)
     }"

section \<open>Files\<close>

text \<open>The assertions that every inode operation starts with.\<close>

definition ext2_sb :: "iptr \<Rightarrow> fs \<Rightarrow> (inode \<times> sptr \<times> ext2_t) option" where
  "ext2_sb p s =
     do {
       i \<leftarrow> fs_inodes s p;
       b \<leftarrow> i_sb i;
       sb \<leftarrow> fs_sbs s b;
       kassert (sb_fsid sb = EXT2_ID);
       e \<leftarrow> ext2_of b s;
       Some (i, b, e)
     }"

text \<open>The size of a file; the cast to the 32-bit \<^verbatim>\<open>off_t\<close> drops the upper half.\<close>

definition ext2_file_size :: "ext2_t \<Rightarrow> ext2_inode \<Rightarrow> u32" where
  "ext2_file_size e n =
     (if s_rev_level (e2_sb e) = EXT2_DYNAMIC_REV
      then ucast (push_bit 32 (ucast (en_size_high n)) OR ucast (en_size n) :: u64) else en_size n)"

text \<open>The last loop of \<^verbatim>\<open>ext2_read\<close>: whole blocks from block \<open>ib\<close> on, stored from \<open>off\<close> on.\<close>

fun ext2_read_blocks ::
  "dispatch \<Rightarrow> sptr \<Rightarrow> u32 list \<Rightarrow> u32 \<Rightarrow> nat \<Rightarrow> u32 \<Rightarrow> u32 \<Rightarrow> u32 \<Rightarrow> byte option list \<Rightarrow> fs \<Rightarrow>
   (byte option list \<times> fs) option" where
  "ext2_read_blocks D b blocks bs 0 ib off buf out s = Some (out, s)"
| "ext2_read_blocks D b blocks bs (Suc i) ib off buf out s =
     do {
       (xs, s) \<leftarrow> ext2_utils_read_inode_data D b blocks ib 0 (buf + off) bs s;
       out \<leftarrow> mem_store out (unat off) xs;
       ext2_read_blocks D b blocks bs i (ib + 1) (off + bs) buf out s
     }"

text \<open>The rest of a read after the first block: the last block if it is read in part, then whole blocks.\<close>

definition ext2_read_rest ::
  "dispatch \<Rightarrow> sptr \<Rightarrow> u32 list \<Rightarrow> u32 \<Rightarrow> u32 \<Rightarrow> u32 \<Rightarrow> u32 \<Rightarrow> u32 \<Rightarrow> u32 \<Rightarrow> u32 \<Rightarrow> byte option list \<Rightarrow> fs \<Rightarrow>
   (byte option list \<times> fs) option" where
  "ext2_read_rest D b blocks bs buf pos l ib eb off out s =
     do {
       (eb, out, s) \<leftarrow>
         (if (pos + l) mod bs \<noteq> 0 \<and> ib \<le> eb then do {
            let q = (pos + l) mod bs;
            (xs, s) \<leftarrow> ext2_utils_read_inode_data D b blocks eb 0 (buf + l - q) q s;
            out \<leftarrow> mem_store out (unat (l - q)) xs;
            Some (eb - 1, out, s)
          } else Some (eb, out, s));
       ext2_read_blocks D b blocks bs (nat (sint (eb - ib + 1))) ib off buf out s
     }"

definition ext2_read_at ::
  "dispatch \<Rightarrow> sptr \<Rightarrow> u32 list \<Rightarrow> u32 \<Rightarrow> u32 \<Rightarrow> u32 \<Rightarrow> u32 \<Rightarrow> byte option list \<Rightarrow> fs \<Rightarrow>
   (byte option list \<times> fs) option" where
  "ext2_read_at D b blocks bs buf pos l out s =
     do {
       let ib = pos div bs;
       let eb = (pos + l - 1) div bs;
       if pos mod bs \<noteq> 0 then do {
         let q = bs - pos mod bs;
         let q = (if q > l then l else q);
         (xs, s) \<leftarrow> ext2_utils_read_inode_data D b blocks ib (pos mod bs) buf q s;
         out \<leftarrow> mem_store out 0 xs;
         ext2_read_rest D b blocks bs buf pos l (ib + 1) eb q out s
       }
       else ext2_read_rest D b blocks bs buf pos l ib eb 0 out s
     }"

text \<open>The buffer of the caller has \<open>len\<close> bytes, before the clipping to the size of the file.\<close>

definition ext2_read ::
  "dispatch \<Rightarrow> iptr \<Rightarrow> u32 \<Rightarrow> u32 \<Rightarrow> u32 \<Rightarrow> fs \<Rightarrow> ((int \<times> byte option list) \<times> fs) option" where
  "ext2_read D p buf pos len s =
     do {
       (i, b, e) \<leftarrow> ext2_sb p s;
       kassert (buf \<noteq> 0);
       kassert (len \<noteq> 0);
       (n, s) \<leftarrow> ext2_get D b (i_ino i) s;
       let fsize = ext2_file_size e n;
       let l = (if pos + len > fsize then fsize - pos else len);
       (out, s) \<leftarrow> ext2_read_at D b (en_block n) (e2_blocksize e) buf pos l (replicate (unat len) None) s;
       Some ((sint l, take (unat l) out), s)
     }"

fun ext2_write_blocks ::
  "dispatch \<Rightarrow> sptr \<Rightarrow> u32 list \<Rightarrow> u32 \<Rightarrow> nat \<Rightarrow> u32 \<Rightarrow> u32 \<Rightarrow> u32 \<times> byte list \<Rightarrow> fs \<Rightarrow> fs option" where
  "ext2_write_blocks D b blocks bs 0 ib off buf s = Some s"
| "ext2_write_blocks D b blocks bs (Suc i) ib off buf s =
     do {
       xs \<leftarrow> mem_slice (snd buf) (unat off) (unat bs);
       s \<leftarrow> ext2_utils_write_inode_data D b blocks ib 0 (fst buf + off, xs) s;
       ext2_write_blocks D b blocks bs i (ib + 1) (off + bs) buf s
     }"

definition ext2_write_rest ::
  "dispatch \<Rightarrow> sptr \<Rightarrow> u32 list \<Rightarrow> u32 \<Rightarrow> u32 \<times> byte list \<Rightarrow> u32 \<Rightarrow> u32 \<Rightarrow> u32 \<Rightarrow> u32 \<Rightarrow> u32 \<Rightarrow> fs \<Rightarrow> fs option" where
  "ext2_write_rest D b blocks bs buf pos l ib eb off s =
     do {
       (eb, s) \<leftarrow>
         (if (pos + l) mod bs \<noteq> 0 \<and> ib \<le> eb then do {
            let q = (pos + l) mod bs;
            xs \<leftarrow> mem_slice (snd buf) (unat (l - q)) (unat q);
            s \<leftarrow> ext2_utils_write_inode_data D b blocks eb 0 (fst buf + l - q, xs) s;
            Some (eb - 1, s)
          } else Some (eb, s));
       ext2_write_blocks D b blocks bs (nat (sint (eb - ib + 1))) ib off buf s
     }"

definition ext2_write_at ::
  "dispatch \<Rightarrow> sptr \<Rightarrow> u32 list \<Rightarrow> u32 \<Rightarrow> u32 \<times> byte list \<Rightarrow> u32 \<Rightarrow> u32 \<Rightarrow> fs \<Rightarrow> fs option" where
  "ext2_write_at D b blocks bs buf pos l s =
     do {
       let ib = pos div bs;
       let eb = (pos + l - 1) div bs;
       if pos mod bs \<noteq> 0 then do {
         let q = bs - pos mod bs;
         let q = (if q > l then l else q);
         xs \<leftarrow> mem_slice (snd buf) 0 (unat q);
         s \<leftarrow> ext2_utils_write_inode_data D b blocks ib (pos mod bs) (fst buf, xs) s;
         ext2_write_rest D b blocks bs buf pos l (ib + 1) eb q s
       }
       else ext2_write_rest D b blocks bs buf pos l ib eb 0 s
     }"

definition ext2_write :: "dispatch \<Rightarrow> iptr \<Rightarrow> u32 \<times> byte list \<Rightarrow> u32 \<Rightarrow> fs \<Rightarrow> (int \<times> fs) option" where
  "ext2_write D p buf pos s =
     do {
       (i, b, e) \<leftarrow> ext2_sb p s;
       kassert (fst buf \<noteq> 0);
       let len = (of_nat (length (snd buf)) :: u32);
       kassert (len \<noteq> 0);
       (n, s) \<leftarrow> ext2_get D b (i_ino i) s;
       let fsize = ext2_file_size e n;
       let l = (if pos + len > fsize then fsize - pos else len);
       s \<leftarrow> ext2_write_at D b (en_block n) (e2_blocksize e) buf pos l s;
       Some (sint l, s)
     }"

definition ext2_getattr :: "dispatch \<Rightarrow> iptr \<Rightarrow> u32 \<Rightarrow> fs \<Rightarrow> ((int \<times> stat option) \<times> fs) option" where
  "ext2_getattr D p st s =
     do {
       (i, b, e) \<leftarrow> ext2_sb p s;
       kassert (st \<noteq> 0);
       (n, s) \<leftarrow> ext2_get D b (i_ino i) s;
       Some ((0, Some \<lparr>st_dev = 0, st_ino = i_ino i, st_mode = ucast (en_mode n),
                        st_nlink = ucast (en_links_count n), st_uid = ucast (en_uid n),
                        st_gid = ucast (en_gid n), st_rdev = 0, st_size = en_size n, st_blksize = 512,
                        st_blocks = en_blocks n, st_atime = en_atime n, st_mtime = en_ctime n,
                        st_ctime = en_mtime n\<rparr>), s)
     }"

text \<open>\<^verbatim>\<open>strncpy\<close> of \<open>n\<close> bytes: the bytes up to a terminator, then zeros.\<close>

definition strncpy_bytes :: "byte list \<Rightarrow> nat \<Rightarrow> byte list" where
  "strncpy_bytes xs n =
     (let ys = takeWhile (\<lambda>x. x \<noteq> 0) (take n xs) in ys @ replicate (n - length ys) 0)"

definition ext2_readlink ::
  "dispatch \<Rightarrow> iptr \<Rightarrow> u32 \<Rightarrow> u32 \<Rightarrow> fs \<Rightarrow> ((int \<times> byte option list) \<times> fs) option" where
  "ext2_readlink D p buf len s =
     do {
       (i, b, e) \<leftarrow> ext2_sb p s;
       kassert (buf \<noteq> 0);
       kassert (len \<noteq> 0);
       (n, s) \<leftarrow> ext2_get D b (i_ino i) s;
       let l = (if len > en_size n then en_size n else len);
       (xs, s) \<leftarrow>
         (if l < 60 then Some (map Some (strncpy_bytes (concat (map bytes32 (en_block n))) (unat l)), s)
          else ext2_utils_read_inode_data D b (en_block n) 0 0 buf l s);
       Some ((sint l, xs), s)
     }"

section \<open>Directories\<close>

definition ext2_utils_file_type :: "byte \<Rightarrow> u32 option" where
  "ext2_utils_file_type t =
     (if t = EXT2_FT_REG_FILE then Some S_IFREG
      else if t = EXT2_FT_DIR then Some S_IFDIR
      else if t = EXT2_FT_CHRDEV then Some S_IFCHR
      else if t = EXT2_FT_BLKDEV then Some S_IFBLK
      else if t = EXT2_FT_FIFO then Some S_IFIFO
      else if t = EXT2_FT_SOCK then Some S_IFSOCK
      else if t = EXT2_FT_SYMLINK then Some S_IFLNK
      else None)"

text \<open>\<^verbatim>\<open>strncmp(name, e->name, n) == 0\<close>, where \<^verbatim>\<open>e->name\<close> starts at position \<open>i\<close> of the buffer.\<close>

fun strncmp_eq :: "string \<Rightarrow> byte option list \<Rightarrow> nat \<Rightarrow> nat \<Rightarrow> bool option" where
  "strncmp_eq nm xs i 0 = Some True"
| "strncmp_eq nm xs i (Suc n) =
     do {
       c \<leftarrow> mem8 xs i;
       case nm of
         [] \<Rightarrow> Some (c = 0)
       | x # nm' \<Rightarrow> if of_char x = c then strncmp_eq nm' xs (i + 1) n else Some False
     }"

text \<open>The name that \<^verbatim>\<open>strncpy\<close> copies from position \<open>i\<close> of the buffer.\<close>

fun strncpy_name :: "byte option list \<Rightarrow> nat \<Rightarrow> nat \<Rightarrow> string option" where
  "strncpy_name xs i 0 = Some []"
| "strncpy_name xs i (Suc n) =
     do {
       c \<leftarrow> mem8 xs i;
       if c = 0 then Some [] else map_option ((#) (char_of (unat c))) (strncpy_name xs (i + 1) n)
     }"

definition ext2_vops :: "u32 \<Rightarrow> vop list" where
  "ext2_vops mode =
     [Ogetattr]
     @ (if S_ISDIR mode then [Ofinddir, Oreaddir] else [])
     @ (if S_ISREG mode then [Oread, Owrite] else [])
     @ (if S_ISLNK mode then [Oreadlink] else [])"

definition ext2_entry_mode :: "dispatch \<Rightarrow> sptr \<Rightarrow> byte option list \<Rightarrow> nat \<Rightarrow> fs \<Rightarrow> (u32 \<times> fs) option" where
  "ext2_entry_mode D b xs i s =
     do {
       e \<leftarrow> ext2_of b s;
       if s_rev_level (e2_sb e) = EXT2_DYNAMIC_REV then do {
         t \<leftarrow> mem8 xs (i + 7);
         mode \<leftarrow> ext2_utils_file_type t;
         Some (mode, s)
       }
       else do {
         ino \<leftarrow> mem32 xs i;
         (n, s) \<leftarrow> ext2_get D b ino s;
         Some (ucast (en_mode n), s)
       }
     }"

text \<open>The loop over the entries of the block \<open>xs\<close> of a directory, from position \<open>i\<close> on.\<close>

function ext2_find_entry ::
  "dispatch \<Rightarrow> sptr \<Rightarrow> iptr \<Rightarrow> string \<Rightarrow> nat \<Rightarrow> byte option list \<Rightarrow> nat \<Rightarrow> fs \<Rightarrow> (iptr option \<times> fs) option" where
  "ext2_find_entry D b p nm bs xs i s =
     (if \<not> i < bs then Some (None, s)
      else case mem16 xs (i + 4) of
        None \<Rightarrow> None
      | Some rec_len \<Rightarrow>
          if rec_len = 0 then None
          else case ext2_entry_mode D b xs i s of
            None \<Rightarrow> None
          | Some (mode, s) \<Rightarrow>
              (case mem8 xs (i + 6) of
                 None \<Rightarrow> None
               | Some name_len \<Rightarrow>
                   (case strncmp_eq nm xs (i + 8) (unat name_len) of
                      None \<Rightarrow> None
                    | Some True \<Rightarrow>
                        do {
                          ino \<leftarrow> mem32 xs i;
                          name \<leftarrow> strncpy_name xs (i + 8) (unat name_len);
                          let d = fs_next s;
                          Some (Some d, s\<lparr>fs_next := d + 1, fs_inodes := (fs_inodes s)(d \<mapsto>
                            \<lparr>i_name = name, i_ino = ino, i_sb = Some b, i_ops = ops_of Ext2 (ext2_vops mode),
                             i_parent = Some p, i_lock = False\<rparr>)\<rparr>)
                        }
                    | Some False \<Rightarrow> ext2_find_entry D b p nm bs xs (i + unat rec_len) s)))"
  by pat_completeness auto
termination
  by (relation "measure (\<lambda>(D, b, p, nm, bs, xs, i, s). bs - i)") (auto simp: unat_gt_0 intro!: diff_less_mono2)

declare ext2_find_entry.simps [simp del]

text \<open>The offset \<^verbatim>\<open>q\<close> is an \<^verbatim>\<open>int\<close> that is added to and compared without sign.\<close>

partial_function (option) ext2_finddir_loop ::
  "dispatch \<Rightarrow> sptr \<Rightarrow> iptr \<Rightarrow> string \<Rightarrow> ext2_inode \<Rightarrow> u32 \<Rightarrow> u32 \<Rightarrow> fs \<Rightarrow> (iptr option \<times> fs) option" where
  "ext2_finddir_loop D b p nm n bs q s =
     (if \<not> q < en_size n then Some (None, s)
      else do {
        (d, s) \<leftarrow> with_elock b (\<lambda>s. do {
          (xs, s) \<leftarrow> ext2_utils_read_inode_data D b (en_block n) (q div bs) 0 (fs_kstack s) bs s;
          let s = upd_ext2 b (\<lambda>e. e\<lparr>e2_cache := xs\<rparr>) s;
          ext2_find_entry D b p nm (unat bs) xs 0 s }) s;
        if d \<noteq> None then Some (d, s)
        else ext2_finddir_loop D b p nm n bs (q + bs) s
      })"

definition ext2_finddir :: "dispatch \<Rightarrow> iptr \<Rightarrow> ustr \<Rightarrow> fs \<Rightarrow> (iptr option \<times> fs) option" where
  "ext2_finddir D p nm s =
     do {
       (i, b, e) \<leftarrow> ext2_sb p s;
       kassert (fst nm \<noteq> 0);
       (n, s) \<leftarrow> ext2_get D b (i_ino i) s;
       ext2_finddir_loop D b p (snd nm) n (e2_blocksize e) 0 s
     }"

text \<open>
  The loop of \<^verbatim>\<open>ext2_readdir\<close> over the entries of a block. The state of the loop is \<^verbatim>\<open>pos\<close> and
  \<^verbatim>\<open>count\<close>; the entries written to the buffer are returned, \<^verbatim>\<open>entries\<close> being their number.
\<close>

function ext2_list_entries ::
  "bool \<Rightarrow> nat \<Rightarrow> byte option list \<Rightarrow> nat \<Rightarrow> u32 \<Rightarrow> u32 \<Rightarrow> (dirent list \<times> u32 \<times> u32) option" where
  "ext2_list_entries dyn bs xs i pos count =
     (if \<not> i < bs then Some ([], pos, count)
      else case mem16 xs (i + 4) of
        None \<Rightarrow> None
      | Some rec_len \<Rightarrow>
          if rec_len = 0 then None
          else if sint pos > 0 then ext2_list_entries dyn bs xs (i + unat rec_len) (pos - 1) count
          else if count = 0 then Some ([], pos, count)
          else
            (case mem8 xs (i + 6) of
               None \<Rightarrow> None
             | Some name_len \<Rightarrow>
                 do {
                   ino \<leftarrow> mem32 xs i;
                   name \<leftarrow> strncpy_name xs (i + 8) (unat name_len);
                   type \<leftarrow> (if dyn then mem8 xs (i + 7) else Some 0);
                   (es, pos, count) \<leftarrow> ext2_list_entries dyn bs xs (i + unat rec_len) pos (count - 1);
                   Some (\<lparr>d_ino = ino, d_off = of_nat i, d_reclen = of_nat DIRENT_SIZE, d_type = type,
                          d_name = name\<rparr> # es, pos, count)
                 }))"
  by pat_completeness auto
termination
  by (relation "measure (\<lambda>(dyn, bs, xs, i, pos, count). bs - i)") (auto simp: unat_gt_0 intro!: diff_less_mono2)

declare ext2_list_entries.simps [simp del]

partial_function (option) ext2_readdir_loop ::
  "dispatch \<Rightarrow> sptr \<Rightarrow> bool \<Rightarrow> ext2_inode \<Rightarrow> u32 \<Rightarrow> u32 \<Rightarrow> u32 \<Rightarrow> u32 \<Rightarrow> fs \<Rightarrow> (dirent list \<times> fs) option" where
  "ext2_readdir_loop D b dyn n bs q pos count s =
     (if \<not> q < en_size n then Some ([], s)
      else do {
        ((es, pos, count), s) \<leftarrow> with_elock b (\<lambda>s. do {
          (xs, s) \<leftarrow> ext2_utils_read_inode_data D b (en_block n) (q div bs) 0 (fs_kstack s) bs s;
          let s = upd_ext2 b (\<lambda>e. e\<lparr>e2_cache := xs\<rparr>) s;
          r \<leftarrow> ext2_list_entries dyn (unat bs) xs 0 pos count;
          Some (r, s) }) s;
        if count = 0 then Some (es, s)
        else do {
          (fs, s) \<leftarrow> ext2_readdir_loop D b dyn n bs (q + bs) pos count s;
          Some (es @ fs, s)
        }
      })"

definition ext2_readdir ::
  "dispatch \<Rightarrow> iptr \<Rightarrow> u32 \<Rightarrow> u32 \<Rightarrow> u32 \<Rightarrow> fs \<Rightarrow> ((int \<times> dirent option list) \<times> fs) option" where
  "ext2_readdir D p ent pos count s =
     do {
       (i, b, e) \<leftarrow> ext2_sb p s;
       kassert (ent \<noteq> 0);
       kassert (count \<noteq> 0);
       (n, s) \<leftarrow> ext2_get D b (i_ino i) s;
       (es, s) \<leftarrow> ext2_readdir_loop D b (s_rev_level (e2_sb e) = EXT2_DYNAMIC_REV) n (e2_blocksize e) 0 pos count s;
       Some ((int (length es), map Some es), s)
     }"

section \<open>Mounting\<close>

text \<open>\<^verbatim>\<open>1024 << n\<close> on an \<^verbatim>\<open>int\<close>; a shift that loses bits is undefined.\<close>

definition shift_1024 :: "u32 \<Rightarrow> u32 option" where
  "shift_1024 n = (if n < 21 then Some (push_bit (unat n) 1024) else None)"

text \<open>The mount flags are translated by the same macro as in \<^verbatim>\<open>tmpfs_mount\<close>.\<close>

definition ext2_mount :: "dispatch \<Rightarrow> iptr option \<Rightarrow> iptr \<Rightarrow> u32 \<Rightarrow> fs \<Rightarrow> (int \<times> fs) option" where
  "ext2_mount D dev dir flags s =
     do {
       valid_inode dir s;
       d \<leftarrow> dev;
       ((r, bs), s) \<leftarrow> vfs_read D d (fs_kstack s) 1024 SUPER_BLOCK_SIZE s;
       if of_int r \<noteq> SUPER_BLOCK_SIZE then Some (- 1, s)
       else do {
         sb \<leftarrow> super_block_of bs;
         if s_magic sb \<noteq> EXT2_SIGNATURE then Some (- 1, set_errno EINVAL s)
         else do {
           blocksize \<leftarrow> shift_1024 (s_log_block_size sb);
           kassert (blocksize \<le> EXT2_MAX_BLOCK_SIZE);
           kassert (blocksize \<ge> EXT2_MIN_BLOCK_SIZE);
           fragsize \<leftarrow> shift_1024 (s_log_frag_size sb);
           kassert (fragsize \<le> EXT2_MAX_FRAG_SIZE);
           kassert (fragsize \<ge> EXT2_MIN_FRAG_SIZE);
           kassert (s_feature_incompat sb AND EXT2_FEATURE_INCOMPAT_COMPRESSION = 0);
           kassert (s_feature_incompat sb AND EXT3_FEATURE_INCOMPAT_RECOVER = 0);
           kassert (s_feature_incompat sb AND EXT3_FEATURE_INCOMPAT_JOURNAL_DEV = 0);
           kassert (s_blocks_per_group sb \<noteq> 0);
           cache \<leftarrow> vfs_cache_create (- 1);
           let e = \<lparr>e2_sb = sb, e2_first_block_group = s_first_data_block sb + 1,
                    e2_count_block_group = s_blocks_count sb div s_blocks_per_group sb,
                    e2_blocksize = blocksize, e2_inodesize = ucast (s_inode_size sb),
                    e2_cache = replicate (unat blocksize) None, e2_lock = False, e2_dev = d, e2_root = dir,
                    e2_icache = cache\<rparr>;
           let (b, s) = new_sb (sb_zero\<lparr>sb_fsid := EXT2_ID, sb_dev := dev, sb_root := dir, sb_flags := flags,
                 sb_info := Ext2Info e,
                 sb_st := \<lparr>f_bsize = blocksize, f_frsize = fragsize, f_blocks = s_blocks_count sb,
                   f_bfree = s_free_blocks_count sb, f_bavail = s_free_blocks_count sb,
                   f_files = s_inodes_count sb, f_ffree = s_free_inodes_count sb,
                   f_favail = s_free_inodes_count sb, f_flag = tmpfs_stflags flags, f_fsid = EXT2_ID,
                   f_namemax = of_nat MAXNAMLEN\<rparr>,
                 sb_ops := ops_of Ext2 [Ogetattr, Ofinddir, Oreaddir]\<rparr>) s;
           let s = upd_inode dir (\<lambda>i. i\<lparr>i_sb := Some b\<rparr>) s;
           (n, s) \<leftarrow> ext2_get D b EXT2_ROOT_INO s;
           let n = n\<lparr>en_mode := (en_mode n AND NOT (ucast S_IFMT)) OR ucast S_IFMT\<rparr>;
           let s = upd_ext2 b (\<lambda>e. e\<lparr>e2_icache := cache_put EXT2_ROOT_INO n (e2_icache e)\<rparr>) s;
           Some (0, upd_sb b (\<lambda>sb. sb\<lparr>sb_ino := EXT2_ROOT_INO\<rparr>) s)
         }
       }
     }"

definition ext2_umount :: "iptr \<Rightarrow> fs \<Rightarrow> (int \<times> fs) option" where
  "ext2_umount dir s =
     do {
       (i, b, e) \<leftarrow> ext2_sb dir s;
       sb \<leftarrow> fs_sbs s b;
       kassert (sb_root sb = dir);
       (c, s) \<leftarrow> vfs_cache_destroy ext2_cache_flush (e2_icache e) s;
       Some (0, upd_sb b (\<lambda>sb. sb\<lparr>sb_info := NoInfo\<rparr>) s)
     }"

definition ext2_ops :: "dispatch \<Rightarrow> fsops" where
  "ext2_ops D = no_ops\<lparr>op_getattr := ext2_getattr D, op_read := ext2_read D, op_write := ext2_write D,
     op_readlink := ext2_readlink D, op_finddir := ext2_finddir D, op_readdir := ext2_readdir D\<rparr>"

end
