(* ===== verification/Ext2_Volume.thy ===== *)
theory Ext2_Volume
  imports Ext2
begin

text \<open>
  What the ext2 driver does to a volume, over any device that behaves as an array of bytes (the
  contract \<open>disk_device\<close>): the block map of the ext2 format as a reference definition, and the proof
  that reading and writing a file act on the bytes this map assigns to it, for files that need no
  doubly indirect block.
\<close>

section \<open>The format\<close>

text \<open>
  The block of the disk that holds block \<open>k\<close> of a file: twelve direct blocks, then the blocks listed in
  the indirect, the doubly indirect and the triply indirect block.
\<close>

definition pointer_at :: "byte list \<Rightarrow> nat \<Rightarrow> u32 \<Rightarrow> nat \<Rightarrow> u32" where
  "pointer_at dsk bs k i = the (mem32 (map Some dsk) (unat k * bs + 4 * i))"

definition ext2_bmap :: "byte list \<Rightarrow> nat \<Rightarrow> u32 list \<Rightarrow> nat \<Rightarrow> u32" where
  "ext2_bmap dsk bs blocks k =
     (let w = bs div 4; at = pointer_at dsk bs; i = k - 12; ii = i - w; iii = ii - w * w in
      if k < 12 then blocks ! k
      else if i < w then at (blocks ! 12) i
      else if ii < w * w then at (at (blocks ! 13) (ii div w)) (ii mod w)
      else at (at (at (blocks ! 14) (iii div (w * w))) (iii mod (w * w) div w)) (iii mod w))"

definition ext2_content :: "byte list \<Rightarrow> nat \<Rightarrow> u32 list \<Rightarrow> nat \<Rightarrow> byte list" where
  "ext2_content dsk bs blocks sz =
     map (\<lambda>j. dsk ! (unat (ext2_bmap dsk bs blocks (j div bs)) * bs + j mod bs)) [0..<sz]"

lemma length_ext2_content [simp]: "length (ext2_content dsk bs blocks sz) = sz"
  by (simp add: ext2_content_def)

text \<open>A block that the driver accepts and that lies on the disk.\<close>

definition disk_block :: "ext2_t \<Rightarrow> byte list \<Rightarrow> u32 \<Rightarrow> bool" where
  "disk_block e dsk k \<longleftrightarrow> k \<noteq> 0 \<and> block_in_range e k \<and> (unat k + 1) * unat (e2_blocksize e) \<le> length dsk"

definition file_blocks :: "ext2_t \<Rightarrow> ext2_inode \<Rightarrow> nat" where
  "file_blocks e n = (unat (en_size n) + unat (e2_blocksize e) - 1) div unat (e2_blocksize e)"

text \<open>A file with direct and indirect blocks only, all of them on the disk.\<close>

definition file_layout :: "ext2_t \<Rightarrow> byte list \<Rightarrow> ext2_inode \<Rightarrow> bool" where
  "file_layout e dsk n \<longleftrightarrow>
     length (en_block n) = 15 \<and> unat (en_size n) < 2 ^ 31
     \<and> file_blocks e n \<le> 12 + unat (e2_blocksize e) div 4
     \<and> (12 < file_blocks e n \<longrightarrow> disk_block e dsk (en_block n ! 12))
     \<and> (\<forall>k < file_blocks e n. disk_block e dsk (ext2_bmap dsk (unat (e2_blocksize e)) (en_block n) k))"

text \<open>No two blocks of the file share a block of the disk, and none is its indirect block.\<close>

definition file_separate :: "ext2_t \<Rightarrow> byte list \<Rightarrow> ext2_inode \<Rightarrow> bool" where
  "file_separate e dsk n \<longleftrightarrow>
     inj_on (ext2_bmap dsk (unat (e2_blocksize e)) (en_block n)) {..<file_blocks e n}
     \<and> (\<forall>k < file_blocks e n. ext2_bmap dsk (unat (e2_blocksize e)) (en_block n) k \<noteq> en_block n ! 12)"

lemma ext2_file_size_eq [simp]: "ext2_file_size e n = en_size n"
proof -
  have "(ucast (push_bit 32 (ucast (en_size_high n)) OR ucast (en_size n) :: u64) :: u32) = en_size n"
    by (rule bit_word_eqI) (auto simp: bit_simps)
  then show ?thesis by (simp add: ext2_file_size_def)
qed

text \<open>Blocks of the disk are apart from each other.\<close>

lemma div_between: "k * B \<le> j \<Longrightarrow> j < k * B + B \<Longrightarrow> j div B = (k :: nat)"
  by (intro div_nat_eqI) (simp_all add: algebra_simps)

lemma other_block:
  assumes "j div B \<noteq> (c :: nat)" "off + m \<le> B"
  shows "\<not> (c * B + off \<le> j \<and> j < c * B + off + m)"
proof
  assume h: "c * B + off \<le> j \<and> j < c * B + off + m"
  then have "c * B \<le> j" "j < c * B + B" using assms(2) by linarith+
  then have "j div B = c" by (rule div_between)
  with assms(1) show False by simp
qed

lemma pwrite_other_block:
  assumes "j div B \<noteq> c" "off + length xs \<le> B" "c * B + off + length xs \<le> length dsk" "j < length dsk"
  shows "pwrite dsk (c * B + off) xs ! j = dsk ! j"
  using nth_pwrite [OF assms(3,4)] other_block [OF assms(1,2)] by auto

lemma block_pos_div: "0 < B \<Longrightarrow> r < B \<Longrightarrow> ((k :: nat) * B + r) div B = k"
  by simp

lemma block_fits_disk: "(k + 1) * B \<le> L \<Longrightarrow> r < B \<Longrightarrow> (k :: nat) * B + r < L"
  by simp

lemma mem32_cong:
  assumes "\<And>i. j \<le> i \<Longrightarrow> i < j + 4 \<Longrightarrow> i < length xs \<and> xs ! i = ys ! i" "length xs = length ys"
  shows "mem32 (map Some xs) j = mem32 (map Some ys) j"
  using assms by (auto simp: mem32_def mem16_def)

lemma pointer_at_other:
  assumes c: "k \<noteq> c" and le: "off + length xs \<le> B" "unat c * B + off + length xs \<le> length dsk"
    and k: "(unat k + 1) * B \<le> length dsk" and i: "i < B div 4"
  shows "pointer_at (pwrite dsk (unat c * B + off) xs) B k i = pointer_at dsk B k i"
proof -
  have neq: "unat k \<noteq> unat c" using c by (simp add: word_unat_eq_iff)
  have l: "length (pwrite dsk (unat c * B + off) xs) = length dsk" using le(2) by (rule length_pwrite_in)
  have "mem32 (map Some (pwrite dsk (unat c * B + off) xs)) (unat k * B + 4 * i) = mem32 (map Some dsk) (unat k * B + 4 * i)"
  proof (rule mem32_cong [OF _ l])
    fix j assume j: "unat k * B + 4 * i \<le> j" "j < unat k * B + 4 * i + 4"
    have "4 * i + 4 \<le> B" using i by linarith
    then have jb: "unat k * B \<le> j" "j < unat k * B + B" using j by linarith+
    then have "j div B = unat k" by (rule div_between)
    moreover have "j < length dsk" using jb k by simp
    ultimately show "j < length (pwrite dsk (unat c * B + off) xs) \<and> pwrite dsk (unat c * B + off) xs ! j = dsk ! j"
      using pwrite_other_block [of j B "unat c" off xs dsk] neq le l by simp
  qed
  then show ?thesis by (simp add: pointer_at_def)
qed

text \<open>The bytes of a file inside one of its blocks.\<close>

lemma content_slice:
  assumes le: "k * B + off + m \<le> sz" "off + m \<le> B" and d: "(unat (ext2_bmap dsk B blocks k) + 1) * B \<le> length dsk"
  shows "pread (ext2_content dsk B blocks sz) (k * B + off) m
    = pread dsk (unat (ext2_bmap dsk B blocks k) * B + off) m"
proof (rule nth_equalityI)
  let ?c = "unat (ext2_bmap dsk B blocks k)"
  have L: "?c * B + off + m \<le> length dsk" using d le(2) by simp
  show l: "length (pread (ext2_content dsk B blocks sz) (k * B + off) m) = length (pread dsk (?c * B + off) m)"
    using le(1) L by (simp add: pread_def)
  fix j assume "j < length (pread (ext2_content dsk B blocks sz) (k * B + off) m)"
  then have j: "j < m" by (simp add: pread_def)
  have "(k * B + off + j) div B = k" "(k * B + off + j) mod B = off + j" using j le(2) by (simp_all add: add.assoc)
  then show "pread (ext2_content dsk B blocks sz) (k * B + off) m ! j = pread dsk (?c * B + off) m ! j"
    using j le(1) L by (simp add: pread_def ext2_content_def add.assoc)
qed

lemma file_block_less:
  assumes "k * B + m \<le> unat (en_size n)" "0 < m" "B = unat (e2_blocksize e)" "0 < B"
  shows "k < file_blocks e n"
proof -
  have "Suc k * B \<le> unat (en_size n) + B - 1" using assms by simp
  then have "Suc k \<le> (unat (en_size n) + B - 1) div B" using assms(4) by (metis div_le_mono div_mult_self_is_m mult.commute)
  then show ?thesis using assms(3) by (simp add: file_blocks_def)
qed

lemma ext2_bmap_simps:
  "k < 12 \<Longrightarrow> ext2_bmap dsk B blocks k = blocks ! k"
  "12 \<le> k \<Longrightarrow> k < 12 + B div 4 \<Longrightarrow> ext2_bmap dsk B blocks k = pointer_at dsk B (blocks ! 12) (k - 12)"
  by (simp_all add: ext2_bmap_def Let_def less_diff_conv2)

text \<open>Writing inside one block of a file changes neither its block map nor the rest of its bytes.\<close>

lemma bmap_write:
  assumes lay: "file_layout e dsk n" and sep: "file_separate e dsk n" and B: "B = unat (e2_blocksize e)"
    and k: "k < file_blocks e n" and le: "off + length xs \<le> B" and j: "j < file_blocks e n"
  shows "ext2_bmap (pwrite dsk (unat (ext2_bmap dsk B (en_block n) k) * B + off) xs) B (en_block n) j
    = ext2_bmap dsk B (en_block n) j"
proof (cases "j < 12")
  case True
  then show ?thesis by (simp add: ext2_bmap_simps)
next
  case False
  let ?c = "ext2_bmap dsk B (en_block n) k"
  have d: "disk_block e dsk ?c" and i: "disk_block e dsk (en_block n ! 12)" and jw: "j < 12 + B div 4"
    using lay k j False B by (auto simp: file_layout_def)
  have "en_block n ! 12 \<noteq> ?c" using sep k B by (auto simp: file_separate_def)
  moreover have "unat ?c * B + off + length xs \<le> length dsk" using d le B by (simp add: disk_block_def)
  moreover have "(unat (en_block n ! 12) + 1) * B \<le> length dsk" using i B by (simp add: disk_block_def)
  ultimately show ?thesis using False jw pointer_at_other [OF _ le] by (simp add: ext2_bmap_simps)
qed

lemma layout_write:
  assumes lay: "file_layout e dsk n" and sep: "file_separate e dsk n" and B: "B = unat (e2_blocksize e)"
    and k: "k < file_blocks e n" and le: "off + length xs \<le> B"
  defines "dsk' \<equiv> pwrite dsk (unat (ext2_bmap dsk B (en_block n) k) * B + off) xs"
  shows "file_layout e dsk' n" "file_separate e dsk' n"
proof -
  note bm = bmap_write [OF lay sep B k le, folded dsk'_def]
  have "disk_block e dsk (ext2_bmap dsk B (en_block n) k)" using lay k B by (simp add: file_layout_def)
  then have "length dsk' = length dsk"
    using le B unfolding dsk'_def by (intro length_pwrite_in) (simp add: disk_block_def)
  then have db: "disk_block e dsk' = disk_block e dsk" by (simp add: disk_block_def fun_eq_iff)
  show "file_layout e dsk' n" using lay bm B by (auto simp: file_layout_def db)
  have "inj_on (ext2_bmap dsk' B (en_block n)) {..<file_blocks e n}
      = inj_on (ext2_bmap dsk B (en_block n)) {..<file_blocks e n}"
    using bm by (intro inj_on_cong) simp
  then show "file_separate e dsk' n" using sep bm B by (simp add: file_separate_def)
qed

lemma content_write:
  assumes lay: "file_layout e dsk n" and sep: "file_separate e dsk n" and B: "B = unat (e2_blocksize e)" "0 < B"
    and k: "k * B + off + length xs \<le> unat (en_size n)" "off + length xs \<le> B" "xs \<noteq> []"
  shows "ext2_content (pwrite dsk (unat (ext2_bmap dsk B (en_block n) k) * B + off) xs) B (en_block n) (unat (en_size n))
    = pwrite (ext2_content dsk B (en_block n) (unat (en_size n))) (k * B + off) xs" (is "ext2_content ?d B _ ?z = _")
proof (rule nth_equalityI)
  let ?m = "ext2_bmap dsk B (en_block n)" and ?F = "ext2_content dsk B (en_block n) ?z"
  have kf: "k < file_blocks e n" using k by (intro file_block_less [OF _ _ B, of _ "off + length xs"]) simp_all
  have dk: "(unat (?m j) + 1) * B \<le> length dsk" if "j < file_blocks e n" for j
    using lay that B by (simp add: file_layout_def disk_block_def)
  have W: "unat (?m k) * B + off + length xs \<le> length dsk" using dk [OF kf] k(2) by simp
  show "length (ext2_content ?d B (en_block n) ?z) = length (pwrite ?F (k * B + off) xs)"
    using k(1) by (simp add: length_pwrite_in)
  fix j assume "j < length (ext2_content ?d B (en_block n) ?z)"
  then have j: "j < ?z" by simp
  let ?q = "j div B" and ?r = "j mod B"
  have jq: "j = ?q * B + ?r" by simp
  have r: "?r < B" using B(2) by simp
  have qf: "?q < file_blocks e n" using j jq by (intro file_block_less [OF _ _ B, of _ "?r + 1"]) linarith+
  have in_d: "unat (?m ?q) * B + ?r < length dsk" using dk [OF qf] r by simp
  have "ext2_content ?d B (en_block n) ?z ! j = ?d ! (unat (?m ?q) * B + ?r)"
    using j bmap_write [OF lay sep B(1) kf k(2) qf] by (simp add: ext2_content_def)
  also have "\<dots> = pwrite ?F (k * B + off) xs ! j"
  proof (cases "?q = k")
    case True
    have jk: "j = k * B + ?r" using jq unfolding True .
    have "unat (?m k) * B + off \<le> unat (?m ?q) * B + ?r \<longleftrightarrow> k * B + off \<le> j"
      "unat (?m ?q) * B + ?r < unat (?m k) * B + off + length xs \<longleftrightarrow> j < k * B + off + length xs"
      "unat (?m ?q) * B + ?r - (unat (?m k) * B + off) = j - (k * B + off)"
      unfolding True using jk by linarith+
    with in_d W j k(1) True show ?thesis by (simp add: nth_pwrite ext2_content_def)
  next
    case False
    have "?m ?q \<noteq> ?m k" using sep qf kf False B(1) by (auto simp: file_separate_def inj_on_def)
    then have "unat (?m ?q) \<noteq> unat (?m k)" by (simp add: word_unat_eq_iff)
    then have "?d ! (unat (?m ?q) * B + ?r) = dsk ! (unat (?m ?q) * B + ?r)"
      using r in_d W k(2) by (intro pwrite_other_block) simp_all
    moreover have "\<not> (k * B + off \<le> j \<and> j < k * B + off + length xs)"
      using False k(2) by (rule other_block)
    ultimately show ?thesis using j k(1) by (auto simp: nth_pwrite ext2_content_def)
  qed
  finally show "ext2_content ?d B (en_block n) ?z ! j = pwrite ?F (k * B + off) xs ! j" .
qed

section \<open>Devices\<close>

text \<open>The states that differ in the super blocks of \<open>owned\<close> only.\<close>

definition kept :: "sptr set \<Rightarrow> fs \<Rightarrow> fs \<Rightarrow> bool" where
  "kept owned s t \<longleftrightarrow> (\<exists>m. t = s\<lparr>fs_sbs := m\<rparr> \<and> (\<forall>b. b \<notin> owned \<longrightarrow> m b = fs_sbs s b))"

lemma kept_refl [simp]: "kept owned s s"
  by (auto simp: kept_def intro!: exI [of _ "fs_sbs s"])

lemma kept_trans: "kept owned s t \<Longrightarrow> kept owned t u \<Longrightarrow> kept owned s u"
  by (fastforce simp: kept_def)

lemma kept_sel:
  assumes "kept owned s t"
  shows "fs_inodes t = fs_inodes s" "fs_chk t = fs_chk s" "fs_kstack t = fs_kstack s"
    "b \<notin> owned \<Longrightarrow> fs_sbs t b = fs_sbs s b" "b \<notin> owned \<Longrightarrow> ext2_of b t = ext2_of b s"
  using assms by (auto simp: kept_def ext2_of_def)

text \<open>
  A device as an array of bytes: \<open>ok\<close> holds of the states in which it works, \<open>disk\<close> is its contents and
  \<open>owned\<close> the super blocks that it lives in. A read or a write inside the array succeeds; a change of
  anything but these super blocks and the inode of the device leaves the device as it is.
\<close>

locale disk_device =
  fixes D :: dispatch and dev :: iptr and owned :: "sptr set"
    and ok :: "fs \<Rightarrow> bool" and disk :: "fs \<Rightarrow> byte list"
  assumes dev_read: "ok s \<Longrightarrow> a \<noteq> 0 \<Longrightarrow> fs_chk s a (R_OK OR W_OK) \<Longrightarrow> sz \<noteq> 0 \<Longrightarrow>
      unat off + unat sz \<le> length (disk s) \<Longrightarrow>
      vfs_read D dev a off sz s = Some ((int (unat sz), map Some (pread (disk s) (unat off) (unat sz))), s)"
    and dev_write: "ok s \<Longrightarrow> a \<noteq> 0 \<Longrightarrow> fs_chk s a R_OK \<Longrightarrow> xs \<noteq> [] \<Longrightarrow>
      unat off + length xs \<le> length (disk s) \<Longrightarrow>
      \<exists>t. vfs_write D dev (a, xs) off s = Some (int (length xs), t) \<and> ok t
        \<and> disk t = pwrite (disk s) (unat off) xs \<and> kept owned s t"
    and dev_small: "ok s \<Longrightarrow> length (disk s) < 2 ^ 31"
    and dev_frame: "ok s \<Longrightarrow> fs_inodes t dev = fs_inodes s dev \<Longrightarrow> (\<And>b. b \<in> owned \<Longrightarrow> fs_sbs t b = fs_sbs s b) \<Longrightarrow>
      ok t \<and> disk t = disk s"
begin

definition volume :: "fs \<Rightarrow> sptr \<Rightarrow> ext2_t \<Rightarrow> bool" where
  "volume s b e \<longleftrightarrow> ok s \<and> ext2_of b s = Some e \<and> b \<notin> owned \<and> e2_dev e = dev
     \<and> e2_blocksize e \<in> {1024, 2048, 4096}
     \<and> fs_kstack s \<noteq> 0 \<and> fs_chk s (fs_kstack s) (R_OK OR W_OK) \<and> fs_chk s (fs_kstack s) R_OK"

lemma volume_sizes:
  assumes "volume s b e"
  shows "unat (e2_blocksize e) \<in> {1024, 2048, 4096}" "0 < unat (e2_blocksize e)" "unat (e2_blocksize e) \<le> 4096"
    "unat (e2_blocksize e div 4) = unat (e2_blocksize e) div 4" "4 * (unat (e2_blocksize e) div 4) = unat (e2_blocksize e)"
  using assms by (auto simp: volume_def unat_div)

lemma volume_kept:
  assumes "volume s b e" "kept owned s t" "ok t"
  shows "volume t b e"
  using assms kept_sel [OF assms(2)] by (auto simp: volume_def)

text \<open>A position on the disk does not wrap around.\<close>

lemma disk_pos:
  assumes v: "volume s b e" and le: "unat k * unat (e2_blocksize e) + unat off + n \<le> length (disk s)"
  shows "unat (k * e2_blocksize e + off) = unat k * unat (e2_blocksize e) + unat off"
proof -
  have "length (disk s) < 2 ^ 31" using v dev_small by (simp add: volume_def)
  then have lt: "unat k * unat (e2_blocksize e) + unat off < 2 ^ 32" using le by simp
  then have "unat (k * e2_blocksize e) = unat k * unat (e2_blocksize e)"
    by (subst unat_word_ariths) simp
  with lt show ?thesis by (simp add: unat_add_small)
qed

lemma read_block_ok:
  assumes v: "volume s b e" and k: "k \<noteq> 0" "block_in_range e k" and a: "a \<noteq> 0" "fs_chk s a (R_OK OR W_OK)"
    and sz: "sz \<noteq> 0" and le: "unat k * unat (e2_blocksize e) + unat off + unat sz \<le> length (disk s)"
  shows "ext2_utils_read_block D b k off a sz s =
    Some (map Some (pread (disk s) (unat k * unat (e2_blocksize e) + unat off) (unat sz)), s)"
proof -
  note pos = disk_pos [OF v le]
  have "vfs_read D dev a (k * e2_blocksize e + off) sz s =
      Some ((int (unat sz), map Some (pread (disk s) (unat k * unat (e2_blocksize e) + unat off) (unat sz))), s)"
    using dev_read [of s a sz "k * e2_blocksize e + off"] v a sz le by (simp add: volume_def pos)
  with v k a sz show ?thesis by (simp add: ext2_utils_read_block_def volume_def)
qed

lemma write_block_ok:
  assumes v: "volume s b e" and k: "k \<noteq> 0" "block_in_range e k" and a: "a \<noteq> 0" "fs_chk s a R_OK"
    and xs: "xs \<noteq> []" and le: "unat k * unat (e2_blocksize e) + unat off + length xs \<le> length (disk s)"
  obtains t where "ext2_utils_write_block D b k off (a, xs) s = Some t" "volume t b e" "kept owned s t"
    "disk t = pwrite (disk s) (unat k * unat (e2_blocksize e) + unat off) xs"
proof -
  note pos = disk_pos [OF v le]
  have "ok s" using v by (simp add: volume_def)
  from dev_write [OF this a xs, of "k * e2_blocksize e + off"] le
  obtain t where t: "vfs_write D dev (a, xs) (k * e2_blocksize e + off) s = Some (int (length xs), t)" "ok t"
    "disk t = pwrite (disk s) (unat k * unat (e2_blocksize e) + unat off) xs" "kept owned s t"
    by (auto simp: pos)
  have "ext2_utils_write_block D b k off (a, xs) s = Some t"
    using v k a xs t(1) by (simp add: ext2_utils_write_block_def volume_def)
  with that t volume_kept [OF v t(4,2)] show thesis by blast
qed

lemma read_pointer_ok:
  assumes v: "volume s b e" and k: "disk_block e (disk s) k" and i: "unat i < unat (e2_blocksize e) div 4"
  shows "read_pointer D b k i s = Some (pointer_at (disk s) (unat (e2_blocksize e)) k (unat i), s)"
proof -
  let ?B = "unat (e2_blocksize e)" and ?d = "disk s"
  have B: "?B \<le> 4096" using volume_sizes [OF v] by simp
  have i4: "unat (4 * i) = 4 * unat i" using i B by (subst unat_word_ariths) simp
  have le: "unat k * ?B + 4 * unat i + 4 \<le> length ?d"
    using k i volume_sizes(5) [OF v] by (simp add: disk_block_def)
  have "ext2_utils_read_block D b k (4 * i) (fs_kstack s) 4 s
      = Some (map Some (pread ?d (unat k * ?B + 4 * unat i) 4), s)"
    using read_block_ok [OF v, of k "fs_kstack s" 4 "4 * i"] v k le by (simp add: volume_def disk_block_def i4)
  moreover have "mem32 (map Some (pread ?d (unat k * ?B + 4 * unat i) 4)) 0
      = Some (pointer_at ?d ?B k (unat i))"
    using le by (simp add: pointer_at_def pread_def mem32_def mem16_def take_map drop_map)
  ultimately show ?thesis by (simp add: read_pointer_def)
qed

end

context disk_device
begin

lemma data_block_ok:
  assumes v: "volume s b e" and lay: "file_layout e (disk s) n" and k: "k < file_blocks e n"
  shows "inode_data_block D b (en_block n) (of_nat k) s
    = Some (ext2_bmap (disk s) (unat (e2_blocksize e)) (en_block n) k, s)"
proof -
  let ?B = "unat (e2_blocksize e)"
  note V = volume_sizes [OF v]
  have kw: "k < 12 + ?B div 4" and len: "length (en_block n) = 15"
    using lay k by (auto simp: file_layout_def)
  then have ku: "unat (of_nat k :: u32) = k" using V(3) by (simp add: unat_of_nat)
  have ev: "ext2_of b s = Some e" using v by (simp add: volume_def)
  show ?thesis
  proof (cases "k < 12")
    case True
    then have "(of_nat k :: u32) < EXT2_NDIR_BLOCKS" by (simp add: word_less_nat_alt ku EXT2_NDIR_BLOCKS_def)
    with True len show ?thesis by (simp add: inode_data_block_def ev Let_def ku ext2_bmap_simps)
  next
    case False
    have i: "disk_block e (disk s) (en_block n ! 12)" using lay k False by (simp add: file_layout_def)
    have sub: "unat (of_nat k - EXT2_NDIR_BLOCKS :: u32) = k - 12"
      using False by (simp add: unat_sub word_le_nat_alt ku EXT2_NDIR_BLOCKS_def)
    then have lt: "unat (of_nat k - EXT2_NDIR_BLOCKS :: u32) < ?B div 4" using False kw by simp
    have "\<not> (of_nat k :: u32) < EXT2_NDIR_BLOCKS" using False by (simp add: word_less_nat_alt ku EXT2_NDIR_BLOCKS_def)
    moreover have "of_nat k - EXT2_NDIR_BLOCKS < e2_blocksize e div 4" using lt V(4) by (simp add: word_less_nat_alt)
    ultimately show ?thesis
      using False kw len read_pointer_ok [OF v i lt]
      by (simp add: inode_data_block_def ev Let_def sub EXT2_IND_BLOCK_def ext2_bmap_simps)
  qed
qed

lemma read_data_ok:
  assumes v: "volume s b e" and lay: "file_layout e (disk s) n" and B: "B = unat (e2_blocksize e)"
    and le: "unat k * B + unat off + unat q \<le> unat (en_size n)" "unat off + unat q \<le> B" "q \<noteq> 0"
    and a: "a \<noteq> 0" "fs_chk s a (R_OK OR W_OK)"
  shows "ext2_utils_read_inode_data D b (en_block n) k off a q s
    = Some (map Some (pread (ext2_content (disk s) B (en_block n) (unat (en_size n))) (unat k * B + unat off) (unat q)), s)"
proof -
  let ?c = "ext2_bmap (disk s) B (en_block n) (unat k)"
  have q: "0 < unat q" using le(3) by (simp add: unat_gt_0)
  have kf: "unat k < file_blocks e n"
    using le(1) q volume_sizes(2) [OF v] by (intro file_block_less [OF _ _ B, of _ "unat off + unat q"]) (simp_all add: B)
  then have d: "disk_block e (disk s) ?c" using lay B by (simp add: file_layout_def)
  then have d1: "(unat ?c + 1) * B \<le> length (disk s)" using B by (simp add: disk_block_def)
  have "inode_data_block D b (en_block n) k s = Some (?c, s)"
    using data_block_ok [OF v lay kf] by (simp add: B)
  moreover have "ext2_utils_read_block D b ?c off a q s = Some (map Some (pread (disk s) (unat ?c * B + unat off) (unat q)), s)"
    using read_block_ok [OF v _ _ a le(3), of ?c off] d d1 le(2) by (simp add: B disk_block_def)
  moreover have "q \<le> e2_blocksize e" using le(2) B by (simp add: word_le_nat_alt)
  moreover have "ext2_of b s = Some e" using v by (simp add: volume_def)
  ultimately show ?thesis
    using le content_slice [OF le(1,2) d1] by (simp add: ext2_utils_read_inode_data_def)
qed

lemma write_data_ok:
  assumes v: "volume s b e" and lay: "file_layout e (disk s) n" and sep: "file_separate e (disk s) n"
    and B: "B = unat (e2_blocksize e)"
    and le: "unat k * B + unat off + length xs \<le> unat (en_size n)" "unat off + length xs \<le> B" "xs \<noteq> []"
    and a: "a \<noteq> 0" "fs_chk s a R_OK"
  obtains t where "ext2_utils_write_inode_data D b (en_block n) k off (a, xs) s = Some t" "volume t b e"
    "kept owned s t" "file_layout e (disk t) n" "file_separate e (disk t) n"
    "ext2_content (disk t) B (en_block n) (unat (en_size n))
      = pwrite (ext2_content (disk s) B (en_block n) (unat (en_size n))) (unat k * B + unat off) xs"
proof -
  let ?c = "ext2_bmap (disk s) B (en_block n) (unat k)"
  have B0: "0 < B" using volume_sizes(2) [OF v] by (simp add: B)
  have kf: "unat k < file_blocks e n"
    using le(1,3) B0 by (intro file_block_less [OF _ _ B, of _ "unat off + length xs"]) simp_all
  then have d: "disk_block e (disk s) ?c" using lay B by (simp add: file_layout_def)
  then have d1: "unat ?c * B + unat off + length xs \<le> length (disk s)" using B le(2) by (simp add: disk_block_def)
  have bl: "inode_data_block D b (en_block n) k s = Some (?c, s)"
    using data_block_ok [OF v lay kf] by (simp add: B)
  from d d1 obtain t where t: "ext2_utils_write_block D b ?c off (a, xs) s = Some t" "volume t b e" "kept owned s t"
    "disk t = pwrite (disk s) (unat ?c * B + unat off) xs"
    using write_block_ok [OF v _ _ a le(3), of ?c off] by (auto simp: B disk_block_def)
  have "(of_nat (length xs) :: u32) \<le> e2_blocksize e"
    using le(2) B volume_sizes(3) [OF v] by (simp add: word_le_nat_alt unat_of_nat)
  then have "ext2_utils_write_inode_data D b (en_block n) k off (a, xs) s = Some t"
    using v t(1) bl le(3) by (simp add: ext2_utils_write_inode_data_def volume_def)
  with that t layout_write [OF lay sep B kf le(2)] content_write [OF lay sep B B0 le] show thesis by simp
qed

end

section \<open>Reading and writing files\<close>

text \<open>A buffer of the caller that may be accessed.\<close>

definition buf_ok :: "fs \<Rightarrow> u32 \<Rightarrow> nat \<Rightarrow> u32 \<Rightarrow> bool" where
  "buf_ok s a n m \<longleftrightarrow> (\<forall>j < n. a + of_nat j \<noteq> 0 \<and> fs_chk s (a + of_nat j) m)"

lemma buf_okD:
  assumes "buf_ok s a n m" "unat j < n"
  shows "a + j \<noteq> 0" "fs_chk s (a + j) m"
proof -
  have "a + of_nat (unat j) \<noteq> 0 \<and> fs_chk s (a + of_nat (unat j)) m" using assms unfolding buf_ok_def by blast
  then show "a + j \<noteq> 0" "fs_chk s (a + j) m" by simp_all
qed

lemma buf_ok_kept: "kept owned s t \<Longrightarrow> buf_ok t a n m = buf_ok s a n m"
  by (simp add: buf_ok_def kept_sel)

text \<open>
  How a range of bytes meets the blocks: it starts in block \<open>P div B\<close> and ends in block
  \<open>(P + L - 1) div B\<close>.
\<close>

lemma range_head:
  fixes P L B :: nat
  assumes "0 < B" "0 < L" "P mod B \<noteq> 0"
  shows "B - P mod B < L \<Longrightarrow> P + (B - P mod B) = (P div B + 1) * B \<and> P div B + 1 \<le> (P + L - 1) div B"
    and "L \<le> B - P mod B \<Longrightarrow> (P + L - 1) div B = P div B"
proof -
  have P: "P = P div B * B + P mod B" by simp
  have r: "P mod B < B" using assms(1) by simp
  show "P + (B - P mod B) = (P div B + 1) * B \<and> P div B + 1 \<le> (P + L - 1) div B" if h: "B - P mod B < L"
  proof -
    have e: "P + (B - P mod B) = (P div B + 1) * B" unfolding add_mult_distrib using P r by linarith
    then have "(P div B + 1) * B \<le> P + L - 1" using h by linarith
    then have "P div B + 1 \<le> (P + L - 1) div B" using assms(1) by (simp add: less_eq_div_iff_mult_less_eq)
    with e show ?thesis by blast
  qed
  show "(P + L - 1) div B = P div B" if h: "L \<le> B - P mod B"
  proof (rule div_between)
    show "P div B * B \<le> P + L - 1" using P assms(2) by linarith
    show "P + L - 1 < P div B * B + B" using P r h assms(2) by linarith
  qed
qed

lemma range_tail:
  fixes P L B :: nat
  assumes "0 < B" "0 < L"
  shows "(P + L) mod B \<noteq> 0 \<Longrightarrow> (P + L - 1) div B * B + (P + L) mod B = P + L"
    and "(P + L) mod B = 0 \<Longrightarrow> ((P + L - 1) div B + 1) * B = P + L"
proof -
  let ?Q = "(P + L) div B" and ?R = "(P + L) mod B"
  have Q: "P + L = ?Q * B + ?R" by simp
  have r: "?R < B" using assms(1) by simp
  show "(P + L - 1) div B * B + ?R = P + L" if h: "?R \<noteq> 0"
  proof -
    have "(P + L - 1) div B = ?Q"
    proof (rule div_between)
      show "?Q * B \<le> P + L - 1" using Q h by linarith
      show "P + L - 1 < ?Q * B + B" using Q r by linarith
    qed
    with Q show ?thesis by simp
  qed
  show "((P + L - 1) div B + 1) * B = P + L" if h: "?R = 0"
  proof -
    have pos: "0 < ?Q" using Q h assms(2) by (cases ?Q) auto
    then have m: "?Q * B = (?Q - 1) * B + B" by (cases ?Q) auto
    have "(P + L - 1) div B = ?Q - 1"
    proof (rule div_between)
      show "(?Q - 1) * B \<le> P + L - 1" using Q h m assms(1) by linarith
      show "P + L - 1 < (?Q - 1) * B + B" using Q h m assms by linarith
    qed
    with pos Q h show ?thesis by simp
  qed
qed

text \<open>
  The three ways the rest of a transfer can go when \<open>off\<close> of its \<open>l\<close> bytes are done, and either these are
  all of them or the next one starts block \<open>ib\<close>: nothing is left, only whole blocks are left, or whole
  blocks and a part of the last block \<open>eb\<close>.
\<close>

definition rest_at :: "nat \<Rightarrow> u32 \<Rightarrow> u32 \<Rightarrow> u32 \<Rightarrow> u32 \<Rightarrow> u32 \<Rightarrow> bool" where
  "rest_at B pos l ib eb off \<longleftrightarrow>
     0 < unat l \<and> unat pos + unat l < 2 ^ 31 \<and> unat eb = (unat pos + unat l - 1) div B
     \<and> (unat off = unat l \<and> unat ib = unat eb + 1 \<or> unat pos + unat off = unat ib * B \<and> unat ib \<le> unat eb)"

lemma rest_cases:
  fixes pos l ib eb off w :: u32
  assumes r: "rest_at B pos l ib eb off" and B: "B = unat w" "1024 \<le> B"
  obtains (finished) "unat off = unat l" "\<not> ib \<le> eb" "nat (sint (eb - ib + 1)) = 0"
  | (whole) c where "(pos + l) mod w = 0" "unat pos + unat off = unat ib * B" "unat off + c * B = unat l"
      "nat (sint (eb - ib + 1)) = c"
  | (part) c q where "(pos + l) mod w = q" "0 < unat q" "unat q \<le> B" "unat q \<le> unat l" "ib \<le> eb"
      "unat pos + unat off = unat ib * B" "unat off + c * B = unat l - unat q"
      "unat pos + (unat l - unat q) = unat eb * B" "unat (l - q) = unat l - unat q"
      "nat (sint (eb - 1 - ib + 1)) = c"
proof -
  let ?P = "unat pos" and ?L = "unat l"
  have L: "0 < ?L" "?P + ?L < 2 ^ 31" and eb: "unat eb = (?P + ?L - 1) div B" using r by (auto simp: rest_at_def)
  have B0: "0 < B" using B(2) by simp
  have pm: "unat ((pos + l) mod w) = (?P + ?L) mod B" using L(2) by (simp add: unat_mod_word unat_add_small B(1))
  have "unat eb * 1024 \<le> unat eb * B" using B(2) by (intro mult_le_mono2)
  also have "\<dots> < 2 ^ 31" using div_times_less_eq_dividend [of "?P + ?L - 1" B] L(2) unfolding eb by linarith
  finally have eb1: "unat eb + 1 < 2 ^ 31" by simp
  from r consider (d) "unat off = ?L" "unat ib = unat eb + 1" | (g) "?P + unat off = unat ib * B" "unat ib \<le> unat eb"
    by (auto simp: rest_at_def)
  then show thesis
  proof cases
    case d
    then have "ib = eb + 1" using eb1 by (simp add: word_unat_eq_iff unat_Suc_word)
    then have "nat (sint (eb - ib + 1)) = 0" by simp
    with finished d show thesis by (simp add: word_le_nat_alt)
  next
    case g
    have gap: "?P + unat off + (k - unat ib) * B = k * B" if "unat ib \<le> k" for k
      using g that by (simp add: add_mult_distrib [symmetric])
    have cnt: "nat (sint (of_nat k :: u32)) = k" if "k \<le> unat eb + 1" for k
      using that eb1 by (simp add: sint_of_nat_small)
    show thesis
    proof (cases "(?P + ?L) mod B = 0")
      case True
      have "(unat eb + 1) * B = ?P + ?L" unfolding eb by (rule range_tail(2) [OF B0 L(1) True])
      then have "unat off + (unat eb + 1 - unat ib) * B = ?L" using gap [of "unat eb + 1"] g(2) by simp
      moreover have "eb - ib + 1 = of_nat (unat eb + 1 - unat ib)" using g(2) by simp
      then have "nat (sint (eb - ib + 1)) = unat eb + 1 - unat ib" using cnt by simp
      moreover have "(pos + l) mod w = 0" using True pm by (simp add: word_unat_eq_iff)
      ultimately show thesis using whole [OF _ g(1), of "unat eb + 1 - unat ib"] by simp
    next
      case False
      let ?q = "(pos + l) mod w"
      have q: "0 < unat ?q" "unat ?q \<le> B" using False B0 by (simp_all add: pm less_imp_le)
      have e: "unat eb * B + unat ?q = ?P + ?L" unfolding eb pm by (rule range_tail(1) [OF B0 L(1) False])
      have c: "?P + unat off + (unat eb - unat ib) * B = unat eb * B" using gap g(2) .
      have "unat ?q \<le> ?L" "unat off + (unat eb - unat ib) * B = ?L - unat ?q" "?P + (?L - unat ?q) = unat eb * B"
        using c e by linarith+
      moreover from this(1) have "unat (l - ?q) = ?L - unat ?q" by (simp add: unat_sub word_le_nat_alt)
      moreover have "eb - 1 - ib + 1 = of_nat (unat eb - unat ib)" using g(2) by simp
      then have "nat (sint (eb - 1 - ib + 1)) = unat eb - unat ib" using cnt by simp
      ultimately show thesis using part [OF refl q] g by (simp add: word_le_nat_alt)
    qed
  qed
qed

context disk_device
begin

lemma read_blocks_ok:
  assumes v: "volume s b e" and lay: "file_layout e (disk s) n" and B: "B = unat (e2_blocksize e)"
    and F: "F = ext2_content (disk s) B (en_block n) (unat (en_size n))"
    and bo: "buf_ok s buf (length b0) (R_OK OR W_OK)" and b0: "length b0 < 2 ^ 32"
  shows "agree F P b0 S out \<Longrightarrow> P + unat off = unat ib * B \<Longrightarrow> unat off + c * B \<le> length b0 \<Longrightarrow>
    P + unat off + c * B \<le> length F \<Longrightarrow>
    \<exists>out'. ext2_read_blocks D b (en_block n) (e2_blocksize e) c ib off buf out s = Some (out', s)
      \<and> agree F P b0 (S \<union> {unat off..<unat off + c * B}) out'"
proof (induction c arbitrary: ib off S out)
  case 0
  then show ?case by simp
next
  case (Suc c)
  note V = volume_sizes [OF v, folded B]
  have sz: "length F < 2 ^ 31" using lay by (simp add: F file_layout_def)
  have fit: "unat off + B \<le> length b0" "P + unat off + B \<le> length F" using Suc.prems(3,4) by simp_all
  have le: "unat ib * B + unat (0 :: u32) + unat (e2_blocksize e) \<le> unat (en_size n)"
    "unat (0 :: u32) + unat (e2_blocksize e) \<le> B" "e2_blocksize e \<noteq> 0"
    using Suc.prems(2) fit(2) V(2) by (auto simp: B F)
  have "unat off < length b0" using fit(1) V(2) by linarith
  note a = buf_okD [OF bo this]
  have rd: "ext2_utils_read_inode_data D b (en_block n) ib 0 (buf + off) (e2_blocksize e) s
      = Some (map Some (take B (drop (P + unat off) F)), s)"
    using read_data_ok [OF v lay B le a] Suc.prems(2) by (simp add: F pread_def B)
  obtain out1 where o1: "mem_store out (unat off) (map Some (take B (drop (P + unat off) F))) = Some out1"
    "agree F P b0 (S \<union> {unat off..<unat off + B}) out1"
    using agree_store [OF Suc.prems(1) fit] .
  have off: "unat (off + e2_blocksize e) = unat off + B" using fit(1) b0 by (simp add: unat_add_small B)
  have "unat ib * 1 \<le> unat ib * B" using V(2) by (intro mult_le_mono2) simp
  then have "unat ib < 2 ^ 31" using Suc.prems(2) fit(2) sz by linarith
  then have ib: "unat (ib + 1) = unat ib + 1" by (intro unat_Suc_word) simp
  have "P + unat (off + e2_blocksize e) = unat (ib + 1) * B" using Suc.prems(2) by (simp add: off ib)
  moreover have "unat (off + e2_blocksize e) + c * B \<le> length b0" "P + unat (off + e2_blocksize e) + c * B \<le> length F"
    using Suc.prems(3,4) by (simp_all add: off)
  ultimately obtain out' where r: "ext2_read_blocks D b (en_block n) (e2_blocksize e) c (ib + 1) (off + e2_blocksize e) buf out1 s = Some (out', s)"
    "agree F P b0 (S \<union> {unat off..<unat off + B} \<union> {unat off + B..<unat off + B + c * B}) out'"
    using Suc.IH [OF o1(2), of "off + e2_blocksize e" "ib + 1"] unfolding off by blast
  have "S \<union> {unat off..<unat off + B} \<union> {unat off + B..<unat off + B + c * B} = S \<union> {unat off..<unat off + Suc c * B}"
    by auto
  with r rd o1(1) show ?case by (simp add: add.assoc)
qed

end

context disk_device
begin

lemma read_rest_ok:
  assumes v: "volume s b e" and lay: "file_layout e (disk s) n" and B: "B = unat (e2_blocksize e)"
    and F: "F = ext2_content (disk s) B (en_block n) (unat (en_size n))"
    and bo: "buf_ok s buf (length b0) (R_OK OR W_OK)" and b0: "length b0 < 2 ^ 32"
    and L: "unat pos + unat l \<le> length F" "unat l \<le> length b0"
    and at: "rest_at B pos l ib eb off" and ag: "agree F (unat pos) b0 {0..<unat off} out"
  obtains out' where "ext2_read_rest D b (en_block n) (e2_blocksize e) buf pos l ib eb off out s = Some (out', s)"
    "agree F (unat pos) b0 {0..<unat l} out'"
proof -
  let ?P = "unat pos" and ?L = "unat l"
  have B1: "1024 \<le> B" using volume_sizes(1) [OF v, folded B] by auto
  note rd = read_blocks_ok [OF v lay B F bo b0]
  from at B B1 show thesis
  proof (cases rule: rest_cases)
    case finished
    with that ag show thesis by (simp add: ext2_read_rest_def)
  next
    case (whole c)
    obtain out' where "ext2_read_blocks D b (en_block n) (e2_blocksize e) c ib off buf out s = Some (out', s)"
      "agree F ?P b0 ({0..<unat off} \<union> {unat off..<unat off + c * B}) out'"
      using rd [OF ag whole(2), of c] whole(3) L by auto
    moreover have "{0..<unat off} \<union> {unat off..<unat off + c * B} = {0..<?L}" using whole(3) by auto
    ultimately show thesis using that whole by (simp add: ext2_read_rest_def)
  next
    case (part c q)
    let ?R = "unat q"
    have q0: "q \<noteq> 0" using part(2) by auto
    have "unat (l - q) < length b0" using part(2,4,9) L(2) by linarith
    note a = buf_okD [OF bo this]
    have "unat eb * B + unat (0 :: u32) + ?R \<le> unat (en_size n)" "unat (0 :: u32) + ?R \<le> B"
      using part(3,4,8) L(1) by (simp_all add: F)
    from read_data_ok [OF v lay B this q0 a]
    have r: "ext2_utils_read_inode_data D b (en_block n) eb 0 (buf + l - q) q s
        = Some (map Some (take ?R (drop (?P + (?L - ?R)) F)), s)"
      unfolding part(8) by (simp add: F pread_def add_diff_eq)
    obtain out1 where o1: "mem_store out (?L - ?R) (map Some (take ?R (drop (?P + (?L - ?R)) F))) = Some out1"
      "agree F ?P b0 ({0..<unat off} \<union> {?L - ?R..<?L - ?R + ?R}) out1"
      by (rule agree_store [OF ag, of "?L - ?R" ?R]) (use part(4) L in simp_all)
    have n: "unat off + c * B \<le> length b0" "?P + unat off + c * B \<le> length F" using part(4,7) L by linarith+
    obtain out' where "ext2_read_blocks D b (en_block n) (e2_blocksize e) c ib off buf out1 s = Some (out', s)"
      "agree F ?P b0 ({0..<unat off} \<union> {?L - ?R..<?L - ?R + ?R} \<union> {unat off..<unat off + c * B}) out'"
      using rd [OF o1(2) part(6) n] by blast
    moreover have "{0..<unat off} \<union> {?L - ?R..<?L - ?R + ?R} \<union> {unat off..<unat off + c * B} = {0..<?L}"
      using part(4,7) by auto
    ultimately show thesis using that part(1,5,9,10) q0 r o1(1) by (simp add: ext2_read_rest_def)
  qed
qed

end

section \<open>Inodes\<close>

text \<open>The inode of a number: the descriptor of its group names the table that holds it.\<close>

definition ext2_disk_inode :: "ext2_t \<Rightarrow> byte list \<Rightarrow> u32 \<Rightarrow> ext2_inode option" where
  "ext2_disk_inode e dsk ino =
     (let B = unat (e2_blocksize e); i = unat ino - 1; ipg = unat (s_inodes_per_group (e2_sb e));
          z = unat (e2_inodesize e) in
      do {
        d \<leftarrow> group_desc_of (map Some (pread dsk (unat (e2_first_block_group e) * B + i div ipg * 32) 32));
        inode_of (map Some (pread dsk (unat (bg_inode_table d) * B + i mod ipg * z) z @ replicate (128 - z) 0))
      })"

definition inode_on_disk :: "ext2_t \<Rightarrow> byte list \<Rightarrow> u32 \<Rightarrow> bool" where
  "inode_on_disk e dsk ino \<longleftrightarrow>
     (let B = unat (e2_blocksize e); i = unat ino - 1; ipg = unat (s_inodes_per_group (e2_sb e));
          z = unat (e2_inodesize e); g = e2_first_block_group e in
      1 < ino \<and> ino \<le> s_inodes_count (e2_sb e) \<and> 0 < ipg \<and> 0 < z \<and> z \<le> 128
      \<and> g \<noteq> 0 \<and> block_in_range e g \<and> unat g * B + i div ipg * 32 + 32 \<le> length dsk
      \<and> (\<forall>d. group_desc_of (map Some (pread dsk (unat g * B + i div ipg * 32) 32)) = Some d \<longrightarrow>
           bg_inode_table d \<noteq> 0 \<and> block_in_range e (bg_inode_table d)
           \<and> unat (bg_inode_table d) * B + i mod ipg * z + z \<le> length dsk))"

text \<open>The driver has the inode in its cache, or can load it.\<close>

definition inode_known :: "ext2_t \<Rightarrow> byte list \<Rightarrow> u32 \<Rightarrow> ext2_inode \<Rightarrow> bool" where
  "inode_known e dsk ino n \<longleftrightarrow> cache_ok (e2_icache e)
     \<and> (cache_peek (e2_icache e) ino = Some n
        \<or> cache_peek (e2_icache e) ino = None \<and> cache_room (e2_icache e) \<and> inode_on_disk e dsk ino
          \<and> ext2_disk_inode e dsk ino = Some n)"

lemma file_layout_icache [simp]:
  "file_layout (e\<lparr>e2_icache := c\<rparr>) = file_layout e" "file_separate (e\<lparr>e2_icache := c\<rparr>) = file_separate e"
  by (simp_all add: fun_eq_iff file_layout_def file_separate_def file_blocks_def disk_block_def block_in_range_def)

lemma ext2_of_iff: "ext2_of b s = Some e \<longleftrightarrow> (\<exists>sb. fs_sbs s b = Some sb \<and> sb_info sb = Ext2Info e)"
  by (cases "fs_sbs s b") (auto simp: ext2_of_def split: fsinfo.splits)

lemma upd_ext2_of:
  assumes "ext2_of b s = Some e"
  shows "ext2_of b (upd_ext2 b f s) = Some (f e)"
  using assms by (auto simp: ext2_of_iff upd_ext2_def)

lemma upd_ext2_sel [simp]:
  "fs_inodes (upd_ext2 b f s) = fs_inodes s" "fs_chk (upd_ext2 b f s) = fs_chk s"
  "fs_kstack (upd_ext2 b f s) = fs_kstack s" "fs_task (upd_ext2 b f s) = fs_task s"
  "c \<noteq> b \<Longrightarrow> fs_sbs (upd_ext2 b f s) c = fs_sbs s c"
  by (simp_all add: upd_ext2_def)

lemma upd_ext2_id:
  assumes "ext2_of b s = Some e" "f e = e"
  shows "upd_ext2 b f s = s"
proof -
  from assms(1) obtain sb where "fs_sbs s b = Some sb" "sb_info sb = Ext2Info e"
    by (auto simp: ext2_of_iff)
  then show ?thesis using assms(2) unfolding upd_ext2_def by (intro upd_sb_id) auto
qed

context disk_device
begin

lemma volume_upd:
  assumes "volume s b e" "f e = e\<lparr>e2_icache := c\<rparr>"
  shows "volume (upd_ext2 b f s) b (e\<lparr>e2_icache := c\<rparr>)" "disk (upd_ext2 b f s) = disk s"
proof -
  have "ok s" "b \<notin> owned" using assms(1) by (simp_all add: volume_def)
  then have "ok (upd_ext2 b f s) \<and> disk (upd_ext2 b f s) = disk s" by (intro dev_frame) (auto intro!: upd_ext2_sel(5))
  then show "volume (upd_ext2 b f s) b (e\<lparr>e2_icache := c\<rparr>)" "disk (upd_ext2 b f s) = disk s"
    using assms upd_ext2_of [of b s e f] by (auto simp: volume_def)
qed

lemma inode_group_ok:
  assumes v: "volume s b e" and on: "inode_on_disk e (disk s) ino" and n: "ext2_disk_inode e (disk s) ino = Some n"
  obtains d off where "inode_group D b ino s = Some ((d, off), s)" "bg_inode_table d \<noteq> 0"
    "block_in_range e (bg_inode_table d)"
    "unat (bg_inode_table d) * unat (e2_blocksize e) + unat off + unat (e2_inodesize e) \<le> length (disk s)"
    "inode_of (map Some (pread (disk s) (unat (bg_inode_table d) * unat (e2_blocksize e) + unat off) (unat (e2_inodesize e))
       @ replicate (128 - unat (e2_inodesize e)) 0)) = Some n"
proof -
  let ?B = "unat (e2_blocksize e)" and ?g = "e2_first_block_group e" and ?ipg = "s_inodes_per_group (e2_sb e)"
  let ?i = "unat ino - 1" and ?z = "unat (e2_inodesize e)" and ?d = "disk s"
  have small: "length ?d < 2 ^ 31" using v dev_small by (simp add: volume_def)
  from n obtain d where d: "group_desc_of (map Some (pread ?d (unat ?g * ?B + ?i div unat ?ipg * 32) 32)) = Some d"
    "inode_of (map Some (pread ?d (unat (bg_inode_table d) * ?B + ?i mod unat ?ipg * ?z) ?z @ replicate (128 - ?z) 0)) = Some n"
    by (auto simp: ext2_disk_inode_def Let_def bind_eq_Some_conv)
  have O: "1 < ino" "0 < unat ?ipg" "?g \<noteq> 0" "block_in_range e ?g" "unat ?g * ?B + ?i div unat ?ipg * 32 + 32 \<le> length ?d"
    "bg_inode_table d \<noteq> 0" "block_in_range e (bg_inode_table d)"
    "unat (bg_inode_table d) * ?B + ?i mod unat ?ipg * ?z + ?z \<le> length ?d"
    using on d(1) by (auto simp: inode_on_disk_def Let_def)
  have i: "unat (ino - 1) = ?i" using O(1) by (simp add: unat_sub word_le_nat_alt word_less_nat_alt)
  have o1: "unat ((ino - 1) div ?ipg * GROUP_DESC_SIZE) = ?i div unat ?ipg * 32"
    using O(5) small by (subst unat_word_ariths) (simp add: unat_div i GROUP_DESC_SIZE_def)
  have o2: "unat ((ino - 1) mod ?ipg * e2_inodesize e) = ?i mod unat ?ipg * ?z"
    using O(8) small by (subst unat_word_ariths) (simp add: unat_mod_word i)
  have gz: "unat GROUP_DESC_SIZE = 32" "GROUP_DESC_SIZE \<noteq> 0" by (simp_all add: GROUP_DESC_SIZE_def)
  have "ext2_utils_read_block D b ?g ((ino - 1) div ?ipg * GROUP_DESC_SIZE) (fs_kstack s) GROUP_DESC_SIZE s
      = Some (map Some (pread ?d (unat ?g * ?B + ?i div unat ?ipg * 32) 32), s)"
    using read_block_ok [OF v O(3,4) _ _ gz(2), of "fs_kstack s" "(ino - 1) div ?ipg * GROUP_DESC_SIZE"] v O(5)
    by (simp add: o1 gz(1) volume_def)
  then have "inode_group D b ino s = Some ((d, (ino - 1) mod ?ipg * e2_inodesize e), s)"
    using v O(2) d(1) by (simp add: inode_group_def volume_def Let_def unat_gt_0)
  from that [OF this O(6,7)] O(8) d(2) show thesis by (simp add: o2)
qed

lemma cache_load_ok:
  assumes v: "volume s b e" and on: "inode_on_disk e (disk s) ino" and n: "ext2_disk_inode e (disk s) ino = Some n"
  shows "ext2_cache_load D b ino s = Some (n, s)"
proof -
  let ?z = "unat (e2_inodesize e)" and ?B = "unat (e2_blocksize e)"
  obtain d off where g: "inode_group D b ino s = Some ((d, off), s)" "bg_inode_table d \<noteq> 0"
    "block_in_range e (bg_inode_table d)" "unat (bg_inode_table d) * ?B + unat off + ?z \<le> length (disk s)"
    "inode_of (map Some (pread (disk s) (unat (bg_inode_table d) * ?B + unat off) ?z @ replicate (128 - ?z) 0)) = Some n"
    using inode_group_ok [OF assms] by blast
  have z: "0 < ?z" "?z \<le> 128" "1 < ino" "ino \<le> s_inodes_count (e2_sb e)" using on by (simp_all add: inode_on_disk_def Let_def)
  let ?xs = "map Some (pread (disk s) (unat (bg_inode_table d) * ?B + unat off) ?z)"
  have "ext2_utils_read_block D b (bg_inode_table d) off (fs_kstack s) (e2_inodesize e) s = Some (?xs, s)"
    using read_block_ok [OF v g(2,3), of "fs_kstack s" "e2_inodesize e" off] v g(4) z(1)
    by (simp add: volume_def unat_gt_0)
  then have "ext2_utils_read_inode D b ino (fs_kstack s) s = Some (?xs, s)"
    using v z(3,4) g(1) by (auto simp: ext2_utils_read_inode_def volume_def EXT2_BAD_INO_def not_less)
  moreover have "mem_store (replicate INODE_STRUCT_SIZE (Some 0)) 0 ?xs = Some (?xs @ replicate (128 - ?z) (Some 0))"
    using g(4) z(2) by (simp add: mem_store_def INODE_STRUCT_SIZE_def pread_def)
  ultimately show ?thesis using g(5) by (simp add: ext2_cache_load_def)
qed

lemma get_ok:
  assumes v: "volume s b e" and kn: "inode_known e (disk s) ino n"
  obtains c where "ext2_get D b ino s = Some (n, upd_ext2 b (\<lambda>e. e\<lparr>e2_icache := c\<rparr>) s)"
    "cache_ok c" "cache_peek c ino = Some n"
proof -
  have e: "ext2_of b s = Some e" and ok: "cache_ok (e2_icache e)" using v kn by (auto simp: volume_def inode_known_def)
  show thesis
  proof (cases "cache_peek (e2_icache e) ino")
    case (Some m)
    then have "m = n" using kn by (auto simp: inode_known_def)
    with vfs_cache_get_hit [OF ok Some, of "ext2_cache_load D b" s] e
    have "ext2_get D b ino s = Some (n, upd_ext2 b (\<lambda>e'. e'\<lparr>e2_icache := e2_icache e\<rparr>) s)"
      by (simp add: ext2_get_def)
    with that ok Some \<open>m = n\<close> show thesis by blast
  next
    case None
    then have r: "cache_room (e2_icache e)" and on: "inode_on_disk e (disk s) ino" "ext2_disk_inode e (disk s) ino = Some n"
      using kn by (auto simp: inode_known_def)
    from vfs_cache_get_miss [OF ok None r, of "ext2_cache_load D b" s] cache_load_ok [OF v on]
    have "ext2_get D b ino s = Some (n, upd_ext2 b (\<lambda>e'. e'\<lparr>e2_icache := (e2_icache e)\<lparr>c_items := c_items (e2_icache e) @ [(ino, n)],
        c_count := c_count (e2_icache e) + 1\<rparr>\<rparr>) s)" by (simp add: ext2_get_def e)
    with that cache_append_ok [OF ok None r] cache_append_peek [OF None] show thesis by simp
  qed
qed

end

section \<open>Files\<close>

text \<open>An inode in memory that belongs to a file of the volume at \<open>b\<close>.\<close>

definition ext2_node :: "fs \<Rightarrow> iptr \<Rightarrow> inode \<Rightarrow> sptr \<Rightarrow> bool" where
  "ext2_node s p i b \<longleftrightarrow> fs_inodes s p = Some i \<and> i_sb i = Some b
     \<and> (\<exists>sb. fs_sbs s b = Some sb \<and> sb_fsid sb = EXT2_ID)"

lemma ext2_sb_node: "ext2_node s p i b \<Longrightarrow> ext2_of b s = Some e \<Longrightarrow> ext2_sb p s = Some (i, b, e)"
  by (auto simp: ext2_node_def ext2_sb_def)

lemma buf_ok_upd [simp]: "buf_ok (upd_ext2 b f s) a n m = buf_ok s a n m"
  by (simp add: buf_ok_def)

lemma mem_slice_take:
  assumes "length (take L zs) = L" "x + m \<le> L"
  shows "mem_slice zs x m = Some (take m (drop x (take L zs)))"
proof -
  have "L \<le> length zs" using assms(1) by simp
  with assms(2) show ?thesis by (simp add: mem_slice_def drop_take)
qed

lemma clip_len:
  assumes "unat (pos :: u32) < unat z" "unat pos + unat len < 2 ^ 32"
  shows "unat (if z < pos + len then z - pos else len) = min (unat len) (unat z - unat pos)"
  using assms by (auto simp: word_less_nat_alt unat_add_small unat_sub word_le_nat_alt)

text \<open>Where a transfer stands at its start, and after the part up to the first block boundary.\<close>

lemma unat_last_block:
  assumes "0 < unat l" "unat pos + unat l < 2 ^ 31" "B = unat w"
  shows "unat ((pos + l - 1) div w :: u32) = (unat pos + unat l - 1) div B"
proof -
  have "unat (pos + l - 1) = unat pos + unat l - 1"
    using assms by (simp add: unat_sub unat_add_small word_le_nat_alt)
  then show ?thesis by (simp add: unat_div assms(3))
qed

lemma rest_at_aligned:
  assumes "pos mod w = 0" "0 < unat l" "unat pos + unat l < 2 ^ 31" "B = unat w" "0 < B"
  shows "rest_at B pos l (pos div w) ((pos + l - 1) div w) 0"
proof -
  have "unat (pos mod w) = 0" using assms(1) by simp
  then have m: "unat pos mod B = 0" by (simp only: unat_mod_word assms(4))
  have "unat pos + unat (0 :: u32) = unat (pos div w) * B" using m by (auto simp: unat_div assms(4))
  moreover have "unat (pos div w) \<le> (unat pos + unat l - 1) div B"
    using assms(2) by (simp add: unat_div assms(4) div_le_mono)
  ultimately show ?thesis using unat_last_block [OF assms(2-4)] assms(2,3) by (simp add: rest_at_def)
qed

lemma rest_at_head:
  assumes m: "unat pos mod B \<noteq> 0" and L: "0 < unat l" "unat pos + unat l < 2 ^ 31" and B: "B = unat w" "0 < B"
    and q: "unat q = min (B - unat pos mod B) (unat l)"
  shows "rest_at B pos l (pos div w + 1) ((pos + l - 1) div w) q"
proof -
  have "unat pos div B < 2 ^ 31" using div_le_dividend [of "unat pos" B] L by linarith
  then have ib: "unat (pos div w + 1) = unat pos div B + 1" by (subst unat_Suc_word) (simp_all add: unat_div B(1))
  note eb = unat_last_block [OF L B(1)]
  have "unat q = unat l \<and> unat (pos div w + 1) = unat ((pos + l - 1) div w) + 1
      \<or> unat pos + unat q = unat (pos div w + 1) * B \<and> unat (pos div w + 1) \<le> unat ((pos + l - 1) div w)"
    using range_head [OF B(2) L(1) m] q unfolding ib eb by (cases "B - unat pos mod B < unat l") auto
  with L eb show ?thesis by (simp add: rest_at_def)
qed

text \<open>The part of a transfer up to the first block boundary lies in one block of the file.\<close>

lemma head_len:
  fixes pos l w :: u32
  assumes B: "B = unat w" "0 < B" and L: "0 < unat l"
  defines "q \<equiv> (if w - pos mod w > l then l else w - pos mod w)"
  shows "unat q = min (B - unat pos mod B) (unat l)" "q \<noteq> 0" "unat (pos mod w) + unat q \<le> B"
    "unat (pos div w) * B + unat (pos mod w) = unat pos"
proof -
  have lt: "unat pos mod B < B" using B(2) by simp
  have pm: "unat (pos mod w) = unat pos mod B" by (simp add: unat_mod_word B)
  with lt have "unat (w - pos mod w) = B - unat pos mod B" by (simp add: unat_sub word_le_nat_alt B)
  then show q: "unat q = min (B - unat pos mod B) (unat l)" by (auto simp: q_def word_less_nat_alt min_def)
  then show "q \<noteq> 0" using L lt by (auto simp: word_unat_eq_iff)
  show "unat (pos mod w) + unat q \<le> B" using q pm lt by simp
  show "unat (pos div w) * B + unat (pos mod w) = unat pos" by (simp add: pm unat_div B(1))
qed

context disk_device
begin

text \<open>The head of a read, up to the first block boundary.\<close>

lemma read_head_ok:
  assumes v: "volume s b e" and lay: "file_layout e (disk s) n" and B: "B = unat (e2_blocksize e)"
    and F: "F = ext2_content (disk s) B (en_block n) (unat (en_size n))"
    and bo: "buf_ok s buf (length b0) (R_OK OR W_OK)"
    and L: "0 < unat l" "unat pos + unat l \<le> length F" "unat l \<le> length b0" and m: "unat pos mod B \<noteq> 0"
  defines "q \<equiv> (if e2_blocksize e - pos mod e2_blocksize e > l then l else e2_blocksize e - pos mod e2_blocksize e)"
  obtains out where "ext2_utils_read_inode_data D b (en_block n) (pos div e2_blocksize e) (pos mod e2_blocksize e) buf q s
      = Some (map Some (take (unat q) (drop (unat pos) F)), s)"
    "mem_store b0 0 (map Some (take (unat q) (drop (unat pos) F))) = Some out"
    "agree F (unat pos) b0 {0..<unat q} out"
    "unat q = min (B - unat pos mod B) (unat l)"
proof -
  let ?P = "unat pos" and ?w = "e2_blocksize e"
  note V = volume_sizes [OF v, folded B]
  note H = head_len [OF B V(2) L(1), of pos, folded q_def]
  have le: "unat (pos div ?w) * B + unat (pos mod ?w) + unat q \<le> unat (en_size n)"
    using L(2) unfolding H(4) H(1) by (simp add: F)
  have "unat (0 :: u32) < length b0" using less_le_trans [OF L(1,3)] by simp
  from buf_okD [OF bo this] have "buf \<noteq> 0" "fs_chk s buf (R_OK OR W_OK)" by simp_all
  from read_data_ok [OF v lay B le H(3,2) this]
  have r: "ext2_utils_read_inode_data D b (en_block n) (pos div ?w) (pos mod ?w) buf q s
      = Some (map Some (take (unat q) (drop ?P F)), s)" by (simp add: H(4) F pread_def)
  obtain out where "mem_store b0 0 (map Some (take (unat q) (drop (?P + 0) F))) = Some out"
    "agree F ?P b0 ({} \<union> {0..<0 + unat q}) out"
    by (rule agree_store [OF agree_refl, of 0 "unat q" b0 ?P F]) (use H(1) L in simp_all)
  with that r H(1) show thesis by simp
qed

lemma read_at_ok:
  assumes v: "volume s b e" and lay: "file_layout e (disk s) n" and B: "B = unat (e2_blocksize e)"
    and F: "F = ext2_content (disk s) B (en_block n) (unat (en_size n))"
    and bo: "buf_ok s buf (length b0) (R_OK OR W_OK)" and b0: "length b0 < 2 ^ 32"
    and L: "0 < unat l" "unat pos + unat l \<le> length F" "unat l \<le> length b0"
  obtains out where "ext2_read_at D b (en_block n) (e2_blocksize e) buf pos l b0 s = Some (out, s)"
    "agree F (unat pos) b0 {0..<unat l} out"
proof -
  let ?P = "unat pos" and ?w = "e2_blocksize e" and ?eb = "(pos + l - 1) div e2_blocksize e"
  note V = volume_sizes [OF v, folded B]
  have sz: "?P + unat l < 2 ^ 31" using lay L(2) by (simp add: F file_layout_def)
  note rest = read_rest_ok [OF v lay B F bo b0 L(2,3)]
  show thesis
  proof (cases "pos mod ?w = 0")
    case True
    have "agree F ?P b0 {0..<unat (0 :: u32)} b0" by (simp add: agree_refl)
    from rest [OF rest_at_aligned [OF True L(1) sz B V(2)] this] that True show thesis
      by (auto simp: ext2_read_at_def Let_def)
  next
    case False
    define q where q: "q = (if ?w - pos mod ?w > l then l else ?w - pos mod ?w)"
    from False have m: "?P mod B \<noteq> 0" by (simp add: B word_unat_eq_iff unat_mod_word)
    obtain out where h: "ext2_utils_read_inode_data D b (en_block n) (pos div ?w) (pos mod ?w) buf q s
        = Some (map Some (take (unat q) (drop ?P F)), s)"
      "mem_store b0 0 (map Some (take (unat q) (drop ?P F))) = Some out"
      "agree F ?P b0 {0..<unat q} out" "unat q = min (B - ?P mod B) (unat l)"
      by (rule read_head_ok [OF v lay B F bo L m, folded q])
    from rest [OF rest_at_head [OF m L(1) sz B V(2) h(4)] h(3)] obtain out' where
      "ext2_read_rest D b (en_block n) ?w buf pos l (pos div ?w + 1) ?eb q out s = Some (out', s)"
      "agree F ?P b0 {0..<unat l} out'" .
    with that False h(1,2) show thesis by (simp add: ext2_read_at_def q [symmetric] Let_def)
  qed
qed

lemma read_ok:
  assumes nd: "ext2_node s p i b" and v: "volume s b e" and kn: "inode_known e (disk s) (i_ino i) n"
    and lay: "file_layout e (disk s) n" and bo: "buf_ok s buf (unat len) (R_OK OR W_OK)" and len: "len \<noteq> 0"
    and pos: "unat pos < unat (en_size n)" "unat pos + unat len < 2 ^ 32"
  defines "r \<equiv> pread (ext2_content (disk s) (unat (e2_blocksize e)) (en_block n) (unat (en_size n))) (unat pos) (unat len)"
  obtains c where "ext2_read D p buf pos len s
      = Some ((int (length r), map Some r), upd_ext2 b (\<lambda>e. e\<lparr>e2_icache := c\<rparr>) s)"
    "cache_ok c" "cache_peek c (i_ino i) = Some n"
proof -
  define F where F: "F = ext2_content (disk s) (unat (e2_blocksize e)) (en_block n) (unat (en_size n))"
  let ?P = "unat pos" and ?b0 = "replicate (unat len) None :: byte option list"
  obtain c where c: "ext2_get D b (i_ino i) s = Some (n, upd_ext2 b (\<lambda>e. e\<lparr>e2_icache := c\<rparr>) s)"
    "cache_ok c" "cache_peek c (i_ino i) = Some n" using get_ok [OF v kn] .
  define s1 where s1: "s1 = upd_ext2 b (\<lambda>e. e\<lparr>e2_icache := c\<rparr>) s"
  have v1: "volume s1 b (e\<lparr>e2_icache := c\<rparr>)" and d1: "disk s1 = disk s"
    unfolding s1 by (rule volume_upd [OF v], simp)+
  define l where l: "l = (if en_size n < pos + len then en_size n - pos else len)"
  have ul: "unat l = min (unat len) (unat (en_size n) - ?P)" unfolding l by (rule clip_len [OF pos])
  have L: "0 < unat l" "?P + unat l \<le> length F" "unat l \<le> length ?b0"
    using ul pos len by (simp_all add: F unat_gt_0)
  have "length F < 2 ^ 31" using lay by (simp add: F file_layout_def)
  then have small: "unat l < 2 ^ 31" using L(2) by linarith
  have bo1: "buf_ok s1 buf (length ?b0) (R_OK OR W_OK)" using bo by (simp add: s1)
  obtain out where out: "ext2_read_at D b (en_block n) (e2_blocksize e) buf pos l ?b0 s1 = Some (out, s1)"
    "agree F ?P ?b0 {0..<unat l} out"
    using read_at_ok [OF v1 _ refl _ bo1 _ L, of n] lay unat_u32_less [of len] by (auto simp: d1 F)
  have "map Some r = map Some (take (unat l) (drop ?P F))" using ul by (simp add: r_def F pread_def min_def)
  with agree_full [OF out(2) L(3,2)] L have "take (unat l) out = map Some r" by simp
  moreover have "sint l = int (length r)" using ul small by (simp add: sint_small r_def pread_def)
  moreover have "buf \<noteq> 0" using buf_okD(1) [OF bo, of 0] len by (simp add: unat_gt_0)
  ultimately have "ext2_read D p buf pos len s = Some ((int (length r), map Some r), s1)"
    using ext2_sb_node [OF nd] v len out(1)
    by (simp add: ext2_read_def volume_def c(1) s1 Let_def l [symmetric])
  with that c show thesis by (simp add: s1)
qed

end

context disk_device
begin

text \<open>A file of the volume whose blocks are its own, with its contents.\<close>

definition fstate :: "fs \<Rightarrow> sptr \<Rightarrow> ext2_t \<Rightarrow> ext2_inode \<Rightarrow> byte list \<Rightarrow> bool" where
  "fstate s b e n C \<longleftrightarrow> volume s b e \<and> file_layout e (disk s) n \<and> file_separate e (disk s) n
     \<and> C = ext2_content (disk s) (unat (e2_blocksize e)) (en_block n) (unat (en_size n))"

lemma write_piece:
  assumes f: "fstate s b e n C" and B: "B = unat (e2_blocksize e)" and ag: "wagree F P ys S C" and F: "length F = unat (en_size n)"
    and at: "unat k * B + unat off = P + x" and m: "x + m \<le> length ys" "P + x + m \<le> length F" "0 < m" "unat off + m \<le> B"
    and a: "a \<noteq> 0" "fs_chk s a R_OK"
  obtains t C' where "ext2_utils_write_inode_data D b (en_block n) k off (a, take m (drop x ys)) s = Some t"
    "fstate t b e n C'" "wagree F P ys (S \<union> {P + x..<P + x + m}) C'" "kept owned s t"
proof -
  let ?xs = "take m (drop x ys)"
  have l: "length ?xs = m" using m(1) by simp
  have le: "unat k * B + unat off + length ?xs \<le> unat (en_size n)" "unat off + length ?xs \<le> B"
    using at m F l by simp_all
  have ne: "?xs \<noteq> []" using l m(3) by auto
  obtain t where "ext2_utils_write_inode_data D b (en_block n) k off (a, ?xs) s = Some t" "volume t b e" "kept owned s t"
    "file_layout e (disk t) n" "file_separate e (disk t) n"
    "ext2_content (disk t) B (en_block n) (unat (en_size n)) = pwrite C (P + x) ?xs"
    using write_data_ok [OF _ _ _ B le ne a] f by (auto simp: fstate_def B [symmetric] at)
  with that wagree_upd [OF ag m(1,2)] show thesis by (simp add: fstate_def B [symmetric])
qed

lemma write_blocks_ok:
  assumes B: "B = unat (e2_blocksize e)" and F: "length F = unat (en_size n)" "length F < 2 ^ 31"
    and ys: "ys = take L (snd buf)" "length ys = L" "P + L \<le> length F"
  shows "fstate s b e n C \<Longrightarrow> wagree F P ys S C \<Longrightarrow> buf_ok s (fst buf) L R_OK \<Longrightarrow> P + unat off = unat ib * B \<Longrightarrow>
    unat off + c * B \<le> L \<Longrightarrow>
    \<exists>t C'. ext2_write_blocks D b (en_block n) (e2_blocksize e) c ib off buf s = Some t
      \<and> fstate t b e n C' \<and> wagree F P ys (S \<union> {P + unat off..<P + unat off + c * B}) C' \<and> kept owned s t"
proof (induction c arbitrary: ib off S s C)
  case 0
  then show ?case by auto
next
  case (Suc c)
  note V = volume_sizes [of s b e, folded B]
  have v: "volume s b e" using Suc.prems(1) by (simp add: fstate_def)
  have fit: "unat off + B \<le> L" using Suc.prems(5) by simp
  have lt: "unat off < L" using fit V(2) [OF v] by linarith
  have sl: "mem_slice (snd buf) (unat off) (unat (e2_blocksize e)) = Some (take B (drop (unat off) ys))"
    using mem_slice_take [of L "snd buf" "unat off" B] fit ys by (simp add: B)
  obtain t1 C1 where t1: "ext2_utils_write_inode_data D b (en_block n) ib 0 (fst buf + off, take B (drop (unat off) ys)) s = Some t1"
    "fstate t1 b e n C1" "wagree F P ys (S \<union> {P + unat off..<P + unat off + B}) C1" "kept owned s t1"
    by (rule write_piece [OF Suc.prems(1) B Suc.prems(2) F(1), of ib 0 "unat off" B "fst buf + off"])
      (use fit ys V(2) [OF v] Suc.prems(4) buf_okD [OF Suc.prems(3) lt] in simp_all)
  have off: "unat (off + e2_blocksize e) = unat off + B" using fit ys(3) F(2) by (simp add: unat_add_small B)
  have "unat ib * 1 \<le> unat ib * B" using V(2) [OF v] by (intro mult_le_mono2) simp
  then have "unat ib < 2 ^ 31" using Suc.prems(4) fit ys(3) F(2) by linarith
  then have ib: "unat (ib + 1) = unat ib + 1" by (intro unat_Suc_word) simp
  have "buf_ok t1 (fst buf) L R_OK" using Suc.prems(3) buf_ok_kept [OF t1(4)] by simp
  moreover have "P + unat (off + e2_blocksize e) = unat (ib + 1) * B" using Suc.prems(4) by (simp add: off ib)
  moreover have "unat (off + e2_blocksize e) + c * B \<le> L" using Suc.prems(5) by (simp add: off)
  ultimately obtain t C' where t: "ext2_write_blocks D b (en_block n) (e2_blocksize e) c (ib + 1) (off + e2_blocksize e) buf t1 = Some t"
    "fstate t b e n C'" "kept owned t1 t"
    "wagree F P ys (S \<union> {P + unat off..<P + unat off + B} \<union> {P + (unat off + B)..<P + (unat off + B) + c * B}) C'"
    using Suc.IH [OF t1(2,3), of "off + e2_blocksize e" "ib + 1"] unfolding off by blast
  have "S \<union> {P + unat off..<P + unat off + B} \<union> {P + (unat off + B)..<P + (unat off + B) + c * B}
      = S \<union> {P + unat off..<P + unat off + Suc c * B}" by auto
  with t t1 sl kept_trans [OF t1(4) t(3)] show ?case by auto
qed

end

context disk_device
begin

lemma write_rest_ok:
  assumes B: "B = unat (e2_blocksize e)" and F: "length F = unat (en_size n)" "length F < 2 ^ 31"
    and ys: "ys = take (unat l) (snd buf)" "length ys = unat l" "unat pos + unat l \<le> length F"
    and f: "fstate s b e n C" and bo: "buf_ok s (fst buf) (unat l) R_OK"
    and at: "rest_at B pos l ib eb off" and ag: "wagree F (unat pos) ys {unat pos..<unat pos + unat off} C"
  obtains t C' where "ext2_write_rest D b (en_block n) (e2_blocksize e) buf pos l ib eb off s = Some t"
    "fstate t b e n C'" "wagree F (unat pos) ys {unat pos..<unat pos + unat l} C'" "kept owned s t"
proof -
  let ?P = "unat pos" and ?L = "unat l"
  have "volume s b e" using f by (simp add: fstate_def)
  from volume_sizes(1) [OF this] have B1: "1024 \<le> B" unfolding B by auto
  from at B B1 show thesis
  proof (cases rule: rest_cases)
    case finished
    with that ag f show thesis by (simp add: ext2_write_rest_def)
  next
    case (whole c)
    obtain t C' where "ext2_write_blocks D b (en_block n) (e2_blocksize e) c ib off buf s = Some t" "fstate t b e n C'"
      "wagree F ?P ys ({?P..<?P + unat off} \<union> {?P + unat off..<?P + unat off + c * B}) C'" "kept owned s t"
      using write_blocks_ok [OF B F ys f ag bo whole(2), of c] whole(3) by auto
    moreover have "{?P..<?P + unat off} \<union> {?P + unat off..<?P + unat off + c * B} = {?P..<?P + ?L}"
      using whole(3) by auto
    ultimately show thesis using that whole by (simp add: ext2_write_rest_def)
  next
    case (part c q)
    let ?R = "unat q"
    have sl: "mem_slice (snd buf) (unat (l - q)) ?R = Some (take ?R (drop (?L - ?R) ys))"
      using mem_slice_take [of ?L "snd buf" "?L - ?R" ?R] ys part(4,9) by simp
    have a: "fst buf + l - q \<noteq> 0" "fs_chk s (fst buf + l - q) R_OK"
      using buf_okD [OF bo, of "l - q"] part(2,4,9) by (simp_all add: add_diff_eq)
    obtain t1 C1 where t1: "ext2_utils_write_inode_data D b (en_block n) eb 0 (fst buf + l - q, take ?R (drop (?L - ?R) ys)) s = Some t1"
      "fstate t1 b e n C1" "kept owned s t1"
      "wagree F ?P ys ({?P..<?P + unat off} \<union> {?P + (?L - ?R)..<?P + (?L - ?R) + ?R}) C1"
      by (rule write_piece [OF f B ag F(1), of eb 0 "?L - ?R" ?R "fst buf + l - q"])
        (use part(2-4,8) ys(2,3) a in \<open>simp_all add: ys(1) [symmetric]\<close>)
    have bo1: "buf_ok t1 (fst buf) ?L R_OK" using bo buf_ok_kept [OF t1(3)] by simp
    obtain t C' where t: "ext2_write_blocks D b (en_block n) (e2_blocksize e) c ib off buf t1 = Some t" "fstate t b e n C'"
      "wagree F ?P ys ({?P..<?P + unat off} \<union> {?P + (?L - ?R)..<?P + (?L - ?R) + ?R} \<union> {?P + unat off..<?P + unat off + c * B}) C'"
      "kept owned t1 t"
      using write_blocks_ok [OF B F ys t1(2,4) bo1 part(6), of c] part(4,7) by auto
    have "{?P..<?P + unat off} \<union> {?P + (?L - ?R)..<?P + (?L - ?R) + ?R} \<union> {?P + unat off..<?P + unat off + c * B} = {?P..<?P + ?L}"
      using part(4,7) by auto
    moreover have "q \<noteq> 0" using part(2) by auto
    ultimately show thesis
      using that sl t t1(1) part(1,5,10) kept_trans [OF t1(3) t(4)] by (simp add: ext2_write_rest_def)
  qed
qed

lemma write_at_ok:
  assumes B: "B = unat (e2_blocksize e)" and f: "fstate s b e n F" and bo: "buf_ok s (fst buf) (unat l) R_OK"
    and L: "0 < unat l" "unat pos + unat l \<le> length F" "unat l \<le> length (snd buf)"
  obtains t where "ext2_write_at D b (en_block n) (e2_blocksize e) buf pos l s = Some t"
    "fstate t b e n (pwrite F (unat pos) (take (unat l) (snd buf)))" "kept owned s t"
proof -
  let ?P = "unat pos" and ?w = "e2_blocksize e" and ?eb = "(pos + l - 1) div e2_blocksize e"
  let ?ys = "take (unat l) (snd buf)"
  have F: "length F = unat (en_size n)" "length F < 2 ^ 31" and v: "volume s b e"
    using f by (simp_all add: fstate_def file_layout_def)
  note V = volume_sizes [OF v, folded B]
  have sz: "?P + unat l < 2 ^ 31" using F(2) L(2) by linarith
  have ys: "length ?ys = unat l" using L(3) by simp
  have full: "fstate t b e n (pwrite F ?P ?ys)" if "fstate t b e n C" "wagree F ?P ?ys {?P..<?P + unat l} C" for t C
    using that wagree_full [of F ?P ?ys C] ys L(2) by simp
  note rest = write_rest_ok [OF B F refl ys L(2)]
  show thesis
  proof (cases "pos mod ?w = 0")
    case True
    have "wagree F ?P ?ys {?P..<?P + unat (0 :: u32)} F" by (simp add: wagree_refl)
    from rest [OF f bo rest_at_aligned [OF True L(1) sz B V(2)] this] that full True show thesis
      by (auto simp: ext2_write_at_def Let_def)
  next
    case False
    define q where q: "q = (if ?w - pos mod ?w > l then l else ?w - pos mod ?w)"
    note H = head_len [OF B V(2) L(1), of pos, folded q]
    from False have m: "?P mod B \<noteq> 0" by (simp add: B word_unat_eq_iff unat_mod_word)
    have q0: "0 < unat q" "unat q \<le> unat l" using H(2) unfolding unat_gt_0 by (simp_all add: H(1))
    have a: "fst buf \<noteq> 0" "fs_chk s (fst buf) R_OK" using buf_okD [OF bo, of 0] L(1) by simp_all
    have sl: "mem_slice (snd buf) 0 (unat q) = Some (take (unat q) (drop 0 ?ys))"
      using mem_slice_take [of "unat l" "snd buf" 0 "unat q"] ys q0(2) by simp
    obtain t1 C1 where t1: "ext2_utils_write_inode_data D b (en_block n) (pos div ?w) (pos mod ?w) (fst buf, take (unat q) (drop 0 ?ys)) s = Some t1"
      "fstate t1 b e n C1" "wagree F ?P ?ys ({} \<union> {?P + 0..<?P + 0 + unat q}) C1" "kept owned s t1"
      by (rule write_piece [OF f B wagree_refl F(1), of "pos div ?w" "pos mod ?w" ?P 0 "unat q" ?ys "fst buf"])
        (use H(3,4) q0 ys L(2) a in simp_all)
    have bo1: "buf_ok t1 (fst buf) (unat l) R_OK" using bo buf_ok_kept [OF t1(4)] by simp
    have ag: "wagree F ?P ?ys {?P..<?P + unat q} C1" using t1(3) by simp
    obtain t C where t: "ext2_write_rest D b (en_block n) ?w buf pos l (pos div ?w + 1) ?eb q t1 = Some t"
      "fstate t b e n C" "wagree F ?P ?ys {?P..<?P + unat l} C" "kept owned t1 t"
      using rest [OF t1(2) bo1 rest_at_head [OF m L(1) sz B V(2) H(1)] ag] .
    from that [OF _ full [OF t(2,3)] kept_trans [OF t1(4) t(4)]] False sl t1(1) t(1) show thesis
      by (simp add: ext2_write_at_def q [symmetric] Let_def)
  qed
qed

lemma write_ok:
  assumes nd: "ext2_node s p i b" and f: "fstate s b e n F" and kn: "inode_known e (disk s) (i_ino i) n"
    and bo: "buf_ok s a (length xs) R_OK" and xs: "xs \<noteq> []"
    and pos: "unat pos < unat (en_size n)" "unat pos + length xs < 2 ^ 32"
  defines "ys \<equiv> take (unat (en_size n) - unat pos) xs"
  obtains t c where "ext2_write D p (a, xs) pos s = Some (int (length ys), t)"
    "fstate t b (e\<lparr>e2_icache := c\<rparr>) n (pwrite F (unat pos) ys)" "cache_ok c" "cache_peek c (i_ino i) = Some n"
    "kept owned (upd_ext2 b (\<lambda>e. e\<lparr>e2_icache := c\<rparr>) s) t"
proof -
  let ?P = "unat pos" and ?len = "of_nat (length xs) :: u32"
  have F: "length F = unat (en_size n)" "length F < 2 ^ 31" and v: "volume s b e"
    using f by (simp_all add: fstate_def file_layout_def)
  obtain c where c: "ext2_get D b (i_ino i) s = Some (n, upd_ext2 b (\<lambda>e. e\<lparr>e2_icache := c\<rparr>) s)"
    "cache_ok c" "cache_peek c (i_ino i) = Some n" using get_ok [OF v kn] .
  define s1 where s1: "s1 = upd_ext2 b (\<lambda>e. e\<lparr>e2_icache := c\<rparr>) s"
  have v1: "volume s1 b (e\<lparr>e2_icache := c\<rparr>)" and d1: "disk s1 = disk s"
    unfolding s1 by (rule volume_upd [OF v], simp)+
  have f1: "fstate s1 b (e\<lparr>e2_icache := c\<rparr>) n F" using f v1 by (simp add: fstate_def d1)
  have ul: "unat ?len = length xs" using pos(2) by (simp add: unat_of_nat take_bit_eq_mod)
  define l where l: "l = (if en_size n < pos + ?len then en_size n - pos else ?len)"
  have "unat l = min (unat ?len) (unat (en_size n) - ?P)" unfolding l by (rule clip_len) (use pos ul in simp_all)
  then have lx: "unat l = min (length xs) (unat (en_size n) - ?P)" by (simp add: ul)
  have L: "0 < unat l" "?P + unat l \<le> length F" "unat l \<le> length (snd (a, xs))"
    using lx pos xs by (simp_all add: F)
  have yl: "take (unat l) xs = ys" "length ys = unat l" using lx by (auto simp: ys_def min_def)
  have bo1: "buf_ok s1 (fst (a, xs)) (unat l) R_OK" using bo L(3) by (auto simp: s1 buf_ok_def)
  obtain t where t: "ext2_write_at D b (en_block n) (e2_blocksize e) (a, xs) pos l s1 = Some t"
    "fstate t b (e\<lparr>e2_icache := c\<rparr>) n (pwrite F ?P ys)" "kept owned s1 t"
    using write_at_ok [OF refl f1 bo1 L] by (auto simp: yl)
  have "sint l = int (length ys)" using L(2) F(2) yl(2) by (simp add: sint_small)
  moreover have "a \<noteq> 0" using buf_okD(1) [OF bo, of 0] xs by simp
  moreover have "?len \<noteq> 0" using ul xs by auto
  ultimately have "ext2_write D p (a, xs) pos s = Some (int (length ys), t)"
    using ext2_sb_node [OF nd] v t(1) by (simp add: ext2_write_def volume_def c(1) s1 Let_def l [symmetric])
  with that t c show thesis by (simp add: s1)
qed

end

end
