(* ===== verification/Fsys.thy ===== *)
theory Fsys
  imports Tmpfs_Inv Ext2
begin

text \<open>
  The file system calls: path resolution and \<^verbatim>\<open>open\<close> of \<^verbatim>\<open>kernel/syscalls/002_open.c\<close>, and the calls
  on file descriptors and paths of the other files of \<^verbatim>\<open>kernel/syscalls/\<close> that go through the virtual
  file system. The implementations are tied together by \<open>fs_dispatch\<close>: the fuel bounds the depth of
  bind mounts and of volumes inside files of volumes, and the fuel of \<open>path_lookup\<close> bounds the nesting of symbolic links.
\<close>

section \<open>Constants\<close>

definition O_RDONLY :: u32 where "O_RDONLY = 0"
definition O_WRONLY :: u32 where "O_WRONLY = 1"
definition O_RDWR :: u32 where "O_RDWR = 2"
definition O_APPEND :: u32 where "O_APPEND = 8"
definition O_CREAT :: u32 where "O_CREAT = 0x200"
definition O_EXCL :: u32 where "O_EXCL = 0x800"
definition O_NOFOLLOW :: u32 where "O_NOFOLLOW = 0x100000"
definition O_DIRECTORY :: u32 where "O_DIRECTORY = 0x200000"

lemmas oflag_defs =
  O_RDONLY_def O_WRONLY_def O_RDWR_def O_APPEND_def O_CREAT_def O_EXCL_def O_NOFOLLOW_def
  O_DIRECTORY_def

text \<open>The permission bits of the owner; those of the group and of others follow three bits lower each.\<close>

definition S_IRUSR :: u32 where "S_IRUSR = 0x100"
definition S_IWUSR :: u32 where "S_IWUSR = 0x80"
definition S_IXUSR :: u32 where "S_IXUSR = 0x40"
definition S_IRGRP :: u32 where "S_IRGRP = 0x20"
definition S_IWGRP :: u32 where "S_IWGRP = 0x10"
definition S_IXGRP :: u32 where "S_IXGRP = 0x8"
definition S_IROTH :: u32 where "S_IROTH = 0x4"
definition S_IWOTH :: u32 where "S_IWOTH = 0x2"
definition S_IXOTH :: u32 where "S_IXOTH = 0x1"

lemmas perm_defs =
  S_IRUSR_def S_IWUSR_def S_IXUSR_def S_IRGRP_def S_IWGRP_def S_IXGRP_def S_IROTH_def S_IWOTH_def
  S_IXOTH_def

definition TASK_NFD :: nat where "TASK_NFD = 32"

abbreviation has :: "u32 \<Rightarrow> u32 \<Rightarrow> bool" where
  "has flags m \<equiv> flags AND m \<noteq> 0"

section \<open>The implementations\<close>

text \<open>
  The operations of device files are an argument. A bind mount that refers to itself calls itself
  forever; with no fuel left the call does not come back.
\<close>

fun fs_dispatch :: "dispatch \<Rightarrow> nat \<Rightarrow> dispatch" where
  "fs_dispatch X 0 im =
     (case im of Rootfs \<Rightarrow> rootfs_ops | Tmpfs \<Rightarrow> tmpfs_ops | Bindfs \<Rightarrow> no_ops | Ext2 \<Rightarrow> no_ops | Device \<Rightarrow> X im)"
| "fs_dispatch X (Suc n) im =
     (case im of Rootfs \<Rightarrow> rootfs_ops | Tmpfs \<Rightarrow> tmpfs_ops | Bindfs \<Rightarrow> bindfs_ops (fs_dispatch X n)
      | Ext2 \<Rightarrow> ext2_ops (fs_dispatch X n) | Device \<Rightarrow> X im)"

definition fs_mounts ::
  "dispatch \<Rightarrow> fsimpl \<Rightarrow> iptr option \<Rightarrow> iptr \<Rightarrow> u32 \<Rightarrow> fs \<Rightarrow> (int \<times> fs) option" where
  "fs_mounts D im =
     (case im of Bindfs \<Rightarrow> bindfs_mount | Tmpfs \<Rightarrow> tmpfs_mount | Ext2 \<Rightarrow> ext2_mount D | _ \<Rightarrow> (\<lambda>_ _ _ _. None))"

section \<open>Path resolution\<close>

text \<open>The C string at the start of a buffer; an uninitialised byte before its end is undefined.\<close>

fun cstring :: "byte option list \<Rightarrow> string option" where
  "cstring [] = Some []"
| "cstring (None # xs) = None"
| "cstring (Some b # xs) = (if b = 0 then Some [] else map_option ((#) (char_of (unat b))) (cstring xs))"

type_synonym lookup = "iptr option \<Rightarrow> ustr \<Rightarrow> u32 \<Rightarrow> u32 \<Rightarrow> fs \<Rightarrow> (iptr option \<times> fs) option"

text \<open>
  \<^verbatim>\<open>path_symlink\<close> with the function \<^verbatim>\<open>path_lookup\<close> it calls as an argument. The local buffer is zeroed
  and has a byte more than is read, so the string ends.
\<close>

definition path_symlink :: "dispatch \<Rightarrow> lookup \<Rightarrow> iptr \<Rightarrow> u32 \<Rightarrow> fs \<Rightarrow> (iptr option \<times> fs) option" where
  "path_symlink D look inode sz s =
     do {
       valid_inode inode s;
       kassert (sz \<noteq> 0);
       ((r, bs), s) \<leftarrow> vfs_readlink D inode (fs_kstack s) sz s;
       if r \<le> 0 then Some (None, s)
       else do {
         i \<leftarrow> fs_inodes s inode;
         nm \<leftarrow> cstring bs;
         look (i_parent i) (fs_kstack s, nm) O_RDONLY 0 s
       }
     }"

definition path_find ::
  "dispatch \<Rightarrow> (iptr \<Rightarrow> u32 \<Rightarrow> fs \<Rightarrow> (iptr option \<times> fs) option) \<Rightarrow> iptr \<Rightarrow> string \<Rightarrow> nat \<Rightarrow> fs \<Rightarrow>
   (iptr option \<times> fs) option" where
  "path_find D link inode path sz s =
     do {
       valid_inode inode s;
       kassert (sz \<noteq> 0);
       (r, s) \<leftarrow> vfs_finddir D inode (fs_kstack s, take sz path) s;
       case r of
         None \<Rightarrow> Some (None, s)
       | Some q \<Rightarrow>
           do {
             ((e, st), s) \<leftarrow> vfs_getattr D q (fs_kstack s) s;
             if e < 0 then Some (None, s)
             else do {
               st \<leftarrow> st;
               if S_ISLNK (st_mode st) then link q (st_size st) s else Some (Some q, s)
             }
           }
     }"

abbreviation slash :: char where "slash \<equiv> CHR ''/''"

text \<open>\<^verbatim>\<open>strcspn(path, "/")\<close>: the length of the first component.\<close>

definition strcspn :: "string \<Rightarrow> nat" where
  "strcspn path = length (takeWhile (\<lambda>c. c \<noteq> slash) path)"

definition path_next :: "ustr \<Rightarrow> ustr" where
  "path_next path =
     (fst path + of_nat (strcspn (snd path) + 1), drop (strcspn (snd path) + 1) (snd path))"

text \<open>The loop over the directories of the path: it returns the last one and the rest of the path.\<close>

function path_walk ::
  "dispatch \<Rightarrow> (iptr \<Rightarrow> u32 \<Rightarrow> fs \<Rightarrow> (iptr option \<times> fs) option) \<Rightarrow> iptr option \<Rightarrow> ustr \<Rightarrow> fs \<Rightarrow>
   ((iptr option \<times> ustr) \<times> fs) option" where
  "path_walk D link c path s =
     (case c of
        None \<Rightarrow> Some ((None, path), s)
      | Some p \<Rightarrow>
          if slash \<in> set (snd path) then
            do {
              (c, s) \<leftarrow> path_find D link p (snd path) (strcspn (snd path)) s;
              path_walk D link c (path_next path) s
            }
          else Some ((Some p, path), s))"
  by pat_completeness auto

termination path_walk
  by (relation "measure (\<lambda>(_, _, _, path, _). length (snd path))")
    (auto simp: path_next_def intro!: diff_less length_pos_if_in_set)

primrec path_lookup :: "dispatch \<Rightarrow> nat \<Rightarrow> lookup" where
  "path_lookup D 0 = (\<lambda>_ _ _ _ _. None)"
| "path_lookup D (Suc n) = (\<lambda>cwd path flags mode s.
     let link = path_symlink D (path_lookup D n);
         absolute = (snd path \<noteq> [] \<and> hd (snd path) = slash);
         c = (if absolute then Some (t_root (fs_task s)) else cwd);
         path = (if absolute then (fst path + 1, tl (snd path)) else path)
     in do {
       kassert (c \<noteq> None);
       ((c, path), s) \<leftarrow> path_walk D link c path s;
       case c of
         None \<Rightarrow> Some (None, set_errno ENOENT s)
       | Some p \<Rightarrow>
           do {
             (r, s) \<leftarrow> (if snd path \<noteq> [] then path_find D link p (snd path) (length (snd path)) s
                       else Some (Some p, s));
             case r of
               None \<Rightarrow>
                 if has flags O_CREAT then vfs_creat D p path mode s
                 else Some (None, set_errno ENOENT s)
             | Some q \<Rightarrow>
                 if has flags O_EXCL \<and> has flags O_CREAT then Some (None, set_errno EEXIST s)
                 else Some (Some q, s)
           }
     })"

section \<open>Opening and closing\<close>

text \<open>Access to an entry of the descriptor table of the task; an index past its end is undefined.\<close>

definition task_fd :: "nat \<Rightarrow> fs \<Rightarrow> fd option" where
  "task_fd k s = array_get (t_fd (fs_task s)) k"

definition upd_task :: "(ftask \<Rightarrow> ftask) \<Rightarrow> fs \<Rightarrow> fs" where
  "upd_task f s = s\<lparr>fs_task := f (fs_task s)\<rparr>"

definition upd_fd :: "nat \<Rightarrow> (fd \<Rightarrow> fd) \<Rightarrow> fs \<Rightarrow> fs" where
  "upd_fd k f = upd_task (\<lambda>t. t\<lparr>t_fd := (t_fd t)[k := f (t_fd t ! k)]\<rparr>)"

definition with_task_lock :: "(fs \<Rightarrow> ('a \<times> fs) option) \<Rightarrow> fs \<Rightarrow> ('a \<times> fs) option" where
  "with_task_lock = with_lock (\<lambda>s. t_lock (fs_task s)) (\<lambda>b. upd_task (t_lock_update (\<lambda>_. b)))"

definition with_fd_lock :: "nat \<Rightarrow> (fs \<Rightarrow> ('a \<times> fs) option) \<Rightarrow> fs \<Rightarrow> ('a \<times> fs) option" where
  "with_fd_lock k =
     with_lock (\<lambda>s. fd_lock (t_fd (fs_task s) ! k)) (\<lambda>b. upd_fd k (fd_lock_update (\<lambda>_. b)))"

text \<open>
  The permission check of \<^verbatim>\<open>sys_open\<close> as the compiler reads it: every \<^verbatim>\<open>else\<close> belongs to the nearest
  \<^verbatim>\<open>if\<close>, and the bits tested are those of the argument \<open>mode\<close>.
\<close>

definition open_allowed :: "u32 \<Rightarrow> u32 \<Rightarrow> u32 \<Rightarrow> u32 \<Rightarrow> bool" where
  "open_allowed flags mode rbit wbit \<longleftrightarrow>
     (has flags O_RDONLY \<longrightarrow> has mode rbit) \<and> (has flags O_WRONLY \<longrightarrow> has mode wbit)
     \<and> (has flags O_RDWR \<longrightarrow> has mode rbit \<and> has mode wbit)"

definition open_denied :: "u32 \<Rightarrow> u32 \<Rightarrow> stat \<Rightarrow> ftask \<Rightarrow> bool" where
  "open_denied flags mode st t \<longleftrightarrow>
     t_uid t \<noteq> 0 \<and> st_uid st = t_uid t \<and>
     (if \<not> open_allowed flags mode S_IRUSR S_IWUSR then True
      else if st_gid st = t_gid t then
        (if \<not> open_allowed flags mode S_IRGRP S_IWGRP then True
         else \<not> open_allowed flags mode S_IROTH S_IWOTH)
      else False)"

text \<open>The search for a free descriptor.\<close>

fun free_fd :: "fd list \<Rightarrow> nat \<Rightarrow> nat" where
  "free_fd [] k = k"
| "free_fd (f # fs) k = (if fd_inode f = None then k else free_fd fs (k + 1))"

definition open_fd :: "iptr \<Rightarrow> u32 \<Rightarrow> stat \<Rightarrow> fs \<Rightarrow> (nat \<times> fs) option" where
  "open_fd r flags st =
     with_task_lock (\<lambda>s.
       let k = free_fd (take TASK_NFD (t_fd (fs_task s))) 0 in
       if k = TASK_NFD then Some (k, s)
       else do {
         _ \<leftarrow> task_fd k s;
         Some (k, upd_fd k (\<lambda>f. f\<lparr>fd_position := (if has flags O_APPEND then st_size st else 0),
                                  fd_inode := Some r, fd_flags := take_bit 30 flags\<rparr>) s)
       })"

definition sys_open :: "dispatch \<Rightarrow> nat \<Rightarrow> ustr \<Rightarrow> u32 \<Rightarrow> u32 \<Rightarrow> fs \<Rightarrow> (int \<times> fs) option" where
  "sys_open D n filename flags mode s =
     (if fst filename = 0 then Some (- EINVAL, s)
      else if \<not> ptr_check s (fst filename) R_OK then Some (- EFAULT, s)
      else do {
        (r, s) \<leftarrow> path_lookup D n (Some (t_cwd (fs_task s))) filename flags mode s;
        case r of
          None \<Rightarrow> Some (- fs_errno s, s)
        | Some r \<Rightarrow>
            do {
              ((e, st), s) \<leftarrow> vfs_getattr D r (fs_kstack s) s;
              if e < 0 then Some (if fs_errno s = ENOSYS then - EACCES else - fs_errno s, s)
              else do {
                st \<leftarrow> st;
                (r, s) \<leftarrow> (if \<not> has flags O_NOFOLLOW \<and> S_ISLNK (st_mode st)
                          then path_symlink D (path_lookup D n) r (st_size st) s
                          else Some (Some r, s));
                case r of
                  None \<Rightarrow> Some (- fs_errno s, s)
                | Some r \<Rightarrow>
                    if has flags O_DIRECTORY \<and> \<not> S_ISDIR (st_mode st) then Some (- ENOTDIR, s)
                    else if open_denied flags mode st (fs_task s) then Some (- EACCES, s)
                    else do {
                      (e, s) \<leftarrow> vfs_open D r flags s;
                      if e < 0 \<and> fs_errno s \<noteq> ENOSYS then Some (- fs_errno s, s)
                      else do {
                        (k, s) \<leftarrow> open_fd r flags st s;
                        if k = TASK_NFD then Some (- EMFILE, s)
                        else do {
                          f \<leftarrow> task_fd k s;
                          kassert (fd_inode f \<noteq> None);
                          Some (int k, s)
                        }
                      }
                    }
              }
            }
      })"

text \<open>The bound check on a descriptor: \<^verbatim>\<open>fd > TASK_NFD\<close>.\<close>

definition fd_too_big :: "u32 \<Rightarrow> bool" where
  "fd_too_big fd \<longleftrightarrow> unat fd > TASK_NFD"

definition sys_close :: "dispatch \<Rightarrow> u32 \<Rightarrow> fs \<Rightarrow> (int \<times> fs) option" where
  "sys_close D fd s =
     (if fd_too_big fd then Some (- EBADF, s)
      else do {
        f \<leftarrow> task_fd (unat fd) s;
        kassert (fd_inode f \<noteq> None);
        (_, s) \<leftarrow> with_task_lock (\<lambda>s. do {
          f \<leftarrow> task_fd (unat fd) s;
          p \<leftarrow> fd_inode f;
          (_, s) \<leftarrow> vfs_close D p s;
          Some ((), upd_fd (unat fd) (\<lambda>f. f\<lparr>fd_inode := None, fd_flags := 0\<rparr>) s) }) s;
        Some (0, s)
      })"

section \<open>Reading and writing\<close>

text \<open>The descriptor table entry with an open inode, as the calls check it.\<close>

definition open_inode :: "u32 \<Rightarrow> fs \<Rightarrow> (fd \<times> iptr option) option" where
  "open_inode fd s = do { f \<leftarrow> task_fd (unat fd) s; Some (f, fd_inode f) }"

definition upd_io :: "(iostat \<Rightarrow> iostat) \<Rightarrow> fs \<Rightarrow> fs" where
  "upd_io f = upd_task (\<lambda>t. t\<lparr>t_iostat := f (t_iostat t)\<rparr>)"

definition sys_read :: "dispatch \<Rightarrow> u32 \<Rightarrow> u32 \<Rightarrow> u32 \<Rightarrow> fs \<Rightarrow> ((int \<times> byte option list) \<times> fs) option" where
  "sys_read D fd buf sz s =
     (if \<not> ptr_check s buf (R_OK OR W_OK) then Some ((- EFAULT, []), s)
      else if fd_too_big fd then Some ((- EBADF, []), s)
      else do {
        (f, i) \<leftarrow> open_inode fd s;
        case i of
          None \<Rightarrow> Some ((- EBADF, []), s)
        | Some p \<Rightarrow>
            if \<not> (\<not> has (fd_flags f) O_WRONLY \<or> has (fd_flags f) O_RDONLY) then Some ((- EPERM, []), s)
            else do {
              let s = upd_io (\<lambda>v. v\<lparr>io_rchar := io_rchar v + ucast sz, io_syscr := io_syscr v + 1\<rparr>) s;
              ((e, bs), s) \<leftarrow> with_fd_lock (unat fd) (\<lambda>s. do {
                ((e, bs), s) \<leftarrow> vfs_read D p buf (fd_position f) sz s;
                if e \<le> 0 then Some ((e, bs), s)
                else let s = upd_fd (unat fd) (\<lambda>f. f\<lparr>fd_position := fd_position f + of_int e\<rparr>) s;
                         s = upd_io (\<lambda>v. v\<lparr>io_read_bytes := io_read_bytes v + of_int e\<rparr>) s
                     in Some ((e, bs), s) }) s;
              if e < 0 then Some ((- fs_errno s, bs), s) else Some ((e, bs), s)
            }
      })"

definition sys_write :: "dispatch \<Rightarrow> u32 \<Rightarrow> u32 \<times> byte list \<Rightarrow> fs \<Rightarrow> (int \<times> fs) option" where
  "sys_write D fd buf s =
     (if \<not> ptr_check s (fst buf) R_OK then Some (- EFAULT, s)
      else if fd_too_big fd then Some (- EBADF, s)
      else do {
        (f, i) \<leftarrow> open_inode fd s;
        case i of
          None \<Rightarrow> Some (- EBADF, s)
        | Some p \<Rightarrow>
            if \<not> (has (fd_flags f) O_WRONLY \<or> has (fd_flags f) O_RDWR) then Some (- EPERM, s)
            else do {
              let s = upd_io (\<lambda>v. v\<lparr>io_wchar := io_wchar v + of_nat (length (snd buf)),
                                    io_syscw := io_syscw v + 1\<rparr>) s;
              (e, s) \<leftarrow> with_fd_lock (unat fd) (\<lambda>s. do {
                (e, s) \<leftarrow> vfs_write D p buf (fd_position f) s;
                if e \<le> 0 then Some (e, s)
                else let s = upd_fd (unat fd) (\<lambda>f. f\<lparr>fd_position := fd_position f + of_int e\<rparr>) s;
                         s = upd_io (\<lambda>v. v\<lparr>io_write_bytes := io_write_bytes v + of_int e\<rparr>) s
                     in Some (e, s) }) s;
              if e < 0 then Some (- fs_errno s, s) else Some (e, s)
            }
      })"

definition sys_lseek :: "dispatch \<Rightarrow> u32 \<Rightarrow> u32 \<Rightarrow> u32 \<Rightarrow> fs \<Rightarrow> (int \<times> fs) option" where
  "sys_lseek D fd offset whence s =
     (if fd_too_big fd then Some (- EBADF, s)
      else do {
        (f, i) \<leftarrow> open_inode fd s;
        p \<leftarrow> i;
        ((e, st), s) \<leftarrow> vfs_getattr D p (fs_kstack s) s;
        if e < 0 then Some (- fs_errno s, s)
        else do {
          st \<leftarrow> st;
          if S_ISFIFO (st_mode st) then Some (- ESPIPE, s)
          else do {
            (_, s) \<leftarrow> with_fd_lock (unat fd) (\<lambda>s.
              if whence = 0 then Some ((), upd_fd (unat fd) (\<lambda>f. f\<lparr>fd_position := offset\<rparr>) s)
              else if whence = 1 then
                Some ((), upd_fd (unat fd) (\<lambda>f. f\<lparr>fd_position := fd_position f + offset\<rparr>) s)
              else if whence = 2 then
                Some ((), upd_fd (unat fd) (\<lambda>f. f\<lparr>fd_position := st_size st + offset\<rparr>) s)
              else None) s;
            f \<leftarrow> task_fd (unat fd) s;
            Some (sint (fd_position f), s)
          }
        }
      })"

definition sys_ioctl :: "dispatch \<Rightarrow> u32 \<Rightarrow> u32 \<Rightarrow> u32 \<Rightarrow> fs \<Rightarrow> (int \<times> fs) option" where
  "sys_ioctl D fd cmd arg s =
     (if fd_too_big fd then Some (- EBADF, s)
      else do {
        (f, i) \<leftarrow> open_inode fd s;
        case i of
          None \<Rightarrow> Some (- EBADF, s)
        | Some p \<Rightarrow>
            do {
              (e, s) \<leftarrow> with_fd_lock (unat fd) (vfs_ioctl D p cmd arg) s;
              if e < 0 then Some (- fs_errno s, s) else Some (e, s)
            }
      })"

definition sys_ftruncate :: "dispatch \<Rightarrow> u32 \<Rightarrow> u32 \<Rightarrow> fs \<Rightarrow> (int \<times> fs) option" where
  "sys_ftruncate D fd len s =
     (if fd_too_big fd then Some (- EBADF, s)
      else do {
        (f, i) \<leftarrow> open_inode fd s;
        case i of
          None \<Rightarrow> Some (- EBADF, s)
        | Some p \<Rightarrow>
            do {
              (e, s) \<leftarrow> with_fd_lock (unat fd) (vfs_truncate D p len) s;
              if e < 0 then Some (- fs_errno s, s) else Some (e, s)
            }
      })"

definition sys_getdents ::
  "dispatch \<Rightarrow> u32 \<Rightarrow> u32 \<Rightarrow> u32 \<Rightarrow> fs \<Rightarrow> ((int \<times> dirent option list) \<times> fs) option" where
  "sys_getdents D fd ent count s =
     (if ent = 0 then Some ((- EINVAL, []), s)
      else if unat fd > TASK_NFD - 1 then Some ((- EBADF, []), s)
      else if \<not> ptr_check s ent (R_OK OR W_OK) then Some ((- EFAULT, []), s)
      else if unat count < DIRENT_SIZE then Some ((- EINVAL, []), s)
      else do {
        (f, i) \<leftarrow> open_inode fd s;
        p \<leftarrow> i;
        ((e, es), s) \<leftarrow> with_fd_lock (unat fd) (\<lambda>s.
          vfs_readdir D p ent (fd_position f) (count div of_nat DIRENT_SIZE)
            (upd_fd (unat fd) (\<lambda>f. f\<lparr>fd_position := fd_position f + 1\<rparr>) s)) s;
        if e < 0 then Some ((- fs_errno s, es), s)
        else Some ((e * int DIRENT_SIZE, es), s)
      })"

section \<open>Attributes\<close>

text \<open>\<^verbatim>\<open>vfs_getattr\<close> on the inode of a descriptor, under the lock of the descriptor.\<close>

definition fd_getattr :: "dispatch \<Rightarrow> nat \<Rightarrow> u32 \<Rightarrow> fs \<Rightarrow> ((int \<times> stat option) \<times> fs) option" where
  "fd_getattr D k statbuf =
     with_fd_lock k (\<lambda>s. do { f \<leftarrow> task_fd k s; p \<leftarrow> fd_inode f; vfs_getattr D p statbuf s })"

text \<open>The body that \<^verbatim>\<open>sys_newstat\<close> and \<^verbatim>\<open>sys_newlstat\<close> share, with the flags they open the file with.\<close>

definition stat_path ::
  "dispatch \<Rightarrow> nat \<Rightarrow> u32 \<Rightarrow> ustr \<Rightarrow> u32 \<Rightarrow> fs \<Rightarrow> ((int \<times> stat option) \<times> fs) option" where
  "stat_path D n flags filename statbuf s =
     (if fst filename = 0 then Some ((- EINVAL, None), s)
      else if statbuf = 0 then Some ((- EINVAL, None), s)
      else if \<not> ptr_check s (fst filename) R_OK then Some ((- EFAULT, None), s)
      else if \<not> ptr_check s statbuf (R_OK OR W_OK) then Some ((- EFAULT, None), s)
      else do {
        (fd, s) \<leftarrow> sys_open D n filename flags 0 s;
        if fd < 0 then Some ((fd, None), s)
        else do {
          ((e, st), s) \<leftarrow> fd_getattr D (nat fd) statbuf s;
          (c, s) \<leftarrow> sys_close D (of_int fd) s;
          if c < 0 then Some ((c, st), s)
          else if e < 0 then Some ((- fs_errno s, st), s)
          else Some ((0, st), s)
        }
      })"

definition sys_newstat :: "dispatch \<Rightarrow> nat \<Rightarrow> ustr \<Rightarrow> u32 \<Rightarrow> fs \<Rightarrow> ((int \<times> stat option) \<times> fs) option" where
  "sys_newstat D n = stat_path D n O_RDONLY"

definition sys_newlstat :: "dispatch \<Rightarrow> nat \<Rightarrow> ustr \<Rightarrow> u32 \<Rightarrow> fs \<Rightarrow> ((int \<times> stat option) \<times> fs) option" where
  "sys_newlstat D n = stat_path D n (O_RDONLY OR O_NOFOLLOW)"

definition sys_newfstat :: "dispatch \<Rightarrow> u32 \<Rightarrow> u32 \<Rightarrow> fs \<Rightarrow> ((int \<times> stat option) \<times> fs) option" where
  "sys_newfstat D fd statbuf s =
     (if fd_too_big fd then Some ((- EBADF, None), s)
      else if statbuf = 0 then Some ((- EINVAL, None), s)
      else if \<not> ptr_check s statbuf (R_OK OR W_OK) then Some ((- EFAULT, None), s)
      else do {
        (f, i) \<leftarrow> open_inode fd s;
        if i = None then Some ((- EBADF, None), s)
        else do {
          ((e, st), s) \<leftarrow> fd_getattr D (unat fd) statbuf s;
          if e < 0 then Some ((- fs_errno s, st), s) else Some ((0, st), s)
        }
      })"

text \<open>The check of \<^verbatim>\<open>sys_access\<close>, again with every \<^verbatim>\<open>else\<close> at the nearest \<^verbatim>\<open>if\<close>.\<close>

definition access_allowed :: "u32 \<Rightarrow> u32 \<Rightarrow> u32 \<Rightarrow> u32 \<Rightarrow> u32 \<Rightarrow> bool" where
  "access_allowed mode m rbit wbit xbit \<longleftrightarrow>
     (has mode R_OK \<longrightarrow> has m rbit) \<and> (has mode W_OK \<longrightarrow> has m wbit) \<and> (has mode X_OK \<longrightarrow> has m xbit)"

definition access_denied :: "u32 \<Rightarrow> stat \<Rightarrow> ftask \<Rightarrow> bool" where
  "access_denied mode st t \<longleftrightarrow>
     st_uid st = t_uid t \<and>
     (if \<not> access_allowed mode (st_mode st) S_IRUSR S_IWUSR S_IXUSR then True
      else if st_gid st = t_gid t then
        (if \<not> access_allowed mode (st_mode st) S_IRGRP S_IWGRP S_IXGRP then True
         else \<not> access_allowed mode (st_mode st) S_IROTH S_IWOTH S_IXOTH)
      else False)"

definition sys_access :: "dispatch \<Rightarrow> nat \<Rightarrow> ustr \<Rightarrow> u32 \<Rightarrow> fs \<Rightarrow> (int \<times> fs) option" where
  "sys_access D n filename mode s =
     (if \<not> ptr_check s (fst filename) R_OK then Some (- EFAULT, s)
      else do {
        ((e, st), s) \<leftarrow> sys_newstat D n filename (fs_kstack s) s;
        if e < 0 then Some (e, s)
        else do {
          st \<leftarrow> st;
          if access_denied mode st (fs_task s) then Some (- EACCES, s) else Some (0, s)
        }
      })"

section \<open>Paths\<close>

definition sys_truncate :: "dispatch \<Rightarrow> nat \<Rightarrow> ustr \<Rightarrow> u32 \<Rightarrow> fs \<Rightarrow> (int \<times> fs) option" where
  "sys_truncate D n path len s =
     (if \<not> ptr_check s (fst path) R_OK then Some (- EFAULT, s)
      else do {
        (fd, s) \<leftarrow> sys_open D n path O_RDONLY 0 s;
        if fd < 0 then Some (fd, s)
        else do {
          (e, s) \<leftarrow> with_fd_lock (nat fd)
            (\<lambda>s. do { f \<leftarrow> task_fd (nat fd) s; p \<leftarrow> fd_inode f; vfs_truncate D p len s }) s;
          (c, s) \<leftarrow> sys_close D (of_int fd) s;
          if c < 0 then Some (c, s)
          else if e < 0 then Some (- fs_errno s, s) else Some (e, s)
        }
      })"

text \<open>\<^verbatim>\<open>sys_chdir\<close> and \<^verbatim>\<open>sys_chroot\<close>: open the path, store its inode in the task, close it.\<close>

definition with_path ::
  "dispatch \<Rightarrow> nat \<Rightarrow> ustr \<Rightarrow> (iptr \<Rightarrow> ftask \<Rightarrow> ftask) \<Rightarrow> fs \<Rightarrow> (int \<times> fs) option" where
  "with_path D n filename upd s =
     do {
       (fd, s) \<leftarrow> sys_open D n filename O_RDONLY 0 s;
       if fd < 0 then Some (fd, s)
       else do {
         (_, s) \<leftarrow> with_task_lock
           (\<lambda>s. do { f \<leftarrow> task_fd (nat fd) s; p \<leftarrow> fd_inode f; Some ((), upd_task (upd p) s) }) s;
         (c, s) \<leftarrow> sys_close D (of_int fd) s;
         Some (if c < 0 then c else 0, s)
       }
     }"

definition sys_chdir :: "dispatch \<Rightarrow> nat \<Rightarrow> ustr \<Rightarrow> fs \<Rightarrow> (int \<times> fs) option" where
  "sys_chdir D n filename = with_path D n filename (\<lambda>p t. t\<lparr>t_cwd := p\<rparr>)"

definition sys_chroot :: "dispatch \<Rightarrow> nat \<Rightarrow> ustr \<Rightarrow> fs \<Rightarrow> (int \<times> fs) option" where
  "sys_chroot D n filename = with_path D n filename (\<lambda>p t. t\<lparr>t_cwd := p, t_root := p\<rparr>)"

definition sys_fchdir :: "u32 \<Rightarrow> fs \<Rightarrow> (int \<times> fs) option" where
  "sys_fchdir fd s =
     (if fd_too_big fd then Some (- EBADF, s)
      else do {
        (f, i) \<leftarrow> open_inode fd s;
        case i of
          None \<Rightarrow> Some (- EBADF, s)
        | Some p \<Rightarrow>
            do {
              (_, s) \<leftarrow> with_task_lock (\<lambda>s. Some ((), upd_task (\<lambda>t. t\<lparr>t_cwd := p\<rparr>) s)) s;
              Some (0, s)
            }
      })"

definition sys_mkdir :: "dispatch \<Rightarrow> nat \<Rightarrow> ustr \<Rightarrow> u32 \<Rightarrow> fs \<Rightarrow> (int \<times> fs) option" where
  "sys_mkdir D n pathname mode s =
     do {
       (fd, s) \<leftarrow> sys_open D n pathname (O_CREAT OR O_EXCL OR O_RDONLY) (S_IFDIR OR 0x1B6) s;
       if fd < 0 then Some (fd, s)
       else do {
         (c, s) \<leftarrow> sys_close D (of_int fd) s;
         Some (if c < 0 then c else 0, s)
       }
     }"

definition sys_creat :: "dispatch \<Rightarrow> nat \<Rightarrow> ustr \<Rightarrow> u32 \<Rightarrow> fs \<Rightarrow> (int \<times> fs) option" where
  "sys_creat D n pathname mode = sys_open D n pathname (O_CREAT OR O_EXCL OR O_WRONLY) mode"

text \<open>Opening a path for \<^verbatim>\<open>sys_mount\<close>, which keeps the inode after closing the descriptor.\<close>

definition path_inode :: "dispatch \<Rightarrow> nat \<Rightarrow> ustr \<Rightarrow> fs \<Rightarrow> ((int + iptr option) \<times> fs) option" where
  "path_inode D n name s =
     do {
       (fd, s) \<leftarrow> sys_open D n name O_RDONLY 0 s;
       if fd < 0 then Some (Inl fd, s)
       else do {
         f \<leftarrow> task_fd (nat fd) s;
         (c, s) \<leftarrow> sys_close D (of_int fd) s;
         Some (if c < 0 then Inl c else Inr (fd_inode f), s)
       }
     }"

definition sys_mount ::
  "dispatch \<Rightarrow> (fsimpl \<Rightarrow> iptr option \<Rightarrow> iptr \<Rightarrow> u32 \<Rightarrow> fs \<Rightarrow> (int \<times> fs) option) \<Rightarrow> nat \<Rightarrow>
   ustr \<Rightarrow> ustr \<Rightarrow> ustr \<Rightarrow> u32 \<Rightarrow> u32 \<Rightarrow> fs \<Rightarrow> (int \<times> fs) option" where
  "sys_mount D M n dev_name dir_name type flags data s =
     (if fst dir_name = 0 then Some (- EINVAL, s)
      else if fst type = 0 then Some (- EINVAL, s)
      else if \<not> ptr_check s (fst dir_name) R_OK then Some (- EFAULT, s)
      else if \<not> ptr_check s (fst type) R_OK then Some (- EFAULT, s)
      else if fst dev_name \<noteq> 0 \<and> \<not> ptr_check s (fst dev_name) R_OK then Some (- EFAULT, s)
      else do {
        (x, s) \<leftarrow> path_inode D n dir_name s;
        case x of
          Inl e \<Rightarrow> Some (e, s)
        | Inr d \<Rightarrow>
            do {
              (y, s) \<leftarrow> (if fst dev_name \<noteq> 0 then path_inode D n dev_name s else Some (Inr None, s));
              case y of
                Inl e \<Rightarrow> Some (e, s)
              | Inr dev \<Rightarrow>
                  do {
                    d \<leftarrow> d;
                    (e, s) \<leftarrow> vfs_mount M dev d type flags data s;
                    if e < 0 then Some (- fs_errno s, s) else Some (0, s)
                  }
            }
      })"

section \<open>Calls through the implementations\<close>

lemma fs_dispatch_simps [simp]:
  "fs_dispatch X n Tmpfs = tmpfs_ops" "fs_dispatch X n Rootfs = rootfs_ops"
  "fs_dispatch X (Suc n) Bindfs = bindfs_ops (fs_dispatch X n)" "fs_dispatch X (Suc n) Ext2 = ext2_ops (fs_dispatch X n)"
  by (cases n; simp)+

lemma vfs_call_some:
  assumes "fs_inodes s p = Some i" "i_ops i op = Some im"
  shows "vfs_call op e x f p s = with_ilock p (f im) s"
  using assms by (simp add: vfs_call_def)

lemma vfs_call_none:
  assumes "fs_inodes s p = Some i" "i_ops i op = None"
  shows "vfs_call op e x f p s = Some (x, set_errno e s)"
  using assms by (simp add: vfs_call_def)

lemma valid_inode_Some [simp]: "fs_inodes s p = Some i \<Longrightarrow> valid_inode p s = Some ()"
  by (simp add: valid_inode_def)

text \<open>A call that leaves the state as it is keeps doing so under the lock.\<close>

lemma with_ilock_same:
  assumes "fs_inodes s p = Some i" "\<not> i_lock i" "body (ilocked p s) = Some (r, ilocked p s)"
  shows "with_ilock p body s = Some (r, s)"
  using with_ilock_sbs [where m = "fs_sbs s" and e = "fs_errno s", OF assms(1,2), of body r] assms(3)
  by (simp add: ilocked_def upd_inode_def)

lemma live_node_ilocked:
  assumes "live_node s p i b sb n"
  shows "live_node (ilocked p s) p (i\<lparr>i_lock := True\<rparr>) b sb n"
  using live_nodeD [OF assms] by (simp add: live_node_def tmpfs_sb_iff)

text \<open>Reading and writing the attributes of a tmpfs inode through \<^verbatim>\<open>vfs.c\<close>.\<close>

lemma vfs_getattr_tmpfs:
  assumes "live_node s p i b sb n" "i_ops i Ogetattr = Some Tmpfs" "\<not> i_lock i"
    "st \<noteq> 0" "ptr_check s st (R_OK OR W_OK)"
  shows "vfs_getattr (fs_dispatch X k) p st s = Some ((0, Some (ti_st n)), s)"
proof -
  note L = live_nodeD [OF assms(1)]
  have "with_ilock p (tmpfs_getattr p st) s = Some ((0, Some (ti_st n)), s)"
    by (rule with_ilock_same [OF L(7) assms(3)])
      (rule tmpfs_getattr_live [OF live_node_ilocked [OF assms(1)] assms(4)])
  with L assms show ?thesis
    by (simp add: vfs_getattr_def vfs_call_some tmpfs_ops_def)
qed

lemma vfs_read_tmpfs:
  assumes "live_node s p i b sb n" "i_ops i Oread = Some Tmpfs" "\<not> i_lock i"
    "buf \<noteq> 0" "len \<noteq> 0" "ptr_check s buf (R_OK OR W_OK)"
    and "tmpfs_read p buf pos len (ilocked p s) = Some (r, ilocked p s)"
  shows "vfs_read (fs_dispatch X k) p buf pos len s = Some (r, s)"
proof -
  note L = live_nodeD [OF assms(1)]
  have "with_ilock p (tmpfs_read p buf pos len) s = Some (r, s)"
    by (rule with_ilock_same [OF L(7) assms(3)]) (rule assms(7))
  with L assms show ?thesis by (simp add: vfs_read_def vfs_call_some tmpfs_ops_def)
qed

lemma vfs_write_tmpfs:
  assumes "live_node s p i b sb n" "i_ops i Owrite = Some Tmpfs" "\<not> i_lock i"
    "fst buf \<noteq> 0" "snd buf \<noteq> []" "ptr_check s (fst buf) R_OK"
    and "tmpfs_write p buf pos (ilocked p s) = Some (r, fs_written (ilocked p s) ino b sb j m)"
  shows "vfs_write (fs_dispatch X k) p buf pos s = Some (r, fs_written s ino b sb j m)"
proof -
  note L = live_nodeD [OF assms(1)]
  have "with_ilock p (tmpfs_write p buf pos) s = Some (r, s\<lparr>fs_sbs := fs_sbs (fs_written s ino b sb j m),
      fs_errno := fs_errno s\<rparr>)"
    by (rule with_ilock_sbs [OF L(7) assms(3)]) (simp add: assms(7) fs_written_def)
  then have "with_ilock p (tmpfs_write p buf pos) s = Some (r, fs_written s ino b sb j m)"
    by (simp add: fs_written_def)
  with L assms show ?thesis by (simp add: vfs_write_def vfs_call_some tmpfs_ops_def)
qed

section \<open>Descriptors of open files\<close>

lemma upd_task_sel [simp]:
  "fs_inodes (upd_task g s) = fs_inodes s" "fs_sbs (upd_task g s) = fs_sbs s"
  "fs_next (upd_task g s) = fs_next s" "fs_dcache (upd_task g s) = fs_dcache s"
  "fs_errno (upd_task g s) = fs_errno s" "fs_task (upd_task g s) = g (fs_task s)"
  "fs_next_ino (upd_task g s) = fs_next_ino s" "fs_time (upd_task g s) = fs_time s"
  "fs_chk (upd_task g s) = fs_chk s" "fs_kstack (upd_task g s) = fs_kstack s"
  by (simp_all add: upd_task_def)

lemma upd_fd_sel [simp]:
  "fs_inodes (upd_fd k g s) = fs_inodes s" "fs_sbs (upd_fd k g s) = fs_sbs s"
  "fs_chk (upd_fd k g s) = fs_chk s" "fs_kstack (upd_fd k g s) = fs_kstack s"
  "fs_errno (upd_fd k g s) = fs_errno s" "fs_dcache (upd_fd k g s) = fs_dcache s"
  "t_fd (fs_task (upd_fd k g s)) = (t_fd (fs_task s))[k := g (t_fd (fs_task s) ! k)]"
  "t_lock (fs_task (upd_fd k g s)) = t_lock (fs_task s)"
  by (simp_all add: upd_fd_def)

lemma upd_io_sel [simp]:
  "fs_inodes (upd_io g s) = fs_inodes s" "fs_sbs (upd_io g s) = fs_sbs s"
  "fs_chk (upd_io g s) = fs_chk s" "fs_kstack (upd_io g s) = fs_kstack s"
  "fs_errno (upd_io g s) = fs_errno s" "fs_dcache (upd_io g s) = fs_dcache s"
  "t_fd (fs_task (upd_io g s)) = t_fd (fs_task s)" "t_lock (fs_task (upd_io g s)) = t_lock (fs_task s)"
  by (simp_all add: upd_io_def)

lemma fs_written_sel [simp]:
  "fs_inodes (fs_written s ino b sb k m) = fs_inodes s" "fs_chk (fs_written s ino b sb k m) = fs_chk s"
  "fs_kstack (fs_written s ino b sb k m) = fs_kstack s" "fs_task (fs_written s ino b sb k m) = fs_task s"
  "fs_sbs (fs_written s ino b sb k m) = (fs_sbs s)(b \<mapsto> sb\<lparr>sb_st := take_space k (sb_st sb),
     sb_cache := cache_put ino m (sb_cache sb)\<rparr>)"
  by (simp_all add: fs_written_def)

lemma live_node_cong:
  assumes "fs_inodes t = fs_inodes s" "fs_sbs t = fs_sbs s"
  shows "live_node t p i b sb n = live_node s p i b sb n"
  using assms by (simp add: live_node_def tmpfs_sb_iff)

text \<open>A descriptor that is open on a regular file of a tmpfs and not in use by another call.\<close>

definition open_file ::
  "fs \<Rightarrow> u32 \<Rightarrow> fd \<Rightarrow> iptr \<Rightarrow> inode \<Rightarrow> sptr \<Rightarrow> superblock \<Rightarrow> tmpfs_inode \<Rightarrow> bool" where
  "open_file s fd f p i b sb n \<longleftrightarrow>
     unat fd < TASK_NFD \<and> length (t_fd (fs_task s)) = TASK_NFD \<and> t_fd (fs_task s) ! unat fd = f
     \<and> fd_inode f = Some p \<and> \<not> fd_lock f \<and> live_node s p i b sb n \<and> \<not> i_lock i
     \<and> i_ops i Oread = Some Tmpfs \<and> i_ops i Owrite = Some Tmpfs \<and> i_ops i Ogetattr = Some Tmpfs"

lemma open_fileD:
  assumes "open_file s fd f p i b sb n"
  shows "open_inode fd s = Some (f, Some p)" "\<not> fd_too_big fd" "task_fd (unat fd) s = Some f"
    "live_node s p i b sb n" "\<not> i_lock i" "\<not> fd_lock f" "t_fd (fs_task s) ! unat fd = f"
    "unat fd < length (t_fd (fs_task s))" "i_ops i Oread = Some Tmpfs" "i_ops i Owrite = Some Tmpfs"
    "i_ops i Ogetattr = Some Tmpfs" "fd_inode f = Some p"
  using assms by (auto simp: open_file_def open_inode_def task_fd_def fd_too_big_def)

text \<open>What a read or a seek on one descriptor keeps of the state.\<close>

definition io_frame :: "nat \<Rightarrow> fs \<Rightarrow> fs \<Rightarrow> bool" where
  "io_frame k s t \<longleftrightarrow> fs_kstack t = fs_kstack s \<and> fs_chk t = fs_chk s \<and> fs_inodes t = fs_inodes s
     \<and> t_lock (fs_task t) = t_lock (fs_task s) \<and> length (t_fd (fs_task t)) = length (t_fd (fs_task s))
     \<and> (\<forall>j. j \<noteq> k \<longrightarrow> t_fd (fs_task t) ! j = t_fd (fs_task s) ! j)"

lemma with_fd_lock_free:
  assumes "\<not> fd_lock (t_fd (fs_task s) ! k)"
  shows "with_fd_lock k body s =
    map_option (\<lambda>(r, t). (r, upd_fd k (fd_lock_update (\<lambda>_. False)) t))
      (body (upd_fd k (fd_lock_update (\<lambda>_. True)) s))"
  using assms by (simp add: with_fd_lock_def with_lock_free)

text \<open>
  Writing through a descriptor: the bytes land at its position, the position moves behind them and
  the descriptor stays open on the same file.
\<close>

lemma sys_write_open:
  assumes F: "open_file s fd f p i b sb n" and flags: "has (fd_flags f) O_RDWR"
    and a: "a \<noteq> 0" "ptr_check s a R_OK" and bs: "bs \<noteq> []"
    and pos: "unat (fd_position f) \<le> unat (st_size (ti_st n))"
    and small: "unat (fd_position f) + length bs < 2 ^ 31 - 1024" "unat (f_bavail (sb_st sb)) < 2 ^ 31"
    and fits: "unat (fd_position f) + length bs - unat (st_size (ti_st n)) < unat (f_bavail (sb_st sb))"
  obtains t sb' m where "sys_write (fs_dispatch X k) fd (a, bs) s = Some (int (length bs), t)"
    "open_file t fd (f\<lparr>fd_position := fd_position f + of_nat (length bs)\<rparr>) p i b sb' m"
    "node_written n (unat (fd_position f)) bs m"
    "sb_st sb' = take_space (unat (fd_position f) + length bs - unat (st_size (ti_st n))) (sb_st sb)"
    "fs_chk t = fs_chk s" "fs_kstack t = fs_kstack s"
proof -
  note O = open_fileD [OF F]
  let ?g = "\<lambda>v. v\<lparr>io_wchar := io_wchar v + of_nat (length bs), io_syscw := io_syscw v + 1\<rparr>"
  define s1 where "s1 = upd_fd (unat fd) (fd_lock_update (\<lambda>_. True)) (upd_io ?g s)"
  have n1: "live_node s1 p i b sb n" using O(4) by (subst live_node_cong [of _ s]) (simp_all add: s1_def)
  let ?j = "unat (fd_position f) + length bs - unat (st_size (ti_st n))"
  obtain m where m: "node_written n (unat (fd_position f)) bs m"
    "tmpfs_write p (a, bs) (fd_position f) (ilocked p s1) =
       Some (int (length bs), fs_written (ilocked p s1) (i_ino i) b sb ?j m)"
    using tmpfs_write_live [OF live_node_ilocked [OF n1] a(1) bs pos small fits] by auto
  have w: "vfs_write (fs_dispatch X k) p (a, bs) (fd_position f) s1
      = Some (int (length bs), fs_written s1 (i_ino i) b sb ?j m)"
    using O a bs m(2) by (intro vfs_write_tmpfs [OF n1]) (simp_all add: s1_def)
  define t where "t = upd_fd (unat fd) (fd_lock_update (\<lambda>_. False))
    (upd_io (\<lambda>v. v\<lparr>io_write_bytes := io_write_bytes v + of_nat (length bs)\<rparr>)
      (upd_fd (unat fd) (\<lambda>f. f\<lparr>fd_position := fd_position f + of_nat (length bs)\<rparr>)
        (fs_written s1 (i_ino i) b sb ?j m)))"
  have "sys_write (fs_dispatch X k) fd (a, bs) s = Some (int (length bs), t)"
    using O a flags w bs
    by (simp add: sys_write_def with_fd_lock_free s1_def [symmetric] Let_def t_def)
  moreover have "tnode_ok m" using m(1) by (simp add: node_written_def)
  then have "live_node (fs_written s1 (i_ino i) b sb ?j m) p i b
      (sb\<lparr>sb_st := take_space ?j (sb_st sb), sb_cache := cache_put (i_ino i) m (sb_cache sb)\<rparr>) m"
    by (rule live_node_written [OF n1])
  then have "live_node t p i b
      (sb\<lparr>sb_st := take_space ?j (sb_st sb), sb_cache := cache_put (i_ino i) m (sb_cache sb)\<rparr>) m"
    by (subst live_node_cong [of _ "fs_written s1 (i_ino i) b sb ?j m"]) (simp_all add: t_def)
  with F O have "open_file t fd (f\<lparr>fd_position := fd_position f + of_nat (length bs)\<rparr>) p i b
      (sb\<lparr>sb_st := take_space ?j (sb_st sb), sb_cache := cache_put (i_ino i) m (sb_cache sb)\<rparr>) m"
    by (auto simp: open_file_def t_def s1_def)
  moreover have "fs_chk t = fs_chk s" "fs_kstack t = fs_kstack s" by (simp_all add: t_def s1_def)
  ultimately show thesis using that m(1) by fastforce
qed

text \<open>Setting the position, and reading at it.\<close>

lemma sys_lseek_open:
  assumes F: "open_file s fd f p i b sb n" and st: "\<not> S_ISFIFO (st_mode (ti_st n))"
    and k: "fs_kstack s \<noteq> 0" "ptr_check s (fs_kstack s) (R_OK OR W_OK)"
  obtains t where "sys_lseek (fs_dispatch X m) fd off 0 s = Some (sint off, t)"
    "open_file t fd (f\<lparr>fd_position := off\<rparr>) p i b sb n" "fs_chk t = fs_chk s" "io_frame (unat fd) s t"
proof -
  note O = open_fileD [OF F]
  have g: "vfs_getattr (fs_dispatch X m) p (fs_kstack s) s = Some ((0, Some (ti_st n)), s)"
    by (rule vfs_getattr_tmpfs [OF O(4,11,5) k])
  define t where "t = upd_fd (unat fd) (fd_lock_update (\<lambda>_. False))
    (upd_fd (unat fd) (\<lambda>f. f\<lparr>fd_position := off\<rparr>) (upd_fd (unat fd) (fd_lock_update (\<lambda>_. True)) s))"
  have "sys_lseek (fs_dispatch X m) fd off 0 s = Some (sint off, t)"
    using O st by (simp add: sys_lseek_def g with_fd_lock_free t_def task_fd_def)
  moreover have "live_node t p i b sb n"
    using O(4) by (subst live_node_cong [of _ s]) (simp_all add: t_def)
  then have "open_file t fd (f\<lparr>fd_position := off\<rparr>) p i b sb n"
    using F O by (auto simp: open_file_def t_def)
  ultimately show thesis using that by (simp add: t_def io_frame_def)
qed

lemma sys_read_open:
  assumes F: "open_file s fd f p i b sb n" and flags: "\<not> has (fd_flags f) O_WRONLY"
    and a: "a \<noteq> 0" "ptr_check s a (R_OK OR W_OK)" and len: "len \<noteq> 0"
    and pos: "fd_position f \<le> st_size (ti_st n)" and small: "unat (st_size (ti_st n)) < 2 ^ 31"
      "unat (fd_position f) + unat len < 2 ^ 31"
  obtains t where "sys_read (fs_dispatch X m) fd a len s =
      (let r = pread (file_bytes n) (unat (fd_position f)) (unat len) in Some ((int (length r), r), t))"
    "open_file t fd (f\<lparr>fd_position := fd_position f +
       of_nat (length (pread (file_bytes n) (unat (fd_position f)) (unat len)))\<rparr>) p i b sb n"
    "io_frame (unat fd) s t"
proof -
  note O = open_fileD [OF F]
  let ?g = "\<lambda>v. v\<lparr>io_rchar := io_rchar v + ucast len, io_syscr := io_syscr v + 1\<rparr>"
  define s1 where "s1 = upd_fd (unat fd) (fd_lock_update (\<lambda>_. True)) (upd_io ?g s)"
  define r where "r = pread (file_bytes n) (unat (fd_position f)) (unat len)"
  have n1: "live_node s1 p i b sb n" using O(4) by (subst live_node_cong [of _ s]) (simp_all add: s1_def)
  have "tmpfs_read p a (fd_position f) len (ilocked p s1) = Some ((int (length r), r), ilocked p s1)"
    using tmpfs_read_live [OF live_node_ilocked [OF n1] a(1) len pos small] by (simp add: r_def Let_def)
  then have w: "vfs_read (fs_dispatch X m) p a (fd_position f) len s1 = Some ((int (length r), r), s1)"
    using O a len by (intro vfs_read_tmpfs [OF n1]) (simp_all add: s1_def)
  define t where "t = upd_fd (unat fd) (fd_lock_update (\<lambda>_. False))
    (if r = [] then s1 else upd_io (\<lambda>v. v\<lparr>io_read_bytes := io_read_bytes v + of_nat (length r)\<rparr>)
      (upd_fd (unat fd) (\<lambda>f. f\<lparr>fd_position := fd_position f + of_nat (length r)\<rparr>) s1))"
  have "sys_read (fs_dispatch X m) fd a len s = Some ((int (length r), r), t)"
    using O a flags w
    by (cases r) (simp_all add: sys_read_def with_fd_lock_free s1_def [symmetric] Let_def t_def)
  moreover have "live_node t p i b sb n"
    using n1 by (subst live_node_cong [of _ s1]) (simp_all add: t_def)
  then have "open_file t fd (f\<lparr>fd_position := fd_position f + of_nat (length r)\<rparr>) p i b sb n"
    using F O by (auto simp: open_file_def t_def s1_def)
  moreover have "io_frame (unat fd) s t" by (simp add: io_frame_def t_def s1_def)
  ultimately show thesis using that by (simp add: r_def Let_def)
qed

text \<open>C12. What a program writes it reads back: writing bytes through a descriptor that is open for reading
  and writing on a regular file, seeking back to where the write started and reading the same number
  of bytes returns exactly these bytes.\<close>

theorem sys_write_seek_read:
  assumes "open_file s fd f p i b sb n" "has (fd_flags f) O_RDWR" "\<not> has (fd_flags f) O_WRONLY"
    "a \<noteq> 0" "ptr_check s a R_OK" "c \<noteq> 0" "ptr_check s c (R_OK OR W_OK)" "bs \<noteq> []"
    "fs_kstack s \<noteq> 0" "ptr_check s (fs_kstack s) (R_OK OR W_OK)" "\<not> S_ISFIFO (st_mode (ti_st n))"
    "unat (fd_position f) \<le> unat (st_size (ti_st n))"
    "unat (fd_position f) + length bs < 2 ^ 31 - 1024" "unat (st_size (ti_st n)) < 2 ^ 31 - 1024"
    "unat (f_bavail (sb_st sb)) < 2 ^ 31"
    "unat (fd_position f) + length bs - unat (st_size (ti_st n)) < unat (f_bavail (sb_st sb))"
  shows "\<exists>t u v. sys_write (fs_dispatch X k) fd (a, bs) s = Some (int (length bs), t)
    \<and> sys_lseek (fs_dispatch X k) fd (fd_position f) 0 t = Some (int (unat (fd_position f)), u)
    \<and> sys_read (fs_dispatch X k) fd c (of_nat (length bs)) u = Some ((int (length bs), map Some bs), v)"
proof -
  let ?pos = "unat (fd_position f)"
  obtain t sb' m where t: "sys_write (fs_dispatch X k) fd (a, bs) s = Some (int (length bs), t)"
    "open_file t fd (f\<lparr>fd_position := fd_position f + of_nat (length bs)\<rparr>) p i b sb' m"
    "node_written n ?pos bs m" "fs_chk t = fs_chk s" "fs_kstack t = fs_kstack s"
    using sys_write_open [OF assms(1,2,4,5,8,12,13,15,16)] by metis
  from t(3) have m: "ti_st m = (ti_st n)\<lparr>st_size := of_nat (max (unat (st_size (ti_st n))) (?pos + length bs))\<rparr>"
    "file_bytes m = pwrite (file_bytes n) ?pos (map Some bs)" by (simp_all add: node_written_def)
  have sz: "unat (st_size (ti_st m)) = max (unat (st_size (ti_st n))) (?pos + length bs)"
    using assms(13,14) by (simp add: m(1) unat_of_nat)
  obtain u where u: "sys_lseek (fs_dispatch X k) fd (fd_position f) 0 t = Some (sint (fd_position f), u)"
    "open_file u fd (f\<lparr>fd_position := fd_position f\<rparr>) p i b sb' m" "fs_chk u = fs_chk t"
    using sys_lseek_open [OF t(2), of X k "fd_position f"] assms(9-11) t(4,5) m(1) by auto
  have len: "unat (of_nat (length bs) :: u32) = length bs" "(of_nat (length bs) :: u32) \<noteq> 0"
    using assms(13) write_len(1) [OF assms(8,13)] by (simp_all add: unat_of_nat)
  have "fd_position f \<le> st_size (ti_st m)" by (simp add: word_le_nat_alt sz)
  then obtain v where v: "sys_read (fs_dispatch X k) fd c (of_nat (length bs)) u =
      (let r = pread (file_bytes m) ?pos (length bs) in Some ((int (length r), r), v))"
    using sys_read_open [OF u(2) _ assms(6), of "of_nat (length bs)" X k] assms(3,7,13,14) u(3) t(4) sz len
    by auto
  have "length (file_bytes n) = unat (st_size (ti_st n))"
    using length_file_bytes live_nodeD(4) open_fileD(4) [OF assms(1)] by blast
  then have "pread (file_bytes m) ?pos (length bs) = map Some bs"
    using pread_pwrite_same [of ?pos "file_bytes n" "map Some bs"] assms(12) by (simp add: m(2))
  moreover have "sint (fd_position f) = int ?pos" using assms(13) by (intro sint_small) simp
  ultimately show ?thesis using t(1) u(1) v by auto
qed

lemma demo_sel:
  "length (t_fd (fs_task fs_demo)) = TASK_NFD" "fs_chk fs_demo = (\<lambda>_ _. True)" "fs_kstack fs_demo = 0x1000"
  by (simp_all add: fs_demo_def demo_task_def TASK_NFD_def)

lemma demo_open: "open_file fs_demo 0 \<lparr>fd_inode = Some 2, fd_position = 0, fd_flags = 2, fd_lock = False\<rparr>
    2 demo_file 1 demo_sb (demo_node 2 S_IFREG)"
  using demo_live
  by (simp add: open_file_def fs_demo_def demo_task_def TASK_NFD_def demo_file_def ops_of_def tmpfs_vops_def
      mode_defs)

theorem sys_write_seek_read_witness:
  "\<exists>t u v. sys_write (fs_dispatch (\<lambda>_. no_ops) 1) 0 (0x2000, [104, 105]) fs_demo = Some (2, t)
    \<and> sys_lseek (fs_dispatch (\<lambda>_. no_ops) 1) 0 0 0 t = Some (0, u)
    \<and> sys_read (fs_dispatch (\<lambda>_. no_ops) 1) 0 0x2000 2 u = Some ((2, [Some 104, Some 105]), v)"
proof -
  have "st_size (ti_st (demo_node 2 S_IFREG)) = 0" "st_mode (ti_st (demo_node 2 S_IFREG)) = S_IFREG"
    "f_bavail (sb_st demo_sb) = TMPFS_SIZE_MAX" by (simp_all add: demo_node_def stat_zero_def demo_sb_def)
  then show ?thesis
    using sys_write_seek_read [where a = "0x2000" and c = "0x2000" and bs = "[104, 105]" and
        X = "\<lambda>_. no_ops" and k = 1, OF demo_open]
    by (simp add: demo_sel O_RDWR_def O_WRONLY_def mode_defs TMPFS_SIZE_MAX_def)
qed

section \<open>Errors of the calls\<close>

text \<open>The bound of the descriptor table is off by one: the calls refuse a descriptor above the size of
  the table, but the size itself passes the check and indexes behind the table, which has no defined
  result.\<close>

lemma fd_table_overrun:
  assumes "length (t_fd (fs_task s)) = TASK_NFD" "ptr_check s a (R_OK OR W_OK)" "ptr_check s a R_OK"
  shows "sys_read D 32 a sz s = None \<and> sys_write D 32 (a, bs) s = None \<and> sys_lseek D 32 off w s = None
    \<and> sys_close D 32 s = None \<and> sys_ftruncate D 32 off s = None \<and> sys_ioctl D 32 off w s = None
    \<and> sys_fchdir 32 s = None \<and> sys_read D 33 a sz s = Some ((- EBADF, []), s)"
  using assms
  by (simp add: sys_read_def sys_write_def sys_lseek_def sys_close_def sys_ftruncate_def sys_ioctl_def
      sys_fchdir_def fd_too_big_def TASK_NFD_def open_inode_def task_fd_def)

lemma fd_table_overrun_demo:
  "sys_read (fs_dispatch (\<lambda>_. no_ops) 1) 32 0x2000 8 fs_demo = None
    \<and> sys_close (fs_dispatch (\<lambda>_. no_ops) 1) 32 fs_demo = None
    \<and> sys_read (fs_dispatch (\<lambda>_. no_ops) 1) 33 0x2000 8 fs_demo = Some ((- EBADF, []), fs_demo)"
  using fd_table_overrun [where s = fs_demo and a = "0x2000" and D = "fs_dispatch (\<lambda>_. no_ops) 1" and sz = 8]
  by (simp add: demo_sel)

end
