(* ===== verification/Ext2_Loop.thy ===== *)
theory Ext2_Loop
  imports Fsys Ext2_Volume
begin

text \<open>
  ext2 volumes in the running file system: mounting a device, and reading and writing files of the
  volume through \<^verbatim>\<open>vfs.c\<close>, first over any device that keeps the contract \<open>disk_device\<close> and then over
  an image in a file of a tmpfs, which keeps it.
\<close>

section \<open>Files behind vfs.c\<close>

lemma ext2_of_ilocked [simp]: "ext2_of b (ilocked p s) = ext2_of b s"
  by (simp add: ext2_of_def ilocked_def)

lemma buf_ok_ilocked [simp]: "buf_ok (ilocked p s) a n m = buf_ok s a n m"
  by (simp add: buf_ok_def ilocked_def)

lemma ext2_node_ilocked: "ext2_node s p i b \<Longrightarrow> ext2_node (ilocked p s) p (i\<lparr>i_lock := True\<rparr>) b"
  by (simp add: ext2_node_def ilocked_def)

text \<open>A call that changes super blocks only does the same under the lock of the inode.\<close>

lemma with_ilock_kept:
  assumes "fs_inodes s p = Some i" "\<not> i_lock i" "body (ilocked p s) = Some (r, t)" "kept UNIV (ilocked p s) t"
  shows "with_ilock p body s = Some (r, s\<lparr>fs_sbs := fs_sbs t\<rparr>)"
proof -
  from assms(4) have "t = (ilocked p s)\<lparr>fs_sbs := fs_sbs t, fs_errno := fs_errno s\<rparr>"
    by (auto simp: kept_def ilocked_def)
  with with_ilock_sbs [where m = "fs_sbs t" and e = "fs_errno s", OF assms(1,2), of body r] assms(3) show ?thesis by simp
qed

lemma kept_mono: "kept S s t \<Longrightarrow> S \<subseteq> T \<Longrightarrow> kept T s t"
  by (auto simp: kept_def)

lemma kept_upd_ext2: "kept UNIV s (upd_ext2 b f s)"
  by (auto simp: kept_def upd_ext2_def upd_sb_def)

context disk_device
begin

lemma ilocked_ok:
  assumes "ok s" "p \<noteq> dev"
  shows "ok (ilocked p s)" "disk (ilocked p s) = disk s"
  using dev_frame [OF assms(1), of "ilocked p s"] assms(2) by (simp_all add: ilocked_def)

lemma volume_ilocked: "volume s b e \<Longrightarrow> p \<noteq> dev \<Longrightarrow> volume (ilocked p s) b e"
  using ilocked_ok by (auto simp: volume_def)

lemma vfs_read_ok:
  assumes D': "D' Ext2 = ext2_ops D" and nd: "ext2_node s p i b" and v: "volume s b e" and p: "p \<noteq> dev"
    and i: "\<not> i_lock i" "i_ops i Oread = Some Ext2"
    and kn: "inode_known e (disk s) (i_ino i) n"
    and lay: "file_layout e (disk s) n" and bo: "buf_ok s buf (unat len) (R_OK OR W_OK)" and len: "len \<noteq> 0"
    and pos: "unat pos < unat (en_size n)" "unat pos + unat len < 2 ^ 32"
  defines "r \<equiv> pread (ext2_content (disk s) (unat (e2_blocksize e)) (en_block n) (unat (en_size n))) (unat pos) (unat len)"
  shows "\<exists>c. vfs_read D' p buf pos len s = Some ((int (length r), map Some r), upd_ext2 b (\<lambda>e. e\<lparr>e2_icache := c\<rparr>) s)
    \<and> cache_ok c \<and> cache_peek c (i_ino i) = Some n"
proof -
  have P: "fs_inodes s p = Some i" using nd by (simp add: ext2_node_def)
  have d: "disk (ilocked p s) = disk s" using ilocked_ok(2) v p by (simp add: volume_def)
  obtain c where c: "ext2_read D p buf pos len (ilocked p s)
      = Some ((int (length r), map Some r), upd_ext2 b (\<lambda>e. e\<lparr>e2_icache := c\<rparr>) (ilocked p s))"
    "cache_ok c" "cache_peek c (i_ino i) = Some n"
    using read_ok [OF ext2_node_ilocked [OF nd] volume_ilocked [OF v p], of n buf len pos] kn lay bo len pos d
    by (auto simp: r_def)
  have "with_ilock p (ext2_read D p buf pos len) s
      = Some ((int (length r), map Some r), upd_ext2 b (\<lambda>e. e\<lparr>e2_icache := c\<rparr>) s)"
    using with_ilock_kept [where body = "ext2_read D p buf pos len", OF P i(1) c(1) kept_upd_ext2]
    by (simp add: upd_ext2_def upd_sb_def ilocked_def)
  moreover have "buf \<noteq> 0" "fs_chk s buf (R_OK OR W_OK)" using buf_okD [OF bo, of 0] len by (simp_all add: unat_gt_0)
  ultimately show ?thesis
    using c P i len by (intro exI [of _ c]) (simp add: vfs_read_def vfs_call_some D' ext2_ops_def)
qed

text \<open>Taking the lock of an inode off again changes neither the volume nor its files.\<close>

lemma fstate_unlocked:
  assumes f: "fstate t b e n C" and k: "kept UNIV (ilocked p s) t" and p: "p \<noteq> dev"
  shows "fstate (s\<lparr>fs_sbs := fs_sbs t\<rparr>) b e n C"
proof -
  have "ok t" using f by (simp add: fstate_def volume_def)
  moreover have "fs_inodes s dev = fs_inodes t dev" using kept_sel(1) [OF k] p by (simp add: ilocked_def)
  ultimately have "ok (s\<lparr>fs_sbs := fs_sbs t\<rparr>)" "disk (s\<lparr>fs_sbs := fs_sbs t\<rparr>) = disk t"
    using dev_frame [of t "s\<lparr>fs_sbs := fs_sbs t\<rparr>"] by simp_all
  with f kept_sel(2,3) [OF k] show ?thesis by (simp add: fstate_def volume_def ext2_of_def ilocked_def)
qed

lemma vfs_write_ok:
  assumes D': "D' Ext2 = ext2_ops D" and nd: "ext2_node s p i b" and f: "fstate s b e n F" and p: "p \<noteq> dev"
    and i: "\<not> i_lock i" "i_ops i Owrite = Some Ext2" and kn: "inode_known e (disk s) (i_ino i) n"
    and bo: "buf_ok s a (length xs) R_OK" and xs: "xs \<noteq> []"
    and pos: "unat pos < unat (en_size n)" "unat pos + length xs < 2 ^ 32"
  defines "ys \<equiv> take (unat (en_size n) - unat pos) xs"
  shows "\<exists>t c. vfs_write D' p (a, xs) pos s = Some (int (length ys), t)
    \<and> fstate t b (e\<lparr>e2_icache := c\<rparr>) n (pwrite F (unat pos) ys) \<and> cache_ok c \<and> cache_peek c (i_ino i) = Some n
    \<and> kept owned (upd_ext2 b (\<lambda>e. e\<lparr>e2_icache := c\<rparr>) s) t"
proof -
  let ?s = "ilocked p s"
  have P: "fs_inodes s p = Some i" using nd by (simp add: ext2_node_def)
  have v: "volume s b e" using f by (simp add: fstate_def)
  have d: "disk ?s = disk s" using ilocked_ok(2) v p by (simp add: volume_def)
  have f1: "fstate ?s b e n F" using f volume_ilocked [OF v p] by (simp add: fstate_def d)
  obtain t c where t: "ext2_write D p (a, xs) pos ?s = Some (int (length ys), t)"
    "fstate t b (e\<lparr>e2_icache := c\<rparr>) n (pwrite F (unat pos) ys)" "cache_ok c" "cache_peek c (i_ino i) = Some n"
    "kept owned (upd_ext2 b (\<lambda>e. e\<lparr>e2_icache := c\<rparr>) ?s) t"
    using write_ok [OF ext2_node_ilocked [OF nd] f1, of a xs pos] kn bo xs pos d by (auto simp: ys_def)
  have k: "kept UNIV ?s t" using kept_trans [OF kept_upd_ext2 kept_mono [OF t(5)]] by simp
  have "kept owned (upd_ext2 b (\<lambda>e. e\<lparr>e2_icache := c\<rparr>) s) (s\<lparr>fs_sbs := fs_sbs t\<rparr>)"
    using t(5) by (auto simp: kept_def upd_ext2_def upd_sb_def ilocked_def)
  moreover have "with_ilock p (ext2_write D p (a, xs) pos) s = Some (int (length ys), s\<lparr>fs_sbs := fs_sbs t\<rparr>)"
    by (rule with_ilock_kept [where body = "ext2_write D p (a, xs) pos", OF P i(1) t(1) k])
  moreover have "a \<noteq> 0" "fs_chk s a R_OK" using buf_okD [OF bo, of 0] xs by simp_all
  ultimately show ?thesis
    using t(3,4) fstate_unlocked [OF t(2) k p] P i xs
    by (intro exI [of _ "s\<lparr>fs_sbs := fs_sbs t\<rparr>"] exI [of _ c]) (simp add: vfs_write_def vfs_call_some D' ext2_ops_def)
qed

end

section \<open>Mounting\<close>

text \<open>A super block the driver accepts, and what it keeps of it.\<close>

definition mountable :: "ext2_super_block \<Rightarrow> bool" where
  "mountable sb \<longleftrightarrow> s_magic sb = EXT2_SIGNATURE \<and> s_log_block_size sb \<le> 2 \<and> s_log_frag_size sb \<le> 2
     \<and> s_feature_incompat sb AND EXT2_FEATURE_INCOMPAT_COMPRESSION = 0
     \<and> s_feature_incompat sb AND EXT3_FEATURE_INCOMPAT_RECOVER = 0
     \<and> s_feature_incompat sb AND EXT3_FEATURE_INCOMPAT_JOURNAL_DEV = 0 \<and> s_blocks_per_group sb \<noteq> 0"

definition ext2_params :: "ext2_super_block \<Rightarrow> iptr \<Rightarrow> iptr \<Rightarrow> ext2_t" where
  "ext2_params sb d dir =
     (let bs = push_bit (unat (s_log_block_size sb)) 1024 in
      \<lparr>e2_sb = sb, e2_first_block_group = s_first_data_block sb + 1,
       e2_count_block_group = s_blocks_count sb div s_blocks_per_group sb, e2_blocksize = bs,
       e2_inodesize = ucast (s_inode_size sb), e2_cache = replicate (unat bs) None, e2_lock = False,
       e2_dev = d, e2_root = dir, e2_icache = \<lparr>c_capacity = - 1, c_count = 0, c_items = [], c_lock = False\<rparr>\<rparr>)"

lemma shift_1024_small:
  assumes "n \<le> 2"
  shows "shift_1024 n = Some (push_bit (unat n) 1024)" "push_bit (unat n) 1024 \<in> {1024, 2048, 4096 :: u32}"
proof -
  from assms have "unat n \<le> 2" by (simp add: word_le_nat_alt)
  then have "unat n = 0 \<or> unat n = 1 \<or> unat n = 2" by linarith
  then show "push_bit (unat n) 1024 \<in> {1024, 2048, 4096 :: u32}" by (auto simp: push_bit_eq_mult)
  from \<open>unat n \<le> 2\<close> show "shift_1024 n = Some (push_bit (unat n) 1024)" by (simp add: shift_1024_def word_less_nat_alt)
qed

lemma block_size_bounds: "(w :: u32) \<in> {1024, 2048, 4096} \<Longrightarrow> w \<le> 4096 \<and> 1024 \<le> w"
  by auto

text \<open>The state in which the driver reads the root directory, and what it does with it.\<close>

definition mount_sb :: "ext2_super_block \<Rightarrow> iptr \<Rightarrow> iptr \<Rightarrow> u32 \<Rightarrow> superblock" where
  "mount_sb sb dev dir flags =
     sb_zero\<lparr>sb_fsid := EXT2_ID, sb_dev := Some dev, sb_root := dir, sb_flags := flags,
       sb_info := Ext2Info (ext2_params sb dev dir),
       sb_st := \<lparr>f_bsize = push_bit (unat (s_log_block_size sb)) 1024,
         f_frsize = push_bit (unat (s_log_frag_size sb)) 1024, f_blocks = s_blocks_count sb,
         f_bfree = s_free_blocks_count sb, f_bavail = s_free_blocks_count sb,
         f_files = s_inodes_count sb, f_ffree = s_free_inodes_count sb,
         f_favail = s_free_inodes_count sb, f_flag = tmpfs_stflags flags, f_fsid = EXT2_ID,
         f_namemax = of_nat MAXNAMLEN\<rparr>,
       sb_ops := ops_of Ext2 [Ogetattr, Ofinddir, Oreaddir]\<rparr>"

definition mount_state :: "ext2_super_block \<Rightarrow> iptr \<Rightarrow> iptr \<Rightarrow> u32 \<Rightarrow> fs \<Rightarrow> fs" where
  "mount_state sb dev dir flags s =
     upd_inode dir (\<lambda>i. i\<lparr>i_sb := Some (fs_next s)\<rparr>) (snd (new_sb (mount_sb sb dev dir flags) s))"

definition mount_root :: "sptr \<Rightarrow> ext2_inode \<Rightarrow> fs \<Rightarrow> fs" where
  "mount_root b n s =
     upd_sb b (\<lambda>sb. sb\<lparr>sb_ino := EXT2_ROOT_INO\<rparr>)
       (upd_ext2 b (\<lambda>e. e\<lparr>e2_icache := cache_put EXT2_ROOT_INO n (e2_icache e)\<rparr>) s)"

lemma ext2_mount_split:
  assumes "fs_inodes s dir = Some i"
    and "vfs_read D dev (fs_kstack s) 1024 SUPER_BLOCK_SIZE s = Some ((1024, bs), s)"
    and "super_block_of bs = Some sb" and m: "mountable sb"
  shows "ext2_mount D (Some dev) dir flags s =
    do {
      (n, t) \<leftarrow> ext2_get D (fs_next s) EXT2_ROOT_INO (mount_state sb dev dir flags s);
      Some (0, mount_root (fs_next s) (n\<lparr>en_mode := (en_mode n AND NOT (ucast S_IFMT)) OR ucast S_IFMT\<rparr>) t)
    }"
proof -
  from m have "s_log_block_size sb \<le> 2" "s_log_frag_size sb \<le> 2" by (simp_all add: mountable_def)
  note B = shift_1024_small [OF this(1)] and F = shift_1024_small [OF this(2)]
  have "(1024 :: u32) = SUPER_BLOCK_SIZE" by (simp add: SUPER_BLOCK_SIZE_def)
  with assms block_size_bounds [OF B(2)] block_size_bounds [OF F(2)] show ?thesis
    by (simp add: ext2_mount_def mountable_def B(1) F(1) EXT2_MAX_BLOCK_SIZE_def EXT2_MIN_BLOCK_SIZE_def
        EXT2_MAX_FRAG_SIZE_def EXT2_MIN_FRAG_SIZE_def vfs_cache_create_def new_sb_def mount_state_def mount_root_def
        mount_sb_def ext2_params_def Let_def)
qed

lemma mount_state_sel:
  assumes "fs_inodes s dir = Some i"
  shows "fs_inodes (mount_state sb dev dir flags s) = (fs_inodes s)(dir \<mapsto> i\<lparr>i_sb := Some (fs_next s)\<rparr>)"
    "fs_sbs (mount_state sb dev dir flags s) = (fs_sbs s)(fs_next s \<mapsto> mount_sb sb dev dir flags)"
    "fs_chk (mount_state sb dev dir flags s) = fs_chk s" "fs_kstack (mount_state sb dev dir flags s) = fs_kstack s"
    "ext2_of (fs_next s) (mount_state sb dev dir flags s) = Some (ext2_params sb dev dir)"
  using assms by (simp_all add: mount_state_def new_sb_def upd_inode_def ext2_of_def mount_sb_def)

lemma mount_root_sel:
  assumes "ext2_of b s = Some e"
  shows "fs_inodes (mount_root b n s) = fs_inodes s" "fs_chk (mount_root b n s) = fs_chk s"
    "fs_kstack (mount_root b n s) = fs_kstack s" "c \<noteq> b \<Longrightarrow> fs_sbs (mount_root b n s) c = fs_sbs s c"
    "ext2_of b (mount_root b n s) = Some (e\<lparr>e2_icache := cache_put EXT2_ROOT_INO n (e2_icache e)\<rparr>)"
    "map_option sb_fsid (fs_sbs (mount_root b n s) b) = map_option sb_fsid (fs_sbs s b)"
  using assms by (auto simp: mount_root_def upd_ext2_def upd_sb_def ext2_of_iff)

lemma mode_all_types: "(w AND NOT m) OR m = w OR (m :: 'a :: len word)"
  by (rule bit_word_eqI) (auto simp: bit_simps)

context disk_device
begin

lemma mount_ok:
  assumes s: "ok s" "fs_kstack s \<noteq> 0" "fs_chk s (fs_kstack s) (R_OK OR W_OK)" "fs_chk s (fs_kstack s) R_OK"
    and dir: "fs_inodes s dir = Some i" "dir \<noteq> dev" and b: "fs_next s \<notin> owned"
    and len: "2048 \<le> length (disk s)" and sb: "super_block_of (map Some (pread (disk s) 1024 1024)) = Some sb" "mountable sb"
    and root: "inode_on_disk (ext2_params sb dev dir) (disk s) EXT2_ROOT_INO"
      "ext2_disk_inode (ext2_params sb dev dir) (disk s) EXT2_ROOT_INO = Some n"
  obtains t c where "ext2_mount D (Some dev) dir flags s = Some (0, t)"
    "volume t (fs_next s) ((ext2_params sb dev dir)\<lparr>e2_icache := c\<rparr>)" "disk t = disk s"
    "cache_ok c" "cache_peek c EXT2_ROOT_INO = Some (n\<lparr>en_mode := en_mode n OR ucast S_IFMT\<rparr>)"
    "ext2_node t dir (i\<lparr>i_sb := Some (fs_next s)\<rparr>) (fs_next s)"
proof -
  let ?e = "ext2_params sb dev dir" and ?b = "fs_next s"
  have r: "vfs_read D dev (fs_kstack s) 1024 SUPER_BLOCK_SIZE s = Some ((1024, map Some (pread (disk s) 1024 1024)), s)"
    using dev_read [OF s(1-3), of SUPER_BLOCK_SIZE 1024] len by (simp add: SUPER_BLOCK_SIZE_def)
  let ?s = "mount_state sb dev dir flags s"
  note M = mount_state_sel [OF dir(1), of sb dev flags]
  have "ok ?s \<and> disk ?s = disk s" using dir(2) b by (intro dev_frame [OF s(1)]) (auto simp: M)
  moreover have bs: "e2_blocksize ?e \<in> {1024, 2048, 4096}" "e2_dev ?e = dev"
    using shift_1024_small(2) [of "s_log_block_size sb"] sb(2) by (simp_all add: ext2_params_def mountable_def Let_def)
  ultimately have v: "volume ?s ?b ?e" and d: "disk ?s = disk s" using s b by (simp_all add: volume_def M)
  have ce: "vfs_cache_create (- 1) = Some (e2_icache ?e)"
    by (simp add: vfs_cache_create_def ext2_params_def Let_def)
  note ce = vfs_cache_create_ok [OF ce]
  have "inode_known ?e (disk ?s) EXT2_ROOT_INO n" using ce root by (simp add: inode_known_def d)
  from get_ok [OF v this] obtain c where c: "ext2_get D ?b EXT2_ROOT_INO ?s = Some (n, upd_ext2 ?b (\<lambda>e. e\<lparr>e2_icache := c\<rparr>) ?s)"
    "cache_ok c" "cache_peek c EXT2_ROOT_INO = Some n" .
  define u where u: "u = upd_ext2 ?b (\<lambda>e. e\<lparr>e2_icache := c\<rparr>) ?s"
  let ?n = "n\<lparr>en_mode := en_mode n OR ucast S_IFMT\<rparr>" and ?c = "cache_put EXT2_ROOT_INO (n\<lparr>en_mode := en_mode n OR ucast S_IFMT\<rparr>) c"
  have vu: "volume u ?b (?e\<lparr>e2_icache := c\<rparr>)" and du: "disk u = disk s"
    using volume_upd [OF v, of "\<lambda>e. e\<lparr>e2_icache := c\<rparr>" c] d unfolding u by simp_all
  then have eu: "ext2_of ?b u = Some (?e\<lparr>e2_icache := c\<rparr>)" and oku: "ok u" by (simp_all add: volume_def)
  define t where t: "t = mount_root ?b ?n u"
  note R = mount_root_sel [where n = ?n, OF eu, folded t]
  have "ok t \<and> disk t = disk u" using b by (intro dev_frame [OF oku]) (auto simp: R(1) intro!: R(4))
  then have "volume t ?b (?e\<lparr>e2_icache := ?c\<rparr>)" and dt: "disk t = disk s"
    using vu du by (simp_all add: volume_def R)
  moreover have "ext2_mount D (Some dev) dir flags s = Some (0, t)"
    using ext2_mount_split [OF dir(1) r sb] c(1) by (simp add: t u mode_all_types)
  moreover have "ext2_node t dir (i\<lparr>i_sb := Some ?b\<rparr>) ?b"
    using R(6) by (auto simp: ext2_node_def R(1) u M mount_sb_def upd_ext2_def upd_sb_def)
  ultimately show thesis using that [of t ?c] c(2,3) cache_put_ok [OF c(2)] by (simp add: cache_put_peek)
qed

end

section \<open>Images in a tmpfs\<close>

text \<open>A file of the tmpfs at \<open>tb\<close> without uninitialised bytes, and its bytes.\<close>

definition image_ok :: "iptr \<Rightarrow> sptr \<Rightarrow> fs \<Rightarrow> bool" where
  "image_ok dev tb s \<longleftrightarrow>
     (\<exists>i sb n. live_node s dev i tb sb n \<and> i_ops i Oread = Some Tmpfs \<and> i_ops i Owrite = Some Tmpfs \<and> \<not> i_lock i
        \<and> None \<notin> set (file_bytes n) \<and> unat (st_size (ti_st n)) < 2 ^ 31 - 1024
        \<and> 0 < unat (f_bavail (sb_st sb)) \<and> unat (f_bavail (sb_st sb)) < 2 ^ 31)"

definition image_bytes :: "iptr \<Rightarrow> fs \<Rightarrow> byte list" where
  "image_bytes dev s = map the (tfile_bytes dev s)"

lemma map_the_pread: "None \<notin> set xs \<Longrightarrow> map Some (pread (map the xs) off k) = pread xs off k"
proof -
  assume "None \<notin> set xs"
  then have "map Some (map the xs) = xs" by (induction xs) auto
  then show ?thesis by (metis drop_map take_map pread_def)
qed

lemma image_frame:
  assumes "image_ok dev tb s" "fs_inodes t dev = fs_inodes s dev" "fs_sbs t tb = fs_sbs s tb"
  shows "image_ok dev tb t" "image_bytes dev t = image_bytes dev s"
proof -
  have eq: "live_node t dev i tb sb n = live_node s dev i tb sb n" for i sb n
    using assms(2,3) by (auto simp: live_node_def tmpfs_sb_iff)
  with assms(1) show "image_ok dev tb t" by (simp add: image_ok_def)
  from assms(1) obtain i sb n where n: "live_node s dev i tb sb n" by (auto simp: image_ok_def)
  then have "live_node t dev i tb sb n" by (simp add: eq)
  with n show "image_bytes dev t = image_bytes dev s" by (simp add: image_bytes_def tfile_live(1))
qed

lemma image_small: "image_ok dev tb s \<Longrightarrow> length (image_bytes dev s) < 2 ^ 31"
  using tfile_live(3) by (fastforce simp: image_ok_def image_bytes_def)

lemma image_read:
  assumes ok: "image_ok dev tb s" and a: "a \<noteq> 0" "fs_chk s a (R_OK OR W_OK)" and sz: "sz \<noteq> 0"
    and le: "unat off + unat sz \<le> length (image_bytes dev s)"
  shows "vfs_read (fs_dispatch X k) dev a off sz s =
    Some ((int (unat sz), map Some (pread (image_bytes dev s) (unat off) (unat sz))), s)"
proof -
  from ok obtain i sb n where n: "live_node s dev i tb sb n" and i: "i_ops i Oread = Some Tmpfs" "\<not> i_lock i"
    and N: "None \<notin> set (file_bytes n)" and small: "unat (st_size (ti_st n)) < 2 ^ 31 - 1024" by (auto simp: image_ok_def)
  note T = tfile_live [OF n]
  have le': "unat off + unat sz \<le> unat (st_size (ti_st n))" using le T(3) by (simp add: image_bytes_def)
  have "tmpfs_read dev a off sz (ilocked dev s) =
      (let r = pread (file_bytes n) (unat off) (unat sz) in Some ((int (length r), r), ilocked dev s))"
    using le' small by (intro tmpfs_read_live [OF live_node_ilocked [OF n] a(1) sz]) (simp_all add: word_le_nat_alt)
  moreover have "length (pread (file_bytes n) (unat off) (unat sz)) = unat sz"
    using le' T(1,3) by (simp add: pread_def)
  ultimately have "tmpfs_read dev a off sz (ilocked dev s)
      = Some ((int (unat sz), pread (file_bytes n) (unat off) (unat sz)), ilocked dev s)" by (simp add: Let_def)
  from vfs_read_tmpfs [OF n i a(1) sz a(2) this] show ?thesis
    by (simp add: image_bytes_def T(1) map_the_pread [OF N])
qed

lemma image_write:
  assumes ok: "image_ok dev tb s" and a: "a \<noteq> 0" "fs_chk s a R_OK" and xs: "xs \<noteq> []"
    and le: "unat off + length xs \<le> length (image_bytes dev s)"
  shows "\<exists>t. vfs_write (fs_dispatch X k) dev (a, xs) off s = Some (int (length xs), t) \<and> image_ok dev tb t
    \<and> image_bytes dev t = pwrite (image_bytes dev s) (unat off) xs \<and> kept {tb} s t"
proof -
  from ok obtain i sb n where n: "live_node s dev i tb sb n"
    and i: "i_ops i Oread = Some Tmpfs" "i_ops i Owrite = Some Tmpfs" "\<not> i_lock i"
    and N: "None \<notin> set (file_bytes n)" and small: "unat (st_size (ti_st n)) < 2 ^ 31 - 1024"
    and av: "0 < unat (f_bavail (sb_st sb))" "unat (f_bavail (sb_st sb)) < 2 ^ 31" by (auto simp: image_ok_def)
  note T = tfile_live [OF n]
  have le': "unat off + length xs \<le> unat (st_size (ti_st n))" using le T(3) by (simp add: image_bytes_def)
  obtain m where m: "node_written n (unat off) xs m"
    "tmpfs_write dev (a, xs) off (ilocked dev s) = Some (int (length xs), fs_written (ilocked dev s) (i_ino i) tb sb 0 m)"
    using tmpfs_write_inside [OF live_node_ilocked [OF n] a(1) xs _ le'] le' small by auto
  let ?t = "fs_written s (i_ino i) tb sb 0 m"
  have w: "vfs_write (fs_dispatch X k) dev (a, xs) off s = Some (int (length xs), ?t)"
    using vfs_write_tmpfs [OF n i(2,3) _ _ _ m(2)] a xs by simp
  have M: "tnode_ok m" "file_bytes m = pwrite (file_bytes n) (unat off) (map Some xs)"
    "unat (st_size (ti_st m)) = unat (st_size (ti_st n))"
    using m(1) le' by (simp_all add: node_written_def max_absorb1)
  note n' = live_node_written [OF n M(1), of 0]
  have "None \<notin> set (file_bytes m)"
    using N by (auto simp: M(2) pwrite_def dest!: in_set_takeD in_set_dropD)
  moreover have "unat (f_bavail (take_space 0 (sb_st sb))) = unat (f_bavail (sb_st sb))"
    by (simp add: take_space_bavail av(1))
  ultimately have "image_ok dev tb ?t"
    using n' i small av unfolding image_ok_def by (intro exI conjI) (assumption | simp add: M(3))+
  moreover have "image_bytes dev ?t = pwrite (image_bytes dev s) (unat off) xs"
    using le' T(1,3) by (simp add: image_bytes_def tfile_live(1) [OF n'] T(1) M(2) pwrite_def take_map drop_map comp_def)
  moreover have "kept {tb} s ?t" by (auto simp: kept_def fs_written_def)
  ultimately show ?thesis using w by blast
qed

interpretation im: disk_device "fs_dispatch X k" dev "{tb}" "image_ok dev tb" "image_bytes dev" for X k dev tb
  by unfold_locales (rule image_read image_write image_small conjI image_frame; assumption?; simp)+

section \<open>Volumes on images\<close>

text \<open>A volume that is mounted from an image, and a file of it that is open in memory.\<close>

definition image_volume :: "fs \<Rightarrow> iptr \<Rightarrow> sptr \<Rightarrow> sptr \<Rightarrow> ext2_t \<Rightarrow> bool" where
  "image_volume s dev tb b e \<longleftrightarrow> image_ok dev tb s \<and> ext2_of b s = Some e \<and> b \<noteq> tb \<and> e2_dev e = dev
     \<and> e2_blocksize e \<in> {1024, 2048, 4096}
     \<and> fs_kstack s \<noteq> 0 \<and> fs_chk s (fs_kstack s) (R_OK OR W_OK) \<and> fs_chk s (fs_kstack s) R_OK"

lemma image_volume_iff: "im.volume dev tb s b e \<longleftrightarrow> image_volume s dev tb b e"
  by (simp add: im.volume_def image_volume_def)

definition image_file :: "fs \<Rightarrow> iptr \<Rightarrow> sptr \<Rightarrow> sptr \<Rightarrow> ext2_t \<Rightarrow> iptr \<Rightarrow> inode \<Rightarrow> ext2_inode \<Rightarrow> bool" where
  "image_file s dev tb b e p i n \<longleftrightarrow> image_volume s dev tb b e \<and> ext2_node s p i b \<and> p \<noteq> dev
     \<and> \<not> i_lock i \<and> i_ops i Oread = Some Ext2 \<and> i_ops i Owrite = Some Ext2
     \<and> inode_known e (image_bytes dev s) (i_ino i) n \<and> file_layout e (image_bytes dev s) n"

definition image_content :: "fs \<Rightarrow> iptr \<Rightarrow> ext2_t \<Rightarrow> ext2_inode \<Rightarrow> byte list" where
  "image_content s dev e n =
     ext2_content (image_bytes dev s) (unat (e2_blocksize e)) (en_block n) (unat (en_size n))"

text \<open>C15. Reading a file of an ext2 volume that is mounted from an image in a tmpfs: from any position inside
  the file, \<^verbatim>\<open>vfs_read\<close> returns the bytes that the block map of the ext2 format assigns to the file,
  up to its end, for every block size and every split of the range into parts of blocks, through
  direct and indirect blocks, with the inode in the cache or loaded from the disk; only the cache of
  inodes changes.\<close>

theorem ext2_read_image:
  assumes "image_file s dev tb b e p i n" "buf_ok s buf (unat len) (R_OK OR W_OK)" "len \<noteq> 0"
    "unat pos < unat (en_size n)" "unat pos + unat len < 2 ^ 32"
  shows "\<exists>c. vfs_read (fs_dispatch X (Suc k)) p buf pos len s =
      (let r = pread (image_content s dev e n) (unat pos) (unat len) in
       Some ((int (length r), map Some r), upd_ext2 b (\<lambda>e. e\<lparr>e2_icache := c\<rparr>) s))
    \<and> cache_ok c \<and> cache_peek c (i_ino i) = Some n"
  using assms im.vfs_read_ok [of "fs_dispatch X (Suc k)" X k s p i b dev tb e n buf len pos]
  by (simp add: image_file_def image_volume_iff image_content_def Let_def)


text \<open>C17. Mounting an image that starts with a super block the driver accepts, and whose root directory has an
  inode on the disk, succeeds: the new super block describes the volume that the image holds, the
  directory refers to it, the inode of the root directory is in the cache, and the image is left as
  it was. (The type bits of the root inode in the cache are all set.)\<close>

theorem ext2_mount_image:
  assumes "image_ok dev tb s" "fs_kstack s \<noteq> 0" "fs_chk s (fs_kstack s) (R_OK OR W_OK)" "fs_chk s (fs_kstack s) R_OK"
    and "fs_inodes s dir = Some i" "dir \<noteq> dev" "fs_next s \<noteq> tb" "2048 \<le> length (image_bytes dev s)"
    and "super_block_of (map Some (pread (image_bytes dev s) 1024 1024)) = Some sb" "mountable sb"
    and "inode_on_disk (ext2_params sb dev dir) (image_bytes dev s) EXT2_ROOT_INO"
      "ext2_disk_inode (ext2_params sb dev dir) (image_bytes dev s) EXT2_ROOT_INO = Some n"
  shows "\<exists>t c. fs_mounts (fs_dispatch X k) Ext2 (Some dev) dir flags s = Some (0, t)
    \<and> image_volume t dev tb (fs_next s) ((ext2_params sb dev dir)\<lparr>e2_icache := c\<rparr>)
    \<and> image_bytes dev t = image_bytes dev s \<and> ext2_node t dir (i\<lparr>i_sb := Some (fs_next s)\<rparr>) (fs_next s)
    \<and> inode_known ((ext2_params sb dev dir)\<lparr>e2_icache := c\<rparr>) (image_bytes dev t) EXT2_ROOT_INO
        (n\<lparr>en_mode := en_mode n OR ucast S_IFMT\<rparr>)"
proof -
  obtain t c where "ext2_mount (fs_dispatch X k) (Some dev) dir flags s = Some (0, t)"
    "image_volume t dev tb (fs_next s) ((ext2_params sb dev dir)\<lparr>e2_icache := c\<rparr>)" "image_bytes dev t = image_bytes dev s"
    "cache_ok c" "cache_peek c EXT2_ROOT_INO = Some (n\<lparr>en_mode := en_mode n OR ucast S_IFMT\<rparr>)"
    "ext2_node t dir (i\<lparr>i_sb := Some (fs_next s)\<rparr>) (fs_next s)"
    using im.mount_ok [of dev tb s dir i sb n X k flags] assms by (auto simp: image_volume_iff)
  then show ?thesis by (intro exI [of _ t] exI [of _ c]) (simp add: fs_mounts_def inode_known_def)
qed

section \<open>Where the driver goes wrong\<close>

text \<open>
  Behind the blocks of the indirect block the driver indexes the second level with the number of the
  block it has just read, not with the number it was asked for: all blocks that share an entry of the
  doubly indirect block are taken to be the same one.
\<close>

context disk_device
begin

lemma double_block:
  assumes v: "volume s b e" and w: "w = unat (e2_blocksize e) div 4" and len: "length blocks = 15"
    and k: "unat k = 12 + w + i" "i < w * w" and d1: "disk_block e (disk s) (blocks ! 13)"
  defines "p \<equiv> pointer_at (disk s) (unat (e2_blocksize e)) (blocks ! 13) (i div w)"
  assumes d2: "disk_block e (disk s) p"
  shows "inode_data_block D b blocks k s = Some (pointer_at (disk s) (unat (e2_blocksize e)) p (unat p mod w), s)"
proof -
  note V = volume_sizes [OF v]
  define W where W: "W = e2_blocksize e div 4"
  define j where j: "j = k - EXT2_NDIR_BLOCKS - W"
  have uw: "unat W = w" using V(4) w by (simp add: W)
  have w0: "0 < w" "w \<le> 1024" using V(1) w by auto
  have "w * w \<le> 1024 * 1024" using w0(2) by (intro mult_le_mono)
  then have ww: "unat (W * W) = w * w" by (subst unat_word_ariths) (simp add: uw)
  have k1: "unat (k - EXT2_NDIR_BLOCKS) = w + i"
    using k(1) by (simp add: unat_sub word_le_nat_alt EXT2_NDIR_BLOCKS_def)
  then have k2: "unat j = i" using uw by (simp add: j unat_sub word_le_nat_alt)
  have lt: "\<not> k < EXT2_NDIR_BLOCKS" "\<not> k - EXT2_NDIR_BLOCKS < W" "j < W * W"
    using k k1 k2 uw ww by (simp_all add: word_less_nat_alt EXT2_NDIR_BLOCKS_def)
  have q: "unat (j div W) = i div w" "unat (p mod W) = unat p mod w" by (simp_all only: unat_div unat_mod_word k2 uw)
  have "i div w < w" "unat p mod w < w" using k(2) w0 by (simp_all add: less_mult_imp_div_less)
  then have "read_pointer D b (blocks ! 13) (j div W) s = Some (p, s)"
    "read_pointer D b p (p mod W) s = Some (pointer_at (disk s) (unat (e2_blocksize e)) p (unat p mod w), s)"
    using read_pointer_ok [OF v d1, of "j div W"] read_pointer_ok [OF v d2, of "p mod W"]
    by (simp_all add: q p_def [symmetric] w [symmetric])
  then show ?thesis
    using lt len v by (simp add: inode_data_block_def volume_def Let_def EXT2_DIND_BLOCK_def W [symmetric] j [symmetric])
qed

end

text \<open>Reading at the end of a file of an ext2 volume, as every program does that reads a file to its end,
  does not come back unless the size of the file is a multiple of the block size: the length is
  clipped to zero, and the driver asserts that it reads at least one byte of the last block.\<close>

lemma ext2_read_end_stuck:
  assumes f: "image_file s dev tb b e p i n" and a: "buf \<noteq> 0" "fs_chk s buf (R_OK OR W_OK)" "len \<noteq> 0"
    and z: "en_size n mod e2_blocksize e \<noteq> 0" "unat (en_size n) + unat len < 2 ^ 32"
  shows "vfs_read (fs_dispatch X (Suc k)) p buf (en_size n) len s = None"
proof -
  have I: "image_volume s dev tb b e" "ext2_node s p i b" "p \<noteq> dev" "\<not> i_lock i" "i_ops i Oread = Some Ext2"
    "inode_known e (image_bytes dev s) (i_ino i) n" using f by (simp_all add: image_file_def)
  have P: "fs_inodes s p = Some i" using I(2) by (simp add: ext2_node_def)
  have v: "im.volume dev tb (ilocked p s) b e" using im.volume_ilocked I(1,3) by (simp add: image_volume_iff)
  have "image_bytes dev (ilocked p s) = image_bytes dev s"
    using im.ilocked_ok(2) [of dev tb s p] I(1,3) by (simp add: image_volume_def)
  with im.get_ok [OF v, of "i_ino i" n X k] I(6) obtain c where
    c: "ext2_get (fs_dispatch X k) b (i_ino i) (ilocked p s) = Some (n, upd_ext2 b (\<lambda>e. e\<lparr>e2_icache := c\<rparr>) (ilocked p s))"
    by auto
  have "en_size n < en_size n + len" using z(2) a(3) by (simp add: word_less_nat_alt unat_add_small unat_gt_0)
  then have "ext2_read (fs_dispatch X k) p buf (en_size n) len (ilocked p s) = None"
    using ext2_sb_node [OF ext2_node_ilocked [OF I(2)]] I(1) a z(1)
    by (auto simp: ext2_read_def image_volume_def c Let_def ext2_read_at_def ext2_utils_read_inode_data_def word_gt_0)
  then have "with_ilock p (ext2_read (fs_dispatch X k) p buf (en_size n) len) s = None"
    using P I(4) by (simp add: with_ilock_free)
  with P I(5) a show ?thesis by (simp add: vfs_read_def vfs_call_some ext2_ops_def)
qed

section \<open>An image\<close>

text \<open>
  A volume of six blocks of 1024 bytes: the boot block, the super block, the descriptor of the only group,
  the table of eight inodes, an empty directory and a file of 1000 bytes.
\<close>

definition demo_super :: "byte list" where
  "demo_super =
     bytes32 8 @ bytes32 6 @ bytes32 0 @ bytes32 0 @ bytes32 0 @ bytes32 1 @ bytes32 0 @ bytes32 0 @ bytes32 8192
     @ bytes32 0 @ bytes32 8 @ replicate 12 0 @ bytes16 0xEF53 @ replicate 18 0 @ bytes32 1 @ replicate 8 0
     @ bytes16 128 @ replicate 6 0 @ bytes32 0"

definition demo_super_block :: ext2_super_block where
  "demo_super_block =
     \<lparr>s_inodes_count = 8, s_blocks_count = 6, s_free_blocks_count = 0, s_free_inodes_count = 0,
      s_first_data_block = 1, s_log_block_size = 0, s_log_frag_size = 0, s_blocks_per_group = 8192,
      s_inodes_per_group = 8, s_magic = 0xEF53, s_rev_level = 1, s_inode_size = 128, s_feature_incompat = 0\<rparr>"

definition demo_group :: "byte list" where
  "demo_group = bytes32 2 @ bytes32 2 @ bytes32 3 @ replicate 20 0"

definition demo_inode :: "u16 \<Rightarrow> u32 \<Rightarrow> u32 \<Rightarrow> byte list" where
  "demo_inode mode sz block =
     bytes16 mode @ bytes16 0 @ bytes32 sz @ replicate 32 0 @ bytes32 block @ replicate 84 0"

definition demo_disk_inode :: "u16 \<Rightarrow> u32 \<Rightarrow> u32 \<Rightarrow> ext2_inode" where
  "demo_disk_inode mode sz block =
     \<lparr>en_mode = mode, en_uid = 0, en_size = sz, en_atime = 0, en_ctime = 0, en_mtime = 0, en_gid = 0,
      en_links_count = 0, en_blocks = 0, en_block = block # replicate 14 0, en_size_high = 0\<rparr>"

definition demo_image :: "byte list" where
  "demo_image = replicate 1024 0 @ (demo_super @ replicate 924 0) @ (demo_group @ replicate 992 0)
     @ (replicate 128 0 @ demo_inode 0x41FF 0 0 @ demo_inode 0x81FF 1000 5 @ replicate 640 0)
     @ replicate 1024 0 @ replicate 1024 7"

lemma mem16_append: "i + 2 \<le> length xs \<Longrightarrow> mem16 (xs @ ys) i = mem16 xs i"
  "length xs \<le> i \<Longrightarrow> mem16 (xs @ ys) i = mem16 ys (i - length xs)"
  by (simp_all add: mem16_def mem8_append Suc_diff_le)

lemma mem32_append: "i + 4 \<le> length xs \<Longrightarrow> mem32 (xs @ ys) i = mem32 xs i"
  "length xs \<le> i \<Longrightarrow> mem32 (xs @ ys) i = mem32 ys (i - length xs)"
  by (simp_all add: mem32_def mem16_append Suc_diff_le)

lemma mem16_bytes_only: "mem16 (map Some (bytes16 x)) 0 = Some x"
  using mem16_bytes [of x "[]"] by (simp del: mem16_bytes)

lemma mem32_bytes_only: "mem32 (map Some (bytes32 x)) 0 = Some x"
  using mem32_bytes [of x "[]"] by (simp del: mem32_bytes)

lemma mem_zeros: "i + 2 \<le> n \<Longrightarrow> mem16 (replicate n (Some 0)) i = Some 0"
  "i + 4 \<le> n \<Longrightarrow> mem32 (replicate n (Some 0)) i = Some 0"
  by (simp_all add: mem32_def mem16_def mem8_nth)

lemmas mem_eval = mem16_append mem32_append mem16_bytes_only mem32_bytes_only mem_zeros

lemma demo_lengths [simp]: "length demo_super = 100" "length demo_group = 32" "length (demo_inode m z k) = 128"
  "length demo_image = 6144"
  by (simp_all add: demo_super_def demo_group_def demo_inode_def demo_image_def)

lemma demo_super_read: "super_block_of (map Some (demo_super @ replicate 924 0)) = Some demo_super_block"
  by (simp add: super_block_of_def demo_super_def mem_eval demo_super_block_def)

lemma demo_group_read: "map_option bg_inode_table (group_desc_of (map Some demo_group)) = Some 3"
  by (simp add: group_desc_of_def demo_group_def mem_eval)

lemma mem32s_numeral:
  "mem32s xs i (numeral v) = do { w \<leftarrow> mem32 xs i; ws \<leftarrow> mem32s xs (i + 4) (pred_numeral v); Some (w # ws) }"
  by (simp add: numeral_eq_Suc)

lemma replicate_numeral: "replicate (numeral v) x = x # replicate (pred_numeral v) x"
  by (simp add: numeral_eq_Suc)

lemma demo_inode_read: "inode_of (map Some (demo_inode m z k)) = Some (demo_disk_inode m z k)"
  by (simp add: inode_of_def demo_inode_def mem_eval demo_disk_inode_def mem32s_numeral replicate_numeral [of _ "0 :: u32"])

lemma demo_image_read:
  "pread demo_image 1024 1024 = demo_super @ replicate 924 0" "pread demo_image 2048 32 = demo_group"
  "pread demo_image 3200 128 = demo_inode 0x41FF 0 0" "pread demo_image 3328 128 = demo_inode 0x81FF 1000 5"
  by (simp_all add: pread_def demo_image_def)

text \<open>The image in a file of a tmpfs, and a directory to mount it on.\<close>

definition image_node :: tmpfs_inode where
  "image_node = \<lparr>ti_st = (ti_st (demo_node 2 S_IFREG))\<lparr>st_size := 6144\<rparr>, ti_capacity = 6144,
     ti_data = TData (map Some demo_image)\<rparr>"

definition image_sb :: superblock where
  "image_sb = demo_sb\<lparr>sb_cache := cache_put 2 image_node (sb_cache demo_sb)\<rparr>"

definition image_dir :: inode where
  "image_dir = \<lparr>i_name = ''mnt'', i_ino = 9, i_sb = None, i_ops = (\<lambda>_. None), i_parent = Some 0, i_lock = False\<rparr>"

definition fs_image :: fs where
  "fs_image = fs_demo\<lparr>fs_inodes := [0 \<mapsto> demo_root, 2 \<mapsto> demo_file, 3 \<mapsto> image_dir],
     fs_sbs := [1 \<mapsto> image_sb], fs_next := 4\<rparr>"

lemma image_live: "live_node fs_image 2 demo_file 1 image_sb image_node"
proof -
  note L = live_nodeD [OF demo_live]
  have "i_ino demo_file = 2" by (simp add: demo_file_def)
  with L cache_put_ok [OF L(5), of 2 image_node] show ?thesis
    by (simp add: live_node_def tmpfs_sb_iff fs_image_def image_sb_def cache_put_peek tnode_ok_def image_node_def)
qed

lemma image_state: "image_ok 2 1 fs_image" "image_bytes 2 fs_image = demo_image"
proof -
  have b: "file_bytes image_node = map Some demo_image" by (simp add: file_bytes_def image_node_def)
  then show "image_bytes 2 fs_image = demo_image" by (simp add: image_bytes_def tfile_live(1) [OF image_live] comp_def)
  have "i_ops demo_file Oread = Some Tmpfs" "i_ops demo_file Owrite = Some Tmpfs" "\<not> i_lock demo_file"
    by (simp_all add: demo_file_def ops_of_def tmpfs_vops_def mode_defs)
  moreover have "unat (st_size (ti_st image_node)) = 6144" "f_bavail (sb_st image_sb) = TMPFS_SIZE_MAX"
    by (simp_all add: image_node_def image_sb_def demo_sb_def)
  ultimately show "image_ok 2 1 fs_image"
    using image_live b unfolding image_ok_def
    by (intro exI [of _ demo_file] exI [of _ image_sb] exI [of _ image_node]) (auto simp: TMPFS_SIZE_MAX_def)
qed

abbreviation demo_params :: ext2_t where
  "demo_params \<equiv> ext2_params demo_super_block 2 3"

lemma demo_params_sel [simp]:
  "e2_sb demo_params = demo_super_block" "e2_first_block_group demo_params = 2" "e2_blocksize demo_params = 1024"
  "e2_inodesize demo_params = 128" "e2_dev demo_params = 2"
  "cache_ok (e2_icache demo_params)" "cache_peek (e2_icache demo_params) = Map.empty" "cache_room (e2_icache demo_params)"
  by (simp_all add: ext2_params_def demo_super_block_def Let_def cache_ok_def cache_peek_def cache_room_def word_gt_0)

lemma demo_super_sel [simp]:
  "s_inodes_per_group demo_super_block = 8" "s_inodes_count demo_super_block = 8" "s_blocks_count demo_super_block = 6"
  by (simp_all add: demo_super_block_def)

lemma demo_on_disk:
  "inode_on_disk demo_params demo_image 2" "ext2_disk_inode demo_params demo_image 2 = Some (demo_disk_inode 0x41FF 0 0)"
  "inode_on_disk demo_params demo_image 3" "ext2_disk_inode demo_params demo_image 3 = Some (demo_disk_inode 0x81FF 1000 5)"
proof -
  obtain d where d: "group_desc_of (map Some demo_group) = Some d" "bg_inode_table d = 3"
    using demo_group_read by auto
  show "inode_on_disk demo_params demo_image 2" "ext2_disk_inode demo_params demo_image 2 = Some (demo_disk_inode 0x41FF 0 0)"
    "inode_on_disk demo_params demo_image 3" "ext2_disk_inode demo_params demo_image 3 = Some (demo_disk_inode 0x81FF 1000 5)"
    by (simp_all add: inode_on_disk_def ext2_disk_inode_def demo_image_read d demo_inode_read block_in_range_def)
qed

theorem ext2_mount_image_witness:
  "\<exists>t c. fs_mounts (fs_dispatch (\<lambda>_. no_ops) 0) Ext2 (Some 2) 3 0 fs_image = Some (0, t)
    \<and> image_volume t 2 1 4 (demo_params\<lparr>e2_icache := c\<rparr>)"
proof -
  have "fs_kstack fs_image = 0x1000" "fs_chk fs_image = (\<lambda>_ _. True)" "fs_inodes fs_image 3 = Some image_dir"
    "fs_next fs_image = 4" by (simp_all add: fs_image_def fs_demo_def)
  moreover have "mountable demo_super_block"
    by (simp add: mountable_def demo_super_block_def EXT2_SIGNATURE_def)
  ultimately show ?thesis
    using ext2_mount_image [OF image_state(1), of 3 image_dir demo_super_block "demo_disk_inode 0x41FF 0 0"
        "\<lambda>_. no_ops" 0 0] demo_on_disk(1,2) demo_super_read
    by (auto simp: image_state(2) demo_image_read EXT2_ROOT_INO_def)
qed

text \<open>The volume in use, with its file open in memory.\<close>

definition ext2_file :: inode where
  "ext2_file = \<lparr>i_name = ''f'', i_ino = 3, i_sb = Some 4, i_ops = ops_of Ext2 (ext2_vops S_IFREG),
     i_parent = Some 3, i_lock = False\<rparr>"

definition fs_mounted :: fs where
  "fs_mounted = fs_image\<lparr>fs_inodes := (fs_inodes fs_image)(5 \<mapsto> ext2_file),
     fs_sbs := (fs_sbs fs_image)(4 \<mapsto> mount_sb demo_super_block 2 3 0)\<rparr>"

lemma demo_content:
  "ext2_content demo_image 1024 (en_block (demo_disk_inode m 1000 5)) 1000 = replicate 1000 7"
proof (rule nth_equalityI)
  fix j assume "j < length (ext2_content demo_image 1024 (en_block (demo_disk_inode m 1000 5)) 1000)"
  then have j: "j < 1000" by simp
  then have "demo_image ! (5120 + j) = 7" by (simp add: demo_image_def nth_append)
  then show "ext2_content demo_image 1024 (en_block (demo_disk_inode m 1000 5)) 1000 ! j = replicate 1000 7 ! j"
    using j by (simp add: ext2_content_def ext2_bmap_simps demo_disk_inode_def)
qed simp

lemma mounted_file:
  "image_file fs_mounted 2 1 4 demo_params 5 ext2_file (demo_disk_inode 0x81FF 1000 5)"
  "file_separate demo_params (image_bytes 2 fs_mounted) (demo_disk_inode 0x81FF 1000 5)"
  "image_content fs_mounted 2 demo_params (demo_disk_inode 0x81FF 1000 5) = replicate 1000 7"
  "fs_chk fs_mounted = (\<lambda>_ _. True)"
proof -
  let ?n = "demo_disk_inode 0x81FF 1000 5"
  have S: "fs_kstack fs_mounted = 0x1000" "fs_sbs fs_mounted 4 = Some (mount_sb demo_super_block 2 3 0)"
    "fs_inodes fs_mounted 5 = Some ext2_file"
    by (simp_all add: fs_mounted_def fs_image_def fs_demo_def)
  show C: "fs_chk fs_mounted = (\<lambda>_ _. True)" by (simp add: fs_mounted_def fs_image_def fs_demo_def)
  have im: "image_ok 2 1 fs_mounted" and b: "image_bytes 2 fs_mounted = demo_image"
    using image_frame [OF image_state(1), of fs_mounted] by (simp_all add: fs_mounted_def image_state(2))
  have "ext2_of 4 fs_mounted = Some demo_params" by (simp add: ext2_of_def S mount_sb_def)
  then have "image_volume fs_mounted 2 1 4 demo_params" using im S C by (simp add: image_volume_def)
  moreover have "ext2_node fs_mounted 5 ext2_file 4" by (simp add: ext2_node_def S ext2_file_def mount_sb_def)
  moreover have "i_ino ext2_file = 3" "\<not> i_lock ext2_file" "i_ops ext2_file Oread = Some Ext2"
    "i_ops ext2_file Owrite = Some Ext2"
    by (simp_all add: ext2_file_def ops_of_def ext2_vops_def mode_defs)
  moreover have fb: "file_blocks demo_params ?n = 1" by (simp add: file_blocks_def demo_disk_inode_def)
  then have "file_layout demo_params demo_image ?n"
    by (simp add: file_layout_def ext2_bmap_simps disk_block_def block_in_range_def) (simp add: demo_disk_inode_def)
  ultimately show "image_file fs_mounted 2 1 4 demo_params 5 ext2_file ?n"
    using demo_on_disk(3,4) by (simp add: image_file_def b inode_known_def)
  show "file_separate demo_params (image_bytes 2 fs_mounted) ?n"
    by (simp add: file_separate_def fb b ext2_bmap_simps) (simp add: demo_disk_inode_def lessThan_Suc)
  show "image_content fs_mounted 2 demo_params ?n = replicate 1000 7"
    using demo_content [of "0x81FF"] by (simp add: image_content_def b demo_disk_inode_def)
qed

lemma small_buf: "n \<le> 4096 \<Longrightarrow> fs_chk s = (\<lambda>_ _. True) \<Longrightarrow> buf_ok s 0x2000 n m"
proof -
  assume n: "n \<le> 4096" and "fs_chk s = (\<lambda>_ _. True)"
  moreover have "(0x2000 :: u32) + of_nat j \<noteq> 0" if "j < n" for j
  proof -
    have "unat (0x2000 + of_nat j :: u32) = 0x2000 + j" using that n by (simp add: unat_add_small unat_of_nat)
    then show ?thesis by (metis add_eq_0_iff_both_eq_0 unat_0 zero_neq_numeral)
  qed
  ultimately show ?thesis by (simp add: buf_ok_def)
qed

theorem ext2_read_image_witness:
  "\<exists>t. vfs_read (fs_dispatch (\<lambda>_. no_ops) 1) 5 0x2000 997 8 fs_mounted = Some ((3, [Some 7, Some 7, Some 7]), t)"
proof -
  have z: "en_size (demo_disk_inode 0x81FF 1000 5) = 1000" by (simp add: demo_disk_inode_def)
  have "pread (replicate 1000 (7 :: byte)) 997 8 = [7, 7, 7]" by (simp add: pread_def numeral_3_eq_3)
  with ext2_read_image [OF mounted_file(1) small_buf [OF _ mounted_file(4)], where len = 8 and pos = 997 and
      X = "\<lambda>_. no_ops" and k = 0] show ?thesis
    by (auto simp: mounted_file(3) z Let_def)
qed


lemma ext2_read_end_stuck_demo:
  "vfs_read (fs_dispatch (\<lambda>_. no_ops) 1) 5 0x2000 1000 8 fs_mounted = None"
proof -
  have z: "en_size (demo_disk_inode 0x81FF 1000 5) = 1000" by (simp add: demo_disk_inode_def)
  show ?thesis
    using ext2_read_end_stuck [OF mounted_file(1), where buf = "0x2000" and len = 8 and X = "\<lambda>_. no_ops" and k = 0]
    by (simp add: mounted_file(4) z)
qed

end
