(* ===== verification/Paths.thy ===== *)
theory Paths
  imports Fsys
begin

text \<open>
  Names and descriptors: what path resolution returns and when it does not return, how names appear and
  disappear in a directory through the virtual file system and its directory cache, bind mounts, and
  the allocation of descriptors and the permission check of \<^verbatim>\<open>open\<close>.
\<close>

section \<open>Path resolution\<close>

text \<open>
  One step of the specification: the directory \<open>p\<close> has the entry \<open>q\<close> under a name, and \<open>q\<close> is not a
  symbolic link. Looking names up leaves the state as it is once they are in the directory cache.
\<close>

definition step_to :: "dispatch \<Rightarrow> fs \<Rightarrow> iptr \<Rightarrow> string \<Rightarrow> iptr \<Rightarrow> bool" where
  "step_to D s p nm q \<longleftrightarrow>
     fs_inodes s p \<noteq> None \<and> vfs_finddir D p (fs_kstack s, nm) s = Some (Some q, s)
     \<and> (\<exists>st. vfs_getattr D q (fs_kstack s) s = Some ((0, Some st), s) \<and> \<not> S_ISLNK (st_mode st))"

fun walk :: "dispatch \<Rightarrow> fs \<Rightarrow> iptr \<Rightarrow> string list \<Rightarrow> iptr \<Rightarrow> bool" where
  "walk D s p [] q \<longleftrightarrow> p = q"
| "walk D s p (nm # nms) q \<longleftrightarrow> (\<exists>r. step_to D s p nm r \<and> walk D s r nms q)"

definition proper_name :: "string \<Rightarrow> bool" where
  "proper_name nm \<longleftrightarrow> nm \<noteq> [] \<and> slash \<notin> set nm"

text \<open>The absolute path of a list of names: each one after a slash.\<close>

definition abs_path :: "string list \<Rightarrow> string" where
  "abs_path nms = concat (map (\<lambda>nm. slash # nm) nms)"

lemma abs_path_simps [simp]: "abs_path [] = []" "abs_path (nm # nms) = slash # nm @ abs_path nms"
  by (simp_all add: abs_path_def)

lemma path_find_step:
  assumes "step_to D s p nm q" "proper_name nm"
  shows "path_find D link p (nm @ rest) (length nm) s = Some (Some q, s)"
  using assms by (auto simp: step_to_def proper_name_def path_find_def valid_inode_def)

lemma strcspn_name: "slash \<notin> set nm \<Longrightarrow> strcspn (nm @ slash # rest) = length nm"
  by (induction nm) (auto simp: strcspn_def)

lemma path_walk_abs:
  assumes "walk D s p (nm # nms) q" "proper_name nm" "\<forall>x \<in> set nms. proper_name x"
  shows "\<exists>r l a'. path_walk D link (Some p) (a, nm @ abs_path nms) s = Some ((Some r, (a', l)), s)
    \<and> proper_name l \<and> step_to D s r l q"
  using assms
proof (induction nms arbitrary: p nm a)
  case Nil
  then have "slash \<notin> set nm" by (simp add: proper_name_def)
  with Nil show ?case by (simp add: path_walk.simps)
next
  case (Cons y ys)
  then obtain r where r: "step_to D s p nm r" "walk D s r (y # ys) q" by auto
  have c: "strcspn (nm @ slash # y @ abs_path ys) = length nm"
    using Cons.prems(2) by (simp add: strcspn_name proper_name_def)
  have "path_walk D link (Some p) (a, nm @ abs_path (y # ys)) s =
      path_walk D link (Some r) (a + of_nat (length nm + 1), y @ abs_path ys) s"
    using path_find_step [OF r(1) Cons.prems(2), of link "slash # y @ abs_path ys"] c
    by (subst path_walk.simps) (simp add: path_next_def)
  with Cons.IH [OF r(2)] Cons.prems(3) show ?case by simp
qed

text \<open>Path resolution follows the names: looking up an absolute path whose names lead, one directory
  entry after the other, from the root of the task to an inode returns this inode and changes
  nothing, unless exclusive creation was asked for.\<close>

lemma path_lookup_resolves:
  assumes "walk D s (t_root (fs_task s)) nms q" "nms \<noteq> []" "\<forall>nm \<in> set nms. proper_name nm"
    "\<not> (has flags O_EXCL \<and> has flags O_CREAT)"
  shows "path_lookup D (Suc n) cwd (a, abs_path nms) flags mode s = Some (Some q, s)"
proof -
  obtain nm rest where nms: "nms = nm # rest" using assms(2) by (cases nms) auto
  obtain r l a' where "path_walk D (path_symlink D (path_lookup D n)) (Some (t_root (fs_task s)))
      (a + 1, nm @ abs_path rest) s = Some ((Some r, (a', l)), s)"
    and l: "proper_name l" "step_to D s r l q"
    using path_walk_abs [of D s "t_root (fs_task s)" nm rest q] assms(1,3) unfolding nms by fastforce
  moreover have "l \<noteq> []" using l(1) by (simp add: proper_name_def)
  ultimately show ?thesis
    using path_find_step [OF l(2,1), of "path_symlink D (path_lookup D n)" "[]"] assms(4)
    by (auto simp: nms)
qed

abbreviation demo_D :: dispatch where
  "demo_D \<equiv> fs_dispatch (\<lambda>_. no_ops) 1"

lemma demo_step: "step_to demo_D fs_demo 0 ''a'' 2"
proof -
  have "vfs_getattr demo_D 2 0x1000 fs_demo = Some ((0, Some (ti_st (demo_node 2 S_IFREG))), fs_demo)"
    by (rule vfs_getattr_tmpfs [OF demo_live])
      (simp_all add: demo_file_def ops_of_def tmpfs_vops_def demo_sel)
  moreover have "\<not> S_ISLNK (st_mode (ti_st (demo_node 2 S_IFREG)))"
    by (simp add: demo_node_def mode_defs)
  ultimately show ?thesis
    by (simp add: step_to_def demo_sel vfs_finddir_def vfs_dcache_find_def fs_demo_def demo_file_def
        name_eq_def MAXNAMLEN_def is_dot_def is_dotdot_def)
qed

lemma path_lookup_resolves_demo:
  "path_lookup demo_D 1 None (0x2000, ''/a'') O_RDONLY 0 fs_demo = Some (Some 2, fs_demo)"
proof -
  have "walk demo_D fs_demo (t_root (fs_task fs_demo)) [''a''] 2"
    using demo_step by (simp add: fs_demo_def demo_task_def)
  from path_lookup_resolves [where n = 0 and cwd = None and a = "0x2000" and flags = O_RDONLY and mode = 0,
      OF this] show ?thesis
    by (simp add: proper_name_def O_RDONLY_def del: path_lookup.simps)
qed

text \<open>Symbolic links are followed without a bound: when a link in a directory names itself, looking it
  up does not return, whatever the depth of the recursion.\<close>

lemma path_lookup_link_loop:
  assumes "fs_inodes s p \<noteq> None" "vfs_finddir D p (fs_kstack s, nm) s = Some (Some q, s)"
    "vfs_getattr D q (fs_kstack s) s = Some ((0, Some st), s)" "S_ISLNK (st_mode st)" "st_size st \<noteq> 0"
    "fs_inodes s q = Some j" "i_parent j = Some p" "proper_name nm" "r > 0"
    "vfs_readlink D q (fs_kstack s) (st_size st) s = Some ((r, bs), s)" "cstring bs = Some nm"
  shows "path_lookup D n (Some p) (a, nm) flags mode s = None"
proof (induction n arbitrary: a flags mode)
  case (Suc n)
  have "hd nm \<noteq> slash" "slash \<notin> set nm" "nm \<noteq> []"
    using assms(8) by (auto simp: proper_name_def dest: hd_in_set)
  moreover have "path_find D (path_symlink D (path_lookup D n)) p nm (length nm) s = None"
    using assms \<open>nm \<noteq> []\<close> Suc by (simp add: path_find_def path_symlink_def valid_inode_def)
  ultimately show ?case by (simp add: path_walk.simps)
qed simp


lemma vfs_readlink_tmpfs:
  assumes "live_node s p i b sb n" "i_ops i Oreadlink = Some Tmpfs" "\<not> i_lock i"
    "buf \<noteq> 0" "len \<noteq> 0" "ptr_check s buf (R_OK OR W_OK)"
    and "tmpfs_readlink p buf len (ilocked p s) = Some (r, ilocked p s)"
  shows "vfs_readlink (fs_dispatch X k) p buf len s = Some (r, s)"
proof -
  note L = live_nodeD [OF assms(1)]
  have "with_ilock p (tmpfs_readlink p buf len) s = Some (r, s)"
    by (rule with_ilock_same [OF L(7) assms(3)]) (rule assms(7))
  with L assms show ?thesis by (simp add: vfs_readlink_def vfs_call_some tmpfs_ops_def)
qed

text \<open>The example file system with a link \<^verbatim>\<open>l\<close> to \<^verbatim>\<open>l\<close> in its root directory.\<close>

definition loop_node :: tmpfs_inode where
  "loop_node = \<lparr>ti_st = (ti_st (demo_node 3 S_IFLNK))\<lparr>st_size := 2\<rparr>, ti_capacity = 2,
     ti_data = TData (map Some [108, 0])\<rparr>"

definition loop_link :: inode where
  "loop_link = demo_file\<lparr>i_name := ''l'', i_ino := 3, i_ops := ops_of Tmpfs (tmpfs_vops S_IFLNK)\<rparr>"

definition loop_sb :: superblock where
  "loop_sb = demo_sb\<lparr>sb_info := TmpfsInfo [2, 3], sb_cache := \<lparr>c_capacity = TMPFS_NODES_MAX, c_count = 3,
     c_items = [(1, demo_node 1 S_IFMT), (2, demo_node 2 S_IFREG), (3, loop_node)], c_lock = False\<rparr>\<rparr>"

definition fs_loop :: fs where
  "fs_loop = fs_demo\<lparr>fs_inodes := [0 \<mapsto> demo_root, 2 \<mapsto> demo_file, 3 \<mapsto> loop_link],
     fs_sbs := [1 \<mapsto> loop_sb], fs_next := 4, fs_dcache := [2, 3]\<rparr>"

lemma loop_live: "live_node fs_loop 3 loop_link 1 loop_sb loop_node"
  by (simp add: live_node_def tmpfs_sb_iff cache_ok_def cache_peek_def tnode_ok_def fs_loop_def loop_link_def
      loop_sb_def loop_node_def demo_sb_def demo_file_def TMPFS_NODES_MAX_def)

lemma loop_sel:
  "fs_chk fs_loop = (\<lambda>_ _. True)" "fs_kstack fs_loop = 0x1000" "\<not> i_lock loop_link"
  "i_ops loop_link Ogetattr = Some Tmpfs" "i_ops loop_link Oreadlink = Some Tmpfs"
  by (simp_all add: fs_loop_def fs_demo_def loop_link_def demo_file_def ops_of_def tmpfs_vops_def mode_defs)

lemma path_lookup_link_loop_demo:
  "path_lookup demo_D 1000 (Some 0) (0x2000, ''l'') O_RDONLY 0 fs_loop = None"
proof (rule path_lookup_link_loop [where q = 3 and st = "ti_st loop_node" and j = loop_link and r = 2
      and bs = "map Some [108, 0]"])
  show "vfs_getattr demo_D 3 (fs_kstack fs_loop) fs_loop = Some ((0, Some (ti_st loop_node)), fs_loop)"
    by (rule vfs_getattr_tmpfs [OF loop_live]) (simp_all add: loop_sel)
  have "tmpfs_readlink 3 0x1000 2 (ilocked 3 fs_loop) = Some ((int (length [108, 0 :: byte]), map Some [108, 0]), ilocked 3 fs_loop)"
    by (rule tmpfs_readlink_live [OF live_node_ilocked [OF loop_live]]) (simp_all add: loop_node_def)
  then have "vfs_readlink demo_D 3 0x1000 2 fs_loop = Some ((2, map Some [108, 0]), fs_loop)"
    by (intro vfs_readlink_tmpfs [OF loop_live]) (simp_all add: loop_sel)
  then show "vfs_readlink demo_D 3 (fs_kstack fs_loop) (st_size (ti_st loop_node)) fs_loop
      = Some ((2, map Some [108, 0]), fs_loop)" by (simp add: loop_sel loop_node_def)
  show "vfs_finddir demo_D 0 (fs_kstack fs_loop, ''l'') fs_loop = Some (Some 3, fs_loop)"
    by (simp add: loop_sel vfs_finddir_def vfs_dcache_find_def fs_loop_def fs_demo_def demo_file_def
        loop_link_def name_eq_def MAXNAMLEN_def is_dot_def is_dotdot_def)
  show "cstring (map Some [108, 0]) = Some ''l''" by code_simp
qed (simp_all add: loop_node_def demo_node_def mode_defs proper_name_def fs_loop_def loop_link_def demo_file_def)

section \<open>Names in a directory\<close>

lemma find_child_map:
  assumes "\<forall>q. map_option (\<lambda>i. (i_parent i, i_name i)) (m' q) = map_option (\<lambda>i. (i_parent i, i_name i)) (m q)"
  shows "find_child m' cs dir nm = find_child m cs dir nm"
proof (induction cs)
  case (Cons e es)
  then show ?case using spec [OF assms, of e] by (cases "m e"; cases "m' e") (simp_all cong: if_cong)
qed simp

lemma find_child_lock [simp]:
  "find_child (m(p := map_option (i_lock_update f) (m p))) cs dir nm = find_child m cs dir nm"
  by (rule find_child_map) (simp add: option.map_comp comp_def)

lemma find_child_lock_Some [simp]:
  "m p = Some i \<Longrightarrow> find_child (m(p \<mapsto> i_lock_update f i)) cs dir nm = find_child m cs dir nm"
  using find_child_lock [of m p f] by simp

lemma can_creat_ilocked:
  assumes "can_creat s dir i b sb nm"
  shows "can_creat (ilocked dir s) dir (i\<lparr>i_lock := True\<rparr>) b sb nm"
proof -
  from assms have A: "tmpfs_inv b s" "tmpfs_sb dir s = Some (i, b, sb)" by (simp_all add: can_creat_def)
  have "tmpfs_inv b (ilocked dir s)"
    by (rule tmpfs_inv_cong [OF A(1)]) (simp_all add: option.map_comp comp_def)
  moreover have "tmpfs_sb dir (ilocked dir s) = Some (i\<lparr>i_lock := True\<rparr>, b, sb)"
    using A(2) by (simp add: tmpfs_sb_iff)
  ultimately show ?thesis using assms by (auto simp: can_creat_def)
qed

text \<open>C18. A created name is found: after \<^verbatim>\<open>vfs_creat\<close> of a name that the directory does not have, looking it
  up returns the new inode, from the directory cache and from the file system alike, and the lock of
  the directory is free again.\<close>

theorem vfs_creat_finddir:
  assumes C: "can_creat s dir i b sb nm" and ops: "i_ops i Ocreat = Some Tmpfs" and l: "\<not> i_lock i"
    and chk: "ptr_check s (fst nm) R_OK" and nm: "\<not> is_dot (snd nm)" "\<not> is_dotdot (snd nm)"
    and dc: "fs_next s \<notin> set (fs_dcache s)" "vfs_dcache_find dir (snd nm) s = Some None"
  shows "\<exists>t. vfs_creat (fs_dispatch X k) dir nm mode s = Some (Some (fs_next s), t)
    \<and> fs_dcache t = fs_dcache s @ [fs_next s] \<and> vfs_finddir (fs_dispatch X k) dir nm t = Some (Some (fs_next s), t)
    \<and> tmpfs_finddir dir nm t = Some (Some (fs_next s), t) \<and> fs_inodes t dir = Some i"
proof -
  let ?s = "ilocked dir s" and ?d = "fs_next s"
  from C have A: "tmpfs_sb dir s = Some (i, b, sb)" "fst nm \<noteq> 0" "fs_inodes s ?d = None" "length (snd nm) < MAXNAMLEN"
    by (auto simp: can_creat_def)
  then have D: "fs_inodes s dir = Some i" "i_sb i = Some b" "dir \<noteq> ?d" "sb_fsid sb = TMPFS_ID"
    by (auto simp: tmpfs_sb_iff)
  obtain cs c where creat: "tmpfs_creat dir nm mode ?s = Some (Some ?d,
       fs_created ?s dir b (snd nm) mode (sb_created sb c (cs @ [?d])))"
    and found: "find_child (fs_inodes (fs_created ?s dir b (snd nm) mode (sb_created sb c (cs @ [?d]))))
       (cs @ [?d]) dir (snd nm) = Some (Some ?d)"
    using can_creatE [where mode = mode, OF can_creat_ilocked [OF C]] by (metis ilocked_sel(3))
  define sb1 where "sb1 = sb_created sb c (cs @ [?d])"
  define t0 where "t0 = (fs_created ?s dir b (snd nm) mode sb1)\<lparr>fs_dcache := fs_dcache s @ [?d]\<rparr>"
  define t where "t = upd_inode dir (i_lock_update (\<lambda>_. False)) t0"
  have inodes: "fs_inodes t dir = Some i" "fs_inodes t ?d = Some \<lparr>i_name = snd nm, i_ino = fs_next_ino s + 1,
      i_sb = Some b, i_ops = ops_of Tmpfs (tmpfs_vops mode), i_parent = Some dir, i_lock = False\<rparr>"
    using D l A(4) by (simp_all add: t_def t0_def fs_created_def)
  have nt: "Option.bind (op_creat (fs_dispatch X k Tmpfs) dir nm mode ?s) (dcache_note dir) = Some (Some ?d, t0)"
    using creat dc(1)
    by (simp add: tmpfs_ops_def sb1_def [symmetric] dcache_note_def fs_created_def vfs_dcache_add_def t0_def)
  have v: "vfs_creat (fs_dispatch X k) dir nm mode s = Some (Some ?d, t)"
    using nt D ops l chk nm A(2) by (simp add: vfs_creat_def vfs_call_some with_ilock_free t_def)
  have dt: "fs_dcache t = fs_dcache s @ [?d]" "fs_chk t = fs_chk s" by (simp_all add: t_def t0_def fs_created_def)
  have "find_child (fs_inodes t) (fs_dcache s) dir (snd nm) = find_child (fs_inodes ?s) (fs_dcache s) dir (snd nm)"
    using dc(1) unfolding t_def upd_inode_sel find_child_lock
    by (intro find_child_cong) (auto simp: t0_def fs_created_def)
  then have "find_child (fs_inodes t) (fs_dcache s) dir (snd nm) = Some None"
    using dc(2) by (simp add: vfs_dcache_find_def)
  then have "find_child (fs_inodes t) (fs_dcache t) dir (snd nm) = Some (Some ?d)"
    using inodes(2) A(4) by (simp add: dt find_child_append name_eq_short)
  then have f: "vfs_finddir (fs_dispatch X k) dir nm t = Some (Some ?d, t)"
    using inodes(1) A(2) chk nm dt by (simp add: vfs_finddir_def vfs_dcache_find_def)
  have "tmpfs_sb dir t = Some (i, b, sb1)" using inodes(1) D
    by (simp add: tmpfs_sb_iff t_def t0_def fs_created_def sb1_def sb_created_def)
  moreover have "find_child (fs_inodes t) (cs @ [?d]) dir (snd nm) = Some (Some ?d)"
    using found unfolding t_def upd_inode_sel find_child_lock by (simp add: t0_def sb1_def)
  ultimately have "tmpfs_finddir dir nm t = Some (Some ?d, t)"
    using A(2) by (simp add: tmpfs_finddir_def tmpfs_children_def sb1_def sb_created_def)
  with v f dt inodes(1) show ?thesis by blast
qed

text \<open>
  A name to remove: it is in the directory and, if \<open>cached\<close>, in the directory cache, and no other entry
  of the directory has it.
\<close>

definition can_unlink :: "bool \<Rightarrow> fs \<Rightarrow> iptr \<Rightarrow> inode \<Rightarrow> sptr \<Rightarrow> superblock \<Rightarrow> iptr list \<Rightarrow> ustr \<Rightarrow> iptr \<Rightarrow> bool" where
  "can_unlink cached s dir i b sb cs nm d \<longleftrightarrow>
     tmpfs_inv b s \<and> tmpfs_sb dir s = Some (i, b, sb) \<and> sb_info sb = TmpfsInfo cs \<and> \<not> i_lock i
     \<and> i_ops i Ounlink = Some Tmpfs \<and> i_ops i Ofinddir = Some Tmpfs \<and> fst nm \<noteq> 0 \<and> ptr_check s (fst nm) R_OK
     \<and> \<not> is_dot (snd nm) \<and> \<not> is_dotdot (snd nm) \<and> distinct (fs_dcache s) \<and> dir \<noteq> d
     \<and> find_child (fs_inodes s) cs dir (snd nm) = Some (Some d)
     \<and> find_child (fs_inodes s) (remove1 d cs) dir (snd nm) = Some None
     \<and> vfs_dcache_find dir (snd nm) s = Some (if cached then Some d else None)
     \<and> find_child (fs_inodes s) (remove1 d (fs_dcache s)) dir (snd nm) = Some None"

lemma can_unlinkE:
  assumes U: "can_unlink cached s dir i b sb cs nm d"
  obtains c sz where "tmpfs_unlink dir nm (ilocked dir s) = Some (0, (ilocked dir s)\<lparr>fs_sbs :=
     (fs_sbs s)(b \<mapsto> sb_removed sb c (remove1 d cs) sz)\<rparr>)" "distinct cs" "sb_fsid sb = TMPFS_ID"
proof -
  from U have A: "tmpfs_inv b s" "tmpfs_sb dir s = Some (i, b, sb)" "sb_info sb = TmpfsInfo cs" "fst nm \<noteq> 0"
    "find_child (fs_inodes s) cs dir (snd nm) = Some (Some d)" by (auto simp: can_unlink_def)
  have b: "fs_sbs s b = Some sb" "sb_fsid sb = TMPFS_ID" using A(2) by (simp_all add: tmpfs_sb_iff)
  have I: "tmpfs_inv b (ilocked dir s)"
    by (rule tmpfs_inv_cong [OF A(1)]) (simp_all add: option.map_comp comp_def)
  have sb: "tmpfs_sb dir (ilocked dir s) = Some (i\<lparr>i_lock := True\<rparr>, b, sb)" using A(2) by (simp add: tmpfs_sb_iff)
  have f: "find_child (fs_inodes (ilocked dir s)) cs dir (snd nm) = Some (Some d)" using A(5) by simp
  note J = tmpfs_invD [OF I, of sb cs]
  have live: "children_live b sb cs (ilocked dir s)" using J(3) b A(3) by simp
  obtain j n where n: "live_node (ilocked dir s) d j b sb n"
    using children_liveD [OF live] find_child_SomeD [OF f] by blast
  have "distinct cs" using live by (simp add: children_live_def)
  with tmpfs_unlink_eq [OF sb A(3,4) f n] that b show thesis by (metis ilocked_sel(2))
qed

lemma find_child_freed:
  assumes "distinct ds" "find_child m (remove1 d ds) dir nm = Some None"
  shows "find_child (m(d := None)) (remove1 d ds) dir nm = Some None"
  using assms find_child_cong [of "remove1 d ds" "m(d := None)" m dir nm] by simp

text \<open>C19. Removing a name that the directory cache knows removes it: \<^verbatim>\<open>vfs_unlink\<close> returns 0, the inode is
  freed, and the name is found neither in the directory cache nor in the file system.\<close>

theorem vfs_unlink_removes:
  assumes U: "can_unlink True s dir i b sb cs nm d"
  shows "\<exists>t. vfs_unlink (fs_dispatch X k) dir nm s = Some (0, t) \<and> fs_inodes t d = None
    \<and> d \<notin> set (fs_dcache t) \<and> vfs_finddir (fs_dispatch X k) dir nm t = Some (None, t)"
proof -
  obtain c sz where u: "tmpfs_unlink dir nm (ilocked dir s) = Some (0, (ilocked dir s)\<lparr>fs_sbs :=
     (fs_sbs s)(b \<mapsto> sb_removed sb c (remove1 d cs) sz)\<rparr>)" and dist: "distinct cs" and id: "sb_fsid sb = TMPFS_ID"
    using can_unlinkE [OF U] by metis
  from U have A: "fs_inodes s dir = Some i" "i_sb i = Some b" "\<not> i_lock i" "i_ops i Ounlink = Some Tmpfs"
    "i_ops i Ofinddir = Some Tmpfs" "fst nm \<noteq> 0" "ptr_check s (fst nm) R_OK" "\<not> is_dot (snd nm)"
    "\<not> is_dotdot (snd nm)" "distinct (fs_dcache s)" "dir \<noteq> d"
    "find_child (fs_inodes s) (remove1 d cs) dir (snd nm) = Some None"
    "vfs_dcache_find dir (snd nm) s = Some (Some d)"
    "find_child (fs_inodes s) (remove1 d (fs_dcache s)) dir (snd nm) = Some None"
    by (auto simp: can_unlink_def tmpfs_sb_iff)
  have dc: "d \<in> set (fs_dcache s)" using A(13) find_child_SomeD by (auto simp: vfs_dcache_find_def)
  define t where "t = s\<lparr>fs_sbs := (fs_sbs s)(b \<mapsto> sb_removed sb c (remove1 d cs) sz),
    fs_dcache := remove1 d (fs_dcache s), fs_inodes := (fs_inodes s)(d := None)\<rparr>"
  have "vfs_unlink (fs_dispatch X k) dir nm s = Some (0, t)"
    using A dc u
    by (simp add: vfs_unlink_def vfs_call_some with_ilock_free tmpfs_ops_def vfs_dcache_find_def
        vfs_dcache_remove_def upd_inode_def ilocked_def t_def fun_upd_twist fun_upd_idem)
  moreover have nd: "find_child (fs_inodes t) (fs_dcache t) dir (snd nm) = Some None"
    "find_child (fs_inodes t) (remove1 d cs) dir (snd nm) = Some None"
    using find_child_freed A(10,12,14) dist by (simp_all add: t_def)
  have ti: "fs_inodes t dir = Some i" using A(1,11) by (simp add: t_def)
  have "tmpfs_finddir dir nm (ilocked dir t) = Some (None, ilocked dir t)"
    using nd(2) A(2,6) ti id by (simp add: tmpfs_finddir_def tmpfs_sb_def tmpfs_children_def t_def sb_removed_def)
  then have "with_ilock dir (\<lambda>s. Option.bind (tmpfs_finddir dir nm s) (dcache_note dir)) t = Some (None, t)"
    by (intro with_ilock_same [OF ti A(3)]) (simp add: dcache_note_def)
  then have "vfs_finddir (fs_dispatch X k) dir nm t = Some (None, t)"
    using nd(1) ti A by (simp add: vfs_finddir_def vfs_dcache_find_def vfs_call_some tmpfs_ops_def t_def)
  ultimately show ?thesis using A(10) by (auto simp: t_def)
qed

text \<open>Removing a name that is in the directory but not in the directory cache does not return: the
  search of the cache comes back empty and the assertion of \<^verbatim>\<open>vfs_dcache_remove\<close> fails.\<close>

lemma vfs_unlink_uncached:
  assumes U: "can_unlink False s dir i b sb cs nm d"
  shows "vfs_unlink (fs_dispatch X k) dir nm s = None"
proof -
  obtain c sz where u: "tmpfs_unlink dir nm (ilocked dir s) = Some (0, (ilocked dir s)\<lparr>fs_sbs :=
     (fs_sbs s)(b \<mapsto> sb_removed sb c (remove1 d cs) sz)\<rparr>)" using can_unlinkE [OF U] by metis
  from U have "fs_inodes s dir = Some i" "\<not> i_lock i" "i_ops i Ounlink = Some Tmpfs" "fst nm \<noteq> 0"
    "ptr_check s (fst nm) R_OK" "\<not> is_dot (snd nm)" "\<not> is_dotdot (snd nm)"
    "vfs_dcache_find dir (snd nm) s = Some None"
    by (auto simp: can_unlink_def tmpfs_sb_iff)
  with u show ?thesis
    by (simp add: vfs_unlink_def vfs_call_some with_ilock_free tmpfs_ops_def vfs_dcache_find_def
        vfs_dcache_remove_def)
qed

lemma demo_ops: "i_ops demo_root op = (if op \<in> set dir_vops then Some Tmpfs else None)"
  by (simp add: demo_root_def ops_of_def)

theorem vfs_creat_finddir_witness:
  "\<exists>t. vfs_creat demo_D 0 (0x3000, ''l'') S_IFREG fs_demo = Some (Some 3, t)
    \<and> fs_dcache t = [2, 3] \<and> vfs_finddir demo_D 0 (0x3000, ''l'') t = Some (Some 3, t)"
proof -
  have "fs_next fs_demo = 3" "fs_dcache fs_demo = [2]" "\<not> i_lock demo_root"
    "vfs_dcache_find 0 ''l'' fs_demo = Some None"
    by (simp_all add: fs_demo_def demo_root_def vfs_dcache_find_def demo_file_def name_eq_def MAXNAMLEN_def)
  with vfs_creat_finddir [where X = "\<lambda>_. no_ops" and k = 1 and mode = S_IFREG, OF demo_can_creat] show ?thesis
    by (auto simp: demo_ops dir_vops_def demo_sel is_dot_def is_dotdot_def)
qed

lemma demo_can_unlink:
  "can_unlink True fs_demo 0 demo_root 1 demo_sb [2] (0x3000, ''a'') 2"
  "can_unlink False (fs_demo\<lparr>fs_dcache := []\<rparr>) 0 demo_root 1 demo_sb [2] (0x3000, ''a'') 2"
proof -
  have "tmpfs_inv 1 (fs_demo\<lparr>fs_dcache := []\<rparr>)" by (rule tmpfs_inv_cong [OF demo_inv]) simp_all
  with demo_inv show "can_unlink True fs_demo 0 demo_root 1 demo_sb [2] (0x3000, ''a'') 2"
    "can_unlink False (fs_demo\<lparr>fs_dcache := []\<rparr>) 0 demo_root 1 demo_sb [2] (0x3000, ''a'') 2"
    by (simp_all add: can_unlink_def tmpfs_sb_iff ops_of_def dir_vops_def demo_sel is_dot_def is_dotdot_def
        fs_demo_def demo_sb_def demo_root_def vfs_dcache_find_def demo_file_def name_eq_def MAXNAMLEN_def)
qed

theorem vfs_unlink_removes_witness:
  "\<exists>t. vfs_unlink demo_D 0 (0x3000, ''a'') fs_demo = Some (0, t) \<and> fs_inodes t 2 = None
    \<and> vfs_finddir demo_D 0 (0x3000, ''a'') t = Some (None, t)"
  using vfs_unlink_removes [OF demo_can_unlink(1)] by blast

lemma vfs_unlink_uncached_demo:
  "vfs_unlink demo_D 0 (0x3000, ''a'') (fs_demo\<lparr>fs_dcache := []\<rparr>) = None"
  by (rule vfs_unlink_uncached [OF demo_can_unlink(2)])

section \<open>Bind mounts\<close>

text \<open>The directory \<open>dir\<close> after \<open>dev\<close> was bound to it.\<close>

definition bind_mounted :: "fs \<Rightarrow> iptr \<Rightarrow> iptr \<Rightarrow> bool" where
  "bind_mounted s dir dev \<longleftrightarrow>
     (\<exists>i b sb. fs_inodes s dir = Some i \<and> i_ops i = ops_of Bindfs dir_vops \<and> i_sb i = Some b \<and> \<not> i_lock i
        \<and> fs_sbs s b = Some sb \<and> sb_fsid sb = 1 \<and> sb_dev sb = Some dev)"

lemma bind_mount_ok:
  assumes "fs_inodes s dir = Some i" "\<not> i_lock i" "fs_inodes s dev = Some j" "i_sb j = Some c"
    "fs_sbs s c = Some dsb" "a \<noteq> 0" "ptr_check s a R_OK"
  obtains t where "vfs_mount (fs_mounts e) (Some dev) dir (a, ''bind'') flags 0 s = Some (0, t)"
    "bind_mounted t dir dev" "fs_chk t = fs_chk s"
  using assms
  by (cases "dev = dir"; cases "c = fs_next s")
    (fastforce simp: vfs_mount_def vfs_table_def fs_mounts_def bindfs_mount_def new_sb_def mount_swap_def
      bind_mounted_def sb_zero_def Let_def)+

lemma bind_mountedE:
  assumes "bind_mounted s dir dev"
  obtains i where "fs_inodes s dir = Some i" "i_ops i = ops_of Bindfs dir_vops" "\<not> i_lock i"
    "bind_dev dir (ilocked dir s) = Some dev"
  using assms by (auto simp: bind_mounted_def bind_dev_def)



text \<open>
  Removal through a bind mount: the bound directory removes the name and its entry of the directory
  cache, and then the search for the name under the mount point comes back empty.
\<close>

lemma bind_unlink_panics:
  assumes "bind_mounted s dir dev" "a \<noteq> 0" "ptr_check s a R_OK" "\<not> is_dot x" "\<not> is_dotdot x"
    "vfs_unlink (fs_dispatch X n) dev (a, x) (ilocked dir s) = Some (0, t)" "vfs_dcache_find dir x t = Some None"
  shows "vfs_unlink (fs_dispatch X (Suc n)) dir (a, x) s = None"
proof -
  obtain i where "fs_inodes s dir = Some i" "i_ops i = ops_of Bindfs dir_vops" "\<not> i_lock i"
    "bind_dev dir (ilocked dir s) = Some dev" by (rule bind_mountedE [OF assms(1)])
  then show ?thesis
    using assms(2-)
    by (simp add: vfs_unlink_def [of "fs_dispatch X (Suc n)"] vfs_call_some ops_of_def dir_vops_def bindfs_ops_def
        bindfs_unlink_def with_ilock_free vfs_dcache_remove_def)
qed

section \<open>Opening files\<close>

lemma free_fd_spec:
  "free_fd fs k = k + length (takeWhile (\<lambda>f. fd_inode f \<noteq> None) fs)"
  by (induction fs arbitrary: k) auto

lemma free_fd_least:
  assumes "free_fd fs 0 = k"
  shows "k \<le> length fs" "\<forall>j < k. fd_inode (fs ! j) \<noteq> None" "k < length fs \<Longrightarrow> fd_inode (fs ! k) = None"
proof -
  have k: "k = length (takeWhile (\<lambda>f. fd_inode f \<noteq> None) fs)" using assms by (simp add: free_fd_spec)
  show "k \<le> length fs" by (simp add: k length_takeWhile_le)
  show "\<forall>j < k. fd_inode (fs ! j) \<noteq> None"
  proof (intro allI impI)
    fix j assume "j < k"
    then have "takeWhile (\<lambda>f. fd_inode f \<noteq> None) fs ! j \<in> set (takeWhile (\<lambda>f. fd_inode f \<noteq> None) fs)"
      by (simp add: k)
    with \<open>j < k\<close> show "fd_inode (fs ! j) \<noteq> None" by (auto simp: k takeWhile_nth dest: set_takeWhileD)
  qed
  show "k < length fs \<Longrightarrow> fd_inode (fs ! k) = None"
    unfolding k by (drule nth_length_takeWhile) simp
qed

text \<open>
  A path that leads to an inode of a tmpfs which may be opened: the hypotheses of the calls on paths,
  for flags that do not create.
\<close>

definition can_open :: "dispatch \<Rightarrow> fs \<Rightarrow> ustr \<Rightarrow> u32 \<Rightarrow> u32 \<Rightarrow> iptr \<Rightarrow> inode \<Rightarrow> stat \<Rightarrow> bool" where
  "can_open D s path flags mode q j st \<longleftrightarrow>
     (\<exists>nms. snd path = abs_path nms \<and> nms \<noteq> [] \<and> (\<forall>nm \<in> set nms. proper_name nm)
        \<and> walk D s (t_root (fs_task s)) nms q)
     \<and> fst path \<noteq> 0 \<and> ptr_check s (fst path) R_OK \<and> \<not> has flags O_CREAT \<and> \<not> has flags O_DIRECTORY
     \<and> vfs_getattr D q (fs_kstack s) s = Some ((0, Some st), s) \<and> \<not> S_ISLNK (st_mode st)
     \<and> fs_inodes s q = Some j \<and> i_ops j Oopen = None \<and> \<not> open_denied flags mode st (fs_task s)
     \<and> length (t_fd (fs_task s)) = TASK_NFD \<and> \<not> t_lock (fs_task s)"

lemma with_task_lock_free:
  assumes "\<not> t_lock (fs_task s)"
  shows "with_task_lock body s =
    map_option (\<lambda>(r, t). (r, upd_task (t_lock_update (\<lambda>_. False)) t)) (body (upd_task (t_lock_update (\<lambda>_. True)) s))"
  using assms by (simp add: with_task_lock_def with_lock_free)

lemma sys_open_reaches_fd:
  assumes "can_open D s path flags mode q j st"
  shows "sys_open D (Suc n) path flags mode s =
    do {
      (k, s) \<leftarrow> open_fd q flags st (set_errno ENOSYS s);
      if k = TASK_NFD then Some (- EMFILE, s)
      else do { f \<leftarrow> task_fd k s; kassert (fd_inode f \<noteq> None); Some (int k, s) }
    }"
proof -
  from assms obtain nms where C: "snd path = abs_path nms" "nms \<noteq> []" "\<forall>nm \<in> set nms. proper_name nm"
      "walk D s (t_root (fs_task s)) nms q" by (auto simp: can_open_def)
  have "path_lookup D (Suc n) (Some (t_cwd (fs_task s))) path flags mode s = Some (Some q, s)"
    using path_lookup_resolves [OF C(4,2,3), of flags n "Some (t_cwd (fs_task s))" "fst path" mode] assms C(1)
    by (cases path) (auto simp: can_open_def simp del: path_lookup.simps)
  with assms show ?thesis
    by (simp add: can_open_def sys_open_def vfs_open_def vfs_call_none del: path_lookup.simps)
qed

text \<open>C20. \<^verbatim>\<open>open\<close> hands out the lowest free descriptor: every lower descriptor is in use, the new one was
  free and now holds the inode with the flags and its position at the start or, for appending, at the
  end of the file, and no other descriptor changes; with all descriptors in use the call fails with
  \<^verbatim>\<open>EMFILE\<close> and changes none.\<close>

theorem sys_open_lowest:
  assumes C: "can_open D s path flags mode q j st"
  shows "\<exists>t k. k = free_fd (t_fd (fs_task s)) 0 \<and> (\<forall>m < k. fd_inode (t_fd (fs_task s) ! m) \<noteq> None)
    \<and> (if k < TASK_NFD
       then sys_open D (Suc n) path flags mode s = Some (int k, t) \<and> fd_inode (t_fd (fs_task s) ! k) = None
         \<and> t_fd (fs_task t) = (t_fd (fs_task s))[k := (t_fd (fs_task s) ! k)\<lparr>
             fd_position := (if has flags O_APPEND then st_size st else 0), fd_inode := Some q,
             fd_flags := take_bit 30 flags\<rparr>]
       else sys_open D (Suc n) path flags mode s = Some (- EMFILE, t) \<and> t_fd (fs_task t) = t_fd (fs_task s))"
proof -
  define k where "k = free_fd (t_fd (fs_task s)) 0"
  from C have L: "length (t_fd (fs_task s)) = TASK_NFD" "\<not> t_lock (fs_task s)" by (simp_all add: can_open_def)
  note K = free_fd_least [OF k_def [symmetric]]
  have take: "take TASK_NFD (t_fd (fs_task s)) = t_fd (fs_task s)" using L(1) by simp
  show ?thesis
  proof (cases "k < TASK_NFD")
    case True
    then have "sys_open D (Suc n) path flags mode s = Some (int k,
        upd_task (t_lock_update (\<lambda>_. False)) (upd_fd k (\<lambda>f. f\<lparr>fd_position := (if has flags O_APPEND then st_size st else 0),
          fd_inode := Some q, fd_flags := take_bit 30 flags\<rparr>) (upd_task (t_lock_update (\<lambda>_. True)) (set_errno ENOSYS s))))"
      using L
      by (simp add: sys_open_reaches_fd [OF C] open_fd_def with_task_lock_free take k_def [symmetric] task_fd_def Let_def)
    with True K L show ?thesis by (auto simp: k_def [symmetric])
  next
    case False
    then have "k = TASK_NFD" using K(1) L(1) by simp
    then have "sys_open D (Suc n) path flags mode s = Some (- EMFILE,
        upd_task (t_lock_update (\<lambda>_. False)) (upd_task (t_lock_update (\<lambda>_. True)) (set_errno ENOSYS s)))"
      using L by (simp add: sys_open_reaches_fd [OF C] open_fd_def with_task_lock_free take k_def [symmetric] Let_def)
    with False K L show ?thesis by (auto simp: k_def [symmetric])
  qed
qed

theorem sys_open_lowest_witness:
  "\<exists>t. sys_open demo_D 1 (0x2000, ''/a'') O_RDWR 0 fs_demo = Some (1, t)
    \<and> fd_inode (t_fd (fs_task t) ! 1) = Some 2 \<and> fd_flags (t_fd (fs_task t) ! 1) = 2"
proof -
  have "walk demo_D fs_demo (t_root (fs_task fs_demo)) [''a''] 2" "t_uid (fs_task fs_demo) = 1"
    "\<not> t_lock (fs_task fs_demo)" "fs_inodes fs_demo 2 = Some demo_file" "i_ops demo_file Oopen = None"
    using demo_step
    by (simp_all add: fs_demo_def demo_task_def demo_file_def ops_of_def tmpfs_vops_def mode_defs)
  moreover have "vfs_getattr demo_D 2 0x1000 fs_demo = Some ((0, Some (ti_st (demo_node 2 S_IFREG))), fs_demo)"
    by (rule vfs_getattr_tmpfs [OF demo_live]) (simp_all add: demo_file_def ops_of_def tmpfs_vops_def demo_sel)
  moreover have "st_uid (ti_st (demo_node 2 S_IFREG)) = 0" "\<not> S_ISLNK (st_mode (ti_st (demo_node 2 S_IFREG)))"
    by (simp_all add: demo_node_def stat_zero_def mode_defs)
  ultimately have "can_open demo_D fs_demo (0x2000, ''/a'') O_RDWR 0 2 demo_file (ti_st (demo_node 2 S_IFREG))"
    unfolding can_open_def by (intro conjI exI [of _ "[''a'']"])
      (simp_all add: demo_sel proper_name_def open_denied_def oflag_defs)
  from sys_open_lowest [where n = 0, OF this] show ?thesis
    by (simp add: fs_demo_def demo_task_def TASK_NFD_def O_RDWR_def numeral_eq_Suc del: path_lookup.simps) (auto)
qed

text \<open>
  The permission check of \<^verbatim>\<open>open\<close> does not look at the permissions of the file and applies to its owner
  only: a task that does not own the file is not refused.
\<close>

lemma open_check_ignores_mode:
  "st_uid st \<noteq> t_uid t \<Longrightarrow> \<not> open_denied flags mode st t"
  "open_denied flags mode (st\<lparr>st_mode := m\<rparr>) t = open_denied flags mode st t"
  by (simp_all add: open_denied_def)

end
