(* ===== verification/Modules.thy ===== *)
theory Modules
  imports Kprelude
begin

text \<open>
  Kernel modules: the lookup of the kernel's own symbols (\<^verbatim>\<open>kernel/core/dl.c\<close>) and the loading, linking and
  initialisation of the modules the boot loader passes on (\<^verbatim>\<open>kernel/init/module.c\<close>).

  The structures of an ELF file are records with the fields the code uses; their constants are
  constructors. A file is a typed view: its section headers, its bytes (for strings and contents) and
  the tables of symbols and relocations at their offsets. Pointers into a file are offsets.
\<close>

section \<open>ELF files\<close>

datatype elf_shtype =
  SHT_NULL | SHT_PROGBITS | SHT_SYMTAB | SHT_STRTAB | SHT_NOBITS | SHT_REL | SHT_RELA | SHT_DYNAMIC | SHT_DYNSYM
  | SHT_other u32

datatype elf_shndx = SHN_UNDEF | SHN_ABS | SHN_index nat

datatype elf_sttype = STT_FUNC | STT_other u32

datatype elf_stbind = STB_GLOBAL | STB_other u32

datatype elf_reltype =
  R_386_NONE | R_386_COPY | R_386_32 | R_386_PC32 | R_386_GLOB_DAT | R_386_JMP_SLOT | R_386_RELATIVE | R_386_other u32

datatype elf_type = ET_REL | ET_other u32

record Elf_Shdr =
  sh_name :: u32
  sh_type :: elf_shtype
  sh_alloc :: bool
  sh_addr :: u32
  sh_offset :: u32
  sh_size :: u32
  sh_link :: u32
  sh_info :: u32
  sh_addralign :: u32
  sh_entsize :: u32

record Elf_Sym =
  st_name :: u32
  st_value :: u32
  st_size :: u32
  st_type :: elf_sttype
  st_bind :: elf_stbind
  st_shndx :: elf_shndx

record Elf_Rel =
  r_offset :: u32
  r_sym :: nat
  r_type :: elf_reltype

record Elf_Rela = Elf_Rel +
  r_addend :: u32

record elf_image =
  e_magic :: bool
  e_type :: elf_type
  e_shnum :: nat
  e_shstrndx :: nat
  img_section :: "Elf_Shdr list"
  img_bytes :: "byte list"
  img_syms :: "u32 \<rightharpoonup> Elf_Sym list"
  img_rels :: "u32 \<rightharpoonup> Elf_Rel list"
  img_relas :: "u32 \<rightharpoonup> Elf_Rela list"

text \<open>The C string at an offset; without a terminator there is none.\<close>

definition img_str :: "byte list \<Rightarrow> nat \<Rightarrow> string option" where
  "img_str bs off =
     (let t = drop off bs in
      if 0 \<in> set t then Some (map (\<lambda>b. char_of (uint b)) (takeWhile (\<lambda>b. b \<noteq> 0) t)) else None)"

section \<open>Symbols of the kernel\<close>

text \<open>
  The section headers of the kernel that the boot loader passes on, the strings and the symbols in its
  memory.
\<close>

record kexec =
  ex_num :: nat
  ex_shdr :: "Elf_Shdr list"
  ex_shndx :: nat
  ex_str :: "u32 \<Rightarrow> string option"
  ex_sym :: "u32 \<Rightarrow> Elf_Sym option"

fun core_tables ::
  "kexec \<Rightarrow> nat \<Rightarrow> nat \<Rightarrow> Elf_Shdr option \<times> Elf_Shdr option \<Rightarrow> (Elf_Shdr option \<times> Elf_Shdr option) option" where
  "core_tables x 0 j (strtab, symtab) = Some (strtab, symtab)"
| "core_tables x (Suc n) j (strtab, symtab) =
     do {
       h \<leftarrow> array_get (ex_shdr x) j;
       case sh_type h of
         SHT_STRTAB \<Rightarrow>
           do {
             sh \<leftarrow> array_get (ex_shdr x) (ex_shndx x);
             nm \<leftarrow> ex_str x (sh_addr sh + CONFIG_KERNEL_BASE + sh_name h);
             core_tables x n (j + 1) (if nm = ''.strtab'' then Some h else strtab, symtab)
           }
       | SHT_SYMTAB \<Rightarrow>
           do {
             sh \<leftarrow> array_get (ex_shdr x) (ex_shndx x);
             nm \<leftarrow> ex_str x (sh_addr sh + CONFIG_KERNEL_BASE + sh_name h);
             core_tables x n (j + 1) (strtab, if nm = ''.symtab'' then Some h else symtab)
           }
       | _ \<Rightarrow> core_tables x n (j + 1) (strtab, symtab)
     }"

definition core_sym :: "kexec \<Rightarrow> Elf_Shdr \<Rightarrow> nat \<Rightarrow> Elf_Sym option" where
  "core_sym x symtab j = ex_sym x (sh_addr symtab + CONFIG_KERNEL_BASE + sh_entsize symtab * of_nat j)"

definition core_symname :: "kexec \<Rightarrow> Elf_Shdr \<Rightarrow> Elf_Sym \<Rightarrow> string option" where
  "core_symname x strtab s = ex_str x (sh_addr strtab + CONFIG_KERNEL_BASE + st_name s)"

text \<open>The loops over the symbols: \<open>n\<close> of them from \<open>j\<close> on.\<close>

fun core_find_name :: "kexec \<Rightarrow> Elf_Shdr \<Rightarrow> Elf_Shdr \<Rightarrow> string \<Rightarrow> nat \<Rightarrow> nat \<Rightarrow> u32 option" where
  "core_find_name x strtab symtab name 0 j = Some 0"
| "core_find_name x strtab symtab name (Suc n) j =
     do {
       s \<leftarrow> core_sym x symtab j;
       nm \<leftarrow> core_symname x strtab s;
       if nm = name then Some (st_value s) else core_find_name x strtab symtab name n (j + 1)
     }"

fun core_find_address :: "kexec \<Rightarrow> Elf_Shdr \<Rightarrow> Elf_Shdr \<Rightarrow> u32 \<Rightarrow> nat \<Rightarrow> nat \<Rightarrow> string option option" where
  "core_find_address x strtab symtab address 0 j = Some None"
| "core_find_address x strtab symtab address (Suc n) j =
     do {
       s \<leftarrow> core_sym x symtab j;
       if address \<ge> st_value s \<and> address < st_value s + st_size s
       then do { nm \<leftarrow> core_symname x strtab s; Some (Some nm) }
       else core_find_address x strtab symtab address n (j + 1)
     }"

definition core_symtabs :: "kexec \<Rightarrow> (Elf_Shdr \<times> Elf_Shdr \<times> nat) option" where
  "core_symtabs x =
     do {
       (strtab, symtab) \<leftarrow> core_tables x (ex_num x - 1) 1 (None, None);
       strtab \<leftarrow> strtab;
       symtab \<leftarrow> symtab;
       kassert (sh_entsize symtab \<noteq> 0);
       Some (strtab, symtab, unat (sh_size symtab div sh_entsize symtab))
     }"

definition core_get_address :: "kexec \<Rightarrow> string \<Rightarrow> u32 option" where
  "core_get_address x name =
     do {
       (strtab, symtab, n) \<leftarrow> core_symtabs x;
       core_find_name x strtab symtab name (n - 1) 1
     }"

definition core_get_name :: "kexec \<Rightarrow> u32 \<Rightarrow> string option option" where
  "core_get_name x address =
     do {
       (strtab, symtab, n) \<leftarrow> core_symtabs x;
       core_find_address x strtab symtab address (n - 1) 1
     }"

section \<open>State of the loader\<close>

datatype module_status =
  MODULE_STATUS_UNKNOWN | MODULE_STATUS_READY | MODULE_STATUS_LOADED | MODULE_STATUS_LOADING | MODULE_STATUS_FAILED

text \<open>
  \<^verbatim>\<open>module_t\<close>: the file, the indices of the sections that \<^verbatim>\<open>exe.symtab\<close> and \<^verbatim>\<open>exe.strtab\<close> point to, the memory
  of the module, and the offsets of its name and dependencies in the file.
\<close>

record module_t =
  exe :: elf_image
  m_symtab :: "nat option"
  m_strtab :: "nat option"
  core_ptr :: u32
  core_size :: u32
  core_mem :: "byte option list"
  m_init :: u32
  m_dnit :: u32
  m_name :: "nat option"
  m_deps :: "nat option"
  m_args :: string
  m_status :: module_status
  m_refcount :: int

text \<open>
  The lists \<^verbatim>\<open>m_queue\<close> and \<^verbatim>\<open>m_symtab\<close>, and the modules whose function \<^verbatim>\<open>init\<close> was called, in order. A module
  is referred to by its place in the queue.
\<close>

record mstate =
  ms_queue :: "module_t list"
  ms_symtab :: "(string \<times> u32) list"
  ms_calls :: "nat list"

definition upd_mod :: "nat \<Rightarrow> (module_t \<Rightarrow> module_t) \<Rightarrow> mstate \<Rightarrow> mstate" where
  "upd_mod m f st = st\<lparr>ms_queue := (ms_queue st)[m := f (ms_queue st ! m)]\<rparr>"

abbreviation get_mod :: "nat \<Rightarrow> mstate \<Rightarrow> module_t option" where
  "get_mod m st \<equiv> array_get (ms_queue st) m"

section \<open>Symbols of modules\<close>

definition export_symbol :: "string \<Rightarrow> u32 \<Rightarrow> mstate \<Rightarrow> mstate option" where
  "export_symbol name address st =
     (if name \<in> fst ` set (ms_symtab st) then None
      else Some (st\<lparr>ms_symtab := ms_symtab st @ [(name, address)]\<rparr>))"

definition module_export :: "nat option \<Rightarrow> string \<Rightarrow> u32 \<Rightarrow> mstate \<Rightarrow> mstate option" where
  "module_export owner name address st =
     do {
       kassert (address \<noteq> 0);
       case owner of
         Some m \<Rightarrow>
           if name = ''init'' then Some (upd_mod m (\<lambda>md. md\<lparr>m_init := address\<rparr>) st)
           else if name = ''dnit'' then Some (upd_mod m (\<lambda>md. md\<lparr>m_dnit := address\<rparr>) st)
           else if name = ''__module_name__'' then Some st
           else if name = ''__module_deps__'' then Some st
           else export_symbol name address st
       | None \<Rightarrow> export_symbol name address st
     }"

text \<open>The address of a kernel symbol is an argument, for which \<^verbatim>\<open>core_get_address\<close> is meant.\<close>

type_synonym kernel_symbols = "string \<Rightarrow> u32 option"

definition module_resolve :: "kernel_symbols \<Rightarrow> string \<Rightarrow> mstate \<Rightarrow> (u32 \<times> mstate) option" where
  "module_resolve K name st =
     (case map_of (ms_symtab st) name of
        Some a \<Rightarrow> Some (a, st)
      | None \<Rightarrow>
          do {
            p \<leftarrow> K name;
            if p \<noteq> 0 then do { st \<leftarrow> module_export None name p st; Some (p, st) } else None
          })"

section \<open>Dependencies\<close>

text \<open>The macro \<^verbatim>\<open>find\<close>: the first module of the queue with a name.\<close>

definition mod_name :: "module_t \<Rightarrow> string option" where
  "mod_name md = do { off \<leftarrow> m_name md; img_str (img_bytes (exe md)) off }"

fun find_module :: "module_t list \<Rightarrow> nat \<Rightarrow> string \<Rightarrow> nat option" where
  "find_module [] i name = None"
| "find_module (md # mds) i name =
     do {
       nm \<leftarrow> mod_name md;
       if nm = name then Some i else find_module mds (i + 1) name
     }"

text \<open>
  The tokens that repeated calls of \<^verbatim>\<open>strtok\<close> with the delimiter \<^verbatim>\<open>,\<close> return, and the string they leave
  behind: the delimiter after a token becomes a terminator.
\<close>

fun strtok_all :: "string \<Rightarrow> string \<Rightarrow> string list" where
  "strtok_all acc [] = (if acc = [] then [] else [acc])"
| "strtok_all acc (c # cs) =
     (if c = CHR '','' then (if acc = [] then strtok_all [] cs else acc # strtok_all [] cs)
      else strtok_all (acc @ [c]) cs)"

fun strtok_cut :: "bool \<Rightarrow> string \<Rightarrow> byte list" where
  "strtok_cut tok [] = []"
| "strtok_cut tok (c # cs) =
     (if c = CHR '','' then (if tok then 0 else of_char c) # strtok_cut False cs
      else of_char c # strtok_cut True cs)"

fun run_list :: "(nat \<Rightarrow> mstate \<Rightarrow> mstate option) \<Rightarrow> nat list \<Rightarrow> mstate \<Rightarrow> mstate option" where
  "run_list run [] st = Some st"
| "run_list run (m # ms) st = do { st \<leftarrow> run m st; run_list run ms st }"

text \<open>The array \<^verbatim>\<open>deps\<close> has as many elements as the string has commas.\<close>

definition module_deps :: "(nat \<Rightarrow> mstate \<Rightarrow> mstate option) \<Rightarrow> nat \<Rightarrow> mstate \<Rightarrow> mstate option" where
  "module_deps run m st =
     do {
       md \<leftarrow> get_mod m st;
       off \<leftarrow> m_deps md;
       deps \<leftarrow> img_str (img_bytes (exe md)) off;
       if deps = [] then Some st
       else if CHR '','' \<notin> set deps then do {
         k \<leftarrow> find_module (ms_queue st) 0 deps;
         run k st
       }
       else do {
         let i = length (filter (\<lambda>c. c = CHR '','') deps);
         let st = upd_mod m (\<lambda>md. md\<lparr>exe := (exe md)\<lparr>img_bytes :=
                    pwrite (img_bytes (exe md)) off (strtok_cut False deps)\<rparr>\<rparr>) st;
         ks \<leftarrow> those (map (find_module (ms_queue st) 0) (strtok_all [] deps));
         kassert (length ks \<le> i);
         run_list run (rev ks) st
       }
     }"

section \<open>Linking\<close>

definition upd_sym :: "nat \<Rightarrow> u32 \<Rightarrow> nat \<Rightarrow> u32 \<Rightarrow> mstate \<Rightarrow> mstate" where
  "upd_sym m off i v =
     upd_mod m (\<lambda>md. md\<lparr>exe := (exe md)\<lparr>img_syms := (img_syms (exe md))(off :=
       map_option (\<lambda>syms. syms[i := (syms ! i)\<lparr>st_value := v\<rparr>]) (img_syms (exe md) off))\<rparr>\<rparr>)"

text \<open>One symbol: entry \<open>i\<close> of the table whose section header is \<open>h\<close>.\<close>

definition module_symbol :: "kernel_symbols \<Rightarrow> nat \<Rightarrow> Elf_Shdr \<Rightarrow> nat \<Rightarrow> mstate \<Rightarrow> mstate option" where
  "module_symbol K m h i st =
     do {
       md \<leftarrow> get_mod m st;
       syms \<leftarrow> img_syms (exe md) (sh_offset h);
       s \<leftarrow> array_get syms i;
       let syname = do {
             t \<leftarrow> m_strtab md;
             str \<leftarrow> array_get (img_section (exe md)) t;
             img_str (img_bytes (exe md)) (unat (sh_offset str) + unat (st_name s))
           };
       case st_shndx s of
         SHN_ABS \<Rightarrow> Some st
       | SHN_UNDEF \<Rightarrow>
           do {
             nm \<leftarrow> syname;
             (a, st) \<leftarrow> module_resolve K nm st;
             Some (upd_sym m (sh_offset h) i a st)
           }
       | SHN_index k \<Rightarrow>
           do {
             sec \<leftarrow> array_get (img_section (exe md)) k;
             let v = st_value s + (core_ptr md + sh_addr sec);
             let st = upd_sym m (sh_offset h) i v st;
             if st_type s = STT_FUNC \<and> st_bind s = STB_GLOBAL
             then do { nm \<leftarrow> syname; module_export (Some m) nm v st }
             else Some st
           }
     }"

fun module_symbols :: "kernel_symbols \<Rightarrow> nat \<Rightarrow> Elf_Shdr \<Rightarrow> nat \<Rightarrow> nat \<Rightarrow> mstate \<Rightarrow> mstate option" where
  "module_symbols K m h 0 i st = Some st"
| "module_symbols K m h (Suc n) i st = do { st \<leftarrow> module_symbol K m h i st; module_symbols K m h n (i + 1) st }"

text \<open>
  The new contents of a relocated word, from the addend, its place, the value of the symbol and the
  address of the module; \<open>None\<close> inside when nothing is stored. The addend and the symbol are read only
  where the type needs them.
\<close>

definition reloc_value :: "elf_reltype \<Rightarrow> u32 option \<Rightarrow> u32 \<Rightarrow> u32 option \<Rightarrow> u32 \<Rightarrow> u32 option option" where
  "reloc_value t A P S B =
     (case t of
        R_386_NONE \<Rightarrow> Some None
      | R_386_COPY \<Rightarrow> Some None
      | R_386_32 \<Rightarrow> do { s \<leftarrow> S; a \<leftarrow> A; Some (Some (s + a)) }
      | R_386_PC32 \<Rightarrow> do { s \<leftarrow> S; a \<leftarrow> A; Some (Some (s + a - P)) }
      | R_386_GLOB_DAT \<Rightarrow> do { s \<leftarrow> S; Some (Some s) }
      | R_386_JMP_SLOT \<Rightarrow> do { s \<leftarrow> S; Some (Some s) }
      | R_386_RELATIVE \<Rightarrow> do { a \<leftarrow> A; Some (Some (B + a)) }
      | R_386_other n \<Rightarrow> None)"

text \<open>
  One relocation of the section whose header is \<open>sec\<close>: the object lies in the memory of the module, at
  the address of the section \<^verbatim>\<open>sh_info\<close>. Without an addend in the entry (\<^verbatim>\<open>SHT_REL\<close>) it is what the object holds.
\<close>

definition module_reloc ::
  "Elf_Shdr \<Rightarrow> u32 \<Rightarrow> nat \<Rightarrow> elf_reltype \<Rightarrow> u32 option \<Rightarrow> module_t \<Rightarrow> module_t option" where
  "module_reloc sec offset k t addend md =
     do {
       target \<leftarrow> array_get (img_section (exe md)) (unat (sh_info sec));
       link \<leftarrow> array_get (img_section (exe md)) (unat (sh_link sec));
       let pos = unat (sh_addr target) + unat offset;
       let P = core_ptr md + sh_addr target + offset;
       let A = (case addend of Some a \<Rightarrow> Some a | None \<Rightarrow> mem32 (core_mem md) pos);
       let S = do { syms \<leftarrow> img_syms (exe md) (sh_offset link); s \<leftarrow> array_get syms k; Some (st_value s) };
       v \<leftarrow> reloc_value t A P S (core_ptr md);
       case v of
         None \<Rightarrow> Some md
       | Some w \<Rightarrow> do { mem \<leftarrow> mem_store (core_mem md) pos (map Some (bytes32 w)); Some (md\<lparr>core_mem := mem\<rparr>) }
     }"

fun module_rel_loop :: "Elf_Shdr \<Rightarrow> Elf_Rel list \<Rightarrow> module_t \<Rightarrow> module_t option" where
  "module_rel_loop sec [] md = Some md"
| "module_rel_loop sec (r # rs) md =
     do { md \<leftarrow> module_reloc sec (r_offset r) (r_sym r) (r_type r) None md; module_rel_loop sec rs md }"

fun module_rela_loop :: "Elf_Shdr \<Rightarrow> Elf_Rela list \<Rightarrow> module_t \<Rightarrow> module_t option" where
  "module_rela_loop sec [] md = Some md"
| "module_rela_loop sec (r # rs) md =
     do {
       md \<leftarrow> module_reloc sec (r_offset r) (r_sym r) (r_type r) (Some (r_addend r)) md;
       module_rela_loop sec rs md
     }"

text \<open>The sections from 1 on, \<open>n\<close> of them from \<open>i\<close> on: first those with \<^verbatim>\<open>SHT_REL\<close>, then those with \<^verbatim>\<open>SHT_RELA\<close>.\<close>

fun module_rels :: "nat \<Rightarrow> nat \<Rightarrow> module_t \<Rightarrow> module_t option" where
  "module_rels 0 i md = Some md"
| "module_rels (Suc n) i md =
     do {
       sec \<leftarrow> array_get (img_section (exe md)) i;
       md \<leftarrow> (if sh_type sec \<noteq> SHT_REL then Some md
              else do {
                rs \<leftarrow> img_rels (exe md) (sh_offset sec);
                kassert (sh_entsize sec \<noteq> 0);
                rs \<leftarrow> mem_slice rs 0 (unat (sh_size sec div sh_entsize sec));
                module_rel_loop sec rs md
              });
       module_rels n (i + 1) md
     }"

fun module_relas :: "nat \<Rightarrow> nat \<Rightarrow> module_t \<Rightarrow> module_t option" where
  "module_relas 0 i md = Some md"
| "module_relas (Suc n) i md =
     do {
       sec \<leftarrow> array_get (img_section (exe md)) i;
       md \<leftarrow> (if sh_type sec \<noteq> SHT_RELA then Some md
              else do {
                rs \<leftarrow> img_relas (exe md) (sh_offset sec);
                kassert (sh_entsize sec \<noteq> 0);
                rs \<leftarrow> mem_slice rs 0 (unat (sh_size sec div sh_entsize sec));
                module_rela_loop sec rs md
              });
       module_relas n (i + 1) md
     }"

section \<open>Running a module\<close>

definition module_link :: "kernel_symbols \<Rightarrow> nat \<Rightarrow> mstate \<Rightarrow> mstate option" where
  "module_link K m st =
     do {
       md \<leftarrow> get_mod m st;
       t \<leftarrow> m_symtab md;
       h \<leftarrow> array_get (img_section (exe md)) t;
       kassert (sh_entsize h \<noteq> 0);
       st \<leftarrow> module_symbols K m h (unat (sh_size h div sh_entsize h)) 0 st;
       md \<leftarrow> get_mod m st;
       kassert (m_init md \<noteq> 0);
       kassert (m_dnit md \<noteq> 0);
       md \<leftarrow> module_rels (e_shnum (exe md) - 1) 1 md;
       md \<leftarrow> module_relas (e_shnum (exe md) - 1) 1 md;
       Some (upd_mod m (\<lambda>_. md) st)
     }"

text \<open>
  \<^verbatim>\<open>module_run\<close>, with a bound on the depth of its recursion. The call of \<^verbatim>\<open>init\<close>, which is code of the
  module, is recorded.
\<close>

fun module_run :: "kernel_symbols \<Rightarrow> nat \<Rightarrow> nat \<Rightarrow> mstate \<Rightarrow> mstate option" where
  "module_run K 0 m st = None"
| "module_run K (Suc n) m st =
     do {
       md \<leftarrow> get_mod m st;
       if m_status md = MODULE_STATUS_LOADED then Some st
       else if m_status md = MODULE_STATUS_LOADING then None
       else do {
         let st = upd_mod m (\<lambda>md. md\<lparr>m_status := MODULE_STATUS_LOADING\<rparr>) st;
         st \<leftarrow> module_deps (module_run K n) m st;
         st \<leftarrow> module_link K m st;
         let st = st\<lparr>ms_calls := ms_calls st @ [m]\<rparr>;
         Some (upd_mod m (\<lambda>md. md\<lparr>m_status := MODULE_STATUS_LOADED\<rparr>) st)
       }
     }"

section \<open>Loading the modules\<close>

text \<open>The names and dependencies of a module are the contents of two sections.\<close>

fun module_names :: "elf_image \<Rightarrow> nat \<Rightarrow> nat \<Rightarrow> nat option \<times> nat option \<Rightarrow> (nat option \<times> nat option) option" where
  "module_names img 0 j nd = Some nd"
| "module_names img (Suc n) j nd =
     do {
       str \<leftarrow> array_get (img_section img) (e_shstrndx img);
       h \<leftarrow> array_get (img_section img) j;
       nm \<leftarrow> img_str (img_bytes img) (unat (sh_offset str) + unat (sh_name h));
       module_names img n (j + 1)
         (if nm = ''.module_name'' then Some (unat (sh_offset h)) else fst nd,
          if nm = ''.module_deps'' then Some (unat (sh_offset h)) else snd nd)
     }"

text \<open>The place of a section behind what the module has so far.\<close>

definition section_place :: "u32 \<Rightarrow> Elf_Shdr \<Rightarrow> u32" where
  "section_place sz h =
     (if sh_addralign h \<noteq> 0 then (sz + sh_addralign h - 1) AND NOT (sh_addralign h - 1) else sz)"

text \<open>
  The layout of the sections: \<open>n\<close> of them from \<open>j\<close> on, for module number \<open>i\<close>. The assertions of the loop look
  at section \<open>i\<close>, whatever the section at hand.
\<close>

fun module_layout :: "nat \<Rightarrow> nat \<Rightarrow> nat \<Rightarrow> Elf_Shdr list \<times> u32 \<Rightarrow> (Elf_Shdr list \<times> u32) option" where
  "module_layout i 0 j (secs, sz) = Some (secs, sz)"
| "module_layout i (Suc n) j (secs, sz) =
     do {
       x \<leftarrow> array_get secs i;
       kassert (sh_type x \<noteq> SHT_DYNAMIC);
       kassert (sh_type x \<noteq> SHT_DYNSYM);
       h \<leftarrow> array_get secs j;
       if \<not> sh_alloc h then module_layout i n (j + 1) (secs, sz)
       else do {
         let a = section_place sz h;
         module_layout i n (j + 1) (secs[j := h\<lparr>sh_addr := a\<rparr>], a + sh_size h)
       }
     }"

text \<open>The contents of the sections, and the table of symbols.\<close>

fun module_contents :: "nat \<Rightarrow> nat \<Rightarrow> module_t \<Rightarrow> module_t option" where
  "module_contents 0 j md = Some md"
| "module_contents (Suc n) j md =
     do {
       h \<leftarrow> array_get (img_section (exe md)) j;
       let md = (if sh_type h = SHT_SYMTAB
                 then md\<lparr>m_symtab := Some j, m_strtab := Some (unat (sh_link h))\<rparr> else md);
       if \<not> sh_alloc h then module_contents n (j + 1) md
       else
         (case sh_type h of
            SHT_PROGBITS \<Rightarrow>
              do {
                bs \<leftarrow> mem_slice (img_bytes (exe md)) (unat (sh_offset h)) (unat (sh_size h));
                mem \<leftarrow> mem_store (core_mem md) (unat (sh_addr h)) (map Some bs);
                module_contents n (j + 1) (md\<lparr>core_mem := mem\<rparr>)
              }
          | SHT_NOBITS \<Rightarrow>
              do {
                mem \<leftarrow> mem_store (core_mem md) (unat (sh_addr h)) (replicate (unat (sh_size h)) (Some 0));
                module_contents n (j + 1) (md\<lparr>core_mem := mem\<rparr>)
              }
          | _ \<Rightarrow> None)
     }"

text \<open>One module: number \<open>i\<close> of the boot loader. The address that \<^verbatim>\<open>kmalloc\<close> returns is an argument.\<close>

definition module_load :: "(nat \<Rightarrow> u32 \<Rightarrow> u32) \<Rightarrow> nat \<Rightarrow> elf_image \<Rightarrow> string \<Rightarrow> module_t option" where
  "module_load kmalloc i img cmdline =
     do {
       kassert (e_magic img);
       kassert (e_type img = ET_REL);
       (name, deps) \<leftarrow> module_names img (e_shnum img - 1) 1 (None, None);
       kassert (name \<noteq> None);
       kassert (deps \<noteq> None);
       (secs, sz) \<leftarrow> module_layout i (e_shnum img - 1) 1 (img_section img, 0);
       let ptr = kmalloc i sz;
       kassert (ptr \<noteq> 0);
       md \<leftarrow> module_contents (e_shnum img - 1) 1
              \<lparr>exe = img\<lparr>img_section := secs\<rparr>, m_symtab = None, m_strtab = None, core_ptr = ptr, core_size = sz,
               core_mem = replicate (unat sz) None, m_init = 0, m_dnit = 0, m_name = name, m_deps = deps,
               m_args = [], m_status = MODULE_STATUS_UNKNOWN, m_refcount = 0\<rparr>;
       kassert (m_symtab md \<noteq> None);
       kassert (m_strtab md \<noteq> None);
       Some (md\<lparr>m_status := MODULE_STATUS_READY, m_refcount := 1, m_args := cmdline\<rparr>)
     }"

text \<open>The comparison of the name of a new module with those of the queue; a duplicate is a panic.\<close>

fun module_fresh :: "module_t \<Rightarrow> module_t list \<Rightarrow> unit option" where
  "module_fresh md [] = Some ()"
| "module_fresh md (v # vs) =
     do {
       name \<leftarrow> mod_name md;
       nm \<leftarrow> mod_name v;
       kassert (name \<noteq> nm);
       module_fresh md vs
     }"

fun module_load_all ::
  "(nat \<Rightarrow> u32 \<Rightarrow> u32) \<Rightarrow> nat \<Rightarrow> (elf_image \<times> string) list \<Rightarrow> module_t list \<Rightarrow> module_t list option" where
  "module_load_all kmalloc i [] queue = Some queue"
| "module_load_all kmalloc i ((img, cmdline) # mods) queue =
     do {
       md \<leftarrow> module_load kmalloc i img cmdline;
       module_fresh md queue;
       module_load_all kmalloc (i + 1) mods (queue @ [md])
     }"

text \<open>\<^verbatim>\<open>module_init\<close> over the modules of the boot loader, of which the first one is skipped.\<close>

definition module_init :: "kernel_symbols \<Rightarrow> (nat \<Rightarrow> u32 \<Rightarrow> u32) \<Rightarrow> (elf_image \<times> string) list \<Rightarrow> mstate option" where
  "module_init K kmalloc mods =
     do {
       queue \<leftarrow> module_load_all kmalloc 1 (drop 1 mods) [];
       run_list (module_run K (length queue + 1)) [0..<length queue] \<lparr>ms_queue = queue, ms_symtab = [], ms_calls = []\<rparr>
     }"

text \<open>The functions \<^verbatim>\<open>dnit\<close> that \<^verbatim>\<open>module_dnit\<close> calls.\<close>

definition module_dnit :: "mstate \<Rightarrow> u32 list" where
  "module_dnit st = map m_dnit (filter (\<lambda>md. m_status md = MODULE_STATUS_LOADED) (ms_queue st))"

section \<open>The layout of a module\<close>

text \<open>Alignments are powers of two, and a section needs its size and at most its alignment.\<close>

definition align_ok :: "Elf_Shdr \<Rightarrow> bool" where
  "align_ok h \<longleftrightarrow> sh_addralign h = 0 \<or> (\<exists>k < 32. sh_addralign h = 2 ^ k)"

definition section_need :: "Elf_Shdr \<Rightarrow> nat" where
  "section_need h = (if sh_alloc h then unat (sh_size h) + unat (sh_addralign h) else 0)"

lemma unat_pow2: "k < 32 \<Longrightarrow> unat (2 ^ k :: u32) = 2 ^ k"
proof -
  assume "k < 32"
  then have "(2 :: nat) ^ k < 2 ^ 32" by (rule power_strict_increasing) simp
  moreover have "(2 ^ k :: u32) = of_nat (2 ^ k)" by simp
  ultimately show ?thesis by (simp only: unat_of_nat take_bit_eq_mod) simp
qed

lemma and_not_below:
  fixes x :: u32
  assumes "k < 32"
  shows "unat (x AND NOT (2 ^ k - 1)) = unat x div 2 ^ k * 2 ^ k"
proof -
  have "x AND NOT (2 ^ k - 1) = push_bit k (drop_bit k x)"
    by (rule bit_word_eqI) (auto simp: bit_simps mask_eq_exp_minus_1 [symmetric])
  moreover have "unat (push_bit k (drop_bit k x)) = unat x div 2 ^ k * 2 ^ k"
  proof -
    have "unat (drop_bit k x) = unat x div 2 ^ k" by (simp add: drop_bit_eq_div unat_div unat_pow2 [OF assms])
    moreover have "unat x div 2 ^ k * 2 ^ k < 2 ^ 32"
      using unat_u32_less [of x] by (meson div_times_less_eq_dividend le_less_trans)
    ultimately show ?thesis by (simp add: push_bit_eq_mult unat_word_ariths unat_pow2 [OF assms])
  qed
  ultimately show ?thesis by simp
qed

lemma round_up_bounds:
  fixes n :: nat
  assumes "0 < a"
  shows "n \<le> (n + a - 1) div a * a" "(n + a - 1) div a * a < n + a"
proof -
  have "(n + a - 1) div a * a + (n + a - 1) mod a = n + a - 1" by (rule div_mult_mod_eq)
  moreover have "(n + a - 1) mod a < a" using assms by simp
  ultimately show "n \<le> (n + a - 1) div a * a" "(n + a - 1) div a * a < n + a" using assms by linarith+
qed

lemma section_place_ok:
  assumes "align_ok h" "unat sz + unat (sh_addralign h) < 2 ^ 32"
  shows "unat sz \<le> unat (section_place sz h)" "unat (section_place sz h) \<le> unat sz + unat (sh_addralign h)"
    "unat (sh_addralign h) dvd unat (section_place sz h) \<or> sh_addralign h = 0"
proof -
  consider (none) "sh_addralign h = 0" | (some) k where "k < 32" "sh_addralign h = 2 ^ k" using assms(1) by (auto simp: align_ok_def)
  then have "unat sz \<le> unat (section_place sz h) \<and> unat (section_place sz h) \<le> unat sz + unat (sh_addralign h)
    \<and> (unat (sh_addralign h) dvd unat (section_place sz h) \<or> sh_addralign h = 0)"
  proof cases
    case none
    then show ?thesis by (simp add: section_place_def)
  next
    case some
    have a: "unat (sh_addralign h) = 2 ^ k" using some by (simp add: unat_pow2)
    then have nz: "sh_addralign h \<noteq> 0" by auto
    have "unat (sz + sh_addralign h - 1) = unat sz + 2 ^ k - 1"
    proof -
      have s: "unat (sz + sh_addralign h) = unat sz + 2 ^ k" using unat_add_small [OF assms(2)] a by simp
      then have "1 \<le> sz + sh_addralign h" by (simp add: word_le_nat_alt Suc_leI)
      with s show ?thesis by (simp add: unat_sub)
    qed
    then have "unat (section_place sz h) = (unat sz + 2 ^ k - 1) div 2 ^ k * 2 ^ k"
      using nz and_not_below [OF some(1), of "sz + sh_addralign h - 1"] some(2) by (simp add: section_place_def)
    then show ?thesis using round_up_bounds [of "2 ^ k" "unat sz"] a by simp
  qed
  then show "unat sz \<le> unat (section_place sz h)" "unat (section_place sz h) \<le> unat sz + unat (sh_addralign h)"
    "unat (sh_addralign h) dvd unat (section_place sz h) \<or> sh_addralign h = 0" by simp_all
qed

text \<open>Where a section ends, and what the layout promises of the sections in \<open>I\<close>, placed from \<open>lo\<close> to \<open>hi\<close>.\<close>

abbreviation sec_end :: "Elf_Shdr \<Rightarrow> nat" where
  "sec_end h \<equiv> unat (sh_addr h) + unat (sh_size h)"

definition laid_out :: "nat set \<Rightarrow> nat \<Rightarrow> nat \<Rightarrow> Elf_Shdr list \<Rightarrow> Elf_Shdr list \<Rightarrow> bool" where
  "laid_out I lo hi secs secs' \<longleftrightarrow> length secs' = length secs
     \<and> (\<forall>m. m \<notin> I \<or> \<not> sh_alloc (secs ! m) \<longrightarrow> secs' ! m = secs ! m)
     \<and> (\<forall>m \<in> I. m < length secs \<and> (\<exists>a. secs' ! m = (secs ! m)\<lparr>sh_addr := a\<rparr>))
     \<and> (\<forall>m \<in> I. sh_alloc (secs ! m) \<longrightarrow> lo \<le> unat (sh_addr (secs' ! m)) \<and> sec_end (secs' ! m) \<le> hi
          \<and> (unat (sh_addralign (secs ! m)) dvd unat (sh_addr (secs' ! m)) \<or> sh_addralign (secs ! m) = 0))
     \<and> (\<forall>m \<in> I. \<forall>k \<in> I. m < k \<longrightarrow> sh_alloc (secs ! m) \<longrightarrow> sh_alloc (secs ! k) \<longrightarrow>
          sec_end (secs' ! m) \<le> unat (sh_addr (secs' ! k)))"

lemma laid_out_keeps:
  assumes "laid_out I lo hi secs secs'" "m \<in> I"
  shows "sh_alloc (secs' ! m) = sh_alloc (secs ! m)" "sh_addralign (secs' ! m) = sh_addralign (secs ! m)"
proof -
  obtain a where "secs' ! m = (secs ! m)\<lparr>sh_addr := a\<rparr>" using assms by (auto simp: laid_out_def)
  then show "sh_alloc (secs' ! m) = sh_alloc (secs ! m)" "sh_addralign (secs' ! m) = sh_addralign (secs ! m)" by simp_all
qed

lemma laid_out_skip:
  assumes "laid_out {Suc j..<Suc j + n} lo hi secs secs'" "j < length secs" "\<not> sh_alloc (secs ! j)"
  shows "laid_out {j..<j + Suc n} lo hi secs secs'"
proof -
  have I: "{j..<j + Suc n} = insert j {Suc j..<Suc j + n}" by auto
  have "\<exists>a. secs ! j = (secs ! j)\<lparr>sh_addr := a\<rparr>" by (rule exI [of _ "sh_addr (secs ! j)"]) simp
  with assms show ?thesis unfolding I laid_out_def by auto
qed

lemma laid_out_place:
  assumes r: "laid_out {Suc j..<Suc j + n} mid hi (secs[j := (secs ! j)\<lparr>sh_addr := a\<rparr>]) secs'" and j: "j < length secs"
    and al: "sh_alloc (secs ! j)" and a: "lo \<le> unat a" "unat a + unat (sh_size (secs ! j)) \<le> mid" "mid \<le> hi"
    "unat (sh_addralign (secs ! j)) dvd unat a \<or> sh_addralign (secs ! j) = 0"
  shows "laid_out {j..<j + Suc n} lo hi secs secs'"
proof -
  let ?I = "{Suc j..<Suc j + n}"
  have I: "{j..<j + Suc n} = insert j ?I" by auto
  have lm: "lo \<le> mid" using a(1,2) by linarith
  have at: "secs' ! j = (secs ! j)\<lparr>sh_addr := a\<rparr>" using r j by (simp add: laid_out_def)
  have other: "secs[j := (secs ! j)\<lparr>sh_addr := a\<rparr>] ! m = secs ! m" if "m \<noteq> j" for m using that by simp
  note R = r [unfolded laid_out_def]
  note R4 = R [THEN conjunct2, THEN conjunct2, THEN conjunct2, THEN conjunct1]
  show ?thesis
    unfolding laid_out_def
  proof (intro conjI allI ballI impI)
    fix m assume "m \<notin> {j..<j + Suc n} \<or> \<not> sh_alloc (secs ! m)"
    then have "m \<noteq> j" "m \<notin> ?I \<or> \<not> sh_alloc (secs ! m)" using al by auto
    then show "secs' ! m = secs ! m" using R other [of m] by auto
  next
    fix m assume m: "m \<in> {j..<j + Suc n}"
    show "m < length secs" using m R j unfolding I by auto
    show "\<exists>a. secs' ! m = (secs ! m)\<lparr>sh_addr := a\<rparr>" using m R at other [of m] unfolding I by auto
    assume am: "sh_alloc (secs ! m)"
    have "lo \<le> unat (sh_addr (secs' ! m)) \<and> sec_end (secs' ! m) \<le> hi
        \<and> (unat (sh_addralign (secs ! m)) dvd unat (sh_addr (secs' ! m)) \<or> sh_addralign (secs ! m) = 0)"
    proof (cases "m = j")
      case True
      with at a show ?thesis by simp
    next
      case False
      with m have "m \<in> ?I" unfolding I by simp
      from bspec [OF R4 this] am lm show ?thesis unfolding other [OF False] by linarith
    qed
    then show "lo \<le> unat (sh_addr (secs' ! m))" "sec_end (secs' ! m) \<le> hi"
      "unat (sh_addralign (secs ! m)) dvd unat (sh_addr (secs' ! m)) \<or> sh_addralign (secs ! m) = 0" by simp_all
    fix k assume k: "k \<in> {j..<j + Suc n}" "m < k" "sh_alloc (secs ! k)"
    then have k': "k \<in> ?I" "k \<noteq> j" using m by auto
    show "sec_end (secs' ! m) \<le> unat (sh_addr (secs' ! k))"
    proof (cases "m = j")
      case True
      have "mid \<le> unat (sh_addr (secs' ! k))" using R k' k(3) other [of k] by auto
      with at a(2) True show ?thesis by simp
    next
      case False
      with m have m': "m \<in> ?I" unfolding I by simp
      with R k'(1) k(2) have "sh_alloc (secs[j := (secs ! j)\<lparr>sh_addr := a\<rparr>] ! m) \<longrightarrow>
          sh_alloc (secs[j := (secs ! j)\<lparr>sh_addr := a\<rparr>] ! k) \<longrightarrow> sec_end (secs' ! m) \<le> unat (sh_addr (secs' ! k))" by simp
      with am k(3) show ?thesis by (simp only: other [OF False] other [OF k'(2)])
    qed
  qed (use R in simp)
qed

lemma module_layout_ok:
  assumes "module_layout i n j (secs, sz) = Some (secs', sz')" "\<forall>m \<in> {j..<j + n}. align_ok (secs ! m)"
    "unat sz + (\<Sum>m = j..<j + n. section_need (secs ! m)) < 2 ^ 32"
  shows "laid_out {j..<j + n} (unat sz) (unat sz') secs secs'
    \<and> unat sz \<le> unat sz' \<and> unat sz' \<le> unat sz + (\<Sum>m = j..<j + n. section_need (secs ! m))"
  using assms
proof (induction n arbitrary: j secs sz)
  case 0
  then show ?case by (simp add: laid_out_def)
next
  case (Suc n)
  let ?h = "secs ! j"
  have j: "j < length secs" using Suc.prems(1) by (auto simp: array_get_eq_Some bind_eq_Some_conv)
  have I: "{j..<j + Suc n} = insert j {Suc j..<Suc j + n}" by auto
  have sum: "(\<Sum>m = j..<j + Suc n. section_need (secs ! m))
      = section_need ?h + (\<Sum>m = Suc j..<Suc j + n. section_need (secs ! m))" unfolding I by simp
  show ?case
  proof (cases "sh_alloc ?h")
    case False
    with Suc.prems(1) j have "module_layout i n (Suc j) (secs, sz) = Some (secs', sz')" by (auto simp: bind_eq_Some_conv)
    from Suc.IH [OF this] Suc.prems(2,3) laid_out_skip [OF _ j False] show ?thesis
      unfolding sum by (auto simp: section_need_def False)
  next
    case True
    define a where a: "a = section_place sz ?h"
    have al: "align_ok ?h" using Suc.prems(2) by auto
    have need: "section_need ?h = unat (sh_size ?h) + unat (sh_addralign ?h)" using True by (simp add: section_need_def)
    have lt: "unat sz + unat (sh_addralign ?h) < 2 ^ 32" using Suc.prems(3) unfolding sum need by linarith
    note A = section_place_ok [OF al lt, folded a]
    have au: "unat (a + sh_size ?h) = unat a + unat (sh_size ?h)"
      using A(2) Suc.prems(3) unfolding sum need by (intro unat_add_small) linarith
    let ?secs = "secs[j := ?h\<lparr>sh_addr := a\<rparr>]"
    have l: "module_layout i n (Suc j) (?secs, a + sh_size ?h) = Some (secs', sz')"
      using Suc.prems(1) j True by (auto simp: bind_eq_Some_conv Let_def a)
    have eq: "?secs ! m = secs ! m" if "m \<in> {Suc j..<Suc j + n}" for m using that by auto
    have sm: "(\<Sum>m = Suc j..<Suc j + n. section_need (?secs ! m)) = (\<Sum>m = Suc j..<Suc j + n. section_need (secs ! m))"
      by (intro sum.cong) (auto simp: eq)
    have "laid_out {Suc j..<Suc j + n} (unat (a + sh_size ?h)) (unat sz') ?secs secs'
        \<and> unat (a + sh_size ?h) \<le> unat sz'
        \<and> unat sz' \<le> unat (a + sh_size ?h) + (\<Sum>m = Suc j..<Suc j + n. section_need (secs ! m))"
      using Suc.IH [OF l] Suc.prems(2,3) A(2) unfolding sm sum need au by (auto simp: eq)
    with laid_out_place [OF _ j True A(1), of n "unat (a + sh_size ?h)" "unat sz'" secs'] A au show ?thesis
      unfolding sum need by auto
  qed
qed

text \<open>A section in memory: the bytes of the file, or zeros.\<close>

definition section_filled :: "module_t \<Rightarrow> nat \<Rightarrow> bool" where
  "section_filled md m =
     (let h = img_section (exe md) ! m; here = mem_slice (core_mem md) (unat (sh_addr h)) (unat (sh_size h)) in
      case sh_type h of
        SHT_PROGBITS \<Rightarrow> \<exists>bs. mem_slice (img_bytes (exe md)) (unat (sh_offset h)) (unat (sh_size h)) = Some bs
          \<and> here = Some (map Some bs)
      | SHT_NOBITS \<Rightarrow> here = Some (replicate (unat (sh_size h)) (Some 0))
      | _ \<Rightarrow> False)"

lemma mem_slice_store_other:
  assumes "mem_store xs off ys = Some zs" "a + n \<le> off \<or> off + length ys \<le> a"
  shows "mem_slice zs a n = mem_slice xs a n"
proof -
  have l: "length zs = length xs" using assms(1) by (rule length_mem_store)
  have "take n (drop a zs) = take n (drop a xs)" if "a + n \<le> length xs"
    using assms that l by (intro nth_equalityI) (auto simp: nth_mem_store [OF assms(1)])
  then show ?thesis by (simp add: mem_slice_def l)
qed

text \<open>One step of the loop fills its section and leaves those before it as they are.\<close>

lemma contents_step:
  assumes st: "mem_store (core_mem md) (unat (sh_addr (img_section (exe md) ! j))) ys = Some mem"
    and len: "length ys = unat (sh_size (img_section (exe md) ! j))"
    and ord: "m < j" "sec_end (img_section (exe md) ! m) \<le> unat (sh_addr (img_section (exe md) ! j))"
    and f: "section_filled md m"
  shows "section_filled (md\<lparr>core_mem := mem\<rparr>) m"
  using mem_slice_store_other [OF st, of "unat (sh_addr (img_section (exe md) ! m))" "unat (sh_size (img_section (exe md) ! m))"]
    ord f by (simp add: section_filled_def Let_def cong: elf_shtype.case_cong)

definition ordered_sections :: "nat \<Rightarrow> Elf_Shdr list \<Rightarrow> bool" where
  "ordered_sections n secs \<longleftrightarrow> (\<forall>m k. 1 \<le> m \<longrightarrow> m < k \<longrightarrow> k < n \<longrightarrow> sh_alloc (secs ! m) \<longrightarrow> sh_alloc (secs ! k) \<longrightarrow>
     sec_end (secs ! m) \<le> unat (sh_addr (secs ! k)))"

lemma contents_fill:
  assumes c: "module_contents (Suc n) j md = Some md'"
    and md1: "md1 = (if sh_type (img_section (exe md) ! j) = SHT_SYMTAB
      then md\<lparr>m_symtab := Some j, m_strtab := Some (unat (sh_link (img_section (exe md) ! j)))\<rparr> else md)"
    and al: "sh_alloc (img_section (exe md) ! j)"
  obtains ys mem where "mem_store (core_mem md1) (unat (sh_addr (img_section (exe md) ! j))) ys = Some mem"
    "length ys = unat (sh_size (img_section (exe md) ! j))"
    "module_contents n (Suc j) (md1\<lparr>core_mem := mem\<rparr>) = Some md'" "section_filled (md1\<lparr>core_mem := mem\<rparr>) j"
proof -
  let ?h = "img_section (exe md) ! j"
  have E: "exe md1 = exe md" by (simp add: md1)
  show thesis
  proof (cases "sh_type ?h")
    case SHT_PROGBITS
    with c al obtain bs mem where b: "mem_slice (img_bytes (exe md1)) (unat (sh_offset ?h)) (unat (sh_size ?h)) = Some bs"
      "mem_store (core_mem md1) (unat (sh_addr ?h)) (map Some bs) = Some mem" "module_contents n (Suc j) (md1\<lparr>core_mem := mem\<rparr>) = Some md'"
      by (auto simp: bind_eq_Some_conv array_get_eq_Some md1)
    with that [of "map Some bs" mem] length_mem_slice [OF b(1)] mem_slice_store [OF b(2)] SHT_PROGBITS show thesis
      by (simp add: section_filled_def E Let_def)
  next
    case SHT_NOBITS
    with c al obtain mem where b: "mem_store (core_mem md1) (unat (sh_addr ?h)) (replicate (unat (sh_size ?h)) (Some 0)) = Some mem"
      "module_contents n (Suc j) (md1\<lparr>core_mem := mem\<rparr>) = Some md'"
      by (auto simp: bind_eq_Some_conv array_get_eq_Some md1)
    with that [of "replicate (unat (sh_size ?h)) (Some 0)" mem] mem_slice_store [OF b(1)] SHT_NOBITS show thesis
      by (simp add: section_filled_def E Let_def)
  qed (use c al in \<open>auto simp: bind_eq_Some_conv array_get_eq_Some\<close>)
qed

lemma module_contents_ok:
  assumes "module_contents n j md = Some md'" "1 \<le> j" "j + n \<le> N" "ordered_sections N (img_section (exe md))"
    "\<forall>m \<in> {1..<j}. sh_alloc (img_section (exe md) ! m) \<longrightarrow> section_filled md m"
  shows "exe md' = exe md \<and> length (core_mem md') = length (core_mem md) \<and> core_ptr md' = core_ptr md
    \<and> core_size md' = core_size md
    \<and> (\<forall>m \<in> {1..<j + n}. sh_alloc (img_section (exe md) ! m) \<longrightarrow> section_filled md' m)"
  using assms
proof (induction n arbitrary: j md)
  case 0
  then show ?case by simp
next
  case (Suc n)
  let ?h = "img_section (exe md) ! j"
  define md1 where md1: "md1 = (if sh_type ?h = SHT_SYMTAB then md\<lparr>m_symtab := Some j, m_strtab := Some (unat (sh_link ?h))\<rparr> else md)"
  have E: "exe md1 = exe md" "core_mem md1 = core_mem md" "core_ptr md1 = core_ptr md" "core_size md1 = core_size md"
    by (simp_all add: md1)
  have sf: "section_filled md1 m = section_filled md m" for m by (simp add: section_filled_def E cong: elf_shtype.case_cong)
  have J: "{1..<Suc j} = insert j {1..<j}" using Suc.prems(2) by auto
  show ?case
  proof (cases "sh_alloc ?h")
    case False
    with Suc.prems(1) have "module_contents n (Suc j) md1 = Some md'" by (auto simp: bind_eq_Some_conv array_get_eq_Some md1)
    from Suc.IH [OF this] Suc.prems(2-5) False show ?thesis by (auto simp: E J sf simp del: One_nat_def)
  next
    case True
    obtain ys mem where y: "mem_store (core_mem md1) (unat (sh_addr ?h)) ys = Some mem" "length ys = unat (sh_size ?h)"
      "module_contents n (Suc j) (md1\<lparr>core_mem := mem\<rparr>) = Some md'" "section_filled (md1\<lparr>core_mem := mem\<rparr>) j"
      using contents_fill [OF Suc.prems(1) md1 True] .
    have "section_filled (md1\<lparr>core_mem := mem\<rparr>) m" if "m \<in> {1..<j}" "sh_alloc (img_section (exe md) ! m)" for m
      using contents_step [of md1 j ys mem m] y that Suc.prems(3-5) True by (auto simp: E sf ordered_sections_def)
    with y(4) have "\<forall>m \<in> {1..<Suc j}. sh_alloc (img_section (exe md) ! m) \<longrightarrow> section_filled (md1\<lparr>core_mem := mem\<rparr>) m"
      unfolding J by auto
    with Suc.IH [OF y(3)] Suc.prems(2-4) length_mem_store [OF y(1)] show ?thesis by (simp add: E)
  qed
qed

text \<open>C28. Loading a module gives each of its sections that belong into memory a place of its own: the places
  are aligned as the sections ask for, do not overlap and lie inside the memory that is allocated,
  and after the loading they hold the contents of the section in the file, or zeros.\<close>

theorem module_load_sections:
  assumes "module_load kmalloc i img cmdline = Some md" "\<forall>m \<in> {1..<e_shnum img}. align_ok (img_section img ! m)"
    "(\<Sum>m = 1..<e_shnum img. section_need (img_section img ! m)) < 2 ^ 32"
  shows "\<forall>m \<in> {1..<e_shnum img}. sh_alloc (img_section img ! m) \<longrightarrow>
      (let h = img_section (exe md) ! m in
       section_filled md m \<and> sec_end h \<le> length (core_mem md)
       \<and> (unat (sh_addralign h) dvd unat (sh_addr h) \<or> sh_addralign h = 0)
       \<and> (\<forall>k \<in> {m<..<e_shnum img}. sh_alloc (img_section img ! k) \<longrightarrow>
            sec_end h \<le> unat (sh_addr (img_section (exe md) ! k))))"
proof -
  let ?N = "e_shnum img"
  from assms(1) obtain secs sz md0 md1 where l: "module_layout i (?N - 1) 1 (img_section img, 0) = Some (secs, sz)"
    "module_contents (?N - 1) 1 md0 = Some md1" and md0: "img_section (exe md0) = secs" "core_mem md0 = replicate (unat sz) None"
    and md: "exe md = exe md1" "core_mem md = core_mem md1"
    by (auto simp: module_load_def Let_def bind_eq_Some_conv)
  show ?thesis
  proof (cases "1 < ?N")
    case True
    then have N: "1 + (?N - 1) = ?N" by simp
    have L: "laid_out {1..<?N} 0 (unat sz) (img_section img) secs"
      using module_layout_ok [OF l(1)] assms(2,3) unfolding N by simp
    note alloc = laid_out_keeps [OF L]
    have "ordered_sections ?N secs"
      using L alloc unfolding ordered_sections_def laid_out_def by (auto simp del: One_nat_def)
    from module_contents_ok [OF l(2), of ?N] this
    have C: "exe md1 = exe md0" "length (core_mem md1) = unat sz" "\<forall>m \<in> {1..<?N}. sh_alloc (secs ! m) \<longrightarrow> section_filled md1 m"
      unfolding N by (simp_all add: md0)
    have "section_filled md m = section_filled md1 m" for m
      by (simp add: section_filled_def md cong: elf_shtype.case_cong)
    with L C alloc show ?thesis by (auto simp: laid_out_def md md0 Let_def simp del: One_nat_def)
  qed simp
qed

section \<open>What linking leaves alone\<close>

text \<open>Linking changes values of symbols, the memory and the entry points of modules, and the table of symbols.\<close>

definition same_modules :: "mstate \<Rightarrow> mstate \<Rightarrow> bool" where
  "same_modules st st' \<longleftrightarrow> length (ms_queue st') = length (ms_queue st) \<and> ms_calls st' = ms_calls st
     \<and> (\<forall>x < length (ms_queue st). m_status (ms_queue st' ! x) = m_status (ms_queue st ! x)
          \<and> m_name (ms_queue st' ! x) = m_name (ms_queue st ! x) \<and> m_deps (ms_queue st' ! x) = m_deps (ms_queue st ! x)
          \<and> img_bytes (exe (ms_queue st' ! x)) = img_bytes (exe (ms_queue st ! x)))"

lemma same_modules_refl [simp]: "same_modules st st"
  by (simp add: same_modules_def)

lemma same_modules_trans: "same_modules st st' \<Longrightarrow> same_modules st' st'' \<Longrightarrow> same_modules st st''"
  by (simp add: same_modules_def)

lemma upd_mod_nth:
  "x < length (ms_queue st) \<Longrightarrow> ms_queue (upd_mod m f st) ! x = (if x = m then f (ms_queue st ! x) else ms_queue st ! x)"
  "length (ms_queue (upd_mod m f st)) = length (ms_queue st)" "ms_calls (upd_mod m f st) = ms_calls st"
  "ms_symtab (upd_mod m f st) = ms_symtab st"
  by (auto simp: upd_mod_def nth_list_update)

lemma same_modules_upd:
  assumes "\<And>md. m_status (f md) = m_status md" "\<And>md. m_name (f md) = m_name md" "\<And>md. m_deps (f md) = m_deps md"
    "\<And>md. img_bytes (exe (f md)) = img_bytes (exe md)"
  shows "same_modules st (upd_mod m f st)"
  using assms by (simp add: same_modules_def upd_mod_nth)

lemma same_modules_symtab: "same_modules st (st\<lparr>ms_symtab := t\<rparr>)"
  by (simp add: same_modules_def)

lemma module_export_same: "module_export owner name a st = Some st' \<Longrightarrow> same_modules st st'"
  by (auto simp: module_export_def export_symbol_def split: option.splits if_splits
      intro!: same_modules_upd same_modules_symtab)

lemma module_resolve_same: "module_resolve K name st = Some (a, st') \<Longrightarrow> same_modules st st'"
  by (auto simp: module_resolve_def bind_eq_Some_conv split: option.splits if_splits dest: module_export_same)

lemma upd_sym_same: "same_modules st (upd_sym m off i v st)"
  unfolding upd_sym_def by (rule same_modules_upd) simp_all

lemma module_symbol_same:
  assumes "module_symbol K m h i st = Some st'"
  shows "same_modules st st'"
proof -
  from assms obtain md syms s where s: "get_mod m st = Some md" "img_syms (exe md) (sh_offset h) = Some syms" "array_get syms i = Some s"
    by (auto simp: module_symbol_def bind_eq_Some_conv)
  show ?thesis
  proof (cases "st_shndx s")
    case SHN_UNDEF
    with assms s obtain nm a st1 where "module_resolve K nm st = Some (a, st1)" "st' = upd_sym m (sh_offset h) i a st1"
      by (auto simp: module_symbol_def bind_eq_Some_conv Let_def)
    then show ?thesis using module_resolve_same same_modules_trans [OF _ upd_sym_same] by blast
  next
    case SHN_ABS
    with assms s show ?thesis by (simp add: module_symbol_def Let_def)
  next
    case (SHN_index k)
    with assms s obtain nm v where "st' = upd_sym m (sh_offset h) i v st \<or> module_export (Some m) nm v (upd_sym m (sh_offset h) i v st) = Some st'"
      by (auto simp: module_symbol_def bind_eq_Some_conv Let_def split: if_splits)
    then show ?thesis using upd_sym_same module_export_same same_modules_trans [OF upd_sym_same] by blast
  qed
qed

lemma module_symbols_same: "module_symbols K m h n i st = Some st' \<Longrightarrow> same_modules st st'"
  by (induction n arbitrary: i st) (auto simp: bind_eq_Some_conv dest!: module_symbol_same intro: same_modules_trans)

text \<open>Relocations change the memory of the module only.\<close>

definition only_mem :: "module_t \<Rightarrow> module_t \<Rightarrow> bool" where
  "only_mem md md' \<longleftrightarrow> md'\<lparr>core_mem := []\<rparr> = md\<lparr>core_mem := []\<rparr>"

lemma only_mem_rules:
  "only_mem md md" "only_mem md (md\<lparr>core_mem := mem\<rparr>)" "only_mem md md' \<Longrightarrow> only_mem md' md'' \<Longrightarrow> only_mem md md''"
  by (simp_all add: only_mem_def)

lemma only_mem_sel:
  assumes "only_mem md md'"
  shows "m_status md' = m_status md" "m_name md' = m_name md" "m_deps md' = m_deps md" "exe md' = exe md"
    "core_ptr md' = core_ptr md"
  using assms by (metis only_mem_def module_t.surjective module_t.update_convs(6) module_t.select_convs)+

lemma module_reloc_same: "module_reloc sec off k t a md = Some md' \<Longrightarrow> only_mem md md'"
  by (auto simp: module_reloc_def Let_def bind_eq_Some_conv only_mem_def split: option.splits)

lemma module_rel_loop_same: "module_rel_loop sec rs md = Some md' \<Longrightarrow> only_mem md md'"
  by (induction rs arbitrary: md) (auto simp: bind_eq_Some_conv intro: only_mem_rules dest!: module_reloc_same)

lemma module_rela_loop_same: "module_rela_loop sec rs md = Some md' \<Longrightarrow> only_mem md md'"
  by (induction rs arbitrary: md) (auto simp: bind_eq_Some_conv intro: only_mem_rules dest!: module_reloc_same)

lemma module_rels_same: "module_rels n i md = Some md' \<Longrightarrow> only_mem md md'"
  by (induction n arbitrary: i md)
    (auto simp: bind_eq_Some_conv intro: only_mem_rules split: if_splits dest!: module_rel_loop_same)

lemma module_relas_same: "module_relas n i md = Some md' \<Longrightarrow> only_mem md md'"
  by (induction n arbitrary: i md)
    (auto simp: bind_eq_Some_conv intro: only_mem_rules split: if_splits dest!: module_rela_loop_same)

lemma module_link_same:
  assumes "module_link K m st = Some st'"
  shows "same_modules st st'"
proof -
  from assms obtain h n st1 md md' where s: "module_symbols K m h n 0 st = Some st1"
    and m: "m < length (ms_queue st1)" "md = ms_queue st1 ! m" and st': "st' = upd_mod m (\<lambda>_. md') st1"
    and r: "\<exists>md1. module_rels (e_shnum (exe md) - 1) 1 md = Some md1 \<and> module_relas (e_shnum (exe md1) - 1) 1 md1 = Some md'"
    by (auto simp: module_link_def bind_eq_Some_conv array_get_eq_Some)
  from r have "only_mem md md'" by (auto dest!: module_rels_same module_relas_same intro: only_mem_rules)
  then have "same_modules st1 st'" using m st' by (auto simp: same_modules_def upd_mod_nth only_mem_sel)
  with module_symbols_same [OF s] show ?thesis by (rule same_modules_trans)
qed

section \<open>The order of initialisation\<close>

text \<open>The modules that a module of the queue names as its dependencies.\<close>

definition module_needs :: "module_t list \<Rightarrow> nat \<Rightarrow> nat set" where
  "module_needs q m =
     {k. \<exists>off deps. m_deps (q ! m) = Some off \<and> img_str (img_bytes (exe (q ! m))) off = Some deps
        \<and> (\<exists>nm \<in> set (strtok_all [] deps). find_module q 0 nm = Some k)}"

text \<open>The string of the name of a module lies apart from the one of its dependencies, which \<^verbatim>\<open>strtok\<close> changes.\<close>

definition names_apart :: "module_t \<Rightarrow> bool" where
  "names_apart md \<longleftrightarrow> (\<forall>a b nm deps. m_name md = Some a \<longrightarrow> m_deps md = Some b \<longrightarrow>
     img_str (img_bytes (exe md)) a = Some nm \<longrightarrow> img_str (img_bytes (exe md)) b = Some deps \<longrightarrow>
     a + length nm < b \<or> b + length deps \<le> a)"

lemma img_str_iff:
  "img_str bs off = Some nm \<longleftrightarrow>
     (\<exists>w r. drop off bs = w @ 0 # r \<and> 0 \<notin> set w \<and> nm = map (\<lambda>b. char_of (uint b)) w)"
proof
  assume "img_str bs off = Some nm"
  then have z: "0 \<in> set (drop off bs)" and nm: "nm = map (\<lambda>b. char_of (uint b)) (takeWhile (\<lambda>b. b \<noteq> 0) (drop off bs))"
    by (auto simp: img_str_def Let_def split: if_splits)
  from split_list_first [OF z] obtain w r where "drop off bs = w @ 0 # r" "0 \<notin> set w" by blast
  moreover from this(2) have "takeWhile (\<lambda>b. b \<noteq> 0) (w @ 0 # r) = w @ takeWhile (\<lambda>b. b \<noteq> 0) (0 # r)"
    by (intro takeWhile_append2) auto
  ultimately show "\<exists>w r. drop off bs = w @ 0 # r \<and> 0 \<notin> set w \<and> nm = map (\<lambda>b. char_of (uint b)) w" using nm by auto
next
  assume "\<exists>w r. drop off bs = w @ 0 # r \<and> 0 \<notin> set w \<and> nm = map (\<lambda>b. char_of (uint b)) w"
  then obtain w r where w: "drop off bs = w @ 0 # r" "0 \<notin> set w" "nm = map (\<lambda>b. char_of (uint b)) w" by blast
  then have "takeWhile (\<lambda>b. b \<noteq> 0) (w @ 0 # r) = w @ takeWhile (\<lambda>b. b \<noteq> 0) (0 # r)" by (intro takeWhile_append2) auto
  with w show "img_str bs off = Some nm" by (simp add: img_str_def)
qed

text \<open>A string depends on its own bytes only.\<close>

lemma img_str_other:
  assumes s: "img_str bs off = Some nm" and eq: "\<And>i. off \<le> i \<Longrightarrow> i \<le> off + length nm \<Longrightarrow> bs' ! i = bs ! i"
    and len: "length bs' = length bs"
  shows "img_str bs' off = Some nm"
proof -
  from s obtain w r where w: "drop off bs = w @ 0 # r" "0 \<notin> set w" "nm = map (\<lambda>b. char_of (uint b)) w" by (auto simp: img_str_iff)
  have l: "off + length nm < length bs" using w(3) arg_cong [OF w(1), of length] by simp
  have "take (length w + 1) (drop off bs') = take (length w + 1) (drop off bs)"
    using l len w(3) eq by (intro nth_equalityI) auto
  also have "\<dots> = w @ [0]" by (simp add: w(1))
  finally have "drop off bs' = (w @ [0]) @ drop (length w + 1) (drop off bs')" by (metis append_take_drop_id)
  with w show ?thesis by (auto simp: img_str_iff)
qed

lemma img_str_len: "img_str bs off = Some nm \<Longrightarrow> off + length nm < length bs"
  by (auto simp: img_str_iff dest: arg_cong [of _ _ length])

lemma length_strtok_cut [simp]: "length (strtok_cut tok s) = length s"
  by (induction tok s rule: strtok_cut.induct) auto

lemma mod_name_cut:
  assumes "names_apart md" "mod_name md = Some nm" "m_deps md = Some b" "img_str (img_bytes (exe md)) b = Some deps"
    "length xs = length deps"
  shows "mod_name (md\<lparr>exe := (exe md)\<lparr>img_bytes := pwrite (img_bytes (exe md)) b xs\<rparr>\<rparr>) = Some nm"
proof -
  let ?bs = "img_bytes (exe md)"
  from assms(2) obtain a where a: "m_name md = Some a" "img_str ?bs a = Some nm" by (auto simp: mod_name_def bind_eq_Some_conv)
  have l: "b + length xs \<le> length ?bs" using img_str_len [OF assms(4)] assms(5) by simp
  have "a + length nm < b \<or> b + length xs \<le> a" using assms(1,3-5) a by (auto simp: names_apart_def)
  then have "img_str (pwrite ?bs b xs) a = Some nm"
    using l img_str_len [OF a(2)] by (intro img_str_other [OF a(2)]) (auto simp: nth_pwrite length_pwrite_in)
  with a show ?thesis by (simp add: mod_name_def)
qed

definition module_wf :: "module_t \<Rightarrow> bool" where
  "module_wf md \<longleftrightarrow> mod_name md \<noteq> None \<and> names_apart md"

text \<open>
  The invariant, relative to the queue as it was loaded: names are kept, and the functions called so far
  belong to the loaded modules, each once and after those of the modules it needs.
\<close>

definition run_inv :: "module_t list \<Rightarrow> mstate \<Rightarrow> bool" where
  "run_inv q st \<longleftrightarrow> length (ms_queue st) = length q
     \<and> (\<forall>x < length q. m_name (ms_queue st ! x) = m_name (q ! x) \<and> m_deps (ms_queue st ! x) = m_deps (q ! x)
          \<and> mod_name (ms_queue st ! x) = mod_name (q ! x)
          \<and> m_status (ms_queue st ! x) \<in> {MODULE_STATUS_READY, MODULE_STATUS_LOADING, MODULE_STATUS_LOADED}
          \<and> (m_status (ms_queue st ! x) = MODULE_STATUS_READY \<longrightarrow>
               img_bytes (exe (ms_queue st ! x)) = img_bytes (exe (q ! x))))
     \<and> distinct (ms_calls st)
     \<and> set (ms_calls st) = {x. x < length q \<and> m_status (ms_queue st ! x) = MODULE_STATUS_LOADED}
     \<and> (\<forall>i < length (ms_calls st). module_needs q (ms_calls st ! i) \<subseteq> set (take i (ms_calls st)))"

definition run_ext :: "mstate \<Rightarrow> mstate \<Rightarrow> bool" where
  "run_ext st st' \<longleftrightarrow> set (ms_calls st) \<subseteq> set (ms_calls st') \<and> length (ms_queue st') = length (ms_queue st)
     \<and> (\<forall>x < length (ms_queue st). m_status (ms_queue st ! x) = MODULE_STATUS_LOADING \<longrightarrow>
          m_status (ms_queue st' ! x) = MODULE_STATUS_LOADING)"

lemma run_ext_refl [simp]: "run_ext st st"
  by (simp add: run_ext_def)

lemma run_ext_trans: "run_ext st st' \<Longrightarrow> run_ext st' st'' \<Longrightarrow> run_ext st st''"
  by (auto simp: run_ext_def)

lemma find_module_cong:
  assumes "length q' = length q" "\<And>x. x < length q \<Longrightarrow> mod_name (q' ! x) = mod_name (q ! x)"
  shows "find_module q' i nm = find_module q i nm"
  using assms
proof (induction q' q arbitrary: i rule: list_induct2)
  case (Cons a as b bs)
  from Cons.prems [of 0] have "mod_name a = mod_name b" by simp
  moreover have "find_module as j nm = find_module bs j nm" for j
  proof (rule Cons.IH)
    show "mod_name (as ! x) = mod_name (bs ! x)" if "x < length bs" for x using Cons.prems [of "Suc x"] that by simp
  qed
  ultimately show ?case by (simp cong: if_cong)
qed simp

lemma run_inv_same:
  assumes "same_modules st st'" "run_inv q st"
  shows "run_inv q st'" "run_ext st st'"
proof -
  note S = assms(1) [unfolded same_modules_def] and I = assms(2) [unfolded run_inv_def]
  have n: "mod_name (ms_queue st' ! x) = mod_name (ms_queue st ! x)" if "x < length q" for x
    using S I that by (simp add: mod_name_def)
  have "{x. x < length q \<and> m_status (ms_queue st' ! x) = MODULE_STATUS_LOADED}
      = {x. x < length q \<and> m_status (ms_queue st ! x) = MODULE_STATUS_LOADED}" using S I by auto
  with S I n show "run_inv q st'" unfolding run_inv_def by simp
  from S I show "run_ext st st'" by (simp add: run_ext_def)
qed

lemma run_inv_upd:
  assumes inv: "run_inv q st" and m: "m < length q" "m_status (ms_queue st ! m) = MODULE_STATUS_LOADING"
    and f: "m_status (f (ms_queue st ! m)) = MODULE_STATUS_LOADING" "m_name (f (ms_queue st ! m)) = m_name (q ! m)"
      "m_deps (f (ms_queue st ! m)) = m_deps (q ! m)" "mod_name (f (ms_queue st ! m)) = mod_name (q ! m)"
  shows "run_inv q (upd_mod m f st)" "run_ext st (upd_mod m f st)"
proof -
  note I = inv [unfolded run_inv_def]
  have "m_status (ms_queue (upd_mod m f st) ! x) = m_status (ms_queue st ! x)" if "x < length q" for x
    using that f(1) m I by (simp add: upd_mod_nth)
  then show "run_inv q (upd_mod m f st)" "run_ext st (upd_mod m f st)"
    using I f m by (auto simp: run_inv_def run_ext_def upd_mod_nth)
qed

text \<open>What a call of \<^verbatim>\<open>module_run\<close> promises, and that a sequence of calls keeps the promise.\<close>

definition run_ok :: "module_t list \<Rightarrow> (nat \<Rightarrow> mstate \<Rightarrow> mstate option) \<Rightarrow> bool" where
  "run_ok q run \<longleftrightarrow> (\<forall>k st st'. run k st = Some st' \<longrightarrow> run_inv q st \<longrightarrow>
     run_inv q st' \<and> run_ext st st' \<and> k \<in> set (ms_calls st'))"

lemma run_list_ok:
  assumes "run_ok q run" "run_list run ks st = Some st'" "run_inv q st"
  shows "run_inv q st' \<and> run_ext st st' \<and> set ks \<subseteq> set (ms_calls st')"
  using assms(2,3)
proof (induction ks arbitrary: st)
  case (Cons k ks)
  from Cons.prems(1) obtain s1 where s1: "run k st = Some s1" "run_list run ks s1 = Some st'"
    by (auto simp: bind_eq_Some_conv)
  with assms(1) Cons.prems(2) have R: "run_inv q s1" "run_ext st s1" "k \<in> set (ms_calls s1)" by (auto simp: run_ok_def)
  from Cons.IH [OF s1(2) R(1)] R show ?case by (auto simp: run_ext_def)
qed simp

lemma those_Some: "those xs = Some ys \<Longrightarrow> set xs = Some ` set ys"
  by (induction xs arbitrary: ys) (auto split: option.splits)

lemma those_length: "those xs = Some ys \<Longrightarrow> length ys = length xs"
  by (induction xs arbitrary: ys) (auto split: option.splits)

lemma strtok_all_single: "CHR '','' \<notin> set s \<Longrightarrow> strtok_all acc s = (if acc @ s = [] then [] else [acc @ s])"
  by (induction s arbitrary: acc) auto

lemma module_deps_ok:
  assumes run: "run_ok q run" and d: "module_deps run m st = Some st'" and inv: "run_inv q st"
    and m: "m < length q" "m_status (ms_queue st ! m) = MODULE_STATUS_LOADING" "module_wf (q ! m)"
      "img_bytes (exe (ms_queue st ! m)) = img_bytes (exe (q ! m))"
  shows "run_inv q st' \<and> run_ext st st' \<and> module_needs q m \<subseteq> set (ms_calls st')"
proof -
  note I = inv [unfolded run_inv_def]
  let ?md = "ms_queue st ! m"
  have ml: "m < length (ms_queue st)" using m(1) I by simp
  from d ml obtain off deps where dp: "m_deps ?md = Some off" "img_str (img_bytes (exe ?md)) off = Some deps"
    by (auto simp: module_deps_def bind_eq_Some_conv)
  have needs: "module_needs q m = {k. \<exists>nm \<in> set (strtok_all [] deps). find_module q 0 nm = Some k}"
    using dp m I by (auto simp: module_needs_def)
  show ?thesis
  proof (cases "CHR '','' \<in> set deps")
    case False
    show ?thesis
    proof (cases "deps = []")
      case True
      with d ml dp inv show ?thesis by (simp add: module_deps_def needs)
    next
      case ne: False
      with d ml dp False obtain k where k: "find_module (ms_queue st) 0 deps = Some k" "run k st = Some st'"
        by (auto simp: module_deps_def bind_eq_Some_conv)
      have "find_module q 0 deps = Some k" using k(1) I find_module_cong [of "ms_queue st" q 0 deps] by simp
      moreover have "run_inv q st' \<and> run_ext st st' \<and> k \<in> set (ms_calls st')" using run k(2) inv by (auto simp: run_ok_def)
      ultimately show ?thesis using strtok_all_single [OF False, of "[]"] ne by (auto simp: needs)
    qed
  next
    case True
    let ?f = "\<lambda>md. md\<lparr>exe := (exe md)\<lparr>img_bytes := pwrite (img_bytes (exe md)) off (strtok_cut False deps)\<rparr>\<rparr>"
    define s1 where s1: "s1 = upd_mod m ?f st"
    have ne: "deps \<noteq> []" using True by auto
    from d ml dp True ne obtain ks where ks: "those (map (find_module (ms_queue s1) 0) (strtok_all [] deps)) = Some ks"
      "run_list run (rev ks) s1 = Some st'"
      by (auto simp: module_deps_def bind_eq_Some_conv Let_def s1)
    have nm: "mod_name (?f ?md) = mod_name (q ! m)"
    proof -
      obtain nm where "mod_name ?md = Some nm" "names_apart ?md"
        using m I by (auto simp: module_wf_def names_apart_def)
      from mod_name_cut [OF this(2,1) dp, of "strtok_cut False deps"] m(1) I this(1) show ?thesis by simp
    qed
    have i1: "run_inv q s1" "run_ext st s1"
      unfolding s1 by (rule run_inv_upd [OF inv m(1,2)]; use nm m(1,2) I in simp)+
    have fm: "find_module (ms_queue s1) 0 nm' = find_module q 0 nm'" for nm'
      using i1(1) by (intro find_module_cong) (simp_all add: run_inv_def)
    have R: "run_inv q st' \<and> run_ext s1 st' \<and> set (rev ks) \<subseteq> set (ms_calls st')" by (rule run_list_ok [OF run ks(2) i1(1)])
    have "k \<in> module_needs q m \<longleftrightarrow> Some k \<in> set (map (find_module (ms_queue s1) 0) (strtok_all [] deps))" for k
      unfolding needs by (auto simp: fm image_iff eq_commute)
    then have "module_needs q m = set ks" using those_Some [OF ks(1)] by auto
    with R i1(2) show ?thesis by (auto intro: run_ext_trans)
  qed
qed

lemma run_inv_start:
  assumes inv: "run_inv q st" and m: "m < length q" "m_status (ms_queue st ! m) = MODULE_STATUS_READY"
  shows "run_inv q (upd_mod m (\<lambda>md. md\<lparr>m_status := MODULE_STATUS_LOADING\<rparr>) st)"
    "run_ext st (upd_mod m (\<lambda>md. md\<lparr>m_status := MODULE_STATUS_LOADING\<rparr>) st)"
proof -
  note I = inv [unfolded run_inv_def]
  let ?st = "upd_mod m (\<lambda>md. md\<lparr>m_status := MODULE_STATUS_LOADING\<rparr>) st"
  have "{x. x < length q \<and> m_status (ms_queue ?st ! x) = MODULE_STATUS_LOADED}
      = {x. x < length q \<and> m_status (ms_queue st ! x) = MODULE_STATUS_LOADED}"
    using I m by (auto simp: upd_mod_nth split: if_splits)
  moreover have "mod_name (ms_queue ?st ! x) = mod_name (ms_queue st ! x)" if "x < length q" for x
    using that I by (simp add: upd_mod_nth mod_name_def)
  ultimately show "run_inv q ?st" using I m unfolding run_inv_def by (auto simp: upd_mod_nth)
  show "run_ext st ?st" using I by (auto simp: run_ext_def upd_mod_nth)
qed

lemma run_inv_finish:
  assumes inv: "run_inv q st" and m: "m < length q" "m_status (ms_queue st ! m) = MODULE_STATUS_LOADING"
    and needs: "module_needs q m \<subseteq> set (ms_calls st)"
  shows "run_inv q (upd_mod m (\<lambda>md. md\<lparr>m_status := MODULE_STATUS_LOADED\<rparr>) (st\<lparr>ms_calls := ms_calls st @ [m]\<rparr>))"
proof -
  note I = inv [unfolded run_inv_def]
  let ?st = "upd_mod m (\<lambda>md. md\<lparr>m_status := MODULE_STATUS_LOADED\<rparr>) (st\<lparr>ms_calls := ms_calls st @ [m]\<rparr>)"
  have q: "ms_queue ?st ! x = (if x = m then (ms_queue st ! x)\<lparr>m_status := MODULE_STATUS_LOADED\<rparr> else ms_queue st ! x)"
    if "x < length q" for x using that I by (simp add: upd_mod_nth)
  have "m \<notin> set (ms_calls st)" using I m by simp
  moreover have "insert m (set (ms_calls st)) = {x. x < length q \<and> m_status (ms_queue ?st ! x) = MODULE_STATUS_LOADED}"
    using I m(1) by (auto simp: q)
  moreover have "module_needs q ((ms_calls st @ [m]) ! i) \<subseteq> set (take i (ms_calls st @ [m]))" if "i < length (ms_calls st @ [m])" for i
    using that I needs by (cases "i < length (ms_calls st)") (auto simp: nth_append)
  moreover have "mod_name (ms_queue ?st ! x) = mod_name (q ! x)" if "x < length q" for x
    using that I by (auto simp: q mod_name_def)
  ultimately show ?thesis using I unfolding run_inv_def by (auto simp: upd_mod_nth)
qed

lemma module_run_ok:
  assumes wf: "\<forall>md \<in> set q. module_wf md"
  shows "run_ok q (module_run K n)"
proof (induction n)
  case 0
  show ?case by (simp add: run_ok_def)
next
  case (Suc n)
  show ?case
    unfolding run_ok_def
  proof (intro allI impI)
    fix m st st' assume r: "module_run K (Suc n) m st = Some st'" and inv: "run_inv q st"
    note I = inv [unfolded run_inv_def]
    have m: "m < length q" using r I by (auto simp: bind_eq_Some_conv array_get_eq_Some)
    show "run_inv q st' \<and> run_ext st st' \<and> m \<in> set (ms_calls st')"
    proof (cases "m_status (ms_queue st ! m) = MODULE_STATUS_LOADED")
      case True
      with r m I inv show ?thesis by auto
    next
      case False
      with r m I have ready: "m_status (ms_queue st ! m) = MODULE_STATUS_READY" by (auto split: if_splits)
      define s1 where s1: "s1 = upd_mod m (\<lambda>md. md\<lparr>m_status := MODULE_STATUS_LOADING\<rparr>) st"
      from r m I False obtain s2 s3 where s: "module_deps (module_run K n) m s1 = Some s2" "module_link K m s2 = Some s3"
        "st' = upd_mod m (\<lambda>md. md\<lparr>m_status := MODULE_STATUS_LOADED\<rparr>) (s3\<lparr>ms_calls := ms_calls s3 @ [m]\<rparr>)"
        by (auto simp: bind_eq_Some_conv Let_def s1 split: if_splits)
      note S1 = run_inv_start [OF inv m ready, folded s1]
      have l1: "m_status (ms_queue s1 ! m) = MODULE_STATUS_LOADING" "img_bytes (exe (ms_queue s1 ! m)) = img_bytes (exe (q ! m))"
        using m I ready by (simp_all add: s1 upd_mod_nth)
      have S2: "run_inv q s2 \<and> run_ext s1 s2 \<and> module_needs q m \<subseteq> set (ms_calls s2)"
        using wf m by (intro module_deps_ok [OF Suc.IH s(1) S1(1) m l1(1) _ l1(2)]) simp
      have S3: "run_inv q s3" "run_ext s2 s3" using run_inv_same [OF module_link_same [OF s(2)]] S2 by blast+
      have e: "run_ext s1 s3" using S2 S3 run_ext_trans by blast
      have "m_status (ms_queue s3 ! m) = MODULE_STATUS_LOADING" using e l1(1) m S1(1) by (simp add: run_ext_def run_inv_def)
      moreover have "module_needs q m \<subseteq> set (ms_calls s3)" using S2 S3(2) by (auto simp: run_ext_def)
      ultimately have "run_inv q st'" using S2 S3(1) m unfolding s(3) by (intro run_inv_finish) auto
      moreover have "run_ext st st'"
        using run_ext_trans [OF S1(2) e] m ready I by (auto simp: run_ext_def s(3) upd_mod_nth)
      moreover have "m \<in> set (ms_calls st')" by (simp add: s(3) upd_mod_nth)
      ultimately show ?thesis by blast
    qed
  qed
qed

lemma module_load_all_ready:
  "module_load_all kmalloc i mods queue = Some q \<Longrightarrow> \<forall>md \<in> set queue. m_status md = MODULE_STATUS_READY \<Longrightarrow>
   \<forall>md \<in> set q. m_status md = MODULE_STATUS_READY"
proof (induction kmalloc i mods queue rule: module_load_all.induct)
  case (2 kmalloc i img cmdline mods queue)
  then obtain md where md: "module_load kmalloc i img cmdline = Some md" "module_fresh md queue = Some ()"
    "module_load_all kmalloc (i + 1) mods (queue @ [md]) = Some q" by (auto simp: bind_eq_Some_conv)
  have "m_status md = MODULE_STATUS_READY" using md(1) by (auto simp: module_load_def Let_def bind_eq_Some_conv)
  with 2(1) [OF md] 2(3) show ?case by simp
qed simp


section \<open>The depth of the recursion\<close>

text \<open>
  Each level of \<^verbatim>\<open>module_run\<close> marks a module that was not marked before, so that the depth that
  \<open>module_init\<close> allows is never used up.
\<close>

definition fresh_modules :: "mstate \<Rightarrow> nat set" where
  "fresh_modules st = {x. x < length (ms_queue st)
     \<and> m_status (ms_queue st ! x) \<notin> {MODULE_STATUS_LOADED, MODULE_STATUS_LOADING}}"

definition run_shrinks :: "(nat \<Rightarrow> mstate \<Rightarrow> mstate option) \<Rightarrow> bool" where
  "run_shrinks run \<longleftrightarrow> (\<forall>k st st'. run k st = Some st' \<longrightarrow> fresh_modules st' \<subseteq> fresh_modules st)"

lemma fresh_same: "same_modules st st' \<Longrightarrow> fresh_modules st' = fresh_modules st"
  by (auto simp: same_modules_def fresh_modules_def)

lemma fresh_upd:
  "(\<And>md. m_status (f md) = m_status md) \<Longrightarrow> fresh_modules (upd_mod m f st) = fresh_modules st"
  "fresh_modules (upd_mod m (\<lambda>md. md\<lparr>m_status := MODULE_STATUS_LOADING\<rparr>) st) = fresh_modules st - {m}"
  "fresh_modules (upd_mod m (\<lambda>md. md\<lparr>m_status := MODULE_STATUS_LOADED\<rparr>) st) = fresh_modules st - {m}"
  by (auto simp: fresh_modules_def upd_mod_nth split: if_splits)

lemma run_list_shrinks: "run_shrinks run \<Longrightarrow> run_list run ks st = Some st' \<Longrightarrow> fresh_modules st' \<subseteq> fresh_modules st"
  by (induction ks arbitrary: st) (fastforce simp: run_shrinks_def bind_eq_Some_conv)+

lemma module_deps_shrinks:
  assumes "run_shrinks run" "module_deps run m st = Some st'"
  shows "fresh_modules st' \<subseteq> fresh_modules st"
  using assms run_list_shrinks [OF assms(1)]
  by (fastforce simp: module_deps_def bind_eq_Some_conv Let_def run_shrinks_def fresh_upd split: if_splits)

lemma module_run_shrinks: "run_shrinks (module_run K n)"
proof (induction n)
  case (Suc n)
  show ?case
    unfolding run_shrinks_def
  proof (intro allI impI)
    fix m st st' assume r: "module_run K (Suc n) m st = Some st'"
    show "fresh_modules st' \<subseteq> fresh_modules st"
    proof (cases "st' = st")
      case False
      with r obtain s2 s3 where s: "module_deps (module_run K n) m (upd_mod m (\<lambda>md. md\<lparr>m_status := MODULE_STATUS_LOADING\<rparr>) st) = Some s2"
        "module_link K m s2 = Some s3" "st' = upd_mod m (\<lambda>md. md\<lparr>m_status := MODULE_STATUS_LOADED\<rparr>) (s3\<lparr>ms_calls := ms_calls s3 @ [m]\<rparr>)"
        by (auto simp: bind_eq_Some_conv Let_def split: if_splits)
      have "fresh_modules (s3\<lparr>ms_calls := ms_calls s3 @ [m]\<rparr>) = fresh_modules s3" by (simp add: fresh_modules_def)
      then show ?thesis
        using module_deps_shrinks [OF Suc.IH s(1)] fresh_same [OF module_link_same [OF s(2)]] by (auto simp: s(3) fresh_upd)
    qed simp
  qed
qed (simp add: run_shrinks_def)

lemma run_list_cong:
  assumes "run_shrinks run" "\<And>k s. fresh_modules s \<subseteq> F \<Longrightarrow> run k s = run' k s" "fresh_modules st \<subseteq> F"
  shows "run_list run ks st = run_list run' ks st"
  using assms(3)
proof (induction ks arbitrary: st)
  case (Cons k ks)
  have "run k st = run' k st" using assms(2) Cons.prems by simp
  moreover have "run_list run ks s1 = run_list run' ks s1" if "run k st = Some s1" for s1
  proof (rule Cons.IH)
    have "fresh_modules s1 \<subseteq> fresh_modules st" using assms(1) that by (simp add: run_shrinks_def)
    with Cons.prems show "fresh_modules s1 \<subseteq> F" by simp
  qed
  ultimately show ?case by (cases "run' k st") auto
qed simp

lemma module_deps_cong:
  assumes "run_shrinks run" "\<And>k s. fresh_modules s \<subseteq> F \<Longrightarrow> run k s = run' k s" "fresh_modules st \<subseteq> F"
  shows "module_deps run m st = module_deps run' m st"
proof -
  have "run_list run ks s = run_list run' ks s" if "fresh_modules s \<subseteq> F" for ks s
    using run_list_cong [OF assms(1,2) that] .
  with assms(2,3) show ?thesis
    unfolding module_deps_def by (intro Option.bind_cong if_cong refl) (simp_all add: Let_def fresh_upd)
qed

lemma module_run_fuel:
  assumes "card (fresh_modules st) < n" "card (fresh_modules st) < n'"
  shows "module_run K n m st = module_run K n' m st"
  using assms
proof (induction n arbitrary: n' m st)
  case (Suc a)
  then obtain b where n': "n' = Suc b" by (cases n') auto
  show ?case
  proof (cases "m \<in> fresh_modules st")
    case False
    then show ?thesis by (auto simp: n' fresh_modules_def array_get_def)
  next
    case True
    let ?s = "upd_mod m (\<lambda>md. md\<lparr>m_status := MODULE_STATUS_LOADING\<rparr>) st"
    have fin: "finite (fresh_modules s)" for s by (simp add: fresh_modules_def)
    have c: "card (fresh_modules ?s) < a" "card (fresh_modules ?s) < b"
      using Suc.prems card_Diff1_less [OF fin True] n' by (simp_all add: fresh_upd)
    have "module_run K a k s = module_run K b k s" if "fresh_modules s \<subseteq> fresh_modules ?s" for k s
      using card_mono [OF fin that] c by (intro Suc.IH) linarith+
    then have "module_deps (module_run K a) m ?s = module_deps (module_run K b) m ?s"
      by (rule module_deps_cong [OF module_run_shrinks _ subset_refl])
    with True show ?thesis by (simp add: n' Let_def fresh_modules_def)
  qed
qed simp

section \<open>Two modules\<close>

text \<open>
  A module with the sections for its name and dependencies, four bytes of code, and the symbols \<^verbatim>\<open>init\<close> and
  \<^verbatim>\<open>dnit\<close>; names and dependencies have one character.
\<close>

definition demo_section :: "u32 \<Rightarrow> elf_shtype \<Rightarrow> bool \<Rightarrow> u32 \<Rightarrow> u32 \<Rightarrow> u32 \<Rightarrow> Elf_Shdr" where
  "demo_section nm t al off sz align =
     \<lparr>sh_name = nm, sh_type = t, sh_alloc = al, sh_addr = 0, sh_offset = off, sh_size = sz, sh_link = 6, sh_info = 0,
      sh_addralign = align, sh_entsize = 16\<rparr>"

definition demo_symbol :: "u32 \<Rightarrow> u32 \<Rightarrow> elf_shndx \<Rightarrow> Elf_Sym" where
  "demo_symbol nm v sec = \<lparr>st_name = nm, st_value = v, st_size = 2, st_type = STT_FUNC, st_bind = STB_GLOBAL, st_shndx = sec\<rparr>"

definition demo_elf :: "byte \<Rightarrow> byte \<Rightarrow> elf_image" where
  "demo_elf name deps =
     \<lparr>e_magic = True, e_type = ET_REL, e_shnum = 7, e_shstrndx = 1,
      img_section =
        [demo_section 0 SHT_NULL False 0 0 0, demo_section 0 SHT_STRTAB False 0 27 1,
         demo_section 1 SHT_PROGBITS True 27 2 1, demo_section 14 SHT_PROGBITS True 29 2 1,
         demo_section 0 SHT_PROGBITS True 41 4 4, demo_section 0 SHT_SYMTAB False 100 48 4,
         demo_section 0 SHT_STRTAB False 31 10 1],
      img_bytes = [0, 46, 109, 111, 100, 117, 108, 101, 95, 110, 97, 109, 101, 0, 46, 109, 111, 100, 117, 108, 101, 95, 100, 101, 112, 115, 0] @ [name, 0]
        @ [deps, 0, 105, 110, 105, 116, 0, 100, 110, 105, 116, 0, 1, 2, 3, 4],
      img_syms = [100 \<mapsto> [demo_symbol 4 0 SHN_UNDEF, demo_symbol 0 0 (SHN_index 4), demo_symbol 5 2 (SHN_index 4)]],
      img_rels = Map.empty, img_relas = Map.empty\<rparr>"

definition demo_modules :: "(elf_image \<times> string) list" where
  "demo_modules = [(demo_elf 99 0, []), (demo_elf 98 97, []), (demo_elf 97 0, [])]"

definition demo_alloc :: "nat \<Rightarrow> u32 \<Rightarrow> u32" where
  "demo_alloc i sz = 0xC0200000 + 0x1000 * of_nat i"

definition demo_kernel :: kernel_symbols where
  "demo_kernel name = Some 0xC0100000"

lemma demo_calls: "map_option ms_calls (module_init demo_kernel demo_alloc demo_modules) = Some [1, 0]"
  by code_simp

lemma demo_queue:
  "map_option (map (\<lambda>md. (m_name md, m_deps md, mod_name md, do { off \<leftarrow> m_deps md; img_str (img_bytes (exe md)) off })))
     (module_load_all demo_alloc 1 (drop 1 demo_modules) [])
   = Some [(Some 27, Some 29, Some ''b'', Some ''a''), (Some 27, Some 29, Some ''a'', Some [])]"
  by code_simp


lemma demo_needs: "map_option core_size (module_load demo_alloc 1 (demo_elf 98 97) []) = Some 8"
  by code_simp

theorem module_load_sections_witness:
  "\<exists>md. module_load demo_alloc 1 (demo_elf 98 97) [] = Some md \<and> section_filled md 2 \<and> section_filled md 4
    \<and> sec_end (img_section (exe md) ! 2) \<le> unat (sh_addr (img_section (exe md) ! 4))"
proof -
  obtain md where md: "module_load demo_alloc 1 (demo_elf 98 97) [] = Some md" using demo_needs by auto
  have I: "{1..<7} = {1, 2, 3, 4, 5, 6 :: nat}" by auto
  have S: "img_section (demo_elf 98 97) ! 1 = demo_section 0 SHT_STRTAB False 0 27 1"
    "img_section (demo_elf 98 97) ! 2 = demo_section 1 SHT_PROGBITS True 27 2 1"
    "img_section (demo_elf 98 97) ! 3 = demo_section 14 SHT_PROGBITS True 29 2 1"
    "img_section (demo_elf 98 97) ! 4 = demo_section 0 SHT_PROGBITS True 41 4 4"
    "img_section (demo_elf 98 97) ! 5 = demo_section 0 SHT_SYMTAB False 100 48 4"
    "img_section (demo_elf 98 97) ! 6 = demo_section 0 SHT_STRTAB False 31 10 1" "e_shnum (demo_elf 98 97) = 7"
    by (simp_all add: demo_elf_def)
  have "\<exists>k < 32. (1 :: u32) = 2 ^ k" "\<exists>k < 32. (4 :: u32) = 2 ^ k" by (rule exI [of _ 0], simp) (rule exI [of _ 2], simp)
  then have "\<forall>m \<in> {1..<e_shnum (demo_elf 98 97)}. align_ok (img_section (demo_elf 98 97) ! m)"
    by (simp add: S I align_ok_def demo_section_def del: One_nat_def)
  moreover have "(\<Sum>m = 1..<e_shnum (demo_elf 98 97). section_need (img_section (demo_elf 98 97) ! m)) < 2 ^ 32"
    by (simp add: S I section_need_def demo_section_def del: One_nat_def)
  ultimately show ?thesis
    using module_load_sections [OF md] md by (auto simp: S I demo_section_def Let_def simp del: One_nat_def)
qed

section \<open>Several dependencies\<close>

text \<open>A module that names two or more dependencies, with one comma between two names, does not start: the
  array that collects the modules it needs has one element for each comma, one too few, and the last
  one is stored behind its end, which has no defined result.\<close>

lemma module_deps_overrun:
  assumes "get_mod m st = Some md" "m_status md = MODULE_STATUS_READY" "m_deps md = Some off"
    "img_str (img_bytes (exe md)) off = Some deps" "CHR '','' \<in> set deps"
    "length (strtok_all [] deps) = length (filter (\<lambda>c. c = CHR '','') deps) + 1"
  shows "module_run K n m st = None"
proof (cases n)
  case (Suc k)
  let ?s = "upd_mod m (\<lambda>md. md\<lparr>m_status := MODULE_STATUS_LOADING\<rparr>) st"
  have ne: "deps \<noteq> []" using assms(5) by auto
  have g: "get_mod m ?s = Some (md\<lparr>m_status := MODULE_STATUS_LOADING\<rparr>)"
    using assms(1) by (auto simp: array_get_eq_Some upd_mod_nth)
  have "module_deps (module_run K k) m ?s \<noteq> Some t" for t
    using assms(3-6) ne by (auto simp: module_deps_def g Let_def bind_eq_Some_conv dest!: those_length)
  then have "module_deps (module_run K k) m ?s = None" by (cases "module_deps (module_run K k) m ?s") auto
  with assms(1,2) Suc show ?thesis by (simp add: Let_def)
qed simp

definition demo_two :: module_t where
  "demo_two = \<lparr>exe = demo_elf 98 97\<lparr>img_bytes := [97, 44, 98, 0]\<rparr>, m_symtab = None, m_strtab = None, core_ptr = 0,
     core_size = 0, core_mem = [], m_init = 0, m_dnit = 0, m_name = None, m_deps = Some 0, m_args = [],
     m_status = MODULE_STATUS_READY, m_refcount = 1\<rparr>"

lemma module_deps_overrun_demo:
  "module_run demo_kernel 9 0 \<lparr>ms_queue = [demo_two], ms_symtab = [], ms_calls = []\<rparr> = None"
proof -
  have "img_str [97, 44, 98, 0] 0 = Some ''a,b''" by code_simp
  then have "m_status demo_two = MODULE_STATUS_READY" "m_deps demo_two = Some 0"
    "img_str (img_bytes (exe demo_two)) 0 = Some ''a,b''" by (simp_all add: demo_two_def)
  from module_deps_overrun [OF _ this, of "\<lparr>ms_queue = [demo_two], ms_symtab = [], ms_calls = []\<rparr>" 0 demo_kernel 9]
  show ?thesis by (simp del: module_run.simps)
qed

section \<open>Symbols and relocations\<close>

text \<open>The kernel symbol that a name resolves to, and the first one that covers an address.\<close>

lemma core_find_name_first:
  assumes "core_find_name x strtab symtab name n j = Some a" "a \<noteq> 0"
  shows "\<exists>i s. j \<le> i \<and> i < j + n \<and> core_sym x symtab i = Some s \<and> core_symname x strtab s = Some name \<and> st_value s = a
    \<and> (\<forall>k \<in> {j..<i}. \<exists>s'. core_sym x symtab k = Some s' \<and> core_symname x strtab s' \<noteq> Some name)"
  using assms
proof (induction n arbitrary: j)
  case (Suc n)
  from Suc.prems(1) obtain s nm where s: "core_sym x symtab j = Some s" "core_symname x strtab s = Some nm"
    by (auto simp: bind_eq_Some_conv)
  show ?case
  proof (cases "nm = name")
    case True
    with Suc.prems s show ?thesis by (intro exI [of _ j] exI [of _ s]) simp
  next
    case False
    with Suc.prems(1) s have "core_find_name x strtab symtab name n (Suc j) = Some a" by simp
    from Suc.IH [OF this Suc.prems(2)] obtain i s' where i: "Suc j \<le> i" "i < Suc j + n" "core_sym x symtab i = Some s'"
      "core_symname x strtab s' = Some name" "st_value s' = a"
      "\<forall>k \<in> {Suc j..<i}. \<exists>s'. core_sym x symtab k = Some s' \<and> core_symname x strtab s' \<noteq> Some name" by blast
    have "{j..<i} = insert j {Suc j..<i}" using i(1) by auto
    with i s False show ?thesis by (intro exI [of _ i] exI [of _ s']) auto
  qed
qed simp

text \<open>
  A module symbol has one address: exporting a name twice is a panic, so resolving a name that was exported
  returns the address it was exported with, as long as modules are run.
\<close>

lemma export_then_resolve:
  assumes "export_symbol name a st = Some st'"
  shows "module_resolve K name st' = Some (a, st')"
proof -
  have "map_of (ms_symtab st) name = None" using assms by (auto simp: export_symbol_def map_of_eq_None_iff split: if_splits)
  with assms show ?thesis by (auto simp: module_resolve_def export_symbol_def map_add_def split: if_splits)
qed

lemma export_distinct:
  assumes "module_export owner name a st = Some st'" "distinct (map fst (ms_symtab st))"
  shows "distinct (map fst (ms_symtab st'))"
  using assms by (auto simp: module_export_def export_symbol_def upd_mod_def split: option.splits if_splits)

text \<open>
  After a relocation relative to its place, the word plus the address of the word is the symbol plus the
  addend that the word held: a call through it goes to the symbol.
\<close>

lemma module_reloc_pc32:
  assumes r: "module_reloc sec off k R_386_PC32 None md = Some md'"
    and t: "array_get (img_section (exe md)) (unat (sh_info sec)) = Some target" "pos = unat (sh_addr target) + unat off"
    and l: "array_get (img_section (exe md)) (unat (sh_link sec)) = Some link"
  obtains syms s a w where "img_syms (exe md) (sh_offset link) = Some syms" "array_get syms k = Some s"
    "mem32 (core_mem md) pos = Some a" "mem32 (core_mem md') pos = Some w"
    "core_ptr md + sh_addr target + off + w = st_value s + a"
    "\<And>i. i < length (core_mem md) \<Longrightarrow> i < pos \<or> pos + 4 \<le> i \<Longrightarrow> core_mem md' ! i = core_mem md ! i"
proof -
  from r t l obtain syms s a mem where s: "img_syms (exe md) (sh_offset link) = Some syms" "array_get syms k = Some s"
    "mem32 (core_mem md) pos = Some a" and md': "md' = md\<lparr>core_mem := mem\<rparr>"
    and m: "mem_store (core_mem md) pos (map Some (bytes32 (st_value s + a - (core_ptr md + sh_addr target + off)))) = Some mem"
    by (auto simp: module_reloc_def reloc_value_def Let_def bind_eq_Some_conv)
  let ?w = "st_value s + a - (core_ptr md + sh_addr target + off)"
  have "drop pos mem = map Some (bytes32 ?w) @ drop (pos + 4) (core_mem md)"
    using m by (auto simp: mem_store_def split: if_splits)
  then have "mem32 mem pos = Some ?w" using mem32_drop [of pos mem 0] by simp
  moreover have "core_mem md' ! i = core_mem md ! i" if "i < length (core_mem md)" "i < pos \<or> pos + 4 \<le> i" for i
    using nth_mem_store [OF m that(1)] that(2) by (auto simp: md')
  ultimately show thesis using that [OF s, of ?w] by (simp add: md')
qed

end
