(* ===== verification/Sched.thy ===== *)
theory Sched
  imports Kprelude "HOL-Library.Signed_Division"
begin

text \<open>
  Tasks and the scheduler: \<^verbatim>\<open>kernel/sched.c\<close>, the task switch of \<^verbatim>\<open>arch/x86/task.c\<close>, the clock of
  \<^verbatim>\<open>arch/x86/timer.c\<close>, the processors of \<^verbatim>\<open>arch/x86/smp.c\<close>, the system calls \<^verbatim>\<open>clone\<close>, \<^verbatim>\<open>getpid\<close> and
  \<^verbatim>\<open>getcpu\<close>, and the system call table of \<^verbatim>\<open>kernel/syscall.c\<close>. A task is an address (0 is \<^verbatim>\<open>NULL\<close>) in a
  store of tasks, and the run queue is the list linked through the \<^verbatim>\<open>next\<close> fields. The theorems say
  which task the scheduler picks, that it picks every ready task in turn, and what a switch saves
  and restores.
\<close>

section \<open>Tasks and processors\<close>

type_synonym tptr = u32

definition TASK_STATUS_READY :: u32 where "TASK_STATUS_READY = 0"
definition TASK_STATUS_RUNNING :: u32 where "TASK_STATUS_RUNNING = 1"
definition TASK_PRIO_REG :: u32 where "TASK_PRIO_REG = 0"
definition TASK_CAPS_SYSTEM :: u32 where "TASK_CAPS_SYSTEM = 1"
definition CPU_MAX :: nat where "CPU_MAX = 64"
definition CPU_FLAGS_ENABLED :: u32 where "CPU_FLAGS_ENABLED = 1"
definition CPU_FLAGS_BSP :: u32 where "CPU_FLAGS_BSP = 2"
definition CPU_FLAGS_SCHED_ENABLED :: u32 where "CPU_FLAGS_SCHED_ENABLED = 4"
definition CONFIG_CLOCKS_PER_SEC :: int where "CONFIG_CLOCKS_PER_SEC = 1000000"
definition CONFIG_STACK_SIZE :: u32 where "CONFIG_STACK_SIZE = 0x10000"

text \<open>The saved state of a task: its kernel stack, the floating point registers, the interrupt frame.\<close>

record tframe =
  fr_regs :: "byte list"
  fr_fpu :: "byte list"
  fr_context :: u32

record tids =
  id_tid :: u32
  id_tgid :: u32
  id_pgid :: u32
  id_uid :: u32
  id_euid :: u32
  id_gid :: u32
  id_egid :: u32
  id_sid :: u32

text \<open>
  \<^verbatim>\<open>struct task\<close>; of \<^verbatim>\<open>clock\<close> the two fields the scheduler counts in, of the address space its page
  directory (\<open>None\<close> for a null pointer), and the limits as the bytes that are copied. The tables of
  descriptors and signals, which no function here reads or writes, are left out.
\<close>

record task =
  tk_frame :: tframe
  tk_argv :: u32
  tk_environ :: u32
  tk_ids :: tids
  tk_status :: u32
  tk_priority :: u32
  tk_affinity :: u32
  tk_utime :: u32
  tk_cutime :: u32
  tk_dirs :: "u32 \<times> u32 \<times> u32"
  tk_umask :: u32
  tk_exit :: u16
  tk_aspace :: "u32 option"
  tk_rlimits :: "(u32 \<times> u32) list"
  tk_nivcsw :: u32
  tk_lock :: bool
  tk_parent :: tptr
  tk_next :: tptr

text \<open>
  A processor; \<open>cp_core\<close> is the address of the task embedded in it. \<open>cp_fpu\<close>, \<open>cp_cr3\<close>, \<open>cp_esp0\<close> and
  \<open>cp_intr\<close> are its floating point registers, its page directory register, the stack of its task
  state segment and its interrupt flag. The clock is in seconds and nanoseconds, the type of the
  seconds being wide enough for the product below.
\<close>

record cpu =
  cp_id :: u32
  cp_node :: u32
  cp_flags :: u32
  cp_core :: tptr
  cp_current :: tptr
  cp_sec :: int
  cp_nsec :: int
  cp_fpu :: "byte list"
  cp_cr3 :: u32
  cp_esp0 :: u32
  cp_intr :: bool

text \<open>The state of the kernel; \<open>sc_apic\<close> is the number of the processor that runs the code.\<close>

record sched =
  sc_tasks :: "tptr \<rightharpoonup> task"
  sc_queue :: tptr
  sc_lock :: bool
  sc_last :: u64
  sc_nextpid :: u32
  sc_cpus :: "cpu list"
  sc_apic :: nat

definition get_cpu :: "nat \<Rightarrow> sched \<Rightarrow> cpu option option" where
  "get_cpu n s =
     do {
       kassert (n < CPU_MAX);
       c \<leftarrow> array_get (sc_cpus s) n;
       Some (if cp_flags c AND CPU_FLAGS_ENABLED \<noteq> 0 then Some c else None)
     }"

text \<open>The callers of \<^verbatim>\<open>get_current_cpu\<close> dereference the result, so a null pointer has no outcome.\<close>

definition get_current_cpu :: "sched \<Rightarrow> cpu option" where
  "get_current_cpu s = Option.bind (get_cpu (sc_apic s) s) (\<lambda>c. c)"

definition upd_cpu :: "(cpu \<Rightarrow> cpu) \<Rightarrow> sched \<Rightarrow> sched" where
  "upd_cpu f s = s\<lparr>sc_cpus := (sc_cpus s)[sc_apic s := f (sc_cpus s ! sc_apic s)]\<rparr>"

definition upd_tk :: "tptr \<Rightarrow> (task \<Rightarrow> task) \<Rightarrow> sched \<Rightarrow> sched option" where
  "upd_tk p f s = map_option (\<lambda>t. s\<lparr>sc_tasks := (sc_tasks s)(p \<mapsto> f t)\<rparr>) (sc_tasks s p)"

definition arch_timer_getus :: "sched \<Rightarrow> u64 option" where
  "arch_timer_getus s =
     map_option (\<lambda>c. of_int (cp_sec c * CONFIG_CLOCKS_PER_SEC) + of_int (cp_nsec c sdiv 1000)) (get_current_cpu s)"

definition arch_timer_getms :: "sched \<Rightarrow> u64 option" where
  "arch_timer_getms s =
     map_option (\<lambda>c. of_int (cp_sec c * CONFIG_CLOCKS_PER_SEC) + of_int (cp_nsec c sdiv 1000000)) (get_current_cpu s)"

definition arch_timer_getticks :: "sched \<Rightarrow> u64 option" where
  "arch_timer_getticks s =
     map_option (\<lambda>c. of_int (cp_sec c * CONFIG_CLOCKS_PER_SEC)
       + of_int (cp_nsec c sdiv (1000000000 sdiv CONFIG_CLOCKS_PER_SEC))) (get_current_cpu s)"

definition arch_intr_disable :: "sched \<Rightarrow> (bool \<times> sched) option" where
  "arch_intr_disable s =
     map_option (\<lambda>c. (cp_intr c, upd_cpu (\<lambda>c. c\<lparr>cp_intr := False\<rparr>) s)) (array_get (sc_cpus s) (sc_apic s))"

definition arch_intr_enable :: "bool \<Rightarrow> sched \<Rightarrow> sched" where
  "arch_intr_enable f s = (if f then upd_cpu (\<lambda>c. c\<lparr>cp_intr := True\<rparr>) s else s)"

definition arch_intr_set_stack :: "u32 \<Rightarrow> sched \<Rightarrow> sched" where
  "arch_intr_set_stack stack = upd_cpu (\<lambda>c. c\<lparr>cp_esp0 := stack\<rparr>)"

text \<open>\<^verbatim>\<open>__lock_irq\<close>: the lock is taken before the interrupts are switched off, and released before they are
  switched on.\<close>

definition lock_irq ::
  "(sched \<Rightarrow> bool) \<Rightarrow> (bool \<Rightarrow> sched \<Rightarrow> sched) \<Rightarrow> (sched \<Rightarrow> ('a \<times> sched) option) \<Rightarrow> sched \<Rightarrow> ('a \<times> sched) option" where
  "lock_irq held set_held body s =
     do {
       kassert (\<not> held s);
       (f, s) \<leftarrow> arch_intr_disable (set_held True s);
       (r, s) \<leftarrow> body s;
       Some (r, arch_intr_enable f (set_held False s))
     }"

abbreviation set_sc_lock :: "bool \<Rightarrow> sched \<Rightarrow> sched" where
  "set_sc_lock b s \<equiv> s\<lparr>sc_lock := b\<rparr>"

section \<open>The task switch\<close>

definition arch_task_switch :: "tptr \<Rightarrow> tptr \<Rightarrow> sched \<Rightarrow> (u32 \<times> sched) option" where
  "arch_task_switch from to s =
     do {
       kassert (to \<noteq> 0);
       kassert (from \<noteq> 0);
       c \<leftarrow> array_get (sc_cpus s) (sc_apic s);
       s \<leftarrow> upd_tk from (\<lambda>t. t\<lparr>tk_frame := (tk_frame t)\<lparr>fr_fpu := cp_fpu c\<rparr>\<rparr>) s;
       tt \<leftarrow> sc_tasks s to;
       let s = upd_cpu (\<lambda>c. c\<lparr>cp_fpu := fr_fpu (tk_frame tt)\<rparr>) s;
       tf \<leftarrow> sc_tasks s from;
       pf \<leftarrow> tk_aspace tf;
       kassert (fr_context (tk_frame tf) \<noteq> 0);
       pt \<leftarrow> tk_aspace tt;
       kassert (fr_context (tk_frame tt) \<noteq> 0);
       let s = (if pf \<noteq> pt then upd_cpu (\<lambda>c. c\<lparr>cp_cr3 := pt\<rparr>) s else s);
       let s = arch_intr_set_stack (to + CONFIG_STACK_SIZE) s;
       Some (fr_context (tk_frame tt), s)
     }"

text \<open>The interrupt frame of \<^verbatim>\<open>arch_task_set_context\<close>, which a new task starts from.\<close>

record x86_frame =
  xf_gs :: u32
  xf_fs :: u32
  xf_es :: u32
  xf_ds :: u32
  xf_di :: u32
  xf_si :: u32
  xf_bp :: u32
  xf_bx :: u32
  xf_dx :: u32
  xf_cx :: u32
  xf_ax :: u32
  xf_int_no :: u32
  xf_err_code :: u32
  xf_ip :: u32
  xf_cs :: u32
  xf_flags :: u32
  xf_sp :: u32
  xf_ss :: u32

definition arch_task_set_context :: "u32 \<Rightarrow> u32 \<Rightarrow> u32 \<Rightarrow> u32 \<Rightarrow> u32 \<Rightarrow> x86_frame option" where
  "arch_task_set_context context ip arg stack caps =
     do {
       kassert (context \<noteq> 0);
       kassert (ip \<noteq> 0);
       kassert (stack \<noteq> 0);
       let d = (if caps AND TASK_CAPS_SYSTEM \<noteq> 0 then 0x10 else 0x23);
       Some \<lparr>xf_gs = d, xf_fs = d, xf_es = d, xf_ds = d, xf_di = 0, xf_si = 0, xf_bp = stack, xf_bx = 0,
         xf_dx = 0, xf_cx = 0, xf_ax = arg, xf_int_no = 0, xf_err_code = 0, xf_ip = ip,
         xf_cs = (if caps AND TASK_CAPS_SYSTEM \<noteq> 0 then 0x08 else 0x1B), xf_flags = 0x202,
         xf_sp = stack, xf_ss = d\<rparr>
     }"

section \<open>The scheduler\<close>

text \<open>
  \<^verbatim>\<open>__sched_next\<close> walks the queue, from the end back to its head, until it meets a ready task that may
  run on this processor (\<^verbatim>\<open>affinity\<close> is the set of the processors it may not run on). Without such a
  task the walk does not end. A shift by 32 or more has no defined result.
\<close>

partial_function (option) sched_next :: "tptr \<Rightarrow> u32 \<Rightarrow> sched \<Rightarrow> tptr option" where
  "sched_next cur cid s =
     do {
       t \<leftarrow> sc_tasks s cur;
       let n = (if tk_next t = 0 then sc_queue s else tk_next t);
       kassert (n \<noteq> 0);
       t \<leftarrow> sc_tasks s n;
       kassert (cid < 32);
       if tk_affinity t AND push_bit (unat cid) 1 \<noteq> 0 then sched_next n cid s
       else if tk_status t \<noteq> TASK_STATUS_READY then sched_next n cid s
       else Some n
     }"

text \<open>The time since the last scheduling, charged to the task and its parent.\<close>

definition sched_timing :: "sched \<Rightarrow> (u64 \<times> sched) option" where
  "sched_timing s = do { us \<leftarrow> arch_timer_getus s; Some (us - sc_last s, s\<lparr>sc_last := us\<rparr>) }"

definition sched_account :: "tptr \<Rightarrow> u64 \<Rightarrow> sched \<Rightarrow> sched option" where
  "sched_account cur d s =
     do {
       s \<leftarrow> upd_tk cur (\<lambda>t. t\<lparr>tk_utime := tk_utime t + ucast d\<rparr>) s;
       t \<leftarrow> sc_tasks s cur;
       if tk_parent t \<noteq> 0 then upd_tk (tk_parent t) (\<lambda>t. t\<lparr>tk_cutime := tk_cutime t + ucast d\<rparr>) s else Some s
     }"

text \<open>The switch to the next task.\<close>

definition sched_switch :: "tptr \<Rightarrow> sched \<Rightarrow> (u32 \<times> sched) option" where
  "sched_switch prev s =
     do {
       s \<leftarrow> upd_tk prev (\<lambda>t. t\<lparr>tk_nivcsw := tk_nivcsw t + 1\<rparr>) s;
       s \<leftarrow> upd_tk prev (\<lambda>t. if tk_status t = TASK_STATUS_RUNNING then t\<lparr>tk_status := TASK_STATUS_READY\<rparr> else t) s;
       c \<leftarrow> get_current_cpu s;
       n \<leftarrow> sched_next prev (cp_id c) s;
       let s = upd_cpu (\<lambda>c. c\<lparr>cp_current := n\<rparr>) s;
       s \<leftarrow> upd_tk n (\<lambda>t. t\<lparr>tk_status := TASK_STATUS_RUNNING\<rparr>) s;
       arch_task_switch prev n s
     }"

text \<open>The remainder of \<^verbatim>\<open>schedule\<close> is the one of C, on 32-bit integers; a divisor of 0 has no result.\<close>

definition slice_left :: "task \<Rightarrow> bool option" where
  "slice_left t =
     do {
       let d = sint (20 - tk_priority t);
       kassert (d \<noteq> 0);
       Some ((sint (tk_utime t) sdiv 1000) smod d \<noteq> 0)
     }"

definition schedule :: "sched \<Rightarrow> (u32 \<times> sched) option" where
  "schedule s =
     do {
       c \<leftarrow> get_current_cpu s;
       t \<leftarrow> sc_tasks s (cp_current c);
       let frame = fr_context (tk_frame t);
       kassert (frame \<noteq> 0);
       lock_irq sc_lock set_sc_lock (\<lambda>s. do {
         (d, s) \<leftarrow> sched_timing s;
         s \<leftarrow> sched_account (cp_current c) d s;
         t \<leftarrow> sc_tasks s (cp_current c);
         stay \<leftarrow> slice_left t;
         if stay then Some (frame, s) else sched_switch (cp_current c) s
       }) s
     }"

text \<open>\<^verbatim>\<open>schedule_yield\<close> ends without a \<^verbatim>\<open>return\<close>, so it has no value.\<close>

definition schedule_yield :: "sched \<Rightarrow> (unit \<times> sched) option" where
  "schedule_yield s =
     do {
       c \<leftarrow> get_current_cpu s;
       lock_irq sc_lock set_sc_lock (\<lambda>s. do {
         (d, s) \<leftarrow> sched_timing s;
         s \<leftarrow> sched_account (cp_current c) d s;
         (_, s) \<leftarrow> sched_switch (cp_current c) s;
         Some ((), s)
       }) s
     }"

definition sched_enqueue :: "tptr \<Rightarrow> sched \<Rightarrow> (unit \<times> sched) option" where
  "sched_enqueue task =
     with_lock sc_lock set_sc_lock (\<lambda>s. do {
       s \<leftarrow> upd_tk task (\<lambda>t. t\<lparr>tk_next := sc_queue s\<rparr>) s;
       Some ((), s\<lparr>sc_queue := task\<rparr>)
     })"

text \<open>The loop of \<^verbatim>\<open>sched_dequeue\<close> that finds the task before the given one.\<close>

partial_function (option) dequeue_find :: "tptr \<Rightarrow> tptr \<Rightarrow> sched \<Rightarrow> tptr option" where
  "dequeue_find tmp task s =
     do {
       t \<leftarrow> sc_tasks s tmp;
       if tk_next t = 0 then Some tmp
       else if tk_next t = task then Some tmp
       else dequeue_find (tk_next t) task s
     }"

definition sched_dequeue :: "tptr \<Rightarrow> sched \<Rightarrow> (unit \<times> sched) option" where
  "sched_dequeue task =
     with_lock sc_lock set_sc_lock (\<lambda>s.
       if task = sc_queue s then do { t \<leftarrow> sc_tasks s task; Some ((), s\<lparr>sc_queue := tk_next t\<rparr>) }
       else do {
         tmp \<leftarrow> dequeue_find (sc_queue s) task s;
         p \<leftarrow> sc_tasks s tmp;
         kassert (tk_next p \<noteq> 0);
         kassert (tk_next p = task);
         t \<leftarrow> sc_tasks s task;
         s \<leftarrow> upd_tk tmp (\<lambda>p. p\<lparr>tk_next := tk_next t\<rparr>) s;
         Some ((), s)
       })"

definition sched_nextpid :: "sched \<Rightarrow> u32 \<times> sched" where
  "sched_nextpid s = (sc_nextpid s, s\<lparr>sc_nextpid := sc_nextpid s + 1\<rparr>)"

text \<open>The two loops of \<^verbatim>\<open>sched_init\<close> over the enabled processors.\<close>

fun enqueue_cores :: "nat list \<Rightarrow> sched \<Rightarrow> sched option" where
  "enqueue_cores [] s = Some s"
| "enqueue_cores (n # ns) s =
     do {
       c \<leftarrow> get_cpu n s;
       s \<leftarrow> (case c of None \<Rightarrow> Some s | Some c \<Rightarrow> map_option snd (sched_enqueue (cp_core c) s));
       enqueue_cores ns s
     }"

fun enable_cores :: "nat list \<Rightarrow> sched \<Rightarrow> sched option" where
  "enable_cores [] s = Some s"
| "enable_cores (n # ns) s =
     do {
       c \<leftarrow> get_cpu n s;
       let s = (case c of None \<Rightarrow> s
                | Some c \<Rightarrow> s\<lparr>sc_cpus := (sc_cpus s)[n := c\<lparr>cp_flags := cp_flags c OR CPU_FLAGS_SCHED_ENABLED\<rparr>]\<rparr>);
       enable_cores ns s
     }"

definition sched_init :: "sched \<Rightarrow> sched option" where
  "sched_init s = do { s \<leftarrow> enqueue_cores [0..<CPU_MAX] (s\<lparr>sc_lock := False\<rparr>); enable_cores [0..<CPU_MAX] s }"

section \<open>Processors and new tasks\<close>

definition zero_task :: task where
  "zero_task = \<lparr>tk_frame = \<lparr>fr_regs = replicate 0x10000 0, fr_fpu = replicate 512 0, fr_context = 0\<rparr>, tk_argv = 0, tk_environ = 0,
     tk_ids = \<lparr>id_tid = 0, id_tgid = 0, id_pgid = 0, id_uid = 0, id_euid = 0, id_gid = 0, id_egid = 0, id_sid = 0\<rparr>,
     tk_status = 0, tk_priority = 0, tk_affinity = 0, tk_utime = 0, tk_cutime = 0, tk_dirs = (0, 0, 0), tk_umask = 0,
     tk_exit = 0, tk_aspace = None, tk_rlimits = [], tk_nivcsw = 0, tk_lock = False, tk_parent = 0, tk_next = 0\<rparr>"

text \<open>
  \<^verbatim>\<open>smp_setup\<close> sets up the processor that runs it and its first task. The addresses of the static
  \<^verbatim>\<open>argv\<close> and \<^verbatim>\<open>environ\<close> and of the root inode, and the limits of the C library (their number, the
  index of the stack and the value for no limit), are arguments; a processor other than the boot one
  goes on with \<^verbatim>\<open>cmain\<close>, which only sets the lowest priority and loops, so it does not come back.
\<close>

definition smp_setup :: "u32 \<times> u32 \<Rightarrow> u32 \<Rightarrow> nat \<times> nat \<times> u32 \<Rightarrow> bool \<Rightarrow> sched \<Rightarrow> sched option" where
  "smp_setup av root lim bsp s =
     do {
       c \<leftarrow> array_get (sc_cpus s) (sc_apic s);
       kassert (cp_flags c AND CPU_FLAGS_ENABLED = 0);
       let i = of_nat (sc_apic s);
       let c = c\<lparr>cp_id := i, cp_node := 0, cp_flags := CPU_FLAGS_ENABLED OR (if bsp then CPU_FLAGS_BSP else 0),
                 cp_sec := 0, cp_nsec := 0, cp_current := cp_core c\<rparr>;
       let (pid, s) = sched_nextpid s;
       kassert (i < 32);
       let (nl, st, inf) = lim;
       let t = zero_task\<lparr>tk_argv := fst av, tk_environ := snd av,
         tk_ids := (tk_ids zero_task)\<lparr>id_tid := pid, id_sid := pid, id_pgid := pid, id_tgid := pid\<rparr>,
         tk_status := TASK_STATUS_READY, tk_priority := TASK_PRIO_REG, tk_affinity := NOT (push_bit (unat i) 1),
         tk_dirs := (root, root, root), tk_aspace := Some (cp_cr3 c),
         tk_rlimits := (replicate nl (inf, inf))[st := (0x100000, inf)]\<rparr>;
       let s = s\<lparr>sc_cpus := (sc_cpus s)[sc_apic s := c], sc_tasks := (sc_tasks s)(cp_core c \<mapsto> t)\<rparr>;
       let s = arch_intr_set_stack (cp_core c + CONFIG_STACK_SIZE) s;
       kassert bsp;
       Some s
     }"

text \<open>
  \<^verbatim>\<open>sys_clone\<close>: \<open>chk\<close> is \<^verbatim>\<open>ptr_check\<close> and \<open>child\<close> the address \<^verbatim>\<open>kcalloc\<close> returns. The body ends without a
  \<^verbatim>\<open>return\<close>, so that only the checks have a value (\<open>Some (Some e, _)\<close>).
\<close>

definition sys_clone ::
  "(u32 \<Rightarrow> u32 \<Rightarrow> bool) \<Rightarrow> int \<Rightarrow> tptr \<Rightarrow> u32 \<Rightarrow> u32 \<Rightarrow> sched \<Rightarrow> (int option \<times> sched) option" where
  "sys_clone chk EFAULT child fn stack s =
     do {
       kassert (fn \<noteq> 0);
       kassert (stack \<noteq> 0);
       if \<not> chk fn (R_OK OR W_OK OR X_OK) then Some (Some (- EFAULT), s)
       else if \<not> chk stack (R_OK OR W_OK OR X_OK) then Some (Some (- EFAULT), s)
       else do {
         let (pid, s) = sched_nextpid s;
         let c = zero_task\<lparr>tk_ids := (tk_ids zero_task)\<lparr>id_tid := pid\<rparr>, tk_status := TASK_STATUS_READY\<rparr>;
         p \<leftarrow> get_current_cpu s;
         let cur = cp_current p;
         lock_irq (\<lambda>s. case sc_tasks s cur of None \<Rightarrow> True | Some t \<Rightarrow> tk_lock t)
           (\<lambda>b s. s\<lparr>sc_tasks := (sc_tasks s)(cur := map_option (tk_lock_update (\<lambda>_. b)) (sc_tasks s cur))\<rparr>)
           (\<lambda>s. do {
              t \<leftarrow> sc_tasks s cur;
              let c = c\<lparr>tk_ids := (tk_ids t)\<lparr>id_tid := pid\<rparr>, tk_argv := tk_argv t, tk_environ := tk_environ t,
                tk_priority := tk_priority t, tk_affinity := tk_affinity t, tk_umask := tk_umask t,
                tk_parent := cur, tk_lock := False, tk_frame := tk_frame t, tk_rlimits := tk_rlimits t, tk_exit := tk_exit t\<rparr>;
              Some (None, s\<lparr>sc_tasks := (sc_tasks s)(child \<mapsto> c)\<rparr>)
            }) s
       }
     }"

definition sys_getpid :: "sched \<Rightarrow> u32 option" where
  "sys_getpid s =
     do {
       c \<leftarrow> get_current_cpu s;
       kassert (cp_current c \<noteq> 0);
       t \<leftarrow> sc_tasks s (cp_current c);
       Some (id_tid (tk_ids t))
     }"

text \<open>\<^verbatim>\<open>sys_getcpu\<close> stores up to two words through the given addresses: the result and the stores, in order.\<close>

definition sys_getcpu :: "(u32 \<Rightarrow> u32 \<Rightarrow> bool) \<Rightarrow> int \<Rightarrow> u32 \<Rightarrow> u32 \<Rightarrow> u32 \<Rightarrow> sched \<Rightarrow> (int \<times> (u32 \<times> u32) list) option" where
  "sys_getcpu chk EFAULT cpu node cache s =
     do {
       kassert (cache = 0);
       w \<leftarrow> (if cpu = 0 then Some (Some [])
            else if \<not> chk cpu (R_OK OR W_OK) then Some None
            else do { c \<leftarrow> get_current_cpu s; Some (Some [(cpu, cp_id c)]) });
       case w of
         None \<Rightarrow> Some (- EFAULT, [])
       | Some w \<Rightarrow>
           if node = 0 then Some (0, w)
           else if \<not> chk node (R_OK OR W_OK) then Some (- EFAULT, w)
           else do { c \<leftarrow> get_current_cpu s; Some (0, w @ [(node, cp_node c)]) }
     }"

section \<open>The run queue as a list\<close>

fun chain :: "(tptr \<rightharpoonup> task) \<Rightarrow> tptr \<Rightarrow> tptr list \<Rightarrow> bool" where
  "chain m p [] \<longleftrightarrow> p = 0"
| "chain m p (x # xs) \<longleftrightarrow> p = x \<and> x \<noteq> 0 \<and> (case m x of None \<Rightarrow> False | Some t \<Rightarrow> chain m (tk_next t) xs)"

definition hd0 :: "tptr list \<Rightarrow> tptr" where
  "hd0 xs = (case xs of [] \<Rightarrow> 0 | x # _ \<Rightarrow> x)"

lemma hd0_simps [simp]: "hd0 [] = 0" "hd0 (x # xs) = x"
  by (simp_all add: hd0_def)

lemma chain_hd0: "chain m p xs \<Longrightarrow> p = hd0 xs"
  by (cases xs) auto

lemma chain_nonzero: "chain m p xs \<Longrightarrow> x \<in> set xs \<Longrightarrow> x \<noteq> 0"
  by (induction xs arbitrary: p) (auto split: option.splits)

lemma chain_appendD: "chain m p (xs @ ys) \<Longrightarrow> chain m (hd0 ys) ys"
  by (induction xs arbitrary: p) (auto dest: chain_hd0 split: option.splits)

lemma chain_next:
  assumes "chain m p (xs @ x # ys)"
  obtains t where "m x = Some t" "tk_next t = hd0 ys" "chain m (hd0 ys) ys"
  using chain_appendD [OF assms] chain_hd0 by (fastforce split: option.splits)

lemma chain_cong:
  assumes "\<And>x. x \<in> set xs \<Longrightarrow> map_option tk_next (m' x) = map_option tk_next (m x)"
  shows "chain m' p xs = chain m p xs"
  using assms
proof (induction xs arbitrary: p)
  case (Cons x xs)
  from Cons.prems [of x] show ?case
    by (cases "m x"; cases "m' x") (auto simp: Cons.IH [OF Cons.prems])
qed simp

lemma chain_unique: "chain m p xs \<Longrightarrow> chain m p ys \<Longrightarrow> xs = ys"
proof (induction xs arbitrary: p ys)
  case (Cons x xs)
  then show ?case by (cases ys) (auto split: option.splits)
next
  case Nil
  then show ?case by (cases ys) auto
qed

lemma chain_distinct: "chain m p xs \<Longrightarrow> distinct xs"
proof (induction xs arbitrary: p)
  case (Cons x xs)
  then have "distinct xs" by (auto split: option.splits)
  moreover have "x \<notin> set xs"
  proof
    assume "x \<in> set xs"
    then obtain us vs where xs: "xs = us @ x # vs" by (auto dest: split_list)
    have "chain m x (x # xs)" using Cons.prems by auto
    moreover have "chain m x (x # vs)" using chain_appendD [of m p "x # us" "x # vs"] Cons.prems xs by simp
    ultimately have "xs = vs" using chain_unique by blast
    then show False using xs by simp
  qed
  ultimately show ?case by simp
qed simp

section \<open>The task that is picked\<close>

definition may_run :: "u32 \<Rightarrow> task \<Rightarrow> bool" where
  "may_run cid t \<longleftrightarrow> tk_affinity t AND push_bit (unat cid) 1 = 0"

definition runnable :: "u32 \<Rightarrow> sched \<Rightarrow> tptr \<Rightarrow> bool" where
  "runnable cid s p \<longleftrightarrow> (case sc_tasks s p of None \<Rightarrow> False | Some t \<Rightarrow> may_run cid t \<and> tk_status t = TASK_STATUS_READY)"

lemma sched_next_step:
  assumes "chain (sc_tasks s) (sc_queue s) (xs @ cur # ys)" and "cid < 32"
  shows "sched_next cur cid s =
    (if runnable cid s (hd (ys @ xs @ [cur])) then Some (hd (ys @ xs @ [cur]))
     else sched_next (hd (ys @ xs @ [cur])) cid s)"
proof -
  obtain t where t: "sc_tasks s cur = Some t" "tk_next t = hd0 ys" "chain (sc_tasks s) (hd0 ys) ys"
    by (rule chain_next [OF assms(1)])
  let ?n = "hd (ys @ xs @ [cur])"
  have mem: "?n \<in> set (xs @ cur # ys)" by (cases ys; cases xs) auto
  have n: "(if tk_next t = 0 then sc_queue s else tk_next t) = ?n"
    using t(2) chain_hd0 [OF assms(1)] chain_nonzero [OF assms(1)] by (cases ys; cases xs) auto
  moreover obtain t' where "sc_tasks s ?n = Some t'"
    using mem assms(1) by (metis chain_next split_list)
  moreover have "?n \<noteq> 0" using chain_nonzero [OF assms(1) mem] .
  ultimately show ?thesis
    using assms(2) t(1) by (subst sched_next.simps) (simp add: runnable_def may_run_def Let_def)
qed

text \<open>The queue seen from the current task: the tasks behind it, those before it, and itself.\<close>

lemma sched_next_picks:
  assumes "chain (sc_tasks s) (sc_queue s) (xs @ cur # ys)" and "cid < 32"
    and "ys @ xs @ [cur] = us @ r # vs" and "\<forall>u \<in> set us. \<not> runnable cid s u" and "runnable cid s r"
  shows "sched_next cur cid s = Some r"
  using assms(1,3,4)
proof (induction us arbitrary: xs cur ys vs)
  case Nil
  then have "hd (ys @ xs @ [cur]) = r" by simp
  with sched_next_step [OF Nil(1) assms(2)] assms(5) show ?case by simp
next
  case (Cons u us)
  have h: "hd (ys @ xs @ [cur]) = u" "\<not> runnable cid s u" using Cons.prems by simp_all
  consider ys' where "ys = u # ys'" | xs' where "ys = []" "xs = u # xs'" | "ys = []" "xs = []" "u = cur" "us @ r # vs = []"
    using Cons.prems(2) by (cases ys; cases xs) auto
  then have "sched_next u cid s = Some r"
  proof cases
    case 1
    then show ?thesis using Cons.IH [of "xs @ [cur]" u ys' "vs @ [u]"] Cons.prems by simp
  next
    case 2
    then show ?thesis using Cons.IH [of "[]" u "xs' @ [cur]" "vs @ [u]"] Cons.prems by simp
  qed simp
  with sched_next_step [OF Cons.prems(1) assms(2)] h show ?case by simp
qed

text \<open>Without a runnable task the search does not end.\<close>

lemma sched_next_Some:
  assumes "sched_next cur cid s = Some r" and "chain (sc_tasks s) (sc_queue s) ts" and "cur \<in> set ts"
  shows "r \<in> set ts \<and> runnable cid s r"
  using assms(2,3)
proof (induction rule: sched_next.raw_induct [OF _ assms(1), case_names step])
  case (step f cur cid s r)
  obtain xs ys where ts: "ts = xs @ cur # ys" using step.prems(2) by (auto dest: split_list)
  obtain t where t: "sc_tasks s cur = Some t" "tk_next t = hd0 ys" by (rule chain_next [OF step.prems(1) [unfolded ts]])
  define n where "n = (if tk_next t = 0 then sc_queue s else tk_next t)"
  from step.hyps t(1) obtain t' where t': "n \<noteq> 0" "sc_tasks s n = Some t'"
    "(if tk_affinity t' AND push_bit (unat cid) 1 \<noteq> 0 then f n cid s
      else if tk_status t' \<noteq> TASK_STATUS_READY then f n cid s else Some n) = Some r"
    by (auto simp: n_def bind_eq_Some_conv Let_def split: if_splits)
  have "n \<in> set ts"
    using t(2) t'(1) chain_hd0 [OF step.prems(1)] ts by (cases ys; cases xs) (auto simp: n_def split: if_splits)
  with t' step.IH [of n cid s r] step.prems(1) show ?case
    by (auto simp: runnable_def may_run_def split: if_splits)
qed

section \<open>What a switch does\<close>

text \<open>The effect of a switch from \<open>prev\<close> to \<open>n\<close> on the task at \<open>p\<close>.\<close>

definition switched :: "tptr \<Rightarrow> tptr \<Rightarrow> byte list \<Rightarrow> tptr \<Rightarrow> task \<Rightarrow> task" where
  "switched prev n fpu p t =
     (let t = (if p = prev
               then t\<lparr>tk_nivcsw := tk_nivcsw t + 1,
                      tk_status := (if tk_status t = TASK_STATUS_RUNNING then TASK_STATUS_READY else tk_status t),
                      tk_frame := (tk_frame t)\<lparr>fr_fpu := fpu\<rparr>\<rparr>
               else t)
      in if p = n then t\<lparr>tk_status := TASK_STATUS_RUNNING\<rparr> else t)"

lemma switched_keeps [simp]:
  "tk_next (switched prev n fpu p t) = tk_next t" "tk_affinity (switched prev n fpu p t) = tk_affinity t"
  "tk_parent (switched prev n fpu p t) = tk_parent t" "tk_aspace (switched prev n fpu p t) = tk_aspace t"
  "fr_context (tk_frame (switched prev n fpu p t)) = fr_context (tk_frame t)"
  "fr_regs (tk_frame (switched prev n fpu p t)) = fr_regs (tk_frame t)"
  by (simp_all add: switched_def Let_def)

text \<open>The tasks that \<open>sched_next\<close> may pick after the current task was made ready again.\<close>

definition eligible :: "u32 \<Rightarrow> sched \<Rightarrow> tptr \<Rightarrow> tptr \<Rightarrow> bool" where
  "eligible cid s prev p \<longleftrightarrow>
     (case sc_tasks s p of None \<Rightarrow> False
      | Some t \<Rightarrow> may_run cid t \<and> (tk_status t = TASK_STATUS_READY \<or> p = prev \<and> tk_status t = TASK_STATUS_RUNNING))"

definition cpu_on :: "sched \<Rightarrow> cpu \<Rightarrow> bool" where
  "cpu_on s c \<longleftrightarrow> sc_apic s < CPU_MAX \<and> sc_apic s < length (sc_cpus s) \<and> sc_cpus s ! sc_apic s = c
     \<and> cp_flags c AND CPU_FLAGS_ENABLED \<noteq> 0 \<and> cp_id c < 32"

lemma cpu_onD:
  assumes "cpu_on s c"
  shows "get_current_cpu s = Some c" "array_get (sc_cpus s) (sc_apic s) = Some c" "sc_cpus s ! sc_apic s = c"
    "sc_apic s < length (sc_cpus s)" "cp_id c < 32"
  using assms by (auto simp: cpu_on_def get_current_cpu_def get_cpu_def)

lemma upd_tk_eq: "sc_tasks s p = Some t \<Longrightarrow> upd_tk p f s = Some (s\<lparr>sc_tasks := (sc_tasks s)(p \<mapsto> f t)\<rparr>)"
  by (simp add: upd_tk_def)

lemma cpu_on_tasks [simp]: "cpu_on (s\<lparr>sc_tasks := T\<rparr>) c = cpu_on s c"
  by (simp add: cpu_on_def)

definition task_ready :: "sched \<Rightarrow> tptr \<Rightarrow> bool" where
  "task_ready s p \<longleftrightarrow> (case sc_tasks s p of None \<Rightarrow> False
     | Some t \<Rightarrow> p \<noteq> 0 \<and> tk_aspace t \<noteq> None \<and> fr_context (tk_frame t) \<noteq> 0)"

definition switch_cpu :: "tptr \<Rightarrow> tptr \<Rightarrow> sched \<Rightarrow> cpu \<Rightarrow> cpu" where
  "switch_cpu prev n s c =
     (let tp = the (sc_tasks s prev); tn = the (sc_tasks s n) in
      c\<lparr>cp_current := n, cp_fpu := (if n = prev then cp_fpu c else fr_fpu (tk_frame tn)),
        cp_cr3 := (if tk_aspace tp \<noteq> tk_aspace tn then the (tk_aspace tn) else cp_cr3 c),
        cp_esp0 := n + CONFIG_STACK_SIZE\<rparr>)"

lemma arch_task_switch_eq:
  assumes "sc_tasks s from = Some a" "sc_tasks s to = Some b" "from \<noteq> 0" "to \<noteq> 0"
    "sc_apic s < length (sc_cpus s)" "sc_cpus s ! sc_apic s = c" "tk_aspace a = Some pf" "tk_aspace b = Some pt"
    "fr_context (tk_frame a) \<noteq> 0" "fr_context (tk_frame b) \<noteq> 0"
  shows "arch_task_switch from to s = Some (fr_context (tk_frame b),
    s\<lparr>sc_tasks := (sc_tasks s)(from \<mapsto> a\<lparr>tk_frame := (tk_frame a)\<lparr>fr_fpu := cp_fpu c\<rparr>\<rparr>),
      sc_cpus := (sc_cpus s)[sc_apic s := c\<lparr>cp_fpu := (if to = from then cp_fpu c else fr_fpu (tk_frame b)),
        cp_cr3 := (if pf \<noteq> pt then pt else cp_cr3 c), cp_esp0 := to + CONFIG_STACK_SIZE\<rparr>]\<rparr>)"
proof (cases "from = to")
  case True
  with assms show ?thesis
    by (simp add: arch_task_switch_def upd_tk_def upd_cpu_def arch_intr_set_stack_def Let_def)
next
  case False
  with assms show ?thesis
    by (simp add: arch_task_switch_def upd_tk_def upd_cpu_def arch_intr_set_stack_def Let_def)
qed

lemma switched_other: "p \<noteq> prev \<Longrightarrow> p \<noteq> n \<Longrightarrow> switched prev n fpu p t = t"
  by (simp add: switched_def)

lemma sched_switch_eq:
  assumes c: "cpu_on s c" and r: "task_ready s prev" "task_ready s n"
    and ch: "chain (sc_tasks s) (sc_queue s) (xs @ prev # ys)" and sp: "ys @ xs @ [prev] = us @ n # vs"
    and el: "\<forall>u \<in> set us. \<not> eligible (cp_id c) s prev u" "eligible (cp_id c) s prev n"
  shows "sched_switch prev s = Some (fr_context (tk_frame (the (sc_tasks s n))),
    s\<lparr>sc_tasks := \<lambda>p. map_option (switched prev n (cp_fpu c) p) (sc_tasks s p),
      sc_cpus := (sc_cpus s)[sc_apic s := switch_cpu prev n s c]\<rparr>)"
proof -
  obtain tp where tp: "sc_tasks s prev = Some tp" "prev \<noteq> 0" "tk_aspace tp \<noteq> None" "fr_context (tk_frame tp) \<noteq> 0"
    using r(1) by (auto simp: task_ready_def split: option.splits)
  obtain tn where tn: "sc_tasks s n = Some tn" "n \<noteq> 0" "tk_aspace tn \<noteq> None" "fr_context (tk_frame tn) \<noteq> 0"
    using r(2) by (auto simp: task_ready_def split: option.splits)
  define tp' where "tp' = (let t = tp\<lparr>tk_nivcsw := tk_nivcsw tp + 1\<rparr> in
     if tk_status t = TASK_STATUS_RUNNING then t\<lparr>tk_status := TASK_STATUS_READY\<rparr> else t)"
  define s1 where "s1 = s\<lparr>sc_tasks := (sc_tasks s)(prev \<mapsto> tp')\<rparr>"
  have "chain (sc_tasks s1) (sc_queue s) (xs @ prev # ys)"
    using ch by (subst chain_cong) (auto simp: s1_def tp'_def tp Let_def)
  moreover have "runnable (cp_id c) s1 u = eligible (cp_id c) s prev u" for u
    by (auto simp: runnable_def eligible_def s1_def tp tp'_def Let_def may_run_def TASK_STATUS_READY_def
        TASK_STATUS_RUNNING_def split: option.splits)
  ultimately have nx: "sched_next prev (cp_id c) s1 = Some n"
    using sched_next_picks [of s1 xs prev ys "cp_id c" us n vs] sp el cpu_onD(5) [OF c] by (simp add: s1_def)
  have c1: "get_current_cpu s1 = Some c" using c by (intro cpu_onD) (simp add: s1_def)
  note C = cpu_onD [OF c]
  have "sched_switch prev s = do { s \<leftarrow> upd_tk n (\<lambda>t. t\<lparr>tk_status := TASK_STATUS_RUNNING\<rparr>)
      (upd_cpu (\<lambda>c. c\<lparr>cp_current := n\<rparr>) s1); arch_task_switch prev n s }"
    using nx c1 by (simp add: sched_switch_def upd_tk_def tp s1_def tp'_def Let_def)
  also have "\<dots> = Some (fr_context (tk_frame tn),
    s\<lparr>sc_tasks := \<lambda>p. map_option (switched prev n (cp_fpu c) p) (sc_tasks s p),
      sc_cpus := (sc_cpus s)[sc_apic s := switch_cpu prev n s c]\<rparr>)"
  proof -
    obtain pf pt where pp: "tk_aspace tp = Some pf" "tk_aspace tn = Some pt" using tp tn by blast
    define b where "b = (if n = prev then tp' else tn)\<lparr>tk_status := TASK_STATUS_RUNNING\<rparr>"
    define a where "a = (if n = prev then b else tp')"
    let ?s = "s\<lparr>sc_cpus := (sc_cpus s)[sc_apic s := c\<lparr>cp_current := n\<rparr>], sc_tasks := (sc_tasks s)(prev \<mapsto> tp', n \<mapsto> b)\<rparr>"
    have tp'_keeps: "tk_aspace tp' = Some pf" "tk_frame tp' = tk_frame tp" by (simp_all add: tp'_def Let_def pp)
    have ab: "tk_aspace a = Some pf" "tk_aspace b = Some pt" "tk_frame a = tk_frame tp" "tk_frame b = tk_frame tn"
      using tp(1) tn(1) pp tp'_keeps by (auto simp: a_def b_def)
    have "upd_tk n (\<lambda>t. t\<lparr>tk_status := TASK_STATUS_RUNNING\<rparr>) (upd_cpu (\<lambda>c. c\<lparr>cp_current := n\<rparr>) s1) = Some ?s"
      using C tn by (simp add: upd_tk_def upd_cpu_def s1_def b_def)
    moreover have "(sc_tasks ?s)(prev \<mapsto> a\<lparr>tk_frame := (tk_frame a)\<lparr>fr_fpu := cp_fpu c\<rparr>\<rparr>)
        = (\<lambda>p. map_option (switched prev n (cp_fpu c) p) (sc_tasks s p))"
    proof
      fix p
      consider "p = prev" | "p = n" "p \<noteq> prev" | "p \<noteq> prev" "p \<noteq> n" by blast
      then show "((sc_tasks ?s)(prev \<mapsto> a\<lparr>tk_frame := (tk_frame a)\<lparr>fr_fpu := cp_fpu c\<rparr>\<rparr>)) p
          = map_option (switched prev n (cp_fpu c) p) (sc_tasks s p)"
        by cases (cases "sc_tasks s p"; use tp(1) tn(1) in \<open>simp add: a_def b_def tp'_def switched_def Let_def\<close>)+
    qed
    moreover have "sc_tasks ?s prev = Some a" "sc_tasks ?s n = Some b" by (simp_all add: a_def)
    then have "arch_task_switch prev n ?s = Some (fr_context (tk_frame b),
      ?s\<lparr>sc_tasks := (sc_tasks ?s)(prev \<mapsto> a\<lparr>tk_frame := (tk_frame a)\<lparr>fr_fpu := cp_fpu c\<rparr>\<rparr>),
        sc_cpus := (sc_cpus s)[sc_apic s := switch_cpu prev n s c]\<rparr>)"
      using arch_task_switch_eq [of ?s prev a n b "c\<lparr>cp_current := n\<rparr>" pf pt] tp tn C(4) ab pp
      by (simp add: switch_cpu_def)
    ultimately show ?thesis using ab(4) by simp
  qed
  finally show ?thesis by (simp add: tn)
qed

text \<open>The time that is charged is all that \<^verbatim>\<open>sched_timing\<close> and \<open>sched_account\<close> change.\<close>

definition untimed :: "task \<Rightarrow> task" where
  "untimed t = t\<lparr>tk_utime := 0, tk_cutime := 0\<rparr>"

lemma untimed_keeps [simp]:
  "tk_next (untimed t) = tk_next t" "tk_affinity (untimed t) = tk_affinity t" "tk_parent (untimed t) = tk_parent t"
  "tk_aspace (untimed t) = tk_aspace t" "tk_frame (untimed t) = tk_frame t" "tk_status (untimed t) = tk_status t"
  by (simp_all add: untimed_def)

definition same_untimed :: "(tptr \<rightharpoonup> task) \<Rightarrow> (tptr \<rightharpoonup> task) \<Rightarrow> bool" where
  "same_untimed T T' \<longleftrightarrow> (\<forall>p. map_option untimed (T' p) = map_option untimed (T p))"

lemma same_untimedD:
  assumes "same_untimed T T'" and "\<And>t. g (untimed t) = g t"
  shows "map_option g (T' p) = map_option g (T p)"
proof -
  have "map_option g x = map_option g (map_option untimed x)" for x
    using assms(2) by (cases x) simp_all
  with assms(1) show ?thesis by (metis same_untimed_def)
qed

lemma same_untimed_Some:
  assumes "same_untimed T T'" and "T p = Some t"
  obtains t' where "T' p = Some t'" "untimed t' = untimed t"
proof -
  have "map_option untimed (T' p) = Some (untimed t)" using assms by (simp add: same_untimed_def)
  with that show ?thesis by auto
qed

definition parent_ok :: "sched \<Rightarrow> tptr \<Rightarrow> bool" where
  "parent_ok s p \<longleftrightarrow> (case sc_tasks s p of None \<Rightarrow> False | Some t \<Rightarrow> tk_parent t = 0 \<or> sc_tasks s (tk_parent t) \<noteq> None)"

lemma sched_account_eq:
  assumes "parent_ok s p"
  obtains T where "sched_account p d s = Some (s\<lparr>sc_tasks := T\<rparr>)" "same_untimed (sc_tasks s) T"
    "map_option tk_utime (T p) = map_option (\<lambda>t. tk_utime t + ucast d) (sc_tasks s p)"
    "\<And>q. map_option tk_priority (T q) = map_option tk_priority (sc_tasks s q)"
proof -
  obtain t where t: "sc_tasks s p = Some t" "tk_parent t = 0 \<or> sc_tasks s (tk_parent t) \<noteq> None"
    using assms by (auto simp: parent_ok_def split: option.splits)
  let ?T = "(sc_tasks s)(p \<mapsto> t\<lparr>tk_utime := tk_utime t + ucast d\<rparr>)"
  show ?thesis
  proof (cases "tk_parent t = 0")
    case True
    show ?thesis
      by (rule that [of ?T])
        (use t True in \<open>auto simp: sched_account_def upd_tk_def same_untimed_def untimed_def\<close>)
  next
    case False
    then obtain q where q: "?T (tk_parent t) = Some q" using t(2) by (cases "tk_parent t = p") auto
    show ?thesis
      by (rule that [of "?T(tk_parent t \<mapsto> q\<lparr>tk_cutime := tk_cutime q + ucast d\<rparr>)"])
        (use t False q in \<open>auto simp: sched_account_def upd_tk_def same_untimed_def untimed_def split: if_splits\<close>)
  qed
qed

section \<open>Scheduling\<close>

text \<open>
  A state in which the scheduler runs: the processor is enabled, the lock is free, the queue links the
  tasks \<open>ts\<close>, the current task is one of them, and every one has an address space and a context.
\<close>

definition sched_ok :: "sched \<Rightarrow> cpu \<Rightarrow> tptr list \<Rightarrow> bool" where
  "sched_ok s c ts \<longleftrightarrow> cpu_on s c \<and> \<not> sc_lock s \<and> chain (sc_tasks s) (sc_queue s) ts \<and> cp_current c \<in> set ts
     \<and> (\<forall>p \<in> set ts. task_ready s p \<and> parent_ok s p)"

definition in_section :: "sched \<Rightarrow> cpu \<Rightarrow> u64 \<Rightarrow> (tptr \<rightharpoonup> task) \<Rightarrow> sched" where
  "in_section s c us T = s\<lparr>sc_lock := True, sc_cpus := (sc_cpus s)[sc_apic s := c\<lparr>cp_intr := False\<rparr>],
     sc_last := us, sc_tasks := T\<rparr>"

lemma in_section_sel [simp]:
  "sc_tasks (in_section s c us T) = T" "sc_queue (in_section s c us T) = sc_queue s"
  "sc_apic (in_section s c us T) = sc_apic s" "sc_lock (in_section s c us T)"
  by (simp_all add: in_section_def)

lemma cpu_on_in_section: "cpu_on s c \<Longrightarrow> cpu_on (in_section s c us T) (c\<lparr>cp_intr := False\<rparr>)"
  by (simp add: cpu_on_def in_section_def)

lemma lock_irq_section:
  assumes "cpu_on s c" and "\<not> sc_lock s"
    and "body (in_section s c (sc_last s) (sc_tasks s)) = Some (r, in_section s c' us T)"
    and "cp_intr c' = cp_intr c"
  shows "lock_irq sc_lock set_sc_lock body s =
    Some (r, s\<lparr>sc_cpus := (sc_cpus s)[sc_apic s := c'], sc_last := us, sc_tasks := T\<rparr>)"
proof -
  note C = cpu_onD [OF assms(1)]
  have "s\<lparr>sc_lock := True, sc_cpus := (sc_cpus s)[sc_apic s := c\<lparr>cp_intr := False\<rparr>]\<rparr>
      = in_section s c (sc_last s) (sc_tasks s)" by (simp add: in_section_def)
  with assms(2,3) C have "lock_irq sc_lock set_sc_lock body s =
      Some (r, arch_intr_enable (cp_intr c) ((in_section s c' us T)\<lparr>sc_lock := False\<rparr>))"
    by (simp add: lock_irq_def arch_intr_disable_def upd_cpu_def)
  moreover have "arch_intr_enable (cp_intr c) ((in_section s c' us T)\<lparr>sc_lock := False\<rparr>)
      = s\<lparr>sc_cpus := (sc_cpus s)[sc_apic s := c'], sc_last := us, sc_tasks := T\<rparr>"
    using assms(2,4) C(4)
    by (cases s; cases c'; cases "cp_intr c") (simp_all add: arch_intr_enable_def upd_cpu_def in_section_def)
  ultimately show ?thesis by simp
qed

text \<open>The accounting at the start of the section.\<close>

lemma section_account:
  assumes "sched_ok s c ts"
  obtains us d T where
    "sched_timing (in_section s c (sc_last s) (sc_tasks s)) = Some (d, in_section s c us (sc_tasks s))"
    "sched_account (cp_current c) d (in_section s c us (sc_tasks s)) = Some (in_section s c us T)"
    "same_untimed (sc_tasks s) T" "arch_timer_getus s = Some us" "d = us - sc_last s"
    "map_option tk_utime (T (cp_current c)) = map_option (\<lambda>t. tk_utime t + ucast d) (sc_tasks s (cp_current c))"
    "\<And>q. map_option tk_priority (T q) = map_option tk_priority (sc_tasks s q)"
proof -
  from assms have c: "cpu_on s c" "parent_ok s (cp_current c)" by (auto simp: sched_ok_def)
  define us :: u64 where "us = of_int (cp_sec c * CONFIG_CLOCKS_PER_SEC) + of_int (cp_nsec c sdiv 1000)"
  have "arch_timer_getus (in_section s c (sc_last s) (sc_tasks s)) = Some us"
    using cpu_onD(1) [OF cpu_on_in_section [OF c(1)]] by (simp add: arch_timer_getus_def us_def)
  then have 1: "sched_timing (in_section s c (sc_last s) (sc_tasks s))
      = Some (us - sc_last s, in_section s c us (sc_tasks s))" by (simp add: sched_timing_def in_section_def)
  have 2: "arch_timer_getus s = Some us" using cpu_onD(1) [OF c(1)] by (simp add: arch_timer_getus_def us_def)
  have "parent_ok (in_section s c us (sc_tasks s)) (cp_current c)" using c(2) unfolding parent_ok_def in_section_sel .
  then obtain T where T: "sched_account (cp_current c) (us - sc_last s) (in_section s c us (sc_tasks s))
      = Some ((in_section s c us (sc_tasks s))\<lparr>sc_tasks := T\<rparr>)" "same_untimed (sc_tasks s) T"
      "map_option tk_utime (T (cp_current c)) = map_option (\<lambda>t. tk_utime t + ucast (us - sc_last s)) (sc_tasks s (cp_current c))"
      "\<And>q. map_option tk_priority (T q) = map_option tk_priority (sc_tasks s q)"
    by (rule sched_account_eq [where d = "us - sc_last s"]) simp
  moreover have "(in_section s c us (sc_tasks s))\<lparr>sc_tasks := T\<rparr> = in_section s c us T" by (simp add: in_section_def)
  ultimately show ?thesis using that [OF 1 _ T(2) 2 refl T(3,4)] by simp
qed

text \<open>The properties of tasks that the switch reads survive the accounting.\<close>

lemma untimed_transfer:
  assumes "same_untimed (sc_tasks s) T" and "sc_tasks s' = T"
  shows "task_ready s' p = task_ready s p" "eligible cid s' q p = eligible cid s q p"
    "chain T h xs = chain (sc_tasks s) h xs"
proof -
  have u: "map_option untimed (T p) = map_option untimed (sc_tasks s p)" using assms(1) by (simp add: same_untimed_def)
  have e: "tk_affinity a = tk_affinity b \<and> tk_status a = tk_status b \<and> tk_aspace a = tk_aspace b \<and> tk_frame a = tk_frame b"
    if "untimed a = untimed b" for a b using that by (metis untimed_keeps)
  show "task_ready s' p = task_ready s p"
    using u assms(2) by (cases "T p"; cases "sc_tasks s p") (auto simp: task_ready_def dest: e)
  show "eligible cid s' q p = eligible cid s q p"
    using u assms(2) by (cases "T p"; cases "sc_tasks s p") (auto simp: eligible_def may_run_def dest: e)
  show "chain T h xs = chain (sc_tasks s) h xs"
    by (rule chain_cong) (rule same_untimedD [OF assms(1)], simp)
qed

text \<open>The tasks in the order of their turns: those behind the current one, those before it, itself.\<close>

definition turn_order :: "tptr list \<Rightarrow> tptr \<Rightarrow> tptr list" where
  "turn_order ts cur = tl (dropWhile (\<lambda>p. p \<noteq> cur) ts) @ takeWhile (\<lambda>p. p \<noteq> cur) ts @ [cur]"

definition next_task :: "sched \<Rightarrow> cpu \<Rightarrow> tptr list \<Rightarrow> tptr option" where
  "next_task s c ts = find (eligible (cp_id c) s (cp_current c)) (turn_order ts (cp_current c))"

lemma turn_order_eq: "cur \<notin> set xs \<Longrightarrow> turn_order (xs @ cur # ys) cur = ys @ xs @ [cur]"
proof -
  assume "cur \<notin> set xs"
  then have "takeWhile (\<lambda>p. p \<noteq> cur) (xs @ cur # ys) = xs" "dropWhile (\<lambda>p. p \<noteq> cur) (xs @ cur # ys) = cur # ys"
    by (induction xs) auto
  then show ?thesis by (simp add: turn_order_def)
qed

lemma turn_order_split:
  assumes "cur \<in> set ts"
  obtains xs ys where "ts = xs @ cur # ys" "turn_order ts cur = ys @ xs @ [cur]"
proof -
  obtain xs ys where s: "ts = xs @ cur # ys" "cur \<notin> set xs" using split_list_first [OF assms] by blast
  then show ?thesis by (intro that [of xs ys]) (simp_all add: turn_order_eq)
qed

lemma set_turn_order: "cur \<in> set ts \<Longrightarrow> set (turn_order ts cur) = set ts"
  by (erule turn_order_split) auto

lemma find_split: "find P xs = Some x \<Longrightarrow> \<exists>us vs. xs = us @ x # vs \<and> (\<forall>u \<in> set us. \<not> P u) \<and> P x"
proof (induction xs)
  case (Cons a xs)
  show ?case
  proof (cases "P a")
    case True
    with Cons show ?thesis by (intro exI [of _ "[]"] exI [of _ xs]) auto
  next
    case False
    with Cons obtain us vs where "xs = us @ x # vs" "\<forall>u \<in> set us. \<not> P u" "P x" by auto
    with False show ?thesis by (intro exI [of _ "a # us"] exI [of _ vs]) auto
  qed
qed simp

lemma next_task_in:
  assumes "sched_ok s c ts" "next_task s c ts = Some n"
  shows "n \<in> set ts" "eligible (cp_id c) s (cp_current c) n"
  using assms find_split [OF assms(2) [unfolded next_task_def]] set_turn_order [of "cp_current c" ts]
  by (auto simp: sched_ok_def)

lemma in_section_update:
  "(in_section s c us T)\<lparr>sc_tasks := T', sc_cpus := (sc_cpus (in_section s c us T))[sc_apic s := c'\<lparr>cp_intr := False\<rparr>]\<rparr>
    = in_section s c' us T'"
  by (cases s) (simp add: in_section_def)

lemma section_switch:
  assumes ok: "sched_ok s c ts" and nx: "next_task s c ts = Some n" and T: "same_untimed (sc_tasks s) T"
  shows "sched_switch (cp_current c) (in_section s c us T) = Some (fr_context (tk_frame (the (sc_tasks s n))),
    in_section s (switch_cpu (cp_current c) n s c) us (\<lambda>p. map_option (switched (cp_current c) n (cp_fpu c) p) (T p)))"
proof -
  let ?s = "in_section s c us T" and ?p = "cp_current c"
  from ok have o: "cpu_on s c" "chain (sc_tasks s) (sc_queue s) ts" "?p \<in> set ts" "\<And>q. q \<in> set ts \<Longrightarrow> task_ready s q"
    by (auto simp: sched_ok_def)
  note t = untimed_transfer [OF T, of ?s, simplified]
  obtain xs ys where xy: "ts = xs @ ?p # ys" "turn_order ts ?p = ys @ xs @ [?p]" by (rule turn_order_split [OF o(3)])
  obtain us' vs where uv: "ys @ xs @ [?p] = us' @ n # vs" "\<forall>u \<in> set us'. \<not> eligible (cp_id c) s ?p u" "eligible (cp_id c) s ?p n"
    using find_split [OF nx [unfolded next_task_def xy(2)]] by blast
  have n: "n \<in> set ts" by (rule next_task_in [OF ok nx])
  have "sched_switch ?p ?s = Some (fr_context (tk_frame (the (sc_tasks ?s n))),
      ?s\<lparr>sc_tasks := \<lambda>p. map_option (switched ?p n (cp_fpu c) p) (sc_tasks ?s p),
        sc_cpus := (sc_cpus ?s)[sc_apic ?s := switch_cpu ?p n ?s (c\<lparr>cp_intr := False\<rparr>)]\<rparr>)"
    using sched_switch_eq [OF cpu_on_in_section [OF o(1), of us T], of ?p n xs ys us' vs] o n t uv xy(1) by simp
  moreover obtain tp tn where tt: "sc_tasks s ?p = Some tp" "sc_tasks s n = Some tn"
    using o(4) [OF o(3)] o(4) [OF n] by (auto simp: task_ready_def split: option.splits)
  moreover obtain tp' tn' where tt': "T ?p = Some tp'" "T n = Some tn'" "untimed tp' = untimed tp" "untimed tn' = untimed tn"
    using same_untimed_Some [OF T tt(1)] same_untimed_Some [OF T tt(2)] by metis
  moreover have "tk_aspace tp' = tk_aspace tp" "tk_aspace tn' = tk_aspace tn" "tk_frame tn' = tk_frame tn"
    using tt'(3,4) by (metis untimed_keeps)+
  moreover from this tt tt' have "switch_cpu ?p n ?s (c\<lparr>cp_intr := False\<rparr>) = (switch_cpu ?p n s c)\<lparr>cp_intr := False\<rparr>"
    by (cases c) (simp add: switch_cpu_def)
  ultimately show ?thesis using in_section_update by simp
qed

lemma turn_order_rotate:
  assumes d: "distinct ts" and "cur \<in> set ts" and o: "turn_order ts cur = us @ n # vs"
  shows "turn_order ts n = vs @ us @ [n]"
proof -
  obtain xs ys where xy: "ts = xs @ cur # ys" "turn_order ts cur = ys @ xs @ [cur]" by (rule turn_order_split [OF assms(2)])
  from o xy(2) have "ys @ xs @ [cur] = us @ n # vs" by simp
  then consider w where "ys = us @ n # w" "vs = w @ xs @ [cur]"
    | w z where "xs = w @ n # z" "us = ys @ w" "vs = z @ [cur]"
    | "us = ys @ xs" "n = cur" "vs = []"
    by (auto simp: append_eq_append_conv2 append_eq_Cons_conv Cons_eq_append_conv)
  then show ?thesis
  proof cases
    case 1
    with d xy(1) show ?thesis using turn_order_eq [of n "xs @ cur # us" w] by auto
  next
    case 2
    with d xy(1) show ?thesis using turn_order_eq [of n w "z @ cur # ys"] by auto
  next
    case 3
    with xy(2) show ?thesis by simp
  qed
qed

text \<open>The state after a yield.\<close>

definition yielded :: "sched \<Rightarrow> cpu \<Rightarrow> tptr \<Rightarrow> u64 \<Rightarrow> (tptr \<rightharpoonup> task) \<Rightarrow> sched" where
  "yielded s c n us T = s\<lparr>sc_cpus := (sc_cpus s)[sc_apic s := switch_cpu (cp_current c) n s c], sc_last := us,
     sc_tasks := (\<lambda>p. map_option (switched (cp_current c) n (cp_fpu c) p) (T p))\<rparr>"

lemma switch_cpu_sel [simp]:
  "cp_id (switch_cpu p n s c) = cp_id c" "cp_flags (switch_cpu p n s c) = cp_flags c"
  "cp_intr (switch_cpu p n s c) = cp_intr c" "cp_current (switch_cpu p n s c) = n"
  by (simp_all add: switch_cpu_def Let_def)

lemma schedule_yield_eq:
  assumes ok: "sched_ok s c ts" and nx: "next_task s c ts = Some n"
  obtains us T where "same_untimed (sc_tasks s) T" "schedule_yield s = Some ((), yielded s c n us T)"
proof -
  obtain us d T where a: "sched_timing (in_section s c (sc_last s) (sc_tasks s)) = Some (d, in_section s c us (sc_tasks s))"
    "sched_account (cp_current c) d (in_section s c us (sc_tasks s)) = Some (in_section s c us T)"
    "same_untimed (sc_tasks s) T" by (rule section_account [OF ok])
  from ok have o: "cpu_on s c" "\<not> sc_lock s" by (auto simp: sched_ok_def)
  have "schedule_yield s = Some ((), yielded s c n us T)"
    unfolding yielded_def schedule_yield_def
    using cpu_onD(1) [OF o(1)] a(1,2) section_switch [OF ok nx a(3)]
    by (simp add: lock_irq_section [OF o])
  with that a(3) show ?thesis by blast
qed

lemma switched_status:
  "tk_status (switched prev n fpu p t) = (if p = n then TASK_STATUS_RUNNING
     else if p = prev \<and> tk_status t = TASK_STATUS_RUNNING then TASK_STATUS_READY else tk_status t)"
  by (simp add: switched_def)

lemma yielded_status:
  assumes "same_untimed (sc_tasks s) T"
  shows "map_option tk_status (sc_tasks (yielded s c n us T) p) =
    map_option (\<lambda>t. if p = n then TASK_STATUS_RUNNING
      else if p = cp_current c \<and> tk_status t = TASK_STATUS_RUNNING then TASK_STATUS_READY else tk_status t) (sc_tasks s p)"
proof -
  have "map_option (\<lambda>t. tk_status (switched (cp_current c) n (cp_fpu c) p t)) (T p)
      = map_option (\<lambda>t. tk_status (switched (cp_current c) n (cp_fpu c) p t)) (sc_tasks s p)"
    by (rule same_untimedD [OF assms]) (simp add: switched_status)
  then show ?thesis by (simp add: yielded_def option.map_comp comp_def switched_status)
qed

lemma yielded_keeps:
  assumes "same_untimed (sc_tasks s) T" and "\<And>q f t. g (switched (cp_current c) n f q t) = g t" and "\<And>t. g (untimed t) = g t"
  shows "map_option g (sc_tasks (yielded s c n us T) p) = map_option g (sc_tasks s p)"
  using same_untimedD [OF assms(1), of g p] assms(2,3) by (simp add: yielded_def option.map_comp comp_def)

lemma yielded_ok:
  assumes ok: "sched_ok s c ts" and nx: "next_task s c ts = Some n" and T: "same_untimed (sc_tasks s) T"
  shows "sched_ok (yielded s c n us T) (switch_cpu (cp_current c) n s c) ts"
proof -
  let ?s = "yielded s c n us T"
  have k: "map_option (\<lambda>t. (tk_next t, tk_parent t, tk_aspace t, fr_context (tk_frame t))) (sc_tasks ?s p)
      = map_option (\<lambda>t. (tk_next t, tk_parent t, tk_aspace t, fr_context (tk_frame t))) (sc_tasks s p)" for p
    by (rule yielded_keeps [OF T]) simp_all
  have q: "sc_queue ?s = sc_queue s" "sc_lock ?s = sc_lock s" by (simp_all add: yielded_def)
  have "map_option tk_next (sc_tasks ?s p) = map_option tk_next (sc_tasks s p)" for p
    by (rule yielded_keeps [OF T]) simp_all
  then have "chain (sc_tasks ?s) (sc_queue s) ts = chain (sc_tasks s) (sc_queue s) ts" by (intro chain_cong)
  moreover have "task_ready ?s p = task_ready s p" for p
    using k [of p] by (cases "sc_tasks s p"; cases "sc_tasks ?s p") (auto simp: task_ready_def)
  moreover have "parent_ok ?s p = parent_ok s p" for p
    using k [of p] k by (cases "sc_tasks s p"; cases "sc_tasks ?s p") (auto simp: parent_ok_def map_option_eq_Some dest: arg_cong [where f = "\<lambda>x. x = None"])
  moreover have "cpu_on ?s (switch_cpu (cp_current c) n s c)"
    using ok by (auto simp: sched_ok_def cpu_on_def yielded_def)
  ultimately show ?thesis using ok next_task_in [OF ok nx] by (simp add: sched_ok_def q)
qed

text \<open>A run of yields, the clock moving on before each of them.\<close>

definition set_clock :: "int \<times> int \<Rightarrow> sched \<Rightarrow> sched" where
  "set_clock ck = upd_cpu (\<lambda>c. c\<lparr>cp_sec := fst ck, cp_nsec := snd ck\<rparr>)"

fun yield_run :: "(int \<times> int) list \<Rightarrow> sched \<Rightarrow> sched option" where
  "yield_run [] s = Some s"
| "yield_run (ck # cks) s = do { (_, s) \<leftarrow> schedule_yield (set_clock ck s); yield_run cks s }"

lemma set_clock_sel [simp]:
  "sc_tasks (set_clock ck s) = sc_tasks s" "sc_queue (set_clock ck s) = sc_queue s" "sc_lock (set_clock ck s) = sc_lock s"
  by (simp_all add: set_clock_def upd_cpu_def)

lemma set_clock_ok:
  assumes "sched_ok s c ts"
  shows "sched_ok (set_clock ck s) (c\<lparr>cp_sec := fst ck, cp_nsec := snd ck\<rparr>) ts"
    "eligible cid (set_clock ck s) q p = eligible cid s q p"
proof -
  have "task_ready (set_clock ck s) p = task_ready s p" "parent_ok (set_clock ck s) p = parent_ok s p" for p
    unfolding task_ready_def parent_ok_def set_clock_sel by (rule refl)+
  then show "sched_ok (set_clock ck s) (c\<lparr>cp_sec := fst ck, cp_nsec := snd ck\<rparr>) ts"
    using assms by (auto simp: sched_ok_def cpu_on_def set_clock_def upd_cpu_def)
  show "eligible cid (set_clock ck s) q p = eligible cid s q p" unfolding eligible_def set_clock_sel by (rule refl)
qed

lemma eligible_next_task:
  assumes "sched_ok s c ts" "r \<in> set ts" "eligible (cp_id c) s (cp_current c) r"
    "turn_order ts (cp_current c) = us @ r # vs"
  obtains n ws zs where "next_task s c ts = Some n" "turn_order ts (cp_current c) = ws @ n # zs" "n = r \<or> r \<in> set zs"
    "length ws \<le> length us"
proof -
  let ?P = "eligible (cp_id c) s (cp_current c)"
  have "find ?P (us @ r # vs) \<noteq> None" using assms(3) by (auto simp: find_None_iff)
  then obtain n where n: "next_task s c ts = Some n" using assms(4) by (auto simp: next_task_def)
  obtain ws zs where wz: "us @ r # vs = ws @ n # zs" "\<forall>u \<in> set ws. \<not> ?P u"
    using find_split [OF n [unfolded next_task_def]] assms(4) by auto
  have "length ws \<le> length us"
  proof (rule ccontr)
    assume "\<not> length ws \<le> length us"
    then have "ws ! length us = r" using arg_cong [OF wz(1), of "\<lambda>l. l ! length us"] by (simp add: nth_append)
    then have "r \<in> set ws" using \<open>\<not> length ws \<le> length us\<close> nth_mem [of "length us" ws] by simp
    with wz(2) assms(3) show False by blast
  qed
  moreover from this wz(1) have "n = r \<or> r \<in> set zs"
    by (auto simp: append_eq_append_conv2 Cons_eq_append_conv append_eq_Cons_conv)
  ultimately show ?thesis using that [OF n] wz(1) assms(4) by metis
qed

lemma distinct_turn_order: "distinct ts \<Longrightarrow> cur \<in> set ts \<Longrightarrow> distinct (turn_order ts cur)"
  by (erule turn_order_split) auto

lemma runnable_eligible: "runnable cid s r \<Longrightarrow> eligible cid s q r"
  by (auto simp: runnable_def eligible_def split: option.splits)

lemma yielded_runnable:
  assumes T: "same_untimed (sc_tasks s) T" and "runnable cid s r" "r \<noteq> n"
  shows "runnable cid (yielded s c n us T) r"
proof -
  obtain t where t: "sc_tasks s r = Some t" "may_run cid t" "tk_status t = TASK_STATUS_READY"
    using assms(2) by (auto simp: runnable_def split: option.splits)
  have "map_option tk_affinity (sc_tasks (yielded s c n us T) r) = Some (tk_affinity t)"
    using yielded_keeps [OF T, of tk_affinity] t(1) by simp
  moreover have "map_option tk_status (sc_tasks (yielded s c n us T) r) = Some TASK_STATUS_READY"
    using yielded_status [OF T, of c n us r] t assms(3) by (simp add: TASK_STATUS_READY_def TASK_STATUS_RUNNING_def)
  ultimately show ?thesis using t(2) by (auto simp: runnable_def may_run_def)
qed

lemma yield_reaches:
  assumes "sched_ok s c ts" "r \<in> set ts" "runnable (cp_id c) s r" "turn_order ts (cp_current c) = us @ r # vs"
    "length us < length cks"
  shows "\<exists>k \<le> Suc (length us). \<exists>s' c'. yield_run (take k cks) s = Some s' \<and> sched_ok s' c' ts \<and> cp_current c' = r"
  using assms
proof (induction us arbitrary: s c vs cks rule: length_induct)
  case (1 us)
  obtain ck cks' where cks: "cks = ck # cks'" using "1.prems"(5) by (cases cks) auto
  define s0 c0 where "s0 = set_clock ck s" and "c0 = c\<lparr>cp_sec := fst ck, cp_nsec := snd ck\<rparr>"
  have ok: "sched_ok s0 c0 ts" unfolding s0_def c0_def by (rule set_clock_ok [OF "1.prems"(1)])
  have run: "runnable (cp_id c0) s0 r" using "1.prems"(3) by (simp add: runnable_def s0_def c0_def)
  obtain n ws zs where n: "next_task s0 c0 ts = Some n" "us @ r # vs = ws @ n # zs" "n = r \<or> r \<in> set zs" "length ws \<le> length us"
    using eligible_next_task [OF ok "1.prems"(2) runnable_eligible [OF run], of us vs] "1.prems"(4) by (auto simp: c0_def)
  obtain t T where T: "same_untimed (sc_tasks s0) T" "schedule_yield s0 = Some ((), yielded s0 c0 n t T)"
    by (rule schedule_yield_eq [OF ok n(1)])
  let ?s = "yielded s0 c0 n t T" and ?c = "switch_cpu (cp_current c0) n s0 c0"
  have ok': "sched_ok ?s ?c ts" by (rule yielded_ok [OF ok n(1) T(1)])
  have step: "yield_run (ck # l) s = yield_run l ?s" for l using T(2) by (simp add: s0_def)
  show ?case
  proof (cases "n = r")
    case True
    with ok' step [of "[]"] cks show ?thesis by (intro exI [of _ 1]) auto
  next
    case False
    then obtain as bs where z: "zs = as @ r # bs" using n(3) by (auto dest: split_list)
    have d: "distinct ts" "cp_current c \<in> set ts" using "1.prems"(1) chain_distinct by (auto simp: sched_ok_def)
    have "distinct (us @ r # vs)" using distinct_turn_order [OF d] "1.prems"(4) by simp
    moreover have "us @ r # vs = (ws @ n # as) @ r # bs" using n(2) z by simp
    ultimately have us: "us = ws @ n # as" by (metis append_Cons_eq_iff distinct_append distinct.simps(2) Un_iff disjoint_iff not_distinct_conv_prefix set_append)
    have "turn_order ts n = zs @ ws @ [n]"
      using turn_order_rotate [OF d] "1.prems"(4) n(2) by simp
    then have o: "turn_order ts (cp_current ?c) = as @ r # bs @ ws @ [n]" using z by simp
    have "\<exists>k \<le> Suc (length as). \<exists>s' c'. yield_run (take k cks') ?s = Some s' \<and> sched_ok s' c' ts \<and> cp_current c' = r"
      using "1.IH" [rule_format, OF _ ok' "1.prems"(2) _ o, of cks'] yielded_runnable [OF T(1) run False [symmetric]] us "1.prems"(5) cks
      by simp
    then obtain k s' c' where "k \<le> Suc (length as)" "yield_run (take k cks') ?s = Some s'" "sched_ok s' c' ts" "cp_current c' = r"
      by blast
    with us cks step show ?thesis by (intro exI [of _ "Suc k"]) auto
  qed
qed

text \<open>C22. Scheduling is fair: when a task in the run queue is ready and may run on the processor, it runs
  after at most as many yields as there are tasks in the queue, however the clock moves and whichever
  tasks run in between.\<close>

theorem sched_yield_fair:
  assumes "sched_ok s c ts" "r \<in> set ts" "runnable (cp_id c) s r" "length ts \<le> length cks"
  shows "\<exists>k \<le> length ts. \<exists>s' c'. yield_run (take k cks) s = Some s' \<and> sched_ok s' c' ts \<and> cp_current c' = r"
proof -
  have cur: "cp_current c \<in> set ts" using assms(1) by (simp add: sched_ok_def)
  obtain us vs where o: "turn_order ts (cp_current c) = us @ r # vs"
    using assms(2) set_turn_order [OF cur] by (metis split_list)
  have "length (turn_order ts (cp_current c)) = length ts" by (rule turn_order_split [OF cur]) simp
  then have "Suc (length us) \<le> length ts" using o by simp
  with yield_reaches [OF assms(1,2,3) o, of cks] assms(4) show ?thesis by (meson le_trans less_eq_Suc_le)
qed

text \<open>The two outcomes of \<^verbatim>\<open>schedule\<close>: the slice lasts, or it has ended.\<close>

lemma schedule_outcome:
  assumes ok: "sched_ok s c ts" and t: "sc_tasks s (cp_current c) = Some t" "tk_priority t \<noteq> 20"
    and n: "next_task s c ts = Some n" "sc_tasks s n = Some tn"
  obtains us T where "same_untimed (sc_tasks s) T" "arch_timer_getus s = Some us" "T (cp_current c) \<noteq> None"
    "schedule s =
      (if (sint (tk_utime t + ucast (us - sc_last s)) sdiv 1000) smod sint (20 - tk_priority t) \<noteq> 0
       then Some (fr_context (tk_frame t), s\<lparr>sc_last := us, sc_tasks := T\<rparr>)
       else Some (fr_context (tk_frame tn), yielded s c n us T))"
proof -
  from ok have o: "cpu_on s c" "\<not> sc_lock s" "task_ready s (cp_current c)" by (auto simp: sched_ok_def)
  have fr: "fr_context (tk_frame t) \<noteq> 0" using o(3) t(1) by (simp add: task_ready_def)
  obtain us d T where a: "sched_timing (in_section s c (sc_last s) (sc_tasks s)) = Some (d, in_section s c us (sc_tasks s))"
    "sched_account (cp_current c) d (in_section s c us (sc_tasks s)) = Some (in_section s c us T)"
    "same_untimed (sc_tasks s) T" "arch_timer_getus s = Some us" "d = us - sc_last s"
    "map_option tk_utime (T (cp_current c)) = map_option (\<lambda>t. tk_utime t + ucast d) (sc_tasks s (cp_current c))"
    "\<And>q. map_option tk_priority (T q) = map_option tk_priority (sc_tasks s q)"
    by (rule section_account [OF ok]) (rule that; assumption)
  obtain t' where t': "T (cp_current c) = Some t'" by (rule same_untimed_Some [OF a(3) t(1)])
  have tt: "tk_utime t' = tk_utime t + ucast (us - sc_last s)" "tk_priority t' = tk_priority t"
    using a(5,6) a(7) [of "cp_current c"] t(1) t' by simp_all
  have "sint (20 - tk_priority t) \<noteq> 0" using t(2) by (simp add: signed_eq_0_iff)
  then have sl: "slice_left t' = Some ((sint (tk_utime t + ucast (us - sc_last s)) sdiv 1000) smod sint (20 - tk_priority t) \<noteq> 0)"
    by (simp add: slice_left_def tt Let_def)
  define body where "body = (\<lambda>s. do { (d, s) \<leftarrow> sched_timing s; s \<leftarrow> sched_account (cp_current c) d s;
    t' \<leftarrow> sc_tasks s (cp_current c); stay \<leftarrow> slice_left t';
    if stay then Some (fr_context (tk_frame t), s) else sched_switch (cp_current c) s })"
  have sch: "schedule s = lock_irq sc_lock set_sc_lock body s"
    using cpu_onD(1) [OF o(1)] t(1) fr by (simp add: schedule_def body_def Let_def)
  have cc: "(sc_cpus s)[sc_apic s := c] = sc_cpus s" using cpu_onD(3) [OF o(1)] by (metis list_update_id)
  have stay: "schedule s = Some (fr_context (tk_frame t), s\<lparr>sc_last := us, sc_tasks := T\<rparr>)" if "slice_left t' = Some True"
    unfolding sch by (subst lock_irq_section [OF o(1,2), where c' = c and us = us and T = T])
      (use that a(1,2) t' cc in \<open>simp_all add: body_def\<close>)
  have go: "schedule s = Some (fr_context (tk_frame tn), yielded s c n us T)" if "slice_left t' = Some False"
    unfolding sch yielded_def by (rule lock_irq_section [OF o(1,2)])
      (use that a(1,2) t' section_switch [OF ok n(1) a(3), of us] n(2) in \<open>simp_all add: body_def\<close>)
  show ?thesis
    by (rule that [OF a(3,4)]) (use t' stay go sl in \<open>auto split: if_splits\<close>)
qed

text \<open>C23. A timer interrupt charges the time to the current task and keeps it running while its time slice
  lasts; at the end of the slice the next task in turn that is ready runs with its registers, page
  directory and stack, the previous one is ready again and its registers are saved, no other task
  changes its status, and the lock and the interrupt flag are as before. A running task that may stay
  on its processor is itself such a next task, so the call always returns.\<close>

theorem schedule_switches:
  assumes ok: "sched_ok s c ts" and t: "sc_tasks s (cp_current c) = Some t" "tk_status t = TASK_STATUS_RUNNING"
    "may_run (cp_id c) t" "tk_priority t \<noteq> 20" and cr3: "tk_aspace t = Some (cp_cr3 c)"
  shows "\<exists>us n tn. arch_timer_getus s = Some us \<and> next_task s c ts = Some n \<and> sc_tasks s n = Some tn \<and>
    (if (sint (tk_utime t + ucast (us - sc_last s)) sdiv 1000) smod sint (20 - tk_priority t) \<noteq> 0
     then \<exists>s'. schedule s = Some (fr_context (tk_frame t), s') \<and> same_untimed (sc_tasks s) (sc_tasks s')
       \<and> get_current_cpu s' = Some c
     else \<exists>s' c'. schedule s = Some (fr_context (tk_frame tn), s') \<and> get_current_cpu s' = Some c' \<and> cp_current c' = n
       \<and> cp_fpu c' = (if n = cp_current c then cp_fpu c else fr_fpu (tk_frame tn))
       \<and> tk_aspace tn = Some (cp_cr3 c') \<and> cp_esp0 c' = n + CONFIG_STACK_SIZE \<and> cp_intr c' = cp_intr c \<and> \<not> sc_lock s'
       \<and> (\<forall>p. map_option tk_status (sc_tasks s' p) =
             (if p = n then Some TASK_STATUS_RUNNING else if p = cp_current c then Some TASK_STATUS_READY
              else map_option tk_status (sc_tasks s p)))
       \<and> map_option (\<lambda>t. fr_fpu (tk_frame t)) (sc_tasks s' (cp_current c)) = Some (cp_fpu c))"
proof -
  from ok have o: "cpu_on s c" "\<not> sc_lock s" "cp_current c \<in> set ts" by (auto simp: sched_ok_def)
  have "eligible (cp_id c) s (cp_current c) (cp_current c)" using t by (simp add: eligible_def)
  then have "next_task s c ts \<noteq> None"
    using set_turn_order [OF o(3)] o(3) by (auto simp: next_task_def find_None_iff)
  then obtain n where n: "next_task s c ts = Some n" by blast
  then obtain tn pn where tn: "sc_tasks s n = Some tn" "tk_aspace tn = Some pn"
    using next_task_in(1) [OF ok n] ok by (fastforce simp: sched_ok_def task_ready_def split: option.splits)
  obtain us T where T: "same_untimed (sc_tasks s) T" "arch_timer_getus s = Some us" "T (cp_current c) \<noteq> None"
    "schedule s =
      (if (sint (tk_utime t + ucast (us - sc_last s)) sdiv 1000) smod sint (20 - tk_priority t) \<noteq> 0
       then Some (fr_context (tk_frame t), s\<lparr>sc_last := us, sc_tasks := T\<rparr>)
       else Some (fr_context (tk_frame tn), yielded s c n us T))"
    by (rule schedule_outcome [OF ok t(1,4) n tn(1)])
  have c1: "get_current_cpu (s\<lparr>sc_last := us, sc_tasks := T\<rparr>) = Some c"
    using o(1) by (intro cpu_onD) (simp add: cpu_on_def)
  have c2: "get_current_cpu (yielded s c n us T) = Some (switch_cpu (cp_current c) n s c)"
    using yielded_ok [OF ok n T(1), of us] cpu_onD(1) by (auto simp: sched_ok_def)
  have sw: "tk_aspace tn = Some (cp_cr3 (switch_cpu (cp_current c) n s c))"
      "cp_fpu (switch_cpu (cp_current c) n s c) = (if n = cp_current c then cp_fpu c else fr_fpu (tk_frame tn))"
      "cp_esp0 (switch_cpu (cp_current c) n s c) = n + CONFIG_STACK_SIZE"
    using tn t(1) cr3 by (simp_all add: switch_cpu_def Let_def)
  have fp: "map_option (\<lambda>t. fr_fpu (tk_frame t)) (sc_tasks (yielded s c n us T) (cp_current c)) = Some (cp_fpu c)"
    using T(3) by (cases "T (cp_current c)") (simp_all add: yielded_def switched_def Let_def)
  have st: "map_option tk_status (sc_tasks (yielded s c n us T) p) =
      (if p = n then Some TASK_STATUS_RUNNING else if p = cp_current c then Some TASK_STATUS_READY
       else map_option tk_status (sc_tasks s p))" for p
    using yielded_status [OF T(1), of c n us p] t tn(1) by simp
  have "\<not> sc_lock (yielded s c n us T)" using o(2) by (simp add: yielded_def)
  with T n tn(1) c1 c2 sw fp st show ?thesis by simp
qed

section \<open>Adding and removing tasks\<close>

lemma chain_front:
  assumes "m x = Some t" "x \<noteq> 0" "x \<notin> set ts" "chain m q ts"
  shows "chain (m(x \<mapsto> t\<lparr>tk_next := q\<rparr>)) x (x # ts)"
proof -
  have "chain (m(x \<mapsto> t\<lparr>tk_next := q\<rparr>)) q ts = chain m q ts"
    by (rule chain_cong) (use assms(3) in auto)
  with assms show ?thesis by simp
qed

lemma chain_unlink:
  assumes "chain m q (xs @ p # x # ys)" "m p = Some tp" "m x = Some t"
  shows "chain (m(p \<mapsto> tp\<lparr>tk_next := tk_next t\<rparr>)) q (xs @ p # ys)"
  using assms
proof (induction xs arbitrary: q)
  case Nil
  have d: "p \<notin> set ys" using chain_distinct [OF Nil.prems(1)] by simp
  have c: "chain m (tk_next t) ys" "q = p" "p \<noteq> 0" using Nil.prems by auto
  have "chain (m(p \<mapsto> tp\<lparr>tk_next := tk_next t\<rparr>)) (tk_next t) ys = chain m (tk_next t) ys"
    by (rule chain_cong) (use d in auto)
  with c show ?case by (simp add: fun_upd_def)
next
  case (Cons a xs)
  have d: "a \<noteq> p" using chain_distinct [OF Cons.prems(1)] by auto
  from Cons.prems obtain ta where a: "m a = Some ta" "q = a" "a \<noteq> 0" "chain m (tk_next ta) (xs @ p # x # ys)"
    by (auto split: option.splits)
  with Cons.IH [OF a(4) Cons.prems(2,3)] d show ?case by simp
qed

lemma dequeue_find_chain:
  assumes "chain (sc_tasks s) q (xs @ p # x # ys)"
  shows "dequeue_find q x s = Some p"
  using assms
proof (induction xs arbitrary: q)
  case Nil
  then have "q = p" "x \<noteq> 0" by (auto split: option.splits)
  with Nil show ?case by (subst dequeue_find.simps) (auto split: option.splits)
next
  case (Cons a xs)
  from Cons.prems obtain ta where a: "sc_tasks s a = Some ta" "q = a" "chain (sc_tasks s) (tk_next ta) (xs @ p # x # ys)"
    by (auto split: option.splits)
  have "tk_next ta \<noteq> 0" "tk_next ta \<noteq> x"
    using chain_hd0 [OF a(3)] chain_nonzero [OF a(3)] chain_distinct [OF a(3)] by (cases xs; auto)+
  with a Cons.IH [OF a(3)] show ?case by (subst dequeue_find.simps) simp
qed

lemma dequeue_find_absent:
  assumes "chain (sc_tasks s) q ts" "ts \<noteq> []" "x \<notin> set ts"
  shows "\<exists>p t. dequeue_find q x s = Some p \<and> sc_tasks s p = Some t \<and> tk_next t = 0"
  using assms
proof (induction ts arbitrary: q)
  case (Cons a ts)
  from Cons.prems obtain ta where a: "sc_tasks s a = Some ta" "q = a" "chain (sc_tasks s) (tk_next ta) ts"
    by (auto split: option.splits)
  show ?case
  proof (cases ts)
    case Nil
    with a show ?thesis by (subst dequeue_find.simps) auto
  next
    case (Cons b us)
    with a(3) Cons.prems have "tk_next ta \<noteq> 0" "tk_next ta \<noteq> x" by auto
    then have "dequeue_find q x s = dequeue_find (tk_next ta) x s" using a by (subst dequeue_find.simps) simp
    with Cons.IH [OF a(3)] Cons.prems Cons show ?thesis by simp
  qed
qed simp

text \<open>C24. The run queue is a list: enqueueing a task that is not in it puts it in front, dequeueing a task
  takes it out wherever it is and leaves the others in their order, and dequeueing a task that is not
  in a non-empty queue fails the assertion.\<close>

theorem sched_queue_refines:
  assumes "chain (sc_tasks s) (sc_queue s) ts" "\<not> sc_lock s" "sc_tasks s x \<noteq> None" "x \<noteq> 0" "ts \<noteq> []"
  shows "if x \<in> set ts
    then \<exists>t. sched_dequeue x s = Some ((), t) \<and> chain (sc_tasks t) (sc_queue t) (remove1 x ts) \<and> \<not> sc_lock t
    else sched_dequeue x s = None \<and>
      (\<exists>t. sched_enqueue x s = Some ((), t) \<and> chain (sc_tasks t) (sc_queue t) (x # ts) \<and> \<not> sc_lock t)"
proof (cases "x \<in> set ts")
  case False
  obtain tx where tx: "sc_tasks s x = Some tx" using assms(3) by blast
  have "sc_queue s \<noteq> x" using chain_hd0 [OF assms(1)] False assms(5) by (cases ts) auto
  moreover have "chain (sc_tasks (s\<lparr>sc_lock := True\<rparr>)) (sc_queue s) ts" using assms(1) by simp
  from dequeue_find_absent [OF this assms(5) False]
  obtain p t where "dequeue_find (sc_queue s) x (s\<lparr>sc_lock := True\<rparr>) = Some p" "sc_tasks s p = Some t" "tk_next t = 0" by auto
  ultimately have "sched_dequeue x s = None" using assms(2) by (auto simp: sched_dequeue_def lock_simps)
  moreover have "\<exists>t. sched_enqueue x s = Some ((), t) \<and> chain (sc_tasks t) (sc_queue t) (x # ts) \<and> \<not> sc_lock t"
    using assms(2) tx chain_front [OF tx assms(4) False assms(1)] by (simp add: sched_enqueue_def lock_simps upd_tk_def)
  ultimately show ?thesis using False by simp
next
  case True
  then obtain xs ys where ts: "ts = xs @ x # ys" "x \<notin> set xs" using split_list_first by metis
  obtain t where t: "sc_tasks s x = Some t" "tk_next t = hd0 ys" "chain (sc_tasks s) (hd0 ys) ys"
    by (rule chain_next [OF assms(1) [unfolded ts(1)]])
  show ?thesis
  proof (cases xs rule: rev_cases)
    case Nil
    then have "sc_queue s = x" using chain_hd0 [OF assms(1)] ts by simp
    with t assms(2) Nil ts True show ?thesis by (simp add: sched_dequeue_def lock_simps)
  next
    case (snoc us p)
    have c: "chain (sc_tasks s) (sc_queue s) (us @ p # x # ys)" using assms(1) ts snoc by simp
    obtain tp where tp: "sc_tasks s p = Some tp" "tk_next tp = x" by (rule chain_next [OF c]) simp
    have "sc_queue s \<noteq> x" using chain_hd0 [OF c] chain_distinct [OF c] by (cases us) auto
    moreover have "dequeue_find (sc_queue s) x (s\<lparr>sc_lock := True\<rparr>) = Some p"
      using dequeue_find_chain [of "s\<lparr>sc_lock := True\<rparr>" "sc_queue s" us p x ys] c by simp
    moreover have "remove1 x ts = us @ p # ys" using ts snoc by (simp add: remove1_append)
    ultimately show ?thesis
      using tp t assms(2,4) True chain_unlink [OF c tp(1) t(1)] by (simp add: sched_dequeue_def lock_simps upd_tk_def)
  qed
qed

section \<open>The invariant of the scheduler\<close>

lemma section_switch_none:
  assumes ok: "sched_ok s c ts" and nx: "next_task s c ts = None" and T: "same_untimed (sc_tasks s) T"
  shows "sched_switch (cp_current c) (in_section s c us T) = None"
proof (rule ccontr)
  let ?s = "in_section s c us T" and ?p = "cp_current c"
  from ok have o: "cpu_on s c" "chain (sc_tasks s) (sc_queue s) ts" "?p \<in> set ts" by (auto simp: sched_ok_def)
  note t = untimed_transfer [OF T, of ?s, simplified]
  assume "sched_switch ?p ?s \<noteq> None"
  then obtain tp where tp: "T ?p = Some tp" by (cases "T ?p") (auto simp: sched_switch_def upd_tk_def)
  define tp' where "tp' = (let t = tp\<lparr>tk_nivcsw := tk_nivcsw tp + 1\<rparr> in
     if tk_status t = TASK_STATUS_RUNNING then t\<lparr>tk_status := TASK_STATUS_READY\<rparr> else t)"
  define s1 where "s1 = ?s\<lparr>sc_tasks := T(?p \<mapsto> tp')\<rparr>"
  have c1: "get_current_cpu s1 = Some (c\<lparr>cp_intr := False\<rparr>)"
    using cpu_on_in_section [OF o(1), of us T] by (intro cpu_onD) (simp add: s1_def)
  have "sched_switch ?p ?s = None" if "sched_next ?p (cp_id c) s1 = None"
    using that c1
    by (cases "tk_status tp = TASK_STATUS_RUNNING") (simp_all add: sched_switch_def upd_tk_def tp s1_def tp'_def Let_def)
  then obtain n where n: "sched_next ?p (cp_id c) s1 = Some n"
    using \<open>sched_switch ?p ?s \<noteq> None\<close> by blast
  have "chain (sc_tasks s1) (sc_queue s1) ts = chain T (sc_queue s) ts"
    by (simp add: s1_def, rule chain_cong) (auto simp: tp tp'_def Let_def)
  then have "n \<in> set ts" "runnable (cp_id c) s1 n"
    using sched_next_Some [OF n, of ts] t(3) o(2,3) by simp_all
  moreover have "runnable (cp_id c) s1 n = eligible (cp_id c) ?s ?p n"
    by (auto simp: runnable_def eligible_def s1_def tp tp'_def Let_def may_run_def TASK_STATUS_READY_def
        TASK_STATUS_RUNNING_def split: option.splits)
  ultimately show False
    using nx set_turn_order [OF o(3)] t(2) by (auto simp: next_task_def find_None_iff)
qed

lemma schedule_yield_next:
  assumes ok: "sched_ok s c ts" and "schedule_yield s \<noteq> None"
  shows "next_task s c ts \<noteq> None"
proof
  assume n: "next_task s c ts = None"
  from ok have o: "cpu_on s c" "\<not> sc_lock s" by (auto simp: sched_ok_def)
  obtain us d T where a: "sched_timing (in_section s c (sc_last s) (sc_tasks s)) = Some (d, in_section s c us (sc_tasks s))"
    "sched_account (cp_current c) d (in_section s c us (sc_tasks s)) = Some (in_section s c us T)"
    "same_untimed (sc_tasks s) T" by (rule section_account [OF ok])
  have "s\<lparr>sc_lock := True, sc_cpus := (sc_cpus s)[sc_apic s := c\<lparr>cp_intr := False\<rparr>]\<rparr>
      = in_section s c (sc_last s) (sc_tasks s)" by (simp add: in_section_def)
  with a o cpu_onD [OF o(1)] section_switch_none [OF ok n a(3), of us] have "schedule_yield s = None"
    by (simp add: schedule_yield_def lock_irq_def arch_intr_disable_def upd_cpu_def)
  with assms(2) show False by simp
qed


section \<open>An instance\<close>

definition demo_task :: "u32 \<Rightarrow> tptr \<Rightarrow> u32 \<Rightarrow> task" where
  "demo_task st nx pd = \<lparr>tk_frame = \<lparr>fr_regs = [], fr_fpu = [ucast pd], fr_context = 0x5000\<rparr>, tk_argv = 0, tk_environ = 0,
     tk_ids = \<lparr>id_tid = pd, id_tgid = 0, id_pgid = 0, id_uid = 0, id_euid = 0, id_gid = 0, id_egid = 0, id_sid = 0\<rparr>,
     tk_status = st, tk_priority = 0, tk_affinity = 0, tk_utime = 0, tk_cutime = 0, tk_dirs = (0, 0, 0), tk_umask = 0,
     tk_exit = 0, tk_aspace = Some pd, tk_rlimits = [], tk_nivcsw = 0, tk_lock = False, tk_parent = 0, tk_next = nx\<rparr>"

definition demo_cpu :: cpu where
  "demo_cpu = \<lparr>cp_id = 0, cp_node = 0, cp_flags = 1, cp_core = 16, cp_current = 16, cp_sec = 0, cp_nsec = 20000000,
     cp_fpu = [7], cp_cr3 = 1, cp_esp0 = 0, cp_intr = True\<rparr>"

text \<open>A running task, one that sleeps, and one that is ready.\<close>

definition sched_demo :: sched where
  "sched_demo = \<lparr>sc_tasks = [16 \<mapsto> demo_task 1 32 1, 32 \<mapsto> demo_task 2 48 2, 48 \<mapsto> demo_task 0 0 3],
     sc_queue = 16, sc_lock = False, sc_last = 0, sc_nextpid = 3, sc_cpus = [demo_cpu], sc_apic = 0\<rparr>"

lemma demo_sched_ok: "sched_ok sched_demo demo_cpu [16, 32, 48]"
  by (simp add: sched_ok_def cpu_on_def sched_demo_def demo_cpu_def demo_task_def task_ready_def parent_ok_def
      CPU_MAX_def CPU_FLAGS_ENABLED_def)

theorem sched_yield_fair_witness:
  "\<exists>k \<le> 3. \<exists>s' c'. yield_run (take k [(0, 0), (1, 0), (2, 0)]) sched_demo = Some s'
     \<and> sched_ok s' c' [16, 32, 48] \<and> cp_current c' = 48"
proof -
  have "runnable (cp_id demo_cpu) sched_demo 48" by code_simp
  with sched_yield_fair [OF demo_sched_ok, of 48 "[(0, 0), (1, 0), (2, 0)]"] show ?thesis by (simp add: numeral_3_eq_3)
qed

theorem schedule_switches_witness:
  "\<exists>s' c'. schedule sched_demo = Some (0x5000, s') \<and> get_current_cpu s' = Some c' \<and> cp_current c' = 48
     \<and> cp_fpu c' = [3] \<and> cp_cr3 c' = 3"
proof -
  have n: "next_task sched_demo demo_cpu [16, 32, 48] = Some 48" by code_simp
  have us: "arch_timer_getus sched_demo = Some 20000" by code_simp
  have t: "sc_tasks sched_demo (cp_current demo_cpu) = Some (demo_task 1 32 1)"
    "sc_tasks sched_demo 48 = Some (demo_task 0 0 3)" "sc_last sched_demo = 0" "cp_current demo_cpu = 16"
    by (simp_all add: sched_demo_def demo_cpu_def)
  have sl: "(sint (tk_utime (demo_task 1 32 1) + ucast (20000 - sc_last sched_demo)) sdiv 1000)
      smod sint (20 - tk_priority (demo_task 1 32 1)) = 0" by code_simp
  show ?thesis
    using schedule_switches [OF demo_sched_ok t(1)] n us t sl
    by (fastforce simp: demo_task_def demo_cpu_def may_run_def TASK_STATUS_RUNNING_def)
qed

theorem sched_queue_refines_witness:
  "\<exists>t. sched_dequeue 32 sched_demo = Some ((), t) \<and> chain (sc_tasks t) (sc_queue t) [16, 48] \<and> \<not> sc_lock t"
  using sched_queue_refines [of sched_demo "[16, 32, 48]" 32] by (simp add: sched_demo_def demo_task_def)


end
