(* ===== verification/Syscall_Table.thy ===== *)
theory Syscall_Table
  imports Kprelude
begin

text \<open>
  The table of the system calls, \<^verbatim>\<open>kernel/syscall.c\<close>: \<^verbatim>\<open>syscall_init\<close> fills it from the entries the \<^verbatim>\<open>SYSCALL\<close>
  macro places in a section of the kernel image, \<^verbatim>\<open>syscall_invoke\<close> calls through it. The code at the
  address of an entry is the argument \<open>call\<close>: it maps the address, the six arguments and the state to
  the result and the new state.
\<close>

definition SYSMAX :: nat where "SYSMAX = 512"

record sysentry =
  se_no :: u32
  se_ptr :: u32
  se_name :: u32

text \<open>The table holds addresses, 0 for an empty place.\<close>

fun syscall_register :: "sysentry list \<Rightarrow> u32 list \<Rightarrow> u32 list option" where
  "syscall_register [] tab = Some tab"
| "syscall_register (e # es) tab =
     do {
       kassert (unat (se_no e) < SYSMAX);
       kassert (se_ptr e \<noteq> 0);
       kassert (se_name e \<noteq> 0);
       p \<leftarrow> array_get tab (unat (se_no e));
       kassert (p = 0);
       tab \<leftarrow> array_set tab (unat (se_no e)) (se_ptr e);
       syscall_register es tab
     }"

definition syscall_init :: "sysentry list \<Rightarrow> u32 list option" where
  "syscall_init es = syscall_register es (replicate SYSMAX 0)"

text \<open>
  The index is a signed \<^verbatim>\<open>long\<close> that is only compared with the upper bound, so a negative one is outside
  the table. The result is returned and its negation stored in \<^verbatim>\<open>errno\<close> when it is negative.
\<close>

definition syscall_invoke ::
  "(u32 \<Rightarrow> u32 list \<Rightarrow> 's \<Rightarrow> (u32 \<times> 's) option) \<Rightarrow> u32 list \<Rightarrow> u32 \<Rightarrow> u32 list \<Rightarrow> 's \<Rightarrow> (u32 \<times> u32 \<times> 's) option" where
  "syscall_invoke call tab idx ps s =
     do {
       kassert (sint idx < int SYSMAX);
       p \<leftarrow> (if sint idx < 0 then None else array_get tab (nat (sint idx)));
       kassert (p \<noteq> 0);
       (r, s) \<leftarrow> call p ps s;
       Some (r, if sint r < 0 then - r else 0, s)
     }"

lemma syscall_register_other:
  assumes "syscall_register es tab = Some tab'" "\<forall>e \<in> set es. unat (se_no e) \<noteq> i"
  shows "length tab' = length tab" "i < length tab \<Longrightarrow> tab' ! i = tab ! i"
proof -
  have "length tab' = length tab \<and> (i < length tab \<longrightarrow> tab' ! i = tab ! i)"
    using assms
  proof (induction es arbitrary: tab)
    case (Cons e es)
    then obtain tab1 where "array_set tab (unat (se_no e)) (se_ptr e) = Some tab1" "syscall_register es tab1 = Some tab'"
      by (auto simp: bind_eq_Some_conv)
    with Cons.IH [of tab1] Cons.prems(2) show ?case by (auto simp: array_set_eq_Some)
  qed simp
  then show "length tab' = length tab" "i < length tab \<Longrightarrow> tab' ! i = tab ! i" by blast+
qed

text \<open>An entry that is taken keeps its place: a second entry with its number fails the assertion.\<close>

lemma syscall_register_taken:
  assumes "syscall_register es tab = Some tab'" "i < length tab" "tab ! i \<noteq> 0"
  shows "\<forall>e \<in> set es. unat (se_no e) \<noteq> i"
  using assms
proof (induction es arbitrary: tab)
  case (Cons e es)
  then obtain tab1 where s: "array_get tab (unat (se_no e)) = Some 0" "array_set tab (unat (se_no e)) (se_ptr e) = Some tab1"
    "syscall_register es tab1 = Some tab'"
    by (auto simp: bind_eq_Some_conv)
  then have "unat (se_no e) \<noteq> i" using Cons.prems by (auto simp: array_get_eq_Some)
  with s Cons.IH [of tab1] Cons.prems show ?case by (auto simp: array_set_eq_Some)
qed simp

lemma syscall_register_spec:
  assumes "syscall_register es tab = Some tab'" "e \<in> set es"
  shows "unat (se_no e) < length tab" "tab' ! unat (se_no e) = se_ptr e" "se_ptr e \<noteq> 0" "unat (se_no e) < SYSMAX"
proof -
  have "unat (se_no e) < length tab \<and> tab' ! unat (se_no e) = se_ptr e \<and> se_ptr e \<noteq> 0 \<and> unat (se_no e) < SYSMAX"
    using assms
  proof (induction es arbitrary: tab)
    case (Cons x es)
    then obtain tab1 where s: "array_set tab (unat (se_no x)) (se_ptr x) = Some tab1" "syscall_register es tab1 = Some tab'"
      "se_ptr x \<noteq> 0" "unat (se_no x) < SYSMAX"
      by (auto simp: bind_eq_Some_conv)
    then have t: "unat (se_no x) < length tab" "tab1 = tab[unat (se_no x) := se_ptr x]" by (simp_all add: array_set_eq_Some)
    show ?case
    proof (cases "e \<in> set es")
      case True
      with Cons.IH [OF s(2)] t show ?thesis by simp
    next
      case False
      then have "e = x" using Cons.prems(2) by simp
      with syscall_register_taken [OF s(2), of "unat (se_no x)"] syscall_register_other(2) [OF s(2), of "unat (se_no x)"] s t
      show ?thesis by auto
    qed
  qed simp
  then show "unat (se_no e) < length tab" "tab' ! unat (se_no e) = se_ptr e" "se_ptr e \<noteq> 0" "unat (se_no e) < SYSMAX" by blast+
qed

text \<open>After the table was filled, invoking the number of an entry runs exactly the code of this entry on
  the given arguments and state, returns its result and sets \<^verbatim>\<open>errno\<close> to the error it reports, or to 0;
  two entries with one number make the initialisation fail.\<close>

lemma syscall_invoke_dispatches:
  assumes "syscall_init es = Some tab" "e \<in> set es"
  shows "syscall_invoke call tab (se_no e) ps s =
      map_option (\<lambda>(r, t). (r, if sint r < 0 then - r else 0, t)) (call (se_ptr e) ps s)
    \<and> (\<forall>f \<in> set es. se_no f = se_no e \<longrightarrow> se_ptr f = se_ptr e)"
proof -
  note sp = syscall_register_spec [OF assms(1) [unfolded syscall_init_def]]
  note e = sp [OF assms(2)]
  have "length tab = SYSMAX"
  proof -
    have "syscall_register es t = Some t' \<Longrightarrow> length t' = length t" for t t'
      by (induction es arbitrary: t) (auto simp: bind_eq_Some_conv array_set_eq_Some)
    with assms(1) show ?thesis by (auto simp: syscall_init_def)
  qed
  moreover have "sint (se_no e) = int (unat (se_no e))"
    using e(4) by (intro sint_small) (simp add: SYSMAX_def)
  moreover have "int (unat (se_no e)) < int SYSMAX" using e(4) by (simp only: of_nat_less_iff)
  ultimately have "syscall_invoke call tab (se_no e) ps s =
      map_option (\<lambda>(r, t). (r, if sint r < 0 then - r else 0, t)) (call (se_ptr e) ps s)"
    using e by (cases "call (se_ptr e) ps s") (auto simp: syscall_invoke_def)
  moreover have "\<forall>f \<in> set es. se_no f = se_no e \<longrightarrow> se_ptr f = se_ptr e" using sp(2) e(2) by metis
  ultimately show ?thesis by blast
qed

lemma syscall_invoke_dispatches_demo:
  "syscall_invoke (\<lambda>p ps s. Some (p + hd ps, s + 1))
     ((replicate 512 0)[3 := 0x100, 7 := 0x200]) 7 [5] (0 :: nat) = Some (0x205, 0, 1)"
proof -
  let ?es = "[\<lparr>se_no = 3, se_ptr = 0x100, se_name = 1\<rparr>, \<lparr>se_no = 7, se_ptr = 0x200, se_name = 1\<rparr>]"
  have "syscall_init ?es = Some ((replicate 512 0)[3 := 0x100, 7 := 0x200])"
    by (simp add: syscall_init_def SYSMAX_def)
  from syscall_invoke_dispatches [OF this, of "\<lparr>se_no = 7, se_ptr = 0x200, se_name = 1\<rparr>"
      "\<lambda>p ps s. Some (p + hd ps, s + 1)" "[5]" "0 :: nat"]
  show ?thesis by simp
qed

end
