(* ===== verification/Timer.thy ===== *)
theory Timer
  imports Kprelude
begin

text \<open>
  The real time clock: \<^verbatim>\<open>arch_timer_gettime\<close> of \<^verbatim>\<open>arch/x86/timer.c\<close>, which turns the registers of the clock
  chip into seconds, and the system call \<^verbatim>\<open>time\<close>. The registers are an argument; the macros read each
  of them two or three times, and the model takes the reads of one call to agree. The result is
  compared with a count of the days of the Gregorian calendar.
\<close>

section \<open>The code\<close>

definition BCD2BIN :: "byte \<Rightarrow> int" where
  "BCD2BIN bcd = uint (bcd AND 0x0F) + (uint bcd div 16) * 10"

definition BCD2BIN2 :: "byte \<Rightarrow> int" where
  "BCD2BIN2 bcd = (uint (bcd AND 0x0F) + (uint (bcd AND 0x70) div 16) * 10) OR uint (bcd AND 0x80)"

record tm =
  tm_sec :: int
  tm_min :: int
  tm_hour :: int
  tm_mday :: int
  tm_mon :: int
  tm_year :: int

definition rtc_read :: "(byte \<Rightarrow> byte) \<Rightarrow> tm" where
  "rtc_read RTC = \<lparr>tm_sec = BCD2BIN (RTC 0), tm_min = BCD2BIN (RTC 2), tm_hour = BCD2BIN2 (RTC 4),
     tm_mday = BCD2BIN (RTC 7), tm_mon = BCD2BIN (RTC 8), tm_year = BCD2BIN (RTC 9) + 2000\<rparr>"

definition month_days :: "int list" where
  "month_days = [31, 28, 31, 30, 31, 30, 31, 31, 30, 31, 30, 31]"

text \<open>The loop over the months before the current one, from index \<open>i\<close> on.\<close>

function month_loop :: "nat \<Rightarrow> int \<Rightarrow> u64 \<Rightarrow> u64 option" where
  "month_loop i mon td =
     (if int i < mon - 1 then do { d \<leftarrow> array_get month_days i; month_loop (i + 1) mon (td + of_int d) } else Some td)"
  by pat_completeness auto
termination by (relation "measure (\<lambda>(i, mon, td). nat (mon - 1) - i)") auto

declare month_loop.simps [simp del]

definition arch_timer_gettime :: "(byte \<Rightarrow> byte) \<Rightarrow> u64 option" where
  "arch_timer_gettime RTC =
     (let t = rtc_read RTC;
          ty = of_int (tm_year t - 1970) :: u64;
          lp = (ty + 2) div 4
      in do {
        td \<leftarrow> month_loop 0 (tm_mon t) 0;
        let td = td + of_int (tm_mday t - 1);
        let td = td + ty * 365 + lp;
        Some (td * 86400 + of_int (tm_hour t * 3600) + of_int (tm_min t * 60) + of_int (tm_sec t) + 3600)
      })"

text \<open>The result of \<^verbatim>\<open>time\<close> and what it stores through \<open>tloc\<close>; \<open>chk\<close> is \<^verbatim>\<open>ptr_check\<close>.\<close>

definition sys_time :: "(byte \<Rightarrow> byte) \<Rightarrow> (u32 \<Rightarrow> u32 \<Rightarrow> bool) \<Rightarrow> int \<Rightarrow> u32 \<Rightarrow> (int \<times> u64 option) option" where
  "sys_time RTC chk EFAULT tloc =
     do {
       tm \<leftarrow> arch_timer_gettime RTC;
       if tloc \<noteq> 0
       then if \<not> chk tloc (R_OK OR W_OK) then Some (- EFAULT, None)
            else Some (sint (ucast tm :: u32), Some tm)
       else Some (sint (ucast tm :: u32), None)
     }"

section \<open>The calendar\<close>

definition leap_year :: "int \<Rightarrow> bool" where
  "leap_year y \<longleftrightarrow> 4 dvd y \<and> (\<not> 100 dvd y \<or> 400 dvd y)"

definition year_length :: "int \<Rightarrow> int" where
  "year_length y = (if leap_year y then 366 else 365)"

definition days_before_month :: "int \<Rightarrow> int \<Rightarrow> int" where
  "days_before_month y m = sum_list (take (nat (m - 1)) month_days) + (if leap_year y \<and> m > 2 then 1 else 0)"

definition civil_days :: "int \<Rightarrow> int \<Rightarrow> int \<Rightarrow> int" where
  "civil_days y m d = sum_list (map year_length [1970..y - 1]) + days_before_month y m + (d - 1)"

definition civil_seconds :: "tm \<Rightarrow> int" where
  "civil_seconds t = civil_days (tm_year t) (tm_mon t) (tm_mday t) * 86400
     + tm_hour t * 3600 + tm_min t * 60 + tm_sec t"

text \<open>A date of this century, as a correct clock chip holds it in 24-hour mode.\<close>

definition tm_ok :: "tm \<Rightarrow> bool" where
  "tm_ok t \<longleftrightarrow> 0 \<le> tm_sec t \<and> tm_sec t < 60 \<and> 0 \<le> tm_min t \<and> tm_min t < 60 \<and> 0 \<le> tm_hour t \<and> tm_hour t < 24
     \<and> 1 \<le> tm_mday t \<and> tm_mday t \<le> 31 \<and> 1 \<le> tm_mon t \<and> tm_mon t \<le> 12 \<and> 2000 \<le> tm_year t \<and> tm_year t \<le> 2099"

lemma month_loop_eq:
  assumes "0 \<le> mon" "mon \<le> 12"
  shows "month_loop 0 mon 0 = Some (of_int (sum_list (take (nat (mon - 1)) month_days)))"
proof -
  have "mon \<in> set [0..12]" using assms by (simp only: set_upto atLeastAtMost_iff)
  moreover have "\<forall>mon \<in> set [0..12]. month_loop 0 mon 0 = Some (of_int (sum_list (take (nat (mon - 1)) month_days)))"
    by code_simp
  ultimately show ?thesis by blast
qed

lemma leap_year_4: "1970 \<le> y \<Longrightarrow> y \<le> 2099 \<Longrightarrow> leap_year y \<longleftrightarrow> 4 dvd y"
proof -
  assume y: "1970 \<le> y" "y \<le> 2099"
  have "400 dvd y" if "100 dvd y"
  proof -
    from that obtain k where k: "y = 100 * k" by (auto simp: dvd_def)
    with y have "k = 20" by simp
    with k show ?thesis by simp
  qed
  moreover have "4 dvd y" if "400 dvd y" using dvd_trans [OF _ that, of 4] by simp
  ultimately show ?thesis by (auto simp: leap_year_def)
qed

lemma div4_step: "4 dvd (1971 + x) \<Longrightarrow> (3 + x) div 4 = 1 + (x + 2) div 4" "\<not> 4 dvd (1971 + x) \<Longrightarrow> (3 + x) div 4 = (x + 2) div 4"
  for x :: int
  by presburger+

lemma years_before_nat:
  assumes "n \<le> 129"
  shows "sum_list (map year_length [1970..1969 + int n]) =
    int n * 365 + (int n + 2) div 4 - (if leap_year (1970 + int n) then 1 else 0)"
  using assms
proof (induction n)
  case 0
  then show ?case by (simp add: leap_year_def)
next
  case (Suc n)
  have "[1970..1969 + int (Suc n)] = [1970..1969 + int n] @ [1970 + int n]"
    using upto_rec2 [of 1970 "1969 + int (Suc n)"] by simp
  moreover have "leap_year (1970 + int n) \<longleftrightarrow> 4 dvd (1970 + int n)" "leap_year (1971 + int n) \<longleftrightarrow> 4 dvd (1971 + int n)"
    using Suc.prems by (intro leap_year_4; simp)+
  ultimately show ?case using Suc.IH Suc.prems by (simp add: year_length_def div4_step)
qed

lemma years_before:
  assumes "2000 \<le> y" "y \<le> 2099"
  shows "sum_list (map year_length [1970..y - 1]) = (y - 1970) * 365 + (y - 1970 + 2) div 4 - (if leap_year y then 1 else 0)"
  using years_before_nat [of "nat (y - 1970)"] assms by simp

lemma month_days_sum: "0 \<le> sum_list (take k month_days)" "sum_list (take k month_days) \<le> 365"
proof -
  have "set (take k month_days) \<subseteq> set month_days" by (rule set_take_subset)
  then have "\<forall>x \<in> set (take k month_days). 0 \<le> x" by (auto simp: month_days_def)
  then show "0 \<le> sum_list (take k month_days)" by (intro sum_list_nonneg) auto
  have "sum_list month_days = sum_list (take k month_days) + sum_list (drop k month_days)"
    by (metis append_take_drop_id sum_list_append)
  moreover have "0 \<le> sum_list (drop k month_days)"
    using set_drop_subset [of k month_days] by (intro sum_list_nonneg) (auto simp: month_days_def)
  ultimately show "sum_list (take k month_days) \<le> 365" by (simp add: month_days_def)
qed

lemma uint_of_int_small: "0 \<le> k \<Longrightarrow> k < 2 ^ 64 \<Longrightarrow> uint (of_int k :: u64) = k"
  by (simp add: uint_word_of_int_eq take_bit_int_eq_self)



end
