(* ===== verification/Block.thy ===== *)
theory Block
  imports Kprelude
begin

text \<open>
  Block devices, \<^verbatim>\<open>drivers/dev/block/main.c\<close>: reading and writing a range of bytes of a device that
  transfers whole blocks, with a cache of one block for the partial ones. The driver (\<^verbatim>\<open>blk.read\<close>,
  \<^verbatim>\<open>blk.write\<close>) is an argument acting on a disk state of any type. The theorems say that a read
  returns the bytes of the disk and a write changes exactly the bytes of its range, and where the
  cache and the split into transfers break this.
\<close>

section \<open>Devices and drivers\<close>

definition DEVICE_STATUS_UNKNOWN :: u32 where "DEVICE_STATUS_UNKNOWN = 0"
definition DEVICE_STATUS_LOADING :: u32 where "DEVICE_STATUS_LOADING = 1"
definition DEVICE_STATUS_READY :: u32 where "DEVICE_STATUS_READY = 2"
definition DEVICE_STATUS_FAILED :: u32 where "DEVICE_STATUS_FAILED = 3"
definition DEVICE_STATUS_UNLOADING :: u32 where "DEVICE_STATUS_UNLOADING = 4"
definition DEVICE_STATUS_UNLOADED :: u32 where "DEVICE_STATUS_UNLOADED = 5"

definition EIO :: u32 where "EIO = 5"
definition EBUSY :: u32 where "EBUSY = 16"

text \<open>The part \<^verbatim>\<open>blk\<close> of a device with its status; a byte of the cache may be uninitialised.\<close>

record blkdev =
  bd_status :: u32
  bd_blksize :: u32
  bd_blkcount :: u32
  bd_blkmax :: u32
  bd_blkoff :: u32
  bd_cached :: bool
  bd_blkno :: u32
  bd_data :: "byte option list"

record 'd bstate =
  bs_dev :: blkdev
  bs_disk :: 'd
  bs_errno :: u32
  bs_inblock :: u32
  bs_oublock :: u32

text \<open>
  A driver reads \<open>n\<close> blocks from block \<open>b\<close> on: its result and the bytes it stores; it writes \<open>n\<close>
  blocks taken from the memory at the pointer it is given, which holds the bytes \<open>xs\<close>.
\<close>

type_synonym 'd rdop = "u32 \<Rightarrow> u32 \<Rightarrow> 'd \<Rightarrow> u32 \<times> byte list \<times> 'd"
type_synonym 'd wrop = "byte option list \<Rightarrow> u32 \<Rightarrow> u32 \<Rightarrow> 'd \<Rightarrow> u32 \<times> 'd"

record 'd blkops =
  bo_read :: "'d rdop option"
  bo_write :: "'d wrop option"

abbreviation bs_fail :: "u32 \<Rightarrow> 'd bstate \<Rightarrow> 'd bstate" where
  "bs_fail e s \<equiv> s\<lparr>bs_errno := e\<rparr>"

definition blk_bytes :: "blkdev \<Rightarrow> u32" where
  "blk_bytes d = bd_blkcount d * bd_blksize d"

text \<open>The assertions at the start of both functions; \<open>a\<close> is the address of the buffer.\<close>

definition block_asserts :: "u32 \<Rightarrow> blkdev \<Rightarrow> unit option" where
  "block_asserts a d =
     do {
       kassert (bd_blksize d \<noteq> 0);
       kassert (bd_blkcount d \<noteq> 0);
       kassert (bd_blksize d < 4096);
       kassert (a \<noteq> 0)
     }"

text \<open>The range that is transferred, or \<open>None\<close> when the functions return 0.\<close>

definition block_clip :: "u32 \<Rightarrow> u32 \<Rightarrow> blkdev \<Rightarrow> (u32 \<times> u32) option" where
  "block_clip off sz d =
     (let off = off + bd_blkoff d * bd_blksize d in
      if sz = 0 then None
      else if off \<ge> blk_bytes d then None
      else let sz = (if off + sz \<ge> blk_bytes d then blk_bytes d - off else sz) in
        if sz = 0 then None else Some (off, sz))"

text \<open>Bringing a block into the cache; \<open>False\<close> when the driver fails.\<close>

definition block_fetch :: "'d rdop \<Rightarrow> u32 \<Rightarrow> 'd bstate \<Rightarrow> (bool \<times> 'd bstate) option" where
  "block_fetch rd b s =
     (if bd_cached (bs_dev s) \<and> bd_blkno (bs_dev s) = b then Some (True, s)
      else do {
        let (r, xs, disk) = rd b 1 (bs_disk s);
        data \<leftarrow> mem_store (bd_data (bs_dev s)) 0 (map Some xs);
        let s = s\<lparr>bs_disk := disk, bs_dev := (bs_dev s)\<lparr>bd_data := data\<rparr>\<rparr>;
        if sint r \<le> 0 then Some (False, s)
        else Some (True, s\<lparr>bs_dev := (bs_dev s)\<lparr>bd_blkno := b, bd_cached := True\<rparr>\<rparr>)
      })"

section \<open>Reading\<close>

text \<open>
  The buffer is the list of the bytes stored so far. The comparison of the bulk transfers is with the
  value of the macro \<^verbatim>\<open>unlikely\<close>, which is not part of the sources and so an argument.
\<close>

definition block_bulk_read ::
  "(u32 \<Rightarrow> u32) \<Rightarrow> 'd rdop \<Rightarrow> u32 \<Rightarrow> u32 \<Rightarrow> u32 \<Rightarrow> byte option list \<Rightarrow> 'd bstate \<Rightarrow> (bool \<times> byte option list \<times> 'd bstate) option" where
  "block_bulk_read unlikely rd xoff sb n buf s =
     do {
       let (r, xs, disk) = rd sb n (bs_disk s);
       buf \<leftarrow> mem_store buf (unat xoff) (map Some xs);
       Some (0 < sint (unlikely r), buf, s\<lparr>bs_disk := disk\<rparr>)
     }"

text \<open>
  The loop of \<^verbatim>\<open>block_read\<close> over transfers of \<^verbatim>\<open>blkmax\<close> blocks: \<open>i\<close> blocks are left. A maximum that is
  negative as an \<^verbatim>\<open>int\<close> makes \<open>i\<close> grow until it overflows, which has no defined result.
\<close>

function block_read_loop ::
  "(u32 \<Rightarrow> u32) \<Rightarrow> 'd rdop \<Rightarrow> int \<Rightarrow> int \<Rightarrow> u32 \<Rightarrow> u32 \<Rightarrow> byte option list \<Rightarrow> 'd bstate
     \<Rightarrow> (bool \<times> int \<times> u32 \<times> u32 \<times> byte option list \<times> 'd bstate) option" where
  "block_read_loop unlikely rd mx i sb xoff buf s =
     (if mx \<le> 0 then None
      else if i - mx \<ge> 0
      then do {
        (ok, buf, s) \<leftarrow> block_bulk_read unlikely rd xoff sb (bd_blkmax (bs_dev s)) buf s;
        if ok then block_read_loop unlikely rd mx (i - mx) (sb + of_int mx) (xoff + bd_blksize (bs_dev s) * of_int mx) buf s
        else Some (False, i, sb, xoff, buf, s)
      }
      else Some (True, i, sb, xoff, buf, s))"
  by pat_completeness auto
termination by (relation "measure (\<lambda>(u, rd, mx, i, sb, xoff, buf, s). nat i)") auto

declare block_read_loop.simps [simp del]

text \<open>The whole blocks of the range.\<close>

definition block_read_whole ::
  "(u32 \<Rightarrow> u32) \<Rightarrow> 'd rdop \<Rightarrow> u32 \<Rightarrow> u32 \<Rightarrow> u32 \<Rightarrow> u32 \<Rightarrow> byte option list \<Rightarrow> 'd bstate
     \<Rightarrow> ((u32 \<times> byte option list) \<times> 'd bstate) option" where
  "block_read_whole unlikely rd sz sb eb xoff buf s =
     (let i = sint (eb - sb + 1) in
      if i > 0
      then do {
        (ok, i, sb, xoff, buf, s) \<leftarrow>
          (if bd_blkmax (bs_dev s) \<noteq> 0
           then block_read_loop unlikely rd (sint (bd_blkmax (bs_dev s))) i sb xoff buf s
           else Some (True, i, sb, xoff, buf, s));
        if \<not> ok then Some ((xoff, buf), bs_fail EIO s)
        else if i > 0
        then do {
          (ok, buf, s) \<leftarrow> block_bulk_read unlikely rd xoff sb (of_int i) buf s;
          if ok then Some ((sz, buf), s) else Some ((xoff, buf), bs_fail EIO s)
        }
        else Some ((sz, buf), s)
      }
      else Some ((sz, buf), s))"

text \<open>The partial block at the end of the range, then the whole ones.\<close>

definition block_read_tail ::
  "(u32 \<Rightarrow> u32) \<Rightarrow> 'd rdop \<Rightarrow> u32 \<Rightarrow> u32 \<Rightarrow> u32 \<Rightarrow> u32 \<Rightarrow> u32 \<Rightarrow> byte option list \<Rightarrow> 'd bstate
     \<Rightarrow> ((u32 \<times> byte option list) \<times> 'd bstate) option" where
  "block_read_tail unlikely rd off sz sb eb xoff buf s =
     (let p = (off + sz) mod bd_blksize (bs_dev s) in
      if p \<noteq> 0 \<and> sb \<le> eb
      then do {
        (ok, s) \<leftarrow> block_fetch rd eb s;
        if \<not> ok then Some ((xoff, buf), bs_fail EIO s)
        else do {
          xs \<leftarrow> mem_slice (bd_data (bs_dev s)) 0 (unat p);
          buf \<leftarrow> mem_store buf (unat (sz - p)) xs;
          block_read_whole unlikely rd sz sb (eb - 1) xoff buf s
        }
      }
      else block_read_whole unlikely rd sz sb eb xoff buf s)"

text \<open>A range inside the device: the partial block at its start, then the rest.\<close>

definition block_read_range ::
  "(u32 \<Rightarrow> u32) \<Rightarrow> 'd rdop \<Rightarrow> u32 \<Rightarrow> u32 \<Rightarrow> byte option list \<Rightarrow> 'd bstate \<Rightarrow> ((u32 \<times> byte option list) \<times> 'd bstate) option" where
  "block_read_range unlikely rd off sz buf s =
     (let bsz = bd_blksize (bs_dev s); sb = off div bsz; eb = (off + sz - 1) div bsz in
      if off mod bsz \<noteq> 0
      then do {
        let p = bsz - off mod bsz;
        let p = (if p > sz then sz else p);
        (ok, s) \<leftarrow> block_fetch rd sb s;
        if \<not> ok then Some ((0, buf), bs_fail EIO s)
        else do {
          xs \<leftarrow> mem_slice (bd_data (bs_dev s)) (unat (off mod bsz)) (unat p);
          buf \<leftarrow> mem_store buf 0 xs;
          block_read_tail unlikely rd off sz (sb + 1) eb p buf s
        }
      }
      else block_read_tail unlikely rd off sz sb eb 0 buf s)"

text \<open>
  \<^verbatim>\<open>block_read\<close> into a buffer at address \<open>a\<close> with the bytes \<open>buf\<close>. The result is an \<^verbatim>\<open>ssize_t\<close>, the word
  of -1 when the device is busy.
\<close>

definition block_read ::
  "(u32 \<Rightarrow> u32) \<Rightarrow> 'd blkops \<Rightarrow> u32 \<Rightarrow> byte option list \<Rightarrow> u32 \<Rightarrow> u32 \<Rightarrow> 'd bstate
     \<Rightarrow> ((u32 \<times> byte option list) \<times> 'd bstate) option" where
  "block_read unlikely ops a buf off sz s =
     do {
       block_asserts a (bs_dev s);
       if bd_status (bs_dev s) \<noteq> DEVICE_STATUS_READY then Some ((- 1, buf), bs_fail EBUSY s)
       else case bo_read ops of
         None \<Rightarrow> Some ((0, buf), s)
       | Some rd \<Rightarrow>
         (case block_clip off sz (bs_dev s) of
            None \<Rightarrow> Some ((0, buf), s)
          | Some (off, sz) \<Rightarrow> block_read_range unlikely rd off sz buf (s\<lparr>bs_inblock := bs_inblock s + 1\<rparr>))
     }"

section \<open>Writing\<close>

definition block_bulk_write ::
  "(u32 \<Rightarrow> u32) \<Rightarrow> 'd wrop \<Rightarrow> u32 \<Rightarrow> u32 \<Rightarrow> u32 \<Rightarrow> byte option list \<Rightarrow> 'd bstate \<Rightarrow> (bool \<times> 'd bstate) option" where
  "block_bulk_write unlikely wr xoff sb n buf s =
     (let (r, disk) = wr (drop (unat xoff) buf) sb n (bs_disk s) in Some (0 < sint (unlikely r), s\<lparr>bs_disk := disk\<rparr>))"

text \<open>The loop of \<^verbatim>\<open>block_write\<close>, which compares the block number with the number \<open>i\<close> of blocks.\<close>

partial_function (option) block_write_loop ::
  "(u32 \<Rightarrow> u32) \<Rightarrow> 'd wrop \<Rightarrow> u32 \<Rightarrow> u32 \<Rightarrow> u32 \<Rightarrow> byte option list \<Rightarrow> 'd bstate \<Rightarrow> (bool \<times> u32 \<times> u32 \<times> 'd bstate) option" where
  "block_write_loop unlikely wr i sb xoff buf s =
     (if sb + bd_blkmax (bs_dev s) < i
      then do {
        (ok, s) \<leftarrow> block_bulk_write unlikely wr xoff sb (bd_blkmax (bs_dev s)) buf s;
        if ok then block_write_loop unlikely wr i (sb + bd_blkmax (bs_dev s)) (xoff + bd_blksize (bs_dev s) * bd_blkmax (bs_dev s)) buf s
        else Some (False, sb, xoff, s)
      }
      else Some (True, sb, xoff, s))"

declare block_write_loop.simps [code]

definition block_write_whole ::
  "(u32 \<Rightarrow> u32) \<Rightarrow> 'd wrop \<Rightarrow> u32 \<Rightarrow> u32 \<Rightarrow> u32 \<Rightarrow> u32 \<Rightarrow> byte option list \<Rightarrow> 'd bstate \<Rightarrow> (u32 \<times> 'd bstate) option" where
  "block_write_whole unlikely wr sz sb eb xoff buf s =
     (let i = eb - sb + 1 in
      if sint i > 0
      then if bd_blkmax (bs_dev s) \<noteq> 0
        then do {
          (ok, sb, xoff, s) \<leftarrow> block_write_loop unlikely wr i sb xoff buf s;
          if \<not> ok then Some (xoff, bs_fail EIO s)
          else do {
            (ok, s) \<leftarrow> block_bulk_write unlikely wr xoff sb (i - sb) buf s;
            if ok then Some (sz, s) else Some (xoff, bs_fail EIO s)
          }
        }
        else do {
          (ok, s) \<leftarrow> block_bulk_write unlikely wr xoff sb i buf s;
          if ok then Some (sz, s) else Some (xoff, bs_fail EIO s)
        }
      else Some (sz, s))"

text \<open>Changing a part of a block in the cache and writing the block back; \<open>False\<close> when the driver fails.\<close>

definition block_patch :: "'d rdop \<Rightarrow> 'd wrop \<Rightarrow> u32 \<Rightarrow> nat \<Rightarrow> byte option list \<Rightarrow> 'd bstate \<Rightarrow> (bool \<times> 'd bstate) option" where
  "block_patch rd wr b at xs s =
     do {
       (ok, s) \<leftarrow> block_fetch rd b s;
       if \<not> ok then Some (False, s)
       else do {
         data \<leftarrow> mem_store (bd_data (bs_dev s)) at xs;
         let s = s\<lparr>bs_dev := (bs_dev s)\<lparr>bd_data := data\<rparr>\<rparr>;
         let (r, disk) = wr data b 1 (bs_disk s);
         Some (0 < sint r, s\<lparr>bs_disk := disk\<rparr>)
       }
     }"

definition block_write_tail ::
  "(u32 \<Rightarrow> u32) \<Rightarrow> 'd rdop \<Rightarrow> 'd wrop \<Rightarrow> u32 \<Rightarrow> u32 \<Rightarrow> u32 \<Rightarrow> u32 \<Rightarrow> u32 \<Rightarrow> byte option list \<Rightarrow> 'd bstate
     \<Rightarrow> (u32 \<times> 'd bstate) option" where
  "block_write_tail unlikely rd wr off sz sb eb xoff buf s =
     (let p = (off + sz) mod bd_blksize (bs_dev s) in
      if p \<noteq> 0 \<and> sb \<le> eb
      then do {
        xs \<leftarrow> mem_slice buf (unat (sz - p)) (unat p);
        (ok, s) \<leftarrow> block_patch rd wr eb 0 xs s;
        if \<not> ok then Some (xoff, bs_fail EIO s)
        else block_write_whole unlikely wr sz sb (eb - 1) xoff buf s
      }
      else block_write_whole unlikely wr sz sb eb xoff buf s)"

definition block_write_range ::
  "(u32 \<Rightarrow> u32) \<Rightarrow> 'd rdop \<Rightarrow> 'd wrop \<Rightarrow> u32 \<Rightarrow> u32 \<Rightarrow> byte option list \<Rightarrow> 'd bstate \<Rightarrow> (u32 \<times> 'd bstate) option" where
  "block_write_range unlikely rd wr off sz buf s =
     (let bsz = bd_blksize (bs_dev s); sb = off div bsz; eb = (off + sz - 1) div bsz in
      if off mod bsz \<noteq> 0
      then do {
        let p = bsz - off mod bsz;
        let p = (if p > sz then sz else p);
        xs \<leftarrow> mem_slice buf 0 (unat p);
        (ok, s) \<leftarrow> block_patch rd wr sb (unat (off mod bsz)) xs s;
        if \<not> ok then Some (0, bs_fail EIO s)
        else block_write_tail unlikely rd wr off sz (sb + 1) eb p buf s
      }
      else block_write_tail unlikely rd wr off sz sb eb 0 buf s)"

definition block_write ::
  "(u32 \<Rightarrow> u32) \<Rightarrow> 'd blkops \<Rightarrow> u32 \<Rightarrow> byte option list \<Rightarrow> u32 \<Rightarrow> u32 \<Rightarrow> 'd bstate \<Rightarrow> (u32 \<times> 'd bstate) option" where
  "block_write unlikely ops a buf off sz s =
     do {
       block_asserts a (bs_dev s);
       if bd_status (bs_dev s) \<noteq> DEVICE_STATUS_READY then Some (- 1, bs_fail EBUSY s)
       else case (bo_write ops, bo_read ops) of
         (Some wr, Some rd) \<Rightarrow>
           (case block_clip off sz (bs_dev s) of
              None \<Rightarrow> Some (0, s)
            | Some (off, sz) \<Rightarrow> block_write_range unlikely rd wr off sz buf (s\<lparr>bs_oublock := bs_oublock s + 1\<rparr>))
       | _ \<Rightarrow> Some (0, s)
     }"

definition block_init :: "blkdev \<Rightarrow> blkdev" where
  "block_init d = d\<lparr>bd_cached := False\<rparr>"

definition block_dnit :: "blkdev \<Rightarrow> blkdev" where
  "block_dnit d = d\<lparr>bd_cached := False\<rparr>"

section \<open>Reading returns the bytes of the disk\<close>

text \<open>
  What the functions rely on of the driver, over the contents \<open>C\<close> of a disk: a read inside the disk
  succeeds, returns the blocks and changes nothing.
\<close>

definition reads_disk :: "('d \<Rightarrow> byte list) \<Rightarrow> nat \<Rightarrow> 'd rdop \<Rightarrow> bool" where
  "reads_disk C k rd \<longleftrightarrow>
     (\<forall>b n d. n \<noteq> 0 \<longrightarrow> (unat b + unat n) * k \<le> length (C d) \<longrightarrow>
        (\<exists>r. rd b n d = (r, take (unat n * k) (drop (unat b * k) (C d)), d) \<and> 0 < sint r))"

text \<open>\<^verbatim>\<open>unlikely\<close> keeps a positive value positive, as a test of the value or the value itself does.\<close>

definition expect_ok :: "(u32 \<Rightarrow> u32) \<Rightarrow> bool" where
  "expect_ok unlikely \<longleftrightarrow> (\<forall>x. 0 < sint x \<longrightarrow> 0 < sint (unlikely x))"

definition block_of :: "byte list \<Rightarrow> nat \<Rightarrow> nat \<Rightarrow> byte list" where
  "block_of C k b = take k (drop (b * k) C)"

text \<open>A device with its sizes in range, and a cache that agrees with the disk.\<close>

definition dev_ok :: "nat \<Rightarrow> blkdev \<Rightarrow> bool" where
  "dev_ok len d \<longleftrightarrow> bd_blksize d \<noteq> 0 \<and> bd_blksize d < 4096 \<and> bd_blkcount d \<noteq> 0 \<and> length (bd_data d) = 4096
     \<and> unat (bd_blkcount d) * unat (bd_blksize d) < 2 ^ 31 \<and> unat (bd_blkcount d) * unat (bd_blksize d) \<le> len
     \<and> unat (bd_blkmax d) < 2 ^ 31"

definition coherent :: "('d \<Rightarrow> byte list) \<Rightarrow> 'd bstate \<Rightarrow> bool" where
  "coherent C s \<longleftrightarrow> dev_ok (length (C (bs_disk s))) (bs_dev s)
     \<and> (bd_cached (bs_dev s) \<longrightarrow> unat (bd_blkno (bs_dev s)) < unat (bd_blkcount (bs_dev s))
          \<and> take (unat (bd_blksize (bs_dev s))) (bd_data (bs_dev s))
            = map Some (block_of (C (bs_disk s)) (unat (bd_blksize (bs_dev s))) (unat (bd_blkno (bs_dev s)))))"

definition same_device :: "blkdev \<Rightarrow> blkdev \<Rightarrow> bool" where
  "same_device d d' \<longleftrightarrow> bd_status d' = bd_status d \<and> bd_blksize d' = bd_blksize d \<and> bd_blkcount d' = bd_blkcount d
     \<and> bd_blkmax d' = bd_blkmax d \<and> bd_blkoff d' = bd_blkoff d"

lemma length_block_of: "(b + 1) * k \<le> length C \<Longrightarrow> length (block_of C k b) = k"
  by (simp add: block_of_def)

lemma block_fits: "b < n \<Longrightarrow> (b + 1) * k \<le> n * (k :: nat)"
  by (metis Suc_eq_plus1 Suc_leI mult_le_mono1)

lemma block_fetch_ok:
  assumes rd: "reads_disk C (unat (bd_blksize (bs_dev s))) rd" and co: "coherent C s"
    and b: "unat b < unat (bd_blkcount (bs_dev s))"
  obtains s' where "block_fetch rd b s = Some (True, s')" "coherent C s'" "bs_disk s' = bs_disk s"
    "same_device (bs_dev s) (bs_dev s')"
    "take (unat (bd_blksize (bs_dev s))) (bd_data (bs_dev s')) = map Some (block_of (C (bs_disk s)) (unat (bd_blksize (bs_dev s))) (unat b))"
    "length (bd_data (bs_dev s')) = 4096"
proof (cases "bd_cached (bs_dev s) \<and> bd_blkno (bs_dev s) = b")
  case True
  show ?thesis
    by (rule that [of s]) (use True co in \<open>auto simp: block_fetch_def coherent_def same_device_def dev_ok_def\<close>)
next
  case False
  let ?k = "unat (bd_blksize (bs_dev s))" and ?C = "C (bs_disk s)"
  have d: "dev_ok (length ?C) (bs_dev s)" using co by (simp add: coherent_def)
  have f: "(unat b + 1) * ?k \<le> length ?C" using block_fits [OF b, of ?k] d unfolding dev_ok_def by linarith
  obtain r where r: "rd b 1 (bs_disk s) = (r, block_of ?C ?k (unat b), bs_disk s)" "0 < sint r"
    using rd [unfolded reads_disk_def, rule_format, of 1 b "bs_disk s"] f by (auto simp: block_of_def)
  have k: "?k < 4096" using d by (simp add: dev_ok_def word_less_nat_alt)
  define data where "data = map Some (block_of ?C ?k (unat b)) @ drop ?k (bd_data (bs_dev s))"
  have st: "mem_store (bd_data (bs_dev s)) 0 (map Some (block_of ?C ?k (unat b))) = Some data"
    using length_block_of [OF f] d k by (simp add: mem_store_def data_def dev_ok_def)
  have l: "length data = 4096" using length_mem_store [OF st] d by (simp add: dev_ok_def)
  have t: "take ?k data = map Some (block_of ?C ?k (unat b))" using length_block_of [OF f] by (simp add: data_def)
  let ?s = "s\<lparr>bs_dev := (bs_dev s)\<lparr>bd_data := data, bd_blkno := b, bd_cached := True\<rparr>\<rparr>"
  have "block_fetch rd b s = Some (True, ?s)" using False r st by (auto simp: block_fetch_def)
  moreover have "coherent C ?s" using d l t b by (simp add: coherent_def dev_ok_def)
  ultimately show ?thesis by (rule that) (simp_all add: same_device_def t l)
qed

text \<open>A bulk transfer.\<close>

lemma block_bulk_read_ok:
  assumes rd: "reads_disk C (unat (bd_blksize (bs_dev s))) rd" and un: "expect_ok unlikely"
    and n: "n \<noteq> 0" "(unat sb + unat n) * unat (bd_blksize (bs_dev s)) \<le> length (C (bs_disk s))"
    and o: "o0 + unat xoff = unat sb * unat (bd_blksize (bs_dev s))" and ag: "agree (C (bs_disk s)) o0 b0 S buf"
    and fit: "unat xoff + unat n * unat (bd_blksize (bs_dev s)) \<le> length b0"
  obtains buf' where "block_bulk_read unlikely rd xoff sb n buf s = Some (True, buf', s)"
    "agree (C (bs_disk s)) o0 b0 (S \<union> {unat xoff..<unat xoff + unat n * unat (bd_blksize (bs_dev s))}) buf'"
proof -
  let ?k = "unat (bd_blksize (bs_dev s))" and ?C = "C (bs_disk s)"
  obtain r where r: "rd sb n (bs_disk s) = (r, take (unat n * ?k) (drop (unat sb * ?k) ?C), bs_disk s)" "0 < sint r"
    using rd n unfolding reads_disk_def by blast
  have "o0 + unat xoff + unat n * ?k \<le> length ?C" using n(2) o by (simp add: add_mult_distrib)
  from agree_store [OF ag fit this] obtain buf' where
    "mem_store buf (unat xoff) (map Some (take (unat n * ?k) (drop (o0 + unat xoff) ?C))) = Some buf'"
    "agree ?C o0 b0 (S \<union> {unat xoff..<unat xoff + unat n * ?k}) buf'" .
  with r un [unfolded expect_ok_def, rule_format, OF r(2)] o show ?thesis by (intro that [of buf']) (simp_all add: block_bulk_read_def)
qed

text \<open>The loop over transfers of the largest size, and the rest: the whole blocks of a range.\<close>

lemma block_read_loop_ok:
  fixes s :: "'d bstate"
  assumes rd: "reads_disk C k rd" and un: "expect_ok unlikely"
    and k: "k = unat (bd_blksize (bs_dev s))" and m: "m = unat (bd_blkmax (bs_dev s))" "0 < m" "m < 2 ^ 31"
    and "(unat sb + i) * k \<le> length (C (bs_disk s))" "(unat sb + i) * k < 2 ^ 31" "k \<noteq> 0"
    and "o0 + unat xoff = unat sb * k" "agree (C (bs_disk s)) o0 b0 S buf" "unat xoff + i * k \<le> length b0"
  shows "\<exists>sb' xoff' buf' j. block_read_loop unlikely rd (int m) (int i) sb xoff buf s = Some (True, int j, sb', xoff', buf', s)
    \<and> unat sb' + j = unat sb + i \<and> unat xoff' + j * k = unat xoff + i * k
    \<and> agree (C (bs_disk s)) o0 b0 (S \<union> {unat xoff..<unat xoff'}) buf' \<and> unat xoff \<le> unat xoff'"
  using assms(7-)
proof (induction i arbitrary: sb xoff buf S rule: less_induct)
  case (less i)
  show ?case
  proof (cases "m \<le> i")
    case False
    then show ?thesis using m(2) less.prems by (subst block_read_loop.simps) auto
  next
    case True
    have nm: "bd_blkmax (bs_dev s) \<noteq> 0" using m by auto
    have le: "(unat sb + m) * k \<le> (unat sb + i) * k" "m * k \<le> i * k" using True by simp_all
    have f1: "(unat sb + m) * k \<le> length (C (bs_disk s))" using le(1) less.prems(1) by linarith
    have f2: "unat xoff + m * k \<le> length b0" using le(2) less.prems(6) by linarith
    obtain buf1 where b1: "block_bulk_read unlikely rd xoff sb (bd_blkmax (bs_dev s)) buf s = Some (True, buf1, s)"
      "agree (C (bs_disk s)) o0 b0 (S \<union> {unat xoff..<unat xoff + m * k}) buf1"
      by (rule block_bulk_read_ok [OF rd [unfolded k] un nm f1 [unfolded k m(1)] less.prems(4) [unfolded k] less.prems(5) f2 [unfolded k m(1)]])
        (simp add: k m(1))
    define sb1 xoff1 where "sb1 = sb + of_int (int m)" and "xoff1 = xoff + bd_blksize (bs_dev s) * of_int (int m)"
    have mm: "(of_nat m :: u32) = bd_blkmax (bs_dev s)" using m(1) by simp
    have "unat sb + i < 2 ^ 31" using less_of_mult [OF less.prems(2,3)] .
    then have sb1: "unat sb1 = unat sb + m" using True unat_add_small [of sb "bd_blkmax (bs_dev s)"] m(1) by (simp add: sb1_def mm)
    have "unat xoff \<le> unat sb * k" using less.prems(4) by simp
    moreover have "unat sb * k + i * k < 2 ^ 31" using less.prems(2) by (simp add: add_mult_distrib)
    ultimately have "unat xoff + m * k < 2 ^ 31" using le(2) by linarith
    then have xoff1: "unat xoff1 = unat xoff + m * k"
      using unat_add_small [of xoff "bd_blksize (bs_dev s) * bd_blkmax (bs_dev s)"] unat_mult_lem [of "bd_blksize (bs_dev s)" "bd_blkmax (bs_dev s)"] k m(1)
      by (simp add: xoff1_def mm mult.commute)
    have i: "i - m + m = i" using True by simp
    have e: "unat sb1 + (i - m) = unat sb + i" "unat xoff1 + (i - m) * k = unat xoff + i * k"
      using sb1 xoff1 i True by (auto simp: diff_mult_distrib)
    have "o0 + unat xoff1 = unat sb1 * k" using less.prems(4) sb1 xoff1 by (simp add: add_mult_distrib)
    with less.IH [of "i - m" sb1 xoff1 "S \<union> {unat xoff..<unat xoff + m * k}" buf1] m(2) True less.prems e b1(2)
    obtain sb' xoff' buf' j where
      "block_read_loop unlikely rd (int m) (int (i - m)) sb1 xoff1 buf1 s = Some (True, int j, sb', xoff', buf', s)"
      "unat sb' + j = unat sb + i" "unat xoff' + j * k = unat xoff + i * k"
      "agree (C (bs_disk s)) o0 b0 (S \<union> {unat xoff..<unat xoff + m * k} \<union> {unat xoff1..<unat xoff'}) buf'" "unat xoff1 \<le> unat xoff'"
      by auto
    moreover have "S \<union> {unat xoff..<unat xoff + m * k} \<union> {unat xoff1..<unat xoff'} = S \<union> {unat xoff..<unat xoff'}"
      using xoff1 calculation(5) by auto
    moreover have "block_read_loop unlikely rd (int m) (int i) sb xoff buf s
        = block_read_loop unlikely rd (int m) (int (i - m)) sb1 xoff1 buf1 s"
      using m(2) True b1(1) by (subst block_read_loop.simps) (simp add: sb1_def xoff1_def of_nat_diff)
    ultimately show ?thesis
      using xoff1 by (intro exI [of _ sb'] exI [of _ xoff'] exI [of _ buf'] exI [of _ j]) simp
  qed
qed

lemma block_read_whole_ok:
  fixes s :: "'d bstate"
  assumes rd: "reads_disk C k rd" and un: "expect_ok unlikely"
    and k: "k = unat (bd_blksize (bs_dev s))" "k \<noteq> 0" and m: "unat (bd_blkmax (bs_dev s)) < 2 ^ 31"
    and N: "eb - sb + 1 = of_nat N"
    and le: "(unat sb + N) * k \<le> length (C (bs_disk s))" "(unat sb + N) * k < 2 ^ 31"
    and o: "o0 + unat xoff = unat sb * k" and ag: "agree (C (bs_disk s)) o0 b0 S buf" and fit: "unat xoff + N * k \<le> length b0"
  obtains buf' where "block_read_whole unlikely rd sz sb eb xoff buf s = Some ((sz, buf'), s)"
    "agree (C (bs_disk s)) o0 b0 (S \<union> {unat xoff..<unat xoff + N * k}) buf'"
proof -
  have N31: "N < 2 ^ 31"
    using less_of_mult [OF le(2) k(2)] by simp
  then have i: "sint (eb - sb + 1) = int N" by (simp add: N sint_of_nat_small)
  obtain sb' xoff' buf1 j where l:
    "(if bd_blkmax (bs_dev s) \<noteq> 0 then block_read_loop unlikely rd (sint (bd_blkmax (bs_dev s))) (int N) sb xoff buf s
      else Some (True, int N, sb, xoff, buf, s)) = Some (True, int j, sb', xoff', buf1, s)"
    "unat sb' + j = unat sb + N" "unat xoff' + j * k = unat xoff + N * k"
    "agree (C (bs_disk s)) o0 b0 (S \<union> {unat xoff..<unat xoff'}) buf1" "unat xoff \<le> unat xoff'"
  proof (cases "bd_blkmax (bs_dev s) = 0")
    case True
    with ag that [of N sb xoff buf] show ?thesis by simp
  next
    case False
    then have "0 < unat (bd_blkmax (bs_dev s))" by (simp add: unat_gt_0)
    with block_read_loop_ok [OF rd un k(1) refl _ m le k(2) o ag fit] that False sint_small [OF m] show ?thesis by fastforce
  qed
  have st: "block_read_whole unlikely rd sz sb eb xoff buf s =
     (if int N > 0 then
       if int j > 0 then do {
          (ok, buf, s) \<leftarrow> block_bulk_read unlikely rd xoff' sb' (of_nat j) buf1 s;
          if ok then Some ((sz, buf), s) else Some ((xoff', buf), bs_fail EIO s) }
        else Some ((sz, buf1), s)
      else Some ((sz, buf), s))"
    using l(1) by (simp add: block_read_whole_def i Let_def)
  consider "N = 0" | "N \<noteq> 0" "j = 0" | "j \<noteq> 0" by blast
  then show ?thesis
  proof cases
    case 1
    then show ?thesis using st ag by (intro that [of buf]) simp_all
  next
    case 2
    then show ?thesis using st l by (intro that [of buf1]) simp_all
  next
    case 3
    have "j * k \<le> N * k" using l(3,5) by linarith
    then have jN: "j \<le> N" using k(2) by simp
    then have uj: "unat (of_nat j :: u32) = j" using N31 by (simp add: unat_of_nat)
    have nz: "of_nat j \<noteq> (0 :: u32)" using uj 3 by auto
    have "(unat sb' + j) * k \<le> length (C (bs_disk s))" using le(1) l(2) by simp
    moreover have "unat sb' * k + j * k = unat sb * k + N * k" using l(2) by (metis add_mult_distrib)
    then have "o0 + unat xoff' = unat sb' * k" using o l(3) by linarith
    moreover have "unat xoff' + j * k \<le> length b0" using l(3) fit by simp
    ultimately obtain buf' where b: "block_bulk_read unlikely rd xoff' sb' (of_nat j) buf1 s = Some (True, buf', s)"
      "agree (C (bs_disk s)) o0 b0 (S \<union> {unat xoff..<unat xoff'} \<union> {unat xoff'..<unat xoff' + j * k}) buf'"
      using block_bulk_read_ok [OF rd [unfolded k(1)] un nz _ _ l(4), of sb' xoff'] by (auto simp: uj k(1))
    moreover have "S \<union> {unat xoff..<unat xoff'} \<union> {unat xoff'..<unat xoff' + j * k} = S \<union> {unat xoff..<unat xoff + N * k}"
      using l(3,5) by auto
    moreover have "N \<noteq> 0" using 3 jN by auto
    ultimately show ?thesis using st 3 by (intro that [of buf']) simp_all
  qed
qed

lemma same_device_refl [simp]: "same_device d d"
  by (simp add: same_device_def)

lemma same_device_trans: "same_device d e \<Longrightarrow> same_device e f \<Longrightarrow> same_device d f"
  by (simp add: same_device_def)

text \<open>The geometry of a range: its last block and the bytes in it.\<close>

lemma last_block:
  assumes "(o0 + n) mod k \<noteq> 0" "0 < n" "0 < (k :: nat)"
  shows "(o0 + n - 1) div k * k + (o0 + n) mod k = o0 + n"
proof -
  have "(o0 + n - 1) div k = (o0 + n) div k"
    using assms by (metis Suc_pred' add_pos_nonneg div_Suc gr_implies_not0 add.commute zero_le not_gr_zero add_is_0)
  then show ?thesis by simp
qed

lemma last_block_full:
  assumes "(o0 + n) mod k = 0" "0 < n" "0 < (k :: nat)"
  shows "((o0 + n - 1) div k + 1) * k = o0 + n"
proof -
  have "(o0 + n) div k = Suc ((o0 + n - 1) div k)"
    using assms by (metis Suc_pred' add_pos_nonneg div_Suc add.commute zero_le)
  then show ?thesis using assms(1) by (metis Suc_eq_plus1 add.right_neutral div_mult_mod_eq)
qed

lemma block_read_tail_ok:
  fixes s :: "'d bstate"
  assumes rd: "reads_disk C k rd" and un: "expect_ok unlikely" and co: "coherent C s"
    and k: "k = unat (bd_blksize (bs_dev s))"
    and rg: "0 < unat sz" "unat off + unat sz \<le> unat (bd_blkcount (bs_dev s)) * k" "unat sz \<le> length b0"
    and eb: "unat eb = (unat off + unat sz - 1) div k"
    and st: "unat sb = unat eb + 1 \<and> unat xoff = unat sz \<or> sb \<le> eb \<and> unat off + unat xoff = unat sb * k"
    and ag: "agree (C (bs_disk s)) (unat off) b0 {0..<unat xoff} buf"
  obtains buf' s' where "block_read_tail unlikely rd off sz sb eb xoff buf s = Some ((sz, buf'), s')"
    "agree (C (bs_disk s)) (unat off) b0 {0..<unat sz} buf'" "coherent C s'" "bs_disk s' = bs_disk s"
    "same_device (bs_dev s) (bs_dev s')"
proof -
  let ?C = "C (bs_disk s)" and ?cnt = "unat (bd_blkcount (bs_dev s))"
  have d: "dev_ok (length ?C) (bs_dev s)" using co by (simp add: coherent_def)
  have k0: "k \<noteq> 0" "0 < k" and L: "?cnt * k < 2 ^ 31" "?cnt * k \<le> length ?C" and m: "unat (bd_blkmax (bs_dev s)) < 2 ^ 31"
    using d k by (auto simp: dev_ok_def unat_gt_0)
  have os: "unat (off + sz) = unat off + unat sz" using rg L by (intro unat_add_small) simp
  define q where "q = (off + sz) mod bd_blksize (bs_dev s)"
  have q: "unat q = (unat off + unat sz) mod k" by (simp add: q_def unat_mod_word os k)
  show ?thesis
  proof (cases "sb \<le> eb")
    case False
    then have "unat sb = unat eb + 1" and x: "unat xoff = unat sz" using st by auto
    then have "sb = eb + 1"
      using unat_Suc_word [of eb] unat_u32_less [of sb] by (simp add: word_unat_eq_iff)
    then have "block_read_tail unlikely rd off sz sb eb xoff buf s = Some ((sz, buf), s)"
      using False by (simp add: block_read_tail_def block_read_whole_def Let_def)
    with ag x co show ?thesis by (intro that [of buf s]) simp_all
  next
    case True
    then have o: "unat off + unat xoff = unat sb * k" using st by (auto simp: word_le_nat_alt)
    have sbeb: "unat sb \<le> unat eb" using True by (simp add: word_le_nat_alt)
    then have sk: "unat sb * k \<le> unat eb * k" by simp
    have ek: "unat eb * k \<le> unat off + unat sz - 1" using eb by (metis div_mult_mod_eq le_add1)
    then have xs: "unat xoff \<le> unat sz" using o sk by linarith
    have ebc: "unat eb < ?cnt"
    proof (rule ccontr)
      assume "\<not> unat eb < ?cnt"
      then have "?cnt * k \<le> unat eb * k" by simp
      with ek rg show False by linarith
    qed
    show ?thesis
    proof (cases "q = 0")
      case True
      define N where "N = unat eb + 1 - unat sb"
      have N: "eb - sb + 1 = of_nat N" using sbeb by (simp add: N_def of_nat_diff)
      have f: "(unat eb + 1) * k = unat off + unat sz" using last_block_full [of "unat off" "unat sz" k] q True rg(1) k0 eb by simp
      have sN: "unat sb + N = unat eb + 1" using sbeb by (simp add: N_def)
      then have "unat sb * k + N * k = unat off + unat sz" using f by (metis add_mult_distrib)
      then have xN: "unat xoff + N * k = unat sz" using o by linarith
      obtain buf' where "block_read_whole unlikely rd sz sb eb xoff buf s = Some ((sz, buf'), s)"
        "agree ?C (unat off) b0 ({0..<unat xoff} \<union> {unat xoff..<unat xoff + N * k}) buf'"
        by (rule block_read_whole_ok [OF rd un k k0(1) m N _ _ o ag, of sz]) (use f sN xN rg L in auto)
      moreover have "{0..<unat xoff} \<union> {unat xoff..<unat xoff + N * k} = {0..<unat sz}" using xN xs by auto
      ultimately show ?thesis using True co
        by (intro that [of buf' s]) (simp_all add: block_read_tail_def q_def [symmetric])
    next
      case False
      have q0: "(unat off + unat sz) mod k \<noteq> 0" using False q by (metis unat_eq_zero)
      have f: "unat eb * k + unat q = unat off + unat sz" using last_block [OF q0 rg(1) k0(2)] eb q by simp
      have qk: "unat q < k" using q k0 by simp
      obtain s' where s': "block_fetch rd eb s = Some (True, s')" "coherent C s'" "bs_disk s' = bs_disk s"
        "same_device (bs_dev s) (bs_dev s')" "take k (bd_data (bs_dev s')) = map Some (block_of ?C k (unat eb))"
        "length (bd_data (bs_dev s')) = 4096"
        by (rule block_fetch_ok [OF rd [unfolded k] co ebc]) (use k in simp)
      have k4: "k < 4096" using d k by (simp add: dev_ok_def word_less_nat_alt)
      have "take (unat q) (bd_data (bs_dev s')) = take (unat q) (take k (bd_data (bs_dev s')))" using qk by (simp add: min_absorb1)
      then have sl: "mem_slice (bd_data (bs_dev s')) 0 (unat q) = Some (map Some (take (unat q) (drop (unat eb * k) ?C)))"
        using s'(5,6) qk k4 by (simp add: mem_slice_def block_of_def take_map min_absorb1)
      have sq: "unat (sz - q) = unat sz - unat q" "unat q \<le> unat sz" "unat off + (unat sz - unat q) = unat eb * k"
      proof -
        show q': "unat q \<le> unat sz" using f o sk by linarith
        then show "unat off + (unat sz - unat q) = unat eb * k" using f by linarith
        show "unat (sz - q) = unat sz - unat q" using q' by (simp add: unat_sub word_le_nat_alt)
      qed
      obtain buf1 where b1: "mem_store buf (unat (sz - q)) (map Some (take (unat q) (drop (unat eb * k) ?C))) = Some buf1"
        "agree ?C (unat off) b0 ({0..<unat xoff} \<union> {unat sz - unat q..<unat sz}) buf1"
        by (rule agree_store [OF ag, of "unat sz - unat q" "unat q"]) (use sq f rg L in simp_all)
      define N where "N = unat eb - unat sb"
      have N: "(eb - 1) - sb + 1 = of_nat N" using sbeb by (simp add: N_def of_nat_diff)
      have sN: "unat sb + N = unat eb" using sbeb by (simp add: N_def)
      then have "unat sb * k + N * k = unat eb * k" by (metis add_mult_distrib)
      then have xN: "unat xoff + N * k = unat sz - unat q" using o sq by linarith
      have dv: "bd_blksize (bs_dev s') = bd_blksize (bs_dev s)" "bd_blkmax (bs_dev s') = bd_blkmax (bs_dev s)"
        using s'(4) by (simp_all add: same_device_def)
      have k1: "k = unat (bd_blksize (bs_dev s'))" and m1: "unat (bd_blkmax (bs_dev s')) < 2 ^ 31" using dv k m by simp_all
      have le: "(unat sb + N) * k \<le> length (C (bs_disk s'))" "(unat sb + N) * k < 2 ^ 31" "unat xoff + N * k \<le> length b0"
        using f sN xN rg L s'(3) by auto
      obtain buf' where "block_read_whole unlikely rd sz sb (eb - 1) xoff buf1 s' = Some ((sz, buf'), s')"
        "agree ?C (unat off) b0 ({0..<unat xoff} \<union> {unat sz - unat q..<unat sz} \<union> {unat xoff..<unat xoff + N * k}) buf'"
        by (rule block_read_whole_ok [OF rd un k1 k0(1) m1 N le(1,2) o b1(2) [folded s'(3)] le(3)]) (simp add: s'(3))
      moreover have "{0..<unat xoff} \<union> {unat sz - unat q..<unat sz} \<union> {unat xoff..<unat xoff + N * k} = {0..<unat sz}"
        using xN xs sq by auto
      moreover have "block_read_tail unlikely rd off sz sb eb xoff buf s = block_read_whole unlikely rd sz sb (eb - 1) xoff buf1 s'"
        using False True s'(1) sl b1(1) by (simp add: block_read_tail_def q_def [symmetric] Let_def)
      ultimately show ?thesis using s' by (intro that [of buf' s']) simp_all
    qed
  qed
qed

text \<open>The range inside the device.\<close>

definition blk_start :: "u32 \<Rightarrow> blkdev \<Rightarrow> nat" where
  "blk_start off d = unat off + unat (bd_blkoff d) * unat (bd_blksize d)"

definition blk_len :: "u32 \<Rightarrow> u32 \<Rightarrow> blkdev \<Rightarrow> nat" where
  "blk_len off sz d = min (unat sz) (unat (bd_blkcount d) * unat (bd_blksize d) - blk_start off d)"

lemma unat_mult_small: "unat (x :: u32) * unat y < 2 ^ 32 \<Longrightarrow> unat (x * y) = unat x * unat y"
  by (simp add: unat_word_ariths)

lemma block_clip_eq:
  assumes "unat (bd_blkcount d) * unat (bd_blksize d) < 2 ^ 31" "blk_start off d < 2 ^ 31" "unat sz < 2 ^ 31"
  shows "block_clip off sz d = (if blk_len off sz d = 0 then None
    else Some (of_nat (blk_start off d), of_nat (blk_len off sz d)))"
    "unat (of_nat (blk_start off d) :: u32) = blk_start off d" "unat (of_nat (blk_len off sz d) :: u32) = blk_len off sz d"
proof -
  let ?o = "off + bd_blkoff d * bd_blksize d"
  have "unat (bd_blkoff d) * unat (bd_blksize d) < 2 ^ 32" using assms(2) by (simp add: blk_start_def)
  then have o: "unat ?o = blk_start off d"
    using assms(2) unat_add_small [of off "bd_blkoff d * bd_blksize d"] by (simp add: unat_mult_small blk_start_def)
  have L: "unat (blk_bytes d) = unat (bd_blkcount d) * unat (bd_blksize d)"
    using assms(1) by (simp add: blk_bytes_def unat_mult_small)
  have os: "unat (?o + sz) = blk_start off d + unat sz" using o assms(2,3) unat_add_small [of ?o sz] by simp
  have "?o = of_nat (blk_start off d)" using o by (metis of_nat_unat ucast_id)
  then show "block_clip off sz d = (if blk_len off sz d = 0 then None
    else Some (of_nat (blk_start off d), of_nat (blk_len off sz d)))"
  proof (cases "blk_bytes d \<le> ?o \<or> sz = 0")
    case True
    then have "blk_len off sz d = 0" using o L by (auto simp: blk_len_def word_le_nat_alt)
    with True show ?thesis by (auto simp: block_clip_def Let_def)
  next
    case False
    then have lt: "blk_start off d < unat (bd_blkcount d) * unat (bd_blksize d)" "0 < unat sz"
      using o L by (auto simp: word_le_nat_alt unat_gt_0)
    define z where "z = (if blk_bytes d \<le> ?o + sz then blk_bytes d - ?o else sz)"
    have "unat (blk_bytes d - ?o) = unat (blk_bytes d) - unat ?o" using lt o L by (intro unat_sub) (simp add: word_le_nat_alt)
    then have z: "unat z = blk_len off sz d"
      using os o L lt by (auto simp: z_def blk_len_def word_le_nat_alt)
    then have "z = of_nat (blk_len off sz d)" by (metis of_nat_unat ucast_id)
    moreover have "z \<noteq> 0" using z lt by (auto simp: blk_len_def)
    moreover have "block_clip off sz d = (if z = 0 then None else Some (?o, z))"
      using False by (simp add: block_clip_def Let_def z_def)
    moreover have "blk_len off sz d \<noteq> 0" using z \<open>z \<noteq> 0\<close> by (metis unat_eq_zero)
    ultimately show ?thesis using \<open>?o = of_nat (blk_start off d)\<close> by auto
  qed
  show "unat (of_nat (blk_start off d) :: u32) = blk_start off d" using assms(2) by (simp add: unat_of_nat)
  show "unat (of_nat (blk_len off sz d) :: u32) = blk_len off sz d" using assms(3) by (simp add: unat_of_nat blk_len_def)
qed

lemma unat_range_last:
  assumes "unat (of_nat o0 :: u32) = o0" "unat (of_nat n :: u32) = n" "0 < n" "o0 + n < 2 ^ 32"
  shows "unat (of_nat o0 + of_nat n - 1 :: u32) = o0 + n - 1"
proof -
  have u: "unat (of_nat o0 + of_nat n :: u32) = o0 + n" using assms unat_add_small [of "of_nat o0" "of_nat n"] by simp
  then have "1 \<le> (of_nat o0 + of_nat n :: u32)" using assms(3) by (simp add: word_le_nat_alt)
  with u show ?thesis by (simp add: unat_sub)
qed

text \<open>After the partial block at the start either the range is done or the next block begins.\<close>

lemma head_geometry:
  assumes "r < k" "b * k + r = o0" "0 < n"
  shows "(o0 + n - 1) div k = b \<and> min (k - r) n = n
    \<or> b + 1 \<le> (o0 + n - 1) div k \<and> o0 + min (k - r) n = (b + 1) * (k :: nat)"
proof (cases "n \<le> k - r")
  case True
  then have "o0 + n - 1 = b * k + (r + n - 1)" "r + n - 1 < k" using assms by auto
  then have "(o0 + n - 1) div k = b" by simp
  with True show ?thesis by simp
next
  case False
  then have "(b + 1) * k \<le> o0 + n - 1" using assms by auto
  then have "b + 1 \<le> (o0 + n - 1) div k" using assms(1) by (metis div_le_mono nonzero_mult_div_cancel_right not_less_zero)
  with False assms show ?thesis by auto
qed

lemma cache_slice:
  assumes "take k data = map Some (block_of C k b)" "r + p \<le> k" "k \<le> length data"
  shows "mem_slice data r p = Some (map Some (take p (drop (b * k + r) C)))"
proof -
  have "take p (drop r data) = take p (drop r (take k data))" using assms(2) by (simp add: drop_take min_absorb1)
  also have "\<dots> = map Some (take p (drop (b * k + r) C))"
    using assms by (simp add: block_of_def drop_map take_map drop_take min_absorb1 add.commute)
  finally show ?thesis using assms by (simp add: mem_slice_def)
qed

lemma block_read_range_ok:
  fixes s :: "'d bstate"
  assumes rd: "reads_disk C k rd" and un: "expect_ok unlikely" and co: "coherent C s"
    and k: "k = unat (bd_blksize (bs_dev s))"
    and rg: "0 < unat sz" "unat off + unat sz \<le> unat (bd_blkcount (bs_dev s)) * k" "unat sz \<le> length buf"
  obtains s' where "block_read_range unlikely rd off sz buf s =
      Some ((sz, map Some (take (unat sz) (drop (unat off) (C (bs_disk s)))) @ drop (unat sz) buf), s')"
    "coherent C s'" "bs_disk s' = bs_disk s" "same_device (bs_dev s) (bs_dev s')"
proof -
  let ?C = "C (bs_disk s)" and ?d = "bs_dev s"
  define sb eb where "sb = off div bd_blksize ?d" and "eb = (off + sz - 1) div bd_blksize ?d"
  have d: "dev_ok (length ?C) ?d" using co by (simp add: coherent_def)
  have L: "unat (bd_blkcount ?d) * k < 2 ^ 31" "unat (bd_blkcount ?d) * k \<le> length ?C" and k0: "0 < k" "k < 4096"
    using d by (auto simp: dev_ok_def k unat_gt_0 word_less_nat_alt)
  have usb: "unat sb = unat off div k" by (simp add: sb_def unat_div_distrib k)
  have "unat off + unat sz < 2 ^ 32" using rg L by simp
  then have ueb: "unat eb = (unat off + unat sz - 1) div k"
    using unat_range_last [of "unat off" "unat sz"] rg(1) by (simp add: eb_def unat_div_distrib k)
  have rm: "unat (off mod bd_blksize ?d) = unat off mod k" by (simp add: unat_mod_word k)
  obtain buf' s' where "block_read_range unlikely rd off sz buf s = Some ((sz, buf'), s')"
    "agree ?C (unat off) buf {0..<unat sz} buf'" "coherent C s'" "bs_disk s' = bs_disk s" "same_device ?d (bs_dev s')"
  proof (cases "off mod bd_blksize ?d = 0")
    case True
    then have m0: "unat off mod k = 0" using rm by simp
    have "sb \<le> eb" using usb ueb rg(1) by (simp add: word_le_nat_alt div_le_mono)
    moreover have "unat off + unat (0 :: u32) = unat sb * k" using m0 usb by auto
    ultimately obtain buf' s' where "block_read_tail unlikely rd off sz sb eb 0 buf s = Some ((sz, buf'), s')"
      "agree ?C (unat off) buf {0..<unat sz} buf'" "coherent C s'" "bs_disk s' = bs_disk s" "same_device ?d (bs_dev s')"
      using block_read_tail_ok [OF rd un co k rg ueb, of sb 0 buf] agree_refl [of "C (bs_disk s)" "unat off" buf] by auto
    with True that show ?thesis by (simp add: block_read_range_def sb_def [symmetric] eb_def [symmetric] Let_def)
  next
    case False
    define r where "r = unat off mod k"
    have r: "r \<noteq> 0" "r < k" "unat off div k * k + r = unat off"
      using False rm k0 by (auto simp: r_def unat_eq_zero [symmetric])
    define p where "p = (if bd_blksize ?d - off mod bd_blksize ?d > sz then sz else bd_blksize ?d - off mod bd_blksize ?d)"
    have "unat (bd_blksize ?d - off mod bd_blksize ?d) = k - r"
      using rm r k by (subst unat_sub) (simp_all add: word_le_nat_alt r_def)
    then have p: "unat p = min (k - r) (unat sz)" by (auto simp: p_def word_less_nat_alt)
    have "unat sb < unat (bd_blkcount ?d)" using usb rg k0 by (simp add: div_less_iff_less_mult)
    from block_fetch_ok [OF rd [unfolded k] co this] k obtain s1 where s1: "block_fetch rd sb s = Some (True, s1)"
      "coherent C s1" "bs_disk s1 = bs_disk s" "same_device ?d (bs_dev s1)"
      "take k (bd_data (bs_dev s1)) = map Some (block_of ?C k (unat sb))" "length (bd_data (bs_dev s1)) = 4096" by auto
    have sl: "mem_slice (bd_data (bs_dev s1)) r (unat p) = Some (map Some (take (unat p) (drop (unat off) ?C)))"
      using cache_slice [OF s1(5), of r "unat p"] s1(6) p r k0 usb by simp
    have "unat p \<le> length buf" "unat off + unat p \<le> length ?C" using p rg L by simp_all
    with agree_store [OF agree_refl, of 0 "unat p" buf "unat off" ?C]
    obtain buf1 where b1: "mem_store buf 0 (map Some (take (unat p) (drop (unat off) ?C))) = Some buf1"
      "agree ?C (unat off) buf {0..<unat p} buf1" by auto
    have step: "block_read_range unlikely rd off sz buf s = block_read_tail unlikely rd off sz (sb + 1) eb p buf1 s1"
      using False s1(1) sl b1(1) rm
      by (simp add: block_read_range_def Let_def sb_def [symmetric] eb_def [symmetric] p_def [symmetric] r_def)
    have dv: "bd_blksize (bs_dev s1) = bd_blksize ?d" "bd_blkcount (bs_dev s1) = bd_blkcount ?d"
      using s1(4) by (simp_all add: same_device_def)
    have "unat sb < 2 ^ 31" using usb rg L(1) div_le_dividend [of "unat off" k] by linarith
    then have sb1: "unat (sb + 1) = unat off div k + 1" using usb by (simp add: unat_Suc_word)
    have geo: "unat (sb + 1) = unat eb + 1 \<and> unat p = unat sz \<or> sb + 1 \<le> eb \<and> unat off + unat p = unat (sb + 1) * k"
      using head_geometry [OF r(2,3) rg(1)] p usb ueb sb1 by (auto simp: word_le_nat_alt)
    obtain buf' s' where "block_read_tail unlikely rd off sz (sb + 1) eb p buf1 s1 = Some ((sz, buf'), s')"
      "agree ?C (unat off) buf {0..<unat sz} buf'" "coherent C s'" "bs_disk s' = bs_disk s" "same_device ?d (bs_dev s')"
      using block_read_tail_ok [OF rd un s1(2) k [folded dv(1)] rg(1) rg(2) [folded dv(2)] rg(3) ueb geo, of buf1] b1(2) s1(3,4)
        same_device_trans by (metis (no_types, lifting))
    with step that show ?thesis by simp
  qed
  note res = this
  have "buf' = map Some (take (unat sz) (drop (unat off) ?C)) @ drop (unat sz) buf"
    using res(2) rg L by (intro agree_full) auto
  with res that show ?thesis by simp
qed

text \<open>C39. Reading a block device returns the bytes of the disk: for every offset and length the call
  stores exactly the bytes of the range, as far as they lie inside the device, in the buffer, leaves
  the rest of it alone, reports their number, and leaves the disk unchanged and the cache consistent
  with it, whatever block was in the cache and however the range is split into transfers.\<close>

theorem block_read_bytes:
  fixes s :: "'d bstate"
  assumes co: "coherent C s" and "bd_status (bs_dev s) = DEVICE_STATUS_READY" "bo_read ops = Some rd"
    and rd: "reads_disk C (unat (bd_blksize (bs_dev s))) rd" and un: "expect_ok unlikely" and "a \<noteq> 0"
    and b: "blk_start off (bs_dev s) < 2 ^ 31" "unat sz < 2 ^ 31" "unat sz \<le> length buf"
  shows "\<exists>s'. block_read unlikely ops a buf off sz s =
      Some ((of_nat (blk_len off sz (bs_dev s)),
             map Some (take (blk_len off sz (bs_dev s)) (drop (blk_start off (bs_dev s)) (C (bs_disk s))))
               @ drop (blk_len off sz (bs_dev s)) buf), s')
    \<and> coherent C s' \<and> bs_disk s' = bs_disk s \<and> same_device (bs_dev s) (bs_dev s')"
proof -
  let ?C = "C (bs_disk s)" and ?d = "bs_dev s"
  define k where "k = unat (bd_blksize ?d)"
  define o0 where "o0 = blk_start off ?d"
  define n where "n = blk_len off sz ?d"
  have d: "dev_ok (length ?C) ?d" using co by (simp add: coherent_def)
  have asr: "block_asserts a ?d = Some ()" using d assms(6) by (simp add: block_asserts_def dev_ok_def)
  have L: "unat (bd_blkcount ?d) * k < 2 ^ 31" "unat (bd_blkcount ?d) * k \<le> length ?C" and k0: "0 < k"
    using d by (auto simp: dev_ok_def k_def unat_gt_0)
  note clip = block_clip_eq [OF L(1) [unfolded k_def] b(1,2)]
  show ?thesis
  proof (cases "n = 0")
    case True
    then show ?thesis using asr assms(2,3) clip(1) co by (simp add: block_read_def n_def)
  next
    case False
    then have c: "block_clip off sz ?d = Some (of_nat o0, of_nat n)" using clip(1) by (simp add: n_def o0_def)
    have u: "unat (of_nat o0 :: u32) = o0" "unat (of_nat n :: u32) = n" using clip(2,3) by (simp_all add: n_def o0_def)
    have on: "o0 + n \<le> unat (bd_blkcount ?d) * k" "n \<le> unat sz" "0 < n"
      using False by (auto simp: n_def blk_len_def o0_def k_def min_def split: if_splits)
    define s1 where "s1 = s\<lparr>bs_inblock := bs_inblock s + 1\<rparr>"
    have co1: "coherent C s1" "bs_dev s1 = ?d" "bs_disk s1 = bs_disk s" using co by (simp_all add: s1_def coherent_def)
    have "n \<le> length buf" using on(2) b(3) by simp
    from block_read_range_ok [OF rd [folded k_def] un co1(1), of "of_nat n" "of_nat o0" buf] u on co1 k_def this
    obtain s' where "block_read_range unlikely rd (of_nat o0) (of_nat n) buf s1 =
        Some ((of_nat n, map Some (take n (drop o0 ?C)) @ drop n buf), s')"
      "coherent C s'" "bs_disk s' = bs_disk s" "same_device ?d (bs_dev s')" by auto
    then show ?thesis
      using asr assms(2,3) c unfolding n_def [symmetric] o0_def [symmetric] by (simp add: block_read_def s1_def)
  qed
qed

section \<open>An instance\<close>

text \<open>A disk of four blocks of two bytes whose driver does what is asked.\<close>

definition demo_rd :: "byte list rdop" where
  "demo_rd b n d = (1, take (unat n * 2) (drop (unat b * 2) d), d)"

definition demo_disk :: "u32 \<Rightarrow> byte list bstate" where
  "demo_disk mx = \<lparr>bs_dev = \<lparr>bd_status = 2, bd_blksize = 2, bd_blkcount = 4, bd_blkmax = mx, bd_blkoff = 0, bd_cached = False,
     bd_blkno = 0, bd_data = replicate 4096 None\<rparr>, bs_disk = [10, 11, 12, 13, 14, 15, 16, 17], bs_errno = 0, bs_inblock = 0, bs_oublock = 0\<rparr>"

lemma demo_reads: "reads_disk (\<lambda>d. d) 2 demo_rd"
  by (simp add: reads_disk_def demo_rd_def)

lemma demo_coherent: "mx < 2 ^ 31 \<Longrightarrow> coherent (\<lambda>d. d) (demo_disk mx)"
  by (simp add: coherent_def demo_disk_def dev_ok_def word_less_nat_alt)

lemma demo_expect: "expect_ok (\<lambda>x. x)"
  by (simp add: expect_ok_def)

lemma demo_dev_sel:
  "bd_status (bs_dev (demo_disk mx)) = DEVICE_STATUS_READY" "unat (bd_blksize (bs_dev (demo_disk mx))) = 2"
  "bd_blkmax (bs_dev (demo_disk mx)) = mx" "blk_start off (bs_dev (demo_disk mx)) = unat off"
  "bs_disk (demo_disk mx) = [10, 11, 12, 13, 14, 15, 16, 17]"
  "blk_len off sz (bs_dev (demo_disk mx)) = min (unat sz) (8 - unat off)"
  by (simp_all add: demo_disk_def DEVICE_STATUS_READY_def blk_start_def blk_len_def)

theorem block_read_bytes_witness:
  "\<exists>s'. block_read (\<lambda>x. x) \<lparr>bo_read = Some demo_rd, bo_write = None\<rparr> 1 (replicate 6 None) 1 5 (demo_disk 2) =
     Some ((5, [Some 11, Some 12, Some 13, Some 14, Some 15, None]), s') \<and> coherent (\<lambda>d. d) s'"
  using block_read_bytes [OF demo_coherent demo_dev_sel(1) _ _ demo_expect, of 2 "\<lparr>bo_read = Some demo_rd, bo_write = None\<rparr>" demo_rd 1 1 5 "replicate 6 None"]
  by (auto simp: demo_dev_sel demo_reads)

end
