(* ===== verification/Block_Write.thy ===== *)
theory Block_Write
  imports Block
begin

text \<open>
  Writing to block devices: a write replaces exactly the bytes of its range on the disk. The cache of
  the device stays consistent with the disk unless the range consists of whole blocks and covers the
  block in the cache, which the code then leaves stale. The split of a write into transfers of a
  limited size, which compares a block number with a count, is covered by a counterexample.
\<close>

section \<open>Writing changes the bytes of the range\<close>

text \<open>A write inside the disk succeeds and replaces the blocks by the bytes of the buffer.\<close>

definition writes_disk :: "('d \<Rightarrow> byte list) \<Rightarrow> nat \<Rightarrow> 'd wrop \<Rightarrow> bool" where
  "writes_disk C k wr \<longleftrightarrow>
     (\<forall>xs ys b n d. n \<noteq> 0 \<longrightarrow> (unat b + unat n) * k \<le> length (C d) \<longrightarrow> take (unat n * k) xs = map Some ys \<longrightarrow>
        length ys = unat n * k \<longrightarrow>
        (\<exists>r d'. wr xs b n d = (r, d') \<and> 0 < sint r \<and> C d' = pwrite (C d) (unat b * k) ys))"

lemma upd_block_of:
  assumes "(b + 1) * k \<le> length C" "at + length ys \<le> k"
  shows "pwrite C (b * k) (pwrite (block_of C k b) at ys) = pwrite C (b * k + at) ys"
proof (rule nth_equalityI)
  have l: "length (pwrite (block_of C k b) at ys) = k"
    using assms by (simp add: length_pwrite_in length_block_of)
  have f: "b * k + k \<le> length C" using assms(1) by simp
  then have f': "b * k + at + length ys \<le> length C" using assms(2) by linarith
  show "length (pwrite C (b * k) (pwrite (block_of C k b) at ys)) = length (pwrite C (b * k + at) ys)"
    using l f f' by (simp add: length_pwrite_in)
  fix j assume "j < length (pwrite C (b * k) (pwrite (block_of C k b) at ys))"
  then have j: "j < length C" using l f by (simp add: length_pwrite_in)
  show "pwrite C (b * k) (pwrite (block_of C k b) at ys) ! j = pwrite C (b * k + at) ys ! j"
  proof (cases "b * k \<le> j \<and> j < b * k + k")
    case True
    then have "pwrite C (b * k) (pwrite (block_of C k b) at ys) ! j = pwrite (block_of C k b) at ys ! (j - b * k)"
      using l f j by (simp add: nth_pwrite)
    also have "\<dots> = pwrite C (b * k + at) ys ! j"
      using True assms f f' j by (auto simp: nth_pwrite length_block_of block_of_def)
    finally show ?thesis .
  next
    case False
    then show ?thesis using l f f' j assms(2) by (auto simp: nth_pwrite)
  qed
qed

lemma block_of_upd:
  assumes "(b + 1) * k \<le> length C" "at + length ys \<le> k"
  shows "block_of (pwrite C (b * k + at) ys) k b = pwrite (block_of C k b) at ys"
proof -
  have "length (pwrite (block_of C k b) at ys) = k" using assms by (simp add: length_pwrite_in length_block_of)
  moreover have "b * k \<le> length C" using assms(1) by simp
  ultimately have "block_of (pwrite C (b * k) (pwrite (block_of C k b) at ys)) k b = pwrite (block_of C k b) at ys"
    by (simp add: block_of_def pwrite_def [of C])
  then show ?thesis by (simp add: upd_block_of [OF assms])
qed

lemma block_fetch_tag:
  assumes "block_fetch rd b s = Some (True, s')"
  shows "bd_cached (bs_dev s') \<and> bd_blkno (bs_dev s') = b"
  using assms by (auto simp: block_fetch_def bind_eq_Some_conv Let_def split: if_splits prod.splits)

text \<open>Patching a block.\<close>

lemma block_patch_ok:
  fixes s :: "'d bstate"
  assumes rd: "reads_disk C k rd" and wr: "writes_disk C k wr" and co: "coherent C s"
    and k: "k = unat (bd_blksize (bs_dev s))" and b: "unat b < unat (bd_blkcount (bs_dev s))" and at: "at + length ys \<le> k"
  obtains s' where "block_patch rd wr b at (map Some ys) s = Some (True, s')" "coherent C s'"
    "C (bs_disk s') = pwrite (C (bs_disk s)) (unat b * k + at) ys" "same_device (bs_dev s) (bs_dev s')"
    "bd_blkno (bs_dev s') = b"
proof -
  let ?C = "C (bs_disk s)"
  have d: "dev_ok (length ?C) (bs_dev s)" using co by (simp add: coherent_def)
  have f: "(unat b + 1) * k \<le> length ?C" using le_trans [OF block_fits [OF b, of k]] d k by (simp add: dev_ok_def)
  have k4: "k < 4096" using d k by (simp add: dev_ok_def word_less_nat_alt)
  obtain s1 where s1: "block_fetch rd b s = Some (True, s1)" "coherent C s1" "bs_disk s1 = bs_disk s"
    "same_device (bs_dev s) (bs_dev s1)" "take k (bd_data (bs_dev s1)) = map Some (block_of ?C k (unat b))"
    "length (bd_data (bs_dev s1)) = 4096" "bd_cached (bs_dev s1)" "bd_blkno (bs_dev s1) = b"
    using block_fetch_ok [OF rd [unfolded k] co b] block_fetch_tag [of rd b s] k by metis
  define data where "data = take at (bd_data (bs_dev s1)) @ map Some ys @ drop (at + length ys) (bd_data (bs_dev s1))"
  have st: "mem_store (bd_data (bs_dev s1)) at (map Some ys) = Some data"
    using s1(6) at k4 by (simp add: mem_store_def data_def)
  have l: "length data = 4096" using length_mem_store [OF st] s1(6) by simp
  have t: "take k data = map Some (pwrite (block_of ?C k (unat b)) at ys)"
  proof -
    let ?D = "bd_data (bs_dev s1)"
    have "take k data = take at (take k ?D) @ map Some ys @ drop (at + length ys) (take k ?D)"
      using at s1(6) k4 by (simp add: data_def drop_take min_absorb1 min_absorb2)
    then show ?thesis unfolding s1(5) by (simp add: pwrite_def take_map drop_map)
  qed
  have lb: "length (pwrite (block_of ?C k (unat b)) at ys) = k" using at f by (simp add: length_pwrite_in length_block_of)
  obtain r disk where w: "wr data b 1 (bs_disk s) = (r, disk)" "0 < sint r" "C disk = pwrite ?C (unat b * k + at) ys"
    using wr [unfolded writes_disk_def, rule_format, of 1 b "bs_disk s" data "pwrite (block_of ?C k (unat b)) at ys"] f t lb upd_block_of [OF f at]
    by auto
  let ?s = "s1\<lparr>bs_dev := (bs_dev s1)\<lparr>bd_data := data\<rparr>, bs_disk := disk\<rparr>"
  have "block_patch rd wr b at (map Some ys) s = Some (True, ?s)"
    using s1(1,3) st w by (simp add: block_patch_def)
  moreover have "length (C disk) = length ?C" using w(3) at f by (simp add: length_pwrite_in)
  moreover have "same_device (bs_dev s) (bs_dev ?s)" using s1(4) by (simp add: same_device_def)
  moreover from calculation have "coherent C ?s"
    using d l t s1(7,8) b block_of_upd [OF f at] w(3) k by (simp add: coherent_def dev_ok_def same_device_def)
  ultimately show ?thesis using w(3) s1(8) by (intro that [of ?s]) simp_all
qed

lemma pwrite_Nil [simp]: "pwrite C x [] = C"
  by (simp add: pwrite_def)

lemma block_of_upd_other:
  assumes "(b + 1) * k \<le> length C" "x + length ys \<le> length C" "(b + 1) * k \<le> x \<or> x + length ys \<le> b * k"
  shows "block_of (pwrite C x ys) k b = block_of C k b"
proof (rule nth_equalityI)
  have l: "length (pwrite C x ys) = length C" using assms(2) by (simp add: length_pwrite_in)
  then show "length (block_of (pwrite C x ys) k b) = length (block_of C k b)" by (simp add: block_of_def)
  fix j assume "j < length (block_of (pwrite C x ys) k b)"
  then have "j < k" "b * k + j < length C" using l assms(1) by (auto simp: block_of_def)
  then show "block_of (pwrite C x ys) k b ! j = block_of C k b ! j"
    using assms l by (auto simp: block_of_def nth_pwrite)
qed

lemma coherent_other:
  fixes s :: "'d bstate"
  assumes co: "coherent C s" and k: "k = unat (bd_blksize (bs_dev s))"
    and w: "C disk = pwrite (C (bs_disk s)) (b * k) ys" "length ys = n * k" "(b + n) * k \<le> length (C (bs_disk s))"
    and no: "\<not> (bd_cached (bs_dev s) \<and> b \<le> unat (bd_blkno (bs_dev s)) \<and> unat (bd_blkno (bs_dev s)) < b + n)"
  shows "coherent C (s\<lparr>bs_disk := disk\<rparr>)"
proof -
  let ?C = "C (bs_disk s)" and ?c = "unat (bd_blkno (bs_dev s))"
  have f: "b * k + length ys \<le> length ?C" using w(2,3) by (simp add: add_mult_distrib)
  then have l: "length (C disk) = length ?C" by (simp add: w(1) length_pwrite_in)
  have "block_of (C disk) k ?c = block_of ?C k ?c" if c: "bd_cached (bs_dev s)"
  proof -
    have cc: "?c < unat (bd_blkcount (bs_dev s))" using co c by (simp add: coherent_def)
    have "(?c + 1) * k \<le> length ?C" using le_trans [OF block_fits [OF cc, of k]] co k by (simp add: coherent_def dev_ok_def)
    moreover have "?c + 1 \<le> b \<or> b + n \<le> ?c" using no c by auto
    then have "(?c + 1) * k \<le> b * k \<or> (b + n) * k \<le> ?c * k" using mult_le_mono1 by blast
    then have "(?c + 1) * k \<le> b * k \<or> b * k + length ys \<le> ?c * k" using w(2) by (simp add: add_mult_distrib)
    ultimately show ?thesis unfolding w(1) using f by (intro block_of_upd_other)
  qed
  then show ?thesis using co l k by (simp add: coherent_def)
qed

lemma block_write_whole_ok:
  fixes s :: "'d bstate"
  assumes wr: "writes_disk C k wr" and un: "expect_ok unlikely"
    and k: "k = unat (bd_blksize (bs_dev s))" "k \<noteq> 0" and m: "bd_blkmax (bs_dev s) = 0"
    and N: "eb - sb + 1 = of_nat N"
    and le: "(unat sb + N) * k \<le> length (C (bs_disk s))" "(unat sb + N) * k < 2 ^ 31" and fit: "unat xoff + N * k \<le> length bs"
  obtains disk where "block_write_whole unlikely wr sz sb eb xoff (map Some bs) s = Some (sz, s\<lparr>bs_disk := disk\<rparr>)"
    "C disk = pwrite (C (bs_disk s)) (unat sb * k) (take (N * k) (drop (unat xoff) bs))"
proof -
  have N31: "N < 2 ^ 31" using less_of_mult [OF le(2) k(2)] by simp
  then have i: "sint (eb - sb + 1) = int N" "unat (eb - sb + 1) = N" by (simp_all add: N sint_of_nat_small unat_of_nat)
  show ?thesis
  proof (cases "N = 0")
    case True
    then show ?thesis using i by (intro that [of "bs_disk s"]) (simp_all add: block_write_whole_def)
  next
    case False
    then have nz: "eb - sb + 1 \<noteq> 0" using i(2) by auto
    let ?ys = "take (N * k) (drop (unat xoff) bs)"
    have "take (N * k) (drop (unat xoff) (map Some bs)) = map Some ?ys" "length ?ys = N * k"
      using fit by (simp_all add: drop_map take_map)
    with wr [unfolded writes_disk_def, rule_format, OF nz, of sb "bs_disk s" "drop (unat xoff) (map Some bs)" ?ys] le(1) i(2)
    obtain r disk where w: "wr (drop (unat xoff) (map Some bs)) sb (eb - sb + 1) (bs_disk s) = (r, disk)" "0 < sint r"
      "C disk = pwrite (C (bs_disk s)) (unat sb * k) ?ys" by auto
    have "0 < sint (unlikely r)" using un w(2) by (simp add: expect_ok_def)
    with w(1) i m False have "block_write_whole unlikely wr sz sb eb xoff (map Some bs) s = Some (sz, s\<lparr>bs_disk := disk\<rparr>)"
      by (simp add: block_write_whole_def block_bulk_write_def Let_def)
    with w(3) that show ?thesis by blast
  qed
qed

lemma block_write_tail_ok:
  fixes s :: "'d bstate"
  assumes rd: "reads_disk C k rd" and wr: "writes_disk C k wr" and un: "expect_ok unlikely" and co: "coherent C s"
    and k: "k = unat (bd_blksize (bs_dev s))" and m: "bd_blkmax (bs_dev s) = 0"
    and rg: "0 < unat sz" "unat off + unat sz \<le> unat (bd_blkcount (bs_dev s)) * k" "unat sz \<le> length bs"
    and eb: "unat eb = (unat off + unat sz - 1) div k"
    and st: "unat sb = unat eb + 1 \<and> unat xoff = unat sz \<or> sb \<le> eb \<and> unat off + unat xoff = unat sb * k"
    and ag: "wagree C0 (unat off) bs {unat off..<unat off + unat xoff} (C (bs_disk s))"
  obtains s' where "block_write_tail unlikely rd wr off sz sb eb xoff (map Some bs) s = Some (sz, s')"
    "wagree C0 (unat off) bs {unat off..<unat off + unat sz} (C (bs_disk s'))" "same_device (bs_dev s) (bs_dev s')"
    "coherent C s' \<or> (unat off + unat sz) mod k = 0 \<and> bd_cached (bs_dev s) \<and> sb \<le> bd_blkno (bs_dev s) \<and> bd_blkno (bs_dev s) \<le> eb"
proof -
  let ?C = "C (bs_disk s)" and ?cnt = "unat (bd_blkcount (bs_dev s))"
  have d: "dev_ok (length ?C) (bs_dev s)" using co by (simp add: coherent_def)
  have k0: "k \<noteq> 0" "0 < k" and L: "?cnt * k < 2 ^ 31" "?cnt * k \<le> length ?C" using d k by (auto simp: dev_ok_def unat_gt_0)
  have lC: "length C0 = length ?C" using ag by (simp add: wagree_def)
  have os: "unat (off + sz) = unat off + unat sz" using rg L by (intro unat_add_small) simp
  define q where "q = (off + sz) mod bd_blksize (bs_dev s)"
  have q: "unat q = (unat off + unat sz) mod k" by (simp add: q_def unat_mod_word os k)
  show ?thesis
  proof (cases "sb \<le> eb")
    case False
    then have "unat sb = unat eb + 1" and x: "unat xoff = unat sz" using st by auto
    then have "sb = eb + 1"
      using unat_Suc_word [of eb] unat_u32_less [of sb] by (simp add: word_unat_eq_iff)
    then have "block_write_tail unlikely rd wr off sz sb eb xoff (map Some bs) s = Some (sz, s)"
      using False by (simp add: block_write_tail_def block_write_whole_def Let_def)
    with ag x co show ?thesis by (intro that [of s]) simp_all
  next
    case True
    then have o: "unat off + unat xoff = unat sb * k" using st by (auto simp: word_le_nat_alt)
    have sbeb: "unat sb \<le> unat eb" using True by (simp add: word_le_nat_alt)
    then have sk: "unat sb * k \<le> unat eb * k" by simp
    have ek: "unat eb * k \<le> unat off + unat sz - 1" using eb by (metis div_mult_mod_eq le_add1)
    then have xs: "unat xoff \<le> unat sz" using o sk by linarith
    show ?thesis
    proof (cases "q = 0")
      case True
      define N where "N = unat eb + 1 - unat sb"
      have N: "eb - sb + 1 = of_nat N" using sbeb by (simp add: N_def of_nat_diff)
      have f: "(unat eb + 1) * k = unat off + unat sz" using last_block_full [of "unat off" "unat sz" k] q True rg(1) k0 eb by simp
      have sN: "unat sb + N = unat eb + 1" using sbeb by (simp add: N_def)
      then have "unat sb * k + N * k = unat off + unat sz" using f by (metis add_mult_distrib)
      then have xN: "unat xoff + N * k = unat sz" using o by linarith
      have le: "(unat sb + N) * k \<le> length ?C" "(unat sb + N) * k < 2 ^ 31" "unat xoff + N * k \<le> length bs"
        using f sN xN rg L by auto
      obtain disk where w: "block_write_whole unlikely wr sz sb eb xoff (map Some bs) s = Some (sz, s\<lparr>bs_disk := disk\<rparr>)"
        "C disk = pwrite ?C (unat sb * k) (take (N * k) (drop (unat xoff) bs))"
        by (rule block_write_whole_ok [OF wr un k k0(1) m N le])
      have "wagree C0 (unat off) bs ({unat off..<unat off + unat xoff} \<union> {unat off + unat xoff..<unat off + unat xoff + N * k}) (C disk)"
        using wagree_upd [OF ag, of "unat xoff" "N * k"] w(2) o xN le rg L lC by simp
      moreover have "{unat off..<unat off + unat xoff} \<union> {unat off + unat xoff..<unat off + unat xoff + N * k} = {unat off..<unat off + unat sz}"
        using xN by auto
      moreover have "length (take (N * k) (drop (unat xoff) bs)) = N * k" using le(3) by simp
      note cc = coherent_other [OF co k w(2) this le(1)]
      have "unat (bd_blkno (bs_dev s)) < unat sb + N \<longleftrightarrow> unat (bd_blkno (bs_dev s)) \<le> unat eb" using sN by linarith
      with cc have "coherent C (s\<lparr>bs_disk := disk\<rparr>) \<or> bd_cached (bs_dev s) \<and> sb \<le> bd_blkno (bs_dev s) \<and> bd_blkno (bs_dev s) \<le> eb"
        unfolding word_le_nat_alt by blast
      ultimately show ?thesis using True w(1) q
        by (intro that [of "s\<lparr>bs_disk := disk\<rparr>"]) (simp_all add: block_write_tail_def q_def [symmetric])
    next
      case False
      have q0: "(unat off + unat sz) mod k \<noteq> 0" using False q by (metis unat_eq_zero)
      have f: "unat eb * k + unat q = unat off + unat sz" using last_block [OF q0 rg(1) k0(2)] eb q by simp
      have qk: "unat q < k" using q k0 by simp
      have qs: "unat q \<le> unat sz" using f o sk by linarith
      then have sq: "unat (sz - q) = unat sz - unat q" by (simp add: unat_sub word_le_nat_alt)
      have ebc: "unat eb < ?cnt" 
      proof (rule ccontr)
        assume "\<not> unat eb < ?cnt"
        then have "?cnt * k \<le> unat eb * k" by simp
        with f rg(2) q q0 show False by linarith
      qed
      define ys where "ys = take (unat q) (drop (unat sz - unat q) bs)"
      have ly: "0 + length ys \<le> k" "length ys = unat q" using qs rg(3) qk by (simp_all add: ys_def)
      have sl: "mem_slice (map Some bs) (unat (sz - q)) (unat q) = Some (map Some ys)"
        using qs rg(3) by (simp add: mem_slice_def sq ys_def drop_map take_map)
      obtain s1 where s1: "block_patch rd wr eb 0 (map Some ys) s = Some (True, s1)" "coherent C s1"
        "C (bs_disk s1) = pwrite ?C (unat eb * k + 0) ys" "same_device (bs_dev s) (bs_dev s1)" "bd_blkno (bs_dev s1) = eb"
        by (rule block_patch_ok [OF rd wr co k ebc ly(1)])
      have dv: "bd_blksize (bs_dev s1) = bd_blksize (bs_dev s)" "bd_blkmax (bs_dev s1) = bd_blkmax (bs_dev s)"
        using s1(4) by (simp_all add: same_device_def)
      have e: "unat off + (unat sz - unat q) = unat eb * k" using f qs by linarith
      have ag1: "wagree C0 (unat off) bs ({unat off..<unat off + unat xoff} \<union> {unat eb * k..<unat off + unat sz}) (C (bs_disk s1))"
        using wagree_upd [OF ag, of "unat sz - unat q" "unat q"] s1(3) e qs rg L lC f by (simp add: ys_def)
      have l1: "length (C (bs_disk s1)) = length ?C" using ag1 lC by (simp add: wagree_def)
      define N where "N = unat eb - unat sb"
      have N: "(eb - 1) - sb + 1 = of_nat N" using sbeb by (simp add: N_def of_nat_diff)
      have sN: "unat sb + N = unat eb" using sbeb by (simp add: N_def)
      then have "unat sb * k + N * k = unat eb * k" by (metis add_mult_distrib)
      then have xN: "unat xoff + N * k = unat sz - unat q" using o e by linarith
      have le: "(unat sb + N) * k \<le> length (C (bs_disk s1))" "(unat sb + N) * k < 2 ^ 31" "unat xoff + N * k \<le> length bs"
        using f sN xN rg L l1 by auto
      have k1: "k = unat (bd_blksize (bs_dev s1))" and m1: "bd_blkmax (bs_dev s1) = 0" using dv k m by simp_all
      obtain disk where w: "block_write_whole unlikely wr sz sb (eb - 1) xoff (map Some bs) s1 = Some (sz, s1\<lparr>bs_disk := disk\<rparr>)"
        "C disk = pwrite (C (bs_disk s1)) (unat sb * k) (take (N * k) (drop (unat xoff) bs))"
        by (rule block_write_whole_ok [OF wr un k1 k0(1) m1 N le])
      have "length (take (N * k) (drop (unat xoff) bs)) = N * k" using le(3) by simp
      from coherent_other [OF s1(2) k1 w(2) this le(1)] s1(5) sN have cc: "coherent C (s1\<lparr>bs_disk := disk\<rparr>)" by simp
      have "wagree C0 (unat off) bs ({unat off..<unat off + unat xoff} \<union> {unat eb * k..<unat off + unat sz}
          \<union> {unat off + unat xoff..<unat off + unat xoff + N * k}) (C disk)"
        using wagree_upd [OF ag1, of "unat xoff" "N * k"] w(2) o le l1 lC by (simp add: add_mult_distrib)
      moreover have "{unat off..<unat off + unat xoff} \<union> {unat eb * k..<unat off + unat sz}
          \<union> {unat off + unat xoff..<unat off + unat xoff + N * k} = {unat off..<unat off + unat sz}"
        using xN e qs xs by auto
      moreover have "block_write_tail unlikely rd wr off sz sb eb xoff (map Some bs) s = Some (sz, s1\<lparr>bs_disk := disk\<rparr>)"
        using False True sl s1(1) w(1) by (simp add: block_write_tail_def q_def [symmetric] Let_def)
      ultimately show ?thesis using s1(4) cc by (intro that [of "s1\<lparr>bs_disk := disk\<rparr>"]) simp_all
    qed
  qed
qed

lemma block_write_range_ok:
  fixes s :: "'d bstate"
  assumes rd: "reads_disk C k rd" and wr: "writes_disk C k wr" and un: "expect_ok unlikely" and co: "coherent C s"
    and k: "k = unat (bd_blksize (bs_dev s))" and m: "bd_blkmax (bs_dev s) = 0"
    and rg: "0 < unat sz" "unat off + unat sz \<le> unat (bd_blkcount (bs_dev s)) * k" "unat sz \<le> length bs"
  obtains s' where "block_write_range unlikely rd wr off sz (map Some bs) s = Some (sz, s')"
    "C (bs_disk s') = pwrite (C (bs_disk s)) (unat off) (take (unat sz) bs)" "same_device (bs_dev s) (bs_dev s')"
    "coherent C s' \<or> unat off mod k = 0 \<and> (unat off + unat sz) mod k = 0 \<and> bd_cached (bs_dev s)
       \<and> unat off \<le> unat (bd_blkno (bs_dev s)) * k \<and> unat (bd_blkno (bs_dev s)) * k < unat off + unat sz"
proof -
  let ?C = "C (bs_disk s)" and ?d = "bs_dev s"
  define sb eb where "sb = off div bd_blksize ?d" and "eb = (off + sz - 1) div bd_blksize ?d"
  have d: "dev_ok (length ?C) ?d" using co by (simp add: coherent_def)
  have L: "unat (bd_blkcount ?d) * k < 2 ^ 31" "unat (bd_blkcount ?d) * k \<le> length ?C" and k0: "0 < k" "k < 4096"
    using d by (auto simp: dev_ok_def k unat_gt_0 word_less_nat_alt)
  have usb: "unat sb = unat off div k" by (simp add: sb_def unat_div_distrib k)
  have "unat off + unat sz < 2 ^ 32" using rg L by simp
  then have ueb: "unat eb = (unat off + unat sz - 1) div k"
    using unat_range_last [of "unat off" "unat sz"] rg(1) by (simp add: eb_def unat_div_distrib k)
  have rm: "unat (off mod bd_blksize ?d) = unat off mod k" by (simp add: unat_mod_word k)
  define bs' where "bs' = take (unat sz) bs"
  obtain s' where r: "block_write_range unlikely rd wr off sz (map Some bs) s = Some (sz, s')"
    "wagree ?C (unat off) bs {unat off..<unat off + unat sz} (C (bs_disk s'))" "same_device ?d (bs_dev s')"
    "coherent C s' \<or> unat off mod k = 0 \<and> (unat off + unat sz) mod k = 0 \<and> bd_cached ?d
       \<and> sb \<le> bd_blkno ?d \<and> bd_blkno ?d \<le> eb"
  proof (cases "off mod bd_blksize ?d = 0")
    case True
    then have m0: "unat off mod k = 0" using rm by simp
    have g: "unat sb = unat eb + 1 \<and> unat (0 :: u32) = unat sz \<or> sb \<le> eb \<and> unat off + unat (0 :: u32) = unat sb * k"
      using usb ueb rg(1) m0 by (auto simp: word_le_nat_alt div_le_mono)
    have ag: "wagree ?C (unat off) bs {unat off..<unat off + unat (0 :: u32)} ?C" by (simp add: wagree_refl)
    obtain s' where "block_write_tail unlikely rd wr off sz sb eb 0 (map Some bs) s = Some (sz, s')"
      "wagree ?C (unat off) bs {unat off..<unat off + unat sz} (C (bs_disk s'))" "same_device ?d (bs_dev s')"
      "coherent C s' \<or> (unat off + unat sz) mod k = 0 \<and> bd_cached ?d \<and> sb \<le> bd_blkno ?d \<and> bd_blkno ?d \<le> eb"
      by (rule block_write_tail_ok [OF rd wr un co k m rg ueb g ag])
    with True that m0 show ?thesis by (simp add: block_write_range_def sb_def [symmetric] eb_def [symmetric] Let_def)
  next
    case False
    define r where "r = unat off mod k"
    have r: "r \<noteq> 0" "r < k" "unat off div k * k + r = unat off"
      using False rm k0 by (auto simp: r_def unat_eq_zero [symmetric])
    define p where "p = (if bd_blksize ?d - off mod bd_blksize ?d > sz then sz else bd_blksize ?d - off mod bd_blksize ?d)"
    have "unat (bd_blksize ?d - off mod bd_blksize ?d) = k - r"
      using rm r k by (subst unat_sub) (simp_all add: word_le_nat_alt r_def)
    then have p: "unat p = min (k - r) (unat sz)" by (auto simp: p_def word_less_nat_alt)
    have sbc: "unat sb < unat (bd_blkcount ?d)" using usb rg k0 by (simp add: div_less_iff_less_mult)
    have sl: "mem_slice (map Some bs) 0 (unat p) = Some (map Some (take (unat p) bs))"
      using p rg(3) by (simp add: mem_slice_def take_map)
    have at: "r + length (take (unat p) bs) \<le> k" using p r by simp
    obtain s1 where s1: "block_patch rd wr sb r (map Some (take (unat p) bs)) s = Some (True, s1)" "coherent C s1"
      "C (bs_disk s1) = pwrite ?C (unat sb * k + r) (take (unat p) bs)" "same_device ?d (bs_dev s1)" "bd_blkno (bs_dev s1) = sb"
      by (rule block_patch_ok [OF rd wr co k sbc at])
    have dv: "bd_blksize (bs_dev s1) = bd_blksize ?d" "bd_blkcount (bs_dev s1) = bd_blkcount ?d" "bd_blkmax (bs_dev s1) = 0"
      using s1(4) m by (simp_all add: same_device_def)
    have ag: "wagree ?C (unat off) bs {unat off..<unat off + unat p} (C (bs_disk s1))"
      using wagree_upd [OF wagree_refl, of 0 "unat p" bs "unat off" ?C] s1(3) usb r p rg L by simp
    have "unat sb < 2 ^ 31" using usb rg L(1) div_le_dividend [of "unat off" k] by linarith
    then have sb1: "unat (sb + 1) = unat off div k + 1" using usb by (simp add: unat_Suc_word)
    have geo: "unat (sb + 1) = unat eb + 1 \<and> unat p = unat sz \<or> sb + 1 \<le> eb \<and> unat off + unat p = unat (sb + 1) * k"
      using head_geometry [OF r(2,3) rg(1)] p usb ueb sb1 by (auto simp: word_le_nat_alt)
    obtain s' where s': "block_write_tail unlikely rd wr off sz (sb + 1) eb p (map Some bs) s1 = Some (sz, s')"
      "wagree ?C (unat off) bs {unat off..<unat off + unat sz} (C (bs_disk s'))" "same_device (bs_dev s1) (bs_dev s')"
      "coherent C s' \<or> (unat off + unat sz) mod k = 0 \<and> bd_cached (bs_dev s1) \<and> sb + 1 \<le> bd_blkno (bs_dev s1) \<and> bd_blkno (bs_dev s1) \<le> eb"
      by (rule block_write_tail_ok [OF rd wr un s1(2) k [folded dv(1)] dv(3) rg(1) rg(2) [folded dv(2)] rg(3) ueb geo ag])
    moreover have "\<not> sb + 1 \<le> bd_blkno (bs_dev s1)" using sb1 usb s1(5) by (simp add: word_le_nat_alt)
    moreover have "block_write_range unlikely rd wr off sz (map Some bs) s = block_write_tail unlikely rd wr off sz (sb + 1) eb p (map Some bs) s1"
      using False sl s1(1) rm
      by (simp add: block_write_range_def Let_def sb_def [symmetric] eb_def [symmetric] p_def [symmetric] r_def)
    ultimately show ?thesis using same_device_trans [OF s1(4)] by (intro that [of s']) auto
  qed
  have "wagree ?C (unat off) bs' {unat off..<unat off + length bs'} (C (bs_disk s'))"
    using r(2) rg(3) by (auto simp: wagree_def bs'_def)
  then have fC: "C (bs_disk s') = pwrite ?C (unat off) (take (unat sz) bs)"
    unfolding bs'_def [symmetric] using rg L by (intro wagree_full) (simp_all add: bs'_def)
  have f1: "unat off \<le> unat (bd_blkno ?d) * k" if "sb \<le> bd_blkno ?d" "unat off mod k = 0"
  proof -
    have "unat off div k * k \<le> unat (bd_blkno ?d) * k" using that(1) usb by (simp add: word_le_nat_alt)
    then show ?thesis using that(2) by (metis add.right_neutral div_mult_mod_eq)
  qed
  have f2: "unat (bd_blkno ?d) * k < unat off + unat sz" if "bd_blkno ?d \<le> eb"
  proof -
    have "unat (bd_blkno ?d) * k \<le> unat eb * k" using that by (simp add: word_le_nat_alt)
    also have "\<dots> \<le> unat off + unat sz - 1" unfolding ueb by (rule div_times_less_eq_dividend)
    finally show ?thesis using rg(1) by linarith
  qed
  show ?thesis by (rule that [OF r(1) fC r(3)]) (use r(4) f1 f2 in auto)
qed


section \<open>Instances\<close>

definition demo_wr :: "byte list wrop" where
  "demo_wr xs b n d = (1, pwrite d (unat b * 2) (map the (take (unat n * 2) xs)))"

definition demo_ops :: "byte list blkops" where
  "demo_ops = \<lparr>bo_read = Some demo_rd, bo_write = Some demo_wr\<rparr>"

lemma demo_writes: "writes_disk (\<lambda>d. d) 2 demo_wr"
  by (auto simp: writes_disk_def demo_wr_def comp_def)

lemma demo_ops_sel [simp]: "bo_read demo_ops = Some demo_rd" "bo_write demo_ops = Some demo_wr"
  by (simp_all add: demo_ops_def)


text \<open>
  The stale cache: after a read of one byte of block 1, a write of the whole block reaches the disk,
  and the next read of that byte still returns the old value.
\<close>

lemma block_write_stale:
  "(do {
      (_, s) \<leftarrow> block_read (\<lambda>x. x) demo_ops 1 [None] 3 1 (demo_disk 0);
      (_, s) \<leftarrow> block_write (\<lambda>x. x) demo_ops 1 [Some 1, Some 2] 2 2 s;
      (r, s) \<leftarrow> block_read (\<lambda>x. x) demo_ops 1 [None] 3 1 s;
      Some (r, bs_disk s)
    }) = Some ((1, [Some 13]), [10, 11, 1, 2, 14, 15, 16, 17])"
  by (simp add: block_read_def block_read_range_def block_read_tail_def block_read_whole_def
      block_write_def block_write_range_def block_write_tail_def block_write_whole_def block_bulk_write_def block_fetch_def
      block_asserts_def block_clip_def blk_bytes_def mem_store_def mem_slice_def demo_ops_def demo_disk_def demo_rd_def
      demo_wr_def pwrite_def DEVICE_STATUS_READY_def Let_def)

text \<open>
  Transfers of a limited size: writing the blocks 1 to 3 of a device that takes eight blocks at a time
  reports six bytes, but the driver is asked for only two of the three blocks.
\<close>

lemma block_write_max_loses:
  "map_option (\<lambda>(r, s). (r, bs_disk s))
     (block_write (\<lambda>x. x) demo_ops 1 (map Some [1, 2, 3, 4, 5, 6]) 2 6 (demo_disk 8))
   = Some (6, [10, 11, 1, 2, 3, 4, 16, 17])"
  by (simp add: block_write_def block_write_range_def block_write_tail_def block_write_whole_def block_bulk_write_def block_fetch_def
      block_asserts_def block_clip_def blk_bytes_def mem_store_def mem_slice_def demo_ops_def demo_disk_def demo_rd_def
      demo_wr_def pwrite_def DEVICE_STATUS_READY_def Let_def
      block_write_loop.simps)

end
