(* ===== verification/Devices.thy ===== *)
theory Devices
  imports Ringbuffer Block
begin

text \<open>
  Devices: the character devices of \<^verbatim>\<open>drivers/dev/char\<close> with their three kinds of buffering over the ring
  buffer, the video devices of \<^verbatim>\<open>drivers/dev/video\<close>, the dispatch and the life cycle of
  \<^verbatim>\<open>drivers/dev/interface\<close>, and the operations of the small devices under \<^verbatim>\<open>drivers/char\<close>. The callbacks
  of a driver are arguments acting on a state that includes the device.
\<close>

section \<open>Devices\<close>

definition DEVICE_TYPE_CHAR :: u32 where "DEVICE_TYPE_CHAR = 1"
definition DEVICE_TYPE_BLOCK :: u32 where "DEVICE_TYPE_BLOCK = 2"
definition DEVICE_TYPE_VIDEO :: u32 where "DEVICE_TYPE_VIDEO = 3"
definition CHAR_IO_NBF :: byte where "CHAR_IO_NBF = 0"
definition CHAR_IO_LBF :: byte where "CHAR_IO_LBF = 1"
definition CHAR_IO_FBF :: byte where "CHAR_IO_FBF = 2"

definition E_NOSYS :: u32 where "E_NOSYS = 88"
definition E_NOSPC :: u32 where "E_NOSPC = 28"

text \<open>A device; of the union the parts for character, block and video devices side by side.\<close>

record device =
  dv_type :: u32
  dv_status :: u32
  dv_io :: byte
  dv_buffer :: ringbuffer
  dv_blk :: blkdev
  dv_vs :: "byte list"
  dv_fs :: "byte list"

record 'd dstate =
  ds_dev :: device
  ds_drv :: 'd
  ds_errno :: u32
  ds_inblock :: u32
  ds_oublock :: u32

abbreviation ds_fail :: "u32 \<Rightarrow> 'd dstate \<Rightarrow> 'd dstate" where
  "ds_fail e s \<equiv> s\<lparr>ds_errno := e\<rparr>"

abbreviation upd_dev :: "(device \<Rightarrow> device) \<Rightarrow> 'd dstate \<Rightarrow> 'd dstate" where
  "upd_dev f s \<equiv> s\<lparr>ds_dev := f (ds_dev s)\<rparr>"

text \<open>
  The callbacks of a driver: a write gets the bytes, a read an address and a length and returns the
  bytes it stored. Those of a buffered character device are \<open>co_flush\<close> alone, of an unbuffered one
  \<open>co_write\<close> and \<open>co_read\<close>, which share their storage.
\<close>

record 'd devops =
  co_write :: "(byte list \<Rightarrow> 'd dstate \<Rightarrow> (u32 \<times> 'd dstate) option) option"
  co_read :: "(u32 \<Rightarrow> u32 \<Rightarrow> 'd dstate \<Rightarrow> ((u32 \<times> byte option list) \<times> 'd dstate) option) option"
  co_flush :: "('d dstate \<Rightarrow> 'd dstate option) option"
  co_update :: "('d dstate \<Rightarrow> 'd dstate option) option"
  co_init :: "('d dstate \<Rightarrow> 'd dstate option) option"
  co_dnit :: "('d dstate \<Rightarrow> 'd dstate option) option"
  co_reset :: "('d dstate \<Rightarrow> 'd dstate option) option"
  co_blk :: "'d blkops"

text \<open>A callback that is left out is not called.\<close>

definition call_opt :: "('d dstate \<Rightarrow> 'd dstate option) option \<Rightarrow> 'd dstate \<Rightarrow> 'd dstate option" where
  "call_opt f s = (case f of None \<Rightarrow> Some s | Some f \<Rightarrow> f s)"

section \<open>Character devices\<close>

definition buffer_asserts :: "'d dstate \<Rightarrow> unit option" where
  "buffer_asserts s =
     do { kassert (rb_buffer (dv_buffer (ds_dev s)) \<noteq> None); kassert (rb_size (dv_buffer (ds_dev s)) \<noteq> 0) }"

text \<open>The bytes \<open>bs\<close> at address \<open>a\<close>; 10 is the newline.\<close>

definition char_write :: "'d devops \<Rightarrow> u32 \<Rightarrow> byte list \<Rightarrow> 'd dstate \<Rightarrow> (u32 \<times> 'd dstate) option" where
  "char_write ops a bs s =
     do {
       kassert (a \<noteq> 0);
       kassert (bs \<noteq> []);
       let io = dv_io (ds_dev s);
       if io = CHAR_IO_NBF
       then (case co_write ops of
               Some f \<Rightarrow> f bs s
             | None \<Rightarrow> Some (- 1, ds_fail E_NOSYS s))
       else if io = CHAR_IO_LBF
       then do {
         buffer_asserts s;
         (e, rb) \<leftarrow> ringbuffer_write bs (dv_buffer (ds_dev s));
         let s = upd_dev (\<lambda>d. d\<lparr>dv_buffer := rb\<rparr>) s;
         s \<leftarrow> (if 10 \<in> set bs then call_opt (co_flush ops) s else Some s);
         Some (of_nat e, s)
       }
       else if io = CHAR_IO_FBF
       then do {
         buffer_asserts s;
         (e, rb) \<leftarrow> ringbuffer_write bs (dv_buffer (ds_dev s));
         let s = upd_dev (\<lambda>d. d\<lparr>dv_buffer := rb\<rparr>) s;
         full \<leftarrow> ringbuffer_is_full rb;
         s \<leftarrow> (if full then call_opt (co_flush ops) s else Some s);
         Some (of_nat e, s)
       }
       else None
     }"

definition char_read :: "'d devops \<Rightarrow> u32 \<Rightarrow> u32 \<Rightarrow> 'd dstate \<Rightarrow> ((u32 \<times> byte option list) \<times> 'd dstate) option" where
  "char_read ops a sz s =
     do {
       kassert (a \<noteq> 0);
       kassert (sz \<noteq> 0);
       let io = dv_io (ds_dev s);
       if dv_status (ds_dev s) \<noteq> DEVICE_STATUS_READY then Some ((- 1, []), ds_fail EBUSY s)
       else if io = CHAR_IO_NBF
       then (case co_read ops of
               Some f \<Rightarrow> f a sz s
             | None \<Rightarrow> Some ((- 1, []), ds_fail E_NOSYS s))
       else if io = CHAR_IO_LBF \<or> io = CHAR_IO_FBF
       then do {
         buffer_asserts s;
         (xs, rb) \<leftarrow> ringbuffer_read (unat sz) (dv_buffer (ds_dev s));
         Some ((of_nat (length xs), map Some xs), upd_dev (\<lambda>d. d\<lparr>dv_buffer := rb\<rparr>) s)
       }
       else None
     }"

definition char_flush :: "'d devops \<Rightarrow> 'd dstate \<Rightarrow> (u32 \<times> 'd dstate) option" where
  "char_flush ops s =
     (let io = dv_io (ds_dev s) in
      if dv_status (ds_dev s) \<noteq> DEVICE_STATUS_READY then Some (- 1, ds_fail EBUSY s)
      else if io = CHAR_IO_NBF then Some (0, s)
      else if io = CHAR_IO_LBF \<or> io = CHAR_IO_FBF
      then do { buffer_asserts s; s \<leftarrow> call_opt (co_flush ops) s; Some (0, s) }
      else None)"

text \<open>\<open>mem\<close> is the block that \<^verbatim>\<open>ringbuffer_create\<close> allocates, of the size of a \<^verbatim>\<open>stdio\<close> buffer.\<close>

definition char_init :: "byte list option \<Rightarrow> device \<Rightarrow> device option" where
  "char_init mem d =
     (if dv_io d = CHAR_IO_FBF \<or> dv_io d = CHAR_IO_LBF
      then do { rb \<leftarrow> ringbuffer_create mem 1024; Some (d\<lparr>dv_buffer := rb\<rparr>) }
      else Some d)"

definition char_dnit :: "device \<Rightarrow> device option" where
  "char_dnit d =
     (if dv_io d = CHAR_IO_FBF \<or> dv_io d = CHAR_IO_LBF
      then do { (_, rb) \<leftarrow> ringbuffer_destroy (dv_buffer d); Some (d\<lparr>dv_buffer := rb\<rparr>) }
      else Some d)"

section \<open>Video devices\<close>

text \<open>
  The request, the bytes at the argument, the bytes stored there (if any) and the result. The numbers of
  the three requests come from a header of the C library: \<open>fb\<close> is the triple of
  \<^verbatim>\<open>FBIOGET_VSCREENINFO\<close>, \<^verbatim>\<open>FBIOPUT_VSCREENINFO\<close> and \<^verbatim>\<open>FBIOGET_FSCREENINFO\<close>.
\<close>

definition video_ioctl ::
  "u32 \<times> u32 \<times> u32 \<Rightarrow> 'd devops \<Rightarrow> u32 \<Rightarrow> byte list \<Rightarrow> 'd dstate \<Rightarrow> ((u32 \<times> byte list option) \<times> 'd dstate) option" where
  "video_ioctl fb ops req arg s =
     (case fb of (getv, putv, getf) \<Rightarrow>
        if req = getv then Some ((0, Some (dv_vs (ds_dev s))), s)
        else if req = putv
        then do {
          xs \<leftarrow> mem_slice arg 0 (length (dv_vs (ds_dev s)));
          s \<leftarrow> call_opt (co_update ops) (upd_dev (\<lambda>d. d\<lparr>dv_vs := xs\<rparr>) s);
          Some ((0, None), s)
        }
        else if req = getf then Some ((0, Some (dv_fs (ds_dev s))), s)
        else Some ((- 1, None), ds_fail E_NOSYS s))"

section \<open>The device interface\<close>

text \<open>The block part of a device as the functions of \<^verbatim>\<open>dev/block\<close> see it, and back.\<close>

definition to_block :: "'d dstate \<Rightarrow> 'd bstate" where
  "to_block s = \<lparr>bs_dev = (dv_blk (ds_dev s))\<lparr>bd_status := dv_status (ds_dev s)\<rparr>, bs_disk = ds_drv s, bs_errno = ds_errno s,
     bs_inblock = ds_inblock s, bs_oublock = ds_oublock s\<rparr>"

definition of_block :: "'d dstate \<Rightarrow> 'd bstate \<Rightarrow> 'd dstate" where
  "of_block s b = s\<lparr>ds_dev := (ds_dev s)\<lparr>dv_blk := bs_dev b\<rparr>, ds_drv := bs_disk b, ds_errno := bs_errno b,
     ds_inblock := bs_inblock b, ds_oublock := bs_oublock b\<rparr>"

text \<open>\<^verbatim>\<open>device_read\<close> stores into the \<open>sz\<close> bytes at \<open>a\<close>, whose contents the model does not know before.\<close>

definition device_read ::
  "(u32 \<Rightarrow> u32) \<Rightarrow> 'd devops \<Rightarrow> u32 \<Rightarrow> u32 \<Rightarrow> u32 \<Rightarrow> 'd dstate \<Rightarrow> ((u32 \<times> byte option list) \<times> 'd dstate) option" where
  "device_read unlikely ops a off sz s =
     do {
       kassert (a \<noteq> 0);
       kassert (sz \<noteq> 0);
       let ty = dv_type (ds_dev s);
       if dv_status (ds_dev s) \<noteq> DEVICE_STATUS_READY then Some ((- 1, []), ds_fail EBUSY s)
       else if ty = DEVICE_TYPE_CHAR then char_read ops a sz s
       else if ty = DEVICE_TYPE_BLOCK
       then do {
         (r, b) \<leftarrow> block_read unlikely (co_blk ops) a (replicate (unat sz) None) off sz (to_block s);
         Some (r, of_block s b)
       }
       else if ty = DEVICE_TYPE_VIDEO then Some ((- 1, []), ds_fail E_NOSYS s)
       else None
     }"

definition device_write ::
  "(u32 \<Rightarrow> u32) \<Rightarrow> 'd devops \<Rightarrow> u32 \<Rightarrow> byte list \<Rightarrow> u32 \<Rightarrow> 'd dstate \<Rightarrow> (u32 \<times> 'd dstate) option" where
  "device_write unlikely ops a bs off s =
     do {
       kassert (a \<noteq> 0);
       kassert (bs \<noteq> []);
       let ty = dv_type (ds_dev s);
       if dv_status (ds_dev s) \<noteq> DEVICE_STATUS_READY then Some (- 1, ds_fail EBUSY s)
       else if ty = DEVICE_TYPE_CHAR then char_write ops a bs s
       else if ty = DEVICE_TYPE_BLOCK
       then do {
         (r, b) \<leftarrow> block_write unlikely (co_blk ops) a (map Some bs) off (of_nat (length bs)) (to_block s);
         Some (r, of_block s b)
       }
       else if ty = DEVICE_TYPE_VIDEO then Some (- 1, ds_fail E_NOSYS s)
       else None
     }"

definition device_ioctl ::
  "u32 \<times> u32 \<times> u32 \<Rightarrow> 'd devops \<Rightarrow> u32 \<Rightarrow> u32 \<Rightarrow> byte list \<Rightarrow> 'd dstate \<Rightarrow> ((u32 \<times> byte list option) \<times> 'd dstate) option" where
  "device_ioctl fb ops req a arg s =
     do {
       kassert (a \<noteq> 0);
       let ty = dv_type (ds_dev s);
       if dv_status (ds_dev s) \<noteq> DEVICE_STATUS_READY then Some ((- 1, None), ds_fail EBUSY s)
       else if ty = DEVICE_TYPE_CHAR then Some ((- 1, None), ds_fail E_NOSYS s)
       else if ty = DEVICE_TYPE_BLOCK then Some ((- 1, None), ds_fail E_NOSYS s)
       else if ty = DEVICE_TYPE_VIDEO then video_ioctl fb ops req arg s
       else None
     }"

definition device_fsync :: "'d devops \<Rightarrow> 'd dstate \<Rightarrow> (u32 \<times> 'd dstate) option" where
  "device_fsync ops s =
     (let ty = dv_type (ds_dev s) in
      if dv_status (ds_dev s) \<noteq> DEVICE_STATUS_READY then Some (- 1, ds_fail EBUSY s)
      else if ty = DEVICE_TYPE_CHAR then char_flush ops s
      else if ty = DEVICE_TYPE_BLOCK then Some (0, s)
      else if ty = DEVICE_TYPE_VIDEO then Some (- 1, ds_fail E_NOSYS s)
      else None)"

text \<open>
  The start of a device in \<^verbatim>\<open>device_mkdev\<close>, before its node in the file system is made: \<open>mem\<close> is the
  block for the buffer of a character device. A device that fails to load stops the machine.
\<close>

definition device_load :: "'d devops \<Rightarrow> byte list option \<Rightarrow> 'd dstate \<Rightarrow> 'd dstate option" where
  "device_load ops mem s =
     do {
       let s = upd_dev (\<lambda>d. d\<lparr>dv_status := DEVICE_STATUS_LOADING\<rparr>) s;
       let ty = dv_type (ds_dev s);
       d \<leftarrow> (if ty = DEVICE_TYPE_CHAR then char_init mem (ds_dev s)
            else if ty = DEVICE_TYPE_BLOCK then Some ((ds_dev s)\<lparr>dv_blk := block_init (dv_blk (ds_dev s))\<rparr>)
            else if ty = DEVICE_TYPE_VIDEO then Some (ds_dev s)
            else None);
       s \<leftarrow> call_opt (co_init ops) (s\<lparr>ds_dev := d\<rparr>);
       kassert (dv_status (ds_dev s) \<noteq> DEVICE_STATUS_FAILED);
       Some (upd_dev (\<lambda>d. d\<lparr>dv_status := DEVICE_STATUS_READY\<rparr>) s)
     }"

text \<open>The end of a device in \<^verbatim>\<open>device_unlink\<close>, before its node is removed.\<close>

definition device_unload :: "'d devops \<Rightarrow> 'd dstate \<Rightarrow> 'd dstate option" where
  "device_unload ops s =
     do {
       s \<leftarrow> call_opt (co_dnit ops) (upd_dev (\<lambda>d. d\<lparr>dv_status := DEVICE_STATUS_UNLOADING\<rparr>) s);
       let ty = dv_type (ds_dev s);
       d \<leftarrow> (if ty = DEVICE_TYPE_CHAR then char_dnit (ds_dev s)
            else if ty = DEVICE_TYPE_BLOCK then Some ((ds_dev s)\<lparr>dv_blk := block_dnit (dv_blk (ds_dev s))\<rparr>)
            else if ty = DEVICE_TYPE_VIDEO then Some (ds_dev s)
            else None);
       Some (s\<lparr>ds_dev := d\<lparr>dv_status := DEVICE_STATUS_UNLOADED\<rparr>\<rparr>)
     }"

definition device_reset :: "'d devops \<Rightarrow> 'd dstate \<Rightarrow> 'd dstate option" where
  "device_reset ops s =
     do {
       s \<leftarrow> call_opt (co_reset ops) (upd_dev (\<lambda>d. d\<lparr>dv_status := DEVICE_STATUS_LOADING\<rparr>) s);
       kassert (dv_status (ds_dev s) \<noteq> DEVICE_STATUS_FAILED);
       Some (upd_dev (\<lambda>d. d\<lparr>dv_status := DEVICE_STATUS_READY\<rparr>) s)
     }"

definition device_error :: "'d devops \<Rightarrow> 'd dstate \<Rightarrow> 'd dstate option" where
  "device_error ops s =
     do {
       s \<leftarrow> call_opt (co_reset ops) (upd_dev (\<lambda>d. d\<lparr>dv_status := DEVICE_STATUS_LOADING\<rparr>) s);
       Some (if dv_status (ds_dev s) \<noteq> DEVICE_STATUS_FAILED
             then upd_dev (\<lambda>d. d\<lparr>dv_status := DEVICE_STATUS_READY\<rparr>) s else s)
     }"

section \<open>Partitions\<close>

text \<open>
  \<^verbatim>\<open>block_inode\<close> reads the partition table of a new block device and hands a device for each partition
  to \<^verbatim>\<open>device_mkdev\<close>: the model returns them in order. An entry has 16 bytes, its first block and its
  number of blocks being the words at 8 and 12, the lowest byte first.
\<close>

definition le32 :: "byte list \<Rightarrow> nat \<Rightarrow> u32" where
  "le32 xs i = ucast (xs ! i) OR push_bit 8 (ucast (xs ! (i + 1))) OR push_bit 16 (ucast (xs ! (i + 2)))
     OR push_bit 24 (ucast (xs ! (i + 3)))"

record partition =
  pt_name :: string
  pt_major :: u16
  pt_minor :: u16
  pt_blk :: blkdev
  pt_mode :: u32

definition DEVICE_MAXNAMELEN :: nat where "DEVICE_MAXNAMELEN = 32"

fun mbr_parts :: "nat list \<Rightarrow> byte list \<Rightarrow> string \<Rightarrow> u16 \<Rightarrow> u16 \<Rightarrow> u32 \<Rightarrow> blkdev \<Rightarrow> partition list option" where
  "mbr_parts [] mbr name major minor mode d = Some []"
| "mbr_parts (i # is) mbr name major minor mode d =
     (if le32 mbr (16 * i + 12) = 0 then mbr_parts is mbr name major minor mode d
      else do {
        kassert (length name + 1 < DEVICE_MAXNAMELEN);
        let p = \<lparr>pt_name = name @ [char_of (49 + i)], pt_major = major, pt_minor = minor + of_nat i + 1,
                 pt_blk = \<lparr>bd_status = DEVICE_STATUS_UNKNOWN, bd_blksize = bd_blksize d,
                           bd_blkcount = le32 mbr (16 * i + 8) + le32 mbr (16 * i + 12), bd_blkmax = bd_blkmax d,
                           bd_blkoff = le32 mbr (16 * i + 8), bd_cached = False, bd_blkno = 0,
                           bd_data = replicate 4096 (Some 0)\<rparr>,
                 pt_mode = mode AND 511\<rparr>;
        ps \<leftarrow> mbr_parts is mbr name major minor mode d;
        Some (p # ps)
      })"

text \<open>\<open>a\<close> is the address of the two buffers on the stack; a table that cannot be read counts as empty.\<close>

definition block_inode ::
  "(u32 \<Rightarrow> u32) \<Rightarrow> 'd blkops \<Rightarrow> u32 \<Rightarrow> string \<Rightarrow> u16 \<Rightarrow> u16 \<Rightarrow> u32 option \<Rightarrow> 'd bstate \<Rightarrow> (partition list \<times> 'd bstate) option" where
  "block_inode unlikely ops a name major minor attr s =
     do {
       ((r, efi), s) \<leftarrow> block_read unlikely ops a (replicate 8 None) (bd_blksize (bs_dev s)) 8 s;
       if sint r \<le> 0 then Some ([], s)
       else do {
         kassert (efi \<noteq> map (\<lambda>c. Some (of_char c)) ''EFI PART'');
         ((r, mbr), s) \<leftarrow> block_read unlikely ops a (replicate 64 (Some 0)) 0x1BE 64 s;
         ps \<leftarrow> mbr_parts [0..<4] (map the mbr) name major minor (case attr of None \<Rightarrow> 438 | Some m \<Rightarrow> m) (bs_dev s);
         Some (ps, s)
       }
     }"

section \<open>The small devices\<close>

definition full_write :: "u32 \<Rightarrow> byte list \<Rightarrow> 'd dstate \<Rightarrow> (u32 \<times> 'd dstate) option" where
  "full_write a bs s = do { kassert (a \<noteq> 0); Some (- 1, ds_fail E_NOSPC s) }"

text \<open>
  \<^verbatim>\<open>random\<close> and \<^verbatim>\<open>urandom\<close> seed the generator of the C library from the clock and draw one number for each
  byte: \<open>draw\<close> is the generator, its argument the number of draws since the seed.
\<close>

definition random_read :: "(nat \<Rightarrow> u32) \<Rightarrow> u32 \<Rightarrow> u32 \<Rightarrow> 'd dstate \<Rightarrow> ((u32 \<times> byte option list) \<times> 'd dstate) option" where
  "random_read draw a sz s =
     do { kassert (a \<noteq> 0); Some ((sz, map (\<lambda>i. Some (ucast (draw i mod 256))) [0..<unat sz]), s) }"

text \<open>The bytes that \<^verbatim>\<open>kmsg\<close> prints, up to the first zero byte, and their number.\<close>

definition log_write :: "u32 \<Rightarrow> byte list \<Rightarrow> 'd dstate \<Rightarrow> ((u32 \<times> byte list) \<times> 'd dstate) option" where
  "log_write a bs s =
     do { kassert (a \<noteq> 0); let out = takeWhile (\<lambda>b. b \<noteq> 0) bs; Some ((of_nat (length out), out), s) }"

section \<open>Buffering\<close>

text \<open>
  A write that fits in the buffer of a line buffered device is queued behind what is there, and the
  device is flushed exactly when the bytes contain a newline.
\<close>

lemma char_write_line:
  assumes "dv_io (ds_dev s) = CHAR_IO_LBF" "a \<noteq> 0" "bs \<noteq> []" "rb_wf (dv_buffer (ds_dev s))" "\<not> rb_lock (dv_buffer (ds_dev s))"
    and "length (rb_queue (dv_buffer (ds_dev s))) + length bs \<le> unat (rb_size (dv_buffer (ds_dev s)))"
  obtains rb where "rb_wf rb" "rb_queue rb = rb_queue (dv_buffer (ds_dev s)) @ bs"
    "char_write ops a bs s =
       (let t = upd_dev (\<lambda>d. d\<lparr>dv_buffer := rb\<rparr>) s in
        if 10 \<in> set bs then map_option (\<lambda>t. (of_nat (length bs), t)) (call_opt (co_flush ops) t)
        else Some (of_nat (length bs), t))"
proof -
  let ?rb = "dv_buffer (ds_dev s)"
  obtain rb where rb: "ringbuffer_write bs ?rb = Some (length bs, rb)" "rb_wf rb"
    "rb_queue rb = fifo_write (unat (rb_size ?rb)) (rb_queue ?rb) bs"
    using ringbuffer_write_spec [OF assms(4,5)] by blast
  have "buffer_asserts s = Some ()"
    using rb_wf_buffer [OF assms(4)] assms(4) by (auto simp: buffer_asserts_def rb_wf_def)
  moreover have "rb_queue rb = rb_queue ?rb @ bs" using rb(3) assms(6) by (simp add: fifo_write_def)
  ultimately show ?thesis
    using rb assms(1-3)
    by (intro that [of rb]) (auto simp: char_write_def Let_def CHAR_IO_NBF_def CHAR_IO_LBF_def map_option_case split: option.splits)
qed

end
