(* ===== verification/Netsys.thy ===== *)
theory Netsys
  imports Ipc Sched
begin

text \<open>
  The system layer under the network stack, \<^verbatim>\<open>os/kernel/network/sys.c\<close>: semaphores with a time
  limit, mailboxes, threads and the global protection lock, which lwIP (a bundled library) calls
  through \<^verbatim>\<open>lwip/sys.h\<close>. What other processors do to a semaphore or a mailbox while a caller polls it
  is a function \<open>E\<close>: \<open>E k\<close> is applied after the \<open>k\<close>-th turn of the loop. The successive readings of
  \<^verbatim>\<open>arch_timer_getms\<close> during a call are a function \<open>ms\<close> of their number.
\<close>

section \<open>Model\<close>

definition ERR_OK :: int where "ERR_OK = 0"
definition ERR_MEM :: int where "ERR_MEM = - 1"
definition SYS_ARCH_TIMEOUT :: u32 where "SYS_ARCH_TIMEOUT = 0xFFFFFFFF"
definition SYS_MBOX_EMPTY :: u32 where "SYS_MBOX_EMPTY = SYS_ARCH_TIMEOUT"

text \<open>
  The handles \<^verbatim>\<open>struct sys_sem*\<close> and \<^verbatim>\<open>struct sys_mbox*\<close> are the objects they point to, \<open>None\<close> for a
  null pointer.
\<close>

type_synonym sys_sem = "semaphore_t option"

record sys_mbox =
  mb_size :: u16
  mb_count :: u16
  mb_msg :: "u32 list"

definition sys_init :: "spinlock_t \<Rightarrow> spinlock_t" where
  "sys_init network_lock = spinlock_init network_lock"

definition sys_sem_new :: "byte \<Rightarrow> (int \<times> sys_sem) option" where
  "sys_sem_new count =
     do {
       kassert (count \<noteq> 0);
       v \<leftarrow> sem_init (ucast count);
       Some (ERR_OK, Some v)
     }"

definition sys_sem_free :: "sys_sem \<Rightarrow> sys_sem option" where
  "sys_sem_free s = do { _ \<leftarrow> s; Some None }"

definition sys_sem_signal :: "sys_sem \<Rightarrow> sys_sem option" where
  "sys_sem_signal s = do { v \<leftarrow> s; Some (Some (sem_post v)) }"

text \<open>The loop of \<^verbatim>\<open>sem_wait\<close> among other processors.\<close>

partial_function (option) sem_wait_among :: "(nat \<Rightarrow> semaphore_t \<Rightarrow> semaphore_t) \<Rightarrow> nat \<Rightarrow> semaphore_t \<Rightarrow> semaphore_t option"
where
  "sem_wait_among E k v = (if v = 0 then sem_wait_among E (k + 1) (E k v) else Some (v - 1))"

text \<open>The polling loop of \<^verbatim>\<open>sys_arch_sem_wait\<close>: the number of the next reading of the clock and the value.\<close>

partial_function (option) sem_poll ::
  "(nat \<Rightarrow> semaphore_t \<Rightarrow> semaphore_t) \<Rightarrow> (nat \<Rightarrow> u64) \<Rightarrow> u64 \<Rightarrow> nat \<Rightarrow> semaphore_t \<Rightarrow> (nat \<times> semaphore_t) option"
where
  "sem_poll E ms t0 k v =
     (let (ok, v) = sem_trywait v in
      if ok then Some (k, v)
      else if t0 > ms k then sem_poll E ms t0 (k + 1) (E k v)
      else Some (k + 1, v))"

definition sys_arch_sem_wait ::
  "(nat \<Rightarrow> semaphore_t \<Rightarrow> semaphore_t) \<Rightarrow> (nat \<Rightarrow> u64) \<Rightarrow> u32 \<Rightarrow> sys_sem \<Rightarrow> (u32 \<times> sys_sem) option"
where
  "sys_arch_sem_wait E ms timeout s =
     do {
       v \<leftarrow> s;
       if timeout = 0 then do { v \<leftarrow> sem_wait_among E 0 v; Some (1, Some v) }
       else do {
         let t0 = ms 0 + ucast timeout;
         (k, v) \<leftarrow> sem_poll E ms t0 1 v;
         if t0 \<le> ms k then Some (SYS_ARCH_TIMEOUT, Some v)
         else Some (ucast (t0 - ms (k + 1)), Some v)
       }
     }"

definition sys_mbox_new :: "u32 \<Rightarrow> (int \<times> sys_mbox option) option" where
  "sys_mbox_new sz =
     do {
       kassert (sz \<noteq> 0);
       Some (ERR_OK, Some \<lparr>mb_size = ucast sz, mb_count = 0, mb_msg = replicate (unat sz) 0\<rparr>)
     }"

definition sys_mbox_free :: "sys_mbox option \<Rightarrow> sys_mbox option option" where
  "sys_mbox_free h = do { _ \<leftarrow> h; Some None }"

definition sys_mbox_trypost :: "u32 \<Rightarrow> sys_mbox option \<Rightarrow> (int \<times> sys_mbox option) option" where
  "sys_mbox_trypost msg h =
     do {
       mb \<leftarrow> h;
       if mb_count mb > mb_size mb then Some (ERR_MEM, Some mb)
       else do {
         xs \<leftarrow> array_set (mb_msg mb) (unat (mb_count mb)) msg;
         Some (ERR_OK, Some (mb\<lparr>mb_count := mb_count mb + 1, mb_msg := xs\<rparr>))
       }
     }"

definition sys_mbox_trypost_fromisr :: "u32 \<Rightarrow> sys_mbox option \<Rightarrow> (int \<times> sys_mbox option) option" where
  "sys_mbox_trypost_fromisr msg h =
     do {
       mb \<leftarrow> h;
       if mb_count mb > mb_size mb then Some (ERR_MEM, Some mb)
       else do {
         xs \<leftarrow> array_set (mb_msg mb) (unat (mb_count mb)) msg;
         Some (ERR_OK, Some (mb\<lparr>mb_count := mb_count mb + 1, mb_msg := xs\<rparr>))
       }
     }"

definition sys_mbox_post :: "u32 \<Rightarrow> sys_mbox option \<Rightarrow> sys_mbox option option" where
  "sys_mbox_post msg h =
     do {
       kassert (h \<noteq> None);
       kassert (msg \<noteq> 0);
       (_, h) \<leftarrow> sys_mbox_trypost msg h;
       Some h
     }"

text \<open>The last message of the array, taken out of it: \<^verbatim>\<open>msg[--count]\<close>.\<close>

definition mbox_take :: "sys_mbox \<Rightarrow> (u32 \<times> sys_mbox) option" where
  "mbox_take mb =
     do {
       let c = mb_count mb - 1;
       mx \<leftarrow> array_get (mb_msg mb) (unat c);
       Some (mx, mb\<lparr>mb_count := c\<rparr>)
     }"

text \<open>The two waiting loops of \<^verbatim>\<open>sys_arch_mbox_fetch\<close>.\<close>

partial_function (option) mbox_poll ::
  "(nat \<Rightarrow> sys_mbox \<Rightarrow> sys_mbox) \<Rightarrow> (nat \<Rightarrow> u64) \<Rightarrow> u64 \<Rightarrow> nat \<Rightarrow> sys_mbox \<Rightarrow> (nat \<times> sys_mbox) option"
where
  "mbox_poll E ms t0 k mb =
     (if mb_count mb \<noteq> 0 then Some (k, mb)
      else if t0 > ms k then mbox_poll E ms t0 (k + 1) (E k mb)
      else Some (k + 1, mb))"

partial_function (option) mbox_wait :: "(nat \<Rightarrow> sys_mbox \<Rightarrow> sys_mbox) \<Rightarrow> nat \<Rightarrow> sys_mbox \<Rightarrow> sys_mbox option"
where
  "mbox_wait E k mb = (if mb_count mb = 0 then mbox_wait E (k + 1) (E k mb) else Some mb)"

text \<open>The result, the message stored through \<^verbatim>\<open>msg\<close> (if that is not null, \<open>out\<close>), and the mailbox.\<close>

definition sys_arch_mbox_fetch ::
  "(nat \<Rightarrow> sys_mbox \<Rightarrow> sys_mbox) \<Rightarrow> (nat \<Rightarrow> u64) \<Rightarrow> bool \<Rightarrow> u32 \<Rightarrow> sys_mbox option
     \<Rightarrow> (u32 \<times> u32 option \<times> sys_mbox option) option"
where
  "sys_arch_mbox_fetch E ms out timeout h =
     do {
       mb \<leftarrow> h;
       if timeout \<noteq> 0 then do {
         let t0 = ms 0 + ucast timeout;
         (k, mb) \<leftarrow> mbox_poll E ms t0 1 mb;
         if t0 \<le> ms k then Some (SYS_ARCH_TIMEOUT, None, Some mb)
         else do {
           (mx, mb) \<leftarrow> mbox_take mb;
           Some (ucast (t0 - ms (k + 1)), if out then Some mx else None, Some mb)
         }
       }
       else do {
         mb \<leftarrow> mbox_wait E 0 mb;
         (mx, mb) \<leftarrow> mbox_take mb;
         Some (1, if out then Some mx else None, Some mb)
       }
     }"

definition sys_arch_mbox_tryfetch ::
  "bool \<Rightarrow> sys_mbox option \<Rightarrow> (u32 \<times> u32 option \<times> sys_mbox option) option"
where
  "sys_arch_mbox_tryfetch out h =
     do {
       mb \<leftarrow> h;
       if mb_count mb = 0 then Some (SYS_MBOX_EMPTY, None, Some mb)
       else do {
         (mx, mb) \<leftarrow> mbox_take mb;
         Some (0, if out then Some mx else None, Some mb)
       }
     }"

text \<open>\<open>stack\<close> and \<open>child\<close> are the addresses \<^verbatim>\<open>kcalloc\<close> returns here and in \<^verbatim>\<open>sys_clone\<close>.\<close>

definition sys_thread_new ::
  "(u32 \<Rightarrow> u32 \<Rightarrow> bool) \<Rightarrow> int \<Rightarrow> u32 \<Rightarrow> tptr \<Rightarrow> u32 \<Rightarrow> u32 \<Rightarrow> sched \<Rightarrow> (int option \<times> sched) option"
where
  "sys_thread_new chk EFAULT stack child thread stacksize s =
     do {
       kassert (stacksize \<noteq> 0);
       sys_clone chk EFAULT child thread (stack + stacksize) s
     }"

definition sys_arch_protect :: "spinlock_t \<Rightarrow> (u32 \<times> spinlock_t) option" where
  "sys_arch_protect network_lock = do { l \<leftarrow> spinlock_lock network_lock; Some (0, l) }"

definition sys_arch_unprotect :: "u32 \<Rightarrow> spinlock_t \<Rightarrow> spinlock_t" where
  "sys_arch_unprotect pval network_lock = spinlock_unlock network_lock"

definition sys_now :: "sched \<Rightarrow> u32 option" where
  "sys_now s = map_option ucast (arch_timer_getms s)"


section \<open>Mailboxes\<close>

text \<open>
  What a mailbox holds: the first \<open>mb_count\<close> entries of its array. The array has \<open>mb_size\<close> entries if
  the size given to \<^verbatim>\<open>sys_mbox_new\<close> fits 16 bits.
\<close>

definition mbox_held :: "sys_mbox \<Rightarrow> u32 list" where
  "mbox_held mb = take (unat (mb_count mb)) (mb_msg mb)"

definition mbox_ok :: "sys_mbox \<Rightarrow> bool" where
  "mbox_ok mb \<longleftrightarrow> length (mb_msg mb) = unat (mb_size mb) \<and> mb_count mb \<le> mb_size mb"

lemma mbox_held_length: "mbox_ok mb \<Longrightarrow> length (mbox_held mb) = unat (mb_count mb)"
  by (simp add: mbox_ok_def mbox_held_def word_le_nat_alt)

lemma mbox_held_empty: "mbox_ok mb \<Longrightarrow> mbox_held mb = [] \<longleftrightarrow> mb_count mb = 0"
  using mbox_held_length [of mb] by (auto simp: unat_eq_0)

lemma sys_mbox_new_ok:
  assumes "0 < unat sz" "unat sz < 2 ^ 16"
  shows "\<exists>mb. sys_mbox_new sz = Some (ERR_OK, Some mb) \<and> mbox_ok mb \<and> mbox_held mb = [] \<and> unat (mb_size mb) = unat sz"
  using assms take_bit_nat_eq_self [of "unat sz" 16]
  by (auto simp: sys_mbox_new_def mbox_ok_def mbox_held_def unsigned_ucast_eq)

lemma sys_mbox_trypost_ok:
  assumes ok: "mbox_ok mb" and room: "length (mbox_held mb) < unat (mb_size mb)"
  obtains mb' where "sys_mbox_trypost msg (Some mb) = Some (ERR_OK, Some mb')" "mbox_ok mb'"
    "mbox_held mb' = mbox_held mb @ [msg]" "mb_size mb' = mb_size mb"
proof -
  have c: "unat (mb_count mb) < unat (mb_size mb)" and l: "length (mb_msg mb) = unat (mb_size mb)"
    using ok room by (simp_all add: mbox_held_length mbox_ok_def)
  then have s: "unat (mb_count mb + 1) = unat (mb_count mb) + 1"
    using unsigned_less [of "mb_size mb", where ?'a = nat] by (intro unat_Suc_word) simp
  show ?thesis
  proof (rule that)
    show "sys_mbox_trypost msg (Some mb) = Some (ERR_OK, Some (mb\<lparr>mb_count := mb_count mb + 1,
        mb_msg := (mb_msg mb)[unat (mb_count mb) := msg]\<rparr>))"
      using c l by (simp add: sys_mbox_trypost_def word_less_nat_alt)
  qed (use c l s in \<open>simp_all add: mbox_ok_def mbox_held_def word_le_nat_alt take_Suc_conv_app_nth\<close>)
qed

lemma mbox_take_ok:
  assumes ok: "mbox_ok mb" and ne: "mb_count mb \<noteq> 0"
  obtains mb' where "mbox_take mb = Some (last (mbox_held mb), mb')" "mbox_ok mb'"
    "mbox_held mb' = butlast (mbox_held mb)" "mb_size mb' = mb_size mb"
proof -
  let ?c = "unat (mb_count mb)"
  have c: "0 < ?c" using ne by (simp add: unat_gt_0)
  have s: "unat (mb_count mb - 1) = ?c - 1" using ne by (rule unat_minus_one)
  have l: "?c \<le> length (mb_msg mb)" using ok by (simp add: mbox_ok_def word_le_nat_alt)
  have "last (mbox_held mb) = mb_msg mb ! (?c - 1)"
    using c l by (subst last_conv_nth) (auto simp: mbox_held_def min_def)
  moreover have "?c - 1 < length (mb_msg mb)" using c l by linarith
  ultimately show ?thesis
    using ok c l s by (intro that [of "mb\<lparr>mb_count := mb_count mb - 1\<rparr>"])
      (auto simp: mbox_take_def mbox_ok_def mbox_held_def word_le_nat_alt butlast_take)
qed

text \<open>Sequences of posts and fetches, on the mailbox and on a stack of messages.\<close>

datatype mbox_op = Post u32 | Fetch

fun mbox_run :: "mbox_op list \<Rightarrow> sys_mbox option \<Rightarrow> (u32 option list \<times> sys_mbox option) option" where
  "mbox_run [] h = Some ([], h)"
| "mbox_run (Post m # ops) h = do { (_, h) \<leftarrow> sys_mbox_trypost m h; mbox_run ops h }"
| "mbox_run (Fetch # ops) h =
     do {
       (_, r, h) \<leftarrow> sys_arch_mbox_tryfetch True h;
       (rs, h) \<leftarrow> mbox_run ops h;
       Some (r # rs, h)
     }"

fun stack_run :: "mbox_op list \<Rightarrow> u32 list \<Rightarrow> u32 option list \<times> u32 list" where
  "stack_run [] xs = ([], xs)"
| "stack_run (Post m # ops) xs = stack_run ops (xs @ [m])"
| "stack_run (Fetch # ops) xs =
     (case stack_run ops (butlast xs) of (rs, ys) \<Rightarrow> ((if xs = [] then None else Some (last xs)) # rs, ys))"

fun stack_fits :: "nat \<Rightarrow> mbox_op list \<Rightarrow> u32 list \<Rightarrow> bool" where
  "stack_fits n [] xs = True"
| "stack_fits n (Post m # ops) xs = (length xs < n \<and> stack_fits n ops (xs @ [m]))"
| "stack_fits n (Fetch # ops) xs = stack_fits n ops (butlast xs)"

lemma tryfetch_ok:
  assumes ok: "mbox_ok mb"
  obtains r mb' where
    "sys_arch_mbox_tryfetch True (Some mb)
       = Some (r, if mbox_held mb = [] then None else Some (last (mbox_held mb)), Some mb')"
    "mbox_ok mb'" "mbox_held mb' = butlast (mbox_held mb)" "mb_size mb' = mb_size mb"
proof (cases "mb_count mb = 0")
  case True
  then show ?thesis using ok mbox_held_empty [OF ok] by (intro that) (auto simp: sys_arch_mbox_tryfetch_def)
next
  case False
  obtain mb' where "mbox_take mb = Some (last (mbox_held mb), mb')" "mbox_ok mb'"
    "mbox_held mb' = butlast (mbox_held mb)" "mb_size mb' = mb_size mb"
    using mbox_take_ok [OF ok False] by blast
  with False show ?thesis using mbox_held_empty [OF ok]
    by (intro that [of 0 mb']) (simp_all add: sys_arch_mbox_tryfetch_def)
qed

lemma mbox_run_stack:
  "mbox_ok mb \<Longrightarrow> stack_fits (unat (mb_size mb)) ops (mbox_held mb) \<Longrightarrow>
   \<exists>mb'. mbox_run ops (Some mb) = Some (fst (stack_run ops (mbox_held mb)), Some mb')
     \<and> mbox_ok mb' \<and> mbox_held mb' = snd (stack_run ops (mbox_held mb))"
proof (induction ops arbitrary: mb)
  case (Cons op ops)
  show ?case
  proof (cases op)
    case (Post m)
    with Cons.prems have "length (mbox_held mb) < unat (mb_size mb)" by simp
    from sys_mbox_trypost_ok [OF Cons.prems(1) this, of m] obtain mb' where
      "sys_mbox_trypost m (Some mb) = Some (ERR_OK, Some mb')" "mbox_ok mb'"
      "mbox_held mb' = mbox_held mb @ [m]" "mb_size mb' = mb_size mb" by blast
    with Cons.IH [of mb'] Cons.prems Post show ?thesis by simp
  next
    case Fetch
    from tryfetch_ok [OF Cons.prems(1)] obtain r mb' where
      "sys_arch_mbox_tryfetch True (Some mb)
         = Some (r, if mbox_held mb = [] then None else Some (last (mbox_held mb)), Some mb')"
      "mbox_ok mb'" "mbox_held mb' = butlast (mbox_held mb)" "mb_size mb' = mb_size mb" by blast
    with Cons.IH [of mb'] Cons.prems Fetch show ?thesis by (auto split: prod.splits)
  qed
qed simp

text \<open>C32. A new mailbox of any 16-bit size is a stack of that capacity: whatever the sequence of posts and
  fetches, as long as it never holds more messages than its size, no message is lost or duplicated,
  and every fetch returns the message posted last among those still there.
\<close>

theorem mbox_refines_stack:
  assumes "0 < unat sz" "unat sz < 2 ^ 16" "stack_fits (unat sz) ops []"
  shows "\<exists>mb. do { (_, h) \<leftarrow> sys_mbox_new sz; mbox_run ops h } = Some (fst (stack_run ops []), Some mb)
    \<and> mbox_ok mb \<and> mbox_held mb = snd (stack_run ops [])"
  using sys_mbox_new_ok [OF assms(1,2)] assms(3) mbox_run_stack [of _ ops] by fastforce

theorem mbox_refines_stack_witness:
  "\<exists>mb. do { (_, h) \<leftarrow> sys_mbox_new 2; mbox_run [Post 7, Post 8, Fetch, Fetch, Fetch] h }
    = Some ([Some 8, Some 7, None], Some mb) \<and> mbox_ok mb \<and> mbox_held mb = []"
  using mbox_refines_stack [of 2 "[Post 7, Post 8, Fetch, Fetch, Fetch]"] by simp

text \<open>A mailbox that holds as many messages as its size does not refuse the next one: the guard lets
  \<^verbatim>\<open>count\<close> equal to \<^verbatim>\<open>size\<close> pass, and the message is stored behind the end of the array, by the task
  and the interrupt variant alike.
\<close>

lemma mbox_overrun:
  assumes "mbox_ok mb" "length (mbox_held mb) = unat (mb_size mb)"
  shows "sys_mbox_trypost msg (Some mb) = None \<and> sys_mbox_trypost_fromisr msg (Some mb) = None
    \<and> sys_mbox_post msg (Some mb) = None"
proof -
  have c: "mb_count mb = mb_size mb"
    using assms by (simp add: mbox_held_length word_unat_eq_iff)
  with assms(1) have "sys_mbox_trypost msg (Some mb) = None" "sys_mbox_trypost_fromisr msg (Some mb) = None"
    by (simp_all add: sys_mbox_trypost_def sys_mbox_trypost_fromisr_def mbox_ok_def)
  then show ?thesis by (simp add: sys_mbox_post_def)
qed

definition full_mbox :: sys_mbox where
  "full_mbox = \<lparr>mb_size = 2, mb_count = 2, mb_msg = [7, 8]\<rparr>"

lemma mbox_overrun_demo:
  "mbox_ok full_mbox \<and> sys_mbox_trypost 9 (Some full_mbox) = None
   \<and> sys_mbox_trypost_fromisr 9 (Some full_mbox) = None \<and> sys_mbox_post 9 (Some full_mbox) = None"
  using mbox_overrun [of full_mbox 9] by (simp add: full_mbox_def mbox_ok_def mbox_held_def)

section \<open>Waiting with a time limit\<close>

text \<open>What the other processors have made of a value after \<open>n\<close> turns of a loop that started with turn \<open>k\<close>.\<close>

primrec env_after :: "(nat \<Rightarrow> 'a \<Rightarrow> 'a) \<Rightarrow> nat \<Rightarrow> nat \<Rightarrow> 'a \<Rightarrow> 'a" where
  "env_after E k 0 v = v"
| "env_after E k (Suc n) v = env_after E (k + 1) n (E k v)"

text \<open>Left alone, the loop is that of \<^verbatim>\<open>sem_wait\<close>.\<close>

lemma sem_wait_among_alone: "sem_wait_among (\<lambda>_ v. v) k v = sem_wait v"
proof (cases "v = 0")
  case True
  have "E = (\<lambda>_ v. v) \<longrightarrow> v \<noteq> 0" if "sem_wait_among E k v = Some r" for E k v r
    by (rule sem_wait_among.raw_induct [OF _ that]) (auto split: if_splits)
  moreover have "v \<noteq> 0" if "sem_wait v = Some r" for v r
    by (rule sem_wait.raw_induct [OF _ that]) (auto split: if_splits)
  ultimately show ?thesis using True by (metis option.exhaust)
qed (subst sem_wait_among.simps, subst sem_wait.simps, simp)

lemma sem_wait_among_signalled:
  "env_after E k n v \<noteq> 0 \<Longrightarrow>
   \<exists>m\<le>n. sem_wait_among E k v = Some (env_after E k m v - 1) \<and> env_after E k m v \<noteq> 0"
proof (induction n arbitrary: k v)
  case 0
  then show ?case by (subst sem_wait_among.simps) simp
next
  case (Suc n)
  show ?case
  proof (cases "v = 0")
    case True
    with Suc obtain m where "m \<le> n" "sem_wait_among E (k + 1) (E k v) = Some (env_after E (k + 1) m (E k v) - 1)"
      "env_after E (k + 1) m (E k v) \<noteq> 0" by force
    with True show ?thesis by (intro exI [of _ "Suc m"]) (subst sem_wait_among.simps, simp)
  qed (intro exI [of _ 0], subst sem_wait_among.simps, simp)
qed

text \<open>
  The polling loop ends, with a token taken from a value that was not zero, or because the clock has
  passed the limit.
\<close>

lemma sem_poll_ends:
  "t0 \<le> ms (k + n) \<Longrightarrow>
   \<exists>m\<le>n. (env_after E k m v \<noteq> 0 \<and> sem_poll E ms t0 k v = Some (k + m, env_after E k m v - 1))
       \<or> (env_after E k m v = 0 \<and> t0 \<le> ms (k + m) \<and> sem_poll E ms t0 k v = Some (k + m + 1, 0))"
proof (induction n arbitrary: k v)
  case 0
  then show ?case by (subst (1 2) sem_poll.simps) (auto simp: sem_trywait_def)
next
  case (Suc n)
  show ?case
  proof (cases "v = 0 \<and> t0 > ms k")
    case True
    then have eq: "sem_poll E ms t0 k v = sem_poll E ms t0 (k + 1) (E k v)"
      by (subst sem_poll.simps) (simp add: sem_trywait_def)
    from Suc.IH [of "k + 1" "E k v"] Suc.prems obtain m where "m \<le> n"
      "(env_after E (k + 1) m (E k v) \<noteq> 0
          \<and> sem_poll E ms t0 (k + 1) (E k v) = Some (k + 1 + m, env_after E (k + 1) m (E k v) - 1))
       \<or> (env_after E (k + 1) m (E k v) = 0 \<and> t0 \<le> ms (k + 1 + m)
          \<and> sem_poll E ms t0 (k + 1) (E k v) = Some (k + 1 + m + 1, 0))" by auto
    with eq show ?thesis by (intro exI [of _ "Suc m"]) auto
  next
    case False
    then show ?thesis by (intro exI [of _ 0], subst (1 2) sem_poll.simps) (auto simp: sem_trywait_def)
  qed
qed


definition demo_clock :: "nat \<Rightarrow> u64" where "demo_clock k = of_nat (min k 9)"
definition demo_signal :: "nat \<Rightarrow> semaphore_t \<Rightarrow> semaphore_t" where "demo_signal k v = (if k = 2 then v + 1 else v)"


text \<open>
  The converse fails: the result is decided by a second reading of the clock, so that a wait that
  took the token just before the limit reports a time-out and the token is lost.
\<close>

lemma sem_wait_loses_token:
  "sys_arch_sem_wait (\<lambda>_ v. v) (\<lambda>k. if k = 0 then 0 else 5) 5 (Some 1) = Some (SYS_ARCH_TIMEOUT, Some 0)"
  by (simp add: sys_arch_sem_wait_def sem_poll.simps sem_trywait_def)

text \<open>The same for a message: it stays in the mailbox, but the fetch reports the time-out.\<close>

lemma mbox_poll_ends:
  "t0 \<le> ms (k + n) \<Longrightarrow>
   \<exists>m\<le>n. (mb_count (env_after E k m mb) \<noteq> 0 \<and> mbox_poll E ms t0 k mb = Some (k + m, env_after E k m mb))
       \<or> (mb_count (env_after E k m mb) = 0 \<and> t0 \<le> ms (k + m)
          \<and> mbox_poll E ms t0 k mb = Some (k + m + 1, env_after E k m mb))"
proof (induction n arbitrary: k mb)
  case 0
  then show ?case by (subst (1 2) mbox_poll.simps) auto
next
  case (Suc n)
  show ?case
  proof (cases "mb_count mb = 0 \<and> t0 > ms k")
    case True
    then have eq: "mbox_poll E ms t0 k mb = mbox_poll E ms t0 (k + 1) (E k mb)"
      by (subst mbox_poll.simps) simp
    from Suc.IH [of "k + 1" "E k mb"] Suc.prems obtain m where "m \<le> n"
      "(mb_count (env_after E (k + 1) m (E k mb)) \<noteq> 0
          \<and> mbox_poll E ms t0 (k + 1) (E k mb) = Some (k + 1 + m, env_after E (k + 1) m (E k mb)))
       \<or> (mb_count (env_after E (k + 1) m (E k mb)) = 0 \<and> t0 \<le> ms (k + 1 + m)
          \<and> mbox_poll E ms t0 (k + 1) (E k mb) = Some (k + 1 + m + 1, env_after E (k + 1) m (E k mb)))" by auto
    with eq show ?thesis by (intro exI [of _ "Suc m"]) auto
  next
    case False
    then show ?thesis by (intro exI [of _ 0], subst (1 2) mbox_poll.simps) auto
  qed
qed

text \<open>
  A fetch with a time limit comes back with the newest message of what the other processors left in
  the mailbox, or with the time-out and the mailbox as it was.
\<close>

lemma mbox_fetch_deadline:
  assumes "timeout \<noteq> 0" "mono ms" "ms 0 + ucast timeout \<le> ms (n + 1)"
    and ok: "\<And>m. m \<le> n \<Longrightarrow> mbox_ok (env_after E 1 m mb)"
  shows "\<exists>r x mb' m. m \<le> n \<and> sys_arch_mbox_fetch E ms True timeout (Some mb) = Some (r, x, Some mb')
    \<and> (x = Some (last (mbox_held (env_after E 1 m mb))) \<and> mbox_held (env_after E 1 m mb) \<noteq> []
          \<and> mbox_held mb' = butlast (mbox_held (env_after E 1 m mb))
       \<or> x = None \<and> r = SYS_ARCH_TIMEOUT \<and> mb' = env_after E 1 m mb)"
proof -
  let ?t = "ms 0 + ucast timeout"
  from assms(3) have "?t \<le> ms (1 + n)" by (simp add: add.commute)
  from mbox_poll_ends [of ?t ms 1 n E mb, OF this] obtain m where m: "m \<le> n" and
    cs: "(mb_count (env_after E 1 m mb) \<noteq> 0 \<and> mbox_poll E ms ?t 1 mb = Some (1 + m, env_after E 1 m mb))
     \<or> (mb_count (env_after E 1 m mb) = 0 \<and> ?t \<le> ms (1 + m)
        \<and> mbox_poll E ms ?t 1 mb = Some (1 + m + 1, env_after E 1 m mb))" by blast
  have late: "?t \<le> ms (1 + m) \<Longrightarrow> ?t \<le> ms (1 + m + 1)"
    using monoD [OF assms(2), of "1 + m" "1 + m + 1"] by simp
  note ok = ok [OF m]
  show ?thesis
  proof (cases "mb_count (env_after E 1 m mb) = 0")
    case True
    with cs late assms(1) m show ?thesis by (auto simp: sys_arch_mbox_fetch_def Let_def)
  next
    case False
    obtain mb' where t: "mbox_take (env_after E 1 m mb) = Some (last (mbox_held (env_after E 1 m mb)), mb')"
      "mbox_held mb' = butlast (mbox_held (env_after E 1 m mb))"
      using mbox_take_ok [OF ok False] by blast
    from False cs have "mbox_poll E ms ?t 1 mb = Some (1 + m, env_after E 1 m mb)" by simp
    with t m False assms(1) mbox_held_empty [OF ok] show ?thesis
      by (cases "?t \<le> ms (1 + m)")
        (simp_all add: sys_arch_mbox_fetch_def Let_def, blast, intro exI [of _ m], simp)
  qed
qed

text \<open>
  \<^verbatim>\<open>lwip/sys.h\<close> creates its semaphores with a count of 0 or 1; the assertion of \<^verbatim>\<open>sys_sem_new\<close> fails for 0.
\<close>

lemma sys_sem_new_zero: "sys_sem_new 0 = None"
  by (simp add: sys_sem_new_def)

end
