(* ===== verification/Pci.thy ===== *)
theory Pci
  imports Kprelude
begin

text \<open>
  The PCI driver, \<^verbatim>\<open>os/drivers/platform/pc/dev/pci/main.c\<close> with \<^verbatim>\<open>os/drivers/include/dev/pci.h\<close>: access to
  the configuration space through the two I/O ports and the recursive scan of the buses. The
  hardware is an argument \<open>io\<close>: \<open>io a p n\<close> is what an \<open>n\<close>-byte input from port \<open>p\<close> returns when \<open>a\<close> was
  written to the address port before it. The calls of the function that a driver hands to the scan
  are the result of the scan, in order.
\<close>

section \<open>Model\<close>

definition PCI_VENDOR_ID :: u32 where "PCI_VENDOR_ID = 0x00"
definition PCI_DEVICE_ID :: u32 where "PCI_DEVICE_ID = 0x02"
definition PCI_PROG_IF :: u32 where "PCI_PROG_IF = 0x09"
definition PCI_SUBCLASS :: u32 where "PCI_SUBCLASS = 0x0A"
definition PCI_CLASS :: u32 where "PCI_CLASS = 0x0B"
definition PCI_HEADER_TYPE :: u32 where "PCI_HEADER_TYPE = 0x0E"
definition PCI_SECONDARY_BUS :: u32 where "PCI_SECONDARY_BUS = 0x09"
definition PCI_TYPE_BRIDGE :: u16 where "PCI_TYPE_BRIDGE = 0x0604"
definition PCI_ADDRESS_PORT :: u16 where "PCI_ADDRESS_PORT = 0xCF8"
definition PCI_VALUE_PORT :: u16 where "PCI_VALUE_PORT = 0xCFC"
definition PCI_NONE :: u32 where "PCI_NONE = 0xFFFF"

type_synonym pcidev_t = u32
type_synonym pci_io = "u32 \<Rightarrow> u16 \<Rightarrow> nat \<Rightarrow> u32"

definition pci_extract_bus :: "pcidev_t \<Rightarrow> byte" where
  "pci_extract_bus x = ucast (drop_bit 16 x)"

definition pci_extract_slot :: "pcidev_t \<Rightarrow> byte" where
  "pci_extract_slot x = ucast (drop_bit 8 x)"

definition pci_extract_func :: "pcidev_t \<Rightarrow> byte" where
  "pci_extract_func x = ucast x"

definition pci_get_addr :: "pcidev_t \<Rightarrow> u32 \<Rightarrow> u32" where
  "pci_get_addr x field =
     0x80000000 OR push_bit 16 (ucast (pci_extract_bus x)) OR push_bit 11 (ucast (pci_extract_slot x))
       OR push_bit 8 (ucast (pci_extract_func x)) OR (field AND 0xFC)"

definition pci_box_device :: "u32 \<Rightarrow> u32 \<Rightarrow> u32 \<Rightarrow> pcidev_t" where
  "pci_box_device x y z = push_bit 16 x OR push_bit 8 y OR z"

text \<open>The outputs to ports that a write makes, in order.\<close>

definition pci_write :: "pcidev_t \<Rightarrow> u32 \<Rightarrow> u32 \<Rightarrow> u32 \<Rightarrow> (u16 \<times> u32) list" where
  "pci_write device field sz v = [(PCI_ADDRESS_PORT, pci_get_addr device field), (PCI_VALUE_PORT, v)]"

definition pci_read :: "pci_io \<Rightarrow> pcidev_t \<Rightarrow> u32 \<Rightarrow> u32 \<Rightarrow> u32 option" where
  "pci_read io device field sz =
     (let a = pci_get_addr device field in
      if sz = 4 then Some (io a PCI_VALUE_PORT 4)
      else if sz = 2 then Some (ucast (ucast (io a (PCI_VALUE_PORT + ucast (field AND 2)) 2) :: u16))
      else if sz = 1 then Some (ucast (ucast (io a (PCI_VALUE_PORT + ucast (field AND 3)) 1) :: byte))
      else None)"

definition pci_find_type :: "pci_io \<Rightarrow> pcidev_t \<Rightarrow> u16 option" where
  "pci_find_type io device =
     do {
       c \<leftarrow> pci_read io device PCI_CLASS 1;
       s \<leftarrow> pci_read io device PCI_SUBCLASS 1;
       Some (ucast (push_bit 8 c OR s))
     }"

text \<open>A call of the function of the driver: the device with its vendor and device numbers.\<close>

type_synonym pci_hit = "pcidev_t \<times> u16 \<times> u16"

definition pci_scan_hit :: "pci_io \<Rightarrow> pcidev_t \<Rightarrow> pci_hit list option" where
  "pci_scan_hit io device =
     do {
       v \<leftarrow> pci_read io device PCI_VENDOR_ID 2;
       d \<leftarrow> pci_read io device PCI_DEVICE_ID 2;
       Some [(device, ucast v, ucast d)]
     }"

text \<open>\<open>scan\<close> is \<^verbatim>\<open>pci_scan_bus\<close>, which these functions call back; \<open>type\<close> is an \<^verbatim>\<open>int\<close>.\<close>

definition pci_scan_func :: "(u32 \<Rightarrow> pci_hit list option) \<Rightarrow> pci_io \<Rightarrow> int \<Rightarrow> u32 \<Rightarrow> u32 \<Rightarrow> u32 \<Rightarrow> pci_hit list option"
where
  "pci_scan_func scan io type bus slot func =
     do {
       let d = pci_box_device bus slot func;
       t \<leftarrow> pci_find_type io d;
       hs \<leftarrow> (if type = - 1 \<or> type = uint t then pci_scan_hit io d else Some []);
       hs' \<leftarrow> (if t = PCI_TYPE_BRIDGE then do { b \<leftarrow> pci_read io d PCI_SECONDARY_BUS 1; scan b } else Some []);
       Some (hs @ hs')
     }"

text \<open>A loop whose turns make the calls \<open>f i\<close>.\<close>

fun scan_loop :: "(nat \<Rightarrow> 'a list option) \<Rightarrow> nat list \<Rightarrow> 'a list option" where
  "scan_loop f [] = Some []"
| "scan_loop f (i # is) = do { xs \<leftarrow> f i; ys \<leftarrow> scan_loop f is; Some (xs @ ys) }"

definition pci_scan_slot :: "(u32 \<Rightarrow> pci_hit list option) \<Rightarrow> pci_io \<Rightarrow> int \<Rightarrow> u32 \<Rightarrow> u32 \<Rightarrow> pci_hit list option"
where
  "pci_scan_slot scan io type bus slot =
     do {
       let d = pci_box_device bus slot 0;
       v \<leftarrow> pci_read io d PCI_VENDOR_ID 2;
       if v = PCI_NONE then Some []
       else do {
         hs \<leftarrow> pci_scan_func scan io type bus slot 0;
         h \<leftarrow> pci_read io d PCI_HEADER_TYPE 1;
         if h = 0 then Some hs
         else do {
           hs' \<leftarrow> scan_loop (\<lambda>i. do {
             let d = pci_box_device bus slot (of_nat i);
             v \<leftarrow> pci_read io d PCI_VENDOR_ID 2;
             if v \<noteq> PCI_NONE then pci_scan_func scan io type bus slot (of_nat i) else Some []
           }) [1..<8];
           Some (hs @ hs')
         }
       }
     }"

text \<open>
  The recursion through bridges may go on for ever: \<open>n\<close> is the number of nested calls allowed, and
  the scan comes back if it has a result for some \<open>n\<close>.
\<close>

primrec pci_scan_bus :: "nat \<Rightarrow> pci_io \<Rightarrow> int \<Rightarrow> u32 \<Rightarrow> pci_hit list option" where
  "pci_scan_bus 0 io type bus = None"
| "pci_scan_bus (Suc n) io type bus =
     scan_loop (\<lambda>i. pci_scan_slot (pci_scan_bus n io type) io type bus (of_nat i)) [0..<32]"

text \<open>The loop of \<^verbatim>\<open>pci_scan\<close> over further host controllers ends at the first absent function.\<close>

fun pci_scan_hosts :: "(u32 \<Rightarrow> pci_hit list option) \<Rightarrow> pci_io \<Rightarrow> nat list \<Rightarrow> pci_hit list option" where
  "pci_scan_hosts scan io [] = Some []"
| "pci_scan_hosts scan io (i # is) =
     do {
       v \<leftarrow> pci_read io (pci_box_device 0 0 (of_nat i)) PCI_VENDOR_ID 2;
       if v \<noteq> PCI_NONE then do {
         hs \<leftarrow> scan (of_nat i);
         hs' \<leftarrow> pci_scan_hosts scan io is;
         Some (hs @ hs')
       }
       else Some []
     }"

definition pci_scan :: "nat \<Rightarrow> pci_io \<Rightarrow> int \<Rightarrow> pci_hit list option" where
  "pci_scan n io type =
     do {
       hs \<leftarrow> pci_scan_bus n io type 0;
       h \<leftarrow> pci_read io 0 PCI_HEADER_TYPE 1;
       if h = 0 then Some hs
       else do {
         hs' \<leftarrow> pci_scan_hosts (pci_scan_bus n io type) io [1..<8];
         Some (hs @ hs')
       }
     }"

section \<open>What a scan is meant to visit\<close>

text \<open>The registers that the scan reads, as total functions.\<close>

definition pci_reg :: "pci_io \<Rightarrow> pcidev_t \<Rightarrow> u32 \<Rightarrow> u32 \<Rightarrow> u32" where
  "pci_reg io d field sz = the (pci_read io d field sz)"

definition pci_type :: "pci_io \<Rightarrow> pcidev_t \<Rightarrow> u16" where
  "pci_type io d = the (pci_find_type io d)"

text \<open>Function \<open>f\<close> of a slot is there: function 0 is, and \<open>f\<close> is 0 or present in a device with several functions.\<close>

definition pci_seen :: "pci_io \<Rightarrow> u32 \<Rightarrow> nat \<Rightarrow> nat \<Rightarrow> bool" where
  "pci_seen io b s f \<longleftrightarrow> s < 32 \<and> f < 8 \<and> pci_reg io (pci_box_device b (of_nat s) 0) PCI_VENDOR_ID 2 \<noteq> PCI_NONE
     \<and> (f = 0 \<or> pci_reg io (pci_box_device b (of_nat s) 0) PCI_HEADER_TYPE 1 \<noteq> 0
          \<and> pci_reg io (pci_box_device b (of_nat s) (of_nat f)) PCI_VENDOR_ID 2 \<noteq> PCI_NONE)"

abbreviation pci_bridge :: "pci_io \<Rightarrow> u32 \<Rightarrow> nat \<Rightarrow> nat \<Rightarrow> bool" where
  "pci_bridge io b s f \<equiv> pci_seen io b s f \<and> pci_type io (pci_box_device b (of_nat s) (of_nat f)) = PCI_TYPE_BRIDGE"

abbreviation pci_behind :: "pci_io \<Rightarrow> u32 \<Rightarrow> nat \<Rightarrow> nat \<Rightarrow> u32" where
  "pci_behind io b s f \<equiv> pci_reg io (pci_box_device b (of_nat s) (of_nat f)) PCI_SECONDARY_BUS 1"

text \<open>The buses below a bus, and the root buses: bus 0, and one for each further host controller.\<close>

inductive pci_below :: "pci_io \<Rightarrow> u32 \<Rightarrow> u32 \<Rightarrow> bool" for io b where
  here: "pci_below io b b"
| bridge: "pci_below io b c \<Longrightarrow> pci_bridge io c s f \<Longrightarrow> pci_below io b (pci_behind io c s f)"

definition pci_root :: "pci_io \<Rightarrow> u32 \<Rightarrow> bool" where
  "pci_root io b \<longleftrightarrow> b = 0 \<or> pci_reg io 0 PCI_HEADER_TYPE 1 \<noteq> 0 \<and>
     (\<exists>i<8. b = of_nat i \<and> (\<forall>j\<in>{1..i}. pci_reg io (pci_box_device 0 0 (of_nat j)) PCI_VENDOR_ID 2 \<noteq> PCI_NONE))"

definition pci_hit_of :: "pci_io \<Rightarrow> pcidev_t \<Rightarrow> pci_hit" where
  "pci_hit_of io d = (d, ucast (pci_reg io d PCI_VENDOR_ID 2), ucast (pci_reg io d PCI_DEVICE_ID 2))"

definition pci_wanted :: "pci_io \<Rightarrow> int \<Rightarrow> u32 \<Rightarrow> pci_hit set" where
  "pci_wanted io type b = {pci_hit_of io d | d c s f. pci_below io b c \<and> pci_seen io c s f
     \<and> d = pci_box_device c (of_nat s) (of_nat f) \<and> (type = - 1 \<or> type = uint (pci_type io d))}"

section \<open>The scan visits exactly that\<close>

lemma pci_read_reg [simp]:
  "pci_read io d field 1 = Some (pci_reg io d field 1)"
  "pci_read io d field 2 = Some (pci_reg io d field 2)"
  by (simp_all add: pci_reg_def pci_read_def Let_def)

lemma pci_find_type_type [simp]: "pci_find_type io d = Some (pci_type io d)"
  by (simp add: pci_type_def pci_find_type_def)

lemma pci_scan_hit_of [simp]: "pci_scan_hit io d = Some [pci_hit_of io d]"
  by (simp add: pci_scan_hit_def pci_hit_of_def)

lemma unat_ucast_byte: "unat (ucast (w :: byte) :: u32) < 256"
  using unsigned_less [of w, where ?'a = nat] by (simp add: unsigned_ucast_eq take_bit_nat_eq_self)

lemma pci_reg_byte: "unat (pci_reg io d field 1) < 256"
  using unat_ucast_byte by (simp add: pci_reg_def pci_read_def Let_def)

lemma scan_loop_set:
  "(\<And>i. i \<in> set is \<Longrightarrow> \<exists>xs. f i = Some xs \<and> set xs = S i) \<Longrightarrow>
   \<exists>ys. scan_loop f is = Some ys \<and> set ys = (\<Union>i\<in>set is. S i)"
proof (induction "is")
  case (Cons i "is")
  then obtain xs ys where "f i = Some xs" "set xs = S i" "scan_loop f is = Some ys" "set ys = (\<Union>i\<in>set is. S i)"
    by (meson list.set_intros)
  then show ?case by simp
qed simp

lemma scan_loop_None: "i \<in> set is \<Longrightarrow> f i = None \<Longrightarrow> scan_loop f is = None"
proof (induction "is")
  case (Cons j "is")
  then show ?case by (cases "f j") auto
qed simp

text \<open>The calls for one function, and those of everything behind it if it is a bridge.\<close>

definition func_hits :: "pci_io \<Rightarrow> int \<Rightarrow> (u32 \<Rightarrow> pci_hit set) \<Rightarrow> u32 \<Rightarrow> nat \<Rightarrow> nat \<Rightarrow> pci_hit set" where
  "func_hits io type W b s f = {h. pci_seen io b s f \<and>
     (let d = pci_box_device b (of_nat s) (of_nat f) in
      h = pci_hit_of io d \<and> (type = - 1 \<or> type = uint (pci_type io d))
      \<or> pci_type io d = PCI_TYPE_BRIDGE \<and> h \<in> W (pci_reg io d PCI_SECONDARY_BUS 1))}"

lemma pci_scan_func_hits:
  assumes "pci_seen io b s f"
    and "pci_bridge io b s f \<Longrightarrow> \<exists>hs. scan (pci_behind io b s f) = Some hs \<and> set hs = W (pci_behind io b s f)"
  shows "\<exists>hs. pci_scan_func scan io type b (of_nat s) (of_nat f) = Some hs \<and> set hs = func_hits io type W b s f"
  using assms by (cases "pci_type io (pci_box_device b (of_nat s) (of_nat f)) = PCI_TYPE_BRIDGE")
    (auto simp: pci_scan_func_def func_hits_def Let_def)

lemma pci_scan_slot_hits:
  assumes s: "s < 32"
    and scan: "\<And>f. pci_bridge io b s f \<Longrightarrow>
      \<exists>hs. scan (pci_behind io b s f) = Some hs \<and> set hs = W (pci_behind io b s f)"
  shows "\<exists>hs. pci_scan_slot scan io type b (of_nat s) = Some hs \<and> set hs = (\<Union>f\<in>{..<8}. func_hits io type W b s f)"
proof -
  let ?d = "pci_box_device b (of_nat s) 0"
  have seen0: "pci_seen io b s 0 \<longleftrightarrow> pci_reg io ?d PCI_VENDOR_ID 2 \<noteq> PCI_NONE"
    using s by (auto simp: pci_seen_def)
  have eight: "{..<8 :: nat} = insert 0 (set [1..<8])" by auto
  have func: "\<exists>hs. pci_scan_func scan io type b (of_nat s) (of_nat f) = Some hs \<and> set hs = func_hits io type W b s f"
    if "pci_seen io b s f" for f
    using pci_scan_func_hits [where scan = scan and W = W, OF that] scan by blast
  consider (none) "\<not> pci_seen io b s 0" | (one) "pci_seen io b s 0" "pci_reg io ?d PCI_HEADER_TYPE 1 = 0"
    | (many) "pci_seen io b s 0" "pci_reg io ?d PCI_HEADER_TYPE 1 \<noteq> 0" by blast
  then show ?thesis
  proof cases
    case none
    then have "\<not> pci_seen io b s f" for f by (auto simp: pci_seen_def)
    then show ?thesis using none seen0 by (simp add: pci_scan_slot_def func_hits_def Let_def)
  next
    case one
    then have "pci_seen io b s f \<longleftrightarrow> f = 0" for f by (auto simp: pci_seen_def)
    then have "func_hits io type W b s f = {}" if "f \<noteq> 0" for f using that by (simp add: func_hits_def)
    then have "(\<Union>f\<in>{..<8}. func_hits io type W b s f) = func_hits io type W b s 0" unfolding eight by simp
    then show ?thesis using one func [of 0] seen0 by (auto simp: pci_scan_slot_def Let_def)
  next
    case many
    have "\<exists>hs. (\<lambda>f. if pci_reg io (pci_box_device b (of_nat s) (of_nat f)) PCI_VENDOR_ID 2 \<noteq> PCI_NONE
        then pci_scan_func scan io type b (of_nat s) (of_nat f) else Some []) f = Some hs
        \<and> set hs = func_hits io type W b s f" if "f \<in> set [1..<8]" for f
      using func [of f] that many s seen0 by (auto simp: pci_seen_def func_hits_def)
    from scan_loop_set [of "[1..<8]" "\<lambda>f. if pci_reg io (pci_box_device b (of_nat s) (of_nat f)) PCI_VENDOR_ID 2 \<noteq> PCI_NONE
        then pci_scan_func scan io type b (of_nat s) (of_nat f) else Some []", OF this]
    obtain ys where ys: "scan_loop (\<lambda>f. if pci_reg io (pci_box_device b (of_nat s) (of_nat f)) PCI_VENDOR_ID 2 \<noteq> PCI_NONE
        then pci_scan_func scan io type b (of_nat s) (of_nat f) else Some []) [1..<8] = Some ys"
      "set ys = (\<Union>f\<in>set [1..<8]. func_hits io type W b s f)" by blast
    obtain hs where "pci_scan_func scan io type b (of_nat s) 0 = Some hs" "set hs = func_hits io type W b s 0"
      using func [OF many(1)] by auto
    with ys many seen0 show ?thesis
      unfolding eight by (simp add: pci_scan_slot_def Let_def del: upt_rec_numeral)
  qed
qed

lemma pci_below_step:
  assumes "pci_bridge io b s f" "pci_below io (pci_behind io b s f) c"
  shows "pci_below io b c"
  using assms(2) by induction (use assms(1) in \<open>blast intro: pci_below.intros\<close>)+

lemma pci_below_cases:
  "pci_below io b c \<longleftrightarrow> c = b \<or> (\<exists>s f. pci_bridge io b s f \<and> pci_below io (pci_behind io b s f) c)"
proof
  show "pci_below io b c \<Longrightarrow> c = b \<or> (\<exists>s f. pci_bridge io b s f \<and> pci_below io (pci_behind io b s f) c)"
    by (induction rule: pci_below.induct) (blast intro: pci_below.intros)+
qed (auto intro: pci_below.here pci_below_step)

lemma pci_wanted_unfold:
  "pci_wanted io type b = (\<Union>s\<in>{..<32}. \<Union>f\<in>{..<8}. func_hits io type (pci_wanted io type) b s f)"
proof (intro equalityI subsetI)
  fix h
  assume "h \<in> pci_wanted io type b"
  then obtain c s f where h: "h = pci_hit_of io (pci_box_device c (of_nat s) (of_nat f))" "pci_below io b c" "pci_seen io c s f"
    "type = - 1 \<or> type = uint (pci_type io (pci_box_device c (of_nat s) (of_nat f)))"
    by (auto simp: pci_wanted_def)
  consider "c = b" | s' f' where "pci_bridge io b s' f'" "pci_below io (pci_behind io b s' f') c"
    using h(2) pci_below_cases by blast
  then have "\<exists>s f. h \<in> func_hits io type (pci_wanted io type) b s f"
  proof cases
    case 1
    with h show ?thesis by (auto simp: func_hits_def Let_def)
  next
    case 2
    with h have "h \<in> pci_wanted io type (pci_behind io b s' f')" by (auto simp: pci_wanted_def)
    with 2 show ?thesis by (auto simp: func_hits_def Let_def)
  qed
  then show "h \<in> (\<Union>s\<in>{..<32}. \<Union>f\<in>{..<8}. func_hits io type (pci_wanted io type) b s f)"
    by (fastforce simp: func_hits_def pci_seen_def)
next
  fix h
  assume "h \<in> (\<Union>s\<in>{..<32}. \<Union>f\<in>{..<8}. func_hits io type (pci_wanted io type) b s f)"
  then obtain s f where h: "h \<in> func_hits io type (pci_wanted io type) b s f" by blast
  show "h \<in> pci_wanted io type b"
  proof (cases "pci_bridge io b s f \<and> h \<in> pci_wanted io type (pci_behind io b s f)")
    case True
    then show ?thesis using pci_below_step [of io b s f] by (fastforce simp: pci_wanted_def)
  next
    case False
    with h show ?thesis by (auto simp: func_hits_def pci_wanted_def Let_def intro: pci_below.here)
  qed
qed

text \<open>
  The scan of a bus, where every bridge leads to a bus of a higher number; there are 256 of them.
\<close>

definition pci_tree :: "pci_io \<Rightarrow> u32 \<Rightarrow> bool" where
  "pci_tree io b \<longleftrightarrow> (\<forall>c s f. pci_below io b c \<longrightarrow> pci_bridge io c s f \<longrightarrow> c < pci_behind io c s f)"

lemma pci_scan_bus_hits:
  "pci_tree io b \<Longrightarrow> unat b < 256 \<Longrightarrow> 256 - unat b \<le> n \<Longrightarrow>
   \<exists>hs. pci_scan_bus n io type b = Some hs \<and> set hs = pci_wanted io type b"
proof (induction n arbitrary: b)
  case (Suc n)
  have scan: "\<exists>hs. pci_scan_bus n io type (pci_behind io b s f) = Some hs
      \<and> set hs = pci_wanted io type (pci_behind io b s f)" if br: "pci_bridge io b s f" for s f
  proof (rule Suc.IH)
    show "pci_tree io (pci_behind io b s f)"
      using Suc.prems(1) pci_below_step [OF br] by (auto simp: pci_tree_def)
    have "b < pci_behind io b s f"
      using Suc.prems(1) br pci_below.here unfolding pci_tree_def by blast
    then show "256 - unat (pci_behind io b s f) \<le> n"
      using Suc.prems(2,3) by (simp add: word_less_nat_alt)
  qed (rule pci_reg_byte)
  have "\<exists>hs. (\<lambda>i. pci_scan_slot (pci_scan_bus n io type) io type b (of_nat i)) s = Some hs
      \<and> set hs = (\<Union>f\<in>{..<8}. func_hits io type (pci_wanted io type) b s f)" if "s \<in> set [0..<32]" for s
    using pci_scan_slot_hits [where scan = "pci_scan_bus n io type" and W = "pci_wanted io type"] scan that by simp
  from scan_loop_set [of "[0..<32]" "\<lambda>i. pci_scan_slot (pci_scan_bus n io type) io type b (of_nat i)", OF this]
  show ?case by (subst pci_wanted_unfold) (simp add: atLeast0LessThan del: upt_rec_numeral)
qed simp

abbreviation pci_host :: "pci_io \<Rightarrow> nat \<Rightarrow> bool" where
  "pci_host io i \<equiv> pci_reg io (pci_box_device 0 0 (of_nat i)) PCI_VENDOR_ID 2 \<noteq> PCI_NONE"

lemma pci_scan_hosts_hits:
  assumes "\<And>i. i \<in> set (takeWhile (pci_host io) is) \<Longrightarrow> \<exists>hs. scan (of_nat i) = Some hs \<and> set hs = W (of_nat i)"
  shows "\<exists>hs. pci_scan_hosts scan io is = Some hs \<and> set hs = (\<Union>i\<in>set (takeWhile (pci_host io) is). W (of_nat i))"
  using assms
proof (induction "is")
  case (Cons i "is")
  show ?case
  proof (cases "pci_host io i")
    case True
    obtain hs where "scan (of_nat i) = Some hs" "set hs = W (of_nat i)" using Cons.prems [of i] True by auto
    with True Cons.IH Cons.prems show ?thesis by auto
  qed simp
qed simp

lemma takeWhile_upt:
  "set (takeWhile P [m..<n]) = {i. m \<le> i \<and> i < n \<and> (\<forall>j\<in>{m..i}. P j)}"
proof (induction "n - m" arbitrary: m)
  case (Suc k)
  then have mn: "m < n" by simp
  have "{i. m \<le> i \<and> i < n \<and> (\<forall>j\<in>{m..i}. P j)}
      = (if P m then insert m {i. Suc m \<le> i \<and> i < n \<and> (\<forall>j\<in>{Suc m..i}. P j)} else {})"
    using mn by (auto simp: Suc_le_eq le_less)
  with Suc(1) [of "Suc m"] Suc(2) mn show ?case by (auto simp: upt_conv_Cons)
qed auto


text \<open>The address of a register: the device selects the upper three bytes, the field the lowest.\<close>

definition pci_header :: "pcidev_t \<Rightarrow> u32" where
  "pci_header d = pci_get_addr d 0"

lemma pci_get_addr_split: "pci_get_addr d field = pci_header d OR (field AND 0xFC)"
  by (simp add: pci_header_def pci_get_addr_def or.assoc)

lemma pci_header_low: "pci_header d AND 0xFF = 0"
proof -
  have "pci_header d AND 0xFF = take_bit 8 (pci_header d)" by (simp add: take_bit_eq_mask mask_eq_exp_minus_1)
  also have "\<dots> = 0" by (simp add: pci_header_def pci_get_addr_def take_bit_push_bit)
  finally show ?thesis .
qed

text \<open>
  A machine with a host bridge, a disk controller, a network card with two functions and a bridge
  on bus 0, and a second disk controller on bus 1. The ports answer from a table of configuration
  bytes; \<open>k\<close> is the programming interface of the bridge.
\<close>

definition demo_config :: "byte \<Rightarrow> u32 \<Rightarrow> (u32 \<times> byte) list" where
  "demo_config k h =
     (if h = 0x80000000 then [(0, 0x86), (1, 0x80), (2, 0x37), (3, 0x12), (0xB, 6), (0xA, 0), (0xE, 0)]
      else if h = 0x80000800 then [(0, 0x86), (1, 0x80), (2, 0x22), (3, 0x29), (0xB, 1), (0xA, 6), (0xE, 0)]
      else if h = 0x80001000 then [(0, 0x86), (1, 0x80), (2, 0x0E), (3, 0x10), (0xB, 2), (0xA, 0), (0xE, 0x80)]
      else if h = 0x80001100 then [(0, 0x86), (1, 0x80), (2, 0x0F), (3, 0x10), (0xB, 2), (0xA, 0), (0xE, 0x80)]
      else if h = 0x8000F000 then [(0, 0x86), (1, 0x80), (2, 0x4E), (3, 0x24), (0xB, 6), (0xA, 4), (9, k), (0xE, 1)]
      else if h = 0x80010000 then [(0, 0x22), (1, 0x1B), (2, 0x92), (3, 0x91), (0xB, 1), (0xA, 6), (0xE, 0)]
      else [])"

definition demo_byte :: "byte \<Rightarrow> u32 \<Rightarrow> u32 \<Rightarrow> byte" where
  "demo_byte k h field = (case map_of (demo_config k h) field of None \<Rightarrow> 0xFF | Some b \<Rightarrow> b)"

definition demo_ports :: "byte \<Rightarrow> pci_io" where
  "demo_ports k a p n =
     (let h = a AND 0xFFFFFF00; field = (a AND 0xFF) + ucast (p - PCI_VALUE_PORT)
      in ucast (demo_byte k h field) OR (if n = 1 then 0 else push_bit 8 (ucast (demo_byte k h (field + 1)))))"

lemma pci_header_high: "pci_header d AND 0xFFFFFF00 = pci_header d"
proof -
  have "pci_header d = pci_header d AND - 1" by simp
  also have "(- 1 :: u32) = 0xFFFFFF00 OR 0xFF" by simp
  finally show ?thesis by (simp only: bit.conj_disj_distrib pci_header_low or.right_neutral)
qed

lemma ucast_byte_u32: "ucast (ucast (ucast (b :: byte) :: u32) :: byte) = (ucast b :: u32)"
  by (rule bit_word_eqI) (auto simp: bit_simps dest: bit_imp_le_length)

lemma ucast_bytes_u32:
  "ucast (ucast (ucast (b :: byte) OR push_bit 8 (ucast (c :: byte)) :: u32) :: u16) = (ucast b OR push_bit 8 (ucast c) :: u32)"
  by (rule bit_word_eqI) (auto simp: bit_simps dest: bit_imp_le_length)

lemma demo_reg:
  "pci_reg (demo_ports k) d PCI_CLASS 1 = ucast (demo_byte k (pci_header d) PCI_CLASS)"
  "pci_reg (demo_ports k) d PCI_SUBCLASS 1 = ucast (demo_byte k (pci_header d) PCI_SUBCLASS)"
  "pci_reg (demo_ports k) d PCI_PROG_IF 1 = ucast (demo_byte k (pci_header d) PCI_PROG_IF)"
  "pci_reg (demo_ports k) d PCI_HEADER_TYPE 1 = ucast (demo_byte k (pci_header d) PCI_HEADER_TYPE)"
  "pci_reg (demo_ports k) d PCI_VENDOR_ID 2
     = ucast (demo_byte k (pci_header d) 0) OR push_bit 8 (ucast (demo_byte k (pci_header d) 1))"
  "pci_reg (demo_ports k) d PCI_DEVICE_ID 2
     = ucast (demo_byte k (pci_header d) 2) OR push_bit 8 (ucast (demo_byte k (pci_header d) 3))"
  by (simp_all add: pci_reg_def pci_read_def demo_ports_def Let_def pci_get_addr_split bit.conj_disj_distrib2
      pci_header_high pci_header_low ucast_byte_u32 ucast_bytes_u32 PCI_CLASS_def PCI_SUBCLASS_def PCI_PROG_IF_def PCI_HEADER_TYPE_def
      PCI_VENDOR_ID_def PCI_DEVICE_ID_def)

lemma demo_classes:
  "(ucast (push_bit 8 (ucast (demo_byte k h 0xB)) OR ucast (demo_byte k h 0xA) :: u32) :: u16)
     = (if h = 0x80000000 then 0x0600 else if h = 0x80000800 then 0x0106
        else if h = 0x80001000 \<or> h = 0x80001100 then 0x0200
        else if h = 0x8000F000 then 0x0604 else if h = 0x80010000 then 0x0106 else 0xFFFF)"
  by (cases "h = 0x80000000"; cases "h = 0x80000800"; cases "h = 0x80001000"; cases "h = 0x80001100";
      cases "h = 0x8000F000"; cases "h = 0x80010000"; simp add: demo_byte_def demo_config_def)

lemma demo_type: "pci_type (demo_ports k) d
     = ucast (push_bit 8 (ucast (demo_byte k (pci_header d) 0xB)) OR ucast (demo_byte k (pci_header d) 0xA) :: u32)"
  by (simp only: pci_type_def pci_find_type_def pci_read_reg demo_reg bind.bind_lunit option.sel)
    (simp only: PCI_CLASS_def PCI_SUBCLASS_def)

lemma demo_bridge:
  "pci_bridge (demo_ports k) b s f \<Longrightarrow> pci_header (pci_box_device b (of_nat s) (of_nat f)) = 0x8000F000"
  by (simp add: demo_type demo_classes PCI_TYPE_BRIDGE_def split: if_splits)

lemma demo_behind: "pci_bridge (demo_ports k) b s f \<Longrightarrow> pci_behind (demo_ports k) b s f = ucast k"
  using demo_bridge [of k b s f]
  by (simp add: PCI_SECONDARY_BUS_def demo_reg [unfolded PCI_PROG_IF_def] demo_byte_def demo_config_def)

lemma demo_bus1: "\<not> pci_bridge (demo_ports k) 1 s f"
proof
  assume "pci_bridge (demo_ports k) 1 s f"
  then have "\<not> bit (pci_header (pci_box_device 1 (of_nat s) (of_nat f))) 16"
    by (simp add: demo_bridge)
  then show False
    by (simp add: pci_header_def pci_get_addr_def pci_extract_bus_def pci_box_device_def bit_simps)
qed

lemma demo_tree: "pci_tree (demo_ports 1) 0"
proof -
  have "c = 0 \<or> c = 1" if "pci_below (demo_ports 1) 0 c" for c
    using that
  proof induction
    case (bridge c s f)
    then show ?case using demo_behind [of 1 c s f] by simp
  qed simp
  then show ?thesis using demo_bus1 demo_behind [of 1 0] unfolding pci_tree_def by fastforce
qed

lemma demo_hits:
  "(0x000100, 0x8086, 0x2922) \<in> pci_wanted (demo_ports 1) 0x0106 0"
  "(0x010000, 0x1B22, 0x9192) \<in> pci_wanted (demo_ports 1) 0x0106 0"
proof -
  note defs = pci_seen_def demo_reg demo_byte_def demo_config_def PCI_NONE_def PCI_HEADER_TYPE_def pci_header_def
    pci_get_addr_def pci_extract_bus_def pci_extract_slot_def pci_extract_func_def pci_box_device_def demo_type
    PCI_TYPE_BRIDGE_def
  have seen: "pci_seen (demo_ports 1) 0 1 0" "pci_bridge (demo_ports 1) 0 30 0" "pci_seen (demo_ports 1) 1 0 0"
    by (simp_all add: defs)
  then have b1: "pci_below (demo_ports 1) 0 1"
    using pci_below.bridge [OF pci_below.here seen(2)] demo_behind [OF seen(2)] by simp
  have "(0x000100, 0x8086, 0x2922) = pci_hit_of (demo_ports 1) (pci_box_device 0 (of_nat 1) (of_nat 0))"
    "(0x010000, 0x1B22, 0x9192) = pci_hit_of (demo_ports 1) (pci_box_device 1 (of_nat 0) (of_nat 0))"
    by (simp_all add: pci_hit_of_def defs)
  moreover have "uint (pci_type (demo_ports 1) (pci_box_device 0 (of_nat 1) (of_nat 0))) = 0x0106"
    "uint (pci_type (demo_ports 1) (pci_box_device 1 (of_nat 0) (of_nat 0))) = 0x0106"
    by (simp_all add: defs)
  ultimately show "(0x000100, 0x8086, 0x2922) \<in> pci_wanted (demo_ports 1) 0x0106 0"
    "(0x010000, 0x1B22, 0x9192) \<in> pci_wanted (demo_ports 1) 0x0106 0"
    unfolding pci_wanted_def mem_Collect_eq using seen(1,3) b1 pci_below.here [of "demo_ports 1" 0] by metis+
qed


section \<open>Ordinary bridges\<close>

text \<open>
  The number of the bus behind a bridge is in the register 0x19 of its configuration header.
  \<^verbatim>\<open>PCI_SECONDARY_BUS\<close> is 0x09, the programming interface, which is 0 for an ordinary bridge.
\<close>

lemma pci_scan_func_None:
  "pci_type io (pci_box_device b s f) = PCI_TYPE_BRIDGE \<Longrightarrow>
   scan (pci_reg io (pci_box_device b s f) PCI_SECONDARY_BUS 1) = None \<Longrightarrow> pci_scan_func scan io type b s f = None"
  by (simp add: pci_scan_func_def Let_def)

lemma pci_scan_slot_None:
  assumes seen: "pci_seen io b s f" and func: "pci_scan_func scan io type b (of_nat s) (of_nat f) = None"
  shows "pci_scan_slot scan io type b (of_nat s) = None"
proof (cases "f = 0")
  case True
  with seen func show ?thesis by (simp add: pci_scan_slot_def pci_seen_def Let_def)
next
  case False
  with seen have "f \<in> set [1..<8]" by (auto simp: pci_seen_def)
  with False seen func show ?thesis
    by (cases "pci_scan_func scan io type b (of_nat s) 0")
      (simp_all add: pci_scan_slot_def pci_seen_def Let_def scan_loop_None [of f] del: upt_rec_numeral)
qed

lemma pci_scan_bus_loops:
  assumes "pci_bridge io b s f" "pci_behind io b s f = b"
  shows "pci_scan_bus n io type b = None"
proof (induction n)
  case (Suc n)
  with assms have "pci_scan_slot (pci_scan_bus n io type) io type b (of_nat s) = None"
    by (intro pci_scan_slot_None [of io b s f]) (auto intro: pci_scan_func_None)
  moreover have "s \<in> set [0..<32]" using assms(1) by (simp add: pci_seen_def)
  ultimately show ?case by (simp add: scan_loop_None [of s] del: upt_rec_numeral)
qed simp

text \<open>C35. On a machine with an ordinary PCI-to-PCI bridge on bus 0 (programming interface 0) no scan
  comes back: the scan takes the programming interface for the number of the bus behind the bridge
  and scans bus 0 again, without end.
\<close>

theorem pci_scan_bridge_stuck:
  assumes "pci_bridge io 0 s f" "pci_reg io (pci_box_device 0 (of_nat s) (of_nat f)) PCI_PROG_IF 1 = 0"
  shows "pci_scan n io type = None"
  using pci_scan_bus_loops [of io 0 s f n type] assms
  by (simp add: pci_scan_def PCI_SECONDARY_BUS_def PCI_PROG_IF_def)

theorem pci_scan_bridge_stuck_witness: "pci_scan 100 (demo_ports 0) (- 1) = None"
proof -
  have "pci_bridge (demo_ports 0) 0 30 0"
    by (simp add: pci_seen_def demo_reg demo_byte_def demo_config_def PCI_NONE_def pci_header_def
        pci_get_addr_def pci_extract_bus_def pci_extract_slot_def pci_extract_func_def pci_box_device_def demo_type
        PCI_TYPE_BRIDGE_def)
  moreover from this have "pci_reg (demo_ports 0) (pci_box_device 0 (of_nat 30) (of_nat 0)) PCI_PROG_IF 1 = 0"
    using demo_behind [of 0 0 30 0] by (simp only: PCI_SECONDARY_BUS_def PCI_PROG_IF_def unsigned_0)
  ultimately show ?thesis by (rule pci_scan_bridge_stuck)
qed

end
