(* ===== verification/Inet_Chksum.thy ===== *)
theory Inet_Chksum
  imports Kprelude
begin

text \<open>
  The Internet checksum of the network stack, \<^verbatim>\<open>os/kernel/network/core/inet_chksum.c\<close>, in the configuration
  of \<^verbatim>\<open>os/include/arch/cc.h\<close> (algorithm 2, little endian, IPv4 and IPv6), with the byte order functions of
  \<^verbatim>\<open>core/def.c\<close>. The packets are in a memory of bytes; a chain of \<^verbatim>\<open>struct pbuf\<close> is the list of its elements.
  The reference is the sum of the 16-bit words in ones' complement arithmetic.
\<close>

section \<open>Model\<close>

type_synonym bmem = "u32 \<Rightarrow> byte"

definition FOLD_U32T :: "u32 \<Rightarrow> u32" where
  "FOLD_U32T u = drop_bit 16 u + (u AND 0xFFFF)"

definition SWAP_BYTES_IN_WORD :: "u32 \<Rightarrow> u32" where
  "SWAP_BYTES_IN_WORD w = push_bit 8 (w AND 0xFF) OR drop_bit 8 (w AND 0xFF00)"

definition lwip_htons :: "u16 \<Rightarrow> u16" where
  "lwip_htons x = push_bit 8 (x AND 0x00FF) OR drop_bit 8 (x AND 0xFF00)"

definition lwip_htonl :: "u32 \<Rightarrow> u32" where
  "lwip_htonl x = push_bit 24 (x AND 0x000000FF) OR push_bit 8 (x AND 0x0000FF00)
     OR drop_bit 8 (x AND 0x00FF0000) OR drop_bit 24 (x AND 0xFF000000)"

text \<open>Reading a 16-bit word, and writing one byte of the variable \<^verbatim>\<open>t\<close>.\<close>

definition load16 :: "bmem \<Rightarrow> u32 \<Rightarrow> u16" where
  "load16 mem p = ucast (mem p) OR push_bit 8 (ucast (mem (p + 1)))"

definition set_byte0 :: "byte \<Rightarrow> u16 \<Rightarrow> u16" where
  "set_byte0 b t = (t AND 0xFF00) OR ucast b"

definition set_byte1 :: "byte \<Rightarrow> u16 \<Rightarrow> u16" where
  "set_byte1 b t = (t AND 0x00FF) OR push_bit 8 (ucast b)"

function chksum_loop :: "bmem \<Rightarrow> u32 \<Rightarrow> int \<Rightarrow> u32 \<Rightarrow> u32 \<times> int \<times> u32" where
  "chksum_loop mem ps len s =
     (if len > 1 then chksum_loop mem (ps + 2) (len - 2) (s + ucast (load16 mem ps)) else (ps, len, s))"
  by pat_completeness auto
termination by (relation "measure (\<lambda>(_, _, len, _). nat len)") auto

declare chksum_loop.simps [simp del]

definition lwip_standard_chksum :: "bmem \<Rightarrow> u32 \<Rightarrow> int \<Rightarrow> u16" where
  "lwip_standard_chksum mem dataptr len =
     (let pb = dataptr;
          odd = (pb AND 1 \<noteq> 0);
          (t, pb, len) = (if odd \<and> len > 0 then (set_byte1 (mem pb) 0, pb + 1, len - 1) else (0, pb, len));
          (ps, len, s) = chksum_loop mem pb len 0;
          t = (if len > 0 then set_byte0 (mem ps) t else t);
          s = s + ucast t;
          s = FOLD_U32T s;
          s = FOLD_U32T s;
          s = (if odd then SWAP_BYTES_IN_WORD s else s)
      in ucast s)"

text \<open>The elements of a chain, with the fields that are read.\<close>

record pbuf =
  p_payload :: u32
  p_len :: u16

text \<open>The loop over a chain that the functions below share: the sum and whether its bytes are swapped.\<close>

fun pbuf_sum :: "bmem \<Rightarrow> pbuf list \<Rightarrow> u32 \<Rightarrow> bool \<Rightarrow> u32 \<times> bool" where
  "pbuf_sum mem [] acc swapped = (acc, swapped)"
| "pbuf_sum mem (q # qs) acc swapped =
     (let acc = acc + ucast (lwip_standard_chksum mem (p_payload q) (uint (p_len q)));
          acc = FOLD_U32T acc;
          (swapped, acc) = (if p_len q mod 2 \<noteq> 0 then (\<not> swapped, SWAP_BYTES_IN_WORD acc) else (swapped, acc))
      in pbuf_sum mem qs acc swapped)"

text \<open>The end of the functions with a pseudo header.\<close>

definition pseudo_end :: "byte \<Rightarrow> u16 \<Rightarrow> u32 \<times> bool \<Rightarrow> u16" where
  "pseudo_end proto proto_len r =
     (let (acc, swapped) = r;
          acc = (if swapped then SWAP_BYTES_IN_WORD acc else acc);
          acc = acc + ucast (lwip_htons (ucast proto));
          acc = acc + ucast (lwip_htons proto_len);
          acc = FOLD_U32T acc;
          acc = FOLD_U32T acc
      in ucast (NOT (acc AND 0xFFFF)))"

definition inet_cksum_pseudo_base :: "bmem \<Rightarrow> pbuf list \<Rightarrow> byte \<Rightarrow> u16 \<Rightarrow> u32 \<Rightarrow> u16" where
  "inet_cksum_pseudo_base mem p proto proto_len acc = pseudo_end proto proto_len (pbuf_sum mem p acc False)"

definition inet_chksum_pseudo :: "bmem \<Rightarrow> pbuf list \<Rightarrow> byte \<Rightarrow> u16 \<Rightarrow> u32 \<Rightarrow> u32 \<Rightarrow> u16" where
  "inet_chksum_pseudo mem p proto proto_len src dest =
     (let addr = src;
          acc = addr AND 0xFFFF;
          acc = acc + (drop_bit 16 addr AND 0xFFFF);
          addr = dest;
          acc = acc + (addr AND 0xFFFF);
          acc = acc + (drop_bit 16 addr AND 0xFFFF);
          acc = FOLD_U32T acc;
          acc = FOLD_U32T acc
      in inet_cksum_pseudo_base mem p proto proto_len acc)"

text \<open>The loop over the four words of two IPv6 addresses.\<close>

fun ip6_sum :: "(u32 \<times> u32) list \<Rightarrow> u32 \<Rightarrow> u32" where
  "ip6_sum [] acc = acc"
| "ip6_sum ((s, d) # ws) acc =
     (let addr = s;
          acc = acc + (addr AND 0xFFFF);
          acc = acc + (drop_bit 16 addr AND 0xFFFF);
          addr = d;
          acc = acc + (addr AND 0xFFFF);
          acc = acc + (drop_bit 16 addr AND 0xFFFF)
      in ip6_sum ws acc)"

type_synonym ip6_addr = "u32 \<times> u32 \<times> u32 \<times> u32"

definition ip6_words :: "ip6_addr \<Rightarrow> u32 list" where
  "ip6_words a = (case a of (w, x, y, z) \<Rightarrow> [w, x, y, z])"

definition ip6_chksum_pseudo :: "bmem \<Rightarrow> pbuf list \<Rightarrow> byte \<Rightarrow> u16 \<Rightarrow> ip6_addr \<Rightarrow> ip6_addr \<Rightarrow> u16" where
  "ip6_chksum_pseudo mem p proto proto_len src dest =
     (let acc = ip6_sum (zip (ip6_words src) (ip6_words dest)) 0;
          acc = FOLD_U32T acc;
          acc = FOLD_U32T acc
      in inet_cksum_pseudo_base mem p proto proto_len acc)"

text \<open>An address of either kind; \<^verbatim>\<open>ip_2_ip4\<close> and \<^verbatim>\<open>ip_2_ip6\<close> read the member of the union.\<close>

datatype ip_addr = IP4 u32 | IP6 ip6_addr

definition ip_chksum_pseudo :: "bmem \<Rightarrow> pbuf list \<Rightarrow> byte \<Rightarrow> u16 \<Rightarrow> ip_addr \<Rightarrow> ip_addr \<Rightarrow> u16 option" where
  "ip_chksum_pseudo mem p proto proto_len src dest =
     (case (src, dest) of
        (IP6 s, IP6 d) \<Rightarrow> Some (ip6_chksum_pseudo mem p proto proto_len s d)
      | (IP4 s, IP4 d) \<Rightarrow> Some (inet_chksum_pseudo mem p proto proto_len s d)
      | _ \<Rightarrow> None)"

text \<open>The loop over the part of a chain that a limit covers; the assertion on the rest is in the code.\<close>

fun pbuf_sum_partial :: "bmem \<Rightarrow> pbuf list \<Rightarrow> u16 \<Rightarrow> u32 \<Rightarrow> bool \<Rightarrow> (u32 \<times> bool) option" where
  "pbuf_sum_partial mem [] chksum_len acc swapped = Some (acc, swapped)"
| "pbuf_sum_partial mem (q # qs) chksum_len acc swapped =
     (if chksum_len > 0 then
        do {
          let chklen = p_len q;
          let chklen = (if chklen > chksum_len then chksum_len else chklen);
          let acc = acc + ucast (lwip_standard_chksum mem (p_payload q) (uint chklen));
          let chksum_len = chksum_len - chklen;
          kassert (chksum_len < 0x7FFF);
          let acc = FOLD_U32T acc;
          let (swapped, acc) = (if p_len q mod 2 \<noteq> 0 then (\<not> swapped, SWAP_BYTES_IN_WORD acc) else (swapped, acc));
          pbuf_sum_partial mem qs chksum_len acc swapped
        }
      else Some (acc, swapped))"

definition inet_cksum_pseudo_partial_base ::
  "bmem \<Rightarrow> pbuf list \<Rightarrow> byte \<Rightarrow> u16 \<Rightarrow> u16 \<Rightarrow> u32 \<Rightarrow> u16 option" where
  "inet_cksum_pseudo_partial_base mem p proto proto_len chksum_len acc =
     map_option (pseudo_end proto proto_len) (pbuf_sum_partial mem p chksum_len acc False)"

definition inet_chksum_pseudo_partial ::
  "bmem \<Rightarrow> pbuf list \<Rightarrow> byte \<Rightarrow> u16 \<Rightarrow> u16 \<Rightarrow> u32 \<Rightarrow> u32 \<Rightarrow> u16 option" where
  "inet_chksum_pseudo_partial mem p proto proto_len chksum_len src dest =
     (let addr = src;
          acc = addr AND 0xFFFF;
          acc = acc + (drop_bit 16 addr AND 0xFFFF);
          addr = dest;
          acc = acc + (addr AND 0xFFFF);
          acc = acc + (drop_bit 16 addr AND 0xFFFF);
          acc = FOLD_U32T acc;
          acc = FOLD_U32T acc
      in inet_cksum_pseudo_partial_base mem p proto proto_len chksum_len acc)"

definition ip6_chksum_pseudo_partial ::
  "bmem \<Rightarrow> pbuf list \<Rightarrow> byte \<Rightarrow> u16 \<Rightarrow> u16 \<Rightarrow> ip6_addr \<Rightarrow> ip6_addr \<Rightarrow> u16 option" where
  "ip6_chksum_pseudo_partial mem p proto proto_len chksum_len src dest =
     (let acc = ip6_sum (zip (ip6_words src) (ip6_words dest)) 0;
          acc = FOLD_U32T acc;
          acc = FOLD_U32T acc
      in inet_cksum_pseudo_partial_base mem p proto proto_len chksum_len acc)"

definition ip_chksum_pseudo_partial ::
  "bmem \<Rightarrow> pbuf list \<Rightarrow> byte \<Rightarrow> u16 \<Rightarrow> u16 \<Rightarrow> ip_addr \<Rightarrow> ip_addr \<Rightarrow> u16 option" where
  "ip_chksum_pseudo_partial mem p proto proto_len chksum_len src dest =
     (case (src, dest) of
        (IP6 s, IP6 d) \<Rightarrow> ip6_chksum_pseudo_partial mem p proto proto_len chksum_len s d
      | (IP4 s, IP4 d) \<Rightarrow> inet_chksum_pseudo_partial mem p proto proto_len chksum_len s d
      | _ \<Rightarrow> None)"

definition inet_chksum :: "bmem \<Rightarrow> u32 \<Rightarrow> u16 \<Rightarrow> u16" where
  "inet_chksum mem dataptr len = NOT (lwip_standard_chksum mem dataptr (uint len))"

definition inet_chksum_pbuf :: "bmem \<Rightarrow> pbuf list \<Rightarrow> u16" where
  "inet_chksum_pbuf mem p =
     (let (acc, swapped) = pbuf_sum mem p 0 False;
          acc = (if swapped then SWAP_BYTES_IN_WORD acc else acc)
      in ucast (NOT (acc AND 0xFFFF)))"

section \<open>Ones' complement sums\<close>

text \<open>
  The sum of the 16-bit words of a sequence of bytes, the first byte of each word being the low one;
  \<open>o\<close> tells that the sequence starts in the middle of a word. A sum is reduced by adding the carries.
\<close>

fun wsum :: "bool \<Rightarrow> byte list \<Rightarrow> nat" where
  "wsum o1 [] = 0"
| "wsum o1 (b # bs) = (if o1 then 256 else 1) * unat b + wsum (\<not> o1) bs"

definition oc :: "nat \<Rightarrow> nat" where
  "oc n = (if n = 0 then 0 else (n - 1) mod 65535 + 1)"

definition mem_bytes :: "bmem \<Rightarrow> u32 \<Rightarrow> nat \<Rightarrow> byte list" where
  "mem_bytes mem p n = map (\<lambda>i. mem (p + of_nat i)) [0..<n]"

text \<open>Two numbers stand for the same ones' complement value.\<close>

definition oceq :: "nat \<Rightarrow> nat \<Rightarrow> bool" where
  "oceq m n \<longleftrightarrow> m mod 65535 = n mod 65535 \<and> (m = 0 \<longleftrightarrow> n = 0)"

lemma oceq_refl [simp]: "oceq n n"
  by (simp add: oceq_def)

lemma oceq_sym: "oceq m n \<Longrightarrow> oceq n m"
  by (auto simp: oceq_def)

lemma oceq_trans [trans]: "oceq m n \<Longrightarrow> oceq n k \<Longrightarrow> oceq m k"
  by (auto simp: oceq_def)

lemma oceq_add: "oceq m n \<Longrightarrow> oceq k l \<Longrightarrow> oceq (m + k) (n + l)"
  by (auto simp: oceq_def intro: mod_add_cong)

lemma oceq_mult: "0 < k \<Longrightarrow> oceq m n \<Longrightarrow> oceq (k * m) (k * n)"
  by (auto simp: oceq_def intro: mod_mult_cong)

lemma oc_oceq: "oceq (oc n) n"
  by (cases n) (auto simp: oceq_def oc_def mod_Suc)

lemma oc_le: "oc n \<le> 65535"
proof -
  have "(n - 1) mod 65535 < 65535" by simp
  then have "(n - 1) mod 65535 + 1 \<le> 65535" by linarith
  then show ?thesis unfolding oc_def by (cases "n = 0") (simp_all only: simp_thms if_True if_False zero_le)
qed

lemma oceq_unique: "oceq r n \<Longrightarrow> r \<le> 65535 \<Longrightarrow> r = oc n"
proof -
  assume r: "oceq r n" "r \<le> 65535"
  have "oceq r (oc n)" using oceq_trans [OF r(1) oceq_sym [OF oc_oceq]] .
  with r(2) oc_le [of n] show "r = oc n"
    by (cases "r = 65535"; cases "oc n = 65535") (auto simp: oceq_def mod_if split: if_splits)
qed

lemma oceq_65536: "oceq (65536 * n) n"
proof -
  have "65536 * n = n + n * 65535" by simp
  then have "65536 * n mod 65535 = n mod 65535" by (simp only: mod_mult_self1)
  then show ?thesis by (auto simp: oceq_def)
qed

lemma wsum_flip: "oceq (256 * wsum o1 bs) (wsum (\<not> o1) bs)"
proof (induction bs arbitrary: o1)
  case (Cons b bs)
  have "oceq (256 * ((if o1 then 256 else 1) * unat b)) ((if \<not> o1 then 256 else 1) * unat b)"
    using oceq_65536 [of "unat b"] by simp
  from oceq_add [OF this Cons.IH [of "\<not> o1"]] show ?case by (simp add: distrib_left)
qed simp

lemma wsum_append: "wsum o1 (xs @ ys) = wsum o1 xs + wsum (o1 \<noteq> odd (length xs)) ys"
proof (induction xs arbitrary: o1)
  case (Cons x xs)
  have "((\<not> o1) \<noteq> odd (length xs)) = (o1 \<noteq> odd (length (x # xs)))" by (cases o1) simp_all
  with Cons.IH [of "\<not> o1"] show ?case by simp
qed simp

lemma mem_bytes_Suc: "mem_bytes mem p (Suc n) = mem p # mem_bytes mem (p + 1) n"
proof -
  have "[0..<Suc n] = 0 # map Suc [0..<n]" by (simp only: map_Suc_upt upt_conv_Cons zero_less_Suc)
  then show ?thesis by (simp add: mem_bytes_def comp_def ac_simps del: upt_Suc)
qed

lemma length_mem_bytes [simp]: "length (mem_bytes mem p n) = n"
  by (simp add: mem_bytes_def)

lemma mem_bytes_0 [simp]: "mem_bytes mem p 0 = []"
  by (simp add: mem_bytes_def)

section \<open>The word operations as arithmetic\<close>

lemma unat_and_mask16: "unat (u AND 0xFFFF :: u32) = unat u mod 65536"
proof -
  have "u AND 0xFFFF = take_bit 16 u" by (simp add: take_bit_eq_mask mask_eq_exp_minus_1)
  then show ?thesis by (simp add: take_bit_eq_mod unat_mod_word)
qed

lemma unat_and_mask8: "unat (u AND 0xFF :: u32) = unat u mod 256"
proof -
  have "u AND 0xFF = take_bit 8 u" by (simp add: take_bit_eq_mask mask_eq_exp_minus_1)
  then show ?thesis by (simp add: take_bit_eq_mod unat_mod_word)
qed

lemma unat_shift16: "unat (drop_bit 16 u :: u32) = unat u div 65536"
  by (simp add: drop_bit_eq_div unat_div_distrib)

lemma unat_FOLD: "unat (FOLD_U32T u) = unat u div 65536 + unat u mod 65536"
proof -
  have "unat u div 65536 < 65536" using unat_u32_less [of u] by simp
  then show ?thesis by (simp add: FOLD_U32T_def unat_shift16 unat_and_mask16 unat_add_small)
qed

lemma FOLD_oceq: "oceq (unat (FOLD_U32T u)) (unat u)"
proof -
  have "oceq (unat u div 65536 + unat u mod 65536) (65536 * (unat u div 65536) + unat u mod 65536)"
    by (rule oceq_add [OF oceq_sym [OF oceq_65536] oceq_refl])
  then show ?thesis by (simp add: unat_FOLD)
qed

lemma FOLD_le: "unat u \<le> 0x1FFFE \<Longrightarrow> unat (FOLD_U32T u) \<le> 65535"
  unfolding unat_FOLD by (cases "unat u < 65536") (auto simp: div_if mod_if)

lemma FOLD_FOLD_le: "unat (FOLD_U32T (FOLD_U32T u)) \<le> 65535"
proof (rule FOLD_le)
  have "unat u div 65536 < 65536" using unat_u32_less [of u] by simp
  then show "unat (FOLD_U32T u) \<le> 0x1FFFE" using mod_less_divisor [of 65536 "unat u"] unfolding unat_FOLD by linarith
qed

lemma bit_take_bit_less: "bit (take_bit k (w :: u32)) n \<Longrightarrow> n < k"
  by (simp add: bit_take_bit_iff)

text \<open>Two halves that do not overlap: the disjunction is the sum.\<close>

lemma or_halves: "(push_bit k x OR take_bit k y :: u32) = push_bit k x + take_bit k y"
  by (rule disjunctive_add [symmetric]) (auto simp: bit_push_bit_iff bit_take_bit_iff)

lemma SWAP_unat:
  assumes "unat w \<le> 65535"
  shows "unat (SWAP_BYTES_IN_WORD w) = 256 * (unat w mod 256) + unat w div 256"
proof -
  have hi: "drop_bit 8 (w AND 0xFF00) = take_bit 8 (drop_bit 8 w)"
    by (simp add: drop_bit_and take_bit_eq_mask mask_eq_exp_minus_1)
  have u_hi: "unat (take_bit 8 (drop_bit 8 w)) = unat w div 256"
    using assms by (simp add: take_bit_eq_mod drop_bit_eq_div unat_mod_word unat_div_distrib)
  have u_lo: "unat (push_bit 8 (w AND 0xFF)) = 256 * (unat w mod 256)"
    by (simp add: push_bit_eq_mult unat_word_ariths unat_and_mask8)
  show ?thesis
    unfolding SWAP_BYTES_IN_WORD_def hi or_halves using assms u_hi u_lo
    by (subst unat_add_small) simp_all
qed

lemma SWAP_oceq: "unat w \<le> 65535 \<Longrightarrow> oceq (unat (SWAP_BYTES_IN_WORD w)) (256 * unat w)"
proof -
  assume w: "unat w \<le> 65535"
  have "oceq (256 * (unat w mod 256) + unat w div 256) (256 * (unat w mod 256) + 65536 * (unat w div 256))"
    by (rule oceq_add [OF oceq_refl oceq_sym [OF oceq_65536]])
  also have "256 * (unat w mod 256) + 65536 * (unat w div 256) = 256 * (unat w mod 256 + 256 * (unat w div 256))"
    unfolding distrib_left mult.assoc [symmetric] by simp
  also have "unat w mod 256 + 256 * (unat w div 256) = unat w" by (rule mod_mult_div_eq)
  finally show ?thesis using w by (simp add: SWAP_unat)
qed

lemma SWAP_le: "unat w \<le> 65535 \<Longrightarrow> unat (SWAP_BYTES_IN_WORD w) \<le> 65535"
  using mod_less_divisor [of 256 "unat w"] div_le_mono [of "unat w" 65535 256] by (simp add: SWAP_unat)

lemma unat_byte: "unat (b :: byte) < 256"
  using unsigned_less [of b, where ?'a = nat] by simp

lemma unat_ucast_byte16: "unat (ucast (b :: byte) :: u16) = unat b"
  using unat_byte [of b] by (simp add: unsigned_ucast_eq take_bit_nat_eq_self)

lemma unat_word_of_bytes: "unat (ucast (a :: byte) OR push_bit 8 (ucast (b :: byte)) :: u16) = unat a + 256 * unat b"
proof -
  have "(ucast a OR push_bit 8 (ucast b) :: u16) = ucast a + push_bit 8 (ucast b)"
    by (rule disjunctive_add [symmetric]) (auto simp: bit_simps dest: bit_imp_le_length)
  moreover have "unat (push_bit 8 (ucast b) :: u16) = 256 * unat b"
    using unat_byte [of b] by (simp add: push_bit_eq_mult unat_word_ariths unat_ucast_byte16)
  ultimately show ?thesis
    using unat_byte [of a] unat_byte [of b] by (simp add: unat_word_ariths unat_ucast_byte16)
qed

lemma unat_load16: "unat (load16 mem p) = unat (mem p) + 256 * unat (mem (p + 1))"
  by (simp add: load16_def unat_word_of_bytes)

lemma set_bytes:
  "unat (set_byte0 a 0) = unat a" "unat (set_byte1 b 0) = 256 * unat b"
  "unat (set_byte0 a (set_byte1 b 0)) = unat a + 256 * unat b"
proof -
  have "ucast b AND 0xFF = take_bit 8 (ucast b :: u16)" by (simp add: take_bit_eq_mask mask_eq_exp_minus_1)
  also have "\<dots> = ucast b" by (rule bit_word_eqI) (auto simp: bit_simps dest: bit_imp_le_length)
  finally have "push_bit 8 (ucast b) AND push_bit 8 0xFF = (push_bit 8 (ucast b) :: u16)"
    by (simp only: push_bit_and [symmetric])
  moreover have "push_bit 8 0xFF = (0xFF00 :: u16)" by simp
  ultimately have "push_bit 8 (ucast b) AND 0xFF00 = (push_bit 8 (ucast b) :: u16)" by simp
  then show "unat (set_byte0 a (set_byte1 b 0)) = unat a + 256 * unat b"
    using unat_word_of_bytes [of a b] by (simp add: set_byte0_def set_byte1_def or.commute)
qed (use unat_word_of_bytes [of a 0] unat_word_of_bytes [of 0 b] in \<open>simp_all add: set_byte0_def set_byte1_def\<close>)

section \<open>The checksum of a buffer\<close>

lemma mem_bytes_append: "mem_bytes mem p (m + n) = mem_bytes mem p m @ mem_bytes mem (p + of_nat m) n"
  by (induction m arbitrary: p) (simp_all add: mem_bytes_Suc ac_simps)

lemma wsum_step:
  "wsum False (mem_bytes mem p (2 * Suc k)) = unat (load16 mem p) + wsum False (mem_bytes mem (p + 2) (2 * k))"
proof -
  have "p + 1 + 1 = p + 2" by simp
  then show ?thesis by (simp add: mem_bytes_Suc unat_load16 add.commute)
qed

lemma wsum_even_le: "wsum False (mem_bytes mem p (2 * k)) \<le> 65535 * k"
proof (induction k arbitrary: p)
  case (Suc k)
  have "unat (load16 mem p) \<le> 65535" using unsigned_less [of "load16 mem p", where ?'a = nat] by simp
  with Suc [of "p + 2"] show ?case unfolding wsum_step by simp
qed simp

lemma chksum_loop_spec:
  "r < 2 \<Longrightarrow> unat s + 65535 * k < 2 ^ 32 \<Longrightarrow>
   \<exists>s'. chksum_loop mem ps (int (2 * k + r)) s = (ps + of_nat (2 * k), int r, s')
     \<and> unat s' = unat s + wsum False (mem_bytes mem ps (2 * k))"
proof (induction k arbitrary: ps s)
  case 0
  then show ?case by (subst chksum_loop.simps) simp
next
  case (Suc k)
  let ?s = "s + ucast (load16 mem ps)"
  have w: "unat (load16 mem ps) \<le> 65535" using unsigned_less [of "load16 mem ps", where ?'a = nat] by simp
  then have u: "unat (ucast (load16 mem ps) :: u32) = unat (load16 mem ps)"
    by (simp add: unsigned_ucast_eq take_bit_nat_eq_self)
  have s: "unat ?s = unat s + unat (load16 mem ps)"
    using Suc.prems w by (subst unat_add_small) (simp_all add: u)
  have "chksum_loop mem ps (int (2 * Suc k + r)) s = chksum_loop mem (ps + 2) (int (2 * k + r)) ?s"
    by (subst chksum_loop.simps) simp
  moreover from Suc.IH [of ?s "ps + 2"] Suc.prems w s obtain s' where
    "chksum_loop mem (ps + 2) (int (2 * k + r)) ?s = (ps + 2 + of_nat (2 * k), int r, s')"
    "unat s' = unat ?s + wsum False (mem_bytes mem (ps + 2) (2 * k))" by auto
  ultimately show ?case using s wsum_step [of mem ps k] by (auto simp: add.assoc)
qed

text \<open>The sum before the two folds, by the alignment of the buffer.\<close>

lemma chksum_even:
  assumes "p AND 1 = 0" "n \<le> 0x20000"
  shows "\<exists>s. unat s = wsum False (mem_bytes mem p n)
    \<and> lwip_standard_chksum mem p (int n) = ucast (FOLD_U32T (FOLD_U32T s))"
proof -
  obtain k r where n: "n = 2 * k + r" "r < 2" by (metis mod_less_divisor mult_div_mod_eq zero_less_numeral)
  have k: "k \<le> 0x10000" using assms(2) n by linarith
  obtain s' where s': "chksum_loop mem p (int n) 0 = (p + of_nat (2 * k), int r, s')"
    "unat s' = wsum False (mem_bytes mem p (2 * k))"
    using chksum_loop_spec [of r 0 k mem p] n k by auto
  define t :: u16 where "t = (if r = 0 then 0 else set_byte0 (mem (p + of_nat (2 * k))) 0)"
  have t: "unat t = wsum False (mem_bytes mem (p + of_nat (2 * k)) r)"
    using n(2) set_bytes(1) by (auto simp: t_def less_2_cases_iff mem_bytes_Suc)
  have "unat t \<le> 65535" using unsigned_less [of t, where ?'a = nat] by simp
  then have u: "unat (s' + ucast t) = wsum False (mem_bytes mem p n)"
    using s'(2) t k wsum_even_le [of mem p k]
    by (subst unat_add_small)
      (simp_all add: n mem_bytes_append wsum_append unsigned_ucast_eq take_bit_nat_eq_self)
  have "lwip_standard_chksum mem p (int n) = ucast (FOLD_U32T (FOLD_U32T (s' + ucast t)))"
    using assms(1) s'(1) n(2) by (auto simp: lwip_standard_chksum_def t_def Let_def)
  with u show ?thesis by blast
qed

lemma chksum_odd:
  assumes "p AND 1 \<noteq> 0" "n < 0x20000"
  shows "\<exists>s. unat s = wsum True (mem_bytes mem p (Suc n))
    \<and> lwip_standard_chksum mem p (int (Suc n)) = ucast (SWAP_BYTES_IN_WORD (FOLD_U32T (FOLD_U32T s)))"
proof -
  obtain k r where n: "n = 2 * k + r" "r < 2" by (metis mod_less_divisor mult_div_mod_eq zero_less_numeral)
  have k: "k < 0x10000" using assms(2) n by linarith
  let ?q = "p + 1 + of_nat (2 * k)"
  obtain s' where s': "chksum_loop mem (p + 1) (int n) 0 = (?q, int r, s')"
    "unat s' = wsum False (mem_bytes mem (p + 1) (2 * k))"
    using chksum_loop_spec [of r 0 k mem "p + 1"] n k by auto
  define t :: u16 where "t = (if r = 0 then set_byte1 (mem p) 0 else set_byte0 (mem ?q) (set_byte1 (mem p) 0))"
  have t: "unat t = 256 * unat (mem p) + wsum False (mem_bytes mem ?q r)"
    using n(2) set_bytes by (auto simp: t_def less_2_cases_iff mem_bytes_Suc)
  have "unat t \<le> 65535" using unsigned_less [of t, where ?'a = nat] by simp
  then have u: "unat (s' + ucast t) = wsum True (mem_bytes mem p (Suc n))"
    using s'(2) t k wsum_even_le [of mem "p + 1" k]
    by (subst unat_add_small)
      (simp_all add: n mem_bytes_Suc mem_bytes_append wsum_append unsigned_ucast_eq take_bit_nat_eq_self)
  have "lwip_standard_chksum mem p (int (Suc n)) = ucast (SWAP_BYTES_IN_WORD (FOLD_U32T (FOLD_U32T (s' + ucast t))))"
    using assms(1) s'(1) n(2) by (auto simp: lwip_standard_chksum_def t_def Let_def)
  with u show ?thesis by blast
qed

lemma unat_ucast16: "unat (w :: u32) \<le> 65535 \<Longrightarrow> unat (ucast w :: u16) = unat w"
  by (simp add: unsigned_ucast_eq take_bit_nat_eq_self)

lemma FOLD2_oceq: "oceq (unat (FOLD_U32T (FOLD_U32T s))) (unat s)"
  using oceq_trans [OF FOLD_oceq FOLD_oceq] .

lemma standard_chksum_oc:
  assumes "n \<le> 0x20000"
  shows "unat (lwip_standard_chksum mem p (int n)) = oc (wsum False (mem_bytes mem p n))"
proof (cases "p AND 1 = 0")
  case True
  then obtain s where s: "unat s = wsum False (mem_bytes mem p n)"
    "lwip_standard_chksum mem p (int n) = ucast (FOLD_U32T (FOLD_U32T s))" using chksum_even assms by blast
  then show ?thesis
    using FOLD2_oceq [of s] FOLD_FOLD_le [of s] by (auto simp: unat_ucast16 intro: oceq_unique)
next
  case False
  show ?thesis
  proof (cases n)
    case 0
    then show ?thesis
      by (simp add: lwip_standard_chksum_def chksum_loop.simps FOLD_U32T_def SWAP_BYTES_IN_WORD_def oc_def)
  next
    case (Suc m)
    with False assms obtain s where s: "unat s = wsum True (mem_bytes mem p n)"
      "lwip_standard_chksum mem p (int n) = ucast (SWAP_BYTES_IN_WORD (FOLD_U32T (FOLD_U32T s)))"
      using chksum_odd [of p m mem] by auto
    let ?f = "FOLD_U32T (FOLD_U32T s)"
    have "oceq (unat (SWAP_BYTES_IN_WORD ?f)) (256 * unat ?f)" by (rule SWAP_oceq [OF FOLD_FOLD_le])
    also have "oceq \<dots> (256 * wsum True (mem_bytes mem p n))" using FOLD2_oceq [of s] s(1) by (intro oceq_mult) simp_all
    also have "oceq \<dots> (wsum False (mem_bytes mem p n))" using wsum_flip [of True] by simp
    finally show ?thesis
      using s(2) SWAP_le [OF FOLD_FOLD_le, of s] by (auto simp: unat_ucast16 intro: oceq_unique)
  qed
qed

lemma unat_standard_chksum:
  "unat (lwip_standard_chksum mem p (uint (len :: u16))) = oc (wsum False (mem_bytes mem p (unat len)))"
proof -
  have "unat len < 65536" using unsigned_less [of len, where ?'a = nat] by simp
  then show ?thesis using standard_chksum_oc [of "unat len" mem p] by simp
qed

section \<open>Chains and pseudo headers\<close>

text \<open>The checksum that the Internet protocols define, and the data of a chain.\<close>

definition internet_checksum :: "byte list \<Rightarrow> u16" where
  "internet_checksum bs = NOT (of_nat (oc (wsum False bs)))"

definition pbuf_bytes :: "bmem \<Rightarrow> pbuf \<Rightarrow> byte list" where
  "pbuf_bytes mem q = mem_bytes mem (p_payload q) (unat (p_len q))"

definition chain_bytes :: "bmem \<Rightarrow> pbuf list \<Rightarrow> byte list" where
  "chain_bytes mem p = concat (map (pbuf_bytes mem) p)"

definition swf :: "bool \<Rightarrow> nat" where
  "swf sw = (if sw then 256 else 1)"

lemma swf_wsum: "oceq (swf sw * wsum sw bs) (wsum False bs)"
  using wsum_flip [of True bs] by (simp add: swf_def)

lemma swf_flip: "oceq (256 * (swf sw * n)) (swf (\<not> sw) * n)"
  using oceq_65536 [of n] by (simp add: swf_def)

lemma odd_word: "((w :: u16) mod 2 = 1) = odd (unat w)" "(w mod 2 = 0) = even (unat w)"
  by (simp_all add: word_unat_eq_iff unat_mod_word odd_iff_mod_2_eq_one even_iff_mod_2_eq_zero)

text \<open>One turn of the loop over a chain, with \<open>xs\<close> the bytes that are summed.\<close>

lemma pbuf_turn:
  assumes acc: "unat acc \<le> 65535" "oceq (unat acc) (swf sw * S)" and c: "unat (c :: u16) = oc (wsum False xs)"
  shows "unat (FOLD_U32T (acc + ucast c)) \<le> 65535"
    "oceq (unat (FOLD_U32T (acc + ucast c))) (swf sw * (S + wsum sw xs))"
proof -
  have u: "unat (ucast c :: u32) = unat c"
    using unsigned_less [of c, where ?'a = nat] by (simp add: unsigned_ucast_eq take_bit_nat_eq_self)
  have s: "unat (acc + ucast c) = unat acc + unat c"
    using acc(1) c oc_le [of "wsum False xs"] by (subst unat_add_small) (simp_all add: u)
  then show "unat (FOLD_U32T (acc + ucast c)) \<le> 65535"
    using acc(1) c oc_le [of "wsum False xs"] by (intro FOLD_le) simp
  have "oceq (unat (FOLD_U32T (acc + ucast c))) (unat acc + oc (wsum False xs))"
    using FOLD_oceq [of "acc + ucast c"] s c by simp
  also have "oceq \<dots> (swf sw * S + swf sw * wsum sw xs)"
    by (rule oceq_add [OF acc(2) oceq_trans [OF oc_oceq oceq_sym [OF swf_wsum]]])
  finally show "oceq (unat (FOLD_U32T (acc + ucast c))) (swf sw * (S + wsum sw xs))"
    by (simp only: distrib_left)
qed

lemma SWAP_turn:
  assumes "unat a \<le> 65535" "oceq (unat a) (swf sw * S)"
  shows "oceq (unat (SWAP_BYTES_IN_WORD a)) (swf (\<not> sw) * S)"
  using oceq_trans [OF SWAP_oceq [OF assms(1)] oceq_trans [OF oceq_mult [OF _ assms(2), of 256] swf_flip]] by simp

lemma pbuf_sum_spec:
  assumes "unat acc \<le> 65535" "oceq (unat acc) (swf sw * S)" "pbuf_sum mem qs acc sw = (a, sw')"
  shows "unat a \<le> 65535 \<and> sw' = (sw \<noteq> odd (length (chain_bytes mem qs)))
    \<and> oceq (unat a) (swf sw' * (S + wsum sw (chain_bytes mem qs)))"
  using assms
proof (induction qs arbitrary: acc sw S)
  case Nil
  then show ?case by (simp add: chain_bytes_def)
next
  case (Cons q qs)
  let ?xs = "pbuf_bytes mem q"
  let ?acc = "FOLD_U32T (acc + ucast (lwip_standard_chksum mem (p_payload q) (uint (p_len q))))"
  note t = pbuf_turn [OF Cons.prems(1,2), of "lwip_standard_chksum mem (p_payload q) (uint (p_len q))" ?xs,
      OF unat_standard_chksum [of mem "p_payload q" "p_len q", folded pbuf_bytes_def]]
  have len: "length ?xs = unat (p_len q)" by (simp add: pbuf_bytes_def)
  have eq: "chain_bytes mem (q # qs) = ?xs @ chain_bytes mem qs" by (simp add: chain_bytes_def)
  define sw1 where "sw1 = (sw \<noteq> odd (length ?xs))"
  define acc1 where "acc1 = (if odd (length ?xs) then SWAP_BYTES_IN_WORD ?acc else ?acc)"
  have "pbuf_sum mem (q # qs) acc sw = pbuf_sum mem qs acc1 sw1"
    by (simp add: acc1_def sw1_def Let_def odd_word len)
  then have rest: "pbuf_sum mem qs acc1 sw1 = (a, sw')" using Cons.prems(3) by simp
  have le: "unat acc1 \<le> 65535" using t(1) SWAP_le by (simp add: acc1_def)
  have "oceq (unat acc1) (swf sw1 * (S + wsum sw ?xs))"
    using t(2) SWAP_turn [OF t] by (cases "odd (length ?xs)") (simp_all only: acc1_def sw1_def simp_thms if_True if_False)
  from Cons.IH [OF le this rest] show ?case
    unfolding eq wsum_append length_append sw1_def [symmetric] by (simp add: sw1_def add.assoc) blast
qed

text \<open>The end of the sum: the bytes are swapped back and the sum is inverted.\<close>

lemma unswapped:
  assumes "unat a \<le> 65535" "oceq (unat a) (swf sw * S)"
  shows "unat (if sw then SWAP_BYTES_IN_WORD a else a) \<le> 65535" "oceq (unat (if sw then SWAP_BYTES_IN_WORD a else a)) S"
  using assms SWAP_le [OF assms(1)] SWAP_turn [OF assms] by (cases sw; simp add: swf_def)+

lemma inverted: "unat (a :: u32) \<le> 65535 \<Longrightarrow> oceq (unat a) n \<Longrightarrow> ucast (NOT (a AND 0xFFFF)) = (NOT (of_nat (oc n)) :: u16)"
proof -
  assume a: "unat a \<le> 65535" "oceq (unat a) n"
  have "ucast (NOT (a AND mask 16)) = (NOT (ucast a) :: u16)"
    by (rule bit_word_eqI) (auto simp: bit_simps)
  then have "ucast (NOT (a AND 0xFFFF)) = (NOT (ucast a) :: u16)" by (simp add: mask_eq_exp_minus_1)
  moreover have "ucast a = (of_nat (unat a) :: u16)" by simp
  moreover have "unat a = oc n" using a by (intro oceq_unique)
  ultimately show ?thesis by simp
qed

lemma unat_bytes:
  "unat (ucast (x :: u32) :: byte) = unat x mod 256" "unat (drop_bit k x) = unat x div 2 ^ k"
  "unat (ucast (y :: u16) :: byte) = unat y mod 256" "unat (drop_bit k y) = unat y div 2 ^ k"
  using unsigned_less [of x, where ?'a = nat] unsigned_less [of y, where ?'a = nat]
  by (simp_all add: unsigned_ucast_eq take_bit_eq_mod unsigned_drop_bit_eq drop_bit_eq_div [where ?'a = nat])

lemma wsum_bytes32: "wsum False (bytes32 x) = unat x mod 65536 + unat x div 65536"
proof -
  have "unat x mod 65536 = 256 * (unat x div 256 mod 256) + unat x mod 256"
    using mod_mult2_eq [of "unat x" 256 256] by simp
  moreover have "unat x div 65536 = 256 * (unat x div 16777216 mod 256) + unat x div 65536 mod 256"
  proof -
    define q where "q = unat x div 65536"
    have "unat x div 16777216 = q div 256" using div_mult2_eq [of "unat x" 65536 256] by (simp add: q_def)
    moreover have "q div 256 < 256" using unat_u32_less [of x] by (simp add: q_def)
    ultimately show ?thesis unfolding q_def [symmetric] by simp
  qed
  moreover have "wsum False (bytes32 x) = unat x mod 256 + 256 * (unat x div 256 mod 256)
      + (unat x div 65536 mod 256 + 256 * (unat x div 16777216 mod 256))"
    by (simp add: bytes32_def unat_bytes)
  ultimately show ?thesis by linarith
qed

lemma htons_unat: "unat (lwip_htons x) = unat x div 256 + 256 * (unat x mod 256)"
proof -
  have lo: "push_bit 8 (x AND mask 8) = push_bit 8 (ucast (ucast x :: byte))"
    by (rule bit_word_eqI) (auto simp: bit_simps)
  have "drop_bit 8 (x AND 0xFF00) = drop_bit 8 x AND mask 8" by (simp add: drop_bit_and mask_eq_exp_minus_1)
  also have "\<dots> = ucast (ucast (drop_bit 8 x) :: byte)"
    by (rule bit_word_eqI) (auto simp: bit_simps)
  finally have "lwip_htons x = ucast (ucast (drop_bit 8 x) :: byte) OR push_bit 8 (ucast (ucast x :: byte))"
    using lo by (simp add: lwip_htons_def or.commute mask_eq_exp_minus_1)
  moreover have "unat x div 256 mod 256 = unat x div 256" using unsigned_less [of x, where ?'a = nat] by simp
  ultimately show ?thesis by (simp add: unat_word_of_bytes unat_bytes)
qed

text \<open>The pseudo header of TCP and UDP, as bytes in network order.\<close>

definition pseudo_tail :: "byte \<Rightarrow> u16 \<Rightarrow> byte list" where
  "pseudo_tail proto len = [0, proto, ucast (drop_bit 8 len), ucast len]"

lemma wsum_pseudo_tail:
  "wsum False (pseudo_tail proto len) = unat (lwip_htons (ucast proto)) + unat (lwip_htons len)"
proof -
  have "unat len div 256 mod 256 = unat len div 256" using unsigned_less [of len, where ?'a = nat] by simp
  then show ?thesis
    using unat_byte [of proto] by (simp add: pseudo_tail_def htons_unat unat_bytes unat_ucast_byte16)
qed

lemma pseudo_end_spec:
  assumes "unat a \<le> 65535" "oceq (unat a) (swf sw * S)"
  shows "pseudo_end proto len (a, sw) = NOT (of_nat (oc (S + wsum False (pseudo_tail proto len))))"
proof -
  define b where "b = (if sw then SWAP_BYTES_IN_WORD a else a)"
  note b = unswapped [OF assms(1,2), folded b_def]
  let ?h = "\<lambda>x. ucast (lwip_htons x) :: u32"
  have h: "unat (?h x) = unat (lwip_htons x)" "unat (lwip_htons x) < 65536" for x
    using unsigned_less [of "lwip_htons x", where ?'a = nat] by (simp_all add: unsigned_ucast_eq take_bit_nat_eq_self)
  have 1: "unat (b + ?h (ucast proto)) = unat b + unat (lwip_htons (ucast proto))"
    using b(1) h [of "ucast proto"] by (subst unat_add_small) simp_all
  have 2: "unat (b + ?h (ucast proto) + ?h len) = unat b + unat (lwip_htons (ucast proto)) + unat (lwip_htons len)"
    using b(1) h [of "ucast proto"] h [of len] 1 by (subst unat_add_small) simp_all
  have "oceq (unat (b + ?h (ucast proto) + ?h len)) (S + wsum False (pseudo_tail proto len))"
    using oceq_add [OF b(2) oceq_refl, of "unat (lwip_htons (ucast proto)) + unat (lwip_htons len)"]
    by (simp only: 2 wsum_pseudo_tail) (simp only: add.assoc)
  from inverted [OF FOLD_FOLD_le oceq_trans [OF FOLD2_oceq this]] show ?thesis
    by (simp add: pseudo_end_def Let_def b_def)
qed

lemma pseudo_base_spec:
  assumes "unat acc \<le> 65535" "oceq (unat acc) (wsum False hs)" "even (length hs)"
  shows "inet_cksum_pseudo_base mem p proto len acc = internet_checksum (hs @ pseudo_tail proto len @ chain_bytes mem p)"
proof -
  obtain a sw where r: "pbuf_sum mem p acc False = (a, sw)" by fastforce
  have "oceq (unat acc) (swf False * wsum False hs)" using assms(2) by (simp add: swf_def)
  from pbuf_sum_spec [OF assms(1) this r]
  have "unat a \<le> 65535" "oceq (unat a) (swf sw * (wsum False hs + wsum False (chain_bytes mem p)))" by blast+
  from pseudo_end_spec [OF this] r assms(3) show ?thesis
    by (simp add: inet_cksum_pseudo_base_def internet_checksum_def wsum_append pseudo_tail_def ac_simps)
qed

text \<open>The sum of the words of two addresses.\<close>

lemma unat_addr_step:
  assumes "unat acc + 131070 < 2 ^ 32"
  shows "unat (acc + (w AND 0xFFFF) + (drop_bit 16 w AND 0xFFFF)) = unat acc + wsum False (bytes32 w)"
proof -
  have m: "unat w mod 65536 < 65536" "unat w div 65536 mod 65536 = unat w div 65536" "unat w div 65536 < 65536"
    using unat_u32_less [of w] by simp_all
  then have 1: "unat (acc + (w AND 0xFFFF)) = unat acc + unat w mod 65536"
    using assms by (subst unat_add_small) (simp_all add: unat_and_mask16)
  then show ?thesis
    using assms m by (subst unat_add_small) (simp_all add: unat_and_mask16 unat_shift16 wsum_bytes32)
qed

lemma wsum_bytes32_le: "wsum False (bytes32 w) \<le> 131070"
proof -
  have "unat w mod 65536 < 65536" "unat w div 65536 < 65536" using unat_u32_less [of w] by simp_all
  then show ?thesis unfolding wsum_bytes32 by linarith
qed

lemma ip6_sum_spec:
  "unat acc + 262140 * length ws < 2 ^ 32 \<Longrightarrow>
   unat (ip6_sum ws acc) = unat acc + (\<Sum>(s, d)\<leftarrow>ws. wsum False (bytes32 s) + wsum False (bytes32 d))"
proof (induction ws arbitrary: acc)
  case (Cons w ws)
  obtain s d where w: "w = (s, d)" by fastforce
  define a where "a = acc + (s AND 0xFFFF) + (drop_bit 16 s AND 0xFFFF)"
  define b where "b = a + (d AND 0xFFFF) + (drop_bit 16 d AND 0xFFFF)"
  have a: "unat a = unat acc + wsum False (bytes32 s)"
    unfolding a_def using Cons.prems by (intro unat_addr_step) simp
  have b: "unat b = unat a + wsum False (bytes32 d)"
    unfolding b_def using Cons.prems a wsum_bytes32_le [of s] by (intro unat_addr_step) simp
  have "unat (ip6_sum ws b) = unat b + (\<Sum>(s, d)\<leftarrow>ws. wsum False (bytes32 s) + wsum False (bytes32 d))"
    using Cons.prems a b wsum_bytes32_le [of s] wsum_bytes32_le [of d] by (intro Cons.IH) simp
  then show ?case by (simp add: w Let_def a_def b_def a [unfolded a_def] b [unfolded b_def a_def])
qed simp

lemma even_length_concat: "(\<And>x. x \<in> set xs \<Longrightarrow> even (length (f x))) \<Longrightarrow> even (length (concat (map f xs)))"
  by (induction xs) auto

lemma ip6_words_sum:
  "(\<Sum>(s, d)\<leftarrow>zip (ip6_words src) (ip6_words dest). wsum False (bytes32 s) + wsum False (bytes32 d))
     = wsum False (concat (map bytes32 (ip6_words src)) @ concat (map bytes32 (ip6_words dest)))"
  by (cases src; cases dest) (simp add: ip6_words_def wsum_append)

text \<open>The bytes of an address in network order.\<close>

definition addr_bytes :: "ip_addr \<Rightarrow> byte list" where
  "addr_bytes a = (case a of IP4 w \<Rightarrow> bytes32 w | IP6 v \<Rightarrow> concat (map bytes32 (ip6_words v)))"

definition same_version :: "ip_addr \<Rightarrow> ip_addr \<Rightarrow> bool" where
  "same_version a b = (case (a, b) of (IP4 _, IP4 _) \<Rightarrow> True | (IP6 _, IP6 _) \<Rightarrow> True | _ \<Rightarrow> False)"

definition addr_sum :: "ip_addr \<Rightarrow> ip_addr \<Rightarrow> u32" where
  "addr_sum src dest = (case (src, dest) of
      (IP4 s, IP4 d) \<Rightarrow> (s AND 0xFFFF) + (drop_bit 16 s AND 0xFFFF) + (d AND 0xFFFF) + (drop_bit 16 d AND 0xFFFF)
    | (IP6 s, IP6 d) \<Rightarrow> ip6_sum (zip (ip6_words s) (ip6_words d)) 0
    | _ \<Rightarrow> 0)"

lemma addr_sum_spec: "same_version src dest \<Longrightarrow> unat (addr_sum src dest) = wsum False (addr_bytes src @ addr_bytes dest)"
proof -
  have 4: "unat ((s AND 0xFFFF) + (drop_bit 16 s AND 0xFFFF) + (d AND 0xFFFF) + (drop_bit 16 d AND 0xFFFF))
      = wsum False (bytes32 s @ bytes32 d)" for s d :: u32
    using ip6_sum_spec [of 0 "[(s, d)]"] by (simp add: Let_def wsum_append)
  have 6: "unat (ip6_sum (zip (ip6_words s) (ip6_words d)) 0)
      = wsum False (concat (map bytes32 (ip6_words s)) @ concat (map bytes32 (ip6_words d)))" for s d
  proof -
    have "length (zip (ip6_words s) (ip6_words d)) = 4" by (cases s; cases d) (simp add: ip6_words_def)
    then show ?thesis using ip6_sum_spec [of 0 "zip (ip6_words s) (ip6_words d)"] by (simp add: ip6_words_sum)
  qed
  assume "same_version src dest"
  then show ?thesis
    by (cases src; cases dest) (simp_all only: same_version_def addr_sum_def addr_bytes_def prod.case ip_addr.case 4 6 simp_thms)
qed

lemma even_addr_bytes: "even (length (addr_bytes a))"
  by (cases a) (simp_all add: addr_bytes_def ip6_words_def split: prod.splits)

text \<open>The pseudo checksums of both versions of the protocol, and those of a part of the data.\<close>

lemma pseudo_from_sum:
  "inet_chksum_pseudo mem p proto len s d = inet_cksum_pseudo_base mem p proto len (FOLD_U32T (FOLD_U32T (addr_sum (IP4 s) (IP4 d))))"
  "ip6_chksum_pseudo mem p proto len v w = inet_cksum_pseudo_base mem p proto len (FOLD_U32T (FOLD_U32T (addr_sum (IP6 v) (IP6 w))))"
  "inet_chksum_pseudo_partial mem p proto len n s d
     = inet_cksum_pseudo_partial_base mem p proto len n (FOLD_U32T (FOLD_U32T (addr_sum (IP4 s) (IP4 d))))"
  "ip6_chksum_pseudo_partial mem p proto len n v w
     = inet_cksum_pseudo_partial_base mem p proto len n (FOLD_U32T (FOLD_U32T (addr_sum (IP6 v) (IP6 w))))"
  by (simp_all add: inet_chksum_pseudo_def ip6_chksum_pseudo_def inet_chksum_pseudo_partial_def
      ip6_chksum_pseudo_partial_def addr_sum_def Let_def)

lemma folded_addr_sum:
  "same_version src dest \<Longrightarrow>
   oceq (unat (FOLD_U32T (FOLD_U32T (addr_sum src dest)))) (wsum False (addr_bytes src @ addr_bytes dest))"
  using FOLD2_oceq [of "addr_sum src dest"] by (simp add: addr_sum_spec)

text \<open>C36. The checksum of TCP and UDP over a chain of buffers, whatever their number, lengths and alignment, is
  the Internet checksum of the pseudo header (both addresses, the protocol and the length, in
  network order) followed by the bytes of all buffers, for IPv4 and for IPv6.
\<close>

theorem ip_chksum_pseudo_correct:
  assumes "same_version src dest"
  shows "ip_chksum_pseudo mem p proto len src dest
    = Some (internet_checksum (addr_bytes src @ addr_bytes dest @ pseudo_tail proto len @ chain_bytes mem p))"
proof -
  have "inet_cksum_pseudo_base mem p proto len (FOLD_U32T (FOLD_U32T (addr_sum src dest)))
      = internet_checksum ((addr_bytes src @ addr_bytes dest) @ pseudo_tail proto len @ chain_bytes mem p)"
    using FOLD_FOLD_le folded_addr_sum [OF assms] even_addr_bytes by (intro pseudo_base_spec) simp_all
  with assms show ?thesis
    by (cases src; cases dest) (simp_all add: ip_chksum_pseudo_def same_version_def pseudo_from_sum)
qed

lemma pbuf_sum_partial_spec:
  assumes "unat acc \<le> 65535" "oceq (unat acc) (swf sw * S)" "pbuf_sum_partial mem qs n acc sw = Some (a, sw')"
  shows "unat a \<le> 65535 \<and> oceq (unat a) (swf sw' * (S + wsum sw (take (unat n) (chain_bytes mem qs))))"
  using assms
proof (induction qs arbitrary: n acc sw S)
  case Nil
  then show ?case by (simp add: chain_bytes_def)
next
  case (Cons q qs)
  show ?case
  proof (cases "n = 0")
    case True
    with Cons.prems show ?thesis by simp
  next
    case False
    define c where "c = (if p_len q > n then n else p_len q)"
    let ?xs = "mem_bytes mem (p_payload q) (unat c)"
    let ?acc = "FOLD_U32T (acc + ucast (lwip_standard_chksum mem (p_payload q) (uint c)))"
    note t = pbuf_turn [OF Cons.prems(1,2), of "lwip_standard_chksum mem (p_payload q) (uint c)" ?xs,
        OF unat_standard_chksum [of mem "p_payload q" c]]
    define odd1 where "odd1 = odd (unat (p_len q))"
    define sw1 where "sw1 = (sw \<noteq> odd1)"
    define acc1 where "acc1 = (if odd1 then SWAP_BYTES_IN_WORD ?acc else ?acc)"
    have rest: "pbuf_sum_partial mem qs (n - c) acc1 sw1 = Some (a, sw')"
      using Cons.prems(3) False
      by (auto simp: acc1_def sw1_def odd1_def c_def Let_def odd_word word_gt_0 split: if_splits)
    have le: "unat acc1 \<le> 65535" using t(1) SWAP_le by (simp add: acc1_def)
    have "oceq (unat acc1) (swf sw1 * (S + wsum sw ?xs))"
      using t(2) SWAP_turn [OF t] by (cases odd1) (simp_all only: acc1_def sw1_def simp_thms if_True if_False)
    from Cons.IH [OF le this rest] have ih: "unat a \<le> 65535"
      "oceq (unat a) (swf sw' * (S + wsum sw ?xs + wsum sw1 (take (unat (n - c)) (chain_bytes mem qs))))" by blast+
    have eq: "chain_bytes mem (q # qs) = pbuf_bytes mem q @ chain_bytes mem qs" by (simp add: chain_bytes_def)
    have "wsum sw (take (unat n) (chain_bytes mem (q # qs)))
        = wsum sw ?xs + wsum sw1 (take (unat (n - c)) (chain_bytes mem qs))"
    proof (cases "p_len q > n")
      case True
      then have "c = n" "unat n \<le> unat (p_len q)" by (simp_all add: c_def word_less_nat_alt)
      moreover from this have "take (unat n) (pbuf_bytes mem q) = ?xs"
        by (simp add: pbuf_bytes_def mem_bytes_def take_map)
      ultimately show ?thesis by (simp add: eq pbuf_bytes_def)
    next
      case False
      then have "p_len q \<le> n" and "c = p_len q" by (simp_all add: c_def)
      then have "c = p_len q" "unat (n - c) = unat n - unat (p_len q)" "unat (p_len q) \<le> unat n"
        by (simp_all add: word_le_nat_alt unat_sub)
      then show ?thesis by (simp add: eq pbuf_bytes_def wsum_append sw1_def odd1_def)
    qed
    with ih show ?thesis by (simp add: add.assoc)
  qed
qed

text \<open>
  A partial checksum that comes back is that of the first bytes of the chain; it comes back if less than
  32 KB are to be summed.
\<close>

lemma ip_chksum_pseudo_partial_correct:
  assumes "same_version src dest" "ip_chksum_pseudo_partial mem p proto len n src dest = Some c"
  shows "c = internet_checksum (addr_bytes src @ addr_bytes dest @ pseudo_tail proto len @ take (unat n) (chain_bytes mem p))"
proof -
  let ?hs = "addr_bytes src @ addr_bytes dest"
  let ?acc = "FOLD_U32T (FOLD_U32T (addr_sum src dest))"
  have "inet_cksum_pseudo_partial_base mem p proto len n ?acc = Some c"
    using assms by (cases src; cases dest) (simp_all add: ip_chksum_pseudo_partial_def same_version_def pseudo_from_sum)
  then obtain a sw where r: "pbuf_sum_partial mem p n ?acc False = Some (a, sw)" "c = pseudo_end proto len (a, sw)"
    by (auto simp: inet_cksum_pseudo_partial_base_def)
  have "oceq (unat ?acc) (swf False * wsum False ?hs)" using folded_addr_sum [OF assms(1)] by (simp add: swf_def)
  from pbuf_sum_partial_spec [OF FOLD_FOLD_le this r(1)]
  have "unat a \<le> 65535" "oceq (unat a) (swf sw * (wsum False ?hs + wsum False (take (unat n) (chain_bytes mem p))))" by blast+
  from pseudo_end_spec [OF this] r(2) show ?thesis
    using even_addr_bytes [of src] even_addr_bytes [of dest]
    by (simp add: internet_checksum_def wsum_append pseudo_tail_def ac_simps)
qed

lemma pbuf_sum_partial_returns: "n \<le> 0x7FFE \<Longrightarrow> \<exists>r. pbuf_sum_partial mem qs n acc sw = Some r"
proof (induction qs arbitrary: n acc sw)
  case (Cons q qs)
  define c where "c = (if p_len q > n then n else p_len q)"
  have "c \<le> n" by (auto simp: c_def not_less)
  then have "n - c \<le> n" by (rule word_sub_le)
  with Cons.prems have "n - c \<le> 0x7FFE" by simp
  moreover from this have "n - c < 0x7FFF" by (simp add: word_le_nat_alt word_less_nat_alt)
  ultimately show ?case using Cons.IH [of "n - c"] by (auto simp: Let_def c_def split: prod.splits)
qed simp

lemma inet_chksum_pbuf_correct: "inet_chksum_pbuf mem p = internet_checksum (chain_bytes mem p)"
proof -
  obtain a sw where r: "pbuf_sum mem p 0 False = (a, sw)" by fastforce
  from pbuf_sum_spec [OF _ _ r, of 0] have a: "unat a \<le> 65535" "oceq (unat a) (swf sw * wsum False (chain_bytes mem p))"
    by (auto simp: swf_def)
  from inverted [OF unswapped [OF a]] r show ?thesis by (simp add: inet_chksum_pbuf_def internet_checksum_def)
qed

lemma inet_chksum_correct: "inet_chksum mem p len = internet_checksum (mem_bytes mem p (unat len))"
  using unat_standard_chksum [of mem p len] by (simp add: inet_chksum_def internet_checksum_def flip: unat_standard_chksum)

text \<open>The checksum of a buffer of up to 128 KB, computed two bytes at a time from an even or an odd
  address, with a swap at the end for the odd one, is the ones' complement sum of the 16-bit words
  of its bytes; it does not depend on where the buffer lies.
\<close>


lemma chksum_ones_complement:
  assumes "n \<le> 0x20000"
  shows "unat (lwip_standard_chksum mem p (int n)) = oc (wsum False (mem_bytes mem p n))"
  using assms by (rule standard_chksum_oc)

lemma chksum_ones_complement_demo:
  "unat (lwip_standard_chksum (\<lambda>a. ucast a) 0x101 (int 5)) = oc (wsum False (mem_bytes (\<lambda>a. ucast a) 0x101 5))
   \<and> oc (wsum False (mem_bytes (\<lambda>a. ucast a) 0x101 5)) = 0x0609"
  using chksum_ones_complement [of 5 "\<lambda>a. ucast a" "0x101"] by (simp add: mem_bytes_def oc_def upt_rec)

text \<open>A datagram of two buffers, at an odd and an even address, over both versions.\<close>

theorem ip_chksum_pseudo_correct_witness:
  "ip_chksum_pseudo (\<lambda>a. ucast a) [\<lparr>p_payload = 0x101, p_len = 3\<rparr>, \<lparr>p_payload = 0x210, p_len = 2\<rparr>] 17 5
     (IP4 0x0100000A) (IP4 0x0200000A)
   = Some (internet_checksum ([10, 0, 0, 1, 10, 0, 0, 2, 0, 17, 0, 5, 1, 2, 3, 0x10, 0x11]))"
  using ip_chksum_pseudo_correct [of "IP4 0x0100000A" "IP4 0x0200000A" "\<lambda>a. ucast a"
      "[\<lparr>p_payload = 0x101, p_len = 3\<rparr>, \<lparr>p_payload = 0x210, p_len = 2\<rparr>]" 17 5]
  by (simp add: same_version_def addr_bytes_def bytes32_def pseudo_tail_def chain_bytes_def pbuf_bytes_def mem_bytes_def
      upt_rec internet_checksum_def)

section \<open>Storing and checking a checksum\<close>

lemma wsum_bytes16: "wsum False (bytes16 c) = unat c"
proof -
  have "unat c div 256 mod 256 = unat c div 256" using unsigned_less [of c, where ?'a = nat] by simp
  then show ?thesis by (simp add: bytes16_def unat_bytes)
qed

lemma mem_bytes_cong: "(\<And>i. i < n \<Longrightarrow> mem (p + of_nat i) = mem' (p + of_nat i)) \<Longrightarrow> mem_bytes mem p n = mem_bytes mem' p n"
  by (simp add: mem_bytes_def)

lemma of_nat_u32_eq: "i < 2 ^ 32 \<Longrightarrow> j < 2 ^ 32 \<Longrightarrow> (of_nat i :: u32) = of_nat j \<longleftrightarrow> i = j"
  by (simp add: of_nat_inverse word_unat_eq_iff unat_of_nat)

lemma mem_bytes_field:
  assumes "k + 2 \<le> n" "n < 2 ^ 16" and mem': "mem' = mem(p + of_nat k := a, p + of_nat (k + 1) := b)"
  shows "mem_bytes mem' p n = mem_bytes mem p k @ [a, b] @ mem_bytes mem (p + of_nat (k + 2)) (n - (k + 2))"
proof -
  have other: "mem' (p + of_nat i) = mem (p + of_nat i)" if "i < n" "i \<noteq> k" "i \<noteq> k + 1" for i
    using that assms(1,2) of_nat_u32_eq [of i k] of_nat_u32_eq [of i "k + 1"]
    by (simp add: mem' del: of_nat_add of_nat_Suc)
  have here: "mem' (p + of_nat k) = a" "mem' (p + of_nat (k + 1)) = b"
    using assms(1,2) of_nat_u32_eq [of k "k + 1"] by (simp_all add: mem' del: of_nat_add of_nat_Suc)
  obtain m where n: "n = k + (2 + m)" using assms(1) by (metis add.assoc le_Suc_ex)
  have "mem_bytes mem' p n = mem_bytes mem' p k @ mem_bytes mem' (p + of_nat k) 2 @ mem_bytes mem' (p + of_nat (k + 2)) m"
    unfolding n mem_bytes_append by (simp add: ac_simps)
  moreover have "mem_bytes mem' p k = mem_bytes mem p k"
    using n other by (intro mem_bytes_cong) simp
  moreover have "mem_bytes mem' (p + of_nat k) 2 = [a, b]"
    using here by (simp add: mem_bytes_Suc numeral_2_eq_2 ac_simps)
  moreover have "mem_bytes mem' (p + of_nat (k + 2)) m = mem_bytes mem (p + of_nat (k + 2)) m"
  proof (rule mem_bytes_cong)
    fix i assume "i < m"
    then have "mem' (p + of_nat (k + 2 + i)) = mem (p + of_nat (k + 2 + i))" using n by (intro other) simp_all
    then show "mem' (p + of_nat (k + 2) + of_nat i) = mem (p + of_nat (k + 2) + of_nat i)" by (simp add: add.assoc)
  qed
  ultimately show ?thesis using n by simp
qed

text \<open>C37. A checksum that is stored into its field, at an even offset and zero before, as the protocols do, makes
  the checksum of the packet zero, which is what the receiver tests, for every packet.
\<close>

theorem inet_chksum_verifies:
  assumes "even k" "k + 2 \<le> unat len" "mem (p + of_nat k) = 0" "mem (p + of_nat (k + 1)) = 0"
    and c: "c = inet_chksum mem p len"
  shows "inet_chksum (mem(p + of_nat k := ucast c, p + of_nat (k + 1) := ucast (drop_bit 8 c))) p len = 0"
proof -
  let ?xs = "mem_bytes mem p k" and ?ys = "mem_bytes mem (p + of_nat (k + 2)) (unat len - (k + 2))"
  have len: "unat len < 2 ^ 16" using unsigned_less [of len, where ?'a = nat] by simp
  note field = mem_bytes_field [OF assms(2) len]
  have "mem_bytes mem p (unat len) = ?xs @ [0, 0] @ ?ys"
    using assms(3,4) by (intro field) (auto simp: fun_eq_iff)
  then have c0: "c = internet_checksum (?xs @ [0, 0] @ ?ys)" using c by (simp add: inet_chksum_correct)
  define S where "S = wsum False ?xs + wsum False ?ys"
  then have cS: "c = NOT (of_nat (oc S))"
    using assms(1) c0 by (simp add: internet_checksum_def wsum_append)
  have "c + of_nat (oc S) = - 1" using cS by (simp add: not_eq_complement)
  then have "c = of_nat 65535 - of_nat (oc S)" by (simp add: eq_diff_eq)
  also have "\<dots> = of_nat (65535 - oc S)" using oc_le [of S] by (simp only: of_nat_diff)
  finally have uc: "unat c = 65535 - oc S" by (simp add: unat_of_nat take_bit_nat_eq_self)
  have "wsum False (?xs @ bytes16 c @ ?ys) = S + unat c"
    using assms(1) by (simp add: wsum_append wsum_bytes16 S_def)
  moreover have "oceq (S + (65535 - oc S)) (oc S + (65535 - oc S))"
    by (rule oceq_add [OF oceq_sym [OF oc_oceq] oceq_refl])
  then have "oc (S + unat c) = 65535"
    using oc_le [of S] uc oceq_unique [of 65535 "S + unat c"] oceq_sym by simp
  ultimately have "internet_checksum (?xs @ bytes16 c @ ?ys) = 0" by (simp add: internet_checksum_def)
  moreover have "mem_bytes (mem(p + of_nat k := ucast c, p + of_nat (k + 1) := ucast (drop_bit 8 c))) p (unat len)
      = ?xs @ bytes16 c @ ?ys" unfolding bytes16_def by (rule field) simp
  ultimately show ?thesis by (simp add: inet_chksum_correct)
qed

text \<open>The header of an IPv4 packet from 192.168.0.1 to 192.168.0.199, at an odd address.\<close>

definition demo_packet :: "byte list" where
  "demo_packet = [0x45, 0, 0, 0x73, 0, 0, 0x40, 0, 0x40, 0x11, 0, 0, 0xC0, 0xA8, 0, 1, 0xC0, 0xA8, 0, 0xC7]"

definition demo_mem :: bmem where
  "demo_mem a = (let i = unat (a - 0x2001) in if i < 20 then demo_packet ! i else 0xEE)"

theorem inet_chksum_verifies_witness:
  "inet_chksum demo_mem 0x2001 20 = 0x61B8 \<and>
   inet_chksum (demo_mem(0x200B := 0xB8, 0x200C := 0x61)) 0x2001 20 = 0"
proof -
  have "mem_bytes demo_mem 0x2001 20 = demo_packet"
    by (simp add: mem_bytes_def demo_mem_def demo_packet_def upt_rec Let_def)
  then have c: "0x61B8 = inet_chksum demo_mem 0x2001 20"
    by (simp add: inet_chksum_correct internet_checksum_def demo_packet_def oc_def)
  have "demo_mem 0x200B = 0" "demo_mem 0x200C = 0" by (simp_all add: demo_mem_def demo_packet_def)
  with inet_chksum_verifies [of 10 20 demo_mem "0x2001" "0x61B8", OF _ _ _ _ c]
  have "inet_chksum (demo_mem(0x200B := 0x61B8, 0x200C := 0x61)) 0x2001 20 = 0" by simp
  moreover have "(0x61B8 :: byte) = 0xB8" by simp
  ultimately show ?thesis using c by (simp only: simp_thms)
qed

end
