(* ===== verification/Inet_Addr.thy ===== *)
theory Inet_Addr
  imports Inet_Chksum
begin

text \<open>
  IPv4 addresses, \<^verbatim>\<open>os/kernel/network/core/ipv4/ip4_addr.c\<close>: printing and parsing of the dotted form, the check
  of network masks and the test for broadcast addresses. A C string is the list of its characters
  without the terminator; reading at its end gives the character 0. The classes of characters are
  those of \<^verbatim>\<open>ctype.h\<close>. An address is in network order, so that its first byte is the lowest of the word.
\<close>

section \<open>Model\<close>

definition IPADDR_NONE :: u32 where "IPADDR_NONE = 0xFFFFFFFF"
definition IPADDR_ANY :: u32 where "IPADDR_ANY = 0"
definition IPADDR_BROADCAST :: u32 where "IPADDR_BROADCAST = 0xFFFFFFFF"
definition IP4ADDR_STRLEN_MAX :: nat where "IP4ADDR_STRLEN_MAX = 16"
definition NETIF_FLAG_BROADCAST :: byte where "NETIF_FLAG_BROADCAST = 2"

abbreviation char_code :: "char \<Rightarrow> nat" where
  "char_code c \<equiv> of_char c"

definition isdigit :: "char \<Rightarrow> bool" where
  "isdigit c \<longleftrightarrow> 48 \<le> char_code c \<and> char_code c \<le> 57"

definition islower :: "char \<Rightarrow> bool" where
  "islower c \<longleftrightarrow> 97 \<le> char_code c \<and> char_code c \<le> 122"

definition isxdigit :: "char \<Rightarrow> bool" where
  "isxdigit c \<longleftrightarrow> isdigit c \<or> 97 \<le> char_code c \<and> char_code c \<le> 102 \<or> 65 \<le> char_code c \<and> char_code c \<le> 70"

definition isspace :: "char \<Rightarrow> bool" where
  "isspace c \<longleftrightarrow> char_code c = 32 \<or> 9 \<le> char_code c \<and> char_code c \<le> 13"

record netif =
  nif_flags :: byte
  nif_ip_addr :: u32
  nif_netmask :: u32

definition ip4_addr_netcmp :: "u32 \<Rightarrow> u32 \<Rightarrow> u32 \<Rightarrow> bool" where
  "ip4_addr_netcmp addr1 addr2 msk \<longleftrightarrow> addr1 AND msk = addr2 AND msk"

definition ip4_addr_isbroadcast_u32 :: "u32 \<Rightarrow> netif \<Rightarrow> bool" where
  "ip4_addr_isbroadcast_u32 addr nif =
     (if NOT addr = IPADDR_ANY \<or> addr = IPADDR_ANY then True
      else if nif_flags nif AND NETIF_FLAG_BROADCAST = 0 then False
      else if addr = nif_ip_addr nif then False
      else if ip4_addr_netcmp addr (nif_ip_addr nif) (nif_netmask nif)
           \<and> addr AND NOT (nif_netmask nif) = IPADDR_BROADCAST AND NOT (nif_netmask nif) then True
      else False)"

text \<open>The two loops of \<^verbatim>\<open>ip4_addr_netmask_valid\<close>: up to the first zero, and over the rest.\<close>

lemma drop_bit_less: "(w :: u32) \<noteq> 0 \<Longrightarrow> unat (drop_bit 1 w) < unat w"
  by (simp add: unat_bytes unat_gt_0 div_less_dividend)

function netmask_ones :: "u32 \<Rightarrow> u32 \<Rightarrow> u32" where
  "netmask_ones nm msk =
     (if msk \<noteq> 0 then if nm AND msk = 0 then msk else netmask_ones nm (drop_bit 1 msk) else msk)"
  by pat_completeness auto
termination by (relation "measure (\<lambda>(_, msk). unat msk)") (auto simp: drop_bit_less [simplified])

function netmask_zeros :: "u32 \<Rightarrow> u32 \<Rightarrow> bool" where
  "netmask_zeros nm msk =
     (if msk \<noteq> 0 then if nm AND msk \<noteq> 0 then False else netmask_zeros nm (drop_bit 1 msk) else True)"
  by pat_completeness auto
termination by (relation "measure (\<lambda>(_, msk). unat msk)") (auto simp: drop_bit_less [simplified])

declare netmask_ones.simps [simp del] netmask_zeros.simps [simp del]

definition ip4_addr_netmask_valid :: "u32 \<Rightarrow> bool" where
  "ip4_addr_netmask_valid netmask =
     (let nm_hostorder = lwip_htonl netmask;
          msk = netmask_ones nm_hostorder (push_bit 31 1)
      in netmask_zeros nm_hostorder msk)"

text \<open>The character at a position of a string.\<close>

fun peek :: "string \<Rightarrow> char" where
  "peek [] = CHR 0x00"
| "peek (c # cs) = c"

text \<open>The loop over the digits of a number: the value and the rest of the string.\<close>

fun aton_digits :: "u32 \<Rightarrow> u32 \<Rightarrow> string \<Rightarrow> u32 \<times> string" where
  "aton_digits base v [] = (v, [])"
| "aton_digits base v (c # cs) =
     (if isdigit c then aton_digits base (v * base + (of_nat (char_code c) - 48)) cs
      else if base = 16 \<and> isxdigit c then
        aton_digits base (push_bit 4 v OR (of_nat (char_code c) + 10 - (if islower c then 97 else 65))) cs
      else (v, c # cs))"

text \<open>A number with its prefix; \<open>None\<close> if there is no digit.\<close>

definition aton_number :: "string \<Rightarrow> (u32 \<times> string) option" where
  "aton_number cp =
     (if \<not> isdigit (peek cp) then None
      else if peek cp = CHR ''0'' then
        let cp = tl cp in
        if peek cp = CHR ''x'' \<or> peek cp = CHR ''X'' then Some (aton_digits 16 0 (tl cp))
        else Some (aton_digits 8 0 cp)
      else Some (aton_digits 10 0 cp))"

text \<open>The loop over the parts: those before the last, the last, and the rest of the string; \<open>None\<close> for \<^verbatim>\<open>return 0\<close>.\<close>

function aton_parts :: "u32 list \<Rightarrow> string \<Rightarrow> (u32 list \<times> u32 \<times> string) option" where
  "aton_parts parts cp =
     (case aton_number cp of
        None \<Rightarrow> None
      | Some (v, cp) \<Rightarrow>
          if peek cp = CHR ''.'' then
            if length parts \<ge> 3 then None else aton_parts (parts @ [v]) (tl cp)
          else Some (parts, v, cp))"
  by pat_completeness auto
termination by (relation "measure (\<lambda>(parts, _). 3 - length parts)") auto

declare aton_parts.simps [simp del]

text \<open>The value of the parts, \<open>None\<close> for \<^verbatim>\<open>return 0\<close>.\<close>

definition aton_value :: "u32 list \<Rightarrow> u32 \<Rightarrow> u32 option" where
  "aton_value parts v =
     (case parts of
        [] \<Rightarrow> Some v
      | [a] \<Rightarrow> if v > 0xFFFFFF then None else if a > 0xFF then None else Some (v OR push_bit 24 a)
      | [a, b] \<Rightarrow> if v > 0xFFFF then None else if a > 0xFF \<or> b > 0xFF then None
                 else Some (v OR (push_bit 24 a OR push_bit 16 b))
      | [a, b, c] \<Rightarrow> if v > 0xFF then None else if a > 0xFF \<or> b > 0xFF \<or> c > 0xFF then None
                    else Some (v OR (push_bit 24 a OR push_bit 16 b OR push_bit 8 c))
      | _ \<Rightarrow> None)"

text \<open>The address that is stored when the result is 1, \<open>None\<close> when it is 0.\<close>

definition ip4addr_aton :: "string \<Rightarrow> u32 option" where
  "ip4addr_aton cp =
     do {
       (parts, v, cp) \<leftarrow> aton_parts [] cp;
       if peek cp \<noteq> CHR 0x00 \<and> \<not> isspace (peek cp) then None
       else do { v \<leftarrow> aton_value parts v; Some (lwip_htonl v) }
     }"

definition ipaddr_addr :: "string \<Rightarrow> u32" where
  "ipaddr_addr cp = (case ip4addr_aton cp of Some v \<Rightarrow> v | None \<Rightarrow> IPADDR_NONE)"

text \<open>The digits of a byte, lowest first, as the inner loop of \<^verbatim>\<open>ip4addr_ntoa_r\<close> stores them into \<^verbatim>\<open>inv\<close>.\<close>

function ntoa_inv :: "byte \<Rightarrow> string" where
  "ntoa_inv b =
     (let r = b mod 10; b = b div 10; c = char_of (48 + unat r) in if b \<noteq> 0 then c # ntoa_inv b else [c])"
  by pat_completeness auto
termination
proof (relation "measure unat", goal_cases)
  case (2 b r b')
  then have "b' \<noteq> 0" and b': "b' = b div 10" by auto
  then have "unat b' \<noteq> 0" unfolding unat_eq_0 by blast
  moreover have "unat b' = unat b div 10" using b' by (simp add: unat_div_distrib)
  ultimately show ?case by simp
qed simp

declare ntoa_inv.simps [simp del]

text \<open>Appending characters while the buffer has room; \<open>None\<close> for \<^verbatim>\<open>return NULL\<close>.\<close>

fun ntoa_put :: "nat \<Rightarrow> string \<Rightarrow> string \<Rightarrow> string option" where
  "ntoa_put buflen [] out = Some out"
| "ntoa_put buflen (c # cs) out =
     (if length out \<ge> buflen then None else ntoa_put buflen cs (out @ [c]))"

fun ntoa_bytes :: "nat \<Rightarrow> byte list \<Rightarrow> string \<Rightarrow> string option" where
  "ntoa_bytes buflen [] out = Some out"
| "ntoa_bytes buflen (b # bs) out =
     do { out \<leftarrow> ntoa_put buflen (rev (ntoa_inv b)) out; out \<leftarrow> ntoa_put buflen ''.'' out; ntoa_bytes buflen bs out }"

definition ip4addr_ntoa_r :: "u32 \<Rightarrow> nat \<Rightarrow> string option" where
  "ip4addr_ntoa_r addr buflen = map_option butlast (ntoa_bytes buflen (bytes32 addr) [])"

definition ip4addr_ntoa :: "u32 \<Rightarrow> string option" where
  "ip4addr_ntoa addr = ip4addr_ntoa_r addr IP4ADDR_STRLEN_MAX"

section \<open>Decimal numbers\<close>

fun dec :: "nat \<Rightarrow> string" where
  "dec n = (if n < 10 then [char_of (48 + n)] else dec (n div 10) @ [char_of (48 + n mod 10)])"

declare dec.simps [simp del]

lemma digit_char:
  assumes "d < 10"
  shows "isdigit (char_of (48 + d))" "char_code (char_of (48 + d)) = 48 + d"
  using assms by (simp_all add: isdigit_def of_char_of)

lemma ntoa_inv_dec: "rev (ntoa_inv b) = dec (unat b)"
proof (induction b rule: ntoa_inv.induct)
  case (1 b)
  show ?case
  proof (cases "b div 10 = 0")
    case True
    then have "unat b < 10" by (simp add: word_unat_eq_iff unat_div_distrib div_eq_0_iff)
    with True show ?thesis by (simp add: ntoa_inv.simps [of b] dec.simps [of "unat b"] unat_mod_word Let_def)
  next
    case False
    then have "\<not> unat b < 10" by (simp add: word_unat_eq_iff unat_div_distrib div_eq_0_iff)
    with False 1 show ?thesis
      by (simp add: ntoa_inv.simps [of b] dec.simps [of "unat b"] unat_mod_word unat_div_distrib Let_def)
  qed
qed

lemma aton_digits_dec:
  "aton_digits 10 v (dec n @ r) = aton_digits 10 (v * 10 ^ length (dec n) + of_nat n) r"
proof (induction n arbitrary: v r rule: dec.induct)
  case (1 n)
  show ?case
  proof (cases "n < 10")
    case True
    then show ?thesis by (simp add: dec.simps [of n] digit_char)
  next
    case False
    have "of_nat n = (of_nat (n div 10) * 10 + of_nat (n mod 10) :: u32)"
      by (metis div_mult_mod_eq of_nat_add of_nat_mult of_nat_numeral)
    with False 1 show ?thesis
      by (simp add: dec.simps [of n] digit_char algebra_simps)
  qed
qed

lemma dec_first: "\<exists>c cs. dec n = c # cs \<and> isdigit c \<and> (0 < n \<longrightarrow> c \<noteq> CHR ''0'')"
proof (induction n rule: dec.induct)
  case (1 n)
  show ?case
  proof (cases "n < 10")
    case True
    have "char_code (CHR ''0'') = 48" by simp
    then have "0 < n \<longrightarrow> char_of (48 + n) \<noteq> CHR ''0''" using digit_char(2) [OF True] by force
    with True show ?thesis by (simp add: dec.simps [of n] digit_char)
  next
    case False
    with 1 show ?thesis by (subst dec.simps) auto
  qed
qed

lemma dec_0: "dec 0 = ''0''"
  by (simp add: dec.simps) code_simp

lemma dec_nonempty [simp]: "dec n \<noteq> []"
  using dec_first [of n] by auto

lemma length_dec: "n < 1000 \<Longrightarrow> length (dec n) \<le> 3"
proof -
  have 1: "length (dec m) = 1" if "m < 10" for m using that by (simp add: dec.simps)
  have 2: "length (dec m) \<le> 2" if "m < 100" for m using that 1 [of "m div 10"] by (subst dec.simps) simp
  show "length (dec n) \<le> 3" if "n < 1000" using that 2 [of "n div 10"] by (subst dec.simps) simp
qed

text \<open>A number followed by something that does not go on with it.\<close>

definition number_stop :: "string \<Rightarrow> bool" where
  "number_stop r \<longleftrightarrow> \<not> isdigit (peek r) \<and> peek r \<noteq> CHR ''x'' \<and> peek r \<noteq> CHR ''X''"

lemma aton_digits_stop: "number_stop r \<Longrightarrow> base \<noteq> 16 \<Longrightarrow> aton_digits base v r = (v, r)"
  by (cases r) (auto simp: number_stop_def)

lemma aton_number_dec:
  assumes "number_stop r"
  shows "aton_number (dec n @ r) = Some (of_nat n, r)"
proof (cases "n = 0")
  case True
  then show ?thesis
    using assms by (simp add: aton_number_def dec_0 aton_digits_stop isdigit_def) (simp add: number_stop_def)
next
  case False
  obtain c cs where c: "dec n = c # cs" "isdigit c" "c \<noteq> CHR ''0''" using dec_first [of n] False by auto
  have "aton_digits 10 0 (dec n @ r) = (of_nat n, r)"
    using assms by (simp add: aton_digits_dec aton_digits_stop)
  with c show ?thesis by (simp add: aton_number_def)
qed

section \<open>Printing and parsing\<close>

text \<open>The dotted form, as it is meant.\<close>

fun dotted :: "byte list \<Rightarrow> string" where
  "dotted [] = []"
| "dotted [b] = dec (unat b)"
| "dotted (b # bs) = dec (unat b) @ ''.'' @ dotted bs"

lemma ntoa_put_spec: "ntoa_put buflen cs out = (if length out + length cs \<le> buflen \<or> cs = [] then Some (out @ cs) else None)"
  by (induction cs arbitrary: out) auto

lemma ntoa_part:
  "do { out \<leftarrow> ntoa_put buflen (rev (ntoa_inv b)) out; ntoa_put buflen ''.'' out }
     = (if length out + length (dec (unat b)) < buflen then Some (out @ dec (unat b) @ ''.'') else None)"
  by (simp add: ntoa_put_spec ntoa_inv_dec)

lemma ntoa_bytes_part:
  "ntoa_bytes buflen (b # bs) out
     = (if length out + length (dec (unat b)) < buflen then ntoa_bytes buflen bs (out @ dec (unat b) @ ''.'') else None)"
proof -
  have "ntoa_bytes buflen (b # bs) out
      = Option.bind (do { out \<leftarrow> ntoa_put buflen (rev (ntoa_inv b)) out; ntoa_put buflen ''.'' out }) (ntoa_bytes buflen bs)"
    by simp
  then show ?thesis unfolding ntoa_part by simp
qed

lemma ip4addr_ntoa_r_spec:
  "ip4addr_ntoa_r addr buflen = (if length (dotted (bytes32 addr)) < buflen then Some (dotted (bytes32 addr)) else None)"
  unfolding ip4addr_ntoa_r_def bytes32_def ntoa_bytes_part
  by (simp add: butlast_append)

lemma length_dotted4: "length (dotted [a, b, c, d]) \<le> 15"
proof -
  have "length (dec (unat x)) \<le> 3" for x :: byte using unat_byte [of x] by (intro length_dec) simp
  from this [of a] this [of b] this [of c] this [of d] show ?thesis by simp
qed

lemma stop_dot: "number_stop (CHR ''.'' # r)"
  by (simp add: number_stop_def isdigit_def)

lemma stop_end: "number_stop []"
  by (simp add: number_stop_def isdigit_def)

lemma aton_parts_dot:
  "length parts < 3 \<Longrightarrow> aton_parts parts (dec n @ CHR ''.'' # r) = aton_parts (parts @ [of_nat n]) r"
  by (subst aton_parts.simps) (simp add: aton_number_dec stop_dot)

lemma aton_parts_end: "aton_parts parts (dec n) = Some (parts, of_nat n, [])"
  using aton_number_dec [OF stop_end, of n] by (subst aton_parts.simps) simp

lemma aton_parts_dotted:
  "aton_parts [] (dotted [a, b, c, d]) = Some ([of_nat (unat a), of_nat (unat b), of_nat (unat c)], of_nat (unat d), [])"
  by (simp add: aton_parts_dot aton_parts_end del: of_nat_unat)

section \<open>Byte order\<close>

lemma htonl_masks:
  "(0x000000FF :: u32) = mask 8" "(0x0000FF00 :: u32) = push_bit 8 (mask 8)"
  "(0x00FF0000 :: u32) = push_bit 16 (mask 8)" "(0xFF000000 :: u32) = push_bit 24 (mask 8)"
  by (simp_all add: mask_eq_exp_minus_1)

lemma htonl_bytes:
  "lwip_htonl x = push_bit 24 (ucast (ucast x :: byte)) OR push_bit 16 (ucast (ucast (drop_bit 8 x) :: byte))
     OR push_bit 8 (ucast (ucast (drop_bit 16 x) :: byte)) OR ucast (ucast (drop_bit 24 x) :: byte)"
proof -
  have "push_bit 24 (x AND mask 8) = push_bit 24 (ucast (ucast x :: byte))"
    by (rule bit_word_eqI) (auto simp: bit_simps)
  moreover have "push_bit 8 (x AND push_bit 8 (mask 8)) = push_bit 16 (ucast (ucast (drop_bit 8 x) :: byte))"
    by (rule bit_word_eqI) (auto simp: bit_simps)
  moreover have "drop_bit 8 (x AND push_bit 16 (mask 8)) = push_bit 8 (ucast (ucast (drop_bit 16 x) :: byte))"
    by (rule bit_word_eqI) (auto simp: bit_simps)
  moreover have "drop_bit 24 (x AND push_bit 24 (mask 8)) = ucast (ucast (drop_bit 24 x) :: byte)"
    by (rule bit_word_eqI) (auto simp: bit_simps)
  ultimately show ?thesis unfolding lwip_htonl_def htonl_masks by (simp only:)
qed

lemma htonl_htonl: "lwip_htonl (lwip_htonl x) = x"
proof -
  let ?y = "lwip_htonl x"
  have "ucast ?y = (ucast (drop_bit 24 x) :: byte)" "ucast (drop_bit 8 ?y) = (ucast (drop_bit 16 x) :: byte)"
    "ucast (drop_bit 16 ?y) = (ucast (drop_bit 8 x) :: byte)" "ucast (drop_bit 24 ?y) = (ucast x :: byte)"
    unfolding htonl_bytes by (rule bit_word_eqI; auto simp: bit_simps dest: bit_imp_le_length)+
  then have "lwip_htonl ?y = push_bit 24 (ucast (ucast (drop_bit 24 x) :: byte)) OR push_bit 16 (ucast (ucast (drop_bit 16 x) :: byte))
      OR push_bit 8 (ucast (ucast (drop_bit 8 x) :: byte)) OR ucast (ucast x :: byte)"
    by (simp only: htonl_bytes [of ?y])
  also have "\<dots> = x"
  proof (rule bit_word_eqI)
    fix n assume "n < LENGTH(32)"
    then consider "n < 8" | "8 \<le> n" "n < 16" | "16 \<le> n" "n < 24" | "24 \<le> n" "n < 32" by fastforce
    then show "bit (push_bit 24 (ucast (ucast (drop_bit 24 x) :: byte)) OR push_bit 16 (ucast (ucast (drop_bit 16 x) :: byte))
        OR push_bit 8 (ucast (ucast (drop_bit 8 x) :: byte)) OR ucast (ucast x :: byte) :: u32) n = bit x n"
      by cases (auto simp: bit_simps)
  qed
  finally show ?thesis .
qed

lemma aton_value_bytes:
  "aton_value [ucast (a :: byte), ucast (b :: byte), ucast (c :: byte)] (ucast (d :: byte))
     = Some (push_bit 24 (ucast a) OR push_bit 16 (ucast b) OR push_bit 8 (ucast c) OR ucast d)"
proof -
  have "\<not> ucast x > (0xFF :: u32)" for x :: byte
    using unat_byte [of x] by (simp add: word_less_nat_alt unsigned_ucast_eq take_bit_nat_eq_self)
  then show ?thesis by (simp add: aton_value_def ac_simps)
qed

text \<open>C38. Printing an address gives its dotted form, with at least the 16 bytes of the buffer it always
  fits, and parsing the printed form gives the address back, for every address.
\<close>

theorem ntoa_aton_roundtrip:
  assumes "16 \<le> buflen"
  shows "\<exists>s. ip4addr_ntoa_r addr buflen = Some s \<and> length s < buflen \<and> ip4addr_aton s = Some addr"
proof -
  let ?s = "dotted (bytes32 addr)"
  have "length ?s < buflen" 
    using length_dotted4 [of "ucast addr" "ucast (drop_bit 8 addr)" "ucast (drop_bit 16 addr)" "ucast (drop_bit 24 addr)"] assms
    unfolding bytes32_def by linarith
  moreover have "ip4addr_aton ?s = Some (lwip_htonl (lwip_htonl addr))"
    unfolding bytes32_def ip4addr_aton_def aton_parts_dotted
    by (simp add: aton_value_bytes htonl_bytes [of addr] del: dotted.simps)
  ultimately show ?thesis by (auto simp: ip4addr_ntoa_r_spec htonl_htonl)
qed

theorem ntoa_aton_roundtrip_witness:
  "\<exists>s. ip4addr_ntoa_r 0x0100A8C0 16 = Some s \<and> length s < 16 \<and> ip4addr_aton s = Some 0x0100A8C0"
  using ntoa_aton_roundtrip [of 16 "0x0100A8C0"] by simp

lemma ntoa_demo: "ip4addr_ntoa 0x0100A8C0 = Some ''192.168.0.1''"
  by code_simp

text \<open>A number that does not fit 32 bits is not refused.\<close>

lemma aton_wraps: "ip4addr_aton ''4294967297'' = ip4addr_aton ''1''"
  by code_simp

section \<open>Network masks\<close>

text \<open>The loops with the bit they stand at.\<close>

lemma and_push_one_eq: "(w AND push_bit k 1 = 0) = (\<not> bit (w :: u32) k)" if "k < 32"
  using that by (simp add: bit_iff_and_push_bit_not_eq_0)

lemma push_one_nonzero: "k < 32 \<Longrightarrow> push_bit k (1 :: u32) \<noteq> 0"
  by (simp add: push_bit_eq_0_iff take_bit_eq_0_iff)

lemma drop_push_one: "Suc k < 32 \<Longrightarrow> drop_bit 1 (push_bit (Suc k) (1 :: u32)) = push_bit k 1"
  by (rule bit_word_eqI) (auto simp: bit_simps)

lemma drop_push_zero: "drop_bit 1 (push_bit 0 (1 :: u32)) = 0"
  by simp

lemma netmask_zeros_bits: "k < 32 \<Longrightarrow> netmask_zeros nm (push_bit k 1) \<longleftrightarrow> (\<forall>j\<le>k. \<not> bit nm j)"
proof (induction k)
  case 0
  then show ?case
    using and_push_one_eq [of 0 nm] netmask_zeros.simps [of nm 0] by (subst netmask_zeros.simps) simp
next
  case (Suc k)
  then show ?case
    using and_push_one_eq [of "Suc k" nm] push_one_nonzero [of "Suc k"] drop_push_one [of k]
    by (subst netmask_zeros.simps) (auto simp: le_Suc_eq simp del: push_bit_Suc)
qed

lemma netmask_loops_bits:
  "k < 32 \<Longrightarrow> netmask_zeros nm (netmask_ones nm (push_bit k 1)) \<longleftrightarrow> (\<forall>i j. i < j \<and> j \<le> k \<and> bit nm i \<longrightarrow> bit nm j)"
proof (induction k)
  case 0
  then show ?case
    using and_push_one_eq [of 0 nm] netmask_zeros_bits [of 0 nm] netmask_zeros.simps [of nm 0] netmask_ones.simps [of nm 0]
    by (subst netmask_ones.simps) simp
next
  case (Suc k)
  note step = and_push_one_eq [of "Suc k" nm] push_one_nonzero [of "Suc k"] drop_push_one [of k]
  show ?case
  proof (cases "bit nm (Suc k)")
    case True
    with Suc step have "netmask_ones nm (push_bit (Suc k) 1) = netmask_ones nm (push_bit k 1)"
      by (subst netmask_ones.simps) (simp del: push_bit_Suc)
    with Suc True show ?thesis by (auto simp: le_Suc_eq)
  next
    case False
    with Suc step have "netmask_ones nm (push_bit (Suc k) 1) = push_bit (Suc k) 1"
      by (subst netmask_ones.simps) (simp del: push_bit_Suc)
    with Suc.prems have "netmask_zeros nm (netmask_ones nm (push_bit (Suc k) 1)) \<longleftrightarrow> (\<forall>j\<le>Suc k. \<not> bit nm j)"
      by (simp only: netmask_zeros_bits)
    moreover have "(\<forall>j\<le>Suc k. \<not> bit nm j) \<longleftrightarrow> (\<forall>i j. i < j \<and> j \<le> Suc k \<and> bit nm i \<longrightarrow> bit nm j)"
    proof
      assume up: "\<forall>i j. i < j \<and> j \<le> Suc k \<and> bit nm i \<longrightarrow> bit nm j"
      show "\<forall>j\<le>Suc k. \<not> bit nm j" using up False by (metis le_neq_implies_less order_refl)
    qed auto
    ultimately show ?thesis by (simp only:)
  qed
qed

text \<open>The check of a network mask accepts exactly the masks that are ones followed by zeros in host order.\<close>

lemma netmask_valid_prefix:
  "ip4_addr_netmask_valid netmask \<longleftrightarrow> (\<exists>n\<le>32. lwip_htonl netmask = NOT (mask n))"
proof -
  let ?m = "lwip_htonl netmask"
  have "ip4_addr_netmask_valid netmask \<longleftrightarrow> (\<forall>i j. i < j \<and> j \<le> 31 \<and> bit ?m i \<longrightarrow> bit ?m j)"
    using netmask_loops_bits [of 31 ?m] by (simp add: ip4_addr_netmask_valid_def Let_def)
  also have "\<dots> \<longleftrightarrow> (\<exists>n\<le>32. ?m = NOT (mask n))"
  proof
    assume up: "\<forall>i j. i < j \<and> j \<le> 31 \<and> bit ?m i \<longrightarrow> bit ?m j"
    show "\<exists>n\<le>32. ?m = NOT (mask n)"
    proof (cases "?m = 0")
      case True
      have "?m = NOT (mask 32)" unfolding True by (rule bit_word_eqI) (simp add: bit_simps)
      then show ?thesis by blast
    next
      case False
      then obtain i where i: "bit ?m i" using bit_eq_iff [of ?m 0] by auto
      define n where "n = (LEAST i. bit ?m i)"
      have n: "bit ?m n" "\<And>j. j < n \<Longrightarrow> \<not> bit ?m j" unfolding n_def using i by (auto intro: LeastI dest: not_less_Least)
      have "?m = NOT (mask n)"
      proof (rule bit_word_eqI)
        fix j assume j: "j < LENGTH(32)"
        then have "bit ?m j \<longleftrightarrow> \<not> j < n" 
          using n up [rule_format, of n j] by (cases "j = n"; cases "j < n") auto
        then show "bit ?m j = bit (NOT (mask n) :: u32) j" using j by (simp add: bit_simps)
      qed
      moreover have "n \<le> 32" using bit_imp_le_length [OF n(1)] by simp
      ultimately show ?thesis by blast
    qed
  next
    assume "\<exists>n\<le>32. ?m = NOT (mask n)"
    then obtain n where "?m = NOT (mask n)" by blast
    then show "\<forall>i j. i < j \<and> j \<le> 31 \<and> bit ?m i \<longrightarrow> bit ?m j" by (auto simp: bit_simps)
  qed
  finally show ?thesis .
qed

end
