(* ===== verification/Execve.thy ===== *)
theory Execve
  imports Fsys Aspace Sched
begin

text \<open>
  The system call \<^verbatim>\<open>execve\<close>, \<^verbatim>\<open>os/kernel/syscalls/059_execve.c\<close>, over the file system calls, the address
  spaces and the page tables: the checks, the segments of the image, the break with the strings of
  the program, and the context the task continues in.
\<close>

section \<open>Model\<close>

definition ENOEXEC :: int where "ENOEXEC = 8"
definition E_IO :: int where "E_IO = 5"
definition ASPACE_TYPE_CODE :: byte where "ASPACE_TYPE_CODE = 1"
definition ASPACE_TYPE_DATA :: byte where "ASPACE_TYPE_DATA = 2"

text \<open>
  The structures of \<^verbatim>\<open>aplus/elf.h\<close>, which is not part of the repository: the fields the call reads, with
  the comparisons against constants of that header as the fields \<open>e_elfmag\<close>, \<open>e_exec\<close>, \<open>p_type\<close> and
  \<open>p_exec\<close>. How the bytes of a file fill them is the parameter \<open>elf_h\<close>; \<open>None\<close> stands for a field read
  before it was written.
\<close>

record Elf_Ehdr =
  e_ident0 :: byte
  e_ident1 :: byte
  e_elfmag :: bool
  e_exec :: bool
  e_entry :: u32
  e_phoff :: u32
  e_phentsize :: u16
  e_phnum :: u16

datatype elf_ptype = PT_LOAD | PT_TLS | PT_GNU_EH_FRAME | PT_DYNAMIC | PT_OTHER

record Elf_Phdr =
  p_type :: elf_ptype
  p_exec :: bool
  p_offset :: u32
  p_vaddr :: u32
  p_filesz :: u32
  p_memsz :: u32
  p_align :: u32

record elf_h =
  sizeof_ehdr :: u32
  sizeof_phdr :: u32
  ehdr_of :: "byte option list \<Rightarrow> Elf_Ehdr option"
  phdr_of :: "byte option list \<Rightarrow> Elf_Phdr option"

text \<open>
  The state: the file system with the task's descriptors and lock, the address space and its
  machine, the bytes of memory by virtual address (\<open>None\<close> a byte never written), the address of the
  next map object, and of the task the flags \<^verbatim>\<open>close_on_exec\<close>, the inode of its image, two of its
  limits, the address of its saved context and the context.
\<close>

record xstate =
  xs_fs :: fs
  xs_asp :: address_space
  xs_sys :: as_sys
  xs_mem :: "u32 \<Rightarrow> byte option"
  xs_next :: nat
  xs_cloexec :: "nat \<Rightarrow> bool"
  xs_exe :: "iptr option"
  xs_rss :: u32
  xs_stack :: u32
  xs_context :: u32
  xs_frame :: "x86_frame option"
  xs_interrupt :: bool

subsection \<open>Memory\<close>

definition present :: "xstate \<Rightarrow> u32 \<Rightarrow> bool" where
  "present x a \<longleftrightarrow>
     x86_ptr_access (as_vmmpd (xs_asp x) + CONFIG_KERNEL_BASE) a R_OK (sys_vm (xs_sys x)) = Some True"

text \<open>A load or a store in a page that is not present is a page fault in the kernel.\<close>

definition um_load :: "xstate \<Rightarrow> u32 \<Rightarrow> byte option" where
  "um_load x a = (if present x a then xs_mem x a else None)"

definition um_put :: "u32 \<Rightarrow> byte option list \<Rightarrow> (u32 \<Rightarrow> byte option) \<Rightarrow> u32 \<Rightarrow> byte option" where
  "um_put a bs m b = (if unat (b - a) < length bs then bs ! unat (b - a) else m b)"

definition um_store :: "u32 \<Rightarrow> byte option list \<Rightarrow> xstate \<Rightarrow> xstate option" where
  "um_store a bs x =
     do {
       kassert (\<forall>i \<in> {..<length bs}. present x (a + of_nat i));
       Some (x\<lparr>xs_mem := um_put a bs (xs_mem x)\<rparr>)
     }"

definition load_word :: "xstate \<Rightarrow> u32 \<Rightarrow> u32 option" where
  "load_word x a =
     do {
       b0 \<leftarrow> um_load x a;
       b1 \<leftarrow> um_load x (a + 1);
       b2 \<leftarrow> um_load x (a + 2);
       b3 \<leftarrow> um_load x (a + 3);
       Some (ucast b0 OR push_bit 8 (ucast b1) OR push_bit 16 (ucast b2) OR push_bit 24 (ucast b3))
     }"

definition word_bytes :: "u32 \<Rightarrow> byte option list" where
  "word_bytes w = [Some (ucast w), Some (ucast (drop_bit 8 w)), Some (ucast (drop_bit 16 w)),
     Some (ucast (drop_bit 24 w))]"

text \<open>The bytes of the string at an address, without the terminator.\<close>

partial_function (option) load_string :: "xstate \<Rightarrow> u32 \<Rightarrow> byte list option" where
  "load_string x a =
     do {
       b \<leftarrow> um_load x a;
       if b = 0 then Some []
       else do { bs \<leftarrow> load_string x (a + 1); Some (b # bs) }
     }"

definition bytes_string :: "byte list \<Rightarrow> string" where
  "bytes_string bs = map (\<lambda>b. char_of (unat b)) bs"

text \<open>\<^verbatim>\<open>strcat\<close>: the bytes go behind the string at the destination, with a new terminator.\<close>

definition cat_bytes :: "u32 \<Rightarrow> byte list \<Rightarrow> xstate \<Rightarrow> xstate option" where
  "cat_bytes dst bs x =
     do {
       d \<leftarrow> load_string x dst;
       um_store (dst + of_nat (length d)) (map Some bs @ [Some 0]) x
     }"

definition strcat :: "u32 \<Rightarrow> u32 \<Rightarrow> xstate \<Rightarrow> xstate option" where
  "strcat dst src x = do { bs \<leftarrow> load_string x src; cat_bytes dst bs x }"

subsection \<open>Calls of the other components\<close>

text \<open>The file system calls check pointers against the page tables as they are at the call.\<close>

definition fs_view :: "xstate \<Rightarrow> fs" where
  "fs_view x = (xs_fs x)\<lparr>fs_chk := (\<lambda>p m. arch_ptr_access (xs_asp x) p m (sys_vm (xs_sys x)) = Some True)\<rparr>"

definition with_fs :: "(fs \<Rightarrow> ('a \<times> fs) option) \<Rightarrow> xstate \<Rightarrow> ('a \<times> xstate) option" where
  "with_fs f x = do { (r, s) \<leftarrow> f (fs_view x); Some (r, x\<lparr>xs_fs := s\<rparr>) }"

text \<open>A page that becomes present is in a frame that \<^verbatim>\<open>pmm_alloc_block_safe\<close> has cleared.\<close>

definition fresh_pages :: "xstate \<Rightarrow> xstate \<Rightarrow> xstate" where
  "fresh_pages x y =
     y\<lparr>xs_mem := (\<lambda>a. if present y a \<and> \<not> present x a then Some 0 else xs_mem y a)\<rparr>"

definition exec_add_map :: "byte \<Rightarrow> u32 \<Rightarrow> u32 \<Rightarrow> u32 \<Rightarrow> xstate \<Rightarrow> xstate option" where
  "exec_add_map type start stop flags x =
     do {
       (asp, s) \<leftarrow> aspace_add_map (xs_next x) type start stop flags (xs_asp x) (xs_sys x);
       Some (fresh_pages x (x\<lparr>xs_asp := asp, xs_sys := s, xs_next := xs_next x + 1\<rparr>))
     }"

definition exec_brk :: "u32 \<Rightarrow> xstate \<Rightarrow> (u32 \<times> xstate) option" where
  "exec_brk new_brk x =
     do {
       (r, asp, s) \<leftarrow> sys_brk None new_brk (xs_asp x) (xs_sys x);
       Some (r, fresh_pages x (x\<lparr>xs_asp := asp, xs_sys := s\<rparr>))
     }"

subsection \<open>The segments\<close>

text \<open>
  The macro \<^verbatim>\<open>RXX\<close>: the value with which the call returns from inside it, if it does, and the bytes that
  were read. \<open>put\<close> tells whether the buffer is in the memory of the program or a local variable.
\<close>

definition RXX :: "dispatch \<Rightarrow> u32 \<Rightarrow> bool \<Rightarrow> u32 \<Rightarrow> u32 \<Rightarrow> u32 \<Rightarrow> xstate \<Rightarrow>
    ((int option \<times> byte option list) \<times> xstate) option" where
  "RXX D fd put a b c x =
     do {
       (e, x) \<leftarrow> with_fs (sys_lseek D fd b 0) x;
       if e < 0 then Some ((Some e, []), x)
       else do {
         kassert (a \<noteq> 0);
         ((e, bs), x) \<leftarrow> with_fs (sys_read D fd a c) x;
         x \<leftarrow> (if put then um_store a bs x else Some x);
         if of_int e \<noteq> c then Some ((Some (if e < 0 then e else - E_IO), bs), x)
         else Some ((None, bs), x)
       }
     }"

definition seg_size :: "Elf_Phdr \<Rightarrow> u32" where
  "seg_size ph = (p_memsz ph + p_align ph - 1) AND NOT (p_align ph - 1)"

text \<open>One program header: the error the call returns with, or the bounds of the image so far.\<close>

definition exec_segment :: "dispatch \<Rightarrow> u32 \<Rightarrow> Elf_Phdr \<Rightarrow> u32 \<times> u32 \<Rightarrow> xstate \<Rightarrow>
    ((int + u32 \<times> u32) \<times> xstate) option" where
  "exec_segment D fd ph bounds x =
     (case p_type ph of
        PT_LOAD \<Rightarrow>
          let sz = seg_size ph;
              base = (if p_vaddr ph < fst bounds then p_vaddr ph else fst bounds);
              stop = (if sz + p_vaddr ph > snd bounds then sz + p_vaddr ph else snd bounds)
          in do {
            x \<leftarrow> exec_add_map (if p_exec ph then ASPACE_TYPE_CODE else ASPACE_TYPE_DATA)
                   (p_vaddr ph) (p_vaddr ph + sz - 1) (ARCH_MAP_USER OR ARCH_MAP_RDWR) x;
            ((r, _), x) \<leftarrow> RXX D fd True (p_vaddr ph) (p_offset ph) (p_filesz ph) x;
            Some (case r of Some e \<Rightarrow> Inl e | None \<Rightarrow> Inr (base, stop), x)
          }
      | PT_TLS \<Rightarrow>
          do {
            x \<leftarrow> exec_add_map ASPACE_TYPE_TLS (p_vaddr ph) (p_vaddr ph + seg_size ph)
                   (ARCH_MAP_USER OR ARCH_MAP_RDWR OR ARCH_MAP_NOEXEC) x;
            Some (Inr bounds, x)
          }
      | PT_GNU_EH_FRAME \<Rightarrow> Some (Inr bounds, x)
      | PT_DYNAMIC \<Rightarrow> None
      | PT_OTHER \<Rightarrow> Some (Inr bounds, x))"

text \<open>
  The loop over the \<open>n\<close> program headers from number \<open>i\<close> on. A header entry larger than the structure
  overruns the local variable it is read to.
\<close>

fun exec_phdrs :: "elf_h \<Rightarrow> dispatch \<Rightarrow> u32 \<Rightarrow> Elf_Ehdr \<Rightarrow> nat \<Rightarrow> nat \<Rightarrow> u32 \<times> u32 \<Rightarrow> xstate \<Rightarrow>
    ((int + u32 \<times> u32) \<times> xstate) option" where
  "exec_phdrs E D fd head i 0 bounds x = Some (Inr bounds, x)"
| "exec_phdrs E D fd head i (Suc n) bounds x =
     do {
       let entsize = ucast (e_phentsize head);
       kassert (entsize \<le> sizeof_phdr E);
       ((r, bs), x) \<leftarrow> RXX D fd False (fs_kstack (xs_fs x)) (e_phoff head + of_nat i * entsize) entsize x;
       case r of
         Some e \<Rightarrow> Some (Inl e, x)
       | None \<Rightarrow>
           do {
             ph \<leftarrow> phdr_of E bs;
             (r, x) \<leftarrow> exec_segment D fd ph bounds x;
             case r of Inl e \<Rightarrow> Some (Inl e, x) | Inr bounds \<Rightarrow> exec_phdrs E D fd head (i + 1) n bounds x
           }
     }"

definition xs_set_lock :: "bool \<Rightarrow> xstate \<Rightarrow> xstate" where
  "xs_set_lock b x = x\<lparr>xs_fs := upd_task (t_lock_update (\<lambda>_. b)) (xs_fs x)\<rparr>"

text \<open>
  The critical section. A \<^verbatim>\<open>return\<close> inside it leaves the lock of the task held.
\<close>

definition exec_image :: "elf_h \<Rightarrow> dispatch \<Rightarrow> u32 \<Rightarrow> Elf_Ehdr \<Rightarrow> xstate \<Rightarrow> (int option \<times> xstate) option" where
  "exec_image E D fd head x =
     do {
       kassert (\<not> t_lock (fs_task (xs_fs x)));
       let x = xs_set_lock True x;
       (asp, s) \<leftarrow> aspace_free (xs_asp x) (xs_sys x);
       let x = x\<lparr>xs_asp := asp\<lparr>as_start := 0, as_end := - 1\<rparr>, xs_sys := s\<rparr>;
       (r, x) \<leftarrow> exec_phdrs E D fd head 0 (unat (e_phnum head)) (- 1, 0) x;
       case r of
         Inl e \<Rightarrow> Some (Some e, x)
       | Inr (i_base, i_end) \<Rightarrow>
           do {
             let stop = (i_end AND NOT (PAGE_SIZE - 1)) + PAGE_SIZE;
             let x = x\<lparr>xs_asp := (xs_asp x)\<lparr>as_start := i_base AND NOT (PAGE_SIZE - 1), as_end := stop\<rparr>\<rparr>;
             f \<leftarrow> task_fd (unat fd) (xs_fs x);
             let x = x\<lparr>xs_exe := fd_inode f\<rparr>;
             x \<leftarrow> exec_add_map ASPACE_TYPE_BRK stop stop
                    (ARCH_MAP_RDWR OR ARCH_MAP_NOEXEC OR ARCH_MAP_USER) x;
             let x = x\<lparr>xs_asp := (xs_asp x)\<lparr>as_end := xs_rss x\<rparr>\<rparr>;
             Some (None, xs_set_lock False x)
           }
     }"

subsection \<open>The strings of the program\<close>

text \<open>The loop that closes descriptors, from number \<open>i\<close> on; \<open>n\<close> of the table are left.\<close>

fun close_on_exec :: "dispatch \<Rightarrow> nat \<Rightarrow> nat \<Rightarrow> xstate \<Rightarrow> xstate option" where
  "close_on_exec D i 0 x = Some x"
| "close_on_exec D i (Suc n) x =
     do {
       f \<leftarrow> task_fd i (xs_fs x);
       if fd_inode f = None then close_on_exec D (i + 1) n x
       else if \<not> xs_cloexec x i then close_on_exec D (i + 1) n x
       else do { (_, x) \<leftarrow> with_fs (sys_close D (of_nat i)) x; close_on_exec D (i + 1) n x }
     }"

text \<open>The assertions of the debug build over a vector of pointers that ends in a null pointer.\<close>

partial_function (option) check_vector :: "xstate \<Rightarrow> u32 \<Rightarrow> unit option" where
  "check_vector x v =
     do {
       p \<leftarrow> load_word x v;
       if p = 0 then Some ()
       else do {
         kassert (arch_ptr_access (xs_asp x) p R_OK (sys_vm (xs_sys x)) = Some True);
         check_vector x (v + 4)
       }
     }"

definition SPACE :: "byte list" where "SPACE = [32]"

text \<open>The mark that ends the arguments and the environment: an escape, three dollars and a space.\<close>

definition MARK :: "byte list" where "MARK = [27, 36, 36, 36, 32]"

partial_function (option) cat_vector :: "u32 \<Rightarrow> u32 \<Rightarrow> xstate \<Rightarrow> xstate option" where
  "cat_vector brk v x =
     do {
       p \<leftarrow> load_word x v;
       if p = 0 then Some x
       else do {
         x \<leftarrow> strcat brk p x;
         x \<leftarrow> cat_bytes brk SPACE x;
         cat_vector brk (v + 4) x
       }
     }"

definition cat_strings :: "u32 \<Rightarrow> u32 \<Rightarrow> u32 \<Rightarrow> u32 \<Rightarrow> xstate \<Rightarrow> xstate option" where
  "cat_strings brk filename argv envp x =
     do {
       x \<leftarrow> strcat brk filename x;
       x \<leftarrow> cat_bytes brk SPACE x;
       x \<leftarrow> cat_vector brk argv x;
       x \<leftarrow> cat_bytes brk MARK x;
       x \<leftarrow> cat_vector brk envp x;
       cat_bytes brk MARK x
     }"

definition exec_tls :: "xstate \<Rightarrow> (u32 \<times> u32) option" where
  "exec_tls x =
     (case aspace_get_maps ASPACE_TYPE_TLS 1 (xs_asp x) (xs_sys x) of
        [] \<Rightarrow> Some (0, 0)
      | m # _ \<Rightarrow> do { t \<leftarrow> sys_maps (xs_sys x) m; Some (am_start t, am_end t) })"

text \<open>The break and the stack; the address of the break and the top of the stack.\<close>

definition exec_stack :: "u32 \<Rightarrow> u32 \<Rightarrow> u32 \<Rightarrow> xstate \<Rightarrow> ((u32 \<times> u32) \<times> xstate) option" where
  "exec_stack filename argv envp x =
     do {
       (brk, x) \<leftarrow> exec_brk 0 x;
       (top, x) \<leftarrow> exec_brk (brk + xs_stack x) x;
       x \<leftarrow> cat_strings (brk + 8) filename argv envp x;
       (tls_start, tls_end) \<leftarrow> exec_tls x;
       x \<leftarrow> um_store brk (word_bytes tls_start @ word_bytes tls_end) x;
       Some ((brk, top), x)
     }"

subsection \<open>The call\<close>

text \<open>
  How the call ends: it returns a value; or the task continues in the new context; or, in an
  interrupt, the function ends without a return statement.
\<close>

datatype exec_result = ExecReturn int | ExecContext | ExecNoValue

definition exec_denied :: "stat \<Rightarrow> ftask \<Rightarrow> bool" where
  "exec_denied st t \<longleftrightarrow>
     (if st_uid st = t_uid t \<and> \<not> has (st_mode st) S_IXUSR then True
      else if st_gid st = t_gid t \<and> \<not> has (st_mode st) S_IXGRP then True
      else \<not> has (st_mode st) S_IXOTH)"

definition exec_start :: "Elf_Ehdr \<Rightarrow> u32 \<Rightarrow> u32 \<Rightarrow> u32 \<Rightarrow> xstate \<Rightarrow> (exec_result \<times> xstate) option" where
  "exec_start head filename argv envp x =
     do {
       check_vector x argv;
       check_vector x envp;
       ((brk, top), x) \<leftarrow> exec_stack filename argv envp x;
       kassert (xs_context x \<noteq> 0);
       kassert (e_entry head \<noteq> 0);
       fr \<leftarrow> arch_task_set_context (xs_context x) (e_entry head) brk top 0;
       let x = x\<lparr>xs_frame := Some fr\<rparr>;
       Some (if xs_interrupt x then ExecNoValue else ExecContext, x)
     }"

definition exec_file :: "elf_h \<Rightarrow> dispatch \<Rightarrow> u32 \<Rightarrow> u32 \<Rightarrow> u32 \<Rightarrow> u32 \<Rightarrow> xstate \<Rightarrow>
    (exec_result \<times> xstate) option" where
  "exec_file E D fd filename argv envp x =
     do {
       ((e, bs), x) \<leftarrow> with_fs (sys_read D fd (fs_kstack (xs_fs x)) (sizeof_ehdr E)) x;
       if e < 0 then Some (ExecReturn e, x)
       else do {
         head \<leftarrow> ehdr_of E bs;
         if e_ident0 head = 35 \<and> e_ident1 head = 33 then Some (ExecReturn (- ENOEXEC), x)
         else if \<not> e_elfmag head \<or> \<not> e_exec head then Some (ExecReturn (- ENOEXEC), x)
         else do {
           (r, x) \<leftarrow> exec_image E D fd head x;
           case r of
             Some e \<Rightarrow> Some (ExecReturn e, x)
           | None \<Rightarrow>
               do {
                 (_, x) \<leftarrow> with_fs (sys_close D fd) x;
                 x \<leftarrow> close_on_exec D 0 TASK_NFD x;
                 exec_start head filename argv envp x
               }
         }
       }
     }"

definition sys_execve :: "elf_h \<Rightarrow> dispatch \<Rightarrow> nat \<Rightarrow> u32 \<Rightarrow> u32 \<Rightarrow> u32 \<Rightarrow> xstate \<Rightarrow>
    (exec_result \<times> xstate) option" where
  "sys_execve E D n filename argv envp x =
     (if filename = 0 \<or> argv = 0 \<or> envp = 0 then Some (ExecReturn (- EINVAL), x)
      else if \<not> fs_chk (fs_view x) filename R_OK \<or> \<not> fs_chk (fs_view x) argv R_OK
              \<or> \<not> fs_chk (fs_view x) envp R_OK
      then Some (ExecReturn (- EFAULT), x)
      else do {
        bs \<leftarrow> load_string x filename;
        let nm = (filename, bytes_string bs);
        ((e, st), x) \<leftarrow> with_fs (sys_newstat D n nm (fs_kstack (xs_fs x))) x;
        if e < 0 then Some (ExecReturn e, x)
        else do {
          st \<leftarrow> st;
          if exec_denied st (fs_task (xs_fs x)) then Some (ExecReturn (- EPERM), x)
          else do {
            (fd, x) \<leftarrow> with_fs (sys_open D n nm O_RDONLY 0) x;
            if fd < 0 then Some (ExecReturn fd, x)
            else exec_file E D (of_int fd) filename argv envp x
          }
        }
      })"

section \<open>Reading the file\<close>

text \<open>The tables of the address space; an address that the kernel may read and write.\<close>

abbreviation xs_vm :: "xstate \<Rightarrow> vm" where
  "xs_vm x \<equiv> sys_vm (xs_sys x)"

definition xs_wf :: "nat \<Rightarrow> xstate \<Rightarrow> bool" where
  "xs_wf d x \<longleftrightarrow> pt_wf (xs_vm x) d \<and> as_vmmpd (xs_asp x) + CONFIG_KERNEL_BASE = frame_addr d"

definition rw_page :: "nat \<Rightarrow> xstate \<Rightarrow> u32 \<Rightarrow> bool" where
  "rw_page d x a \<longleftrightarrow> x86_ptr_access (frame_addr d) a (R_OK OR W_OK) (xs_vm x) = Some True"

lemma page_entry_table: "bit (page_entry s d a) 0 \<Longrightarrow> pdi a \<in> tables s d"
  by (auto simp: page_entry_def pte_def split: if_splits)

lemma present_access: "xs_wf d x \<Longrightarrow> present x a \<longleftrightarrow> x86_ptr_access (frame_addr d) a R_OK (xs_vm x) = Some True"
  by (simp add: present_def xs_wf_def)

lemma rw_page_present: "xs_wf d x \<Longrightarrow> rw_page d x a \<Longrightarrow> present x a"
  by (auto simp: present_access rw_page_def x86_ptr_access_def Let_def R_OK_def W_OK_def kassert_def split: if_splits)

lemma access_entry:
  assumes "pt_wf s d" "\<not> bit (cell s d (pdi a)) 7"
  shows "x86_ptr_access (frame_addr d) a R_OK s = Some (bit (page_entry s d a) 0)"
    "x86_ptr_access (frame_addr d) a (R_OK OR W_OK) s = Some (bit (page_entry s d a) 0 \<and> bit (page_entry s d a) 1)"
  using x86_ptr_access_entry [OF assms] page_entry_table [of s d a] by (auto simp: R_OK_def W_OK_def)

text \<open>Mapping pages changes the access to no other page.\<close>

lemma access_grows:
  assumes "pt_wf s d" "pt_wf s' d" "vm_grows n s s' d" "page_entry s' d a = page_entry s d a"
  shows "x86_ptr_access (frame_addr d) a R_OK s' = x86_ptr_access (frame_addr d) a R_OK s"
    "x86_ptr_access (frame_addr d) a (R_OK OR W_OK) s' = x86_ptr_access (frame_addr d) a (R_OK OR W_OK) s"
proof -
  have "x86_ptr_access (frame_addr d) a m s' = x86_ptr_access (frame_addr d) a m s" if "bit (cell s d (pdi a)) 7" for m
    using that assms(3) by (simp add: x86_ptr_access_def pde_cell vm_grows_def pg_bit Let_def)
  moreover have "\<not> bit (cell s' d (pdi a)) 7" if "\<not> bit (cell s d (pdi a)) 7" using that assms(3) by (simp add: vm_grows_def)
  ultimately show "x86_ptr_access (frame_addr d) a R_OK s' = x86_ptr_access (frame_addr d) a R_OK s"
    "x86_ptr_access (frame_addr d) a (R_OK OR W_OK) s' = x86_ptr_access (frame_addr d) a (R_OK OR W_OK) s"
    using access_entry [OF assms(1), of a] access_entry [OF assms(2), of a] assms(4)
    by (cases "bit (cell s d (pdi a)) 7"; simp)+
qed

lemma view_check:
  assumes "xs_wf d x" "rw_page d x a" "a \<noteq> 0"
  shows "fs_chk (fs_view x) a (R_OK OR W_OK)" "fs_chk (fs_view x) a R_OK"
  using assms rw_page_present [OF assms(1,2)] present_access [OF assms(1)]
  by (simp_all add: fs_view_def arch_ptr_access_def xs_wf_def rw_page_def)

text \<open>A descriptor that is open for reading on a regular file of a tmpfs, and the kernel's own buffers.\<close>

definition prog_file :: "u32 \<Rightarrow> iptr \<Rightarrow> tmpfs_inode \<Rightarrow> xstate \<Rightarrow> bool" where
  "prog_file fd p n x \<longleftrightarrow> (\<exists>f i b sb. open_file (xs_fs x) fd f p i b sb n \<and> \<not> has (fd_flags f) O_WRONLY)
     \<and> \<not> S_ISFIFO (st_mode (ti_st n)) \<and> unat (st_size (ti_st n)) < 2 ^ 31"

definition kbuf_ok :: "nat \<Rightarrow> xstate \<Rightarrow> bool" where
  "kbuf_ok d x \<longleftrightarrow> fs_kstack (xs_fs x) \<noteq> 0 \<and> rw_page d x (fs_kstack (xs_fs x))"

lemma open_file_cong:
  assumes "fs_task t = fs_task s" "fs_inodes t = fs_inodes s" "fs_sbs t = fs_sbs s"
  shows "open_file t fd f p i b sb n = open_file s fd f p i b sb n"
  using assms live_node_cong [of t s] by (simp add: open_file_def)

lemma open_file_view: "open_file (fs_view x) fd f p i b sb n = open_file (xs_fs x) fd f p i b sb n"
  by (rule open_file_cong) (simp_all add: fs_view_def)

lemma fs_view_sel [simp]:
  "fs_task (fs_view x) = fs_task (xs_fs x)" "fs_kstack (fs_view x) = fs_kstack (xs_fs x)"
  "fs_inodes (fs_view x) = fs_inodes (xs_fs x)"
  by (simp_all add: fs_view_def)

lemma length_file_bytes_live:
  assumes "open_file s fd f p i b sb n"
  shows "length (file_bytes n) = unat (st_size (ti_st n))"
  using length_file_bytes live_nodeD(4) open_fileD(4) [OF assms] by blast

text \<open>What the file calls keep of the state of the task.\<close>

definition xs_frame_of :: "u32 \<Rightarrow> fs \<Rightarrow> fs \<Rightarrow> bool" where
  "xs_frame_of fd s t \<longleftrightarrow> fs_kstack t = fs_kstack s \<and> fs_inodes t = fs_inodes s
     \<and> t_lock (fs_task t) = t_lock (fs_task s) \<and> length (t_fd (fs_task t)) = length (t_fd (fs_task s))
     \<and> (\<forall>j. j \<noteq> unat fd \<longrightarrow> t_fd (fs_task t) ! j = t_fd (fs_task s) ! j)"

lemma xs_frame_of_refl: "xs_frame_of fd s s"
  by (simp add: xs_frame_of_def)

lemma xs_frame_of_trans: "xs_frame_of fd s t \<Longrightarrow> xs_frame_of fd t u \<Longrightarrow> xs_frame_of fd s u"
  by (simp add: xs_frame_of_def)

text \<open>Seeking and reading: the bytes of the file from \<open>b\<close> on, at most \<open>c\<close> of them.\<close>

lemma RXX_pread:
  assumes wf: "xs_wf d x" and k: "kbuf_ok d x" and F: "prog_file fd p n x"
    and a: "a \<noteq> 0" "rw_page d x a" and c: "c \<noteq> 0" "unat b \<le> unat (st_size (ti_st n))" "unat b + unat c < 2 ^ 31"
    and st: "put \<longrightarrow> (\<forall>i < unat c. present x (a + of_nat i))"
    and r: "r = pread (file_bytes n) (unat b) (unat c)"
  obtains s where "RXX (fs_dispatch X m) fd put a b c x = Some ((if length r = unat c then None else Some (- E_IO), r),
      x\<lparr>xs_fs := s, xs_mem := (if put then um_put a r (xs_mem x) else xs_mem x)\<rparr>)"
    "prog_file fd p n (x\<lparr>xs_fs := s\<rparr>)" "xs_frame_of fd (xs_fs x) s"
proof -
  from F obtain f i bb sb where O: "open_file (fs_view x) fd f p i bb sb n" "\<not> has (fd_flags f) O_WRONLY"
    and n: "\<not> S_ISFIFO (st_mode (ti_st n))" "unat (st_size (ti_st n)) < 2 ^ 31"
    by (auto simp: prog_file_def open_file_view)
  have kk: "fs_kstack (fs_view x) \<noteq> 0" "ptr_check (fs_view x) (fs_kstack (fs_view x)) (R_OK OR W_OK)"
    using k view_check [OF wf] by (auto simp: kbuf_ok_def)
  obtain t where t: "sys_lseek (fs_dispatch X m) fd b 0 (fs_view x) = Some (sint b, t)"
    "open_file t fd (f\<lparr>fd_position := b\<rparr>) p i bb sb n" "fs_chk t = fs_chk (fs_view x)" "io_frame (unat fd) (fs_view x) t"
    by (rule sys_lseek_open [OF O(1) n(1) kk])
  let ?x = "x\<lparr>xs_fs := t\<rparr>"
  have sb: "sint b = int (unat b)" using c(2) n(2) by (intro sint_small) simp
  have v: "fs_view ?x = t" using t(3) by (simp add: fs_view_def)
  have ck: "ptr_check t a (R_OK OR W_OK)" using t(3) view_check [OF wf a(2,1)] by simp
  obtain u where u: "sys_read (fs_dispatch X m) fd a c t = Some ((int (length r), r), u)"
    "open_file u fd (f\<lparr>fd_position := b + of_nat (length r)\<rparr>) p i bb sb n" "io_frame (unat fd) t u"
    using sys_read_open [OF t(2) _ a(1) ck c(1), of X m] O(2) c(2,3) n(2) r
    by (auto simp: Let_def word_le_nat_alt)
  have len: "length r \<le> unat c" by (simp add: r pread_def)
  then have e: "(of_int (int (length r)) :: u32) \<noteq> c \<longleftrightarrow> length r \<noteq> unat c"
    using c(3) by (auto simp: word_unat_eq_iff unat_of_nat)
  have store: "(if put then um_store a r (?x\<lparr>xs_fs := u\<rparr>) else Some (?x\<lparr>xs_fs := u\<rparr>))
      = Some (x\<lparr>xs_fs := u, xs_mem := (if put then um_put a r (xs_mem x) else xs_mem x)\<rparr>)"
    using st len by (auto simp: um_store_def present_def kassert_def)
  have "RXX (fs_dispatch X m) fd put a b c x = Some ((if length r = unat c then None else Some (- E_IO), r),
      x\<lparr>xs_fs := u, xs_mem := (if put then um_put a r (xs_mem x) else xs_mem x)\<rparr>)"
    using t(1) u(1) sb e store a(1) by (simp add: RXX_def with_fs_def v split: if_splits)
  moreover have "prog_file fd p n (x\<lparr>xs_fs := u\<rparr>)" using u(2) O(2) n by (fastforce simp: prog_file_def)
  moreover have "xs_frame_of fd (xs_fs x) u" using t(4) u(3) by (auto simp: io_frame_def xs_frame_of_def)
  ultimately show thesis by (rule that)
qed


section \<open>Adding pages\<close>

lemma xs_access_grows:
  assumes "xs_wf d x" "xs_wf d y" "vm_grows n (xs_vm x) (xs_vm y) d"
    "page_entry (xs_vm y) d a = page_entry (xs_vm x) d a"
  shows "present y a = present x a" "rw_page d y a = rw_page d x a"
  using access_grows [OF _ _ assms(3,4)] assms(1,2) by (simp_all add: present_def rw_page_def xs_wf_def)

text \<open>\<open>n\<close> pages from page \<open>q\<close> on are new, writable and clear; the others are as before.\<close>

definition pages_added :: "nat \<Rightarrow> nat \<Rightarrow> nat \<Rightarrow> xstate \<Rightarrow> xstate \<Rightarrow> bool" where
  "pages_added d q n x y \<longleftrightarrow> xs_wf d y \<and> vm_grows n (xs_vm x) (xs_vm y) d \<and>
     (\<forall>a. if q \<le> pn a \<and> pn a < q + n then rw_page d y a \<and> xs_mem y a = Some 0
          else page_entry (xs_vm y) d a = page_entry (xs_vm x) d a \<and> xs_mem y a = xs_mem x a)"

lemma pages_addedD:
  assumes "pages_added d q n x y"
  shows "xs_wf d y" "vm_grows n (xs_vm x) (xs_vm y) d"
    "q \<le> pn a \<Longrightarrow> pn a < q + n \<Longrightarrow> rw_page d y a \<and> xs_mem y a = Some 0"
    "\<not> (q \<le> pn a \<and> pn a < q + n) \<Longrightarrow> page_entry (xs_vm y) d a = page_entry (xs_vm x) d a \<and> xs_mem y a = xs_mem x a"
  using assms unfolding pages_added_def by presburger+

lemma fresh_pages_added:
  assumes wf: "xs_wf d x" "xs_wf d y" and g: "vm_grows (Suc n) (xs_vm x) (xs_vm y) d"
    and m: "maps_range q n flags (xs_vm x) (xs_vm y) d" "flags AND ARCH_MAP_RDWR \<noteq> 0"
    and un: "\<forall>a. q \<le> pn a \<and> pn a < q + Suc n \<longrightarrow> unmapped (xs_vm x) d a" and mem: "xs_mem y = xs_mem x"
  shows "pages_added d q (Suc n) x (fresh_pages x y)"
proof -
  let ?z = "fresh_pages x y"
  have z: "xs_vm ?z = xs_vm y" "xs_asp ?z = xs_asp y" by (simp_all add: fresh_pages_def)
  have "if q \<le> pn a \<and> pn a < q + Suc n then rw_page d ?z a \<and> xs_mem ?z a = Some 0
        else page_entry (xs_vm ?z) d a = page_entry (xs_vm x) d a \<and> xs_mem ?z a = xs_mem x a" for a
  proof (cases "q \<le> pn a \<and> pn a < q + Suc n")
    case True
    then have u: "\<not> bit (page_entry (xs_vm x) d a) 0" "\<not> bit (cell (xs_vm x) d (pdi a)) 7"
      using un by (auto simp: unmapped_def)
    moreover have "mapped_as flags a (page_entry (xs_vm y) d a)"
      using m(1) [unfolded maps_range_def, THEN spec, of a] True by simp
    then have b: "bit (page_entry (xs_vm y) d a) 0" "bit (page_entry (xs_vm y) d a) 1"
      using m(2) by (simp_all add: mapped_as_def)
    moreover have "\<not> bit (cell (xs_vm y) d (pdi a)) 7" using u(2) g by (simp add: vm_grows_def)
    ultimately show ?thesis using True wf access_entry [of "xs_vm x" d a] access_entry [of "xs_vm y" d a]
      by (simp add: fresh_pages_def rw_page_def present_def xs_wf_def)
  next
    case False
    then have e: "page_entry (xs_vm y) d a = page_entry (xs_vm x) d a"
      using m(1) [unfolded maps_range_def, THEN spec, of a] by auto
    with False mem xs_access_grows(1) [OF wf g e] show ?thesis by (auto simp: fresh_pages_def)
  qed
  moreover have "xs_wf d ?z" using wf(2) z by (simp add: xs_wf_def)
  ultimately show ?thesis using g z unfolding pages_added_def by metis
qed

lemma new_range:
  assumes "0 < q" "q + n + 2 < 2 ^ 20"
  shows "pa q < pa q + pa (Suc n) - 1" "pa q + pa (Suc n) - 1 - pa q = pa (Suc n) - 1"
    "pages_for (pa (Suc n) - 1) = Suc n" "pa (Suc n) - 1 \<noteq> 0" "pa q \<noteq> 0"
proof -
  have u: "unat (pa q) = q * 4096" "unat (pa (Suc n)) = Suc n * 4096" "unat (pa (q + Suc n)) = (q + Suc n) * 4096"
    using assms unat_pa by auto
  have s: "unat (pa (q + Suc n) - 1) = (q + Suc n) * 4096 - 1" "unat (pa (Suc n) - 1) = Suc n * 4096 - 1"
    using u by (simp_all add: unat_sub word_le_nat_alt)
  show "pa q < pa q + pa (Suc n) - 1" unfolding pa_add using s(1) u(1) by (simp add: word_less_nat_alt)
  show "pa q + pa (Suc n) - 1 - pa q = pa (Suc n) - 1" by simp
  have "pages_for (pa (Suc n) - 1) = (Suc n * 4096 + 4094) div 4096" by (simp add: pages_for_def s(2))
  also have "\<dots> = Suc n" by simp
  finally show "pages_for (pa (Suc n) - 1) = Suc n" .
  show "pa (Suc n) - 1 \<noteq> 0" using s(2) by auto
  show "pa q \<noteq> 0" using u(1) assms(1) by auto
qed

text \<open>A map of whole pages.\<close>

definition new_map :: "byte \<Rightarrow> u32 \<Rightarrow> u32 \<Rightarrow> u32 \<Rightarrow> as_map" where
  "new_map type start stop flags = \<lparr>am_type = type, am_flags = flags, am_start = start, am_end = stop,
     am_lock = False, am_refcount = 1\<rparr>"

text \<open>New map objects at the end of the list of the address space.\<close>

definition maps_added :: "as_map list \<Rightarrow> xstate \<Rightarrow> xstate \<Rightarrow> bool" where
  "maps_added ms x y \<longleftrightarrow> xs_next y = xs_next x + length ms
     \<and> as_mappings (xs_asp y) = as_mappings (xs_asp x) @ [xs_next x ..< xs_next x + length ms]
     \<and> (\<forall>i < length ms. sys_maps (xs_sys y) (xs_next x + i) = Some (ms ! i))
     \<and> (\<forall>m < xs_next x. sys_maps (xs_sys y) m = sys_maps (xs_sys x) m)"

definition task_kept :: "u32 \<Rightarrow> xstate \<Rightarrow> xstate \<Rightarrow> bool" where
  "task_kept fd x y \<longleftrightarrow> xs_frame_of fd (xs_fs x) (xs_fs y)
     \<and> xs_cloexec y = xs_cloexec x \<and> xs_exe y = xs_exe x \<and> xs_rss y = xs_rss x \<and> xs_stack y = xs_stack x
     \<and> xs_context y = xs_context x \<and> xs_frame y = xs_frame x \<and> xs_interrupt y = xs_interrupt x"

lemma exec_add_map_pages:
  assumes wf: "xs_wf d x" and q: "0 < q" "q + n + 2 < 2 ^ 20" and ty: "type = ASPACE_TYPE_CODE \<or> type = ASPACE_TYPE_DATA"
    and lim: "as_end (xs_asp x) = - 1" and un: "\<forall>a. q \<le> pn a \<and> pn a < q + Suc n \<longrightarrow> unmapped (xs_vm x) d a"
    and room: "card (vm_taken (xs_vm x)) + 2 * Suc n \<le> pmm_blocks (vm_pmm (xs_vm x))"
  obtains y where
    "exec_add_map type (pa q) (pa q + pa (Suc n) - 1) (ARCH_MAP_USER OR ARCH_MAP_RDWR) x = Some y"
    "pages_added d q (Suc n) x y" "as_end (xs_asp y) = - 1" "xs_fs y = xs_fs x"
    "maps_added [new_map type (pa q) (pa (q + Suc n)) (ARCH_MAP_USER OR ARCH_MAP_RDWR)] x y" "task_kept fd x y"
proof -
  let ?fl = "ARCH_MAP_USER OR ARCH_MAP_RDWR" and ?asp = "xs_asp x"
  let ?m = "new_map type (pa q) (pa q) ?fl" and ?incr = "pa (Suc n) - 1"
  let ?s = "(xs_sys x)\<lparr>sys_maps := (sys_maps (xs_sys x))(xs_next x \<mapsto> ?m)\<rparr>"
  note R = new_range [OF q]
  have fl: "?fl AND 0xFFFFFFF = ?fl" "?fl AND ARCH_MAP_RDWR \<noteq> 0" by (simp_all add: ARCH_MAP_USER_def ARCH_MAP_RDWR_def)
  have t: "type AND 0xF = type" "type \<noteq> ASPACE_TYPE_UNKNOWN" "type \<noteq> ASPACE_TYPE_TLS" "type \<noteq> ASPACE_TYPE_SWAP"
    using ty by (auto simp: ASPACE_TYPE_CODE_def ASPACE_TYPE_DATA_def ASPACE_TYPE_UNKNOWN_def ASPACE_TYPE_TLS_def
        ASPACE_TYPE_SWAP_def)
  have un': "\<forall>a. q \<le> pn a \<and> pn a \<le> q + n \<longrightarrow> unmapped (sys_vm ?s) d a" using un by simp
  have w: "pt_wf (sys_vm ?s) d" "as_vmmpd ?asp + CONFIG_KERNEL_BASE = frame_addr d"
    using wf by (simp_all add: xs_wf_def)
  from aspace_enlarge_map_spec [OF w, of "xs_next x" ?m q ?incr n] obtain v where
    v: "aspace_enlarge_map (xs_next x) ?incr ?asp ?s = Some (?asp\<lparr>as_size := as_size ?asp + of_nat (Suc n) * PAGE_SIZE\<rparr>,
        ?s\<lparr>sys_vm := v, sys_maps := (sys_maps ?s)(xs_next x \<mapsto> ?m\<lparr>am_end := pa (q + Suc n)\<rparr>)\<rparr>)"
     "pt_wf v d" "vm_grows (Suc n) (sys_vm ?s) v d" "maps_range q n (am_flags ?m) (sys_vm ?s) v d"
    using R q un' room lim by (auto simp: new_map_def)
  let ?asp' = "?asp\<lparr>as_size := as_size ?asp + of_nat (Suc n) * PAGE_SIZE, as_mappings := as_mappings ?asp @ [xs_next x]\<rparr>"
  let ?s' = "(xs_sys x)\<lparr>sys_vm := v, sys_maps := (sys_maps (xs_sys x))(xs_next x \<mapsto> ?m\<lparr>am_end := pa (q + Suc n)\<rparr>)\<rparr>"
  define z where "z = x\<lparr>xs_asp := ?asp', xs_sys := ?s', xs_next := xs_next x + 1\<rparr>"
  have "aspace_add_map (xs_next x) type (pa q) (pa q + pa (Suc n) - 1) ?fl ?asp (xs_sys x) = Some (?asp', ?s')"
    using v(1) R(1,2) t(2-4) by (simp add: aspace_add_map_def Let_def t(1) fl(1) new_map_def [symmetric] less_imp_le
        del: of_nat_Suc)
  then have "exec_add_map type (pa q) (pa q + pa (Suc n) - 1) ?fl x = Some (fresh_pages x z)"
    by (simp add: exec_add_map_def z_def del: of_nat_Suc)
  moreover have "pages_added d q (Suc n) x (fresh_pages x z)"
    using v(2-4) wf fl(2) un by (intro fresh_pages_added [where flags = ?fl]) (auto simp: z_def xs_wf_def new_map_def)
  ultimately show thesis
    by (rule that)
       (use lim in \<open>simp_all add: fresh_pages_def z_def new_map_def maps_added_def task_kept_def xs_frame_of_refl\<close>)
qed


section \<open>Loading the segments\<close>

text \<open>The pages of a segment, and what its memory holds: the bytes of the file, then zeros.\<close>

definition seg_pages :: "Elf_Phdr \<Rightarrow> nat" where
  "seg_pages ph = (if p_type ph = PT_LOAD then (unat (p_memsz ph) + 4095) div 4096 else 0)"

definition in_seg :: "Elf_Phdr \<Rightarrow> u32 \<Rightarrow> bool" where
  "in_seg ph a \<longleftrightarrow> pn (p_vaddr ph) \<le> pn a \<and> pn a < pn (p_vaddr ph) + seg_pages ph"

definition seg_byte :: "tmpfs_inode \<Rightarrow> Elf_Phdr \<Rightarrow> u32 \<Rightarrow> byte option" where
  "seg_byte n ph a =
     (let i = unat (a - p_vaddr ph)
      in if i < unat (p_filesz ph) then file_bytes n ! (unat (p_offset ph) + i) else Some 0)"

text \<open>A program header that can be loaded from a file: a segment on whole pages, below the last pages of
  the address space, with its bytes inside the file; or a header that is skipped.\<close>

definition seg_fits :: "tmpfs_inode \<Rightarrow> Elf_Phdr \<Rightarrow> bool" where
  "seg_fits n ph \<longleftrightarrow>
     (case p_type ph of
        PT_LOAD \<Rightarrow> p_align ph = PAGE_SIZE \<and> p_vaddr ph = pa (pn (p_vaddr ph)) \<and> 0 < pn (p_vaddr ph)
          \<and> pn (p_vaddr ph) + seg_pages ph + 1 < 2 ^ 20 \<and> 0 < p_filesz ph \<and> p_filesz ph \<le> p_memsz ph
          \<and> unat (p_offset ph) + unat (p_filesz ph) \<le> unat (st_size (ti_st n))
      | PT_TLS \<Rightarrow> False | PT_DYNAMIC \<Rightarrow> False | _ \<Rightarrow> True)"

definition seg_bounds :: "Elf_Phdr \<Rightarrow> u32 \<times> u32 \<Rightarrow> u32 \<times> u32" where
  "seg_bounds ph bounds =
     (if p_type ph = PT_LOAD
      then (min (p_vaddr ph) (fst bounds), max (p_vaddr ph + pa (seg_pages ph)) (snd bounds))
      else bounds)"

lemma seg_fits_load:
  assumes "seg_fits n ph" "p_type ph = PT_LOAD"
  obtains q k where "p_vaddr ph = pa q" "0 < q" "pn (p_vaddr ph) = q" "seg_pages ph = Suc k" "q + k + 2 < 2 ^ 20"
    "seg_size ph = pa (Suc k)" "unat (p_filesz ph) \<le> Suc k * 4096" "0 < unat (p_filesz ph)"
    "unat (p_offset ph) + unat (p_filesz ph) \<le> unat (st_size (ti_st n))"
proof -
  from assms have A: "p_align ph = PAGE_SIZE" "p_vaddr ph = pa (pn (p_vaddr ph))" "0 < pn (p_vaddr ph)"
    "pn (p_vaddr ph) + seg_pages ph + 1 < 2 ^ 20" "0 < unat (p_filesz ph)" "unat (p_filesz ph) \<le> unat (p_memsz ph)"
    "unat (p_offset ph) + unat (p_filesz ph) \<le> unat (st_size (ti_st n))"
    by (simp_all add: seg_fits_def word_le_nat_alt word_less_nat_alt)
  have sp: "seg_pages ph = (unat (p_memsz ph) + 4095) div 4096" using assms(2) by (simp add: seg_pages_def)
  then have "0 < seg_pages ph" using A(5,6) by (simp add: div_greater_zero_iff)
  then obtain k where k: "seg_pages ph = Suc k" using gr0_conv_Suc by blast
  have "p_memsz ph \<noteq> 0" using A(5,6) by auto
  then have le: "unat (p_memsz ph) \<le> Suc k * 4096" using pages_for_bounds(2) sp k by (simp add: pages_for_def)
  have bnd: "unat (p_memsz ph) + 4095 < 2 ^ 32" using le k A(4) by simp
  have "unat (p_memsz ph + PAGE_SIZE - 1) = unat (p_memsz ph) + 4095"
  proof -
    have "p_memsz ph + PAGE_SIZE - 1 = of_nat (unat (p_memsz ph) + 4095)" by (simp add: PAGE_SIZE_def)
    with bnd show ?thesis by (simp only: unat_of_nat) simp
  qed
  then have "pn (p_memsz ph + PAGE_SIZE - 1) = Suc k" using sp k by (simp add: pn_div)
  then have "seg_size ph = pa (Suc k)" using A(1) by (simp add: seg_size_def page_mask)
  then show thesis using that [of "pn (p_vaddr ph)" k] A k le by auto
qed

lemma pn_pa_plus:
  assumes "q * 4096 + i < 2 ^ 32"
  shows "pn (pa q + of_nat i) = q + i div 4096"
proof -
  have "pa q + of_nat i = of_nat (q * 4096 + i)" by (simp add: pa_def)
  then have "unat (pa q + of_nat i) = q * 4096 + i" using assms by (simp only: unat_of_nat) simp
  then show ?thesis by (simp add: pn_div)
qed

lemma um_put_pread:
  assumes "unat off + unat sz \<le> length C" "r = pread C (unat off) (unat sz)"
  shows "um_put v r m a = (if unat (a - v) < unat sz then C ! (unat off + unat (a - v)) else m a)"
  using assms by (simp add: um_put_def pread_def)

lemma pn_minus:
  assumes "unat (a - pa q) < k * 4096" "q + k < 2 ^ 20"
  shows "q \<le> pn a" "pn a < q + k"
proof -
  have "a = pa q + of_nat (unat (a - pa q))" by simp
  moreover have "q * 4096 + k * 4096 < 2 ^ 32" using assms(2) by simp
  then have "q * 4096 + unat (a - pa q) < 2 ^ 32" using assms(1) by linarith
  ultimately have "pn a = q + unat (a - pa q) div 4096" using pn_pa_plus by metis
  then show "q \<le> pn a" "pn a < q + k" using assms(1) by (auto simp: less_mult_imp_div_less)
qed


text \<open>The state that the loop works in, and what is free for the segments to come.\<close>

definition exec_ok :: "nat \<Rightarrow> u32 \<Rightarrow> iptr \<Rightarrow> tmpfs_inode \<Rightarrow> xstate \<Rightarrow> bool" where
  "exec_ok d fd p n x \<longleftrightarrow> xs_wf d x \<and> kbuf_ok d x \<and> prog_file fd p n x \<and> as_end (xs_asp x) = - 1"

definition segs_free :: "nat \<Rightarrow> Elf_Phdr list \<Rightarrow> xstate \<Rightarrow> bool" where
  "segs_free d phs x \<longleftrightarrow> (\<forall>ph \<in> set phs. \<forall>a. in_seg ph a \<longrightarrow> unmapped (xs_vm x) d a)
     \<and> card (vm_taken (xs_vm x)) + 2 * sum_list (map seg_pages phs) \<le> pmm_blocks (vm_pmm (xs_vm x))"

definition segs_apart :: "Elf_Phdr list \<Rightarrow> bool" where
  "segs_apart = sorted_wrt (\<lambda>ph ph'. \<forall>a. \<not> (in_seg ph a \<and> in_seg ph' a))"

text \<open>The memory after the segments were loaded: they hold the bytes of the file and may be written;
  everything else is as before.\<close>

definition segs_loaded :: "nat \<Rightarrow> tmpfs_inode \<Rightarrow> Elf_Phdr list \<Rightarrow> xstate \<Rightarrow> xstate \<Rightarrow> bool" where
  "segs_loaded d n phs x y \<longleftrightarrow>
     (\<forall>ph \<in> set phs. \<forall>a. in_seg ph a \<longrightarrow> rw_page d y a \<and> xs_mem y a = seg_byte n ph a)
     \<and> (\<forall>a. (\<forall>ph \<in> set phs. \<not> in_seg ph a) \<longrightarrow> page_entry (xs_vm y) d a = page_entry (xs_vm x) d a
          \<and> xs_mem y a = xs_mem x a)
     \<and> vm_grows (sum_list (map seg_pages phs)) (xs_vm x) (xs_vm y) d"

text \<open>One map object per segment, in order.\<close>

definition seg_maps :: "Elf_Phdr list \<Rightarrow> as_map list" where
  "seg_maps phs =
     map (\<lambda>ph. new_map (if p_exec ph then ASPACE_TYPE_CODE else ASPACE_TYPE_DATA) (p_vaddr ph)
                  (p_vaddr ph + pa (seg_pages ph)) (ARCH_MAP_USER OR ARCH_MAP_RDWR))
       (filter (\<lambda>ph. p_type ph = PT_LOAD) phs)"

lemma segs_loaded_nil: "seg_pages ph = 0 \<Longrightarrow> segs_loaded d n [ph] x x"
  by (auto simp: segs_loaded_def in_seg_def vm_grows_zero)

lemma segs_loaded_append:
  assumes "segs_loaded d n [ph] x y" "segs_loaded d n phs y z" "segs_apart (ph # phs)" "xs_wf d y" "xs_wf d z"
  shows "segs_loaded d n (ph # phs) x z"
proof -
  have g: "vm_grows (sum_list (map seg_pages phs)) (xs_vm y) (xs_vm z) d" using assms(2) by (simp add: segs_loaded_def)
  have "rw_page d z a \<and> xs_mem z a = seg_byte n ph a" if "in_seg ph a" for a
  proof -
    have "\<forall>ph' \<in> set phs. \<not> in_seg ph' a" using assms(3) that by (auto simp: segs_apart_def)
    then have "xs_mem z a = xs_mem y a" "page_entry (xs_vm z) d a = page_entry (xs_vm y) d a"
      using assms(2) by (auto simp: segs_loaded_def)
    with xs_access_grows(2) [OF assms(4,5) g] assms(1) that show ?thesis by (auto simp: segs_loaded_def)
  qed
  moreover have "vm_grows (seg_pages ph + sum_list (map seg_pages phs)) (xs_vm x) (xs_vm z) d"
    using g assms(1) vm_grows_trans by (auto simp: segs_loaded_def)
  ultimately show ?thesis using assms(1,2) by (auto simp: segs_loaded_def)
qed

lemma maps_added_append:
  assumes "maps_added ms x y" "maps_added ms' y z"
  shows "maps_added (ms @ ms') x z"
proof -
  have "sys_maps (xs_sys z) (xs_next x + i) = Some ((ms @ ms') ! i)" if "i < length (ms @ ms')" for i
  proof (cases "i < length ms")
    case True
    then show ?thesis using assms by (auto simp: maps_added_def nth_append)
  next
    case False
    then have "xs_next x + i = xs_next y + (i - length ms)" "i - length ms < length ms'"
      using assms(1) that by (auto simp: maps_added_def)
    then show ?thesis using assms(2) False
      by (simp only: maps_added_def nth_append if_False)
  qed
  moreover have "[a ..< a + (m + k)] = [a ..< a + m] @ [a + m ..< a + m + k]" for a m k :: nat
    using upt_add_eq_append [of a "a + m" k] by (simp add: add.assoc)
  ultimately show ?thesis using assms by (auto simp: maps_added_def)
qed

lemma task_kept_trans: "task_kept fd x y \<Longrightarrow> task_kept fd y z \<Longrightarrow> task_kept fd x z"
  using xs_frame_of_trans by (auto simp: task_kept_def)


lemma kbuf_pages_added:
  assumes "kbuf_ok d x" "pages_added d q k x y" "fs_kstack (xs_fs y) = fs_kstack (xs_fs x)" "xs_wf d x"
    "\<forall>a. q \<le> pn a \<and> pn a < q + k \<longrightarrow> unmapped (xs_vm x) d a"
  shows "kbuf_ok d y"
proof -
  let ?b = "fs_kstack (xs_fs x)"
  note P = pages_addedD [OF assms(2)]
  have r: "rw_page d x ?b" using assms(1) by (simp add: kbuf_ok_def)
  then have "\<not> (q \<le> pn ?b \<and> pn ?b < q + k)"
    using assms(4,5) access_entry(2) [of "xs_vm x" d ?b] by (auto simp: unmapped_def rw_page_def xs_wf_def)
  with xs_access_grows(2) [OF assms(4) P(1,2)] P(4) r assms(1,3) show ?thesis by (simp add: kbuf_ok_def)
qed

lemma pages_added_present:
  assumes "pages_added d q k x y" "q + k < 2 ^ 20" "i < k * 4096"
  shows "rw_page d y (pa q + of_nat i)" "present y (pa q + of_nat i)"
proof -
  have "q * 4096 + k * 4096 < 2 ^ 32" using assms(2) by simp
  then have "q * 4096 + i < 2 ^ 32" using assms(3) by linarith
  from pn_pa_plus [OF this] have "q \<le> pn (pa q + of_nat i)" "pn (pa q + of_nat i) < q + k"
    using assms(3) by (auto intro!: less_mult_imp_div_less)
  then show "rw_page d y (pa q + of_nat i)" using pages_addedD(3) [OF assms(1)] by simp
  then show "present y (pa q + of_nat i)" by (rule rw_page_present [OF pages_addedD(1) [OF assms(1)]])
qed

text \<open>The bytes of the file stored over new pages are the memory of the segment.\<close>

lemma seg_stored:
  assumes Q: "p_vaddr ph = pa q" "pn (p_vaddr ph) = q" "seg_pages ph = k" "q + k < 2 ^ 20"
      "unat (p_filesz ph) \<le> k * 4096" "unat (p_offset ph) + unat (p_filesz ph) \<le> length (file_bytes n)"
    and P: "pages_added d q k x y"
    and z: "z = y\<lparr>xs_fs := s, xs_mem := um_put (p_vaddr ph)
      (pread (file_bytes n) (unat (p_offset ph)) (unat (p_filesz ph))) (xs_mem y)\<rparr>"
  shows "segs_loaded d n [ph] x z"
proof -
  let ?v = "p_vaddr ph"
  have m: "xs_mem z a = (if unat (a - ?v) < unat (p_filesz ph) then file_bytes n ! (unat (p_offset ph) + unat (a - ?v))
      else xs_mem y a)" for a
    using um_put_pread [OF _ refl, of "p_offset ph" "p_filesz ph" "file_bytes n"] Q(6) by (simp add: z)
  have i: "in_seg ph a" if "unat (a - ?v) < unat (p_filesz ph)" for a
    using pn_minus [of a q k] that Q by (simp add: in_seg_def)
  have "if in_seg ph a then rw_page d z a \<and> xs_mem z a = seg_byte n ph a
      else page_entry (xs_vm z) d a = page_entry (xs_vm x) d a \<and> xs_mem z a = xs_mem x a" for a
    using pages_addedD(3,4) [OF P, of a] m [of a] i [of a] Q(2,3)
    by (auto simp: in_seg_def z rw_page_def seg_byte_def Let_def split: if_splits)
  moreover have "vm_grows k (xs_vm x) (xs_vm z) d" using P by (simp add: pages_added_def z)
  ultimately show ?thesis using Q(3) unfolding segs_loaded_def by auto
qed

lemma prog_file_bytes:
  assumes "prog_file fd p n x"
  shows "length (file_bytes n) = unat (st_size (ti_st n))"
proof -
  obtain f i b sb where "open_file (xs_fs x) fd f p i b sb n" using assms by (auto simp: prog_file_def)
  then show ?thesis by (rule length_file_bytes_live)
qed

text \<open>The bytes of a segment, read into the pages that were mapped for it.\<close>

lemma seg_read:
  assumes Q: "p_vaddr ph = pa q" "0 < q" "q + k + 2 < 2 ^ 20" "unat (p_filesz ph) \<le> Suc k * 4096" "0 < unat (p_filesz ph)"
    "unat (p_offset ph) + unat (p_filesz ph) \<le> unat (st_size (ti_st n))"
    and A: "pages_added d q (Suc k) x y" and W: "xs_wf d y" and K: "kbuf_ok d y" and F: "prog_file fd p n y"
  obtains s where "RXX (fs_dispatch X m) fd True (p_vaddr ph) (p_offset ph) (p_filesz ph) y =
      Some ((None, pread (file_bytes n) (unat (p_offset ph)) (unat (p_filesz ph))), y\<lparr>xs_fs := s,
        xs_mem := um_put (p_vaddr ph) (pread (file_bytes n) (unat (p_offset ph)) (unat (p_filesz ph))) (xs_mem y)\<rparr>)"
    "prog_file fd p n (y\<lparr>xs_fs := s\<rparr>)" "xs_frame_of fd (xs_fs y) s"
proof -
  let ?v = "p_vaddr ph" and ?r = "pread (file_bytes n) (unat (p_offset ph)) (unat (p_filesz ph))"
  note pr = pages_added_present [OF A]
  have st: "present y (?v + of_nat i)" if "i < unat (p_filesz ph)" for i
    using pr(2) [of i] that Q(1,3,4) by simp
  have v: "?v \<noteq> 0" "rw_page d y ?v" using new_range(5) [OF Q(2,3)] pr(1) [of 0] Q(1,3) by simp_all
  have n: "unat (st_size (ti_st n)) < 2 ^ 31" using F by (simp add: prog_file_def)
  have c: "p_filesz ph \<noteq> 0" "unat (p_offset ph) \<le> unat (st_size (ti_st n))"
    "unat (p_offset ph) + unat (p_filesz ph) < 2 ^ 31" using Q(5,6) n by auto
  obtain s where s: "RXX (fs_dispatch X m) fd True ?v (p_offset ph) (p_filesz ph) y =
      Some ((if length ?r = unat (p_filesz ph) then None else Some (- E_IO), ?r),
        y\<lparr>xs_fs := s, xs_mem := (if True then um_put ?v ?r (xs_mem y) else xs_mem y)\<rparr>)"
    "prog_file fd p n (y\<lparr>xs_fs := s\<rparr>)" "xs_frame_of fd (xs_fs y) s"
    using RXX_pread [OF W K F v c _ refl, of True X m] st by auto
  have "length ?r = unat (p_filesz ph)" using Q(6) prog_file_bytes [OF F] by (simp add: pread_def)
  with s show thesis using that [of s] by simp
qed

text \<open>One segment.\<close>

lemma exec_segment_load:
  assumes ok: "exec_ok d fd p n x" and fit: "seg_fits n ph" and load: "p_type ph = PT_LOAD"
    and free: "segs_free d [ph] x"
  obtains y where "exec_segment (fs_dispatch X m) fd ph bounds x = Some (Inr (seg_bounds ph bounds), y)"
    "exec_ok d fd p n y" "segs_loaded d n [ph] x y" "maps_added (seg_maps [ph]) x y" "task_kept fd x y"
proof -
  obtain q k where Q: "p_vaddr ph = pa q" "0 < q" "pn (p_vaddr ph) = q" "seg_pages ph = Suc k" "q + k + 2 < 2 ^ 20"
    "seg_size ph = pa (Suc k)" "unat (p_filesz ph) \<le> Suc k * 4096" "0 < unat (p_filesz ph)"
    "unat (p_offset ph) + unat (p_filesz ph) \<le> unat (st_size (ti_st n))"
    using seg_fits_load [OF fit load] .
  let ?ty = "if p_exec ph then ASPACE_TYPE_CODE else ASPACE_TYPE_DATA"
  have X: "xs_wf d x" "kbuf_ok d x" "prog_file fd p n x" "as_end (xs_asp x) = - 1" using ok by (auto simp: exec_ok_def)
  have un: "\<forall>a. q \<le> pn a \<and> pn a < q + Suc k \<longrightarrow> unmapped (xs_vm x) d a"
    and room: "card (vm_taken (xs_vm x)) + 2 * Suc k \<le> pmm_blocks (vm_pmm (xs_vm x))"
    using free Q(3,4) by (simp_all add: segs_free_def in_seg_def)
  have ty: "?ty = ASPACE_TYPE_CODE \<or> ?ty = ASPACE_TYPE_DATA" by simp
  obtain y where y: "exec_add_map ?ty (pa q) (pa q + pa (Suc k) - 1) (ARCH_MAP_USER OR ARCH_MAP_RDWR) x = Some y"
    "pages_added d q (Suc k) x y" "as_end (xs_asp y) = - 1" "xs_fs y = xs_fs x"
    "maps_added [new_map ?ty (pa q) (pa (q + Suc k)) (ARCH_MAP_USER OR ARCH_MAP_RDWR)] x y" "task_kept fd x y"
    by (rule exec_add_map_pages [OF X(1) Q(2,5) ty X(4) un room])
  have W: "xs_wf d y" using y(2) by (simp add: pages_added_def)
  have K: "kbuf_ok d y" using kbuf_pages_added [OF X(2) y(2) _ X(1) un] y(4) by simp
  have F: "prog_file fd p n y" using X(3) y(4) by (simp add: prog_file_def)
  let ?v = "p_vaddr ph" and ?r = "pread (file_bytes n) (unat (p_offset ph)) (unat (p_filesz ph))"
  obtain s where s: "RXX (fs_dispatch X m) fd True ?v (p_offset ph) (p_filesz ph) y =
      Some ((None, ?r), y\<lparr>xs_fs := s, xs_mem := um_put ?v ?r (xs_mem y)\<rparr>)"
    "prog_file fd p n (y\<lparr>xs_fs := s\<rparr>)" "xs_frame_of fd (xs_fs y) s"
    by (rule seg_read [OF Q(1,2,5,7,8,9) y(2) W K F])
  define z where "z = y\<lparr>xs_fs := s, xs_mem := um_put ?v ?r (xs_mem y)\<rparr>"
  have "p_vaddr ph + seg_size ph = p_vaddr ph + pa (seg_pages ph)" using Q(4,6) by simp
  then have "exec_segment (fs_dispatch X m) fd ph bounds x = Some (Inr (seg_bounds ph bounds), z)"
    using y(1) s(1) Q(1,6) load
    by (auto simp: exec_segment_def seg_bounds_def z_def Let_def Q(4) min_def max_def add.commute)
  moreover have "exec_ok d fd p n z"
    using W K s(2,3) y(3)
    by (auto simp: exec_ok_def z_def xs_wf_def kbuf_ok_def rw_page_def prog_file_def xs_frame_of_def)
  moreover have "segs_loaded d n [ph] x z"
    using Q prog_file_bytes [OF F] by (intro seg_stored [OF Q(1,3,4) _ Q(7) _ y(2) z_def]) simp_all
  moreover have "maps_added (seg_maps [ph]) x z"
    using y(5) load Q(1,4) by (simp add: maps_added_def seg_maps_def z_def pa_add)
  moreover have "task_kept fd x z" using y(4,6) s(3) by (simp add: task_kept_def z_def)
  ultimately show thesis by (rule that)
qed


text \<open>The program headers that the file has from number \<open>i\<close> on.\<close>

fun headers_at :: "elf_h \<Rightarrow> tmpfs_inode \<Rightarrow> Elf_Ehdr \<Rightarrow> nat \<Rightarrow> Elf_Phdr list \<Rightarrow> bool" where
  "headers_at E n head i [] = True"
| "headers_at E n head i (ph # phs) =
     (let off = e_phoff head + of_nat i * ucast (e_phentsize head); sz = ucast (e_phentsize head) :: u32
      in unat off + unat sz \<le> unat (st_size (ti_st n))
         \<and> phdr_of E (pread (file_bytes n) (unat off) (unat sz)) = Some ph \<and> headers_at E n head (i + 1) phs)"

lemma with_fs_cong [simp]:
  "segs_free d phs (x\<lparr>xs_fs := s\<rparr>) = segs_free d phs x"
  "segs_loaded d n phs (x\<lparr>xs_fs := s\<rparr>) y = segs_loaded d n phs x y"
  "maps_added ms (x\<lparr>xs_fs := s\<rparr>) y = maps_added ms x y"
  "xs_wf d (x\<lparr>xs_fs := s\<rparr>) = xs_wf d x" "rw_page d (x\<lparr>xs_fs := s\<rparr>) a = rw_page d x a"
  by (simp_all add: segs_free_def segs_loaded_def maps_added_def xs_wf_def rw_page_def)

lemma exec_header_read:
  assumes ok: "exec_ok d fd p n x" and sz: "e_phentsize head \<noteq> 0" and H: "headers_at E n head i (ph # phs)"
  obtains s where "RXX (fs_dispatch X m) fd False (fs_kstack (xs_fs x))
      (e_phoff head + of_nat i * ucast (e_phentsize head)) (ucast (e_phentsize head)) x =
        Some ((None, pread (file_bytes n) (unat (e_phoff head + of_nat i * ucast (e_phentsize head)))
          (unat (ucast (e_phentsize head) :: u32))), x\<lparr>xs_fs := s\<rparr>)"
    "exec_ok d fd p n (x\<lparr>xs_fs := s\<rparr>)" "task_kept fd x (x\<lparr>xs_fs := s\<rparr>)"
proof -
  let ?off = "e_phoff head + of_nat i * ucast (e_phentsize head)" and ?sz = "ucast (e_phentsize head) :: u32"
  have X: "xs_wf d x" "kbuf_ok d x" "prog_file fd p n x" "as_end (xs_asp x) = - 1" using ok by (auto simp: exec_ok_def)
  have h: "unat ?off + unat ?sz \<le> unat (st_size (ti_st n))" using H by (simp add: Let_def)
  obtain f j b sb where "open_file (xs_fs x) fd f p j b sb n" using X(3) by (auto simp: prog_file_def)
  then have len: "length (pread (file_bytes n) (unat ?off) (unat ?sz)) = unat ?sz"
    using length_file_bytes_live h by (simp add: pread_def)
  have "?sz \<noteq> 0" using sz
    by (simp add: word_unat_eq_iff unsigned_ucast_eq take_bit_nat_eq_self order_less_le_trans [OF unsigned_less])
  moreover have "unat (st_size (ti_st n)) < 2 ^ 31" using X(3) by (simp add: prog_file_def)
  ultimately obtain s where s: "RXX (fs_dispatch X m) fd False (fs_kstack (xs_fs x)) ?off ?sz x =
      Some ((None, pread (file_bytes n) (unat ?off) (unat ?sz)), x\<lparr>xs_fs := s\<rparr>)"
    "prog_file fd p n (x\<lparr>xs_fs := s\<rparr>)" "xs_frame_of fd (xs_fs x) s"
    using RXX_pread [OF X(1-3), of "fs_kstack (xs_fs x)" ?sz ?off False, OF _ _ _ _ _ _ refl, of X m] X(2) h len
    by (auto simp: kbuf_ok_def)
  moreover have "exec_ok d fd p n (x\<lparr>xs_fs := s\<rparr>)"
    using X s(2,3) by (simp add: exec_ok_def kbuf_ok_def xs_frame_of_def)
  moreover have "task_kept fd x (x\<lparr>xs_fs := s\<rparr>)" using s(3) by (simp add: task_kept_def)
  ultimately show thesis using that by blast
qed

lemma exec_segment_step:
  assumes "exec_ok d fd p n x" "seg_fits n ph" "segs_free d [ph] x"
  obtains y where "exec_segment (fs_dispatch X m) fd ph bounds x = Some (Inr (seg_bounds ph bounds), y)"
    "exec_ok d fd p n y" "segs_loaded d n [ph] x y" "maps_added (seg_maps [ph]) x y" "task_kept fd x y"
proof (cases "p_type ph = PT_LOAD")
  case True
  then show thesis using exec_segment_load [OF assms(1,2) True assms(3)] that by metis
next
  case False
  then have "exec_segment (fs_dispatch X m) fd ph bounds x = Some (Inr (seg_bounds ph bounds), x)"
    using assms(2) by (simp add: exec_segment_def seg_fits_def seg_bounds_def split: elf_ptype.splits)
  moreover have "segs_loaded d n [ph] x x" using False by (simp add: segs_loaded_nil seg_pages_def)
  ultimately show thesis using assms(1) False that
    by (simp add: maps_added_def seg_maps_def task_kept_def xs_frame_of_refl)
qed


lemma segs_free_rest:
  assumes "segs_free d (ph # phs) x" "segs_loaded d n [ph] x y" "segs_apart (ph # phs)"
  shows "segs_free d [ph] x" "segs_free d phs y"
proof -
  show "segs_free d [ph] x" using assms(1) by (simp add: segs_free_def)
  have g: "vm_grows (seg_pages ph) (xs_vm x) (xs_vm y) d" using assms(2) by (simp add: segs_loaded_def)
  have "unmapped (xs_vm y) d a" if "ph' \<in> set phs" "in_seg ph' a" for ph' a
  proof -
    have "\<not> in_seg ph a" using assms(3) that by (auto simp: segs_apart_def)
    then have "page_entry (xs_vm y) d a = page_entry (xs_vm x) d a" using assms(2) by (simp add: segs_loaded_def)
    moreover have "unmapped (xs_vm x) d a" using assms(1) that by (auto simp: segs_free_def)
    ultimately show ?thesis using g by (simp add: unmapped_def vm_grows_def)
  qed
  then show "segs_free d phs y" using assms(1) g by (auto simp: segs_free_def vm_grows_def)
qed

lemma exec_phdrs_load:
  assumes "exec_ok d fd p n x" "headers_at E n head i phs" "e_phentsize head \<noteq> 0"
    "ucast (e_phentsize head) \<le> sizeof_phdr E" "\<forall>ph \<in> set phs. seg_fits n ph" "segs_free d phs x" "segs_apart phs"
  shows "\<exists>y. exec_phdrs E (fs_dispatch X m) fd head i (length phs) bounds x = Some (Inr (fold seg_bounds phs bounds), y)
    \<and> exec_ok d fd p n y \<and> segs_loaded d n phs x y \<and> maps_added (seg_maps phs) x y \<and> task_kept fd x y"
  using assms
proof (induction phs arbitrary: i bounds x)
  case Nil
  then show ?case
    by (simp add: segs_loaded_def vm_grows_zero maps_added_def seg_maps_def task_kept_def xs_frame_of_refl)
next
  case (Cons ph phs)
  obtain s where s: "RXX (fs_dispatch X m) fd False (fs_kstack (xs_fs x))
      (e_phoff head + of_nat i * ucast (e_phentsize head)) (ucast (e_phentsize head)) x =
        Some ((None, pread (file_bytes n) (unat (e_phoff head + of_nat i * ucast (e_phentsize head)))
          (unat (ucast (e_phentsize head) :: u32))), x\<lparr>xs_fs := s\<rparr>)"
    "exec_ok d fd p n (x\<lparr>xs_fs := s\<rparr>)" "task_kept fd x (x\<lparr>xs_fs := s\<rparr>)"
    by (rule exec_header_read [OF Cons.prems(1,3,2)])
  have fit: "seg_fits n ph" using Cons.prems(5) by simp
  have fr: "segs_free d [ph] (x\<lparr>xs_fs := s\<rparr>)" using Cons.prems(6) by (simp add: segs_free_def)
  obtain y where y: "exec_segment (fs_dispatch X m) fd ph bounds (x\<lparr>xs_fs := s\<rparr>) = Some (Inr (seg_bounds ph bounds), y)"
    "exec_ok d fd p n y" "segs_loaded d n [ph] x y" "maps_added (seg_maps [ph]) x y" "task_kept fd (x\<lparr>xs_fs := s\<rparr>) y"
    using exec_segment_step [OF s(2) fit fr, of X m bounds] by auto
  note R = segs_free_rest [OF Cons.prems(6) y(3) Cons.prems(7)]
  from Cons.IH [OF y(2), of "i + 1" "seg_bounds ph bounds"] obtain z where
    z: "exec_phdrs E (fs_dispatch X m) fd head (i + 1) (length phs) (seg_bounds ph bounds) y
        = Some (Inr (fold seg_bounds phs (seg_bounds ph bounds)), z)"
      "exec_ok d fd p n z" "segs_loaded d n phs y z" "maps_added (seg_maps phs) y z" "task_kept fd y z"
    using Cons.prems(2-5,7) R(2) by (auto simp: Let_def segs_apart_def)
  have "exec_phdrs E (fs_dispatch X m) fd head i (length (ph # phs)) bounds x
      = Some (Inr (fold seg_bounds (ph # phs) bounds), z)"
    using s(1) y(1) z(1) Cons.prems(2,4) by (simp add: Let_def)
  moreover have "maps_added (seg_maps (ph # phs)) x z"
    using maps_added_append [OF y(4) z(4)] by (simp add: seg_maps_def split: if_splits)
  moreover have "task_kept fd x z" using task_kept_trans s(3) y(5) z(5) by blast
  ultimately show ?case using z(2) segs_loaded_append [OF y(3) z(3) Cons.prems(7)] y(2)
    by (simp add: exec_ok_def)
qed


section \<open>The image\<close>

text \<open>A map without pages.\<close>

lemma fresh_pages_same:
  assumes "xs_vm y = xs_vm x" "as_vmmpd (xs_asp y) = as_vmmpd (xs_asp x)"
  shows "fresh_pages x y = y"
  using assms by (simp add: fresh_pages_def present_def)

lemma exec_add_map_empty:
  assumes "type = ASPACE_TYPE_BRK" "flags AND 0xFFFFFFF = flags"
  shows "exec_add_map type a a flags x = Some (x\<lparr>xs_asp := (xs_asp x)\<lparr>as_mappings := as_mappings (xs_asp x) @ [xs_next x]\<rparr>,
    xs_sys := (xs_sys x)\<lparr>sys_maps := (sys_maps (xs_sys x))(xs_next x \<mapsto> new_map type a a flags)\<rparr>,
    xs_next := xs_next x + 1\<rparr>)"
  using assms
  by (simp add: exec_add_map_def aspace_add_map_def Let_def fresh_pages_same new_map_def ASPACE_TYPE_BRK_def
      ASPACE_TYPE_UNKNOWN_def ASPACE_TYPE_TLS_def ASPACE_TYPE_SWAP_def)

abbreviation brk_flags :: u32 where
  "brk_flags \<equiv> ARCH_MAP_RDWR OR ARCH_MAP_NOEXEC OR ARCH_MAP_USER"

lemma xs_set_lock_sel [simp]:
  "xs_vm (xs_set_lock b x) = xs_vm x" "xs_sys (xs_set_lock b x) = xs_sys x" "xs_asp (xs_set_lock b x) = xs_asp x"
  "xs_mem (xs_set_lock b x) = xs_mem x" "xs_next (xs_set_lock b x) = xs_next x"
  "t_lock (fs_task (xs_fs (xs_set_lock b x))) = b" "xs_rss (xs_set_lock b x) = xs_rss x"
  "xs_exe (xs_set_lock b x) = xs_exe x" "fs_kstack (xs_fs (xs_set_lock b x)) = fs_kstack (xs_fs x)"
  "t_fd (fs_task (xs_fs (xs_set_lock b x))) = t_fd (fs_task (xs_fs x))"
  by (simp_all add: xs_set_lock_def)

lemma prog_file_cong:
  assumes "t_fd (fs_task (xs_fs y)) = t_fd (fs_task (xs_fs x))" "fs_inodes (xs_fs y) = fs_inodes (xs_fs x)"
    "fs_sbs (xs_fs y) = fs_sbs (xs_fs x)"
  shows "prog_file fd p n y = prog_file fd p n x"
  using assms live_node_cong [of "xs_fs y" "xs_fs x"] by (simp add: prog_file_def open_file_def)

lemma prog_file_set_lock [simp]: "prog_file fd p n (xs_set_lock b x) = prog_file fd p n x"
  by (rule prog_file_cong) (simp_all add: xs_set_lock_def)

text \<open>A program file for a task without maps: the hypotheses of loading it.\<close>

definition loadable :: "elf_h \<Rightarrow> nat \<Rightarrow> u32 \<Rightarrow> iptr \<Rightarrow> tmpfs_inode \<Rightarrow> Elf_Ehdr \<Rightarrow> Elf_Phdr list \<Rightarrow> xstate \<Rightarrow> bool" where
  "loadable E d fd p n head phs x \<longleftrightarrow>
     xs_wf d x \<and> kbuf_ok d x \<and> prog_file fd p n x \<and> \<not> t_lock (fs_task (xs_fs x)) \<and> as_mappings (xs_asp x) = []
     \<and> unat (e_phnum head) = length phs \<and> headers_at E n head 0 phs \<and> e_phentsize head \<noteq> 0
     \<and> ucast (e_phentsize head) \<le> sizeof_phdr E \<and> (\<forall>ph \<in> set phs. seg_fits n ph)
     \<and> segs_free d phs x \<and> segs_apart phs"

definition image_start :: "Elf_Phdr list \<Rightarrow> u32" where
  "image_start phs = pa (pn (fst (fold seg_bounds phs (- 1, 0))))"

definition brk_page :: "Elf_Phdr list \<Rightarrow> nat" where
  "brk_page phs = Suc (pn (snd (fold seg_bounds phs (- 1, 0))))"

abbreviation image_brk :: "Elf_Phdr list \<Rightarrow> u32" where
  "image_brk phs \<equiv> pa (brk_page phs)"

lemma exec_image_run:
  assumes "loadable E d fd p n head phs x"
  obtains y where "exec_image E (fs_dispatch X m) fd head x = Some (None, y)" "segs_loaded d n phs x y"
    "maps_added (seg_maps phs @ [new_map ASPACE_TYPE_BRK (image_brk phs) (image_brk phs) brk_flags]) x y"
    "as_start (xs_asp y) = image_start phs" "as_end (xs_asp y) = xs_rss x" "xs_exe y = Some p" "xs_wf d y"
    "prog_file fd p n y" "task_kept fd x (y\<lparr>xs_exe := xs_exe x\<rparr>)"
proof -
  let ?x = "(xs_set_lock True x)\<lparr>xs_asp := (xs_asp x)\<lparr>as_start := 0, as_end := - 1\<rparr>, xs_sys := xs_sys x\<rparr>"
  from assms have L: "xs_wf d x" "kbuf_ok d x" "prog_file fd p n x" "\<not> t_lock (fs_task (xs_fs x))"
    "as_mappings (xs_asp x) = []" "unat (e_phnum head) = length phs" "headers_at E n head 0 phs" "e_phentsize head \<noteq> 0"
    "ucast (e_phentsize head) \<le> sizeof_phdr E" "\<forall>ph \<in> set phs. seg_fits n ph" "segs_free d phs x" "segs_apart phs"
    by (simp_all add: loadable_def)
  have "prog_file fd p n ?x" using L(3) prog_file_cong [of ?x "xs_set_lock True x"] by simp
  then have ok: "exec_ok d fd p n ?x" using L(1,2)
    by (simp add: exec_ok_def xs_wf_def kbuf_ok_def rw_page_def)
  have free: "segs_free d phs ?x" using L(11) by (simp add: segs_free_def)
  obtain i_base i_end where b: "fold seg_bounds phs (- 1, 0) = (i_base, i_end)" by (cases "fold seg_bounds phs (- 1, 0)")
  from exec_phdrs_load [OF ok L(7-10) free L(12), of X m "(- 1, 0)"] obtain z where
    z: "exec_phdrs E (fs_dispatch X m) fd head 0 (length phs) (- 1, 0) ?x = Some (Inr (i_base, i_end), z)"
      "exec_ok d fd p n z" "segs_loaded d n phs ?x z" "maps_added (seg_maps phs) ?x z" "task_kept fd ?x z"
    using b by auto
  obtain f i bb sb where F: "open_file (xs_fs z) fd f p i bb sb n" using z(2) by (auto simp: exec_ok_def prog_file_def)
  define y where "y = xs_set_lock False (z\<lparr>xs_exe := Some p,
     xs_sys := (xs_sys z)\<lparr>sys_maps := (sys_maps (xs_sys z))(xs_next z \<mapsto>
       new_map ASPACE_TYPE_BRK (image_brk phs) (image_brk phs) brk_flags)\<rparr>, xs_next := xs_next z + 1,
     xs_asp := (xs_asp z)\<lparr>as_start := image_start phs, as_mappings := as_mappings (xs_asp z) @ [xs_next z],
       as_end := xs_rss z\<rparr>\<rparr>)"
  have fl: "brk_flags AND 0xFFFFFFF = brk_flags"
    by (simp add: ARCH_MAP_USER_def ARCH_MAP_RDWR_def ARCH_MAP_NOEXEC_def)
  have "exec_image E (fs_dispatch X m) fd head x = Some (None, y)"
    using L(4-6) z(1) open_fileD(3,12) [OF F] b
    by (simp add: exec_image_def aspace_free_def exec_add_map_empty [OF refl fl] Let_def page_mask y_def
        image_start_def brk_page_def pa_Suc)
  moreover have "segs_loaded d n phs x y"
    using z(3) by (simp add: segs_loaded_def y_def rw_page_def)
  moreover have "maps_added (seg_maps phs @ [new_map ASPACE_TYPE_BRK (image_brk phs) (image_brk phs) brk_flags]) x y"
    by (rule maps_added_append [of _ _ z]) (use z(4) in \<open>simp_all add: maps_added_def y_def\<close>)
  moreover have "xs_wf d y" using z(2) by (simp add: y_def exec_ok_def xs_wf_def)
  moreover have "prog_file fd p n y" using z(2) by (simp add: y_def exec_ok_def) (simp add: prog_file_def)
  ultimately show thesis
    using that z(5) L(4) by (simp add: y_def task_kept_def xs_frame_of_def xs_set_lock_def)
qed


section \<open>Strings in memory\<close>

text \<open>A string with its terminator in memory; every address of the second argument is outside the area of
  \<open>L\<close> bytes from \<open>b\<close> on.\<close>

definition str_at :: "xstate \<Rightarrow> u32 \<Rightarrow> byte list \<Rightarrow> bool" where
  "str_at x p s \<longleftrightarrow> 0 \<notin> set s \<and> (\<forall>i < length s. um_load x (p + of_nat i) = Some (s ! i))
     \<and> um_load x (p + of_nat (length s)) = Some 0"

definition off_area :: "u32 \<Rightarrow> nat \<Rightarrow> u32 \<Rightarrow> bool" where
  "off_area b L a \<longleftrightarrow> L \<le> unat (a - b)"

lemma str_at_Cons: "str_at x p (c # s) \<longleftrightarrow> c \<noteq> 0 \<and> um_load x p = Some c \<and> str_at x (p + 1) s"
proof -
  have "(\<forall>i < Suc (length s). um_load x (p + of_nat i) = Some ((c # s) ! i)) \<longleftrightarrow>
    um_load x p = Some c \<and> (\<forall>i < length s. um_load x (p + 1 + of_nat i) = Some (s ! i))"
    by (auto simp: less_Suc_eq_0_disj ac_simps)
  then show ?thesis by (auto simp: str_at_def ac_simps)
qed

lemma load_string_at: "str_at x p s \<Longrightarrow> load_string x p = Some s"
proof (induction s arbitrary: p)
  case Nil
  then show ?case by (simp add: str_at_def load_string.simps [of x p])
next
  case (Cons c s)
  then show ?case by (simp add: str_at_Cons load_string.simps [of x p])
qed

lemma minus_offset:
  assumes "k < 2 ^ 32"
  shows "unat (a - (b + of_nat k :: u32)) = (if k \<le> unat (a - b) then unat (a - b) - k else unat (a - b) + 2 ^ 32 - k)"
proof -
  have "unat (c - of_nat k) = (if k \<le> unat c then unat c - k else unat c + 2 ^ 32 - k)" for c :: u32
    using assms unat_sub_if_size [of c "of_nat k"] by (simp add: word_size unat_of_nat)
  from this [of "a - b"] show ?thesis by (simp only: diff_diff_eq)
qed

text \<open>Two states with the same memory outside the area.\<close>

definition area_agree :: "u32 \<Rightarrow> nat \<Rightarrow> xstate \<Rightarrow> xstate \<Rightarrow> bool" where
  "area_agree b L x y \<longleftrightarrow> y = x\<lparr>xs_mem := xs_mem y\<rparr> \<and> (\<forall>a. off_area b L a \<longrightarrow> xs_mem y a = xs_mem x a)"

lemma area_agree_refl: "area_agree b L x x"
  by (simp add: area_agree_def)

lemma area_agree_trans: "area_agree b L x y \<Longrightarrow> area_agree b L y z \<Longrightarrow> area_agree b L x z"
  unfolding area_agree_def by (metis xstate.update_convs(4) xstate.surjective)

lemma area_agree_load:
  assumes "area_agree b L x y"
  shows "present y a = present x a" "off_area b L a \<Longrightarrow> um_load y a = um_load x a"
proof -
  have "present (x\<lparr>xs_mem := m\<rparr>) a = present x a" for m by (simp add: present_def)
  then show p: "present y a = present x a" using assms by (metis area_agree_def)
  show "off_area b L a \<Longrightarrow> um_load y a = um_load x a" using assms p by (simp add: um_load_def area_agree_def)
qed

lemma area_agree_sel:
  assumes "area_agree b L x y"
  shows "xs_asp y = xs_asp x" "xs_sys y = xs_sys x" "xs_fs y = xs_fs x" "task_kept fd x y"
proof -
  obtain m where "y = x\<lparr>xs_mem := m\<rparr>" using assms by (auto simp: area_agree_def)
  then show "xs_asp y = xs_asp x" "xs_sys y = xs_sys x" "xs_fs y = xs_fs x" "task_kept fd x y"
    by (simp_all add: task_kept_def xs_frame_of_refl)
qed

text \<open>A string of the caller, and a vector of such strings that ends in a null pointer.\<close>

definition src_at :: "xstate \<Rightarrow> u32 \<Rightarrow> nat \<Rightarrow> u32 \<Rightarrow> byte list \<Rightarrow> bool" where
  "src_at x b L p s \<longleftrightarrow> str_at x p s \<and> (\<forall>i \<le> length s. off_area b L (p + of_nat i))"

definition ptr_at :: "xstate \<Rightarrow> u32 \<Rightarrow> nat \<Rightarrow> u32 \<Rightarrow> u32 \<Rightarrow> bool" where
  "ptr_at x b L v w \<longleftrightarrow> load_word x v = Some w \<and> off_area b L v \<and> off_area b L (v + 1)
     \<and> off_area b L (v + 2) \<and> off_area b L (v + 3)"

fun vec_at :: "xstate \<Rightarrow> u32 \<Rightarrow> nat \<Rightarrow> u32 \<Rightarrow> byte list list \<Rightarrow> bool" where
  "vec_at x b L v [] = ptr_at x b L v 0"
| "vec_at x b L v (s # ss) = (\<exists>p. p \<noteq> 0 \<and> ptr_at x b L v p \<and> src_at x b L p s \<and> vec_at x b L (v + 4) ss)"

lemma src_at_agree:
  assumes "\<And>a. off_area b L a \<Longrightarrow> um_load y a = um_load x a"
  shows "src_at x b L p s \<Longrightarrow> src_at y b L p s" "ptr_at x b L v w \<Longrightarrow> ptr_at y b L v w"
  using assms by (simp_all add: src_at_def str_at_def ptr_at_def load_word_def)

lemma vec_at_agree:
  assumes "\<And>a. off_area b L a \<Longrightarrow> um_load y a = um_load x a"
  shows "vec_at x b L v ss \<Longrightarrow> vec_at y b L v ss"
  by (induction ss arbitrary: v) (use src_at_agree [OF assms] in auto)

text \<open>The area holds a string and may be written.\<close>

definition area_at :: "xstate \<Rightarrow> u32 \<Rightarrow> nat \<Rightarrow> byte list \<Rightarrow> bool" where
  "area_at x b L s \<longleftrightarrow> str_at x b s \<and> (\<forall>i < L. present x (b + of_nat i)) \<and> length s < L \<and> L \<le> 2 ^ 32"

lemma cat_bytes_area:
  assumes A: "area_at x b L s" and bs: "0 \<notin> set bs" "length s + length bs < L"
  obtains y where "cat_bytes b bs x = Some y" "area_at y b L (s @ bs)" "area_agree b L x y"
proof -
  let ?k = "length s" and ?w = "map Some bs @ [Some 0]"
  have S: "str_at x b s" "\<forall>i < L. present x (b + of_nat i)" "L \<le> 2 ^ 32" using A by (auto simp: area_at_def)
  define y where "y = x\<lparr>xs_mem := um_put (b + of_nat ?k) ?w (xs_mem x)\<rparr>"
  have pr: "present y a = present x a" for a by (simp add: y_def present_def)
  have k: "?k < 2 ^ 32" using bs S(3) by simp
  have "present x (b + of_nat ?k + of_nat i)" if "i < length ?w" for i
    using S(2) [rule_format, of "?k + i"] bs(2) that by (simp add: ac_simps)
  then have "cat_bytes b bs x = Some y"
    using load_string_at [OF S(1)] by (simp add: cat_bytes_def um_store_def y_def kassert_def)
  moreover have m: "xs_mem y (b + of_nat i) = (if i < ?k then xs_mem x (b + of_nat i) else if i < ?k + length bs
      then Some (bs ! (i - ?k)) else if i = ?k + length bs then Some 0 else xs_mem x (b + of_nat i))" if "i < L" for i
  proof -
    have "unat (b + of_nat i - b) = i" using that S(3) by (simp add: unat_of_nat)
    then have "unat (b + of_nat i - (b + of_nat ?k)) = (if ?k \<le> i then i - ?k else i + 2 ^ 32 - ?k)"
      using minus_offset [OF k, of "b + of_nat i" b] by simp
    then have "xs_mem y (b + of_nat i) = (if (if ?k \<le> i then i - ?k else i + 2 ^ 32 - ?k) < length ?w
        then ?w ! (if ?k \<le> i then i - ?k else i + 2 ^ 32 - ?k) else xs_mem x (b + of_nat i))"
      by (simp add: y_def um_put_def)
    moreover have "\<not> i + 2 ^ 32 - ?k < length ?w" using bs(2) S(3) by simp
    ultimately show ?thesis by (auto simp: nth_append)
  qed
  have "area_at y b L (s @ bs)"
  proof -
    have "um_load y (b + of_nat i) = Some ((s @ bs) ! i)" if "i < length (s @ bs)" for i
      using that m [of i] S(1,2) pr bs(2) by (auto simp: um_load_def nth_append str_at_def split: if_splits)
    moreover have "um_load y (b + of_nat (length (s @ bs))) = Some 0"
      using m [of "length (s @ bs)"] S(2) [rule_format, of "length (s @ bs)"] pr bs(2) by (simp add: um_load_def)
    ultimately show ?thesis using S pr bs by (auto simp: area_at_def str_at_def)
  qed
  moreover have "area_agree b L x y"
    using minus_offset [OF k] bs(2) by (auto simp: area_agree_def y_def um_put_def off_area_def)
  ultimately show thesis by (rule that)
qed


text \<open>The strings of a vector, each with a space behind it.\<close>

definition spaced :: "byte list list \<Rightarrow> byte list" where
  "spaced ss = concat (map (\<lambda>s. s @ SPACE) ss)"

lemma strcat_area:
  assumes "area_at x b L s" "src_at x b L p bs" "length s + length bs < L"
  obtains y where "strcat b p x = Some y" "area_at y b L (s @ bs)" "area_agree b L x y"
proof -
  have "0 \<notin> set bs" "load_string x p = Some bs"
    using assms(2) load_string_at by (auto simp: src_at_def str_at_def)
  then show thesis using cat_bytes_area [OF assms(1) _ assms(3)] that by (auto simp: strcat_def)
qed

lemma strcat_spaced:
  assumes "area_at x b L s" "src_at x b L p bs" "length s + length bs + 1 < L"
  obtains y z where "strcat b p x = Some y" "cat_bytes b SPACE y = Some z" "area_at z b L (s @ bs @ SPACE)"
    "area_agree b L x z"
proof -
  obtain y where y: "strcat b p x = Some y" "area_at y b L (s @ bs)" "area_agree b L x y"
    using strcat_area [OF assms(1,2)] assms(3) by auto
  obtain z where z: "cat_bytes b SPACE y = Some z" "area_at z b L ((s @ bs) @ SPACE)" "area_agree b L y z"
    using cat_bytes_area [OF y(2), of SPACE] assms(3) by (auto simp: SPACE_def)
  show thesis using that [OF y(1) z(1)] z(2) area_agree_trans [OF y(3) z(3)] by simp
qed

lemma cat_vector_area:
  assumes "area_at x b L s" "vec_at x b L v ss" "length s + length (spaced ss) < L"
  shows "\<exists>y. cat_vector b v x = Some y \<and> area_at y b L (s @ spaced ss) \<and> area_agree b L x y"
  using assms
proof (induction ss arbitrary: x v s)
  case Nil
  then show ?case by (simp add: cat_vector.simps [of b v] ptr_at_def spaced_def area_agree_refl)
next
  case (Cons t ss)
  then obtain p where p: "p \<noteq> 0" "ptr_at x b L v p" "src_at x b L p t" "vec_at x b L (v + 4) ss" by auto
  have len: "length s + length t + 1 < L" using Cons.prems(3) by (simp add: spaced_def SPACE_def)
  obtain y z where z: "strcat b p x = Some y" "cat_bytes b SPACE y = Some z" "area_at z b L (s @ t @ SPACE)"
    "area_agree b L x z"
    by (rule strcat_spaced [OF Cons.prems(1) p(3) len])
  have "vec_at z b L (v + 4) ss" using vec_at_agree p(4) area_agree_load(2) [OF z(4)] by blast
  moreover have "length (s @ t @ SPACE) + length (spaced ss) < L" using Cons.prems(3) by (simp add: spaced_def)
  ultimately obtain w where "cat_vector b (v + 4) z = Some w" "area_at w b L ((s @ t @ SPACE) @ spaced ss)"
    "area_agree b L z w" using Cons.IH z(3) by blast
  moreover from this(3) have "area_agree b L x w" by (rule area_agree_trans [OF z(4)])
  ultimately show ?case using z(1,2) p(1,2)
    by (simp add: cat_vector.simps [of b v] ptr_at_def spaced_def)
qed

lemma check_vector_at:
  assumes "vec_at x b L v ss"
  shows "check_vector x v = Some ()"
  using assms
proof (induction ss arbitrary: v)
  case Nil
  then show ?case by (simp add: check_vector.simps [of x v] ptr_at_def)
next
  case (Cons t ss)
  then obtain p where p: "p \<noteq> 0" "ptr_at x b L v p" "src_at x b L p t" "vec_at x b L (v + 4) ss" by auto
  have "um_load x p \<noteq> None" using p(3) by (cases t) (auto simp: src_at_def str_at_def str_at_Cons)
  then have "present x p" by (auto simp: um_load_def split: if_splits)
  then have "arch_ptr_access (xs_asp x) p R_OK (xs_vm x) = Some True" using p(1) by (simp add: arch_ptr_access_def present_def)
  with Cons p show ?case by (simp add: check_vector.simps [of x v] ptr_at_def)
qed

text \<open>What the call leaves for the program: its name, its arguments and its environment.\<close>

definition exec_string :: "byte list \<Rightarrow> byte list list \<Rightarrow> byte list list \<Rightarrow> byte list" where
  "exec_string nm args env = nm @ SPACE @ spaced args @ MARK @ spaced env @ MARK"

lemma cat_strings_area:
  assumes A: "area_at x b L []" and nm: "src_at x b L filename nm" and v: "vec_at x b L argv args" "vec_at x b L envp env"
    and len: "length (exec_string nm args env) < L"
  obtains y where "cat_strings b filename argv envp x = Some y" "str_at y b (exec_string nm args env)" "area_agree b L x y"
proof -
  have m: "0 \<notin> set MARK" by (simp add: MARK_def)
  obtain x1 x2 where 2: "strcat b filename x = Some x1" "cat_bytes b SPACE x1 = Some x2" "area_at x2 b L ([] @ nm @ SPACE)"
    "area_agree b L x x2"
    using strcat_spaced [OF A nm] len by (auto simp: exec_string_def MARK_def)
  have v2: "vec_at x2 b L argv args" "vec_at x2 b L envp env"
    using vec_at_agree v area_agree_load(2) [OF 2(4)] by blast+
  obtain x3 where 3: "cat_vector b argv x2 = Some x3" "area_at x3 b L (([] @ nm @ SPACE) @ spaced args)" "area_agree b L x2 x3"
    using cat_vector_area [OF 2(3) v2(1)] len by (auto simp: exec_string_def)
  have v3: "vec_at x3 b L envp env" using vec_at_agree v2(2) area_agree_load(2) [OF 3(3)] by blast
  obtain x4 where 4: "cat_bytes b MARK x3 = Some x4" "area_at x4 b L ((([] @ nm @ SPACE) @ spaced args) @ MARK)" "area_agree b L x3 x4"
    using cat_bytes_area [OF 3(2) m] len by (auto simp: exec_string_def)
  have v4: "vec_at x4 b L envp env" using vec_at_agree v3 area_agree_load(2) [OF 4(3)] by blast
  obtain x5 where 5: "cat_vector b envp x4 = Some x5"
    "area_at x5 b L (((([] @ nm @ SPACE) @ spaced args) @ MARK) @ spaced env)" "area_agree b L x4 x5"
    using cat_vector_area [OF 4(2) v4] len by (auto simp: exec_string_def)
  obtain x6 where 6: "cat_bytes b MARK x5 = Some x6"
    "area_at x6 b L ((((([] @ nm @ SPACE) @ spaced args) @ MARK) @ spaced env) @ MARK)" "area_agree b L x5 x6"
    using cat_bytes_area [OF 5(2) m] len by (auto simp: exec_string_def)
  have "cat_strings b filename argv envp x = Some x6" using 2(1,2) 3(1) 4(1) 5(1) 6(1) by (simp add: cat_strings_def)
  moreover have "str_at x6 b (exec_string nm args env)" using 6(2) by (simp add: area_at_def exec_string_def)
  moreover have "area_agree b L x x6" using 2(4) 3(3) 4(3) 5(3) 6(3) area_agree_trans by blast
  ultimately show thesis by (rule that)
qed


section \<open>The break and the stack\<close>

text \<open>The break map of a new image, at page \<open>q\<close>, with room for a stack of \<open>k + 1\<close> pages.\<close>

definition brk_room :: "nat \<Rightarrow> nat \<Rightarrow> nat \<Rightarrow> xstate \<Rightarrow> bool" where
  "brk_room d q k x \<longleftrightarrow> xs_wf d x \<and> 0 < q \<and> q + k + 2 < 2 ^ 20 \<and> xs_stack x \<noteq> 0 \<and> pages_for (xs_stack x) = Suc k
     \<and> pa (q + Suc k) \<le> as_end (xs_asp x) \<and> (\<forall>a. q \<le> pn a \<and> pn a < q + Suc k \<longrightarrow> unmapped (xs_vm x) d a)
     \<and> card (vm_taken (xs_vm x)) + 2 * Suc k \<le> pmm_blocks (vm_pmm (xs_vm x))
     \<and> aspace_get_maps ASPACE_TYPE_TLS 1 (xs_asp x) (xs_sys x) = []
     \<and> (\<exists>m. aspace_get_maps ASPACE_TYPE_BRK 1 (xs_asp x) (xs_sys x) = [m]
          \<and> sys_maps (xs_sys x) m = Some (new_map ASPACE_TYPE_BRK (pa q) (pa q) brk_flags))"

lemma exec_brk_grow:
  assumes B: "brk_room d q k x"
  obtains y where "exec_brk 0 x = Some (pa q, x)" "exec_brk (pa q + xs_stack x) x = Some (pa (q + Suc k), y)"
    "pages_added d q (Suc k) x y" "xs_fs y = xs_fs x" "task_kept fd x y"
    "aspace_get_maps ASPACE_TYPE_TLS 1 (xs_asp y) (xs_sys y) = []"
proof -
  let ?t = "new_map ASPACE_TYPE_BRK (pa q) (pa q) brk_flags"
  from B obtain m where M: "aspace_get_maps ASPACE_TYPE_BRK 1 (xs_asp x) (xs_sys x) = [m]" "sys_maps (xs_sys x) m = Some ?t"
    by (auto simp: brk_room_def)
  from B have A: "xs_wf d x" "0 < q" "q + k + 2 < 2 ^ 20" "xs_stack x \<noteq> 0" "pages_for (xs_stack x) = Suc k"
    "pa (q + Suc k) \<le> as_end (xs_asp x)" "\<forall>a. q \<le> pn a \<and> pn a < q + Suc k \<longrightarrow> unmapped (xs_vm x) d a"
    "card (vm_taken (xs_vm x)) + 2 * Suc k \<le> pmm_blocks (vm_pmm (xs_vm x))"
    "aspace_get_maps ASPACE_TYPE_TLS 1 (xs_asp x) (xs_sys x) = []"
    by (simp_all add: brk_room_def)
  have w: "pt_wf (xs_vm x) d" "as_vmmpd (xs_asp x) + CONFIG_KERNEL_BASE = frame_addr d" using A(1) by (auto simp: xs_wf_def)
  have un: "\<forall>a. q \<le> pn a \<and> pn a \<le> q + k \<longrightarrow> unmapped (xs_vm x) d a" using A(7) by simp
  from aspace_enlarge_map_spec [OF w M(2), of q "xs_stack x" k] obtain v where
    v: "aspace_enlarge_map m (xs_stack x) (xs_asp x) (xs_sys x) = Some ((xs_asp x)\<lparr>as_size := as_size (xs_asp x) + of_nat (Suc k) * PAGE_SIZE\<rparr>,
        (xs_sys x)\<lparr>sys_vm := v, sys_maps := (sys_maps (xs_sys x))(m \<mapsto> ?t\<lparr>am_end := pa (q + Suc k)\<rparr>)\<rparr>)"
      "pt_wf v d" "vm_grows (Suc k) (xs_vm x) v d" "maps_range q k (am_flags ?t) (xs_vm x) v d"
    using A un by (auto simp: new_map_def)
  define z where "z = x\<lparr>xs_asp := (xs_asp x)\<lparr>as_size := as_size (xs_asp x) + of_nat (Suc k) * PAGE_SIZE\<rparr>,
     xs_sys := (xs_sys x)\<lparr>sys_vm := v, sys_maps := (sys_maps (xs_sys x))(m \<mapsto> ?t\<lparr>am_end := pa (q + Suc k)\<rparr>)\<rparr>\<rparr>"
  have nw: "pa q < pa q + xs_stack x"
  proof -
    have "unat (xs_stack x) \<le> Suc k * 4096" "0 < unat (xs_stack x)"
      using pages_for_bounds(2) [OF A(4)] A(4,5) by (simp_all add: unat_gt_0)
    then have "unat (pa q + xs_stack x) = q * 4096 + unat (xs_stack x)"
      using unat_pa [of q] A(3) by (subst unat_add_lem [THEN iffD1]) simp_all
    with \<open>0 < unat (xs_stack x)\<close> show ?thesis using unat_pa [of q] A(3) by (simp add: word_less_nat_alt)
  qed
  have pq: "pa q \<noteq> 0" using new_range(5) [OF A(2,3)] .
  have "exec_brk 0 x = Some (pa q, x)"
    using M by (simp add: exec_brk_def sys_brk_def fresh_pages_same new_map_def)
  moreover have "exec_brk (pa q + xs_stack x) x = Some (pa (q + Suc k), fresh_pages x z)"
    using M v(1) nw pq by (auto simp: exec_brk_def sys_brk_def new_map_def z_def simp del: of_nat_Suc)
  moreover have "pages_added d q (Suc k) x (fresh_pages x z)"
    using v(2-4) A(1,7)
    by (intro fresh_pages_added [where flags = brk_flags])
       (auto simp: z_def xs_wf_def new_map_def ARCH_MAP_RDWR_def ARCH_MAP_NOEXEC_def ARCH_MAP_USER_def)
  moreover have "aspace_get_maps ASPACE_TYPE_TLS 1 (xs_asp (fresh_pages x z)) (xs_sys (fresh_pages x z)) = []"
    using A(9) by (auto simp: aspace_get_maps_def fresh_pages_def z_def filter_empty_conv new_map_def
        ASPACE_TYPE_TLS_def ASPACE_TYPE_BRK_def)
  ultimately show thesis
    by (intro that [of "fresh_pages x z"]) (simp_all add: fresh_pages_def z_def task_kept_def xs_frame_of_refl)
qed


lemma vec_at_mono:
  assumes "\<And>a. off_area b L a \<Longrightarrow> off_area b' L' a"
  shows "ptr_at x b L v w \<Longrightarrow> ptr_at x b' L' v w" "src_at x b L p s \<Longrightarrow> src_at x b' L' p s"
    "vec_at x b L v ss \<Longrightarrow> vec_at x b' L' v ss"
proof -
  show p: "ptr_at x b L v w \<Longrightarrow> ptr_at x b' L' v w" for v w using assms by (simp add: ptr_at_def)
  show s: "src_at x b L p s \<Longrightarrow> src_at x b' L' p s" for p s using assms by (simp add: src_at_def)
  show "vec_at x b L v ss \<Longrightarrow> vec_at x b' L' v ss" by (induction ss arbitrary: v) (use p s in auto)
qed

lemma off_area_skip:
  assumes "off_area b L a" "n \<le> L" "n < 2 ^ 32"
  shows "off_area (b + of_nat n) (L - n) a"
  using assms minus_offset [of n a b] by (simp add: off_area_def)

lemma off_area_page:
  assumes "q + n < 2 ^ 20"
  shows "off_area (pa q) (n * 4096) a \<longleftrightarrow> \<not> (q \<le> pn a \<and> pn a < q + n)"
proof -
  have "unat (a - pa q) < n * 4096" if "q \<le> pn a" "pn a < q + n"
  proof -
    have "q * 4096 \<le> unat a" "unat a < (q + n) * 4096"
      using that by (auto simp: pn_div less_eq_div_iff_mult_less_eq div_less_iff_less_mult)
    moreover have "unat (pa q) = q * 4096" using unat_pa [of q] assms by simp
    ultimately show ?thesis by (simp add: unat_sub word_le_nat_alt)
  qed
  then show ?thesis using pn_minus [of a q n] assms by (auto simp: off_area_def not_le [symmetric])
qed

text \<open>The new pages of the break are an empty area behind the two words.\<close>

lemma brk_area:
  assumes "pages_added d q (Suc k) x y" "q + Suc k < 2 ^ 20"
  shows "area_at y (pa q + 8) (Suc k * 4096 - 8) []" "i < 8 \<Longrightarrow> present y (pa q + of_nat i)"
proof -
  note P = pages_added_present [OF assms]
  have z: "um_load y (pa q + of_nat i) = Some 0" if "i < Suc k * 4096" for i
  proof -
    have "q * 4096 + Suc k * 4096 < 2 ^ 32" using assms(2) by simp
    then have "q * 4096 + i < 2 ^ 32" using that by linarith
    from pn_pa_plus [OF this] have "q \<le> pn (pa q + of_nat i)" "pn (pa q + of_nat i) < q + Suc k"
      using that by (auto intro!: less_mult_imp_div_less)
    then show ?thesis using pages_addedD(3) [OF assms(1)] P(2) [OF that] by (simp add: um_load_def)
  qed
  show "i < 8 \<Longrightarrow> present y (pa q + of_nat i)" using P(2) [of i] by simp
  have "present y (pa q + 8 + of_nat i)" if "i < Suc k * 4096 - 8" for i
    using P(2) [of "8 + i"] that by (simp add: ac_simps)
  moreover have "str_at y (pa q + 8) []" using z [of 8] by (simp add: str_at_def)
  ultimately show "area_at y (pa q + 8) (Suc k * 4096 - 8) []" using assms(2) by (simp add: area_at_def)
qed

text \<open>Two words in front of a string do not reach it.\<close>

lemma um_put_front:
  assumes "length w \<le> n" "i + n < 2 ^ 32"
  shows "um_put b w m (b + of_nat n + of_nat i) = m (b + of_nat n + of_nat i)"
proof -
  have "unat (b + of_nat n + of_nat i - b) = n + i"
    using assms(2) by (simp add: unat_of_nat flip: of_nat_add)
  then show ?thesis using assms(1) by (simp add: um_put_def)
qed

lemma um_put_nth:
  assumes "i < length w" "length w < 2 ^ 32"
  shows "um_put b w m (b + of_nat i) = w ! i"
  using assms by (simp add: um_put_def unat_of_nat)

lemma store_words:
  assumes S: "str_at x (b + 8) s" and len: "length s + 8 < 2 ^ 32" and pr: "\<And>i. i < 8 \<Longrightarrow> present x (b + of_nat i)"
  obtains y where "um_store b (word_bytes 0 @ word_bytes 0) x = Some y" "str_at y (b + 8) s"
    "load_word y b = Some 0" "load_word y (b + 4) = Some 0" "\<And>a. off_area b 8 a \<Longrightarrow> um_load y a = um_load x a"
    "xs_fs y = xs_fs x" "task_kept fd x y"
proof -
  let ?w = "word_bytes 0 @ word_bytes 0"
  define y where "y = x\<lparr>xs_mem := um_put b ?w (xs_mem x)\<rparr>"
  have w: "?w = replicate 8 (Some 0)" by (simp add: word_bytes_def numeral_eq_Suc)
  have p: "present y a = present x a" for a by (simp add: y_def present_def)
  have st: "um_store b ?w x = Some y" using pr by (simp add: um_store_def y_def w kassert_def)
  have z: "um_load y (b + of_nat i) = Some 0" if "i < 8" for i
    using um_put_nth [of i ?w b "xs_mem x"] that pr p by (simp add: um_load_def y_def w)
  have f: "um_load y (b + 8 + of_nat i) = um_load x (b + 8 + of_nat i)" if "i \<le> length s" for i
    using um_put_front [of ?w 8 i b "xs_mem x"] that len p by (simp add: um_load_def y_def w)
  have "str_at y (b + 8) s" using S f by (simp add: str_at_def)
  moreover have "load_word y b = Some 0" "load_word y (b + 4) = Some 0"
    using z [of 0] z [of 1] z [of 2] z [of 3] z [of 4] z [of 5] z [of 6] z [of 7]
    by (simp_all add: load_word_def add.assoc)
  moreover have "um_load y a = um_load x a" if "off_area b 8 a" for a
    using that p by (simp add: um_load_def y_def um_put_def off_area_def w)
  ultimately show thesis using that [OF st] by (simp add: y_def task_kept_def xs_frame_of_refl)
qed

lemma exec_stack_layout:
  assumes B: "brk_room d q k x" and nm: "src_at x (pa q) (Suc k * 4096) filename nm"
    and v: "vec_at x (pa q) (Suc k * 4096) argv args" "vec_at x (pa q) (Suc k * 4096) envp env"
    and len: "length (exec_string nm args env) + 8 < Suc k * 4096"
  obtains y where "exec_stack filename argv envp x = Some ((pa q, pa (q + Suc k)), y)"
    "str_at y (pa q + 8) (exec_string nm args env)" "load_word y (pa q) = Some 0" "load_word y (pa q + 4) = Some 0"
    "\<And>a. off_area (pa q) (Suc k * 4096) a \<Longrightarrow> um_load y a = um_load x a"
    "xs_fs y = xs_fs x" "task_kept fd x y"
proof -
  let ?N = "Suc k * 4096"
  obtain x1 where 1: "exec_brk 0 x = Some (pa q, x)" "exec_brk (pa q + xs_stack x) x = Some (pa (q + Suc k), x1)"
    "pages_added d q (Suc k) x x1" "xs_fs x1 = xs_fs x" "task_kept fd x x1"
    "aspace_get_maps ASPACE_TYPE_TLS 1 (xs_asp x1) (xs_sys x1) = []"
    by (rule exec_brk_grow [OF B])
  have q: "q + Suc k < 2 ^ 20" "xs_wf d x" using B by (simp_all add: brk_room_def)
  have same: "um_load x1 a = um_load x a" if "off_area (pa q) ?N a" for a
    using pages_addedD(4) [OF 1(3), of a] off_area_page [OF q(1), of a] that
      xs_access_grows(1) [OF q(2) pages_addedD(1,2) [OF 1(3)], of a] by (simp add: um_load_def)
  have skip: "off_area (pa q + 8) (?N - 8) a" if "off_area (pa q) ?N a" for a
    using off_area_skip [OF that, of 8] by simp
  note A = brk_area [OF 1(3) q(1)]
  have "src_at x1 (pa q + 8) (?N - 8) filename nm" "vec_at x1 (pa q + 8) (?N - 8) argv args" "vec_at x1 (pa q + 8) (?N - 8) envp env"
    using vec_at_mono(2,3) [OF skip] src_at_agree(1) [OF same nm] vec_at_agree [OF same v(1)] vec_at_agree [OF same v(2)]
    by blast+
  from cat_strings_area [OF A(1) this] len obtain x2 where
    2: "cat_strings (pa q + 8) filename argv envp x1 = Some x2" "str_at x2 (pa q + 8) (exec_string nm args env)"
      "area_agree (pa q + 8) (?N - 8) x1 x2" by auto
  have "exec_tls x2 = Some (0, 0)" using 1(6) area_agree_sel(1,2) [OF 2(3)] by (simp add: exec_tls_def)
  obtain y where y: "um_store (pa q) (word_bytes 0 @ word_bytes 0) x2 = Some y" "str_at y (pa q + 8) (exec_string nm args env)"
    "load_word y (pa q) = Some 0" "load_word y (pa q + 4) = Some 0"
    "\<And>a. off_area (pa q) 8 a \<Longrightarrow> um_load y a = um_load x2 a" "xs_fs y = xs_fs x2" "task_kept fd x2 y"
    using store_words [OF 2(2), of fd] A(2) area_agree_load(1) [OF 2(3)] len q(1) by auto
  have "exec_stack filename argv envp x = Some ((pa q, pa (q + Suc k)), y)"
    using 1(1,2) 2(1) \<open>exec_tls x2 = Some (0, 0)\<close> y(1) by (simp add: exec_stack_def)
  moreover have "um_load y a = um_load x a" if "off_area (pa q) ?N a" for a
    using y(5) [of a] that skip [OF that] area_agree_load(2) [OF 2(3)] same by (simp add: off_area_def)
  moreover have "task_kept fd x y" using task_kept_trans 1(5) area_agree_sel(4) [OF 2(3)] y(7) by blast
  ultimately show thesis using that y(2-4,6) 1(4) area_agree_sel(3) [OF 2(3)] by simp
qed


section \<open>The whole call\<close>

text \<open>What can be read stays where it is: strings and vectors carry over to later states.\<close>

lemma vec_at_transfer:
  assumes "\<And>a. um_load x a \<noteq> None \<Longrightarrow> off_area b' L' a \<and> um_load y a = um_load x a"
  shows "ptr_at x b L v w \<Longrightarrow> ptr_at y b' L' v w" "src_at x b L p s \<Longrightarrow> src_at y b' L' p s"
    "vec_at x b L v ss \<Longrightarrow> vec_at y b' L' v ss"
proof -
  have l: "um_load y a = Some c \<and> off_area b' L' a" if "um_load x a = Some c" for a c using assms [of a] that by simp
  show p: "ptr_at x b L v w \<Longrightarrow> ptr_at y b' L' v w" for v w
    unfolding ptr_at_def load_word_def by (auto simp: bind_eq_Some_conv dest!: l)
  show s: "src_at x b L p s \<Longrightarrow> src_at y b' L' p s" for p s
    using l by (auto simp: src_at_def str_at_def le_less)
  show "vec_at x b L v ss \<Longrightarrow> vec_at y b' L' v ss" by (induction ss arbitrary: v) (use p s in auto)
qed

lemma close_on_exec_none:
  assumes "\<forall>i. \<not> xs_cloexec x i" "i + n \<le> length (t_fd (fs_task (xs_fs x)))"
  shows "close_on_exec D i n x = Some x"
  using assms by (induction n arbitrary: i) (simp_all add: task_fd_def)

text \<open>Closing the file of the image.\<close>

lemma sys_close_prog:
  assumes F: "prog_file fd p n x" and "fs_inodes (xs_fs x) p = Some i" "i_ops i Oclose = None"
    "\<not> t_lock (fs_task (xs_fs x))"
  obtains s where "with_fs (sys_close D fd) x = Some (0, x\<lparr>xs_fs := s\<rparr>)" "length (t_fd (fs_task s)) = TASK_NFD"
proof -
  obtain f j b sb where "open_file (fs_view x) fd f p j b sb n" using F by (auto simp: prog_file_def open_file_view)
  note O = open_fileD [OF this]
  have "vfs_close D p t = Some (- 1, set_errno ENOSYS t)" if "fs_inodes t = fs_inodes (xs_fs x)" for t
    using assms(2,3) that by (simp add: vfs_close_def vfs_call_none)
  then show thesis using O assms(4) that F
    by (simp add: sys_close_def with_fs_def with_task_lock_def with_lock_def task_fd_def prog_file_def open_file_def
        split: option.splits)
qed


text \<open>The break lies behind every segment.\<close>

lemma fold_bounds_max:
  "snd b \<le> snd (fold seg_bounds phs b)"
  "ph \<in> set phs \<Longrightarrow> p_type ph = PT_LOAD \<Longrightarrow> p_vaddr ph + pa (seg_pages ph) \<le> snd (fold seg_bounds phs b)"
proof -
  have s: "snd b \<le> snd (seg_bounds ph b)"
    "p_type ph = PT_LOAD \<Longrightarrow> p_vaddr ph + pa (seg_pages ph) \<le> snd (seg_bounds ph b)" for ph b
    by (simp_all add: seg_bounds_def)
  show le: "snd b \<le> snd (fold seg_bounds phs b)" for b phs
  proof (induction phs arbitrary: b)
    case (Cons ph phs)
    show ?case using order_trans [OF s(1) Cons] by simp
  qed simp
  show "ph \<in> set phs \<Longrightarrow> p_type ph = PT_LOAD \<Longrightarrow> p_vaddr ph + pa (seg_pages ph) \<le> snd (fold seg_bounds phs b)"
  proof (induction phs arbitrary: b)
    case (Cons ph' phs)
    then show ?case using order_trans [OF s(2) le] by (cases "ph = ph'") simp_all
  qed simp
qed

lemma seg_below_brk:
  assumes "\<forall>ph \<in> set phs. seg_fits n ph" "ph \<in> set phs" "in_seg ph a"
  shows "pn a < brk_page phs"
proof -
  have t: "p_type ph = PT_LOAD" using assms(3) by (auto simp: in_seg_def seg_pages_def split: if_splits)
  have f: "seg_fits n ph" using assms(1,2) by blast
  obtain q k where Q: "p_vaddr ph = pa q" "pn (p_vaddr ph) = q" "seg_pages ph = Suc k" "q + k + 2 < 2 ^ 20"
    using seg_fits_load [OF f t] by metis
  have "pa (q + Suc k) \<le> snd (fold seg_bounds phs (- 1, 0))"
    using fold_bounds_max(2) [OF assms(2) t, of "(- 1, 0)"] Q(1,3) by (simp add: pa_add)
  then have "q + Suc k \<le> pn (snd (fold seg_bounds phs (- 1, 0)))"
    using Q(4) unat_pa [of "q + Suc k"] by (simp add: pn_div word_le_nat_alt less_eq_div_iff_mult_less_eq)
  then show ?thesis using assms(3) Q(2,3) by (simp add: in_seg_def brk_page_def)
qed

lemma image_maps:
  assumes M: "maps_added (seg_maps phs @ [t]) x y" "as_mappings (xs_asp x) = []" and t: "am_type t = ASPACE_TYPE_BRK"
  shows "aspace_get_maps ASPACE_TYPE_TLS 1 (xs_asp y) (xs_sys y) = []"
    "aspace_get_maps ASPACE_TYPE_BRK 1 (xs_asp y) (xs_sys y) = [xs_next x + length (seg_maps phs)]"
    "sys_maps (xs_sys y) (xs_next x + length (seg_maps phs)) = Some t"
proof -
  let ?n = "length (seg_maps phs)"
  have l: "as_mappings (xs_asp y) = [xs_next x ..< xs_next x + ?n] @ [xs_next x + ?n]"
    using M by (simp add: maps_added_def)
  have g: "sys_maps (xs_sys y) (xs_next x + i) = Some ((seg_maps phs @ [t]) ! i)" if "i \<le> ?n" for i
    using M(1) that by (simp add: maps_added_def)
  show e: "sys_maps (xs_sys y) (xs_next x + ?n) = Some t" using g [of ?n] by (simp add: nth_append)
  have s: "am_type (seg_maps phs ! i) \<in> {ASPACE_TYPE_CODE, ASPACE_TYPE_DATA}" if "i < ?n" for i
    using that by (simp add: seg_maps_def new_map_def)
  have "map_option am_type (sys_maps (xs_sys y) m) \<in> {Some ASPACE_TYPE_CODE, Some ASPACE_TYPE_DATA}"
    if "m \<in> set [xs_next x ..< xs_next x + ?n]" for m
    using that g [of "m - xs_next x"] s [of "m - xs_next x"] by (auto simp: nth_append)
  moreover have "Some ASPACE_TYPE_TLS \<notin> {Some ASPACE_TYPE_CODE, Some ASPACE_TYPE_DATA}"
    "Some ASPACE_TYPE_BRK \<notin> {Some ASPACE_TYPE_CODE, Some ASPACE_TYPE_DATA}" "ASPACE_TYPE_BRK \<noteq> ASPACE_TYPE_TLS"
    by (simp_all add: ASPACE_TYPE_CODE_def ASPACE_TYPE_DATA_def ASPACE_TYPE_TLS_def ASPACE_TYPE_BRK_def)
  ultimately have "filter (\<lambda>m. map_option am_type (sys_maps (xs_sys y) m) = Some c) [xs_next x ..< xs_next x + ?n] = []"
    if "c = ASPACE_TYPE_TLS \<or> c = ASPACE_TYPE_BRK" for c
    using that unfolding filter_empty_conv by (metis (no_types, lifting))
  with e t show "aspace_get_maps ASPACE_TYPE_TLS 1 (xs_asp y) (xs_sys y) = []"
    "aspace_get_maps ASPACE_TYPE_BRK 1 (xs_asp y) (xs_sys y) = [xs_next x + ?n]"
    using \<open>ASPACE_TYPE_BRK \<noteq> ASPACE_TYPE_TLS\<close> by (simp_all add: aspace_get_maps_def l)
qed


text \<open>The hypotheses of a call that starts a program: a file that was just opened and holds an executable
  image with free memory for its segments and for a stack of \<open>k + 1\<close> pages, and a caller whose
  strings can be read.\<close>

definition opened_at_start :: "u32 \<Rightarrow> iptr \<Rightarrow> tmpfs_inode \<Rightarrow> xstate \<Rightarrow> bool" where
  "opened_at_start fd p n x \<longleftrightarrow> (\<exists>f i b sb. open_file (xs_fs x) fd f p i b sb n \<and> \<not> has (fd_flags f) O_WRONLY
     \<and> fd_position f = 0 \<and> i_ops i Oclose = None)"

definition exec_head :: "elf_h \<Rightarrow> tmpfs_inode \<Rightarrow> Elf_Ehdr \<Rightarrow> bool" where
  "exec_head E n head \<longleftrightarrow> 0 < unat (sizeof_ehdr E) \<and> unat (sizeof_ehdr E) < 2 ^ 31
     \<and> ehdr_of E (pread (file_bytes n) 0 (unat (sizeof_ehdr E))) = Some head
     \<and> \<not> (e_ident0 head = 35 \<and> e_ident1 head = 33) \<and> e_elfmag head \<and> e_exec head \<and> e_entry head \<noteq> 0"

definition stack_room :: "nat \<Rightarrow> Elf_Phdr list \<Rightarrow> nat \<Rightarrow> xstate \<Rightarrow> bool" where
  "stack_room d phs k x \<longleftrightarrow> brk_page phs + k + 2 < 2 ^ 20 \<and> xs_stack x \<noteq> 0 \<and> pages_for (xs_stack x) = Suc k
     \<and> pa (brk_page phs + Suc k) \<le> xs_rss x
     \<and> (\<forall>a. brk_page phs \<le> pn a \<and> pn a < brk_page phs + Suc k \<longrightarrow> unmapped (xs_vm x) d a)
     \<and> card (vm_taken (xs_vm x)) + 2 * (sum_list (map seg_pages phs) + Suc k) \<le> pmm_blocks (vm_pmm (xs_vm x))"

abbreviation caller_str :: "xstate \<Rightarrow> u32 \<Rightarrow> byte list \<Rightarrow> bool" where
  "caller_str x p s \<equiv> src_at x 0 0 p s"

abbreviation caller_vec :: "xstate \<Rightarrow> u32 \<Rightarrow> byte list list \<Rightarrow> bool" where
  "caller_vec x v ss \<equiv> vec_at x 0 0 v ss"

lemma exec_head_read:
  assumes F: "opened_at_start fd p n x" "prog_file fd p n x" and k: "xs_wf d x" "kbuf_ok d x"
    and sz: "0 < unat sz" "unat sz < 2 ^ 31"
  obtains s where "with_fs (sys_read (fs_dispatch X m) fd (fs_kstack (xs_fs x)) sz) x =
      Some ((int (length (pread (file_bytes n) 0 (unat sz))), pread (file_bytes n) 0 (unat sz)), x\<lparr>xs_fs := s\<rparr>)"
    "prog_file fd p n (x\<lparr>xs_fs := s\<rparr>)" "xs_frame_of fd (xs_fs x) s"
proof -
  from F(1) obtain f i b sb where O: "open_file (fs_view x) fd f p i b sb n" "\<not> has (fd_flags f) O_WRONLY"
    "fd_position f = 0" by (auto simp: opened_at_start_def open_file_view)
  have n: "\<not> S_ISFIFO (st_mode (ti_st n))" "unat (st_size (ti_st n)) < 2 ^ 31" using F(2) by (simp_all add: prog_file_def)
  have kk: "fs_kstack (xs_fs x) \<noteq> 0" "ptr_check (fs_view x) (fs_kstack (xs_fs x)) (R_OK OR W_OK)"
    using k(2) view_check [OF k(1)] by (auto simp: kbuf_ok_def)
  have "sz \<noteq> 0" using sz by auto
  then obtain t where t: "sys_read (fs_dispatch X m) fd (fs_kstack (xs_fs x)) sz (fs_view x) =
      Some ((int (length (pread (file_bytes n) 0 (unat sz))), pread (file_bytes n) 0 (unat sz)), t)"
    "open_file t fd (f\<lparr>fd_position := of_nat (length (pread (file_bytes n) 0 (unat sz)))\<rparr>) p i b sb n"
    "io_frame (unat fd) (fs_view x) t"
    using sys_read_open [OF O(1,2) kk, of sz X m] O(3) n sz by (auto simp: Let_def)
  have "prog_file fd p n (x\<lparr>xs_fs := t\<rparr>)" using t(2) O(2) n by (fastforce simp: prog_file_def)
  with t show thesis using that by (auto simp: with_fs_def io_frame_def xs_frame_of_def)
qed

lemma unmapped_load:
  assumes "xs_wf d x" "unmapped (xs_vm x) d a"
  shows "um_load x a = None"
  using assms access_entry(1) [of "xs_vm x" d a] by (simp add: um_load_def present_def unmapped_def xs_wf_def)

text \<open>Loading the segments keeps what the caller can read, and the room for the stack.\<close>

lemma loaded_keeps:
  assumes S: "segs_loaded d n phs x y" "segs_free d phs x" and wf: "xs_wf d x" "xs_wf d y"
  shows "um_load x a \<noteq> None \<Longrightarrow> um_load y a = um_load x a"
proof -
  have g: "vm_grows (sum_list (map seg_pages phs)) (xs_vm x) (xs_vm y) d" using S(1) by (simp add: segs_loaded_def)
  assume "um_load x a \<noteq> None"
  then have "\<not> in_seg ph a" if "ph \<in> set phs" for ph
    using that S(2) unmapped_load [OF wf(1)] by (auto simp: segs_free_def)
  then have "xs_mem y a = xs_mem x a" "page_entry (xs_vm y) d a = page_entry (xs_vm x) d a"
    using S(1) by (auto simp: segs_loaded_def)
  with xs_access_grows(1) [OF wf g] show ?thesis by (simp add: um_load_def)
qed

lemma loaded_brk_room:
  assumes S: "segs_loaded d n phs x y" and fit: "\<forall>ph \<in> set phs. seg_fits n ph" and R: "stack_room d phs k x"
    and M: "maps_added (seg_maps phs @ [new_map ASPACE_TYPE_BRK (image_brk phs) (image_brk phs) brk_flags]) x y"
      "as_mappings (xs_asp x) = []"
    and y: "as_end (xs_asp y) = xs_rss x" "xs_stack y = xs_stack x" "xs_wf d y"
  shows "brk_room d (brk_page phs) k y"
proof -
  have g: "vm_grows (sum_list (map seg_pages phs)) (xs_vm x) (xs_vm y) d" using S by (simp add: segs_loaded_def)
  note I = image_maps [OF M]
  have "unmapped (xs_vm y) d a" if "brk_page phs \<le> pn a" "pn a < brk_page phs + Suc k" for a
  proof -
    have "\<not> in_seg ph a" if "ph \<in> set phs" for ph using seg_below_brk [OF fit that] \<open>brk_page phs \<le> pn a\<close> by force
    then have "page_entry (xs_vm y) d a = page_entry (xs_vm x) d a" using S by (simp add: segs_loaded_def)
    moreover have "unmapped (xs_vm x) d a" using R that by (simp add: stack_room_def)
    ultimately show ?thesis using g by (simp add: unmapped_def vm_grows_def)
  qed
  moreover have "card (vm_taken (xs_vm y)) + 2 * Suc k \<le> pmm_blocks (vm_pmm (xs_vm y))"
    using R g by (simp add: stack_room_def vm_grows_def)
  moreover have "0 < brk_page phs" by (simp add: brk_page_def)
  ultimately show ?thesis using R y I by (simp add: brk_room_def stack_room_def new_map_def)
qed


lemma loadable_fs:
  assumes "loadable E d fd p n head phs x" "xs_frame_of fd (xs_fs x) s" "prog_file fd p n (x\<lparr>xs_fs := s\<rparr>)"
  shows "loadable E d fd p n head phs (x\<lparr>xs_fs := s\<rparr>)"
  using assms by (simp add: loadable_def kbuf_ok_def xs_frame_of_def)

lemma um_load_fs [simp]: "um_load (x\<lparr>xs_fs := s\<rparr>) a = um_load x a"
  by (simp add: um_load_def present_def)

lemma brk_room_fs [simp]: "brk_room d q k (x\<lparr>xs_fs := s\<rparr>) = brk_room d q k x"
  by (simp add: brk_room_def)

text \<open>The last part of the call: the strings and the context.\<close>

lemma exec_start_run:
  assumes B: "brk_room d q k x" and nm: "src_at x (pa q) (Suc k * 4096) filename nm"
    and v: "vec_at x (pa q) (Suc k * 4096) argv args" "vec_at x (pa q) (Suc k * 4096) envp env"
    and len: "length (exec_string nm args env) + 8 < Suc k * 4096"
    and c: "xs_context x \<noteq> 0" "e_entry head \<noteq> 0" "\<not> xs_interrupt x"
  obtains y fr where "exec_start head filename argv envp x = Some (ExecContext, y)"
    "str_at y (pa q + 8) (exec_string nm args env)"
    "\<And>a. off_area (pa q) (Suc k * 4096) a \<Longrightarrow> um_load y a = um_load x a" "xs_fs y = xs_fs x" "xs_exe y = xs_exe x"
    "load_word y (pa q) = Some 0" "load_word y (pa q + 4) = Some 0"
    "xs_frame y = Some fr" "xf_ip fr = e_entry head" "xf_ax fr = pa q" "xf_sp fr = pa (q + Suc k)"
proof -
  obtain y where y: "exec_stack filename argv envp x = Some ((pa q, pa (q + Suc k)), y)"
    "str_at y (pa q + 8) (exec_string nm args env)"
    "load_word y (pa q) = Some 0" "load_word y (pa q + 4) = Some 0"
    "\<And>a. off_area (pa q) (Suc k * 4096) a \<Longrightarrow> um_load y a = um_load x a" "xs_fs y = xs_fs x" "task_kept 0 x y"
    by (rule exec_stack_layout [OF B nm v len, where fd = 0]) blast
  have "pa (q + Suc k) \<noteq> 0" using unat_pa [of "q + Suc k"] B by (auto simp: brk_room_def)
  then obtain fr where fr: "arch_task_set_context (xs_context y) (e_entry head) (pa q) (pa (q + Suc k)) 0 = Some fr"
    "xf_ip fr = e_entry head" "xf_ax fr = pa q" "xf_sp fr = pa (q + Suc k)"
    using c y(7) by (auto simp: arch_task_set_context_def Let_def task_kept_def)
  have "exec_start head filename argv envp x = Some (ExecContext, y\<lparr>xs_frame := Some fr\<rparr>)"
    using check_vector_at [OF v(1)] check_vector_at [OF v(2)] y(1,7) fr(1) c
    by (simp add: exec_start_def task_kept_def Let_def)
  moreover have "um_load (y\<lparr>xs_frame := Some fr\<rparr>) a = um_load y a" for a by (simp add: um_load_def present_def)
  ultimately show thesis using that y fr by (simp add: str_at_def load_word_def task_kept_def)
qed

text \<open>All of it together, for a call outside of interrupts by a task that keeps its other descriptors.\<close>

definition exec_ready :: "elf_h \<Rightarrow> nat \<Rightarrow> u32 \<Rightarrow> iptr \<Rightarrow> tmpfs_inode \<Rightarrow> Elf_Ehdr \<Rightarrow> Elf_Phdr list \<Rightarrow> nat \<Rightarrow>
    u32 \<Rightarrow> byte list \<Rightarrow> u32 \<Rightarrow> byte list list \<Rightarrow> u32 \<Rightarrow> byte list list \<Rightarrow> xstate \<Rightarrow> bool" where
  "exec_ready E d fd p n head phs k filename nm argv args envp env x \<longleftrightarrow>
     loadable E d fd p n head phs x \<and> opened_at_start fd p n x \<and> exec_head E n head \<and> stack_room d phs k x
     \<and> (\<forall>i. \<not> xs_cloexec x i) \<and> xs_context x \<noteq> 0 \<and> \<not> xs_interrupt x
     \<and> caller_str x filename nm \<and> caller_vec x argv args \<and> caller_vec x envp env
     \<and> length (exec_string nm args env) + 8 < Suc k * 4096"

text \<open>Up to the start of the program: the image is loaded, the descriptor closed, and nothing else of the task changed.\<close>

lemma exec_file_loads:
  assumes L: "loadable E d fd p n head phs x" and O: "opened_at_start fd p n x" and H: "exec_head E n head"
    and cl: "\<forall>i. \<not> xs_cloexec x i"
  obtains y where "exec_file E (fs_dispatch X m) fd filename argv envp x = exec_start head filename argv envp y"
    "segs_loaded d n phs x y"
    "maps_added (seg_maps phs @ [new_map ASPACE_TYPE_BRK (image_brk phs) (image_brk phs) brk_flags]) x y"
    "as_end (xs_asp y) = xs_rss x" "xs_exe y = Some p" "xs_wf d y" "xs_stack y = xs_stack x"
    "xs_context y = xs_context x" "xs_interrupt y = xs_interrupt x"
proof -
  from L have K: "xs_wf d x" "kbuf_ok d x" "prog_file fd p n x" "\<not> t_lock (fs_task (xs_fs x))"
    by (simp_all add: loadable_def)
  have hz: "0 < unat (sizeof_ehdr E)" "unat (sizeof_ehdr E) < 2 ^ 31" using H by (simp_all add: exec_head_def)
  obtain s where s: "with_fs (sys_read (fs_dispatch X m) fd (fs_kstack (xs_fs x)) (sizeof_ehdr E)) x =
      Some ((int (length (pread (file_bytes n) 0 (unat (sizeof_ehdr E)))), pread (file_bytes n) 0 (unat (sizeof_ehdr E))),
        x\<lparr>xs_fs := s\<rparr>)"
    "prog_file fd p n (x\<lparr>xs_fs := s\<rparr>)" "xs_frame_of fd (xs_fs x) s"
    by (rule exec_head_read [OF O K(3,1,2) hz])
  obtain y where y: "exec_image E (fs_dispatch X m) fd head (x\<lparr>xs_fs := s\<rparr>) = Some (None, y)" "segs_loaded d n phs x y"
    "maps_added (seg_maps phs @ [new_map ASPACE_TYPE_BRK (image_brk phs) (image_brk phs) brk_flags]) x y"
    "as_end (xs_asp y) = xs_rss x" "xs_exe y = Some p" "xs_wf d y"
    "prog_file fd p n y" "task_kept fd (x\<lparr>xs_fs := s\<rparr>) (y\<lparr>xs_exe := xs_exe x\<rparr>)"
    using exec_image_run [OF loadable_fs [OF L s(3,2)], of X m] by auto
  have T: "xs_cloexec y = xs_cloexec x" "xs_context y = xs_context x" "xs_interrupt y = xs_interrupt x"
    "xs_stack y = xs_stack x" "fs_inodes (xs_fs y) = fs_inodes (xs_fs x)" "\<not> t_lock (fs_task (xs_fs y))"
    using y(8) s(3) K(4) by (simp_all add: task_kept_def xs_frame_of_def)
  obtain i where i: "fs_inodes (xs_fs y) p = Some i" "i_ops i Oclose = None"
    using O T(5) by (auto simp: opened_at_start_def dest!: open_fileD(4) live_nodeD(1) simp: tmpfs_sb_iff)
  obtain u where u: "with_fs (sys_close (fs_dispatch X m) fd) y = Some (0, y\<lparr>xs_fs := u\<rparr>)" "length (t_fd (fs_task u)) = TASK_NFD"
    by (rule sys_close_prog [OF y(7) i T(6)])
  have "exec_file E (fs_dispatch X m) fd filename argv envp x = exec_start head filename argv envp (y\<lparr>xs_fs := u\<rparr>)"
    using s(1) y(1) u H cl T(1) close_on_exec_none [of "y\<lparr>xs_fs := u\<rparr>" 0 TASK_NFD]
    by (auto simp: exec_file_def exec_head_def)
  then show thesis using that [of "y\<lparr>xs_fs := u\<rparr>"] y T by (simp add: segs_loaded_def maps_added_def)
qed

lemma exec_file_run:
  assumes "exec_ready E d fd p n head phs k filename nm argv args envp env x"
  obtains y fr where "exec_file E (fs_dispatch X m) fd filename argv envp x = Some (ExecContext, y)"
    "\<And>ph a. ph \<in> set phs \<Longrightarrow> in_seg ph a \<Longrightarrow> um_load y a = seg_byte n ph a"
    "str_at y (image_brk phs + 8) (exec_string nm args env)" "xs_exe y = Some p" "load_word y (image_brk phs) = Some 0"
    "load_word y (image_brk phs + 4) = Some 0" "xs_frame y = Some fr" "xf_ip fr = e_entry head"
    "xf_ax fr = image_brk phs" "xf_sp fr = pa (brk_page phs + Suc k)"
proof -
  let ?q = "brk_page phs"
  from assms have L: "loadable E d fd p n head phs x" and O: "opened_at_start fd p n x" and H: "exec_head E n head"
    and R: "stack_room d phs k x" and t: "\<forall>i. \<not> xs_cloexec x i" "xs_context x \<noteq> 0" "\<not> xs_interrupt x"
    and S: "caller_str x filename nm" "caller_vec x argv args" "caller_vec x envp env"
    and len: "length (exec_string nm args env) + 8 < Suc k * 4096"
    by (simp_all add: exec_ready_def)
  from L have K: "xs_wf d x" "\<forall>ph \<in> set phs. seg_fits n ph" "segs_free d phs x" "as_mappings (xs_asp x) = []"
    by (simp_all add: loadable_def)
  obtain y where y: "exec_file E (fs_dispatch X m) fd filename argv envp x = exec_start head filename argv envp y"
    "segs_loaded d n phs x y"
    "maps_added (seg_maps phs @ [new_map ASPACE_TYPE_BRK (image_brk phs) (image_brk phs) brk_flags]) x y"
    "as_end (xs_asp y) = xs_rss x" "xs_exe y = Some p" "xs_wf d y" "xs_stack y = xs_stack x"
    "xs_context y = xs_context x" "xs_interrupt y = xs_interrupt x"
    by (rule exec_file_loads [OF L O H t(1)])
  have B: "brk_room d ?q k y" by (rule loaded_brk_room [OF y(2) K(2) R y(3) K(4) y(4,7,6)])
  have q: "?q + Suc k < 2 ^ 20" using R by (simp add: stack_room_def)
  have keep: "off_area (pa ?q) (Suc k * 4096) a \<and> um_load y a = um_load x a" if "um_load x a \<noteq> None" for a
    using loaded_keeps [OF y(2) K(3,1) y(6) that] that unmapped_load [OF K(1)] R off_area_page [OF q, of a]
    by (auto simp: stack_room_def)
  note V = vec_at_transfer(2) [OF keep S(1)] vec_at_transfer(3) [OF keep S(2)] vec_at_transfer(3) [OF keep S(3)]
  have c: "xs_context y \<noteq> 0" "e_entry head \<noteq> 0" "\<not> xs_interrupt y" using t y(8,9) H by (simp_all add: exec_head_def)
  obtain z fr where z: "exec_start head filename argv envp y = Some (ExecContext, z)"
    "str_at z (image_brk phs + 8) (exec_string nm args env)"
    "\<And>a. off_area (pa ?q) (Suc k * 4096) a \<Longrightarrow> um_load z a = um_load y a" "xs_exe z = xs_exe y"
    "load_word z (pa ?q) = Some 0" "load_word z (pa ?q + 4) = Some 0"
    "xs_frame z = Some fr" "xf_ip fr = e_entry head" "xf_ax fr = image_brk phs" "xf_sp fr = pa (?q + Suc k)"
    using exec_start_run [OF B V len c] by metis
  have "um_load z a = seg_byte n ph a" if "ph \<in> set phs" "in_seg ph a" for ph a
  proof -
    have "rw_page d y a" "xs_mem y a = seg_byte n ph a" using y(2) that by (auto simp: segs_loaded_def)
    then have "um_load y a = seg_byte n ph a" using rw_page_present [OF y(6)] by (simp add: um_load_def present_def)
    then show ?thesis using z(3) [of a] off_area_page [OF q, of a] seg_below_brk [OF K(2) that] by simp
  qed
  with y(1,5) z show thesis using that [of z fr] by auto
qed



text \<open>A program of two bytes: a task whose tables map the page at \<^verbatim>\<open>0x1000\<close> only, with the strings of the
  caller in it, and the demonstration file open at descriptor 0.\<close>

definition demo_ehdr :: Elf_Ehdr where
  "demo_ehdr = \<lparr>e_ident0 = 127, e_ident1 = 69, e_elfmag = True, e_exec = True, e_entry = 0x20000, e_phoff = 0,
     e_phentsize = 2, e_phnum = 1\<rparr>"

definition demo_phdr :: Elf_Phdr where
  "demo_phdr = \<lparr>p_type = PT_LOAD, p_exec = True, p_offset = 0, p_vaddr = pa 32, p_filesz = 2, p_memsz = 2,
     p_align = PAGE_SIZE\<rparr>"

definition demo_elf :: elf_h where
  "demo_elf = \<lparr>sizeof_ehdr = 2, sizeof_phdr = 2, ehdr_of = (\<lambda>_. Some demo_ehdr), phdr_of = (\<lambda>_. Some demo_phdr)\<rparr>"

definition demo_xs :: "vm \<Rightarrow> xstate" where
  "demo_xs v = \<lparr>xs_fs = demo_written,
     xs_asp = \<lparr>as_vmmpd = 4096, as_start = 0, as_end = 0, as_size = 0, as_ops = (0, 0, 0), as_mappings = []\<rparr>,
     xs_sys = \<lparr>sys_maps = Map.empty, sys_vm = v\<rparr>,
     xs_mem = (\<lambda>_. Some 0)(0x1100 := Some 97, 0x1201 := Some 0x13, 0x1300 := Some 120),
     xs_next = 0, xs_cloexec = (\<lambda>_. False), xs_exe = None, xs_rss = - 1, xs_stack = 0x1000, xs_context = 0x3000,
     xs_frame = None, xs_interrupt = False\<rparr>"

lemma demo_exec_vm:
  obtains v where "x86_map_page (frame_addr 1) 0x1000 7 3 vm_demo = Some ((), v)" "xs_wf 1 (demo_xs v)"
    "\<And>a. pn a = 1 \<Longrightarrow> rw_page 1 (demo_xs v) a" "\<And>a. pn a \<noteq> 1 \<Longrightarrow> unmapped v 1 a"
    "card (vm_taken v) \<le> 34" "pmm_blocks (vm_pmm v) = 64"
proof -
  have fl: "flags_ok (3 AND NOT X86_MMU_PG_NX)"
    by (simp add: flags_ok_def X86_MMU_PG_NX_def bit_simps bit_numeral_rec bit_push_one_u64 del: push_bit_of_1)
  have un: "\<not> bit (cell vm_demo 1 (pdi 0x1000)) 7" "\<not> bit (page_entry vm_demo 1 0x1000) 0"
    using vm_demo_unmapped [of "0x1000"] by (simp_all add: unmapped_def)
  from x86_map_page_spec [OF vm_demo_wf un fl, of 7] vm_demo_room obtain v e where
    v: "x86_map_page (frame_addr 1) 0x1000 7 3 vm_demo = Some ((), v)" "pt_wf v 1" "bit e 0" "bit e 1 \<longleftrightarrow> bit (3 :: u64) 1"
      "\<forall>a'. page_entry v 1 a' = (if same_page a' 0x1000 then e else page_entry vm_demo 1 a')"
      "\<forall>a'. bit (cell v 1 (pdi a')) 7 \<longleftrightarrow> bit (cell vm_demo 1 (pdi a')) 7"
      "card (vm_taken v) \<le> card (vm_taken vm_demo) + 2" "pmm_blocks (vm_pmm v) = pmm_blocks (vm_pmm vm_demo)" by auto
  have e1: "bit e 1" using v(4) by simp
  have p1: "pn 0x1000 = 1" by (simp add: pn_def)
  have c7: "\<not> bit (cell v 1 (pdi a)) 7" for a using v(6) vm_demo_unmapped [of a] by (simp add: unmapped_def)
  have en: "page_entry v 1 a = (if pn a = 1 then e else page_entry vm_demo 1 a)" for a
    using v(5) p1 by (simp add: same_page_pn)
  have "xs_wf 1 (demo_xs v)" using v(2) by (simp add: xs_wf_def demo_xs_def frame_addr_def)
  moreover have "rw_page 1 (demo_xs v) a" if "pn a = 1" for a
    using access_entry(2) [OF v(2) c7] en [of a] that v(3) e1 by (simp add: rw_page_def demo_xs_def)
  moreover have "unmapped v 1 a" if "pn a \<noteq> 1" for a
    using en [of a] that c7 [of a] vm_demo_unmapped [of a] by (simp add: unmapped_def)
  ultimately show thesis using that [OF v(1)] v(7,8) vm_demo_room by simp
qed

lemma demo_prog:
  "opened_at_start 0 2 demo_data (demo_xs v)" "prog_file 0 2 demo_data (demo_xs v)" "file_bytes demo_data = [Some 104, Some 105]"
proof -
  obtain sb where "live_node demo_written 2 demo_file 1 sb demo_data" using demo_written_live ..
  then have "open_file (xs_fs (demo_xs v)) 0 \<lparr>fd_inode = Some 2, fd_position = 0, fd_flags = 2, fd_lock = False\<rparr>
      2 demo_file 1 sb demo_data"
    by (simp add: open_file_def demo_xs_def demo_written_def fs_written_def fs_demo_def Tmpfs.demo_task_def TASK_NFD_def
        demo_file_def ops_of_def tmpfs_vops_def mode_defs)
  moreover have "i_ops demo_file Oclose = None" by (simp add: demo_file_def ops_of_def tmpfs_vops_def mode_defs)
  ultimately show "opened_at_start 0 2 demo_data (demo_xs v)" "prog_file 0 2 demo_data (demo_xs v)"
    by (fastforce simp: opened_at_start_def prog_file_def O_WRONLY_def demo_data_def demo_node_def mode_defs)+
  show "file_bytes demo_data = [Some 104, Some 105]" by (simp add: file_bytes_def demo_data_def)
qed

lemma demo_phdr_sel [simp]:
  "p_type demo_phdr = PT_LOAD" "p_vaddr demo_phdr = pa 32" "p_offset demo_phdr = 0" "p_filesz demo_phdr = 2"
  "p_memsz demo_phdr = 2" "p_align demo_phdr = PAGE_SIZE"
  by (simp_all add: demo_phdr_def)

lemma demo_seg: "seg_pages demo_phdr = 1" "brk_page [demo_phdr] = 34" "in_seg demo_phdr a \<longleftrightarrow> pn a = 32"
  by (auto simp: seg_pages_def brk_page_def seg_bounds_def pa_add in_seg_def)

lemma demo_loadable:
  assumes v: "xs_wf 1 (demo_xs v)" "\<And>a. pn a = 1 \<Longrightarrow> rw_page 1 (demo_xs v) a" "\<And>a. pn a \<noteq> 1 \<Longrightarrow> unmapped v 1 a"
    "card (vm_taken v) \<le> 34" "pmm_blocks (vm_pmm v) = 64"
  shows "loadable demo_elf 1 0 2 demo_data demo_ehdr [demo_phdr] (demo_xs v)" "stack_room 1 [demo_phdr] 0 (demo_xs v)"
proof -
  have k: "fs_kstack (xs_fs (demo_xs v)) = 0x1000" "\<not> t_lock (fs_task (xs_fs (demo_xs v)))"
    by (simp_all add: demo_xs_def demo_written_def fs_written_def fs_demo_def Tmpfs.demo_task_def)
  have "kbuf_ok 1 (demo_xs v)" using v(2) [of "0x1000"] by (simp add: kbuf_ok_def k pn_def)
  moreover have "unat (st_size (ti_st demo_data)) = 2" by (simp add: demo_data_def)
  then have "headers_at demo_elf demo_data demo_ehdr 0 [demo_phdr]" "seg_fits demo_data demo_phdr"
    by (simp_all add: demo_elf_def demo_ehdr_def demo_seg seg_fits_def)
  moreover have "segs_free 1 [demo_phdr] (demo_xs v)"
    using v(3-5) by (simp add: segs_free_def demo_seg) (simp add: demo_xs_def)
  ultimately show "loadable demo_elf 1 0 2 demo_data demo_ehdr [demo_phdr] (demo_xs v)"
    using v(1) demo_prog(2) k(2)
    by (simp add: loadable_def segs_apart_def) (simp add: demo_elf_def demo_ehdr_def demo_xs_def)
  show "stack_room 1 [demo_phdr] 0 (demo_xs v)"
    using v(3-5) by (simp add: stack_room_def demo_seg) (simp add: demo_xs_def pages_for_def)
qed


lemma demo_caller:
  assumes "xs_wf 1 (demo_xs v)" "\<And>a. pn a = 1 \<Longrightarrow> rw_page 1 (demo_xs v) a"
  shows "caller_str (demo_xs v) 0x1100 [97]" "caller_vec (demo_xs v) 0x1200 [[120]]" "caller_vec (demo_xs v) 0x1400 []"
proof -
  have "um_load (demo_xs v) a = xs_mem (demo_xs v) a" if "pn a = 1" for a
    using rw_page_present [OF assms(1) assms(2) [OF that]] by (simp add: um_load_def)
  then have l: "um_load (demo_xs v) a =
      ((\<lambda>_. Some 0)(0x1100 := Some 97, 0x1201 := Some 0x13, 0x1300 := Some 120)) a" if "pn a = 1" for a
    using that by (simp add: demo_xs_def)
  show "caller_str (demo_xs v) 0x1100 [97]" "caller_vec (demo_xs v) 0x1400 []"
    by (simp_all add: src_at_def str_at_def off_area_def ptr_at_def load_word_def l pn_def)
  show "caller_vec (demo_xs v) 0x1200 [[120]]"
    by (auto simp: src_at_def str_at_def off_area_def ptr_at_def load_word_def l pn_def)
qed

lemma demo_string: "exec_string [97] [[120]] [] = [97, 32, 120, 32, 27, 36, 36, 36, 32, 27, 36, 36, 36, 32]"
  by (simp add: exec_string_def spaced_def SPACE_def MARK_def)

lemma demo_ready:
  assumes "xs_wf 1 (demo_xs v)" "\<And>a. pn a = 1 \<Longrightarrow> rw_page 1 (demo_xs v) a" "\<And>a. pn a \<noteq> 1 \<Longrightarrow> unmapped v 1 a"
    "card (vm_taken v) \<le> 34" "pmm_blocks (vm_pmm v) = 64"
  shows "exec_ready demo_elf 1 0 2 demo_data demo_ehdr [demo_phdr] 0 0x1100 [97] 0x1200 [[120]] 0x1400 [] (demo_xs v)"
proof -
  have "exec_head demo_elf demo_data demo_ehdr" by (simp add: exec_head_def demo_elf_def demo_ehdr_def)
  moreover have "\<forall>i. \<not> xs_cloexec (demo_xs v) i" "xs_context (demo_xs v) \<noteq> 0" "\<not> xs_interrupt (demo_xs v)"
    by (simp_all add: demo_xs_def)
  ultimately show ?thesis unfolding exec_ready_def
    using demo_loadable [OF assms] demo_prog(1) demo_caller [OF assms(1,2)] demo_string by simp
qed



section \<open>Failures\<close>

text \<open>A file that ends inside its first program header.\<close>

definition truncated :: "elf_h \<Rightarrow> tmpfs_inode \<Rightarrow> Elf_Ehdr \<Rightarrow> bool" where
  "truncated E n head \<longleftrightarrow> e_phnum head \<noteq> 0 \<and> ucast (e_phentsize head) \<le> sizeof_phdr E
     \<and> unat (e_phoff head) \<le> unat (st_size (ti_st n))
     \<and> unat (st_size (ti_st n)) < unat (e_phoff head) + unat (ucast (e_phentsize head) :: u32)
     \<and> unat (e_phoff head) + unat (ucast (e_phentsize head) :: u32) < 2 ^ 31"

lemma exec_image_truncated:
  assumes k: "xs_wf d x" "kbuf_ok d x" "prog_file fd p n x" and l: "\<not> t_lock (fs_task (xs_fs x))"
    and m: "as_mappings (xs_asp x) = []" and T: "truncated E n head"
  obtains y where "exec_image E (fs_dispatch X m) fd head x = Some (Some (- E_IO), y)" "t_lock (fs_task (xs_fs y))"
    "prog_file fd p n y"
proof -
  let ?x = "(xs_set_lock True x)\<lparr>xs_asp := (xs_asp x)\<lparr>as_start := 0, as_end := - 1\<rparr>, xs_sys := xs_sys x\<rparr>"
  let ?sz = "ucast (e_phentsize head) :: u32"
  obtain c where c: "unat (e_phnum head) = Suc c" using T unat_gt_0 [of "e_phnum head"] gr0_conv_Suc
    by (auto simp: truncated_def)
  have x: "xs_wf d ?x" "kbuf_ok d ?x" "prog_file fd p n ?x" "fs_kstack (xs_fs ?x) \<noteq> 0"
    "rw_page d ?x (fs_kstack (xs_fs ?x))"
    using k prog_file_cong [of ?x "xs_set_lock True x"] by (simp_all add: xs_wf_def kbuf_ok_def rw_page_def)
  have z: "?sz \<noteq> 0" "unat (e_phoff head) \<le> unat (st_size (ti_st n))" "unat (e_phoff head) + unat ?sz < 2 ^ 31"
    using T by (auto simp: truncated_def)
  obtain s where s: "RXX (fs_dispatch X m) fd False (fs_kstack (xs_fs ?x)) (e_phoff head) ?sz ?x =
      Some ((if length (pread (file_bytes n) (unat (e_phoff head)) (unat ?sz)) = unat ?sz then None else Some (- E_IO),
        pread (file_bytes n) (unat (e_phoff head)) (unat ?sz)),
        ?x\<lparr>xs_fs := s, xs_mem := (if False then um_put (fs_kstack (xs_fs ?x)) (pread (file_bytes n) (unat (e_phoff head)) (unat ?sz)) (xs_mem ?x)
           else xs_mem ?x)\<rparr>)"
    "prog_file fd p n (?x\<lparr>xs_fs := s\<rparr>)" "xs_frame_of fd (xs_fs ?x) s"
    using RXX_pread [OF x(1-5) z, of False _ X m, OF _ refl] by blast
  obtain f i b sb where "open_file (xs_fs x) fd f p i b sb n" using k(3) by (auto simp: prog_file_def)
  then have "length (pread (file_bytes n) (unat (e_phoff head)) (unat ?sz)) \<noteq> unat ?sz"
    using length_file_bytes_live T by (auto simp: pread_def truncated_def min_def)
  with s(1) have "exec_image E (fs_dispatch X m) fd head x = Some (Some (- E_IO), ?x\<lparr>xs_fs := s, xs_mem := xs_mem ?x\<rparr>)"
    using l m T c by (simp add: exec_image_def aspace_free_def Let_def truncated_def)
  moreover have "t_lock (fs_task (xs_fs (?x\<lparr>xs_fs := s, xs_mem := xs_mem ?x\<rparr>)))"
    using s(3) by (simp add: xs_frame_of_def)
  moreover have "prog_file fd p n (?x\<lparr>xs_fs := s, xs_mem := xs_mem ?x\<rparr>)" using s(2) by (simp add: prog_file_def)
  ultimately show thesis by (rule that)
qed

lemma lock_held_stuck:
  assumes "t_lock (fs_task s)"
  shows "open_fd r flags st s = None"
  using assms by (simp add: open_fd_def with_task_lock_def with_lock_held)




text \<open>The checks before anything changes: a file that is not an image is refused, and the memory of the
  task and its lock are as before; only the descriptor stays open.\<close>

lemma exec_not_elf:
  assumes "with_fs (sys_read D fd (fs_kstack (xs_fs x)) (sizeof_ehdr E)) x = Some ((e, bs), y)" "0 \<le> e"
    "ehdr_of E bs = Some head" "(e_ident0 head = 35 \<and> e_ident1 head = 33) \<or> \<not> e_elfmag head \<or> \<not> e_exec head"
  shows "exec_file E D fd filename argv envp x = Some (ExecReturn (- ENOEXEC), y)"
  using assms by (auto simp: exec_file_def)

text \<open>The permission check is a chain: the owner and the group of a file that have the permission still
  need the permission of others. A file that only its owner may execute is refused to its owner.\<close>

lemma exec_denied_others: "\<not> has (st_mode st) S_IXOTH \<Longrightarrow> exec_denied st t"
  by (simp add: exec_denied_def)

lemma execve_owner_refused:
  assumes "filename \<noteq> 0" "argv \<noteq> 0" "envp \<noteq> 0" "fs_chk (fs_view x) filename R_OK" "fs_chk (fs_view x) argv R_OK"
    "fs_chk (fs_view x) envp R_OK" "load_string x filename = Some bs"
    "with_fs (sys_newstat D n (filename, bytes_string bs) (fs_kstack (xs_fs x))) x = Some ((e, Some st), y)" "0 \<le> e"
    "\<not> has (st_mode st) S_IXOTH"
  shows "sys_execve E D n filename argv envp x = Some (ExecReturn (- EPERM), y)"
  using assms by (simp add: sys_execve_def exec_denied_others)


text \<open>Replacing an image: when the first map of the task is not shared and the page behind it is not
  mapped, freeing the old address space fails in an assertion and the call does not come back.\<close>

lemma exec_image_old_maps_stuck:
  assumes "xs_wf d x" "\<not> t_lock (fs_task (xs_fs x))" "as_mappings (xs_asp x) = m # ms" "sys_maps (xs_sys x) m = Some t"
    "am_refcount t = 1" "am_start t = pa q" "am_end t = pa (q + Suc n)" "0 < q" "q + n + 2 < 2 ^ 20"
    "\<forall>a. q \<le> pn a \<and> pn a < q + Suc n \<longrightarrow> bit (page_entry (xs_vm x) d a) 0" "unmapped (xs_vm x) d (pa (q + Suc n))"
  shows "exec_image E D fd head x = None"
proof -
  have "aspace_remove_map m (xs_asp x) (xs_sys x) = None"
    using assms by (intro aspace_remove_map_overruns [of _ d _ _ t q n]) (simp_all add: xs_wf_def)
  then show ?thesis using assms(2,3) by (simp add: exec_image_def aspace_free_def Let_def)
qed

end
