(* ===== verification/Crt.thy ===== *)
theory Crt
  imports Execve
begin

text \<open>
  The start of a program, \<^verbatim>\<open>sdk/libs/crt/crt0.c\<close>, with \<^verbatim>\<open>strtok\<close> of the C library: how it takes the
  strings apart that \<^verbatim>\<open>execve\<close> has left at the break, and what \<^verbatim>\<open>main\<close> gets of them.
\<close>

section \<open>Model\<close>

text \<open>
  \<^verbatim>\<open>__strtok_r\<close> on the bytes of a string up to its terminator. A pointer into the string is the rest of it
  from there on, \<open>None\<close> the null pointer; the result is the token, and the second component what
  \<^verbatim>\<open>*lasts\<close> points to afterwards.
\<close>

fun tok_skip :: "byte list \<Rightarrow> byte list \<Rightarrow> byte list" where
  "tok_skip delim [] = []"
| "tok_skip delim (c # s) = (if c \<in> set delim then tok_skip delim s else c # s)"

fun tok_scan :: "byte list \<Rightarrow> byte list \<Rightarrow> byte list \<times> byte list option" where
  "tok_scan delim [] = ([], None)"
| "tok_scan delim (c # s) =
     (if c \<in> set delim then ([], Some s) else let (tok, rest) = tok_scan delim s in (c # tok, rest))"

definition strtok_r :: "byte list option \<Rightarrow> byte list \<Rightarrow> bool \<Rightarrow> byte list option \<Rightarrow>
    byte list option \<times> byte list option" where
  "strtok_r s delim skip_leading_delim lasts =
     (case (if s = None then lasts else s) of
        None \<Rightarrow> (None, lasts)
      | Some s \<Rightarrow>
          if \<not> skip_leading_delim \<and> s \<noteq> [] \<and> hd s \<in> set delim then (Some [], Some (tl s))
          else case tok_skip delim s of
                 [] \<Rightarrow> (None, None)
               | c # s \<Rightarrow> let (tok, rest) = tok_scan delim s in (Some (c # tok), rest))"

definition strtok :: "byte list option \<Rightarrow> byte list option \<Rightarrow> byte list option \<times> byte list option" where
  "strtok s lasts = strtok_r s SPACE True lasts"

text \<open>
  What \<^verbatim>\<open>__init\<close> works on: the buffer \<^verbatim>\<open>__progname\<close>, the number and the vector of the arguments (\<open>None\<close> the
  null pointer), the strings given to \<^verbatim>\<open>putenv\<close>, and the state of \<^verbatim>\<open>strtok\<close>.
\<close>

record crt =
  c_progname :: "byte list"
  c_argc :: nat
  c_argv :: "byte list list option"
  c_env :: "byte list list"
  c_lasts :: "byte list option"

definition next_token :: "crt \<Rightarrow> byte list option \<times> crt" where
  "next_token c = (let (s, l) = strtok None (c_lasts c) in (s, c\<lparr>c_lasts := l\<rparr>))"

abbreviation left :: "crt \<Rightarrow> nat" where
  "left c \<equiv> (case c_lasts c of None \<Rightarrow> 0 | Some l \<Rightarrow> Suc (length l))"

lemma tok_skip_length: "length (tok_skip delim s) \<le> length s"
  by (induction s) auto

lemma tok_scan_length: "snd (tok_scan delim s) = Some r \<Longrightarrow> length r < length s"
  by (induction s arbitrary: r) (force split: if_splits prod.splits)+

lemma strtok_shorter:
  assumes "strtok None (Some l) = (Some t, Some r)"
  shows "length r < length l"
proof -
  obtain c s where s: "tok_skip SPACE l = c # s" using assms
    by (cases "tok_skip SPACE l") (auto simp: strtok_def strtok_r_def)
  then have "snd (tok_scan SPACE s) = Some r" using assms
    by (auto simp: strtok_def strtok_r_def split: prod.splits)
  from tok_scan_length [OF this] tok_skip_length [of SPACE l] s show ?thesis by simp
qed

lemma next_token_left: "next_token c = (Some t, c') \<Longrightarrow> left c' < left c"
proof (cases "c_lasts c")
  case (Some l)
  assume "next_token c = (Some t, c')"
  then have "strtok None (Some l) = (Some t, c_lasts c')" using Some by (auto simp: next_token_def split: prod.splits)
  then show ?thesis using strtok_shorter [of l t] Some by (cases "c_lasts c'") auto
qed (simp add: next_token_def strtok_def strtok_r_def)

text \<open>\<^verbatim>\<open>strcpy\<close> into \<^verbatim>\<open>__progname\<close>, which has \<^verbatim>\<open>BUFSIZ\<close> bytes; a longer token overruns it.\<close>

definition set_progname :: "nat \<Rightarrow> byte list \<Rightarrow> crt \<Rightarrow> crt option" where
  "set_progname bufsiz s c = do { kassert (length s < bufsiz); Some (c\<lparr>c_progname := s\<rparr>) }"


text \<open>
  The three loops of \<^verbatim>\<open>__init\<close>; each starts with the token \<open>s\<close> that the one before has ended with. The
  first copies every token to \<^verbatim>\<open>__progname\<close>.
\<close>

abbreviation loop_size :: "byte list option \<Rightarrow> crt \<Rightarrow> nat" where
  "loop_size s c \<equiv> (case s of None \<Rightarrow> 0 | Some _ \<Rightarrow> Suc (left c))"

lemma next_token_size:
  "c_lasts c = c_lasts d \<Longrightarrow> (case next_token c of (s, c') \<Rightarrow> loop_size s c') < Suc (left d)"
  using next_token_left [of c] by (auto split: prod.splits option.splits)

function progname_loop :: "nat \<Rightarrow> byte list option \<Rightarrow> crt \<Rightarrow> (byte list option \<times> crt) option" where
  "progname_loop bufsiz s c =
     (case s of
        None \<Rightarrow> Some (None, c)
      | Some t \<Rightarrow>
          do {
            c \<leftarrow> set_progname bufsiz t c;
            let (s, c) = next_token c;
            progname_loop bufsiz s c
          })"
  by pat_completeness auto

termination progname_loop
  by (relation "measure (\<lambda>(_, s, c). loop_size s c)")
     (auto simp: set_progname_def intro: next_token_size)

text \<open>
  \<^verbatim>\<open>__arg_add\<close> gets the address of the one variable that holds the vector, and its \<^verbatim>\<open>*argv[i]\<close> is
  \<^verbatim>\<open>*(argv[i])\<close>: the variable itself for \<open>i = 0\<close>, and whatever lies behind it for every other index.
\<close>

definition arg_cell :: "nat \<Rightarrow> unit option" where
  "arg_cell i = kassert (i = 0)"

definition arg_add :: "byte list \<Rightarrow> crt \<Rightarrow> crt option" where
  "arg_add s c =
     do {
       let (argv, argc) = (case c_argv c of None \<Rightarrow> ([], 0) | Some v \<Rightarrow> (v, c_argc c));
       let argc = argc + 1;
       arg_cell (argc - 1);
       arg_cell argc;
       Some (c\<lparr>c_argc := argc, c_argv := Some (argv @ [s])\<rparr>)
     }"

lemma arg_add_undefined: "arg_add s c = None"
  by (auto simp: arg_add_def arg_cell_def Let_def kassert_def split: prod.splits)

definition MARK_TOKEN :: "byte list" where "MARK_TOKEN = [27, 36, 36, 36]"

function args_loop :: "byte list option \<Rightarrow> crt \<Rightarrow> (byte list option \<times> crt) option" where
  "args_loop s c =
     (case s of
        None \<Rightarrow> Some (None, c)
      | Some t \<Rightarrow>
          if t = MARK_TOKEN then Some (s, c)
          else do {
            c \<leftarrow> arg_add t c;
            let (s, c) = next_token c;
            args_loop s c
          })"
  by pat_completeness auto

termination args_loop
  by (relation "measure (\<lambda>(s, c). loop_size s c)")
     (simp_all add: arg_add_undefined)

function env_loop :: "byte list option \<Rightarrow> crt \<Rightarrow> crt" where
  "env_loop s c =
     (case s of
        None \<Rightarrow> c
      | Some t \<Rightarrow>
          if t = MARK_TOKEN then c
          else let (s, c) = next_token (c\<lparr>c_env := c_env c @ [t]\<rparr>) in env_loop s c)"
  by pat_completeness auto

termination env_loop
  by (relation "measure (\<lambda>(s, c). loop_size s c)") (auto intro: next_token_size)

text \<open>The part of \<^verbatim>\<open>__init\<close> that prepares the arguments of \<^verbatim>\<open>main\<close>, for the string at \<^verbatim>\<open>brk\<close>.\<close>

definition crt_init :: "nat \<Rightarrow> byte list \<Rightarrow> crt option" where
  "crt_init bufsiz str =
     do {
       let (s, l) = strtok (Some str) None;
       let c = \<lparr>c_progname = [], c_argc = 0, c_argv = None, c_env = [], c_lasts = l\<rparr>;
       (s, c) \<leftarrow> progname_loop bufsiz s c;
       (s, c) \<leftarrow> args_loop s c;
       Some (env_loop s c)
     }"

text \<open>\<^verbatim>\<open>_start\<close> with the address of the break in the register \<^verbatim>\<open>eax\<close>.\<close>

definition crt_start :: "nat \<Rightarrow> xstate \<Rightarrow> u32 \<Rightarrow> ((u32 \<times> u32) \<times> crt) option" where
  "crt_start bufsiz x brk =
     do {
       tls_start \<leftarrow> load_word x brk;
       tls_end \<leftarrow> load_word x (brk + 4);
       str \<leftarrow> load_string x (brk + 8);
       c \<leftarrow> crt_init bufsiz str;
       Some ((tls_start, tls_end), c)
     }"

section \<open>The tokens of a string\<close>

lemma strtok_size:
  "(Some t, r) = strtok None l \<Longrightarrow>
     (case r of None \<Rightarrow> 0 | Some s \<Rightarrow> Suc (length s)) < (case l of None \<Rightarrow> 0 | Some s \<Rightarrow> Suc (length s))"
  using strtok_shorter [of _ t] by (cases l; cases r) (force simp: strtok_def strtok_r_def)+

function toks :: "byte list option \<Rightarrow> byte list list" where
  "toks l = (case strtok None l of (None, _) \<Rightarrow> [] | (Some t, r) \<Rightarrow> t # toks r)"
  by pat_completeness auto

termination toks
  by (relation "measure (\<lambda>l. case l of None \<Rightarrow> 0 | Some s \<Rightarrow> Suc (length s))") (auto dest: strtok_size)

declare toks.simps [simp del] progname_loop.simps [simp del] args_loop.simps [simp del] env_loop.simps [simp del]

lemma strtok_Some [simp]: "strtok (Some s) l = strtok None (Some s)"
  by (simp add: strtok_def strtok_r_def)

lemma strtok_None [simp]: "strtok None None = (None, None)" "toks None = []"
  by (simp_all add: strtok_def strtok_r_def toks.simps [of None])

lemma strtok_skip:
  "strtok None (Some s) = (case tok_skip SPACE s of [] \<Rightarrow> (None, None)
     | c # s \<Rightarrow> let (tok, rest) = tok_scan SPACE s in (Some (c # tok), rest))"
  by (simp add: strtok_def strtok_r_def)

lemma tok_skip_append:
  "tok_skip SPACE (a @ 32 # b) = (case tok_skip SPACE a of [] \<Rightarrow> tok_skip SPACE b | c # s \<Rightarrow> c # s @ 32 # b)"
  by (induction a) (auto simp: SPACE_def split: list.splits)

lemma tok_scan_append:
  "tok_scan SPACE (a @ 32 # b) =
     (case tok_scan SPACE a of (t, None) \<Rightarrow> (t, Some b) | (t, Some r) \<Rightarrow> (t, Some (r @ 32 # b)))"
  by (induction a) (auto simp: SPACE_def split: option.splits prod.splits)

text \<open>A space separates the tokens.\<close>

lemma toks_append: "toks (Some (a @ 32 # b)) = toks (Some a) @ toks (Some b)"
proof (induction "length a" arbitrary: a rule: less_induct)
  case less
  show ?case
  proof (cases "tok_skip SPACE a")
    case Nil
    then show ?thesis
      by (simp add: toks.simps [of "Some (a @ 32 # b)"] toks.simps [of "Some a"] toks.simps [of "Some b"] strtok_skip
          tok_skip_append)
  next
    case (Cons c s)
    obtain t r where tr: "tok_scan SPACE s = (t, r)" by (cases "tok_scan SPACE s")
    have "strtok None (Some a) = (Some (c # t), r)" by (simp add: strtok_skip Cons tr)
    moreover from this have "length m < length a" if "r = Some m" for m using strtok_shorter that by blast
    moreover have "strtok None (Some (a @ 32 # b)) =
        (Some (c # t), case r of None \<Rightarrow> Some b | Some m \<Rightarrow> Some (m @ 32 # b))"
      by (simp add: strtok_skip tok_skip_append Cons tok_scan_append tr split: option.splits)
    ultimately show ?thesis using less.hyps
      by (cases r) (simp_all add: toks.simps [of "Some (a @ 32 # b)"] toks.simps [of "Some a"])
  qed
qed

lemma tok_scan_size: "length (fst (tok_scan delim s)) \<le> length s"
  by (induction s) (auto split: prod.splits)

lemma toks_short: "t \<in> set (toks l) \<Longrightarrow> l = Some s \<Longrightarrow> length t \<le> length s"
proof (induction l arbitrary: s rule: toks.induct)
  case (1 l)
  show ?case
  proof (cases "tok_skip SPACE s")
    case Nil
    then show ?thesis using 1(2,3) by (simp add: toks.simps [of "Some s"] strtok_skip)
  next
    case (Cons c s')
    obtain u r where ur: "tok_scan SPACE s' = (u, r)" by (cases "tok_scan SPACE s'")
    have e: "strtok None l = (Some (c # u), r)" using 1(3) by (simp add: strtok_skip Cons ur)
    have "length (c # u) \<le> length s" using tok_skip_length [of SPACE s] tok_scan_size [of SPACE s'] Cons ur by simp
    moreover have "length t \<le> length s" if m: "t \<in> set (toks r)"
    proof -
      obtain m where r: "r = Some m" using m by (cases r) auto
      have "length m < length s" using strtok_shorter [of s "c # u" m] e 1(3) r by simp
      with 1(1) [OF e [symmetric] refl m r] show ?thesis by simp
    qed
    ultimately show ?thesis using 1(2) e by (auto simp: toks.simps [of l])
  qed
qed

section \<open>What becomes of the arguments\<close>

text \<open>The first loop runs to the end of the string: only its last token is kept.\<close>

lemma progname_loop_all:
  assumes "\<forall>t \<in> set (toks l). length t < bufsiz" "strtok None l = (s, r)" "c_lasts c = r"
  shows "progname_loop bufsiz s c = Some (None, c\<lparr>c_lasts := None,
    c_progname := (if toks l = [] then c_progname c else List.last (toks l))\<rparr>)"
  using assms
proof (induction l arbitrary: s r c rule: toks.induct)
  case (1 l)
  show ?case
  proof (cases s)
    case None
    then have "r = None" using 1(3) by (cases l) (auto simp: strtok_skip split: list.splits prod.splits)
    then show ?thesis using None 1(3,4) by (simp add: progname_loop.simps [of bufsiz None] toks.simps [of l])
  next
    case (Some t)
    have ts: "toks l = t # toks r" using 1(3) Some by (simp add: toks.simps [of l])
    obtain s' r' where n: "strtok None r = (s', r')" by (cases "strtok None r")
    have "progname_loop bufsiz s c = progname_loop bufsiz s' (c\<lparr>c_progname := t, c_lasts := r'\<rparr>)"
      using 1(2,4) Some ts n
      by (simp add: progname_loop.simps [of bufsiz "Some t"] set_progname_def next_token_def)
    also have "\<dots> = Some (None, (c\<lparr>c_progname := t, c_lasts := r'\<rparr>)\<lparr>c_lasts := None,
        c_progname := (if toks r = [] then c_progname (c\<lparr>c_progname := t, c_lasts := r'\<rparr>) else List.last (toks r))\<rparr>)"
      using 1(2) 1(3) Some ts n by (intro 1(1) [of s r t]) simp_all
    finally show ?thesis using ts by simp
  qed
qed

lemma exec_string_tokens: "\<exists>ts. toks (Some (exec_string nm args env)) = ts @ [MARK_TOKEN]"
proof -
  have "\<exists>P. spaced args @ MARK @ spaced env = P @ [32]"
    by (cases env rule: rev_cases) (simp_all add: spaced_def MARK_def SPACE_def)
  then obtain P where "spaced args @ MARK @ spaced env = P @ [32]" ..
  then have "exec_string nm args env = (nm @ SPACE @ P) @ 32 # (MARK_TOKEN @ 32 # [])"
    by (simp add: exec_string_def MARK_def MARK_TOKEN_def)
  moreover have "toks (Some MARK_TOKEN) = [MARK_TOKEN]" "toks (Some []) = []"
    by (subst toks.simps, simp add: strtok_skip MARK_TOKEN_def SPACE_def)+
  ultimately show ?thesis by (simp only: toks_append) simp
qed

lemma crt_init_exec_string:
  assumes "length (exec_string nm args env) < bufsiz"
  shows "crt_init bufsiz (exec_string nm args env)
    = Some \<lparr>c_progname = MARK_TOKEN, c_argc = 0, c_argv = None, c_env = [], c_lasts = None\<rparr>"
proof -
  let ?s = "exec_string nm args env"
  obtain s r where sr: "strtok None (Some ?s) = (s, r)" by (cases "strtok None (Some ?s)")
  obtain ts where "toks (Some ?s) = ts @ [MARK_TOKEN]" using exec_string_tokens by blast
  moreover have "\<forall>t \<in> set (toks (Some ?s)). length t < bufsiz" using toks_short [OF _ refl] assms by fastforce
  ultimately show ?thesis
    using progname_loop_all [OF _ sr, of bufsiz "\<lparr>c_progname = [], c_argc = 0, c_argv = None, c_env = [], c_lasts = r\<rparr>"] sr
    by (simp add: crt_init_def args_loop.simps [of None] env_loop.simps [of None])
qed



end
