(* ===== verification/Acpi.thy ===== *)
theory Acpi
  imports Aspace
begin

text \<open>
  The tables of the firmware, \<^verbatim>\<open>os/arch/x86/acpi.c\<close>: the search for the root table and the search for a
  table by its name, over the page tables through which the code reads them. The contents of the
  physical memory are a parameter. The switch to ACPI mode at the end of \<^verbatim>\<open>acpi_init\<close> is a sequence of
  port accesses and not modelled.
\<close>

section \<open>Model\<close>

text \<open>Reading memory through the tables of directory \<open>pd\<close>; a page that is not present is a page fault.\<close>

definition fw_byte :: "(u32 \<Rightarrow> byte) \<Rightarrow> u32 \<Rightarrow> vm \<Rightarrow> u32 \<Rightarrow> byte option" where
  "fw_byte M pd s a =
     do {
       ok \<leftarrow> x86_ptr_access pd a R_OK s;
       kassert ok;
       p \<leftarrow> x86_ptr_phys pd a s;
       Some (M p)
     }"

fun fw_bytes :: "(u32 \<Rightarrow> byte option) \<Rightarrow> u32 \<Rightarrow> nat \<Rightarrow> byte list option" where
  "fw_bytes rd a 0 = Some []"
| "fw_bytes rd a (Suc n) = do { b \<leftarrow> rd a; bs \<leftarrow> fw_bytes rd (a + 1) n; Some (b # bs) }"

text \<open>A 32-bit field; of a 64-bit field the code uses the low half only, as a pointer.\<close>

definition fw_u32 :: "(u32 \<Rightarrow> byte option) \<Rightarrow> u32 \<Rightarrow> u32 option" where
  "fw_u32 rd a = map_option (\<lambda>bs. of_nat (foldr (\<lambda>b v. unat b + 256 * v) bs 0)) (fw_bytes rd a 4)"

text \<open>\<^verbatim>\<open>strncmp\<close> with a name that has as many characters as are compared.\<close>

fun fw_match :: "(u32 \<Rightarrow> byte option) \<Rightarrow> u32 \<Rightarrow> byte list \<Rightarrow> bool option" where
  "fw_match rd a [] = Some True"
| "fw_match rd a (c # cs) = do { b \<leftarrow> rd a; if b = c then fw_match rd (a + 1) cs else Some False }"

definition acpi_cksum :: "(u32 \<Rightarrow> byte option) \<Rightarrow> u32 \<Rightarrow> nat \<Rightarrow> bool option" where
  "acpi_cksum rd p sz = map_option (\<lambda>bs. sum_list bs = 0) (fw_bytes rd p sz)"

text \<open>The two static variables.\<close>

record acpi =
  ac_RSDT :: u32
  ac_extended :: bool

abbreviation RSD_PTR :: "byte list" where "RSD_PTR \<equiv> [82, 83, 68, 32, 80, 84, 82, 32]"
abbreviation RSDT_LOCATION_START :: u32 where "RSDT_LOCATION_START \<equiv> CONFIG_KERNEL_BASE + 0xE0000"
abbreviation RSDT_LOCATION_END :: u32 where "RSDT_LOCATION_END \<equiv> CONFIG_KERNEL_BASE + 0xFFFFF"

partial_function (option) rsdp_scan :: "(u32 \<Rightarrow> byte option) \<Rightarrow> u32 \<Rightarrow> u32 option option" where
  "rsdp_scan rd p =
     (if p < RSDT_LOCATION_END
      then do {
        m \<leftarrow> fw_match rd p RSD_PTR;
        if \<not> m then rsdp_scan rd (p + 16)
        else do {
          ok \<leftarrow> acpi_cksum rd p 20;
          if ok then Some (Some p) else rsdp_scan rd (p + 16)
        }
      }
      else Some None)"

definition find_rsdt :: "(u32 \<Rightarrow> byte) \<Rightarrow> u32 \<Rightarrow> vm \<Rightarrow> (acpi option \<times> vm) option" where
  "find_rsdt M pd s =
     do {
       let rd = fw_byte M pd s;
       r \<leftarrow> rsdp_scan rd RSDT_LOCATION_START;
       case r of
         None \<Rightarrow> Some (None, s)
       | Some p \<Rightarrow>
           do {
             revision \<leftarrow> rd (p + 15);
             address \<leftarrow> fw_u32 rd (if revision = 0 then p + 16 else p + 24);
             kassert (address \<noteq> 0);
             (_, pm) \<leftarrow> pmm_claim address (address + PAGE_SIZE - 1) (vm_pmm s);
             let page = address AND NOT (PAGE_SIZE - 1);
             (_, s) \<leftarrow> x86_map_page pd page (drop_bit 12 page) (X86_MMU_PG_P OR X86_MMU_PG_RW OR X86_MMU_PG_CD)
                        (s\<lparr>vm_pmm := pm\<rparr>);
             Some (Some \<lparr>ac_RSDT = address, ac_extended = (revision \<noteq> 0)\<rparr>, s)
           }
     }"

text \<open>
  The entries of the root table follow its header of 36 bytes. The loop takes their number from the
  length of the table without the size of a pointer, \<^verbatim>\<open>sizeof(RSDT)\<close>, where the header was meant.
\<close>

abbreviation entry_size :: "acpi \<Rightarrow> u32" where
  "entry_size ac \<equiv> (if ac_extended ac then 8 else 4)"

fun acpi_find_loop :: "(u32 \<Rightarrow> byte option) \<Rightarrow> acpi \<Rightarrow> byte list \<Rightarrow> nat \<Rightarrow> nat \<Rightarrow> u32 option option" where
  "acpi_find_loop rd ac nm i 0 = Some None"
| "acpi_find_loop rd ac nm i (Suc n) =
     do {
       tmp \<leftarrow> fw_u32 rd (ac_RSDT ac + 36 + of_nat i * entry_size ac);
       kassert (tmp \<noteq> 0);
       len \<leftarrow> fw_u32 rd (tmp + 4);
       ok \<leftarrow> acpi_cksum rd tmp (unat len);
       kassert ok;
       m \<leftarrow> fw_match rd tmp nm;
       if m then Some (Some tmp) else acpi_find_loop rd ac nm (i + 1) n
     }"

definition acpi_find :: "(u32 \<Rightarrow> byte option) \<Rightarrow> acpi \<Rightarrow> byte list \<Rightarrow> u32 option option" where
  "acpi_find rd ac nm =
     (if ac_RSDT ac = 0 then Some None
      else do {
        len \<leftarrow> fw_u32 rd (ac_RSDT ac + 4);
        acpi_find_loop rd ac nm 0 (unat ((len - 4) div entry_size ac))
      })"

section \<open>Finding a table\<close>

lemma fw_bytes_numeral [simp]:
  "fw_bytes rd a (numeral k) = do { b \<leftarrow> rd a; bs \<leftarrow> fw_bytes rd (a + 1) (pred_numeral k); Some (b # bs) }"
  by (simp add: numeral_eq_Suc)

text \<open>A table that the firmware lists: it can be read as a whole and its bytes add up to zero.\<close>

definition sdt_ok :: "(u32 \<Rightarrow> byte option) \<Rightarrow> u32 \<Rightarrow> bool" where
  "sdt_ok rd t \<longleftrightarrow> t \<noteq> 0 \<and> (\<exists>len. fw_u32 rd (t + 4) = Some len \<and> acpi_cksum rd t (unat len) = Some True)"

definition listed :: "(u32 \<Rightarrow> byte option) \<Rightarrow> acpi \<Rightarrow> u32 list \<Rightarrow> bool" where
  "listed rd ac ts \<longleftrightarrow> (\<forall>i < length ts. fw_u32 rd (ac_RSDT ac + 36 + of_nat i * entry_size ac) = Some (ts ! i))
     \<and> (\<forall>t \<in> set ts. sdt_ok rd t)"

lemma listedE:
  assumes "listed rd ac ts" "i < length ts"
  obtains len where "fw_u32 rd (ac_RSDT ac + 36 + of_nat i * entry_size ac) = Some (ts ! i)" "ts ! i \<noteq> 0"
    "fw_u32 rd (ts ! i + 4) = Some len" "acpi_cksum rd (ts ! i) (unat len) = Some True"
proof -
  have "sdt_ok rd (ts ! i)" using assms nth_mem by (simp add: listed_def)
  then obtain len where "ts ! i \<noteq> 0" "fw_u32 rd (ts ! i + 4) = Some len" "acpi_cksum rd (ts ! i) (unat len) = Some True"
    unfolding sdt_ok_def by blast
  moreover have "fw_u32 rd (ac_RSDT ac + 36 + of_nat i * entry_size ac) = Some (ts ! i)"
    using assms unfolding listed_def by blast
  ultimately show thesis using that by blast
qed

lemma acpi_find_loop_skip:
  assumes "listed rd ac ts" "\<forall>j. i \<le> j \<and> j < i + k \<longrightarrow> fw_match rd (ts ! j) nm = Some False" "i + k \<le> length ts"
  shows "acpi_find_loop rd ac nm i (k + n) = acpi_find_loop rd ac nm (i + k) n"
  using assms
proof (induction k arbitrary: i)
  case (Suc k)
  have i: "i < length ts" using Suc.prems(3) by simp
  obtain len where l: "fw_u32 rd (ac_RSDT ac + 36 + of_nat i * entry_size ac) = Some (ts ! i)" "ts ! i \<noteq> 0"
    "fw_u32 rd (ts ! i + 4) = Some len" "acpi_cksum rd (ts ! i) (unat len) = Some True"
    by (rule listedE [OF Suc.prems(1) i])
  have m: "fw_match rd (ts ! i) nm = Some False" using Suc.prems(2) by simp
  have "acpi_find_loop rd ac nm i (Suc (k + n)) = acpi_find_loop rd ac nm (Suc i) (k + n)"
    using l m by (simp split: if_splits)
  with Suc show ?case by simp
qed simp

lemma acpi_find_loop_hit:
  assumes "listed rd ac ts" "i < length ts" "fw_match rd (ts ! i) nm = Some True"
  shows "acpi_find_loop rd ac nm i (Suc n) = Some (Some (ts ! i))"
proof -
  obtain len where "fw_u32 rd (ac_RSDT ac + 36 + of_nat i * entry_size ac) = Some (ts ! i)" "ts ! i \<noteq> 0"
    "fw_u32 rd (ts ! i + 4) = Some len" "acpi_cksum rd (ts ! i) (unat len) = Some True"
    by (rule listedE [OF assms(1,2)])
  with assms(3) show ?thesis by (simp split: if_splits)
qed

text \<open>The number of entries that the loop looks at, for a root table with \<open>k\<close> entries.\<close>

lemma entry_count:
  assumes "36 + k * 4 < 2 ^ 32"
  shows "unat ((of_nat (36 + k * 4) - 4 :: u32) div 4) = k + 8"
proof -
  have "of_nat (36 + k * 4) - 4 = (of_nat ((k + 8) * 4) :: u32)" by (simp add: algebra_simps)
  moreover have "unat (of_nat ((k + 8) * 4) :: u32) = (k + 8) * 4" using assms by (simp only: unat_of_nat) simp
  ultimately have "unat ((of_nat (36 + k * 4) - 4 :: u32) div 4) = (k + 8) * 4 div unat (4 :: u32)"
    by (simp only: unat_div_distrib)
  then show ?thesis by simp
qed

text \<open>A search returns the first table with the name that the root table lists.\<close>

lemma acpi_find_first:
  assumes "ac_RSDT ac \<noteq> 0" "\<not> ac_extended ac" "fw_u32 rd (ac_RSDT ac + 4) = Some (of_nat (36 + length ts * 4))"
    "36 + length ts * 4 < 2 ^ 32" "listed rd ac ts" "j < length ts" "fw_match rd (ts ! j) nm = Some True"
    "\<forall>i < j. fw_match rd (ts ! i) nm = Some False"
  shows "acpi_find rd ac nm = Some (Some (ts ! j))"
proof -
  let ?k = "length ts"
  have "acpi_find rd ac nm = acpi_find_loop rd ac nm 0 (?k + 8)"
    using assms(1-3) entry_count [OF assms(4)] by (simp add: acpi_find_def)
  also have "?k + 8 = j + Suc (?k + 7 - j)" using assms(6) by simp
  finally show ?thesis
    using acpi_find_loop_skip [OF assms(5), of 0 j nm "Suc (?k + 7 - j)"] assms(6-8)
      acpi_find_loop_hit [OF assms(5-7), of "?k + 7 - j"] by simp
qed

text \<open>
  A search for a name that no table has does not answer -1: the loop goes on behind the root table,
  and when the word there is zero the call ends in an assertion.
\<close>

lemma acpi_find_overreads:
  assumes "ac_RSDT ac \<noteq> 0" "\<not> ac_extended ac" "fw_u32 rd (ac_RSDT ac + 4) = Some (of_nat (36 + length ts * 4))"
    "36 + length ts * 4 < 2 ^ 32" "listed rd ac ts" "\<forall>i < length ts. fw_match rd (ts ! i) nm = Some False"
    "fw_u32 rd (ac_RSDT ac + 36 + of_nat (length ts) * 4) = Some 0"
  shows "acpi_find rd ac nm = None"
proof -
  have "acpi_find rd ac nm = acpi_find_loop rd ac nm 0 (length ts + Suc 7)"
    using assms(1-3) entry_count [OF assms(4)] by (simp add: acpi_find_def)
  also have "\<dots> = acpi_find_loop rd ac nm (length ts) (Suc 7)"
    using acpi_find_loop_skip [OF assms(5), of 0 "length ts" nm "Suc 7"] assms(6) by simp
  also have "\<dots> = None" using assms(2,7) by (subst acpi_find_loop.simps(2)) simp
  finally show ?thesis .
qed

section \<open>The root table\<close>

text \<open>After the root table was found its page can be read at its own address: every byte of it is the byte
  of the physical memory. The case of a table above the memory that the page allocator manages.\<close>

lemma acpi_flags_ok: "flags_ok ((X86_MMU_PG_P OR X86_MMU_PG_RW OR X86_MMU_PG_CD) AND NOT X86_MMU_PG_NX)"
  using arch_map_flags_ok [of "ARCH_MAP_RDWR OR ARCH_MAP_UNCACHED"]
  by (simp add: arch_map_flags_def ARCH_MAP_RDWR_def ARCH_MAP_UNCACHED_def ARCH_MAP_USER_def ARCH_MAP_NOEXEC_def
      ARCH_MAP_SHARED_def ARCH_MAP_VIDEO_MEMORY_def ARCH_MAP_FIXED_def or.assoc)

lemma page_split: "of_nat (pn a * 4096) + (a AND 0xFFF) = a"
proof -
  have "unat a = pn a * 4096 + unat (a AND 0xFFF)"
    by (simp add: pn_div unat_page_offset)
  then have "of_nat (unat a) = (of_nat (pn a * 4096 + unat (a AND 0xFFF)) :: u32)" by (rule arg_cong)
  then show ?thesis by simp
qed

lemma find_rsdt_maps:
  assumes wf: "pt_wf s d" and p: "rsdp_scan (fw_byte M (frame_addr d) s) RSDT_LOCATION_START = Some (Some p)"
    and r: "fw_byte M (frame_addr d) s (p + 15) = Some 0" "fw_u32 (fw_byte M (frame_addr d) s) (p + 16) = Some address"
    and a: "address \<noteq> 0" "memory_size (vm_pmm s) < ucast (address + PAGE_SIZE - 1)"
    and un: "unmapped s d (pa (pn address))" and room: "card (vm_taken s) + 2 \<le> pmm_blocks (vm_pmm s)"
  shows "\<exists>t. find_rsdt M (frame_addr d) s = Some (Some \<lparr>ac_RSDT = address, ac_extended = False\<rparr>, t) \<and> pt_wf t d
    \<and> (\<forall>b. pn b = pn address \<longrightarrow> fw_byte M (frame_addr d) t b = Some (M b))"
proof -
  let ?pg = "pa (pn address)" and ?fl = "X86_MMU_PG_P OR X86_MMU_PG_RW OR X86_MMU_PG_CD"
  have blk: "unat (drop_bit 12 ?pg) = pn address" using pn_pa [OF pn_less] by (simp add: pn_def)
  then have b: "drop_bit 12 ?pg \<noteq> - 1 \<longrightarrow> unat (drop_bit 12 ?pg) < 2 ^ 20" "drop_bit 12 ?pg \<noteq> - 1"
    using pn_less [of address] by (auto simp: unsigned_minus_1_eq_mask mask_eq_exp_minus_1)
  from un have u: "\<not> bit (cell s d (pdi ?pg)) 7" "\<not> bit (page_entry s d ?pg) 0" by (simp_all add: unmapped_def)
  from x86_map_page_spec [OF wf u acpi_flags_ok room b(1)] b(2) blk obtain t e where
    t: "x86_map_page (frame_addr d) ?pg (drop_bit 12 ?pg) ?fl s = Some ((), t)" "pt_wf t d" "bit e 0" "frame_of e = pn address"
      "\<forall>a'. page_entry t d a' = (if same_page a' ?pg then e else page_entry s d a')"
      "\<forall>a'. bit (cell t d (pdi a')) 7 \<longleftrightarrow> bit (cell s d (pdi a')) 7" "tables t d = insert (pdi ?pg) (tables s d)" by auto
  have "fw_byte M (frame_addr d) t b = Some (M b)" if "pn b = pn address" for b
  proof -
    have sp: "same_page b ?pg" using that pn_pa [OF pn_less, of address] by (simp add: same_page_pn)
    then have i: "pdi b = pdi ?pg" by (simp add: same_page_idx)
    then have "\<not> bit (cell t d (pdi b)) 7" "pdi b \<in> tables t d" using t(6,7) u(1) by simp_all
    then show ?thesis
      using t(3-5) sp x86_ptr_access_entry [OF t(2)] x86_ptr_phys_entry [OF t(2)] page_split [of b] that
      by (simp add: fw_byte_def R_OK_def W_OK_def)
  qed
  moreover have "find_rsdt M (frame_addr d) s = Some (Some \<lparr>ac_RSDT = address, ac_extended = False\<rparr>, t)"
    using p r a t(1) by (simp add: find_rsdt_def pmm_claim_def Let_def page_mask)
  ultimately show ?thesis using t(2) by blast
qed

text \<open>A root table with one entry: the table is found, and the search for another name ends in an assertion.\<close>

definition demo_fw :: "u32 \<Rightarrow> byte option" where
  "demo_fw a = Some (if a = 0x1004 then 40 else if a = 0x1025 then 0x20 else if a = 0x2000 then 70
     else if a = 0x2001 then 65 else if a = 0x2002 then 67 else if a = 0x2003 then 80 else if a = 0x2004 then 9
     else if a = 0x2008 then 221 else 0)"

definition demo_acpi :: acpi where
  "demo_acpi = \<lparr>ac_RSDT = 0x1000, ac_extended = False\<rparr>"

lemma demo_words:
  "fw_u32 demo_fw 0x1004 = Some 40" "fw_u32 demo_fw 0x1024 = Some 0x2000" "fw_u32 demo_fw 0x1028 = Some 0"
  "fw_u32 demo_fw 0x2004 = Some 9"
  by (simp_all add: fw_u32_def demo_fw_def)

lemma demo_listed: "listed demo_fw demo_acpi [0x2000]"
proof -
  have "acpi_cksum demo_fw 0x2000 9 = Some True" by (simp add: acpi_cksum_def demo_fw_def)
  then have "sdt_ok demo_fw 0x2000" using demo_words(4) by (simp add: sdt_ok_def)
  then show ?thesis using demo_words(2) by (simp add: listed_def demo_acpi_def)
qed

lemma acpi_find_demo:
  "acpi_find demo_fw demo_acpi [70, 65, 67, 80] = Some (Some 0x2000)" "acpi_find demo_fw demo_acpi [65, 80, 73, 67] = None"
proof -
  have l: "fw_u32 demo_fw (ac_RSDT demo_acpi + 4) = Some (of_nat (36 + length [0x2000 :: u32] * 4))"
    "fw_u32 demo_fw (ac_RSDT demo_acpi + 36 + of_nat (length [0x2000 :: u32]) * 4) = Some 0"
    "ac_RSDT demo_acpi \<noteq> 0" "\<not> ac_extended demo_acpi"
    using demo_words by (simp_all add: demo_acpi_def)
  show "acpi_find demo_fw demo_acpi [70, 65, 67, 80] = Some (Some 0x2000)"
    using acpi_find_first [OF l(3,4,1) _ demo_listed, of 0] by (simp add: demo_fw_def)
  show "acpi_find demo_fw demo_acpi [65, 80, 73, 67] = None"
    using acpi_find_overreads [OF l(3,4,1) _ demo_listed _ l(2)] by (simp add: demo_fw_def)
qed

end
