(* ===== verification/Spec2Isabelle.thy ===== *)
theory Spec2Isabelle
  imports Kprelude Ringbuffer Pmm Ipc Klist Paging Aspace Vfs_Cache Vfs_State Vfs Tmpfs Tmpfs_Inv Ext2 Ext2_Volume Fsys Ext2_Loop Paths Modules
    Sched Syscall_Table Timer Block Block_Write Devices Netsys Pci Inet_Chksum Inet_Addr
    Execve Crt Acpi
begin

text \<open>
  \<^bold>\<open>A verification of the aPlus kernel\<close>

  aPlus is a small operating system for x86. This library models the parts of its kernel that manage
  memory, files, tasks and devices, for the 32-bit debug build (\<^verbatim>\<open>size_t\<close>, \<^verbatim>\<open>long\<close> and \<^verbatim>\<open>off_t\<close> have 32 bits,
  \<^verbatim>\<open>DEBUG_ASSERT\<close> is active), and proves what makes them correct. File names are relative to
  \<^verbatim>\<open>src/os\<close>.

  \<^bold>\<open>How the code is modelled.\<close> Every C function is a HOL function over an explicit state, a record with
  the fields of the C structures it touches; machine integers are words of their width, so that sums
  and products wrap as in C, and are read as signed where the code does. Memory that is shared by
  pointer is a finite map from addresses (lists, inodes, tasks, super blocks) or a memory of words
  (page tables). The result is an \<open>option\<close>: \<open>None\<close> means that control does not come back, be it a
  failed assertion, \<^verbatim>\<open>kpanic\<close>, a lock that is already held, an endless loop or an access outside its
  object; an error the code reports is a value. Loops are structural or measured recursion, and
  \<^theory_text>\<open>partial_function\<close> where they may not end. Callbacks (drivers, file system operations, the code
  behind a system call number) are arguments, and what a theorem needs of them is a hypothesis.

  \<^bold>\<open>The theories.\<close>

  \<^item> \<open>Kprelude\<close>: machine types, assertions, the lock bracket of \<^verbatim>\<open>include/aplus/ipc.h\<close>, arrays with their
    bounds, and shared lemmas.
  \<^item> \<open>Ringbuffer\<close>: \<^verbatim>\<open>kernel/utils/ringbuffer.c\<close>. The locale \<open>bounded_fifo\<close> is the contract of a bounded
    queue that forgets its oldest bytes; its interpretation gives the refinement for every sequence
    of reads and writes.
  \<^item> \<open>Pmm\<close>: the bitmap of the page frames, \<^verbatim>\<open>kernel/mm/pmm.c\<close>: allocation returns the lowest free frame,
    frames are not handed out twice, freeing undoes allocating, and the memory of the kernel stays
    reserved after the initialisation.
  \<^item> \<open>Ipc\<close>: spin locks and semaphores, \<^verbatim>\<open>kernel/ipc\<close>, as step relations of any number of processors:
    mutual exclusion, progress, and the conservation law of a semaphore; a lemma shows the race
    between the test and the decrement of \<^verbatim>\<open>sem_wait\<close>.
  \<^item> \<open>Klist\<close>: the doubly linked lists of \<^verbatim>\<open>src/sdk/libs/aplus/utils/list.c\<close> over a heap, refined to lists.
  \<^item> \<open>Paging\<close> and \<open>Aspace\<close>: the two-level page tables of \<^verbatim>\<open>arch/x86/32/vmm.c\<close> in a memory of words, the
    range loops of \<^verbatim>\<open>arch/x86/vmm.c\<close>, address spaces of \<^verbatim>\<open>kernel/mm/aspace.c\<close> and the call \<^verbatim>\<open>brk\<close>: mapping
    a page gives it exactly the new translation and keeps all others, unmapping a range undoes
    mapping it, and \<^verbatim>\<open>brk\<close> maps exactly the pages it should.
  \<^item> \<open>Vfs_Cache\<close>, \<open>Vfs_State\<close>, \<open>Vfs\<close>, \<open>Tmpfs\<close>, \<open>Tmpfs_Inv\<close>, \<open>Fsys\<close>, \<open>Paths\<close>: the file system. \<open>Vfs_Cache\<close>
    is \<^verbatim>\<open>kernel/fs/cache.c\<close> with the contract \<open>object_cache\<close>; \<open>Vfs_State\<close> the state, the directory cache
    and the table of operations; \<open>Vfs\<close> the functions of \<^verbatim>\<open>kernel/fs/vfs.c\<close>, the root file system and bind
    mounts; \<open>Tmpfs\<close> the memory file system with the contract \<open>byte_file\<close> of a file as an array of
    bytes; \<open>Fsys\<close> path resolution and the system calls on files. Shown are: what is written is read
    back, from the system call down to the block of the file; the space and inode counters of tmpfs
    are exact in every reachable state; paths resolve to the inode their names lead to; created
    names are found and removed ones are not; a bind mount behaves as the bound directory; and
    \<^verbatim>\<open>open\<close> returns the lowest free descriptor. Further lemmas show where the code goes wrong.
  \<^item> \<open>Ext2\<close>, \<open>Ext2_Volume\<close>, \<open>Ext2_Loop\<close>: the driver of \<^verbatim>\<open>kernel/fs/ext2\<close>, which reads and writes its device
    through \<open>Vfs\<close>. \<open>Ext2\<close> has its functions; \<open>Ext2_Volume\<close> the block map of the format as a specification, the
    contract \<open>disk_device\<close> of a device that is an array of bytes, and the proof that reading and writing
    act on the bytes of the file; \<open>Ext2_Loop\<close> shows that an image in a tmpfs file keeps the contract, and
    with it that mounting such an image works and what is written to its files is read back. Files
    that need a doubly indirect block are excluded, because the driver gets them wrong, and reading
    at the end of a file, because the driver asserts there; both are shown.
  \<^item> \<open>Sched\<close>: tasks, \<^verbatim>\<open>kernel/sched.c\<close>, \<^verbatim>\<open>arch/x86/task.c\<close> and \<^verbatim>\<open>arch/x86/smp.c\<close>: the run queue as a list,
    which task a switch picks and what it saves and restores, the invariant of the queue, and that
    every ready task runs after at most as many yields as there are tasks.
  \<^item> \<open>Modules\<close>: \<^verbatim>\<open>kernel/core/dl.c\<close> and \<^verbatim>\<open>kernel/init/module.c\<close>: the symbols of the kernel and the loading, linking and
    initialisation of modules: sections get places of their own and their contents, relocations refer to
    their symbols, and every module is initialised once, after those it depends on.
  \<^item> \<open>Syscall_Table\<close>: \<^verbatim>\<open>kernel/syscall.c\<close>. \<open>Timer\<close>: the real time clock against the Gregorian calendar.
  \<^item> \<open>Block\<close>, \<open>Block_Write\<close>, \<open>Devices\<close>: the block layer of \<^verbatim>\<open>drivers/dev/block\<close> over a driver that
    transfers whole blocks, character and video devices, and the device interface: reads return the
    bytes of the disk and writes replace exactly their range, with the two flaws of the code as
    lemmas.
  \<^item> \<open>Pci\<close>: the PCI driver of \<^verbatim>\<open>drivers/platform/pc/dev/pci\<close> over the answers of the ports: a scan finds every
    function, if no bridge leads back, and never ends with an ordinary bridge.
  \<^item> \<open>Acpi\<close>: the tables of the firmware, \<^verbatim>\<open>arch/x86/acpi.c\<close>, read through the page tables: a search returns the first
    table of a name, and a search without a hit runs behind the root table.
  \<^item> \<open>Netsys\<close>: \<^verbatim>\<open>kernel/network/sys.c\<close>, the system layer under lwIP: a mailbox is a stack of messages, a full one
    overruns its array, and a wait with a time limit ends among any number of other processors.
  \<^item> \<open>Inet_Chksum\<close>, \<open>Inet_Addr\<close>: of lwIP itself, \<^verbatim>\<open>kernel/network/core/inet_chksum.c\<close> and \<^verbatim>\<open>core/ipv4/ip4_addr.c\<close>: the optimised
    checksum is the ones' complement sum, also over chains of buffers with a pseudo header, a packet with
    its checksum stored verifies, and printed addresses are parsed back.
  \<^item> \<open>Execve\<close>: \<^verbatim>\<open>kernel/syscalls/059_execve.c\<close> over the file system calls, the address spaces and the page tables:
    a program is in memory as its file says, with its strings and its stack, when the task continues at its
    entry point; an error on the way leaves the task locked.
  \<^item> \<open>Crt\<close>: the start code \<^verbatim>\<open>sdk/libs/crt/crt0.c\<close> with \<^verbatim>\<open>strtok\<close>, on the memory that \<open>Execve\<close> leaves: no
    argument of a program reaches its \<^verbatim>\<open>main\<close>.

  \<^bold>\<open>How the parts meet.\<close> The system calls of \<open>Fsys\<close> call \<open>Vfs\<close>, which dispatches through \<open>fs_dispatch\<close> to
  \<open>Tmpfs\<close>, the root file system or, for a bind mount, again to \<open>Vfs\<close>; the knot is tied by a depth of bind
  mounts and mounted volumes. \<open>Tmpfs\<close> and \<open>Ext2\<close> keep their nodes in the cache of \<open>Vfs_Cache\<close>; \<open>Ext2\<close> calls \<open>Vfs\<close> for
  the device it is mounted from, which is an inode like any other. \<open>Aspace\<close> maps pages through \<open>Paging\<close>, which
  allocates frames from \<open>Pmm\<close>. The character devices of \<open>Devices\<close> buffer in \<open>Ringbuffer\<close>, its block devices
  are those of \<open>Block\<close>. \<open>Execve\<close> calls the system calls of \<open>Fsys\<close>, which check pointers against the tables
  that \<open>Aspace\<close> and \<open>Paging\<close> keep, and what it leaves in memory is what \<open>Crt\<close> starts from.

  \<^bold>\<open>Bounds and fuel.\<close> \<open>fs_dispatch X n\<close> follows at most \<open>n\<close> bind mounts and ext2 volumes on top of each other and
  \<open>path_lookup D n\<close> at most \<open>n\<close> symbolic links inside each other; the theorems about them hold for every
  \<open>n\<close> (those about bind mounts and ext2 files for every \<open>n\<close> above zero), so no choice of a bound is built in.
  The depth that \<open>module_init\<close> gives to \<open>module_run\<close> is one more than there are modules; \<open>module_run_fuel\<close> shows
  that a greater one changes nothing. Where a theorem limits sizes to less than two gigabytes it is because the code
  compares them as signed numbers.

  \<^bold>\<open>Not modelled.\<close> The boot code, interrupt entry and the programming of the APIC, the timer chip,
  AHCI, IDE and the display adapter are assembly or sequences of port and memory accesses whose
  meaning is that of the hardware. The allocator (\<^verbatim>\<open>dlmalloc.h\<close>), the rest of lwIP, the C library and
  the terminal library are bundled code of other projects; the applications only call the C library. The
  64-bit page tables belong to a build other than the one modelled. System calls whose body
  is \<^verbatim>\<open>return -ENOSYS\<close> have nothing to prove.
\<close>

end
